(* ===== verification/Opbox_Prelude.thy ===== *)
theory Opbox_Prelude
  imports
    Main
    "HOL-Library.List_Lexorder"
    "HOL-Library.Char_ord"
    "HOL-Library.Product_Lexorder"
    "HOL-Library.Word"
    "HOL-Library.Multiset"
begin

text \<open>
  Shared vocabulary of the development: Rust's \<open>Result\<close> as a sum type with the error
  datatype of the semantic layer, the \<open>?\<close> operator as \<open>bind_res\<close>, \<open>for\<close> loops whose
  body may fail as \<open>fold_res\<close>, \<open>collect::<Result<Vec<_>>>()\<close> as \<open>map_res\<close>, the checked
  arithmetic of \<open>u64\<close> and \<open>i64\<close>, and the list lemmas the components share.

  A Rust \<open>Bytes\<close>/\<open>Vec<u8>\<close> and a Rust \<open>String\<close> (its UTF-8 bytes) are both lists of HOL
  characters, which are exactly the 256 byte values; the lexicographic order on such lists
  (\<open>List_Lexorder\<close> over \<open>Char_ord\<close>) is the order Rust derives for byte strings and strings.
  Unsigned 64-bit counters are \<open>nat\<close> with the bound written out where the code checks it;
  instants (\<open>OffsetDateTime\<close>) are \<open>int\<close> nanoseconds since the epoch.
\<close>

named_theorems res_simps \<open>how results flow through the error monad\<close>
named_theorems db_simps \<open>what an operation of the store leaves alone and what it writes\<close>

type_synonym bytes = string
type_synonym object_id = bytes
type_synonym claim_id = bytes
type_synonym writer_id = bytes
type_synonym time_ns = int

datatype error = Fatal | InvariantViolation | TursoRetryable | Panicked | Disconnected

type_synonym 'a res = "error + 'a"

definition bind_res :: "'a res \<Rightarrow> ('a \<Rightarrow> 'b res) \<Rightarrow> 'b res" where
  "bind_res m f = (case m of Inl e \<Rightarrow> Inl e | Inr x \<Rightarrow> f x)"

definition map_ok :: "('a \<Rightarrow> 'b) \<Rightarrow> 'a res \<Rightarrow> 'b res" where
  "map_ok f m = (case m of Inl e \<Rightarrow> Inl e | Inr x \<Rightarrow> Inr (f x))"

definition ok_or :: "'a option \<Rightarrow> error \<Rightarrow> 'a res" where
  "ok_or x e = (case x of None \<Rightarrow> Inl e | Some v \<Rightarrow> Inr v)"

definition ensure :: "bool \<Rightarrow> error \<Rightarrow> unit res" where
  "ensure b e = (if b then Inr () else Inl e)"

definition is_ok :: "'a res \<Rightarrow> bool" where
  "is_ok m = (case m of Inl _ \<Rightarrow> False | Inr _ \<Rightarrow> True)"

fun fold_res :: "('a \<Rightarrow> 's \<Rightarrow> 's res) \<Rightarrow> 'a list \<Rightarrow> 's \<Rightarrow> 's res" where
  "fold_res f [] s = Inr s"
| "fold_res f (x # xs) s = bind_res (f x s) (fold_res f xs)"

fun map_res :: "('a \<Rightarrow> 'b res) \<Rightarrow> 'a list \<Rightarrow> 'b list res" where
  "map_res f [] = Inr []"
| "map_res f (x # xs) = bind_res (f x) (\<lambda>y. map_ok ((#) y) (map_res f xs))"

definition fatal_only :: "('a \<Rightarrow> 'b res) \<Rightarrow> bool" where
  "fatal_only f \<longleftrightarrow> (\<forall>x e. f x = Inl e \<longrightarrow> e = Fatal)"

definition u64_max :: nat where
  "u64_max = 18446744073709551615"

definition i64_max :: nat where
  "i64_max = 9223372036854775807"

definition checked_add_u64 :: "nat \<Rightarrow> nat \<Rightarrow> nat option" where
  "checked_add_u64 a b = (if a + b \<le> u64_max then Some (a + b) else None)"

text \<open>\<open>i64::try_from\<close> of a \<open>u64\<close>, and of the \<open>i128\<close> nanoseconds of an instant.\<close>

definition i64_from_u64 :: "nat \<Rightarrow> nat option" where
  "i64_from_u64 n = (if n \<le> i64_max then Some n else None)"

definition i64_range :: "int \<Rightarrow> bool" where
  "i64_range t \<longleftrightarrow> - int i64_max - 1 \<le> t \<and> t \<le> int i64_max"

section \<open>The error monad\<close>

lemma bind_res_Inr [simp]: "bind_res (Inr x) f = f x"
  by (simp add: bind_res_def)

lemma bind_res_Inl [simp]: "bind_res (Inl e) f = Inl e"
  by (simp add: bind_res_def)

lemma bind_res_eq_Inr [res_simps]:
  "bind_res m f = Inr y \<longleftrightarrow> (\<exists>x. m = Inr x \<and> f x = Inr y)"
  by (cases m) auto

lemma bind_res_eq_Inl:
  "bind_res m f = Inl e \<longleftrightarrow> m = Inl e \<or> (\<exists>x. m = Inr x \<and> f x = Inl e)"
  by (cases m) auto

lemma bind_res_assoc: "bind_res (bind_res m f) g = bind_res m (\<lambda>x. bind_res (f x) g)"
  by (cases m) auto

lemma map_ok_simps [simp]: "map_ok f (Inl e) = Inl e" "map_ok f (Inr x) = Inr (f x)"
  by (simp_all add: map_ok_def)

lemma map_ok_eq_Inr [res_simps]: "map_ok f m = Inr y \<longleftrightarrow> (\<exists>x. m = Inr x \<and> y = f x)"
  by (cases m) auto

lemma ok_or_simps [simp]: "ok_or None e = Inl e" "ok_or (Some v) e = Inr v"
  by (simp_all add: ok_or_def)

lemma ok_or_eq_Inr [res_simps]: "ok_or x e = Inr v \<longleftrightarrow> x = Some v"
  by (cases x) auto

lemma ensure_eq_Inr [res_simps]: "ensure b e = Inr u \<longleftrightarrow> b"
  by (simp add: ensure_def)

lemma ensure_True [simp]: "ensure True e = Inr ()"
  by (simp add: ensure_def)

lemma ensure_False [simp]: "ensure False e = Inl e"
  by (simp add: ensure_def)

lemma is_ok_simps [simp]: "is_ok (Inr x)" "\<not> is_ok (Inl e)"
  by (simp_all add: is_ok_def)

lemma fold_res_append:
  "fold_res f (xs @ ys) s = bind_res (fold_res f xs s) (fold_res f ys)"
  by (induction xs arbitrary: s) (auto simp: bind_res_def split: sum.splits)

text \<open>Loop invariants for \<open>fold_res\<close>: partial correctness, and success of the whole loop.\<close>

lemma fold_res_inv:
  assumes "fold_res f xs s = Inr t" and "I s"
    and "\<And>x u v. x \<in> set xs \<Longrightarrow> I u \<Longrightarrow> f x u = Inr v \<Longrightarrow> I v"
  shows "I t"
  using assms
proof (induction xs arbitrary: s)
  case Nil
  then show ?case by simp
next
  case (Cons x xs)
  then obtain u where u: "f x s = Inr u" and rest: "fold_res f xs u = Inr t"
    by (auto simp: res_simps)
  have "I u" using Cons.prems(2,3) u by auto
  with rest Cons.prems(3) show ?case by (auto intro: Cons.IH)
qed

lemma fold_res_total:
  assumes "I xs s"
    and "\<And>y ys u. I (y # ys) u \<Longrightarrow> \<exists>v. f y u = Inr v \<and> I ys v"
  shows "\<exists>t. fold_res f xs s = Inr t \<and> I [] t"
  using assms(1)
proof (induction xs arbitrary: s)
  case Nil
  then show ?case by simp
next
  case (Cons x xs)
  from assms(2) [OF Cons.prems] obtain v where v: "f x s = Inr v" and "I xs v" by blast
  from Cons.IH [OF this(2)] v show ?case by simp
qed

lemma fold_res_Inr_map:
  "(\<And>x s. x \<in> set xs \<Longrightarrow> f x s = Inr (g x s)) \<Longrightarrow> fold_res f xs s = Inr (fold g xs s)"
  by (induction xs arbitrary: s) auto

lemma map_res_eq_Inr:
  "map_res f xs = Inr ys \<longleftrightarrow> list_all2 (\<lambda>x y. f x = Inr y) xs ys"
  by (induction xs arbitrary: ys)
    (auto simp: res_simps list_all2_Cons1)

lemma map_res_all_ok: "(\<And>x. x \<in> set xs \<Longrightarrow> f x = Inr (g x)) \<Longrightarrow> map_res f xs = Inr (map g xs)"
  by (induction xs) auto

lemma map_res_length: "map_res f xs = Inr ys \<Longrightarrow> length ys = length xs"
  by (auto simp: map_res_eq_Inr dest: list_all2_lengthD)

text \<open>When every failure is \<open>Fatal\<close>, the result of \<open>map_res\<close> does not depend on the order.\<close>

lemma map_res_fatal:
  assumes "fatal_only f"
  shows "map_res f xs =
    (if \<forall>x\<in>set xs. is_ok (f x) then Inr (map (\<lambda>x. projr (f x)) xs) else Inl Fatal)"
proof (induction xs)
  case Nil
  then show ?case by simp
next
  case (Cons x xs)
  then show ?case using assms by (cases "f x") (auto simp: fatal_only_def)
qed

lemma map_res_perm:
  assumes "fatal_only f" and "mset xs = mset ys"
  shows "map_ok mset (map_res f xs) = map_ok mset (map_res f ys)"
  using assms mset_eq_setD [OF assms(2)] by (simp add: map_res_fatal mset_map)

lemma map_ok_mset_cases:
  assumes "map_ok mset a = map_ok mset b"
  obtains e where "a = Inl e" "b = Inl e"
    | xs ys where "a = Inr xs" "b = Inr ys" "mset xs = mset ys"
  using assms by (cases a; cases b) auto

section \<open>Checked arithmetic\<close>

lemma checked_add_u64_Some:
  "checked_add_u64 a b = Some c \<longleftrightarrow> c = a + b \<and> a + b \<le> u64_max"
  by (auto simp: checked_add_u64_def)

lemma i64_from_u64_Some: "i64_from_u64 n = Some m \<longleftrightarrow> m = n \<and> n \<le> i64_max"
  by (auto simp: i64_from_u64_def)

lemma i64_max_less_u64_max: "i64_max < u64_max"
  by (simp add: i64_max_def u64_max_def)

section \<open>Lists\<close>

lemma sorted_wrt_less_distinct: "sorted_wrt (<) (xs :: 'a :: linorder list) \<Longrightarrow> distinct xs"
  by (simp add: strict_sorted_iff)

lemma sorted_wrt_less_set_eq:
  "sorted_wrt (<) (xs :: 'a :: linorder list) \<Longrightarrow> sorted_wrt (<) ys \<Longrightarrow> set xs = set ys \<Longrightarrow> xs = ys"
  by (simp add: strict_sorted_equal)

lemma map_inj_distinct: "distinct (map f xs) \<Longrightarrow> x \<in> set xs \<Longrightarrow> y \<in> set xs \<Longrightarrow> f x = f y \<Longrightarrow> x = y"
  by (auto simp: distinct_map inj_on_def)

lemma distinct_map_filter_snoc:
  "distinct (map f xs) \<Longrightarrow> distinct (map f (filter P xs))"
  by (induction xs) auto

lemma sort_key_sorted_unique:
  assumes "mset xs = mset ys" and "inj_on k (set xs)"
  shows "sort_key k xs = sort_key k ys"
proof -
  have "mset xs = mset (sort_key k ys)" using assms(1) by simp
  then show ?thesis by (rule sort_key_inj_key_eq) (use assms(2) in auto)
qed

end
