(* ===== verification/Ordered_Map.thy ===== *)
theory Ordered_Map
  imports Opbox_Prelude
begin

text \<open>
  Rust's \<open>BTreeMap\<close> as the code uses it: an association list kept strictly ascending in its
  keys, so that iterating the list is iterating the map. \<open>finite_map\<close> is the interface the
  clients rely on (what \<open>get\<close> returns after \<open>insert\<close> and \<open>remove\<close>, what the key list holds,
  which operations keep the well-formedness); the interpretation \<open>btree\<close> discharges it for
  the association list.
\<close>

type_synonym ('k, 'v) btree_map = "('k \<times> 'v) list"

definition bt_wf :: "('k :: linorder, 'v) btree_map \<Rightarrow> bool" where
  "bt_wf m \<longleftrightarrow> sorted_wrt (<) (map fst m)"

definition bt_get :: "('k, 'v) btree_map \<Rightarrow> 'k \<Rightarrow> 'v option" where
  "bt_get m k = map_of m k"

definition bt_keys :: "('k, 'v) btree_map \<Rightarrow> 'k list" where
  "bt_keys m = map fst m"

fun bt_insert :: "'k :: linorder \<Rightarrow> 'v \<Rightarrow> ('k, 'v) btree_map \<Rightarrow> ('k, 'v) btree_map" where
  "bt_insert k v [] = [(k, v)]"
| "bt_insert k v ((k', v') # m) =
     (if k < k' then (k, v) # (k', v') # m
      else if k = k' then (k, v) # m
      else (k', v') # bt_insert k v m)"

fun bt_remove :: "'k \<Rightarrow> ('k, 'v) btree_map \<Rightarrow> ('k, 'v) btree_map" where
  "bt_remove k [] = []"
| "bt_remove k ((k', v') # m) = (if k = k' then m else (k', v') # bt_remove k m)"

text \<open>\<open>iter().collect::<BTreeMap<_, _>>()\<close>: later entries win.\<close>

definition bt_of_list :: "('k :: linorder \<times> 'v) list \<Rightarrow> ('k, 'v) btree_map" where
  "bt_of_list xs = fold (\<lambda>(k, v). bt_insert k v) xs []"

section \<open>The interface\<close>

locale finite_map =
  fixes empty :: 'm
    and get :: "'m \<Rightarrow> 'k \<Rightarrow> 'v option"
    and insert_kv :: "'k \<Rightarrow> 'v \<Rightarrow> 'm \<Rightarrow> 'm"
    and remove_k :: "'k \<Rightarrow> 'm \<Rightarrow> 'm"
    and keys :: "'m \<Rightarrow> 'k list"
    and wf :: "'m \<Rightarrow> bool"
  assumes get_empty: "get empty k = None"
    and get_insert: "wf m \<Longrightarrow> get (insert_kv k v m) = (get m)(k \<mapsto> v)"
    and get_remove: "wf m \<Longrightarrow> get (remove_k k m) = (get m)(k := None)"
    and set_keys: "wf m \<Longrightarrow> set (keys m) = dom (get m)"
    and distinct_keys: "wf m \<Longrightarrow> distinct (keys m)"
    and wf_empty: "wf empty"
    and wf_insert: "wf m \<Longrightarrow> wf (insert_kv k v m)"
    and wf_remove: "wf m \<Longrightarrow> wf (remove_k k m)"
begin

lemma wf_fold_insert: "wf m \<Longrightarrow> wf (fold (\<lambda>(k, v). insert_kv k v) xs m)"
  by (induction xs arbitrary: m) (auto simp: wf_insert)

lemma get_fold_insert:
  "wf m \<Longrightarrow> get (fold (\<lambda>(k, v). insert_kv k v) xs m) = get m ++ map_of (rev xs)"
  by (induction xs arbitrary: m) (auto simp: get_insert wf_insert map_add_def fun_eq_iff split: option.splits)

lemma get_of_distinct:
  assumes "distinct (map fst xs)"
  shows "get (fold (\<lambda>(k, v). insert_kv k v) xs empty) = map_of xs"
proof -
  have "get empty = Map.empty" by (rule ext) (rule get_empty)
  moreover have "map_of (rev xs) = map_of xs"
    using assms by (simp add: map_of_inject_set distinct_map rev_map)
  ultimately show ?thesis by (simp add: get_fold_insert wf_empty)
qed

lemma length_keys_insert_new:
  assumes "wf m" and "get m k = None"
  shows "length (keys (insert_kv k v m)) = Suc (length (keys m))"
proof -
  have "set (keys (insert_kv k v m)) = insert k (set (keys m))"
    using assms(1) by (simp add: set_keys wf_insert get_insert)
  moreover have "k \<notin> set (keys m)"
    using assms by (simp add: set_keys domIff)
  ultimately have "card (set (keys (insert_kv k v m))) = Suc (card (set (keys m)))"
    by simp
  then show ?thesis
    using assms by (simp add: distinct_card distinct_keys wf_insert)
qed

end

section \<open>The association list implements it\<close>

lemma bt_get_insert: "bt_get (bt_insert k v m) = (bt_get m)(k \<mapsto> v)"
  by (induction m) (auto simp: bt_get_def fun_eq_iff)

lemma bt_keys_insert: "set (bt_keys (bt_insert k v m)) = insert k (set (bt_keys m))"
  by (induction k v m rule: bt_insert.induct) (simp_all add: bt_keys_def insert_commute)

lemma bt_wf_insert: "bt_wf m \<Longrightarrow> bt_wf (bt_insert k v m)"
proof (induction m)
  case Nil
  then show ?case by (simp add: bt_wf_def)
next
  case (Cons p m)
  obtain k' v' where p: "p = (k', v')" by fastforce
  have "set (map fst (bt_insert k v m)) = insert k (set (map fst m))"
    using bt_keys_insert [of k v m] by (simp add: bt_keys_def)
  with Cons p show ?case by (auto simp: bt_wf_def)
qed

lemma bt_remove_eq_filter: "distinct (map fst m) \<Longrightarrow> bt_remove k m = filter (\<lambda>p. fst p \<noteq> k) m"
proof (induction m)
  case Nil
  then show ?case by simp
next
  case (Cons p m)
  obtain k' v' where p: "p = (k', v')" by fastforce
  have "k \<notin> set (map fst m) \<Longrightarrow> filter (\<lambda>p. fst p \<noteq> k) m = m"
    by (induction m) auto
  with Cons p show ?case by auto
qed

lemma bt_wf_distinct: "bt_wf m \<Longrightarrow> distinct (map fst m)"
  by (simp add: bt_wf_def sorted_wrt_less_distinct)

lemma bt_wf_remove: "bt_wf m \<Longrightarrow> bt_wf (bt_remove k m)"
proof -
  assume wf: "bt_wf m"
  then have "map fst (bt_remove k m) = filter (\<lambda>k'. k' \<noteq> k) (map fst m)"
    by (simp add: bt_remove_eq_filter bt_wf_distinct filter_map comp_def)
  with wf show ?thesis by (simp add: bt_wf_def sorted_wrt_filter)
qed

lemma map_of_filter_neq:
  "map_of (filter (\<lambda>p. fst p \<noteq> k) m) x = (if x = k then None else map_of m x)"
  by (induction m) auto

lemma bt_get_remove: "bt_wf m \<Longrightarrow> bt_get (bt_remove k m) = (bt_get m)(k := None)"
  by (simp add: bt_remove_eq_filter bt_wf_distinct bt_get_def fun_eq_iff map_of_filter_neq)

interpretation btree: finite_map "[]" bt_get bt_insert bt_remove bt_keys bt_wf
  by unfold_locales
    (auto simp: bt_get_insert bt_get_remove bt_wf_insert bt_wf_remove bt_get_def bt_keys_def
      dom_map_of_conv_image_fst bt_wf_distinct bt_wf_def [of "[]"] intro: rev_image_eqI)

lemma bt_wf_Nil [simp]: "bt_wf []"
  by (rule btree.wf_empty)

lemma bt_get_Nil [simp]: "bt_get [] = Map.empty"
  by (simp add: bt_get_def fun_eq_iff)

lemma bt_wf_of_list [simp]: "bt_wf (bt_of_list xs)"
  unfolding bt_of_list_def by (rule btree.wf_fold_insert) simp

lemma bt_get_of_list: "bt_get (bt_of_list xs) = map_of (rev xs)"
  using btree.get_fold_insert [OF bt_wf_Nil, of xs] by (simp add: bt_of_list_def)

lemma bt_get_of_distinct: "distinct (map fst xs) \<Longrightarrow> bt_get (bt_of_list xs) = map_of xs"
  unfolding bt_of_list_def by (rule btree.get_of_distinct)

lemma bt_get_Some_iff: "bt_wf m \<Longrightarrow> bt_get m k = Some v \<longleftrightarrow> (k, v) \<in> set m"
  by (simp add: bt_get_def bt_wf_distinct)

lemma bt_set_of_distinct:
  assumes "distinct (map fst xs)"
  shows "set (bt_of_list xs) = set xs"
proof -
  have "(k, v) \<in> set (bt_of_list xs) \<longleftrightarrow> (k, v) \<in> set xs" for k v
    using bt_get_Some_iff [of "bt_of_list xs" k v] assms
    by (simp add: bt_get_of_distinct)
  then show ?thesis by auto
qed

lemma alist_eqI:
  "map fst m = map fst m' \<Longrightarrow> distinct (map fst m) \<Longrightarrow> map_of m = map_of m' \<Longrightarrow> m = m'"
proof (induction m arbitrary: m')
  case Nil
  then show ?case by simp
next
  case (Cons p m)
  then obtain q n where m': "m' = q # n" by (cases m') auto
  have p: "p = q"
    using Cons.prems m' by (cases p; cases q) (auto dest: fun_cong [where x = "fst p"])
  have "map_of m x = map_of n x" for x
    using Cons.prems m' p fun_cong [OF Cons.prems(3), of x]
    by (cases p) (auto simp: map_of_eq_None_iff split: if_splits, metis list.set_map map_of_eq_None_iff)
  with Cons m' p show ?case by (auto simp: fun_eq_iff)
qed

lemma bt_eqI:
  assumes "bt_wf m" "bt_wf m'" "bt_get m = bt_get m'"
  shows "m = m'"
proof -
  have sets: "set m = set m'"
    using assms bt_get_Some_iff [OF assms(1)] bt_get_Some_iff [OF assms(2)] by (auto simp: fun_eq_iff)
  then have "map fst m = map fst m'"
    using assms by (intro sorted_wrt_less_set_eq) (auto simp: bt_wf_def)
  with assms show ?thesis
    by (intro alist_eqI) (auto simp: bt_wf_distinct bt_get_def fun_eq_iff)
qed

end
