(* ===== verification/Fs_Types.thy ===== *)
theory Fs_Types
  imports Ordered_Map
begin

text \<open>
  The file-system vocabulary of \<open>crates/core/src/fs/types.rs\<close> and the hard ignore rules of
  \<open>fs/ignore.rs\<close>: relative paths with their parser and printer, scan scopes, scan trees,
  fingerprints, the textual file key, and the temporary names of guarded writes
  (\<open>fs/fio/local.rs\<close>). A path is the list of its components; \<open>rp_valid\<close> is the invariant the
  Rust constructors establish.
\<close>

section \<open>Strings\<close>

text \<open>\<open>str::split\<close> at a character (the empty string splits into one empty part), \<open>join\<close>,
  \<open>starts_with\<close> and \<open>contains\<close>.\<close>

fun split_on :: "char \<Rightarrow> string \<Rightarrow> string list" where
  "split_on c [] = [[]]"
| "split_on c (x # xs) =
     (if x = c then [] # split_on c xs
      else (case split_on c xs of [] \<Rightarrow> [[x]] | p # ps \<Rightarrow> (x # p) # ps))"

fun join_with :: "char \<Rightarrow> string list \<Rightarrow> string" where
  "join_with c [] = []"
| "join_with c [p] = p"
| "join_with c (p # ps) = p @ c # join_with c ps"

definition starts_with :: "'a list \<Rightarrow> 'a list \<Rightarrow> bool" where
  "starts_with xs ys \<longleftrightarrow> take (length ys) xs = ys"

fun contains_sub :: "'a list \<Rightarrow> 'a list \<Rightarrow> bool" where
  "contains_sub [] p = (p = [])"
| "contains_sub (x # xs) p = (starts_with (x # xs) p \<or> contains_sub xs p)"

text \<open>\<open>str::split_once\<close> and \<open>str::rsplit_once\<close> at a character.\<close>

fun split_once :: "char \<Rightarrow> string \<Rightarrow> (string \<times> string) option" where
  "split_once c [] = None"
| "split_once c (x # xs) =
     (if x = c then Some ([], xs) else map_option (\<lambda>(a, b). (x # a, b)) (split_once c xs))"

definition rsplit_once :: "char \<Rightarrow> string \<Rightarrow> (string \<times> string) option" where
  "rsplit_once c s = map_option (\<lambda>(a, b). (rev b, rev a)) (split_once c (rev s))"

text \<open>Decimal printing of an unsigned number and Rust's \<open>parse::<u64>\<close>: an optional plus sign,
  at least one digit, only digits, and no overflow.\<close>

definition digit_char :: "nat \<Rightarrow> char" where
  "digit_char d = char_of (48 + d)"

definition char_digit :: "char \<Rightarrow> nat option" where
  "char_digit c = (let n = of_char c :: nat in if 48 \<le> n \<and> n \<le> 57 then Some (n - 48) else None)"

fun show_nat :: "nat \<Rightarrow> string" where
  "show_nat n = (if n < 10 then [digit_char n] else show_nat (n div 10) @ [digit_char (n mod 10)])"

declare show_nat.simps [simp del]

fun parse_digits :: "nat \<Rightarrow> string \<Rightarrow> nat option" where
  "parse_digits acc [] = Some acc"
| "parse_digits acc (c # cs) =
     (case char_digit c of None \<Rightarrow> None | Some d \<Rightarrow> parse_digits (10 * acc + d) cs)"

definition parse_u64 :: "string \<Rightarrow> nat res" where
  "parse_u64 s =
     (let ds = (case s of [] \<Rightarrow> [] | c # cs \<Rightarrow> if c = CHR ''+'' then cs else s)
      in if ds = [] then Inl Fatal
         else (case parse_digits 0 ds of
             None \<Rightarrow> Inl Fatal
           | Some n \<Rightarrow> if n \<le> u64_max then Inr n else Inl Fatal))"

section \<open>Relative paths\<close>

datatype relative_path = RelativePath (as_components: "string list")

instantiation relative_path :: linorder
begin

definition less_eq_relative_path :: "relative_path \<Rightarrow> relative_path \<Rightarrow> bool" where
  "p \<le> q \<longleftrightarrow> as_components p \<le> as_components q"

definition less_relative_path :: "relative_path \<Rightarrow> relative_path \<Rightarrow> bool" where
  "p < q \<longleftrightarrow> as_components p < as_components q"

instance
  by standard
    (auto simp: less_eq_relative_path_def less_relative_path_def relative_path.expand)

end

definition validate_component :: "string \<Rightarrow> unit res" where
  "validate_component c =
     (if c = [] then Inl Fatal
      else if c = ''.'' \<or> c = ''..'' then Inl Fatal
      else if CHR ''/'' \<in> set c then Inl Fatal
      else if CHR 0x00 \<in> set c then Inl Fatal
      else Inr ())"

definition relative_path_new :: "string list \<Rightarrow> relative_path res" where
  "relative_path_new cs =
     (if cs = [] then Inl Fatal
      else bind_res (fold_res (\<lambda>c _. validate_component c) cs ()) (\<lambda>_. Inr (RelativePath cs)))"

definition relative_path_parse :: "string \<Rightarrow> relative_path res" where
  "relative_path_parse v =
     (if v = [] then Inl Fatal
      else if hd v = CHR ''/'' then Inl Fatal
      else if last v = CHR ''/'' then Inl Fatal
      else relative_path_new (split_on (CHR ''/'') v))"

definition file_name :: "relative_path \<Rightarrow> string res" where
  "file_name p = (if as_components p = [] then Inl Panicked else Inr (last (as_components p)))"

definition rp_parent :: "relative_path \<Rightarrow> relative_path option" where
  "rp_parent p =
     (if length (as_components p) \<le> 1 then None
      else Some (RelativePath (butlast (as_components p))))"

definition with_file_name :: "relative_path \<Rightarrow> string \<Rightarrow> relative_path res" where
  "with_file_name p name =
     bind_res (validate_component name) (\<lambda>_.
       if as_components p = [] then Inl Panicked
       else Inr (RelativePath (butlast (as_components p) @ [name])))"

definition to_db_path :: "relative_path \<Rightarrow> string" where
  "to_db_path p = join_with (CHR ''/'') (as_components p)"

text \<open>The invariant of the type: at least one component, each of them valid.\<close>

definition component_valid :: "string \<Rightarrow> bool" where
  "component_valid c \<longleftrightarrow> c \<noteq> [] \<and> c \<noteq> ''.'' \<and> c \<noteq> ''..'' \<and> CHR ''/'' \<notin> set c \<and> CHR 0x00 \<notin> set c"

definition rp_valid :: "relative_path \<Rightarrow> bool" where
  "rp_valid p \<longleftrightarrow> as_components p \<noteq> [] \<and> list_all component_valid (as_components p)"

section \<open>Scan scopes\<close>

datatype scan_scope = Full | Subtree relative_path | SingleFile relative_path

fun contains_path :: "scan_scope \<Rightarrow> relative_path \<Rightarrow> bool" where
  "contains_path Full path = True"
| "contains_path (SingleFile single) path = (path = single)"
| "contains_path (Subtree subtree) path =
     (path = subtree \<or> starts_with (as_components path) (as_components subtree))"

section \<open>Fingerprints, file keys and trees\<close>

record file_key =
  device_id :: nat
  inode :: nat

definition file_key_new :: "nat \<Rightarrow> nat \<Rightarrow> file_key" where
  "file_key_new d i = \<lparr>device_id = d, inode = i\<rparr>"

definition file_key_encode :: "file_key \<Rightarrow> string" where
  "file_key_encode k = show_nat (device_id k) @ CHR '':'' # show_nat (inode k)"

definition file_key_decode :: "string \<Rightarrow> file_key res" where
  "file_key_decode v =
     bind_res (ok_or (split_once (CHR '':'') v) Fatal) (\<lambda>(d, i).
     bind_res (parse_u64 d) (\<lambda>d'.
     bind_res (parse_u64 i) (\<lambda>i'.
       Inr \<lparr>device_id = d', inode = i'\<rparr>)))"

text \<open>The fields of a \<open>FileKey\<close> are \<open>u64\<close> values.\<close>

definition file_key_ok :: "file_key \<Rightarrow> bool" where
  "file_key_ok k \<longleftrightarrow> device_id k \<le> u64_max \<and> inode k \<le> u64_max"

record file_stat =
  stat_file_key :: file_key
  stat_size :: nat
  stat_mtime :: time_ns

datatype file_fingerprint =
    StatOnly file_stat
  | StatAndContent file_stat bytes

fun fp_stat :: "file_fingerprint \<Rightarrow> file_stat" where
  "fp_stat (StatOnly s) = s"
| "fp_stat (StatAndContent s h) = s"

datatype tree_entry_kind = Directory | File file_fingerprint

record tree_entry =
  te_path :: relative_path
  te_kind :: tree_entry_kind

text \<open>\<open>Tree::new\<close>: sort by path, then reject two neighbours with the same path.\<close>

fun has_equal_neighbours :: "'a list \<Rightarrow> bool" where
  "has_equal_neighbours (x # y # xs) = (x = y \<or> has_equal_neighbours (y # xs))"
| "has_equal_neighbours _ = False"

definition tree_new :: "tree_entry list \<Rightarrow> tree_entry list res" where
  "tree_new es =
     (let sorted_es = sort_key te_path es
      in if has_equal_neighbours (map te_path sorted_es) then Inl Fatal else Inr sorted_es)"

record scan_result =
  scan_finished_at :: time_ns
  scan_scope_of :: scan_scope
  scan_tree :: "tree_entry list"

datatype expected_before =
    Anything
  | Missing
  | PresentWithFingerprint file_fingerprint

datatype guarded_read_result =
    ReadOk bytes file_fingerprint
  | ChangedBetweenStats "tree_entry option" "tree_entry option"
  | ConflictBeforeRead "tree_entry option"

datatype guarded_write_result =
    Written file_fingerprint
  | AlreadyApplied file_fingerprint
  | ConflictBeforeSwap relative_path "tree_entry option"
  | ConflictAfterSwap "tree_entry option"
  | WriteConflict "tree_entry option"

datatype guarded_delete_result =
    Deleted
  | AlreadyDeleted
  | DeleteConflict "tree_entry option"

section \<open>Hard ignore rules and temporary names\<close>

definition metadata_dir_name :: string where
  "metadata_dir_name = ''.opbox''"

definition is_projection_temp_component :: "string \<Rightarrow> bool" where
  "is_projection_temp_component c \<longleftrightarrow> starts_with c ''.'' \<and> contains_sub c ''.opbox-tmp-''"

definition is_hard_ignored :: "relative_path \<Rightarrow> bool" where
  "is_hard_ignored p \<longleftrightarrow>
     list_ex (\<lambda>c. c = metadata_dir_name \<or> is_projection_temp_component c) (as_components p)"

text \<open>The gitignore matcher of the \<open>ignore\<close> crate is a parameter.\<close>

definition is_ignored :: "(string \<Rightarrow> bool \<Rightarrow> bool) \<Rightarrow> relative_path \<Rightarrow> bool \<Rightarrow> bool" where
  "is_ignored matcher p is_dir \<longleftrightarrow> (if is_hard_ignored p then True else matcher (to_db_path p) is_dir)"

text \<open>The sixteen lower-case hex digits of \<open>format!("{:016x}")\<close>, most significant first.\<close>

definition hex_char :: "nat \<Rightarrow> char" where
  "hex_char d = (if d < 10 then char_of (48 + d) else char_of (87 + d))"

fun hex_digits :: "nat \<Rightarrow> nat \<Rightarrow> string" where
  "hex_digits 0 n = []"
| "hex_digits (Suc k) n = hex_digits k (n div 16) @ [hex_char (n mod 16)]"

text \<open>\<open>LocalFileIO::temp_path_for\<close>, with the random number as an argument.\<close>

definition temp_path_for :: "nat \<Rightarrow> relative_path \<Rightarrow> relative_path res" where
  "temp_path_for rnd p =
     bind_res (file_name p) (\<lambda>name.
       with_file_name p (CHR ''.'' # name @ ''.opbox-tmp-'' @ hex_digits 16 rnd))"

section \<open>Lemmas: strings\<close>

lemma split_on_nonempty [simp]: "split_on c s \<noteq> []"
  by (induction s) (auto split: list.splits)

lemma split_on_no_sep: "p \<in> set (split_on c s) \<Longrightarrow> c \<notin> set p"
proof (induction s arbitrary: p)
  case Nil
  then show ?case by simp
next
  case (Cons x xs)
  then show ?case by (cases "split_on c xs") (auto split: if_splits)
qed

lemma join_Cons: "ps \<noteq> [] \<Longrightarrow> join_with c (p # ps) = p @ c # join_with c ps"
  by (cases ps) auto

lemma join_split: "join_with c (split_on c s) = s"
proof (induction s)
  case Nil
  then show ?case by simp
next
  case (Cons x xs)
  obtain p ps where ps: "split_on c xs = p # ps"
    by (cases "split_on c xs") auto
  with Cons show ?case by (cases ps) (auto simp: join_Cons)
qed

lemma split_on_append_sep: "c \<notin> set p \<Longrightarrow> split_on c (p @ c # s) = p # split_on c s"
  by (induction p) auto

lemma split_on_no_occ: "c \<notin> set p \<Longrightarrow> split_on c p = [p]"
  by (induction p) auto

lemma split_join:
  "ps \<noteq> [] \<Longrightarrow> (\<And>p. p \<in> set ps \<Longrightarrow> c \<notin> set p) \<Longrightarrow> split_on c (join_with c ps) = ps"
proof (induction c ps rule: join_with.induct)
  case (1 c)
  then show ?case by simp
next
  case (2 c p)
  then show ?case by (simp add: split_on_no_occ)
next
  case (3 c p q ps)
  then show ?case by (simp add: split_on_append_sep)
qed

lemma split_once_append: "c \<notin> set a \<Longrightarrow> split_once c (a @ c # b) = Some (a, b)"
  by (induction a) auto

lemma split_once_Some: "split_once c s = Some (a, b) \<Longrightarrow> s = a @ c # b \<and> c \<notin> set a"
  by (induction s arbitrary: a) (auto split: if_splits)

lemma split_once_None: "split_once c s = None \<longleftrightarrow> c \<notin> set s"
  by (induction s) auto

lemma rsplit_once_Some: "rsplit_once c s = Some (a, b) \<Longrightarrow> s = a @ c # b \<and> c \<notin> set b"
  unfolding rsplit_once_def
  by (auto dest!: split_once_Some simp: rev_swap)

lemma starts_with_contains_sub: "starts_with s p \<Longrightarrow> contains_sub s p"
  by (cases s) (auto simp: starts_with_def)

lemma contains_sub_append: "contains_sub (xs @ p @ ys) p"
proof (induction xs)
  case Nil
  have "starts_with (p @ ys) p" by (simp add: starts_with_def)
  then show ?case by (simp add: starts_with_contains_sub)
next
  case (Cons x xs)
  then show ?case by simp
qed

lemma starts_with_refl [simp]: "starts_with xs xs"
  by (simp add: starts_with_def)

lemma starts_with_iff: "starts_with xs ys \<longleftrightarrow> (\<exists>zs. xs = ys @ zs)"
proof
  assume "starts_with xs ys"
  then have "xs = ys @ drop (length ys) xs"
    unfolding starts_with_def by (metis append_take_drop_id)
  then show "\<exists>zs. xs = ys @ zs" by blast
qed (auto simp: starts_with_def)

lemma starts_with_trans: "starts_with xs ys \<Longrightarrow> starts_with ys zs \<Longrightarrow> starts_with xs zs"
  by (auto simp: starts_with_iff)

lemma char_digit_digit_char [simp]: "d < 10 \<Longrightarrow> char_digit (digit_char d) = Some d"
  by (simp add: char_digit_def digit_char_def)

lemma parse_digits_append:
  "parse_digits acc (xs @ ys) =
     (case parse_digits acc xs of None \<Rightarrow> None | Some a \<Rightarrow> parse_digits a ys)"
  by (induction xs arbitrary: acc) (auto split: option.splits)

lemma parse_digits_show_nat: "parse_digits 0 (show_nat n) = Some n"
proof (induction n rule: show_nat.induct)
  case (1 n)
  show ?case
  proof (cases "n < 10")
    case True
    then show ?thesis by (simp add: show_nat.simps [of n])
  next
    case False
    with "1.IH" show ?thesis by (simp add: show_nat.simps [of n] parse_digits_append)
  qed
qed

lemma show_nat_nonempty [simp]: "show_nat n \<noteq> []"
  by (simp add: show_nat.simps)

lemma digit_char_not: "d < 10 \<Longrightarrow> of_char c < (48 :: nat) \<or> 57 < (of_char c :: nat) \<Longrightarrow> digit_char d \<noteq> c"
  by (auto simp: digit_char_def)

lemma show_nat_digits:
  assumes "of_char c < (48 :: nat) \<or> 57 < (of_char c :: nat)"
  shows "c \<notin> set (show_nat n)"
proof (induction n rule: show_nat.induct)
  case (1 n)
  show ?case
  proof (cases "n < 10")
    case True
    then show ?thesis using assms by (auto simp: show_nat.simps [of n] dest: digit_char_not)
  next
    case False
    with "1.IH" show ?thesis
      using assms digit_char_not [of "n mod 10" c] by (auto simp: show_nat.simps [of n])
  qed
qed

lemma show_nat_hd: "of_char c < (48 :: nat) \<or> 57 < (of_char c :: nat) \<Longrightarrow> hd (show_nat n) \<noteq> c"
  using show_nat_digits [of c n] list.set_sel(1) [of "show_nat n"] by auto

lemma parse_u64_show_nat: "n \<le> u64_max \<Longrightarrow> parse_u64 (show_nat n) = Inr n"
  using show_nat_hd [of "CHR ''+''" n] parse_digits_show_nat [of n]
  by (cases "show_nat n") (auto simp: parse_u64_def)

lemma file_key_decode_encode: "file_key_ok k \<Longrightarrow> file_key_decode (file_key_encode k) = Inr k"
  using show_nat_digits [of "CHR '':''" "device_id k"]
  by (simp add: file_key_decode_def file_key_encode_def split_once_append file_key_ok_def
      parse_u64_show_nat)

section \<open>Lemmas: paths, scopes, trees\<close>

lemma validate_component_ok [res_simps]: "validate_component c = Inr u \<longleftrightarrow> component_valid c"
  by (auto simp: validate_component_def component_valid_def)

lemma validate_components_ok:
  "fold_res (\<lambda>c _. validate_component c) cs u = Inr v \<longleftrightarrow> list_all component_valid cs"
  by (induction cs) (auto simp: res_simps)

lemma relative_path_new_ok [res_simps]:
  "relative_path_new cs = Inr p \<longleftrightarrow> p = RelativePath cs \<and> rp_valid p"
  by (auto simp: relative_path_new_def rp_valid_def res_simps validate_components_ok)

lemma join_hd_last:
  assumes "cs \<noteq> []" and "\<And>c. c \<in> set cs \<Longrightarrow> c \<noteq> [] \<and> s \<notin> set c"
  shows "join_with s cs \<noteq> [] \<and> hd (join_with s cs) \<noteq> s \<and> last (join_with s cs) \<noteq> s"
  using assms
proof (induction s cs rule: join_with.induct)
  case (1 s)
  then show ?case by simp
next
  case (2 s p)
  then show ?case by (metis join_with.simps(2) last_in_set list.set_intros(1) list.set_sel(1))
next
  case (3 s p q ps)
  then have "p \<noteq> []" "s \<notin> set p" by auto
  then have "hd p \<noteq> s" using list.set_sel(1) [of p] by auto
  with 3 \<open>p \<noteq> []\<close> show ?case by (auto simp: last_append)
qed

lemma rp_valid_components: "rp_valid p \<Longrightarrow> c \<in> set (as_components p) \<Longrightarrow> component_valid c"
  by (auto simp: rp_valid_def list_all_iff)

lemma to_db_path_valid:
  assumes "rp_valid p"
  shows "relative_path_parse (to_db_path p) = Inr p"
proof -
  have cs: "as_components p \<noteq> []" using assms by (simp add: rp_valid_def)
  have no: "c \<noteq> [] \<and> CHR ''/'' \<notin> set c" if "c \<in> set (as_components p)" for c
    using rp_valid_components [OF assms that] by (simp add: component_valid_def)
  have "split_on (CHR ''/'') (to_db_path p) = as_components p"
    unfolding to_db_path_def using cs no by (intro split_join) auto
  moreover have "to_db_path p \<noteq> [] \<and> hd (to_db_path p) \<noteq> CHR ''/'' \<and> last (to_db_path p) \<noteq> CHR ''/''"
    unfolding to_db_path_def using cs no by (rule join_hd_last)
  moreover have "relative_path_new (as_components p) = Inr p"
    using assms by (simp add: relative_path_new_ok)
  ultimately show ?thesis by (simp add: relative_path_parse_def)
qed

lemma relative_path_parse_sound:
  "relative_path_parse s = Inr p \<Longrightarrow> rp_valid p \<and> to_db_path p = s"
  by (auto simp: relative_path_parse_def to_db_path_def res_simps join_split split: if_splits)

lemma to_db_path_inj: "rp_valid p \<Longrightarrow> rp_valid q \<Longrightarrow> to_db_path p = to_db_path q \<Longrightarrow> p = q"
  by (metis Inr_inject to_db_path_valid)

lemma with_file_name_ok:
  "rp_valid p \<Longrightarrow> component_valid n \<Longrightarrow>
     with_file_name p n = Inr (RelativePath (butlast (as_components p) @ [n]))"
  using validate_component_ok [of n "()"] by (simp add: with_file_name_def rp_valid_def)

lemma with_file_name_valid: "rp_valid p \<Longrightarrow> with_file_name p n = Inr q \<Longrightarrow> rp_valid q"
  by (auto simp: with_file_name_def rp_valid_def res_simps list_all_iff split: if_splits)
    (meson in_set_butlastD)

lemma contains_path_subtree:
  "contains_path (Subtree s) p \<longleftrightarrow> starts_with (as_components p) (as_components s)"
  by auto

lemma equal_neighbours_sorted:
  "sorted (xs :: 'a :: linorder list) \<Longrightarrow> has_equal_neighbours xs \<longleftrightarrow> \<not> distinct xs"
proof (induction xs rule: has_equal_neighbours.induct)
  case (1 x y xs)
  have "x \<notin> set xs" if "x \<noteq> y"
    using that "1.prems" by (metis antisym list.set_intros(1) sorted_simps(2))
  with 1 show ?case by auto
qed auto

lemma hex_digits_length [simp]: "length (hex_digits k n) = k"
  by (induction k arbitrary: n) auto

lemma hex_char_safe: "d < 16 \<Longrightarrow> hex_char d \<noteq> CHR ''/'' \<and> hex_char d \<noteq> CHR 0x00"
  by (auto simp: hex_char_def split: if_splits dest!: arg_cong [where f = "of_char :: char \<Rightarrow> nat"])

lemma hex_digits_safe: "CHR ''/'' \<notin> set (hex_digits k n) \<and> CHR 0x00 \<notin> set (hex_digits k n)"
  by (induction k arbitrary: n) (auto simp: hex_char_safe dest: sym)

lemma temp_path_for_swap:
  assumes "rp_valid p"
  shows "\<exists>t. temp_path_for rnd p = Inr t \<and> rp_valid t \<and> is_hard_ignored t \<and> rp_parent t = rp_parent p"
proof -
  let ?n = "last (as_components p)"
  let ?c = "CHR ''.'' # ?n @ ''.opbox-tmp-'' @ hex_digits 16 rnd"
  let ?t = "RelativePath (butlast (as_components p) @ [?c])"
  have ne: "as_components p \<noteq> []" using assms by (simp add: rp_valid_def)
  then have "component_valid ?n"
    using assms by (auto simp: rp_valid_def list_all_iff)
  then have valid: "component_valid ?c"
    using hex_digits_safe [of 16 rnd] by (auto simp: component_valid_def)
  have t: "temp_path_for rnd p = Inr ?t"
    using with_file_name_ok [OF assms valid] ne by (simp add: temp_path_for_def file_name_def)
  then have "rp_valid ?t"
    using with_file_name_valid [OF assms, of ?c ?t] with_file_name_ok [OF assms valid] by blast
  moreover have "is_projection_temp_component ?c"
    using contains_sub_append [of "CHR ''.'' # ?n" "''.opbox-tmp-''" "hex_digits 16 rnd"]
    by (simp add: is_projection_temp_component_def starts_with_def)
  ultimately show ?thesis
    using t ne by (auto simp: is_hard_ignored_def rp_parent_def)
qed

section \<open>Properties\<close>

text \<open>Parsing and printing of relative paths are inverse: a string parses to a path exactly
  when the path satisfies the type's invariant and prints back to that string.\<close>

theorem relative_path_parse_iff:
  "relative_path_parse s = Inr p \<longleftrightarrow> rp_valid p \<and> to_db_path p = s"
  using to_db_path_valid relative_path_parse_sound by blast

text \<open>The textual file key stored in the database decodes to the key it was made from, for
  every pair of 64-bit numbers.\<close>

theorem file_key_roundtrip:
  "file_key_ok k \<Longrightarrow> file_key_decode (file_key_encode k) = Inr k"
  by (rule file_key_decode_encode)

theorem file_key_roundtrip_witness:
  "file_key_ok (file_key_new 16777234 42) \<and>
   file_key_decode (file_key_encode (file_key_new 16777234 42)) = Inr (file_key_new 16777234 42)"
proof -
  have ok: "file_key_ok (file_key_new 16777234 42)"
    by (simp add: file_key_ok_def file_key_new_def u64_max_def)
  show ?thesis using ok file_key_roundtrip [OF ok] by simp
qed

text \<open>A scan tree is accepted exactly when no two entries have the same path, and then it is
  the same entries in strictly ascending path order.\<close>

theorem tree_new_iff:
  "tree_new es = Inr t \<longleftrightarrow>
     distinct (map te_path es) \<and> mset t = mset es \<and> sorted_wrt (<) (map te_path t)"
proof -
  have dist: "has_equal_neighbours (map te_path (sort_key te_path es)) \<longleftrightarrow> \<not> distinct (map te_path es)"
    by (simp add: equal_neighbours_sorted distinct_map)
  have eq: "t = sort_key te_path es"
    if "distinct (map te_path es)" "mset t = mset es" "sorted_wrt (<) (map te_path t)"
    using that sort_key_inj_key_eq [of es t te_path] by (simp add: distinct_map strict_sorted_iff)
  have "sorted_wrt (<) (map te_path (sort_key te_path es))" if "distinct (map te_path es)"
    using that by (simp add: strict_sorted_iff distinct_map)
  then show ?thesis using dist eq by (auto simp: tree_new_def Let_def)
qed

text \<open>The temporary name a guarded write uses for a valid path is itself a valid path in the
  same directory and is hard ignored, so a scan never reports the daemon's own swap files.\<close>

theorem temp_path_hard_ignored:
  assumes "rp_valid p"
  shows "\<exists>t. temp_path_for rnd p = Inr t \<and> rp_valid t \<and> is_hard_ignored t \<and> rp_parent t = rp_parent p"
  using assms by (rule temp_path_for_swap)

theorem temp_path_hard_ignored_witness:
  "rp_valid (RelativePath [''notes'', ''a.txt'']) \<and>
   (\<exists>t. temp_path_for 255 (RelativePath [''notes'', ''a.txt'']) = Inr t \<and> rp_valid t \<and>
      is_hard_ignored t \<and> rp_parent t = rp_parent (RelativePath [''notes'', ''a.txt'']))"
proof -
  have v: "rp_valid (RelativePath [''notes'', ''a.txt''])"
    by (simp add: rp_valid_def component_valid_def)
  show ?thesis using v temp_path_hard_ignored [OF v, of 255] by simp
qed

end
