(* ===== verification/External.thy ===== *)
theory External
  imports Fs_Types
begin

text \<open>
  The third-party code the core calls, as one record of parameters: the \<open>yrs\<close> documents (one
  document type, as in the crate; its state vectors), the character diff of \<open>similar\<close>, \<open>base64\<close>,
  the Crockford base-32 of \<open>fast32\<close>, \<open>xxh3_64\<close>, AES-256-GCM, the JSON form of an object
  pointer, the record and stream-name validation of \<open>s2_sdk\<close>, and the range of instants of \<open>time\<close>. Definitions of the model take the record as an argument \<open>X\<close>; what a property
  relies on is one of the named predicates below, each a documented behaviour of the crate.
\<close>

text \<open>Values read from a \<open>yrs\<close> map: plain values (\<open>Any\<close>), nested shared maps with their entries,
  and the other shared types, which the core never reads.\<close>

datatype yany =
    YBuffer bytes
  | YString string
  | YInt int
  | YAnyMap "(string \<times> yany) list"
  | YAnyOther

datatype yout = YAny yany | YMap "(string \<times> yout) list" | YOutOther

datatype change_tag = Equal | Delete | Insert

record object_pointer =
  op_id :: string
  op_creation_time :: time_ns
  op_checksum :: nat
  op_size_bytes :: nat
  op_n_records :: nat

record ('d, 'sv) ext =
  doc_new :: "nat \<Rightarrow> 'd"
  doc_apply_v2 :: "bytes \<Rightarrow> 'd \<Rightarrow> 'd option"
  doc_state_vector :: "'d \<Rightarrow> 'sv"
  sv_default :: 'sv
  doc_encode_v2 :: "'sv \<Rightarrow> 'd \<Rightarrow> bytes"
  map_get :: "string \<Rightarrow> string \<Rightarrow> 'd \<Rightarrow> yout option"
  map_iter :: "string \<Rightarrow> 'd \<Rightarrow> (string \<times> yout) list"
  map_insert_map :: "string \<Rightarrow> string \<Rightarrow> 'd \<Rightarrow> 'd"
  map_insert_any :: "string \<Rightarrow> string \<Rightarrow> yany \<Rightarrow> 'd \<Rightarrow> 'd"
  nested_insert :: "string \<Rightarrow> string \<Rightarrow> string \<Rightarrow> yany \<Rightarrow> 'd \<Rightarrow> 'd"
  out_to_string :: "yout \<Rightarrow> string"
  text_get_string :: "'d \<Rightarrow> string"
  text_insert :: "nat \<Rightarrow> string \<Rightarrow> 'd \<Rightarrow> 'd"
  text_remove_range :: "nat \<Rightarrow> nat \<Rightarrow> 'd \<Rightarrow> 'd"
  diff_chars :: "string \<Rightarrow> string \<Rightarrow> (change_tag \<times> string) list"
  b64_encode :: "bytes \<Rightarrow> string"
  b64_decode :: "string \<Rightarrow> bytes option"
  crockford_encode :: "bytes \<Rightarrow> string"
  crockford_decode :: "string \<Rightarrow> bytes option"
  xxh3_64 :: "bytes \<Rightarrow> nat"
  aead_encrypt :: "bytes \<Rightarrow> bytes \<Rightarrow> bytes \<Rightarrow> bytes option"
  aead_decrypt :: "bytes \<Rightarrow> bytes \<Rightarrow> bytes \<Rightarrow> bytes option"
  pointer_to_json :: "object_pointer \<Rightarrow> string"
  pointer_from_json :: "string \<Rightarrow> object_pointer option"
  s2_metered :: "(string \<times> bytes) list \<Rightarrow> bytes \<Rightarrow> nat"
  s2_record_valid :: "(string \<times> bytes) list \<Rightarrow> bytes \<Rightarrow> bool"
  s2_stream_name_ok :: "string \<Rightarrow> bool"
  s2_basin_name_ok :: "string \<Rightarrow> bool"
  s2_endpoints_ok :: "string \<Rightarrow> string \<Rightarrow> bool"
  time_nanos_ok :: "int \<Rightarrow> bool"

section \<open>Documented behaviour, as hypotheses\<close>

text \<open>Iterating a root map yields each entry once, in an order that is not specified, and agrees
  with looking keys up.\<close>

definition map_iter_ok :: "('d, 'sv) ext \<Rightarrow> 'd \<Rightarrow> bool" where
  "map_iter_ok X d \<longleftrightarrow>
     (\<forall>root. distinct (map fst (map_iter X root d)) \<and>
        (\<forall>k v. (k, v) \<in> set (map_iter X root d) \<longleftrightarrow> map_get X root k d = Some v))"

text \<open>Base 64 is lossless, and decoding accepts canonical encodings only.\<close>

definition b64_ok :: "('d, 'sv) ext \<Rightarrow> bool" where
  "b64_ok X \<longleftrightarrow>
     (\<forall>x. b64_decode X (b64_encode X x) = Some x) \<and>
     (\<forall>s x. b64_decode X s = Some x \<longrightarrow> b64_encode X x = s)"

text \<open>The lower-case Crockford alphabet is made of ASCII digits and letters, and encoding is
  lossless.\<close>

definition ascii_alnum :: "char \<Rightarrow> bool" where
  "ascii_alnum c \<longleftrightarrow> (let n = of_char c :: nat in 48 \<le> n \<and> n \<le> 57 \<or> 97 \<le> n \<and> n \<le> 122)"

definition crockford_ok :: "('d, 'sv) ext \<Rightarrow> bool" where
  "crockford_ok X \<longleftrightarrow>
     (\<forall>x. list_all ascii_alnum (crockford_encode X x)) \<and>
     (\<forall>x. crockford_decode X (crockford_encode X x) = Some x)"

text \<open>Authenticated decryption undoes encryption under the same key and nonce; the ciphertext
  is the plaintext's length plus the 16-byte tag.\<close>

definition aead_ok :: "('d, 'sv) ext \<Rightarrow> bool" where
  "aead_ok X \<longleftrightarrow>
     (\<forall>key nonce p c. aead_encrypt X key nonce p = Some c \<longrightarrow>
        aead_decrypt X key nonce c = Some p \<and> length c = length p + 16)"

text \<open>Serialising an object pointer to JSON and back is the identity; the hash is 64 bits wide.\<close>

definition pointer_json_ok :: "('d, 'sv) ext \<Rightarrow> bool" where
  "pointer_json_ok X \<longleftrightarrow> (\<forall>p. pointer_from_json X (pointer_to_json X p) = Some p)"

definition xxh3_ok :: "('d, 'sv) ext \<Rightarrow> bool" where
  "xxh3_ok X \<longleftrightarrow> (\<forall>b. xxh3_64 X b \<le> u64_max)"

text \<open>S2 meters a record as 8 bytes, 2 per header, and the bytes of header names, header values and
  body; it accepts records of at most 1 MiB.\<close>

definition s2_record_ok :: "('d, 'sv) ext \<Rightarrow> bool" where
  "s2_record_ok X \<longleftrightarrow>
     (\<forall>hs b. s2_metered X hs b =
        8 + 2 * length hs + sum_list (map (\<lambda>(n, v). length n + length v) hs) + length b) \<and>
     (\<forall>hs b. s2_record_valid X hs b \<longleftrightarrow> s2_metered X hs b \<le> 1024 * 1024)"

text \<open>A document's text is edited by byte offsets: insertion splices, removal cuts.\<close>

definition text_edit_ok :: "('d, 'sv) ext \<Rightarrow> bool" where
  "text_edit_ok X \<longleftrightarrow>
     (\<forall>d i s. i \<le> length (text_get_string X d) \<longrightarrow>
        text_get_string X (text_insert X i s d) =
          take i (text_get_string X d) @ s @ drop i (text_get_string X d)) \<and>
     (\<forall>d i n. i + n \<le> length (text_get_string X d) \<longrightarrow>
        text_get_string X (text_remove_range X i n d) =
          take i (text_get_string X d) @ drop (i + n) (text_get_string X d))"

text \<open>A character diff lists the pieces of both texts in order: the equal and deleted pieces
  spell the old text, the equal and inserted ones the new text.\<close>

definition diff_ok :: "('d, 'sv) ext \<Rightarrow> bool" where
  "diff_ok X \<longleftrightarrow>
     (\<forall>old new.
        concat (map snd (filter (\<lambda>c. fst c \<noteq> Insert) (diff_chars X old new))) = old \<and>
        concat (map snd (filter (\<lambda>c. fst c \<noteq> Delete) (diff_chars X old new))) = new)"

text \<open>Inserting into a root map: the key is bound to the new value (an empty shared map, a plain
  value, or the shared map with one more field), every other key of every root map is kept.\<close>

definition map_insert_ok :: "('d, 'sv) ext \<Rightarrow> bool" where
  "map_insert_ok X \<longleftrightarrow>
     (\<forall>r k d r' k'. map_get X r' k' (map_insert_map X r k d) =
        (if (r', k') = (r, k) then Some (YMap []) else map_get X r' k' d)) \<and>
     (\<forall>r k v d r' k'. map_get X r' k' (map_insert_any X r k v d) =
        (if (r', k') = (r, k) then Some (YAny v) else map_get X r' k' d)) \<and>
     (\<forall>r k f v m d r' k'. map_get X r k d = Some (YMap m) \<longrightarrow>
        map_get X r' k' (nested_insert X r k f v d) =
        (if (r', k') = (r, k) then Some (YMap ((f, YAny v) # filter (\<lambda>e. fst e \<noteq> f) m))
         else map_get X r' k' d))"

text \<open>Printing a string value gives the string.\<close>

definition out_string_ok :: "('d, 'sv) ext \<Rightarrow> bool" where
  "out_string_ok X \<longleftrightarrow> (\<forall>s. out_to_string X (YAny (YString s)) = s)"

section \<open>A concrete instance\<close>

text \<open>
  A small instance, used to show that the hypotheses can hold together: a document is an
  association list for the root maps and a text; \<open>T\<close> says which maps a state carries.
\<close>

type_synonym demo_doc = "((string \<times> string) \<times> yout) list \<times> bytes"

fun demo_digits :: "char \<Rightarrow> string" where
  "demo_digits (Char b0 b1 b2 b3 b4 b5 b6 b7) =
     [Char b6 b7 False False True True False False, Char b3 b4 b5 False True True False False,
      Char b0 b1 b2 False True True False False]"

definition demo_octal :: "bytes \<Rightarrow> string" where
  "demo_octal b = concat (map demo_digits b)"

fun demo_unoctal :: "string \<Rightarrow> bytes option" where
  "demo_unoctal [] = Some []"
| "demo_unoctal (Char b6 b7 _ _ _ _ _ _ # Char b3 b4 b5 _ _ _ _ _ # Char b0 b1 b2 _ _ _ _ _ # s) =
     map_option ((#) (Char b0 b1 b2 b3 b4 b5 b6 b7)) (demo_unoctal s)"
| "demo_unoctal _ = None"

definition demo_num :: "nat \<Rightarrow> string" where
  "demo_num n = replicate n (CHR ''x'') @ '',''"

definition demo_unnum :: "string \<Rightarrow> nat \<times> string" where
  "demo_unnum s = (length (takeWhile ((=) (CHR ''x'')) s), drop 1 (dropWhile ((=) (CHR ''x'')) s))"

definition demo_to_json :: "object_pointer \<Rightarrow> string" where
  "demo_to_json p =
     demo_num (nat (op_creation_time p)) @ demo_num (nat (- op_creation_time p)) @
     demo_num (op_checksum p) @ demo_num (op_size_bytes p) @ demo_num (op_n_records p) @ op_id p"

definition demo_from_json :: "string \<Rightarrow> object_pointer option" where
  "demo_from_json s =
     (let (a, s1) = demo_unnum s; (b, s2) = demo_unnum s1; (c, s3) = demo_unnum s2;
          (d, s4) = demo_unnum s3; (e, s5) = demo_unnum s4
      in Some \<lparr>op_id = s5, op_creation_time = int a - int b, op_checksum = c, op_size_bytes = d,
               op_n_records = e\<rparr>)"

fun demo_put :: "string \<Rightarrow> string \<Rightarrow> yout \<Rightarrow> demo_doc \<Rightarrow> demo_doc" where
  "demo_put r k v (t, s) = (((r, k), v) # filter (\<lambda>e. fst e \<noteq> (r, k)) t, s)"

definition demo_metered :: "(string \<times> bytes) list \<Rightarrow> bytes \<Rightarrow> nat" where
  "demo_metered hs b = 8 + 2 * length hs + sum_list (map (\<lambda>(n, v). length n + length v) hs) + length b"

definition demo_record_valid :: "(string \<times> bytes) list \<Rightarrow> bytes \<Rightarrow> bool" where
  "demo_record_valid hs b \<longleftrightarrow> demo_metered hs b \<le> 1024 * 1024"

definition demo_ext :: "(bytes \<Rightarrow> ((string \<times> string) \<times> yout) list) \<Rightarrow> (demo_doc, unit) ext" where
  "demo_ext T =
     \<lparr>doc_new = \<lambda>_. ([], []),
      doc_apply_v2 = \<lambda>u _. Some (T u, u),
      doc_state_vector = \<lambda>_. (),
      sv_default = (),
      doc_encode_v2 = \<lambda>_ d. snd d,
      map_get = \<lambda>r k d. map_of (fst d) (r, k),
      map_iter = \<lambda>r d. map (\<lambda>e. (snd (fst e), snd e)) (filter (\<lambda>e. fst (fst e) = r) (fst d)),
      map_insert_map = \<lambda>r k. demo_put r k (YMap []),
      map_insert_any = \<lambda>r k v. demo_put r k (YAny v),
      nested_insert = \<lambda>r k f v d.
        (case map_of (fst d) (r, k) of
           Some (YMap m) \<Rightarrow> demo_put r k (YMap ((f, YAny v) # filter (\<lambda>e. fst e \<noteq> f) m)) d
         | _ \<Rightarrow> d),
      out_to_string = \<lambda>v. (case v of YAny (YString s) \<Rightarrow> s | _ \<Rightarrow> []),
      text_get_string = snd,
      text_insert = \<lambda>i s d. (fst d, take i (snd d) @ s @ drop i (snd d)),
      text_remove_range = \<lambda>i n d. (fst d, take i (snd d) @ drop (i + n) (snd d)),
      diff_chars = \<lambda>old new. map (\<lambda>c. (Delete, [c])) old @ map (\<lambda>c. (Insert, [c])) new,
      b64_encode = \<lambda>b. b,
      b64_decode = Some,
      crockford_encode = demo_octal,
      crockford_decode = demo_unoctal,
      xxh3_64 = \<lambda>_. 0,
      aead_encrypt = \<lambda>_ _ p. Some (p @ replicate 16 (CHR 0x00)),
      aead_decrypt = \<lambda>_ _ c. (if length c < 16 then None else Some (take (length c - 16) c)),
      pointer_to_json = demo_to_json,
      pointer_from_json = demo_from_json,
      s2_metered = demo_metered,
      s2_record_valid = demo_record_valid,
      s2_stream_name_ok = \<lambda>_. True,
      s2_basin_name_ok = \<lambda>_. True,
      s2_endpoints_ok = \<lambda>_ _. True,
      time_nanos_ok = \<lambda>_. True\<rparr>"

lemma demo_unoctal_octal: "demo_unoctal (demo_octal b) = Some b"
proof (induction b)
  case (Cons c b)
  then show ?case by (cases c) (simp add: demo_octal_def)
qed (simp add: demo_octal_def)

lemma demo_octal_alnum: "list_all ascii_alnum (demo_octal b)"
proof (induction b)
  case (Cons c b)
  have "list_all ascii_alnum (demo_digits c)"
    by (cases c) (simp add: ascii_alnum_def of_char_def)
  with Cons show ?case by (simp add: demo_octal_def)
qed (simp add: demo_octal_def)

lemma demo_unnum_num: "demo_unnum (demo_num n @ s) = (n, s)"
  by (induction n) (auto simp: demo_num_def demo_unnum_def)

lemma demo_json_ok: "demo_from_json (demo_to_json p) = Some p"
  by (simp add: demo_from_json_def demo_to_json_def demo_unnum_num)

lemma demo_ext_ok:
  "b64_ok (demo_ext T)" "crockford_ok (demo_ext T)" "aead_ok (demo_ext T)"
  "pointer_json_ok (demo_ext T)" "xxh3_ok (demo_ext T)" "text_edit_ok (demo_ext T)"
  "diff_ok (demo_ext T)" "out_string_ok (demo_ext T)" "s2_record_ok (demo_ext T)"
  by (simp_all add: demo_ext_def b64_ok_def crockford_ok_def demo_unoctal_octal demo_octal_alnum aead_ok_def
      pointer_json_ok_def demo_json_ok xxh3_ok_def text_edit_ok_def diff_ok_def comp_def out_string_ok_def s2_record_ok_def
      demo_metered_def demo_record_valid_def)

lemma demo_map_get_put:
  "map_of (fst (demo_put r k v d)) (r', k') = (if (r', k') = (r, k) then Some v else map_of (fst d) (r', k'))"
proof -
  have "map_of (filter (\<lambda>e. fst e \<noteq> x) t) y = map_of t y" if "y \<noteq> x"
    for x y :: "string \<times> string" and t :: "((string \<times> string) \<times> yout) list"
    using that by (induction t) auto
  then show ?thesis by (cases d) auto
qed

lemma demo_map_insert_ok: "map_insert_ok (demo_ext T)"
  unfolding map_insert_ok_def by (auto simp: demo_ext_def demo_map_get_put)

lemma demo_map_iter_ok:
  assumes "distinct (map fst (fst d))"
  shows "map_iter_ok (demo_ext T) d"
proof -
  have "distinct (map (snd \<circ> fst) (filter (\<lambda>e. fst (fst e) = r) t))"
    if "distinct (map fst t)" for r :: string and t :: "((string \<times> string) \<times> yout) list"
    using that by (induction t) (auto simp: image_iff prod_eq_iff)
  with assms show ?thesis
    by (force simp: map_iter_ok_def demo_ext_def comp_def)
qed

lemma crockford_plain:
  assumes "crockford_ok X"
  shows "CHR ''/'' \<notin> set (crockford_encode X x)" "CHR 0x00 \<notin> set (crockford_encode X x)"
proof -
  have "\<forall>c\<in>set (crockford_encode X x). ascii_alnum c"
    using assms by (simp add: crockford_ok_def list_all_iff)
  moreover have "\<not> ascii_alnum (CHR ''/'')" "\<not> ascii_alnum (CHR 0x00)" by (simp_all add: ascii_alnum_def)
  ultimately show "CHR ''/'' \<notin> set (crockford_encode X x)" "CHR 0x00 \<notin> set (crockford_encode X x)"
    by blast+
qed

lemma map_iter_okD:
  assumes "map_iter_ok X d"
  shows "distinct (map fst (map_iter X root d))"
    and "(k, v) \<in> set (map_iter X root d) \<longleftrightarrow> map_get X root k d = Some v"
  using assms by (auto simp: map_iter_ok_def)

lemma b64_decode_inj:
  "b64_ok X \<Longrightarrow> b64_decode X s = Some x \<Longrightarrow> b64_decode X t = Some x \<Longrightarrow> s = t"
  unfolding b64_ok_def by metis

lemma b64_decode_encode: "b64_ok X \<Longrightarrow> b64_decode X (b64_encode X x) = Some x"
  by (simp add: b64_ok_def)

end
