(* ===== verification/Namespace.thy ===== *)
theory Namespace
  imports External
begin

text \<open>
  The namespace document of \<open>crates/core/src/crdt/namespace.rs\<close>: objects, claims and removed
  claims in three root maps of one \<open>yrs\<close> document, and their materialization into file
  placements. The document operations are translated call by call over the \<open>yrs\<close> parameters;
  the materialization (grouping by requested path, winner selection, conflict names) is
  the program's own code. The properties show that every replica with the same document
  content derives the same placements, whatever the iteration order of the maps, that rendered
  paths never collide, and that no claim is lost.
\<close>

section \<open>Object kinds and metadata\<close>

datatype object_kind = Text | Binary | Dir

fun kind_str :: "object_kind \<Rightarrow> string" where
  "kind_str Text = ''text''"
| "kind_str Binary = ''binary''"
| "kind_str Dir = ''dir''"

definition kind_from_str :: "string \<Rightarrow> object_kind option" where
  "kind_from_str s =
     (if s = ''text'' then Some Text
      else if s = ''binary'' then Some Binary
      else if s = ''dir'' then Some Dir
      else None)"

fun kind_rank :: "object_kind \<Rightarrow> nat" where
  "kind_rank Text = 0"
| "kind_rank Binary = 1"
| "kind_rank Dir = 2"

record object_meta =
  meta_kind :: object_kind
  meta_creator :: writer_id

record claim_record =
  cr_object_id :: object_id
  cr_path :: relative_path

record active_claim =
  ac_claim_id :: claim_id
  ac_record :: claim_record

record confirmed_object =
  co_object_id :: object_id
  co_meta :: object_meta

record desired_placement =
  dp_path :: relative_path
  dp_claimed_path :: relative_path
  dp_claim_id :: claim_id
  dp_object_id :: object_id
  dp_kind :: object_kind

record materialization_claim =
  mc_claim_id :: claim_id
  mc_object_id :: object_id
  mc_path :: relative_path
  mc_meta :: object_meta

record namespace_projection =
  np_confirmed_objects :: "confirmed_object list"
  np_placements :: "desired_placement list"

record placement_delta =
  pd_added :: "desired_placement list"
  pd_removed :: "desired_placement list"

section \<open>Reading values back\<close>

definition any_to_bytes :: "yout \<Rightarrow> bytes option" where
  "any_to_bytes v = (case v of YAny (YBuffer b) \<Rightarrow> Some b | _ \<Rightarrow> None)"

definition any_value_to_bytes :: "yany \<Rightarrow> bytes option" where
  "any_value_to_bytes v = (case v of YBuffer b \<Rightarrow> Some b | _ \<Rightarrow> None)"

definition any_value_to_str :: "yany \<Rightarrow> string option" where
  "any_value_to_str v = (case v of YString s \<Rightarrow> Some s | _ \<Rightarrow> None)"

definition object_meta_from_out :: "('d, 'sv) ext \<Rightarrow> yout \<Rightarrow> object_meta option" where
  "object_meta_from_out X v =
     (case v of
        YMap m \<Rightarrow>
          Option.bind (map_of m ''k'') (\<lambda>kind_val.
          Option.bind (kind_from_str (out_to_string X kind_val)) (\<lambda>kind.
          Option.bind (map_of m ''c'') (\<lambda>c.
          Option.bind (any_to_bytes c) (\<lambda>creator.
            Some \<lparr>meta_kind = kind, meta_creator = creator\<rparr>))))
      | YAny (YAnyMap entries) \<Rightarrow>
          Option.bind (map_of entries ''k'') (\<lambda>kv.
          Option.bind (any_value_to_str kv) (\<lambda>ks.
          Option.bind (kind_from_str ks) (\<lambda>kind.
          Option.bind (map_of entries ''c'') (\<lambda>c.
          Option.bind (any_value_to_bytes c) (\<lambda>creator.
            Some \<lparr>meta_kind = kind, meta_creator = creator\<rparr>)))))
      | _ \<Rightarrow> None)"

definition res_ok :: "'a res \<Rightarrow> 'a option" where
  "res_ok r = (case r of Inl _ \<Rightarrow> None | Inr x \<Rightarrow> Some x)"

definition claim_record_from_out :: "('d, 'sv) ext \<Rightarrow> yout \<Rightarrow> claim_record option" where
  "claim_record_from_out X v =
     (case v of
        YMap m \<Rightarrow>
          Option.bind (map_of m ''o'') (\<lambda>o_val.
          Option.bind (any_to_bytes o_val) (\<lambda>obj.
          Option.bind (map_of m ''p'') (\<lambda>path_val.
          Option.bind (res_ok (relative_path_parse (out_to_string X path_val))) (\<lambda>path.
            Some \<lparr>cr_object_id = obj, cr_path = path\<rparr>))))
      | YAny (YAnyMap entries) \<Rightarrow>
          Option.bind (map_of entries ''o'') (\<lambda>o_val.
          Option.bind (any_value_to_bytes o_val) (\<lambda>obj.
          Option.bind (map_of entries ''p'') (\<lambda>path_val.
          Option.bind (any_value_to_str path_val) (\<lambda>s.
          Option.bind (res_ok (relative_path_parse s)) (\<lambda>path.
            Some \<lparr>cr_object_id = obj, cr_path = path\<rparr>)))))
      | _ \<Rightarrow> None)"

section \<open>The document\<close>

definition ns_new :: "('d, 'sv) ext \<Rightarrow> nat \<Rightarrow> 'd" where
  "ns_new X client_id = doc_new X client_id"

definition ns_from_full_state :: "('d, 'sv) ext \<Rightarrow> nat \<Rightarrow> bytes \<Rightarrow> 'd res" where
  "ns_from_full_state X client_id state =
     (if state = [] then Inr (ns_new X client_id)
      else ok_or (doc_apply_v2 X state (doc_new X client_id)) Fatal)"

definition ns_add_new_object ::
  "('d, 'sv) ext \<Rightarrow> object_id \<Rightarrow> object_kind \<Rightarrow> writer_id \<Rightarrow> 'd \<Rightarrow> 'd" where
  "ns_add_new_object X obj kind creator d =
     (let key = b64_encode X obj;
          d1 = map_insert_map X ''objects'' key d;
          d2 = nested_insert X ''objects'' key ''c'' (YBuffer creator) d1
      in nested_insert X ''objects'' key ''k'' (YString (kind_str kind)) d2)"

definition ns_set_object_kind ::
  "('d, 'sv) ext \<Rightarrow> object_id \<Rightarrow> object_kind \<Rightarrow> 'd \<Rightarrow> 'd res" where
  "ns_set_object_kind X obj kind d =
     (let key = b64_encode X obj
      in case map_get X ''objects'' key d of
           None \<Rightarrow> Inl Fatal
         | Some (YMap _) \<Rightarrow> Inr (nested_insert X ''objects'' key ''k'' (YString (kind_str kind)) d)
         | Some _ \<Rightarrow> Inl Fatal)"

definition ns_add_new_claim ::
  "('d, 'sv) ext \<Rightarrow> claim_id \<Rightarrow> object_id \<Rightarrow> relative_path \<Rightarrow> 'd \<Rightarrow> 'd" where
  "ns_add_new_claim X claim obj path d =
     (let key = b64_encode X claim;
          d1 = map_insert_map X ''claims'' key d;
          d2 = nested_insert X ''claims'' key ''o'' (YBuffer obj) d1
      in nested_insert X ''claims'' key ''p'' (YString (to_db_path path)) d2)"

definition ns_remove_claim :: "('d, 'sv) ext \<Rightarrow> claim_id \<Rightarrow> 'd \<Rightarrow> 'd" where
  "ns_remove_claim X claim d = map_insert_any X ''removed_claims'' (b64_encode X claim) (YInt 1) d"

definition ns_get_object :: "('d, 'sv) ext \<Rightarrow> object_id \<Rightarrow> 'd \<Rightarrow> object_meta option" where
  "ns_get_object X obj d =
     Option.bind (map_get X ''objects'' (b64_encode X obj) d) (object_meta_from_out X)"

definition ns_get_claim :: "('d, 'sv) ext \<Rightarrow> claim_id \<Rightarrow> 'd \<Rightarrow> claim_record option" where
  "ns_get_claim X claim d =
     Option.bind (map_get X ''claims'' (b64_encode X claim) d) (claim_record_from_out X)"

definition ns_is_claim_removed :: "('d, 'sv) ext \<Rightarrow> claim_id \<Rightarrow> 'd \<Rightarrow> bool" where
  "ns_is_claim_removed X claim d \<longleftrightarrow> map_get X ''removed_claims'' (b64_encode X claim) d \<noteq> None"

definition ns_removed_claim_ids :: "('d, 'sv) ext \<Rightarrow> 'd \<Rightarrow> claim_id list" where
  "ns_removed_claim_ids X d =
     List.map_filter (\<lambda>(key, _). b64_decode X key) (map_iter X ''removed_claims'' d)"

definition active_claim_of :: "('d, 'sv) ext \<Rightarrow> string \<times> yout \<Rightarrow> active_claim res" where
  "active_claim_of X kv =
     bind_res (ok_or (claim_record_from_out X (snd kv)) Fatal) (\<lambda>rec.
     bind_res (ok_or (b64_decode X (fst kv)) Fatal) (\<lambda>claim.
       Inr \<lparr>ac_claim_id = claim, ac_record = rec\<rparr>))"

definition ns_active_claims :: "('d, 'sv) ext \<Rightarrow> 'd \<Rightarrow> active_claim list res" where
  "ns_active_claims X d =
     map_res (active_claim_of X)
       (filter (\<lambda>kv. map_get X ''removed_claims'' (fst kv) d = None) (map_iter X ''claims'' d))"

definition ns_all_object_ids :: "('d, 'sv) ext \<Rightarrow> 'd \<Rightarrow> object_id list res" where
  "ns_all_object_ids X d =
     map_res (\<lambda>kv. ok_or (b64_decode X (fst kv)) Fatal) (map_iter X ''objects'' d)"

definition ns_encode_full_state :: "('d, 'sv) ext \<Rightarrow> 'd \<Rightarrow> bytes" where
  "ns_encode_full_state X d = doc_encode_v2 X (sv_default X) d"

definition ns_state_vector :: "('d, 'sv) ext \<Rightarrow> 'd \<Rightarrow> 'sv" where
  "ns_state_vector X d = doc_state_vector X d"

definition ns_encode_update_since :: "('d, 'sv) ext \<Rightarrow> 'sv \<Rightarrow> 'd \<Rightarrow> bytes" where
  "ns_encode_update_since X sv d = doc_encode_v2 X sv d"

definition ns_apply_update :: "('d, 'sv) ext \<Rightarrow> bytes \<Rightarrow> 'd \<Rightarrow> 'd res" where
  "ns_apply_update X u d = ok_or (doc_apply_v2 X u d) Fatal"

definition empty_namespace_state :: "('d, 'sv) ext \<Rightarrow> nat \<Rightarrow> bytes" where
  "empty_namespace_state X client_id = ns_encode_full_state X (ns_new X client_id)"

text \<open>The read-only client ids come from a process counter; they are arguments here.\<close>

definition apply_namespace_update :: "('d, 'sv) ext \<Rightarrow> nat \<Rightarrow> bytes \<Rightarrow> bytes \<Rightarrow> bytes res" where
  "apply_namespace_update X ro_id base u =
     bind_res (ns_from_full_state X ro_id base) (\<lambda>d.
     bind_res (ns_apply_update X u d) (\<lambda>d'. Inr (ns_encode_full_state X d')))"

definition ns_encode_state_delta :: "('d, 'sv) ext \<Rightarrow> nat \<Rightarrow> nat \<Rightarrow> bytes \<Rightarrow> bytes \<Rightarrow> bytes res" where
  "ns_encode_state_delta X id1 id2 base next =
     bind_res (ns_from_full_state X id1 base) (\<lambda>b.
     bind_res (ns_from_full_state X id2 next) (\<lambda>n.
       Inr (ns_encode_update_since X (ns_state_vector X b) n)))"

section \<open>Conflict names\<close>

definition split_filename_for_conflict :: "string \<Rightarrow> string \<times> string" where
  "split_filename_for_conflict name =
     (case rsplit_once (CHR ''.'') name of
        Some (stem, ext) \<Rightarrow> if stem \<noteq> [] then (stem, CHR ''.'' # ext) else (name, [])
      | None \<Rightarrow> (name, []))"

definition format_conflict_name :: "string \<Rightarrow> string \<Rightarrow> string" where
  "format_conflict_name requested suffix =
     (case split_filename_for_conflict requested of
        (stem, ext) \<Rightarrow> stem @ '' (conflict '' @ suffix @ '')'' @ ext)"

text \<open>The candidate suffixes in order; \<open>Vec::dedup\<close> drops consecutive repetitions.\<close>

definition conflict_suffixes :: "('d, 'sv) ext \<Rightarrow> materialization_claim \<Rightarrow> string list" where
  "conflict_suffixes X c =
     (let object_suffix = crockford_encode X (mc_object_id c);
          writer_suffix = crockford_encode X (meta_creator (mc_meta c));
          claim_suffix = crockford_encode X (mc_claim_id c)
      in remdups_adj
           [take 6 writer_suffix,
            take 6 object_suffix,
            take 8 object_suffix,
            object_suffix,
            object_suffix @ CHR ''-'' # take 6 claim_suffix])"

fun first_free_candidate ::
  "relative_path \<Rightarrow> relative_path list \<Rightarrow> string list \<Rightarrow> relative_path res" where
  "first_free_candidate p occupied [] = Inl Fatal"
| "first_free_candidate p occupied (s # ss) =
     bind_res (file_name p) (\<lambda>n.
     bind_res (with_file_name p (format_conflict_name n s)) (\<lambda>candidate.
       if candidate \<in> set occupied then first_free_candidate p occupied ss
       else Inr candidate))"

definition next_available_conflict_path ::
  "('d, 'sv) ext \<Rightarrow> materialization_claim \<Rightarrow> relative_path list \<Rightarrow> relative_path res" where
  "next_available_conflict_path X c occupied =
     first_free_candidate (mc_path c) occupied (conflict_suffixes X c)"

section \<open>Materialization\<close>

definition claim_key :: "materialization_claim \<Rightarrow> relative_path \<times> writer_id \<times> object_id \<times> claim_id" where
  "claim_key c = (mc_path c, meta_creator (mc_meta c), mc_object_id c, mc_claim_id c)"

definition claim_rank :: "materialization_claim \<Rightarrow> writer_id \<times> object_id \<times> claim_id" where
  "claim_rank c = (meta_creator (mc_meta c), mc_object_id c, mc_claim_id c)"

definition sort_claims_deterministically ::
  "materialization_claim list \<Rightarrow> materialization_claim list" where
  "sort_claims_deterministically cs = sort_key claim_key cs"

definition place_claim :: "relative_path \<Rightarrow> materialization_claim \<Rightarrow> desired_placement" where
  "place_claim p c =
     \<lparr>dp_path = p, dp_claimed_path = mc_path c, dp_claim_id = mc_claim_id c,
      dp_object_id = mc_object_id c, dp_kind = meta_kind (mc_meta c)\<rparr>"

definition placement_key ::
  "desired_placement \<Rightarrow> relative_path \<times> relative_path \<times> claim_id \<times> object_id \<times> nat" where
  "placement_key p =
     (dp_path p, dp_claimed_path p, dp_claim_id p, dp_object_id p, kind_rank (dp_kind p))"

definition claims_by_requested_path ::
  "materialization_claim list \<Rightarrow> (relative_path, materialization_claim list) btree_map" where
  "claims_by_requested_path cs =
     fold (\<lambda>c m. bt_insert (mc_path c)
        ((case bt_get m (mc_path c) of None \<Rightarrow> [] | Some v \<Rightarrow> v) @ [c]) m) cs []"

text \<open>One pass over the requested paths: the first claim by rank wins the path, the others are
  collected. \<open>Vec::remove(0)\<close> of an empty vector would panic.\<close>

fun place_winners ::
  "(relative_path, materialization_claim list) btree_map \<Rightarrow>
     (desired_placement list \<times> relative_path list \<times> materialization_claim list) res" where
  "place_winners [] = Inr ([], [], [])"
| "place_winners ((path, cs) # m) =
     (case sort_key claim_rank cs of
        [] \<Rightarrow> Inl Panicked
      | w # losers \<Rightarrow>
          map_ok (\<lambda>(ps, occ, ls). ((place_claim path w)\<lparr>dp_claimed_path := path\<rparr> # ps, path # occ, losers @ ls))
            (place_winners m))"

fun place_losers ::
  "('d, 'sv) ext \<Rightarrow> materialization_claim list \<Rightarrow> relative_path list \<Rightarrow> desired_placement list res" where
  "place_losers X [] occupied = Inr []"
| "place_losers X (c # cs) occupied =
     bind_res (next_available_conflict_path X c occupied) (\<lambda>p.
       map_ok ((#) (place_claim p c)) (place_losers X cs (p # occupied)))"

definition derive_visible_placements ::
  "('d, 'sv) ext \<Rightarrow> materialization_claim list \<Rightarrow> desired_placement list res" where
  "derive_visible_placements X cs =
     bind_res (place_winners (claims_by_requested_path cs)) (\<lambda>(winners, occupied, losing).
     bind_res (place_losers X losing occupied) (\<lambda>losers.
       Inr (sort_key placement_key (winners @ losers))))"

definition confirmed_objects_from_doc :: "('d, 'sv) ext \<Rightarrow> 'd \<Rightarrow> confirmed_object list res" where
  "confirmed_objects_from_doc X d =
     bind_res (ns_all_object_ids X d) (\<lambda>ids.
       map_res (\<lambda>obj.
         bind_res (ok_or (ns_get_object X obj d) Fatal) (\<lambda>meta.
           Inr \<lparr>co_object_id = obj, co_meta = meta\<rparr>)) (sort ids))"

definition materialization_claim_of ::
  "('d, 'sv) ext \<Rightarrow> 'd \<Rightarrow> active_claim \<Rightarrow> materialization_claim res" where
  "materialization_claim_of X d a =
     bind_res (ok_or (ns_get_object X (cr_object_id (ac_record a)) d) Fatal) (\<lambda>meta.
       Inr \<lparr>mc_claim_id = ac_claim_id a, mc_object_id = cr_object_id (ac_record a),
            mc_path = cr_path (ac_record a), mc_meta = meta\<rparr>)"

definition collect_materialization_claims ::
  "('d, 'sv) ext \<Rightarrow> 'd \<Rightarrow> materialization_claim list res" where
  "collect_materialization_claims X d =
     bind_res (ns_active_claims X d) (map_res (materialization_claim_of X d))"

definition materialize_namespace :: "('d, 'sv) ext \<Rightarrow> 'd \<Rightarrow> namespace_projection res" where
  "materialize_namespace X d =
     bind_res (confirmed_objects_from_doc X d) (\<lambda>objs.
     bind_res (collect_materialization_claims X d) (\<lambda>claims.
     bind_res (derive_visible_placements X (sort_claims_deterministically claims)) (\<lambda>placements.
       Inr \<lparr>np_confirmed_objects = objs, np_placements = placements\<rparr>)))"

text \<open>Both sides go through a \<open>BTreeSet\<close>, so they are sorted and free of duplicates.\<close>

definition placement_set :: "desired_placement list \<Rightarrow> desired_placement list" where
  "placement_set ps = sort_key placement_key (remdups ps)"

definition placement_delta_of ::
  "desired_placement list \<Rightarrow> desired_placement list \<Rightarrow> placement_delta" where
  "placement_delta_of previous next =
     \<lparr>pd_added = filter (\<lambda>p. p \<notin> set (placement_set previous)) (placement_set next),
      pd_removed = filter (\<lambda>p. p \<notin> set (placement_set next)) (placement_set previous)\<rparr>"

text \<open>What a claim asks for and what a placement shows, leaving the rendered path aside.\<close>

definition claim_content :: "materialization_claim \<Rightarrow> relative_path \<times> claim_id \<times> object_id \<times> object_kind" where
  "claim_content c = (mc_path c, mc_claim_id c, mc_object_id c, meta_kind (mc_meta c))"

definition placement_content :: "desired_placement \<Rightarrow> relative_path \<times> claim_id \<times> object_id \<times> object_kind" where
  "placement_content p = (dp_claimed_path p, dp_claim_id p, dp_object_id p, dp_kind p)"

text \<open>A document with two claims of one path, used as a concrete input below.\<close>

definition demo_ns_doc :: demo_doc where
  "demo_ns_doc =
     ([((''objects'', ''A''), YMap [(''c'', YAny (YBuffer ''w'')), (''k'', YAny (YString ''text''))]),
       ((''objects'', ''B''), YMap [(''k'', YAny (YString ''binary'')), (''c'', YAny (YBuffer ''v''))]),
       ((''claims'', ''x''), YMap [(''o'', YAny (YBuffer ''A'')), (''p'', YAny (YString ''n.md''))]),
       ((''claims'', ''y''), YMap [(''o'', YAny (YBuffer ''B'')), (''p'', YAny (YString ''n.md''))])], [])"

definition demo_ns_ext :: "(demo_doc, unit) ext" where
  "demo_ns_ext = demo_ext (\<lambda>_. [])"

definition demo_claim :: "claim_id \<Rightarrow> object_id \<Rightarrow> object_kind \<Rightarrow> writer_id \<Rightarrow> materialization_claim" where
  "demo_claim c obj k w =
     \<lparr>mc_claim_id = c, mc_object_id = obj, mc_path = RelativePath [''n.md''],
      mc_meta = \<lparr>meta_kind = k, meta_creator = w\<rparr>\<rparr>"

section \<open>Lemmas: grouping and winners\<close>

lemma kind_rank_inj: "kind_rank a = kind_rank b \<Longrightarrow> a = b"
  by (cases a; cases b) auto

lemma placement_key_inj: "inj_on placement_key A"
  by (rule inj_onI) (auto simp: placement_key_def dest: kind_rank_inj)

lemma group_step:
  assumes "bt_wf m"
  shows "bt_wf (bt_insert (mc_path c) ((case bt_get m (mc_path c) of None \<Rightarrow> [] | Some v \<Rightarrow> v) @ [c]) m)"
  using assms by (rule btree.wf_insert)

lemma group_fold:
  assumes "bt_wf m"
  shows "bt_wf (fold (\<lambda>c m. bt_insert (mc_path c)
            ((case bt_get m (mc_path c) of None \<Rightarrow> [] | Some v \<Rightarrow> v) @ [c]) m) cs m)"
    and "bt_get (fold (\<lambda>c m. bt_insert (mc_path c)
            ((case bt_get m (mc_path c) of None \<Rightarrow> [] | Some v \<Rightarrow> v) @ [c]) m) cs m) p =
          (case bt_get m p of
             None \<Rightarrow> (case filter (\<lambda>c. mc_path c = p) cs of [] \<Rightarrow> None | ys \<Rightarrow> Some ys)
           | Some v \<Rightarrow> Some (v @ filter (\<lambda>c. mc_path c = p) cs))"
  using assms
proof (induction cs arbitrary: m)
  case Nil
  { case 1 then show ?case by simp }
  { case 2 then show ?case by (simp split: option.splits) }
next
  case (Cons c cs)
  { case 1 then show ?case using Cons.IH(1) [OF group_step] by simp }
  { case 2 then show ?case
      using Cons.IH(2) [OF group_step]
      by (auto simp: bt_get_insert split: option.splits list.splits) }
qed

lemma claims_by_requested_path_wf: "bt_wf (claims_by_requested_path cs)"
  unfolding claims_by_requested_path_def by (rule group_fold(1)) simp

lemma claims_by_requested_path_get:
  "bt_get (claims_by_requested_path cs) p =
     (case filter (\<lambda>c. mc_path c = p) cs of [] \<Rightarrow> None | ys \<Rightarrow> Some ys)"
  unfolding claims_by_requested_path_def using group_fold(2) [of "[]" cs p] by simp

lemma claims_group_mem:
  "(p, g) \<in> set (claims_by_requested_path cs) \<longleftrightarrow> g = filter (\<lambda>c. mc_path c = p) cs \<and> g \<noteq> []"
  using bt_get_Some_iff [OF claims_by_requested_path_wf, of cs p g]
  by (auto simp: claims_by_requested_path_get split: list.splits)

lemma claims_group_keys: "set (map fst (claims_by_requested_path cs)) = mc_path ` set cs"
proof (rule set_eqI)
  fix p
  have "p \<in> set (map fst (claims_by_requested_path cs)) \<longleftrightarrow> filter (\<lambda>c. mc_path c = p) cs \<noteq> []"
    using claims_group_mem [of p "filter (\<lambda>c. mc_path c = p) cs" cs]
    by (metis (no_types, lifting) claims_group_mem fst_conv image_iff list.set_map prod.collapse)
  also have "\<dots> \<longleftrightarrow> p \<in> mc_path ` set cs"
    by (auto simp: filter_empty_conv)
  finally show "p \<in> set (map fst (claims_by_requested_path cs)) \<longleftrightarrow> p \<in> mc_path ` set cs" .
qed

lemma count_concat_groups:
  "count (mset (concat (map snd m))) c = (\<Sum>e\<leftarrow>m. count (mset (snd e)) c)"
  by (induction m) auto

lemma distinct_map_sort_key: "distinct (map f (sort_key k xs)) \<longleftrightarrow> distinct (map f xs)"
  by (rule mset_eq_imp_distinct_iff) simp

lemma claims_group_mset: "mset (concat (map snd (claims_by_requested_path cs))) = mset cs"
proof (rule multiset_eqI)
  fix c
  let ?m = "claims_by_requested_path cs"
  have dist: "distinct (map fst ?m)" by (rule bt_wf_distinct [OF claims_by_requested_path_wf])
  have group: "snd e = filter (\<lambda>d. mc_path d = fst e) cs" if "e \<in> set ?m" for e
    using that claims_group_mem [of "fst e" "snd e" cs] by simp
  have "count (mset (concat (map snd ?m))) c = (\<Sum>e\<leftarrow>?m. count (mset (snd e)) c)"
    by (rule count_concat_groups)
  also have "\<dots> = (\<Sum>e\<leftarrow>?m. if fst e = mc_path c then count (mset cs) c else 0)"
    by (rule arg_cong [where f = sum_list], rule map_cong) (auto simp: group)
  also have "\<dots> = (\<Sum>p\<leftarrow>map fst ?m. if p = mc_path c then count (mset cs) c else 0)"
    by (simp add: comp_def)
  also have "\<dots> = (\<Sum>p\<in>set (map fst ?m). if p = mc_path c then count (mset cs) c else 0)"
    using dist by (rule sum_list_distinct_conv_sum_set)
  also have "\<dots> = count (mset cs) c"
    unfolding claims_group_keys by (auto simp: not_in_iff [symmetric])
  finally show "count (mset (concat (map snd ?m))) c = count (mset cs) c" .
qed

lemma place_winners_ok:
  assumes "\<And>p g. (p, g) \<in> set m \<Longrightarrow> g \<noteq> []"
  shows "place_winners m =
     Inr (map (\<lambda>(p, g). (place_claim p (hd (sort_key claim_rank g)))\<lparr>dp_claimed_path := p\<rparr>) m,
          map fst m, concat (map (\<lambda>(p, g). tl (sort_key claim_rank g)) m))"
  using assms
proof (induction m)
  case Nil
  then show ?case by simp
next
  case (Cons e m)
  obtain p g where e: "e = (p, g)" by fastforce
  with Cons.prems have "g \<noteq> []" by auto
  then obtain w ls where ws: "sort_key claim_rank g = w # ls"
    by (cases "sort_key claim_rank g") (auto dest: arg_cong [where f = length])
  have IH: "place_winners m =
     Inr (map (\<lambda>(p, g). (place_claim p (hd (sort_key claim_rank g)))\<lparr>dp_claimed_path := p\<rparr>) m,
          map fst m, concat (map (\<lambda>(p, g). tl (sort_key claim_rank g)) m))"
    using Cons.prems by (intro Cons.IH) auto
  show ?case by (simp add: e ws IH)
qed

lemma place_winners_groups:
  "place_winners (claims_by_requested_path cs) =
     Inr (map (\<lambda>(p, g). (place_claim p (hd (sort_key claim_rank g)))\<lparr>dp_claimed_path := p\<rparr>)
            (claims_by_requested_path cs),
          map fst (claims_by_requested_path cs),
          concat (map (\<lambda>(p, g). tl (sort_key claim_rank g)) (claims_by_requested_path cs)))"
  by (rule place_winners_ok) (simp add: claims_group_mem)

section \<open>Lemmas: losers\<close>

lemma first_free_candidate_ok:
  "first_free_candidate p occ ss = Inr q \<Longrightarrow>
     q \<notin> set occ \<and> (\<exists>n s. s \<in> set ss \<and> file_name p = Inr n \<and>
       with_file_name p (format_conflict_name n s) = Inr q)"
  by (induction ss) (auto simp: res_simps split: if_splits)

lemma place_losers_ok:
  assumes "place_losers X cs occ = Inr ps"
  shows "length ps = length cs \<and> map (\<lambda>p. p\<lparr>dp_path := q\<rparr>) ps = map (\<lambda>c. place_claim q c) cs \<and>
    distinct (map dp_path ps) \<and> set (map dp_path ps) \<inter> set occ = {}"
  using assms
proof (induction cs arbitrary: occ ps)
  case Nil
  then show ?case by simp
next
  case (Cons c cs)
  then obtain p rest where p: "next_available_conflict_path X c occ = Inr p"
    and rest: "place_losers X cs (p # occ) = Inr rest" and ps: "ps = place_claim p c # rest"
    by (auto simp: res_simps)
  from p have "p \<notin> set occ"
    unfolding next_available_conflict_path_def by (auto dest: first_free_candidate_ok)
  with Cons.IH [OF rest] show ?case
    by (auto simp: ps place_claim_def)
qed

section \<open>Lemmas: the placements of a claim list\<close>

lemma derive_ok_split:
  assumes "derive_visible_placements X cs = Inr ps"
  obtains ls where
    "place_losers X (concat (map (\<lambda>(p, g). tl (sort_key claim_rank g)) (claims_by_requested_path cs)))
       (map fst (claims_by_requested_path cs)) = Inr ls"
    "ps = sort_key placement_key
       (map (\<lambda>(p, g). (place_claim p (hd (sort_key claim_rank g)))\<lparr>dp_claimed_path := p\<rparr>)
          (claims_by_requested_path cs) @ ls)"
  using assms by (auto simp: derive_visible_placements_def place_winners_groups res_simps)

lemma winner_paths:
  "map dp_path (map (\<lambda>(p, g). (place_claim p (w g))\<lparr>dp_claimed_path := p\<rparr>) m) = map fst m"
  by (auto simp: place_claim_def)

lemma derive_paths_distinct:
  assumes "derive_visible_placements X cs = Inr ps"
  shows "distinct (map dp_path ps)"
proof -
  let ?m = "claims_by_requested_path cs"
  let ?ws = "map (\<lambda>(p, g). (place_claim p (hd (sort_key claim_rank g)))\<lparr>dp_claimed_path := p\<rparr>) ?m"
  obtain ls where ls: "place_losers X (concat (map (\<lambda>(p, g). tl (sort_key claim_rank g)) ?m))
      (map fst ?m) = Inr ls" and ps: "ps = sort_key placement_key (?ws @ ls)"
    by (rule derive_ok_split [OF assms])
  have "distinct (map dp_path ?ws)"
    unfolding winner_paths by (rule bt_wf_distinct [OF claims_by_requested_path_wf])
  moreover have "set (map dp_path ?ws) = set (map fst ?m)"
    unfolding winner_paths ..
  ultimately have "distinct (map dp_path (?ws @ ls))"
    using place_losers_ok [OF ls] by auto
  then show ?thesis
    unfolding ps distinct_map_sort_key .
qed

lemma claim_content_hd_tl:
  "g \<noteq> [] \<Longrightarrow> mset (hd (sort_key k g) # tl (sort_key k g)) = mset g"
  by (metis hd_Cons_tl mset_sort set_empty set_sort)

lemma placement_content_place: "placement_content (place_claim q c) = claim_content c"
  by (simp add: placement_content_def place_claim_def claim_content_def)

lemma placement_content_path: "placement_content (p\<lparr>dp_path := q\<rparr>) = placement_content p"
  by (simp add: placement_content_def)

lemma losers_content:
  assumes "place_losers X cs occ = Inr ls"
  shows "map placement_content ls = map claim_content cs"
proof -
  fix q
  have "map placement_content (map (\<lambda>p. p\<lparr>dp_path := q\<rparr>) ls) =
      map placement_content (map (\<lambda>c. place_claim q c) cs)"
    using place_losers_ok [OF assms, of q] by simp
  then show ?thesis
    by (simp add: comp_def placement_content_path placement_content_place)
qed

lemma winners_losers_content:
  assumes "\<And>p g. (p, g) \<in> set m \<Longrightarrow> g \<noteq> [] \<and> (\<forall>c\<in>set g. mc_path c = p)"
  shows "mset (map placement_content
           (map (\<lambda>(p, g). (place_claim p (hd (sort_key claim_rank g)))\<lparr>dp_claimed_path := p\<rparr>) m)) +
         mset (map claim_content (concat (map (\<lambda>(p, g). tl (sort_key claim_rank g)) m))) =
         mset (map claim_content (concat (map snd m)))"
  using assms
proof (induction m)
  case Nil
  then show ?case by simp
next
  case (Cons e m)
  obtain p g where e: "e = (p, g)" by fastforce
  have g: "g \<noteq> []" "\<forall>c\<in>set g. mc_path c = p" using Cons.prems e by auto
  let ?s = "sort_key claim_rank g"
  have "hd ?s \<in> set g" using g(1) by (metis hd_in_set set_empty set_sort)
  with g(2) have win: "placement_content ((place_claim p (hd ?s))\<lparr>dp_claimed_path := p\<rparr>) = claim_content (hd ?s)"
    by (simp add: placement_content_def place_claim_def claim_content_def)
  have "mset (map claim_content g) = add_mset (claim_content (hd ?s)) (mset (map claim_content (tl ?s)))"
    using claim_content_hd_tl [OF g(1), of claim_rank]
    by (metis list.simps(9) mset.simps(2) mset_map)
  moreover have "\<And>p g. (p, g) \<in> set m \<Longrightarrow> g \<noteq> [] \<and> (\<forall>c\<in>set g. mc_path c = p)"
    using Cons.prems by auto
  ultimately show ?case
    using Cons.IH win by (simp add: e)
qed

lemma derive_content:
  assumes "derive_visible_placements X cs = Inr ps"
  shows "mset (map placement_content ps) = mset (map claim_content cs)"
proof -
  let ?m = "claims_by_requested_path cs"
  let ?ws = "map (\<lambda>(p, g). (place_claim p (hd (sort_key claim_rank g)))\<lparr>dp_claimed_path := p\<rparr>) ?m"
  let ?losing = "concat (map (\<lambda>(p, g). tl (sort_key claim_rank g)) ?m)"
  obtain ls where ls: "place_losers X ?losing (map fst ?m) = Inr ls"
    and ps: "ps = sort_key placement_key (?ws @ ls)"
    by (rule derive_ok_split [OF assms])
  have "mset (map placement_content ps) = mset (map placement_content ?ws) + mset (map placement_content ls)"
    unfolding ps by (simp only: mset_map mset_sort mset_append image_mset_union)
  also have "\<dots> = mset (map placement_content ?ws) + mset (map claim_content ?losing)"
    using losers_content [OF ls] by simp
  also have "\<dots> = mset (map claim_content (concat (map snd ?m)))"
    by (rule winners_losers_content) (auto simp: claims_group_mem)
  also have "\<dots> = mset (map claim_content cs)"
    using claims_group_mset [of cs] by (simp add: mset_map)
  finally show ?thesis .
qed

lemma hd_sort_key_least:
  assumes "c \<in> set cs"
  shows "hd (sort_key k cs) \<in> set cs" and "k (hd (sort_key k cs)) \<le> k c"
proof -
  have "set (sort_key k cs) = set cs" by simp
  with assms obtain w ls where s: "sort_key k cs = w # ls" by (cases "sort_key k cs") auto
  have "sorted (map k (w # ls))" unfolding s [symmetric] by (rule sorted_sort_key)
  moreover have "set cs = insert w (set ls)" using \<open>set (sort_key k cs) = set cs\<close> s by simp
  ultimately show "hd (sort_key k cs) \<in> set cs" "k (hd (sort_key k cs)) \<le> k c"
    using assms s by auto
qed

lemma derive_winner:
  assumes "derive_visible_placements X cs = Inr ps" and "c \<in> set cs"
    and min: "\<And>d. d \<in> set cs \<Longrightarrow> mc_path d = mc_path c \<Longrightarrow> claim_rank c \<le> claim_rank d"
    and inj: "inj_on claim_rank (set cs)"
  shows "place_claim (mc_path c) c \<in> set ps"
proof -
  let ?g = "filter (\<lambda>d. mc_path d = mc_path c) cs"
  have c: "c \<in> set ?g" using assms(2) by simp
  note h = hd_sort_key_least [OF c, of claim_rank]
  then have "claim_rank c = claim_rank (hd (sort_key claim_rank ?g))"
    using min by (intro order.antisym) auto
  then have hd: "hd (sort_key claim_rank ?g) = c"
    using inj h(1) assms(2) by (auto simp: inj_on_def)
  have "(mc_path c, ?g) \<in> set (claims_by_requested_path cs)"
    using assms(2) by (auto simp: claims_group_mem filter_empty_conv)
  then have "(place_claim (mc_path c) (hd (sort_key claim_rank ?g)))\<lparr>dp_claimed_path := mc_path c\<rparr> \<in>
      set (map (\<lambda>(p, g). (place_claim p (hd (sort_key claim_rank g)))\<lparr>dp_claimed_path := p\<rparr>)
            (claims_by_requested_path cs))"
    by (auto intro: rev_image_eqI)
  then have "place_claim (mc_path c) c \<in>
      set (map (\<lambda>(p, g). (place_claim p (hd (sort_key claim_rank g)))\<lparr>dp_claimed_path := p\<rparr>)
            (claims_by_requested_path cs))"
    unfolding hd by (simp add: place_claim_def)
  then show ?thesis
    by (rule_tac derive_ok_split [OF assms(1)]) (simp only: set_sort set_append Un_iff simp_thms)
qed

section \<open>Lemmas: independence of the iteration order\<close>

lemma fatal_only_intros:
  "fatal_only (active_claim_of X)"
  "fatal_only (\<lambda>kv. ok_or (b64_decode X (fst kv)) Fatal)"
  "fatal_only (materialization_claim_of X d)"
  by (auto simp: fatal_only_def active_claim_of_def materialization_claim_of_def bind_res_def ok_or_def
      split: sum.splits option.splits)

lemma map_iter_perm:
  assumes "map_iter_ok X d" and "map_iter_ok X d'" and "\<And>r k. map_get X r k d = map_get X r k d'"
  shows "mset (map_iter X r d) = mset (map_iter X r d')"
proof -
  have "set (map_iter X r d) = set (map_iter X r d')"
    using map_iter_okD(2) [OF assms(1), of _ _ r] map_iter_okD(2) [OF assms(2), of _ _ r] assms(3)
    by (metis (no_types, lifting) prod.collapse set_eqI)
  moreover have "distinct (map_iter X r d)" "distinct (map_iter X r d')"
    using map_iter_okD(1) [OF assms(1)] map_iter_okD(1) [OF assms(2)] by (simp_all add: distinct_map)
  ultimately show ?thesis by (simp add: set_eq_iff_mset_eq_distinct)
qed

lemma ns_get_object_cong:
  assumes "\<And>r k. map_get X r k d = map_get X r k d'"
  shows "ns_get_object X obj d = ns_get_object X obj d'"
  by (simp add: ns_get_object_def assms)

lemma confirmed_objects_cong:
  assumes "map_iter_ok X d" and "map_iter_ok X d'" and "\<And>r k. map_get X r k d = map_get X r k d'"
  shows "confirmed_objects_from_doc X d = confirmed_objects_from_doc X d'"
proof -
  have "map_ok mset (ns_all_object_ids X d) = map_ok mset (ns_all_object_ids X d')"
    unfolding ns_all_object_ids_def
    by (rule map_res_perm [OF fatal_only_intros(2) map_iter_perm [OF assms]])
  then show ?thesis
  proof (cases rule: map_ok_mset_cases)
    case (2 xs ys)
    have "sort xs = sort ys" by (rule sort_key_sorted_unique [OF 2(3)]) simp
    with 2 show ?thesis
      by (simp add: confirmed_objects_from_doc_def ns_get_object_cong [OF assms(3)])
  qed (simp add: confirmed_objects_from_doc_def)
qed

lemma list_all2_distinct_image:
  assumes "list_all2 (\<lambda>x y. g (f x) = Some (h y)) xs ys" and "distinct (map f xs)"
    and "\<And>a b z. g a = Some z \<Longrightarrow> g b = Some z \<Longrightarrow> a = b"
  shows "distinct (map h ys)"
proof -
  have "map (g \<circ> f) xs = map (Some \<circ> h) ys"
    using assms(1) by (auto simp: list_all2_conv_all_nth intro: nth_equalityI)
  moreover have "inj_on g (f ` set xs)"
  proof (rule inj_onI)
    fix a b assume "a \<in> f ` set xs" "b \<in> f ` set xs" and eq: "g a = g b"
    then obtain x where "x \<in> set xs" "a = f x" by blast
    with assms(1) obtain z where "g a = Some z"
      by (auto simp: list_all2_conv_all_nth in_set_conv_nth)
    with eq show "a = b" using assms(3) by metis
  qed
  then have "distinct (map g (map f xs))"
    using assms(2) by (simp add: distinct_map comp_inj_on)
  ultimately have "distinct (map Some (map h ys))" by simp
  then show ?thesis using distinct_map by blast
qed

lemma ns_active_claims_ids_distinct:
  assumes "map_iter_ok X d" and "b64_ok X" and "ns_active_claims X d = Inr cs"
  shows "distinct (map ac_claim_id cs)"
proof -
  let ?kvs = "filter (\<lambda>kv. map_get X ''removed_claims'' (fst kv) d = None) (map_iter X ''claims'' d)"
  have "list_all2 (\<lambda>kv c. active_claim_of X kv = Inr c) ?kvs cs"
    using assms(3) by (simp add: ns_active_claims_def map_res_eq_Inr)
  then have dec: "list_all2 (\<lambda>kv c. b64_decode X (fst kv) = Some (ac_claim_id c)) ?kvs cs"
    by (rule list_all2_mono) (auto simp: active_claim_of_def res_simps)
  have "distinct (map fst ?kvs)"
    by (rule distinct_map_filter_snoc) (rule map_iter_okD(1) [OF assms(1)])
  with dec show ?thesis
    by (rule list_all2_distinct_image) (rule b64_decode_inj [OF assms(2)])
qed

lemma collect_claim_ids:
  assumes "ns_active_claims X d = Inr cs" and "map_res (materialization_claim_of X d) cs = Inr ms"
  shows "map mc_claim_id ms = map ac_claim_id cs"
proof -
  have "list_all2 (\<lambda>c m. materialization_claim_of X d c = Inr m) cs ms"
    using assms(2) by (simp add: map_res_eq_Inr)
  then show ?thesis
    by (induction rule: list_all2_induct) (auto simp: materialization_claim_of_def res_simps)
qed

lemma collect_claims_cong:
  assumes "map_iter_ok X d" and "map_iter_ok X d'" and "\<And>r k. map_get X r k d = map_get X r k d'"
  shows "map_ok mset (collect_materialization_claims X d) =
         map_ok mset (collect_materialization_claims X d')"
proof -
  have "map_ok mset (ns_active_claims X d) = map_ok mset (ns_active_claims X d')"
    unfolding ns_active_claims_def assms(3)
    by (rule map_res_perm [OF fatal_only_intros(1)]) (simp add: mset_filter map_iter_perm [OF assms])
  then show ?thesis
  proof (cases rule: map_ok_mset_cases)
    case (2 xs ys)
    have "materialization_claim_of X d = materialization_claim_of X d'"
      by (rule ext) (simp add: materialization_claim_of_def ns_get_object_cong [OF assms(3)])
    with 2 show ?thesis
      by (simp add: collect_materialization_claims_def map_res_perm [OF fatal_only_intros(3) 2(3)])
  qed (simp add: collect_materialization_claims_def)
qed

lemma collect_claims_distinct:
  assumes "map_iter_ok X d" and "b64_ok X" and "collect_materialization_claims X d = Inr ms"
  shows "distinct (map mc_claim_id ms)"
  using assms(3) ns_active_claims_ids_distinct [OF assms(1,2)]
  by (auto simp: collect_materialization_claims_def res_simps collect_claim_ids)

lemma claim_id_distinct_inj:
  assumes "distinct (map mc_claim_id ms)"
  shows "inj_on claim_key (set ms)" and "inj_on claim_rank (set ms)"
  using map_inj_distinct [OF assms] by (auto simp: inj_on_def claim_key_def claim_rank_def)

section \<open>Lemmas: conflict names\<close>

lemma split_filename_join:
  "split_filename_for_conflict name = (stem, ext) \<Longrightarrow> name = stem @ ext"
  by (auto simp: split_filename_for_conflict_def split: option.splits if_splits
      dest: rsplit_once_Some)

lemma format_conflict_name_valid:
  assumes "component_valid n" and "CHR ''/'' \<notin> set s" and "CHR 0x00 \<notin> set s"
  shows "component_valid (format_conflict_name n s)"
proof -
  obtain stem ext where se: "split_filename_for_conflict n = (stem, ext)" by fastforce
  then have "format_conflict_name n s = stem @ '' (conflict '' @ s @ '')'' @ ext"
    by (simp add: format_conflict_name_def)
  moreover have "length (stem @ '' (conflict '' @ s @ '')'' @ ext) > 2" by simp
  ultimately show ?thesis
    using assms split_filename_join [OF se] by (auto simp: component_valid_def)
qed

lemma conflict_suffixes_plain:
  assumes "crockford_ok X" and "s \<in> set (conflict_suffixes X c)"
  shows "CHR ''/'' \<notin> set s" and "CHR 0x00 \<notin> set s"
  using assms unfolding conflict_suffixes_def Let_def remdups_adj_set
  by (fastforce simp: crockford_plain [OF assms(1)] dest: in_set_takeD)+

lemma first_free_candidate_total:
  assumes "rp_valid p" and "\<And>s. s \<in> set ss \<Longrightarrow> CHR ''/'' \<notin> set s \<and> CHR 0x00 \<notin> set s"
    and "n = last (as_components p)"
  shows "first_free_candidate p occ ss =
     (case filter (\<lambda>q. q \<notin> set occ)
        (map (\<lambda>s. RelativePath (butlast (as_components p) @ [format_conflict_name n s])) ss)
      of [] \<Rightarrow> Inl Fatal | q # _ \<Rightarrow> Inr q)"
  using assms(2)
proof (induction ss)
  case (Cons s ss)
  have "as_components p \<noteq> []" using assms(1) by (simp add: rp_valid_def)
  moreover have "validate_component (format_conflict_name n s) = Inr ()"
    unfolding validate_component_ok
    using assms Cons.prems rp_valid_components [OF assms(1), of n] \<open>as_components p \<noteq> []\<close>
    by (intro format_conflict_name_valid) auto
  ultimately show ?case
    using Cons assms(3) by (simp add: file_name_def with_file_name_def)
qed simp

lemma placement_set_spec:
  "set (placement_set ps) = set ps" "sorted_wrt (<) (map placement_key (placement_set ps))"
proof -
  show "set (placement_set ps) = set ps" by (simp add: placement_set_def)
  have "distinct (map placement_key (placement_set ps))"
    unfolding placement_set_def distinct_map_sort_key
    by (simp add: distinct_map placement_key_inj)
  then show "sorted_wrt (<) (map placement_key (placement_set ps))"
    by (simp add: strict_sorted_iff) (simp add: placement_set_def)
qed

lemma demo_ns_ok:
  "materialize_namespace demo_ns_ext demo_ns_doc =
     Inr (projr (materialize_namespace demo_ns_ext demo_ns_doc))"
proof -
  have "is_ok (materialize_namespace demo_ns_ext demo_ns_doc)" by code_simp
  then show ?thesis by (simp add: is_ok_def split: sum.splits)
qed

section \<open>Properties\<close>

text \<open>(C1) Convergence: two replicas whose documents hold the same map entries derive the same
  objects and placements (or fail alike), whatever order \<open>yrs\<close> iterates its maps in.\<close>

theorem materialize_order_independent:
  assumes "map_iter_ok X d" and "map_iter_ok X d'" and "b64_ok X"
    and "\<forall>r k. map_get X r k d = map_get X r k d'"
  shows "materialize_namespace X d = materialize_namespace X d'"
proof -
  have same: "map_get X r k d = map_get X r k d'" for r k using assms(4) by simp
  note objs = confirmed_objects_cong [OF assms(1,2) same]
  from collect_claims_cong [OF assms(1,2) same] show ?thesis
  proof (cases rule: map_ok_mset_cases)
    case (2 xs ys)
    have "inj_on claim_key (set xs)"
      by (rule claim_id_distinct_inj(1) [OF collect_claims_distinct [OF assms(1,3) 2(1)]])
    then have "sort_claims_deterministically xs = sort_claims_deterministically ys"
      unfolding sort_claims_deterministically_def by (rule sort_key_sorted_unique [OF 2(3)])
    with 2 show ?thesis by (simp add: materialize_namespace_def objs)
  qed (simp add: materialize_namespace_def objs)
qed

theorem materialize_order_independent_witness:
  "materialize_namespace demo_ns_ext demo_ns_doc =
     materialize_namespace demo_ns_ext (rev (fst demo_ns_doc), [])"
proof (rule materialize_order_independent)
  show "map_iter_ok demo_ns_ext demo_ns_doc" "map_iter_ok demo_ns_ext (rev (fst demo_ns_doc), [])"
    unfolding demo_ns_ext_def by (simp_all add: demo_map_iter_ok demo_ns_doc_def)
  show "b64_ok demo_ns_ext" unfolding demo_ns_ext_def by (rule demo_ext_ok)
  show "\<forall>r k. map_get demo_ns_ext r k demo_ns_doc = map_get demo_ns_ext r k (rev (fst demo_ns_doc), [])"
    by (simp add: demo_ns_ext_def demo_ext_def demo_ns_doc_def)
qed

text \<open>(C2) A materialized namespace shows every active claim exactly once, with the claim's own
  path, object and kind, and never renders two placements at one path.\<close>

theorem materialize_complete:
  assumes "materialize_namespace X d = Inr np"
  shows "\<exists>cs. collect_materialization_claims X d = Inr cs \<and>
     mset (map placement_content (np_placements np)) = mset (map claim_content cs) \<and>
     sorted_wrt (<) (map dp_path (np_placements np))"
proof -
  from assms obtain cs ps where cs: "collect_materialization_claims X d = Inr cs"
    and ps: "derive_visible_placements X (sort_claims_deterministically cs) = Inr ps"
    and np: "np_placements np = ps"
    by (auto simp: materialize_namespace_def res_simps)
  have "sorted (map placement_key ps)"
    by (rule derive_ok_split [OF ps]) (simp only: sorted_sort_key)
  then have "sorted (map dp_path ps)"
    unfolding sorted_map by (rule sorted_wrt_mono_rel [rotated]) (auto simp: placement_key_def)
  with derive_paths_distinct [OF ps] have "sorted_wrt (<) (map dp_path ps)"
    by (simp add: strict_sorted_iff)
  then show ?thesis
    using cs np derive_content [OF ps] by (simp add: sort_claims_deterministically_def mset_map)
qed

theorem materialize_complete_witness:
  "\<exists>cs. collect_materialization_claims demo_ns_ext demo_ns_doc = Inr cs \<and>
     mset (map placement_content (np_placements (projr (materialize_namespace demo_ns_ext demo_ns_doc)))) =
       mset (map claim_content cs) \<and>
     sorted_wrt (<) (map dp_path (np_placements (projr (materialize_namespace demo_ns_ext demo_ns_doc))))"
  by (rule materialize_complete [OF demo_ns_ok])

text \<open>(C3) The claim with the least (creator, object, claim) among the active claims that ask for
  one path is rendered at that very path; only the others get a conflict name.\<close>

theorem materialize_winner:
  assumes "map_iter_ok X d" and "b64_ok X" and "materialize_namespace X d = Inr np"
    and "collect_materialization_claims X d = Inr cs" and "c \<in> set cs"
    and "\<forall>c'\<in>set cs. mc_path c' = mc_path c \<longrightarrow> claim_rank c \<le> claim_rank c'"
  shows "place_claim (mc_path c) c \<in> set (np_placements np)"
proof -
  have "derive_visible_placements X (sort_claims_deterministically cs) = Inr (np_placements np)"
    using assms(3,4) by (auto simp: materialize_namespace_def res_simps)
  then show ?thesis
    using assms(5,6) claim_id_distinct_inj(2) [OF collect_claims_distinct [OF assms(1,2,4)]]
    by (intro derive_winner [of X "sort_claims_deterministically cs"])
      (auto simp: sort_claims_deterministically_def)
qed

theorem materialize_winner_witness:
  "place_claim (RelativePath [''n.md'']) (demo_claim ''y'' ''B'' Binary ''v'')
     \<in> set (np_placements (projr (materialize_namespace demo_ns_ext demo_ns_doc)))"
proof -
  have cs: "collect_materialization_claims demo_ns_ext demo_ns_doc =
      Inr [demo_claim ''x'' ''A'' Text ''w'', demo_claim ''y'' ''B'' Binary ''v'']"
    by code_simp
  have iter: "map_iter_ok demo_ns_ext demo_ns_doc"
    unfolding demo_ns_ext_def by (rule demo_map_iter_ok) (simp add: demo_ns_doc_def)
  have b64: "b64_ok demo_ns_ext" unfolding demo_ns_ext_def by (rule demo_ext_ok)
  have "claim_rank (demo_claim ''y'' ''B'' Binary ''v'') \<le> claim_rank (demo_claim ''x'' ''A'' Text ''w'')"
    by code_simp
  moreover have "mc_path (demo_claim ''y'' ''B'' Binary ''v'') = RelativePath [''n.md'']"
    by (simp add: demo_claim_def)
  ultimately show ?thesis
    using materialize_winner [OF iter b64 demo_ns_ok cs, of "demo_claim ''y'' ''B'' Binary ''v''"]
    by simp
qed

text \<open>A losing claim gets the first of its five candidate names that is free, beside the
  requested path and always a valid path; the only failure is that all candidates are taken.\<close>

theorem conflict_path_first_free:
  assumes "crockford_ok X" and "rp_valid (mc_path c)"
  shows "next_available_conflict_path X c occ =
     (case filter (\<lambda>q. q \<notin> set occ)
        (map (\<lambda>s. RelativePath (butlast (as_components (mc_path c)) @
               [format_conflict_name (last (as_components (mc_path c))) s])) (conflict_suffixes X c))
      of [] \<Rightarrow> Inl Fatal | q # _ \<Rightarrow> Inr q)"
  unfolding next_available_conflict_path_def
  using conflict_suffixes_plain [OF assms(1)] assms(2) by (intro first_free_candidate_total) auto

theorem conflict_path_first_free_witness:
  "next_available_conflict_path demo_ns_ext (demo_claim ''x'' ''A'' Text ''w'') [RelativePath [''n.md'']] =
     Inr (RelativePath [''n (conflict 167).md''])"
proof -
  have ok: "crockford_ok demo_ns_ext" unfolding demo_ns_ext_def by (rule demo_ext_ok)
  have valid: "rp_valid (mc_path (demo_claim ''x'' ''A'' Text ''w''))" by code_simp
  show ?thesis unfolding conflict_path_first_free [OF ok valid] by code_simp
qed

text \<open>What is written into the namespace document is read back: a new object's metadata, a
  new claim's record, and the removal mark; other objects and claims are not touched.\<close>

theorem namespace_write_read:
  assumes "map_insert_ok X" and "b64_ok X" and "out_string_ok X" and "rp_valid p"
  shows "ns_get_object X o' (ns_add_new_object X obj kind w d) =
           (if o' = obj then Some \<lparr>meta_kind = kind, meta_creator = w\<rparr> else ns_get_object X o' d) \<and>
         ns_get_claim X c' (ns_add_new_claim X claim obj p d) =
           (if c' = claim then Some \<lparr>cr_object_id = obj, cr_path = p\<rparr> else ns_get_claim X c' d) \<and>
         ns_is_claim_removed X c' (ns_remove_claim X claim d) =
           (c' = claim \<or> ns_is_claim_removed X c' d)"
proof -
  have enc: "b64_encode X a = b64_encode X b \<longleftrightarrow> a = b" for a b
    using assms(2) by (metis b64_decode_encode option.inject)
  have kind: "kind_from_str (kind_str k) = Some k" for k
    by (cases k) (simp_all add: kind_from_str_def)
  have path: "relative_path_parse (to_db_path p) = Inr p"
    using assms(4) by (rule to_db_path_valid)
  note ins = assms(1) [unfolded map_insert_ok_def]
  note laws = ins [THEN conjunct1, rule_format] ins [THEN conjunct2, THEN conjunct1, rule_format]
    ins [THEN conjunct2, THEN conjunct2, rule_format]
  show ?thesis
    using assms(3)
    by (auto simp: ns_get_object_def ns_add_new_object_def ns_get_claim_def ns_add_new_claim_def
        ns_is_claim_removed_def ns_remove_claim_def Let_def laws enc kind path object_meta_from_out_def
        claim_record_from_out_def any_to_bytes_def out_string_ok_def res_ok_def)
qed

theorem namespace_write_read_witness:
  "ns_get_object demo_ns_ext ''A'' (ns_add_new_object demo_ns_ext ''A'' Text ''w'' ([], [])) =
     Some \<lparr>meta_kind = Text, meta_creator = ''w''\<rparr>"
proof -
  have "map_insert_ok demo_ns_ext" "b64_ok demo_ns_ext" "out_string_ok demo_ns_ext"
    unfolding demo_ns_ext_def by (rule demo_map_insert_ok demo_ext_ok)+
  moreover have "rp_valid (RelativePath [''a''])" by code_simp
  ultimately show ?thesis
    using namespace_write_read [of demo_ns_ext "RelativePath [''a'']" "''A''" "''A''" Text "''w''" "([], [])"]
    by auto
qed

text \<open>The placement delta is exact: added and removed are the two set differences, each in
  strict key order, so replaying the delta on the previous placements gives the next ones.\<close>

theorem placement_delta_exact:
  "set (pd_added (placement_delta_of prev next)) = set next - set prev \<and>
   set (pd_removed (placement_delta_of prev next)) = set prev - set next \<and>
   sorted_wrt (<) (map placement_key (pd_added (placement_delta_of prev next))) \<and>
   sorted_wrt (<) (map placement_key (pd_removed (placement_delta_of prev next)))"
  using placement_set_spec(2) [of prev] placement_set_spec(2) [of "next"]
  by (auto simp: placement_delta_of_def placement_set_spec(1) sorted_wrt_map intro: sorted_wrt_filter)

end
