(* ===== verification/Log_Codec.thy ===== *)
theory Log_Codec
  imports External
begin

text \<open>
  The shared log's record format: \<open>log/codec.rs\<close> (headers, inline records, pointer packages),
  \<open>log/encrypt.rs\<close> (nonce and ciphertext), \<open>RecordCipher::encrypt_record\<close> of \<open>log/writer.rs\<close>, the
  decoding loop of \<open>log/reader.rs\<close>, \<open>SharedMessageBatch::try_from\<close> of \<open>types.rs\<close> and the engine's
  \<open>shared_message_buffer.rs\<close>. Random nonces, pointer ids and the clock are arguments. The main
  property is the round trip writer, S2, reader, for inline and for multipart messages.
\<close>

section \<open>Standard library: UTF-8 and signed decimals\<close>

definition byte_in :: "nat \<Rightarrow> nat \<Rightarrow> char \<Rightarrow> bool" where
  "byte_in lo hi c \<longleftrightarrow> lo \<le> of_char c \<and> of_char c \<le> hi"

text \<open>\<open>std::str::from_utf8\<close>: well-formed sequences of one to four bytes, no surrogates, no overlong
  forms, nothing above U+10FFFF.\<close>

fun utf8_valid :: "bytes \<Rightarrow> bool" where
  "utf8_valid [] = True"
| "utf8_valid (a # s) =
     (if byte_in 0 0x7F a then utf8_valid s
      else case s of
        [] \<Rightarrow> False
      | b # s1 \<Rightarrow>
          if byte_in 0xC2 0xDF a then byte_in 0x80 0xBF b \<and> utf8_valid s1
          else case s1 of
            [] \<Rightarrow> False
          | c # s2 \<Rightarrow>
              if byte_in 0xE0 0xE0 a then byte_in 0xA0 0xBF b \<and> byte_in 0x80 0xBF c \<and> utf8_valid s2
              else if byte_in 0xE1 0xEC a \<or> byte_in 0xEE 0xEF a
                then byte_in 0x80 0xBF b \<and> byte_in 0x80 0xBF c \<and> utf8_valid s2
              else if byte_in 0xED 0xED a
                then byte_in 0x80 0x9F b \<and> byte_in 0x80 0xBF c \<and> utf8_valid s2
              else case s2 of
                [] \<Rightarrow> False
              | d # s3 \<Rightarrow>
                  (byte_in 0xF0 0xF0 a \<and> byte_in 0x90 0xBF b \<or>
                   byte_in 0xF1 0xF3 a \<and> byte_in 0x80 0xBF b \<or>
                   byte_in 0xF4 0xF4 a \<and> byte_in 0x80 0x8F b) \<and>
                  byte_in 0x80 0xBF c \<and> byte_in 0x80 0xBF d \<and> utf8_valid s3)"

definition show_int :: "int \<Rightarrow> string" where
  "show_int i = (if i < 0 then CHR ''-'' # show_nat (nat (- i)) else show_nat (nat i))"

definition parse_i128 :: "string \<Rightarrow> int res" where
  "parse_i128 s =
     (let neg = (s \<noteq> [] \<and> hd s = CHR ''-'');
          ds = (case s of [] \<Rightarrow> [] | c # cs \<Rightarrow> if c = CHR ''-'' \<or> c = CHR ''+'' then cs else s)
      in if ds = [] then Inl Fatal
         else (case parse_digits 0 ds of
             None \<Rightarrow> Inl Fatal
           | Some n \<Rightarrow>
               if neg then (if n \<le> 2 ^ 127 then Inr (- int n) else Inl Fatal)
               else (if n < 2 ^ 127 then Inr (int n) else Inl Fatal)))"

section \<open>Messages and records\<close>

datatype shared_message =
    NamespaceUpdate bytes
  | TextObjectUpdate object_id bytes
  | BinaryObjectPut object_id time_ns writer_id bytes

datatype shared_message_kind = KNamespaceUpdate | KTextUpdate | KBinaryPut

fun msg_kind :: "shared_message \<Rightarrow> shared_message_kind" where
  "msg_kind (NamespaceUpdate _) = KNamespaceUpdate"
| "msg_kind (TextObjectUpdate _ _) = KTextUpdate"
| "msg_kind (BinaryObjectPut _ _ _ _) = KBinaryPut"

fun message_kind_str :: "shared_message_kind \<Rightarrow> string" where
  "message_kind_str KNamespaceUpdate = ''namespace_update''"
| "message_kind_str KTextUpdate = ''text_update''"
| "message_kind_str KBinaryPut = ''binary_put''"

fun msg_payload :: "shared_message \<Rightarrow> bytes" where
  "msg_payload (NamespaceUpdate u) = u"
| "msg_payload (TextObjectUpdate _ u) = u"
| "msg_payload (BinaryObjectPut _ _ _ b) = b"

definition approximate_size_bytes :: "shared_message \<Rightarrow> nat" where
  "approximate_size_bytes m = length (msg_payload m)"

record shared_message_origin =
  or_daemon_writer_id :: writer_id
  or_outbox_id :: nat

record shared_message_envelope =
  env_timestamp :: time_ns
  env_sequence_number :: nat
  env_origin :: shared_message_origin
  env_shared_message :: shared_message

type_synonym header = "string \<times> bytes"

record append_record =
  ar_headers :: "header list"
  ar_body :: bytes

datatype s2_package =
    Inlined append_record
  | Pointer append_record object_pointer "append_record list"

record sequenced_record =
  sr_seq_num :: nat
  sr_timestamp_ms :: nat
  sr_headers :: "header list"
  sr_body :: bytes

section \<open>Codec\<close>

definition max_inline_record_size :: nat where
  "max_inline_record_size = 1024 * 1024 - 1024"

definition s2_max_record_metered_bytes :: nat where
  "s2_max_record_metered_bytes = 1024 * 1024"

definition nonce_len :: nat where
  "nonce_len = 12"

definition tag_len :: nat where
  "tag_len = 16"

definition ciphertext_overhead_len :: nat where
  "ciphertext_overhead_len = nonce_len + tag_len"

text \<open>\<open>AppendRecord::new(body)?.with_headers(headers)?\<close> validates before and after the headers.\<close>

definition append_record_new :: "('d, 'sv) ext \<Rightarrow> bytes \<Rightarrow> append_record res" where
  "append_record_new X body =
     (if s2_record_valid X [] body then Inr \<lparr>ar_headers = [], ar_body = body\<rparr> else Inl Fatal)"

definition with_headers :: "('d, 'sv) ext \<Rightarrow> header list \<Rightarrow> append_record \<Rightarrow> append_record res" where
  "with_headers X hs r =
     (if s2_record_valid X hs (ar_body r) then Inr (r\<lparr>ar_headers := hs\<rparr>) else Inl Fatal)"

definition encrypted_record_metered_bytes :: "('d, 'sv) ext \<Rightarrow> nat \<Rightarrow> header list \<Rightarrow> nat res" where
  "encrypted_record_metered_bytes X plaintext_body_len hs =
     bind_res (bind_res (append_record_new X []) (with_headers X hs)) (\<lambda>r.
       Inr (s2_metered X (ar_headers r) (ar_body r) + plaintext_body_len + ciphertext_overhead_len))"

definition header_value :: "header list \<Rightarrow> string \<Rightarrow> bytes option" where
  "header_value hs name = map_option snd (find (\<lambda>h. fst h = name) hs)"

definition header_str :: "header list \<Rightarrow> string \<Rightarrow> string option res" where
  "header_str hs name =
     (case header_value hs name of
        None \<Rightarrow> Inr None
      | Some v \<Rightarrow> if utf8_valid v then Inr (Some v) else Inl Fatal)"

definition encode_common_headers :: "shared_message \<Rightarrow> shared_message_origin \<Rightarrow> header list" where
  "encode_common_headers msg origin =
     [(''message_kind'', message_kind_str (msg_kind msg)),
      (''daemon_writer_id'', or_daemon_writer_id origin),
      (''outbox_id'', show_nat (or_outbox_id origin))] @
     (case msg of
        NamespaceUpdate _ \<Rightarrow> []
      | TextObjectUpdate obj _ \<Rightarrow> [(''object_id'', obj)]
      | BinaryObjectPut obj t w _ \<Rightarrow>
          [(''object_id'', obj), (''writer_id'', w), (''wall_time_ns'', show_int t)])"

definition decode_origin :: "header list \<Rightarrow> shared_message_origin res" where
  "decode_origin hs =
     bind_res (ok_or (header_value hs ''daemon_writer_id'') Fatal) (\<lambda>w.
     bind_res (header_str hs ''outbox_id'') (\<lambda>v.
     bind_res (ok_or v Fatal) (\<lambda>s.
     bind_res (parse_u64 s) (\<lambda>n.
       Inr \<lparr>or_daemon_writer_id = w, or_outbox_id = n\<rparr>))))"

definition decode_object_id :: "header list \<Rightarrow> object_id res" where
  "decode_object_id hs = ok_or (header_value hs ''object_id'') Fatal"

definition decode_daemon_writer_id :: "header list \<Rightarrow> writer_id res" where
  "decode_daemon_writer_id hs = ok_or (header_value hs ''writer_id'') Fatal"

definition s2_payload_to_shared_message ::
  "('d, 'sv) ext \<Rightarrow> header list \<Rightarrow> bytes \<Rightarrow> shared_message res" where
  "s2_payload_to_shared_message X hs payload =
     bind_res (header_str hs ''message_kind'') (\<lambda>k.
     bind_res (ok_or k Fatal) (\<lambda>kind.
       if kind = ''namespace_update'' then Inr (NamespaceUpdate payload)
       else if kind = ''text_update'' then
         bind_res (decode_object_id hs) (\<lambda>obj. Inr (TextObjectUpdate obj payload))
       else if kind = ''binary_put'' then
         bind_res (decode_object_id hs) (\<lambda>obj.
         bind_res (decode_daemon_writer_id hs) (\<lambda>w.
         bind_res (header_str hs ''wall_time_ns'') (\<lambda>v.
         bind_res (ok_or v Fatal) (\<lambda>s.
         bind_res (parse_i128 s) (\<lambda>t.
           if time_nanos_ok X t then Inr (BinaryObjectPut obj t w payload) else Inl Fatal)))))
       else Inl Fatal))"

definition inline_record_to_shared_message ::
  "('d, 'sv) ext \<Rightarrow> header list \<Rightarrow> bytes \<Rightarrow> shared_message option res" where
  "inline_record_to_shared_message X hs body =
     (if header_value hs ''pointer'' \<noteq> None then Inr None
      else map_ok Some (s2_payload_to_shared_message X hs body))"

function split_parts :: "('d, 'sv) ext \<Rightarrow> bytes \<Rightarrow> nat \<Rightarrow> append_record list res" where
  "split_parts X payload start =
     (if start < length payload then
        let part_end = min (start + max_inline_record_size) (length payload);
            part = take (part_end - start) (drop start payload)
        in bind_res (append_record_new X part) (\<lambda>r.
             map_ok ((#) r) (split_parts X payload part_end))
      else Inr [])"
  by pat_completeness auto

termination
  by (relation "measure (\<lambda>(X, payload, start). length payload - start)")
    (auto simp: max_inline_record_size_def)

declare split_parts.simps [simp del]

definition shared_to_s2_package ::
  "('d, 'sv) ext \<Rightarrow> string \<Rightarrow> time_ns \<Rightarrow> shared_message \<Rightarrow> shared_message_origin \<Rightarrow> s2_package res" where
  "shared_to_s2_package X generated_id now msg origin =
     (let payload = msg_payload msg;
          payload_size = length payload;
          pointer_headers = encode_common_headers msg origin;
          as_pointer =
            bind_res (split_parts X payload 0) (\<lambda>parts.
            let pointer = \<lparr>op_id = generated_id, op_creation_time = now, op_checksum = xxh3_64 X payload,
                           op_size_bytes = payload_size, op_n_records = length parts\<rparr>;
                headers = (''pointer'', pointer_to_json X pointer) # pointer_headers
            in bind_res (bind_res (append_record_new X []) (with_headers X headers)) (\<lambda>pointer_record.
                 Inr (Pointer pointer_record pointer parts)))
      in if payload_size < max_inline_record_size then
           bind_res (encrypted_record_metered_bytes X payload_size pointer_headers) (\<lambda>metered.
             if metered \<le> s2_max_record_metered_bytes then
               bind_res (bind_res (append_record_new X payload) (with_headers X pointer_headers)) (\<lambda>record.
                 Inr (Inlined record))
             else as_pointer)
         else as_pointer)"

definition stream_name :: "('d, 'sv) ext \<Rightarrow> string \<Rightarrow> object_pointer \<Rightarrow> string res" where
  "stream_name X workspace_id p =
     (let fmt = workspace_id @ ''/objects/'' @ show_int (op_creation_time p) @ '':'' @ op_id p
      in if s2_stream_name_ok X fmt then Inr fmt else Inl Fatal)"

section \<open>Encryption\<close>

definition encrypt :: "('d, 'sv) ext \<Rightarrow> bytes \<Rightarrow> bytes \<Rightarrow> bytes \<Rightarrow> bytes res" where
  "encrypt X key nonce plaintext =
     bind_res (ok_or (aead_encrypt X key nonce plaintext) Fatal) (\<lambda>c. Inr (nonce @ c))"

definition decrypt :: "('d, 'sv) ext \<Rightarrow> bytes \<Rightarrow> bytes \<Rightarrow> bytes res" where
  "decrypt X key data =
     (if length data < nonce_len then Inl Fatal
      else ok_or (aead_decrypt X key (take nonce_len data) (drop nonce_len data)) Fatal)"

definition encrypt_record :: "('d, 'sv) ext \<Rightarrow> bytes \<Rightarrow> bytes \<Rightarrow> append_record \<Rightarrow> append_record res" where
  "encrypt_record X key nonce r =
     bind_res (encrypt X key nonce (ar_body r)) (\<lambda>body.
     bind_res (append_record_new X body) (\<lambda>r'.
       if ar_headers r \<noteq> [] then with_headers X (ar_headers r) r' else Inr r'))"

text \<open>
  \<open>upload_parts\<close> encrypts the parts in order, each with the next nonce, and appends part \<open>i\<close> at
  sequence number \<open>i\<close> of the pointer's stream. What a package puts into S2: the record for the
  main stream and, for a pointer package, the object stream with its bodies.
\<close>

definition encrypt_parts ::
  "('d, 'sv) ext \<Rightarrow> bytes \<Rightarrow> (nat \<Rightarrow> bytes) \<Rightarrow> append_record list \<Rightarrow> append_record list res" where
  "encrypt_parts X key rng parts = map_res (\<lambda>(i, r). encrypt_record X key (rng i) r) (enumerate 0 parts)"

definition publish_package ::
  "('d, 'sv) ext \<Rightarrow> string \<Rightarrow> bytes \<Rightarrow> (nat \<Rightarrow> bytes) \<Rightarrow> s2_package \<Rightarrow>
     (append_record \<times> (string \<times> bytes list) option) res" where
  "publish_package X workspace_id key rng pkg =
     (case pkg of
        Inlined record \<Rightarrow>
          bind_res (encrypt_record X key (rng 0) record) (\<lambda>r. Inr (r, None))
      | Pointer pointer_record pointer parts \<Rightarrow>
          bind_res (stream_name X workspace_id pointer) (\<lambda>name.
          bind_res (encrypt_parts X key rng parts) (\<lambda>encrypted.
            Inr (pointer_record, Some (name, map ar_body encrypted)))))"

section \<open>Reader\<close>

text \<open>\<open>fetch name count\<close> is what a read session on an object stream yields: its record bodies, at
  most \<open>count\<close>, or the error of the session.\<close>

definition read_full_multipart ::
  "('d, 'sv) ext \<Rightarrow> string \<Rightarrow> bytes \<Rightarrow> (string \<Rightarrow> nat \<Rightarrow> bytes list res) \<Rightarrow> header list \<Rightarrow>
     object_pointer \<Rightarrow> shared_message res" where
  "read_full_multipart X workspace_id key fetch hs pointer =
     bind_res (header_str hs ''message_kind'') (\<lambda>_.
     bind_res (stream_name X workspace_id pointer) (\<lambda>name.
     bind_res (fetch name (op_n_records pointer)) (\<lambda>records.
     bind_res (map_res (decrypt X key) records) (\<lambda>bodies.
     let payload = concat bodies
     in if length records \<noteq> op_n_records pointer then Inl Fatal
        else if length payload \<noteq> op_size_bytes pointer then Inl Fatal
        else if xxh3_64 X payload \<noteq> op_checksum pointer then Inl Fatal
        else s2_payload_to_shared_message X hs payload))))"

definition read_record ::
  "('d, 'sv) ext \<Rightarrow> string \<Rightarrow> bytes \<Rightarrow> (string \<Rightarrow> nat \<Rightarrow> bytes list res) \<Rightarrow> sequenced_record \<Rightarrow>
     shared_message_envelope res" where
  "read_record X workspace_id key fetch r =
     bind_res (ok_or (checked_add_u64 (sr_seq_num r) 1) Fatal) (\<lambda>_.
     let timestamp = int (sr_timestamp_ms r) * 1000000
     in if \<not> time_nanos_ok X timestamp then Inl Panicked
        else
          bind_res (decode_origin (sr_headers r)) (\<lambda>origin.
          bind_res
            (case header_value (sr_headers r) ''pointer'' of
               Some pointer \<Rightarrow>
                 bind_res (ok_or (pointer_from_json X pointer) Fatal) (\<lambda>object_pointer.
                   read_full_multipart X workspace_id key fetch (sr_headers r) object_pointer)
             | None \<Rightarrow>
                 bind_res (decrypt X key (sr_body r)) (s2_payload_to_shared_message X (sr_headers r)))
            (\<lambda>msg. Inr \<lparr>env_timestamp = timestamp, env_sequence_number = sr_seq_num r,
                        env_origin = origin, env_shared_message = msg\<rparr>)))"

section \<open>Batches and the receive buffer\<close>

record shared_message_batch =
  batch_first :: nat
  batch_last :: nat
  batch_messages :: "shared_message_envelope list"

fun contiguous_from :: "nat \<Rightarrow> nat list \<Rightarrow> bool" where
  "contiguous_from running [] = True"
| "contiguous_from running (n # ns) = (n = (running + 1) mod 2 ^ 64 \<and> contiguous_from n ns)"

definition batch_try_from :: "shared_message_envelope list \<Rightarrow> shared_message_batch res" where
  "batch_try_from value =
     (case value of
        [] \<Rightarrow> Inl Fatal
      | e # es \<Rightarrow>
          let first = env_sequence_number e; last = env_sequence_number (List.last value)
          in if first > last then Inl Fatal
             else if \<not> contiguous_from first (map env_sequence_number es) then Inl Fatal
             else Inr \<lparr>batch_first = first, batch_last = last, batch_messages = value\<rparr>)"

definition max_size_bytes :: nat where
  "max_size_bytes = 1024 * 1024 * 10"

text \<open>Instants of the monotonic clock are \<open>time_ns\<close>; \<open>now\<close> is what \<open>Instant::now\<close> returns.\<close>

record shared_message_buffer =
  smb_max_coalesce :: nat
  smb_size_bytes :: nat
  smb_earliest_timestamp :: "time_ns option"
  smb_envelopes :: "shared_message_envelope list"

definition smb_new :: "nat \<Rightarrow> shared_message_buffer" where
  "smb_new max_coalesce =
     \<lparr>smb_max_coalesce = max_coalesce, smb_size_bytes = 0, smb_earliest_timestamp = None, smb_envelopes = []\<rparr>"

definition smb_insert :: "time_ns \<Rightarrow> shared_message_envelope \<Rightarrow> shared_message_buffer \<Rightarrow> shared_message_buffer" where
  "smb_insert now e b =
     b\<lparr>smb_earliest_timestamp := (case smb_earliest_timestamp b of None \<Rightarrow> Some now | Some t \<Rightarrow> Some t),
       smb_size_bytes := smb_size_bytes b + approximate_size_bytes (env_shared_message e),
       smb_envelopes := smb_envelopes b @ [e]\<rparr>"

definition has_capacity :: "shared_message_buffer \<Rightarrow> bool" where
  "has_capacity b \<longleftrightarrow> smb_size_bytes b < max_size_bytes"

definition smb_is_empty :: "shared_message_buffer \<Rightarrow> bool" where
  "smb_is_empty b \<longleftrightarrow> smb_envelopes b = []"

definition last_sequence_end :: "shared_message_buffer \<Rightarrow> nat option" where
  "last_sequence_end b =
     (if smb_envelopes b = [] then None
      else Some ((env_sequence_number (last (smb_envelopes b)) + 1) mod 2 ^ 64))"

definition next_fire_at :: "time_ns \<Rightarrow> shared_message_buffer \<Rightarrow> time_ns option" where
  "next_fire_at now b =
     (if has_capacity b then map_option (\<lambda>t. t + int (smb_max_coalesce b)) (smb_earliest_timestamp b)
      else Some now)"

definition smb_drain :: "shared_message_buffer \<Rightarrow> shared_message_envelope list \<times> shared_message_buffer" where
  "smb_drain b =
     (smb_envelopes b, b\<lparr>smb_size_bytes := 0, smb_earliest_timestamp := None, smb_envelopes := []\<rparr>)"

definition smb_wf :: "shared_message_buffer \<Rightarrow> bool" where
  "smb_wf b \<longleftrightarrow>
     smb_size_bytes b = sum_list (map (approximate_size_bytes \<circ> env_shared_message) (smb_envelopes b)) \<and>
     (smb_earliest_timestamp b = None \<longleftrightarrow> smb_envelopes b = [])"

definition demo_headers :: "header list" where
  "demo_headers = [(''message_kind'', ''namespace_update''), (''daemon_writer_id'', ''w''), (''outbox_id'', show_nat 3)]"

section \<open>Lemmas: texts\<close>

lemma utf8_ascii: "list_all (byte_in 0 0x7F) s \<Longrightarrow> utf8_valid s"
  by (induction s) auto

lemma digit_char_ascii: "d < 10 \<Longrightarrow> byte_in 0 0x7F (digit_char d)"
  by (simp add: digit_char_def byte_in_def)

lemma show_nat_ascii: "list_all (byte_in 0 0x7F) (show_nat n)"
proof (induction n rule: show_nat.induct)
  case (1 n)
  then show ?case by (subst show_nat.simps) (auto simp: digit_char_ascii)
qed

lemma show_int_ascii: "list_all (byte_in 0 0x7F) (show_int i)"
  by (simp add: show_int_def show_nat_ascii) (simp add: byte_in_def)

lemmas show_utf8 = show_nat_ascii [THEN utf8_ascii] show_int_ascii [THEN utf8_ascii]

lemma kind_str_utf8: "utf8_valid (message_kind_str k)"
  by (cases k) (simp_all add: utf8_ascii byte_in_def)

lemma parse_i128_show_int:
  assumes "- (2 ^ 127) \<le> t" and "t < 2 ^ 127"
  shows "parse_i128 (show_int t) = Inr t"
proof (cases "t < 0")
  case True
  then have "nat (- t) \<le> 2 ^ 127" using assms(1) by (simp add: nat_le_iff)
  then show ?thesis
    using True by (simp add: parse_i128_def show_int_def parse_digits_show_nat)
next
  case False
  then have "nat t < 2 ^ 127" using assms(2) by (simp add: nat_less_iff)
  moreover have "hd (show_nat (nat t)) \<noteq> CHR ''-''" "hd (show_nat (nat t)) \<noteq> CHR ''+''"
    by (rule show_nat_hd; simp)+
  moreover obtain c cs where "show_nat (nat t) = c # cs"
    by (cases "show_nat (nat t)") auto
  ultimately show ?thesis
    using False parse_digits_show_nat [of "nat t"] by (simp add: parse_i128_def show_int_def)
qed

section \<open>Lemmas: headers, encryption, parts\<close>

definition msg_ok :: "('d, 'sv) ext \<Rightarrow> shared_message \<Rightarrow> bool" where
  "msg_ok X m \<longleftrightarrow>
     (case m of BinaryObjectPut _ t _ _ \<Rightarrow> time_nanos_ok X t \<and> - (2 ^ 127) \<le> t \<and> t < 2 ^ 127 | _ \<Rightarrow> True)"

lemma header_value_simps [simp]:
  "header_value [] n = None"
  "header_value ((k, v) # hs) n = (if k = n then Some v else header_value hs n)"
  by (simp_all add: header_value_def)

lemma header_value_append_pointer:
  "n \<noteq> ''pointer'' \<Longrightarrow> header_value ((''pointer'', j) # hs) n = header_value hs n"
  by auto

definition carries :: "header list \<Rightarrow> shared_message \<Rightarrow> shared_message_origin \<Rightarrow> bool" where
  "carries hs msg origin \<longleftrightarrow>
     (\<forall>n. n \<noteq> ''pointer'' \<longrightarrow> header_value hs n = header_value (encode_common_headers msg origin) n)"

lemma carries_intros:
  "carries (encode_common_headers msg origin) msg origin"
  "carries ((''pointer'', j) # encode_common_headers msg origin) msg origin"
  by (auto simp: carries_def)

lemma common_headers_no_pointer: "header_value (encode_common_headers msg origin) ''pointer'' = None"
  by (cases msg) (simp_all add: encode_common_headers_def)

lemma carries_lookup:
  assumes "carries hs msg origin"
  shows "header_value hs ''message_kind'' = Some (message_kind_str (msg_kind msg))"
    and "header_value hs ''daemon_writer_id'' = Some (or_daemon_writer_id origin)"
    and "header_value hs ''outbox_id'' = Some (show_nat (or_outbox_id origin))"
    and "header_value hs ''object_id'' =
      (case msg of NamespaceUpdate _ \<Rightarrow> None | TextObjectUpdate obj _ \<Rightarrow> Some obj
       | BinaryObjectPut obj _ _ _ \<Rightarrow> Some obj)"
    and "header_value hs ''writer_id'' =
      (case msg of BinaryObjectPut _ _ w _ \<Rightarrow> Some w | _ \<Rightarrow> None)"
    and "header_value hs ''wall_time_ns'' =
      (case msg of BinaryObjectPut _ t _ _ \<Rightarrow> Some (show_int t) | _ \<Rightarrow> None)"
  using assms by (simp_all add: carries_def encode_common_headers_def split: shared_message.split)

lemma decode_origin_carries:
  assumes "carries hs msg origin" and "or_outbox_id origin \<le> u64_max"
  shows "decode_origin hs = Inr origin"
  using assms(2)
  by (simp add: decode_origin_def header_str_def carries_lookup [OF assms(1)] show_utf8 parse_u64_show_nat)

lemma header_str_carries:
  assumes "carries hs msg origin"
  shows "header_str hs ''message_kind'' = Inr (Some (message_kind_str (msg_kind msg)))"
  by (simp add: header_str_def carries_lookup(1) [OF assms] kind_str_utf8)

lemma decode_payload_carries:
  assumes "carries hs msg origin" and "msg_ok X msg"
  shows "s2_payload_to_shared_message X hs (msg_payload msg) = Inr msg"
proof (cases msg)
  case (BinaryObjectPut obj t w b)
  have "header_str hs ''wall_time_ns'' = Inr (Some (show_int t))"
    by (simp add: header_str_def carries_lookup(6) [OF assms(1)] BinaryObjectPut show_utf8)
  moreover have "parse_i128 (show_int t) = Inr t" "time_nanos_ok X t"
    using assms(2) BinaryObjectPut by (auto simp: msg_ok_def intro: parse_i128_show_int)
  ultimately show ?thesis
    by (simp add: s2_payload_to_shared_message_def header_str_carries [OF assms(1)] BinaryObjectPut
        decode_object_id_def decode_daemon_writer_id_def carries_lookup(4,5) [OF assms(1)])
qed (simp_all add: s2_payload_to_shared_message_def header_str_carries [OF assms(1)]
      decode_object_id_def carries_lookup(4) [OF assms(1)])

lemma decrypt_encrypt:
  assumes "aead_ok X" and "length nonce = nonce_len" and "encrypt X key nonce p = Inr c"
  shows "decrypt X key c = Inr p" and "length c = length p + ciphertext_overhead_len"
  using assms
  by (auto simp: encrypt_def decrypt_def res_simps aead_ok_def nonce_len_def tag_len_def
      ciphertext_overhead_len_def)

lemma append_record_new_Inr [res_simps]:
  "append_record_new X b = Inr r \<longleftrightarrow> s2_record_valid X [] b \<and> r = \<lparr>ar_headers = [], ar_body = b\<rparr>"
  by (auto simp: append_record_new_def)

lemma with_headers_Inr [res_simps]:
  "with_headers X hs r = Inr r' \<longleftrightarrow> s2_record_valid X hs (ar_body r) \<and> r' = r\<lparr>ar_headers := hs\<rparr>"
  by (auto simp: with_headers_def)

lemma encrypt_record_Inr:
  assumes "encrypt_record X key nonce r = Inr r'"
  obtains "encrypt X key nonce (ar_body r) = Inr (ar_body r')" and "ar_headers r' = ar_headers r"
  using assms by (auto simp: encrypt_record_def res_simps split: if_splits)

lemma split_parts_bodies:
  "split_parts X payload start = Inr parts \<Longrightarrow>
     concat (map ar_body parts) = drop start payload \<and>
     (\<forall>r\<in>set parts. ar_headers r = [] \<and> length (ar_body r) \<le> max_inline_record_size)"
proof (induction X payload start arbitrary: parts rule: split_parts.induct)
  case (1 X payload start)
  show ?case
  proof (cases "start < length payload")
    case False
    with "1.prems" show ?thesis by (simp add: split_parts.simps)
  next
    case True
    define e where "e = min (start + max_inline_record_size) (length payload)"
    have le: "start \<le> e" using True by (simp add: e_def)
    from "1.prems" True obtain rest where
        parts: "parts = \<lparr>ar_headers = [], ar_body = take (e - start) (drop start payload)\<rparr> # rest"
      and rest: "split_parts X payload e = Inr rest"
      by (subst (asm) split_parts.simps) (auto simp: Let_def res_simps e_def)
    have "take (e - start) (drop start payload) @ drop e payload = drop start payload"
      using le by (metis append_take_drop_id drop_drop le_add_diff_inverse2)
    moreover have "concat (map ar_body rest) = drop e payload \<and>
        (\<forall>r\<in>set rest. ar_headers r = [] \<and> length (ar_body r) \<le> max_inline_record_size)"
      using "1.IH" [OF True refl refl rest [unfolded e_def], folded e_def] "1.prems" True
      by (subst (asm) split_parts.simps) (auto simp: Let_def res_simps e_def)
    ultimately show ?thesis by (auto simp: parts e_def)
  qed
qed

lemma encrypt_parts_decrypt:
  assumes "aead_ok X" and "\<forall>i. length (rng i) = nonce_len" and "encrypt_parts X key rng parts = Inr es"
  shows "map_res (decrypt X key) (map ar_body es) = Inr (map ar_body parts)" and "length es = length parts"
proof -
  have all: "list_all2 (\<lambda>x e. (\<lambda>(i, r). encrypt_record X key (rng i) r) x = Inr e) (enumerate 0 parts) es"
    using assms(3) by (simp add: encrypt_parts_def map_res_eq_Inr)
  then show len: "length es = length parts" by (auto dest: list_all2_lengthD)
  have "decrypt X key (ar_body (es ! i)) = Inr (ar_body (parts ! i))" if "i < length parts" for i
  proof -
    have "encrypt_record X key (rng i) (parts ! i) = Inr (es ! i)"
      using all that by (auto simp: list_all2_conv_all_nth nth_enumerate_eq)
    then show ?thesis
      using decrypt_encrypt(1) [OF assms(1), of "rng i"] assms(2) by (auto elim!: encrypt_record_Inr)
  qed
  then show "map_res (decrypt X key) (map ar_body es) = Inr (map ar_body parts)"
    using len by (simp add: map_res_eq_Inr list_all2_conv_all_nth)
qed

lemma package_cases:
  assumes "shared_to_s2_package X gid now msg origin = Inr pkg"
  obtains (inline) "pkg = Inlined \<lparr>ar_headers = encode_common_headers msg origin, ar_body = msg_payload msg\<rparr>"
      "length (msg_payload msg) < max_inline_record_size"
      "s2_metered X (encode_common_headers msg origin) [] + length (msg_payload msg) +
         ciphertext_overhead_len \<le> s2_max_record_metered_bytes"
    | (pointer) parts p j where
      "pkg = Pointer \<lparr>ar_headers = (''pointer'', j) # encode_common_headers msg origin, ar_body = []\<rparr> p parts"
      "j = pointer_to_json X p" "split_parts X (msg_payload msg) 0 = Inr parts"
      "op_checksum p = xxh3_64 X (msg_payload msg)" "op_size_bytes p = length (msg_payload msg)"
      "op_n_records p = length parts"
  using assms
  by (auto simp: shared_to_s2_package_def encrypted_record_metered_bytes_def Let_def res_simps
      split: if_splits)

lemma contiguous_from_upt:
  "contiguous_from f ns \<Longrightarrow> f + length ns < 2 ^ 64 \<Longrightarrow> f # ns = [f..<Suc (f + length ns)]"
proof (induction ns arbitrary: f)
  case (Cons n ns)
  then have "n = Suc f" by simp
  with Cons have "n # ns = [Suc f..<Suc (f + length (n # ns))]" by (simp del: upt_Suc)
  then show ?case by (simp add: upt_conv_Cons del: upt_Suc)
qed simp

lemma contiguous_from_last:
  "contiguous_from f ns \<Longrightarrow> f < 2 ^ 64 \<Longrightarrow> last (f # ns) = (f + length ns) mod 2 ^ 64"
proof (induction ns arbitrary: f)
  case (Cons n ns)
  then have "last (n # ns) = (n + length ns) mod 2 ^ 64" "n = (f + 1) mod 2 ^ 64" by auto
  then show ?case by (simp add: mod_simps)
qed simp

lemma upt_contiguous_from: "f + k < 2 ^ 64 \<Longrightarrow> contiguous_from f [Suc f..<Suc (f + k)]"
proof (induction k arbitrary: f)
  case (Suc k)
  then have "[Suc f..<Suc (f + Suc k)] = Suc f # [Suc (Suc f)..<Suc (Suc f + k)]"
    by (simp add: upt_conv_Cons del: upt_Suc)
  then show ?case using Suc.IH [of "Suc f"] Suc.prems by (simp del: upt_Suc)
qed simp

lemma upt_ends: "f # ns = [g..<Suc l] \<Longrightarrow> f = g \<and> last (f # ns) = l \<and> g \<le> l"
proof -
  assume eq: "f # ns = [g..<Suc l]"
  then have le: "g \<le> l" by (cases "g \<le> l") auto
  then have "hd [g..<Suc l] = g" by (simp add: upt_conv_Cons del: upt_Suc)
  moreover have "last [g..<Suc l] = l" using le by simp
  ultimately show ?thesis using le unfolding eq [symmetric] by simp
qed

lemma contiguous_from_iff:
  assumes "f < 2 ^ 64" and "\<forall>n\<in>set ns. n < 2 ^ 64" and "length ns < 2 ^ 64"
  shows "f \<le> last (f # ns) \<and> contiguous_from f ns \<longleftrightarrow> f # ns = [f..<Suc (last (f # ns))]"
proof
  assume l: "f \<le> last (f # ns) \<and> contiguous_from f ns"
  then have last: "last (f # ns) = (f + length ns) mod 2 ^ 64"
    using contiguous_from_last assms(1) by blast
  have "f + length ns < 2 ^ 64"
  proof (rule ccontr)
    assume big: "\<not> f + length ns < 2 ^ 64"
    then have "(f + length ns) mod 2 ^ 64 = f + length ns - 2 ^ 64"
      using assms(1,3) by (simp add: le_mod_geq)
    then show False using l last assms(1,3) big by linarith
  qed
  then show "f # ns = [f..<Suc (last (f # ns))]"
    using contiguous_from_upt [of f ns] l last by (simp del: upt_Suc last.simps)
next
  assume eq: "f # ns = [f..<Suc (last (f # ns))]"
  let ?l = "last (f # ns)"
  have le: "f \<le> ?l" using upt_ends [OF eq] by blast
  have "?l \<in> set (f # ns)" by (rule last_in_set) simp
  then have "?l < 2 ^ 64" using assms(1,2) by auto
  then have "contiguous_from f [Suc f..<Suc ?l]"
    using upt_contiguous_from [of f "?l - f"] le by (simp del: upt_Suc last.simps)
  moreover have "f # ns = f # [Suc f..<Suc ?l]"
    using eq le by (metis le_imp_less_Suc upt_conv_Cons)
  ultimately show "f \<le> ?l \<and> contiguous_from f ns" using le by simp
qed

lemma smb_insert_fields:
  "smb_envelopes (smb_insert now e b) = smb_envelopes b @ [e]"
  "smb_max_coalesce (smb_insert now e b) = smb_max_coalesce b"
  "smb_wf b \<Longrightarrow> smb_wf (smb_insert now e b)"
  by (simp_all add: smb_insert_def smb_wf_def split: option.splits)

lemma smb_insert_all:
  "smb_envelopes (fold (\<lambda>(now, e). smb_insert now e) es b) = smb_envelopes b @ map snd es"
  "smb_max_coalesce (fold (\<lambda>(now, e). smb_insert now e) es b) = smb_max_coalesce b"
  "smb_wf b \<Longrightarrow> smb_wf (fold (\<lambda>(now, e). smb_insert now e) es b)"
  by (induction es arbitrary: b) (simp_all add: smb_insert_fields split_beta)

lemma demo_package:
  "shared_to_s2_package (demo_ext (\<lambda>_. [])) ''id'' 0 (NamespaceUpdate ''upd'')
     \<lparr>or_daemon_writer_id = ''w'', or_outbox_id = 3\<rparr> =
   Inr (Inlined \<lparr>ar_headers = demo_headers, ar_body = ''upd''\<rparr>)"
proof -
  have hs: "encode_common_headers (NamespaceUpdate ''upd'') \<lparr>or_daemon_writer_id = ''w'', or_outbox_id = 3\<rparr> =
      demo_headers"
    by (simp add: encode_common_headers_def demo_headers_def)
  show ?thesis
    unfolding shared_to_s2_package_def hs
    by (simp add: demo_headers_def demo_ext_def demo_record_valid_def demo_metered_def
        encrypted_record_metered_bytes_def append_record_new_def with_headers_def Let_def
        max_inline_record_size_def s2_max_record_metered_bytes_def ciphertext_overhead_len_def
        nonce_len_def tag_len_def show_nat.simps)
qed

section \<open>A stored package is read back\<close>

lemma published_reads_back:
  assumes "aead_ok X" and "pointer_json_ok X" and "msg_ok X msg" and "or_outbox_id origin \<le> u64_max"
    and "\<forall>i. length (rng i) = nonce_len"
    and "shared_to_s2_package X gid now msg origin = Inr pkg"
    and "publish_package X ws key rng pkg = Inr (stored, obj)"
    and "\<forall>name bodies n. obj = Some (name, bodies) \<longrightarrow> fetch name n = Inr (take n bodies)"
    and "seq < u64_max" and "time_nanos_ok X (int ts * 1000000)"
  shows "read_record X ws key fetch
      \<lparr>sr_seq_num = seq, sr_timestamp_ms = ts, sr_headers = ar_headers stored, sr_body = ar_body stored\<rparr> =
    Inr \<lparr>env_timestamp = int ts * 1000000, env_sequence_number = seq, env_origin = origin,
         env_shared_message = msg\<rparr>"
proof -
  have seq: "checked_add_u64 seq (Suc 0) = Some (seq + 1)" using assms(9) by (simp add: checked_add_u64_def)
  from assms(6) show ?thesis
  proof (cases rule: package_cases)
    case inline
    let ?hs = "encode_common_headers msg origin"
    have enc: "encrypt X key (rng 0) (msg_payload msg) = Inr (ar_body stored)" "ar_headers stored = ?hs"
      using assms(7) inline(1) by (auto simp: publish_package_def res_simps elim!: encrypt_record_Inr)
    have "decrypt X key (ar_body stored) = Inr (msg_payload msg)"
      using decrypt_encrypt(1) [OF assms(1) _ enc(1)] assms(5) by simp
    then show ?thesis
      using assms(10)
      by (simp add: read_record_def seq enc(2) common_headers_no_pointer decode_origin_carries
          [OF carries_intros(1) assms(4)] decode_payload_carries [OF carries_intros(1) assms(3)])
  next
    case (pointer parts p j)
    let ?hs = "(''pointer'', j) # encode_common_headers msg origin"
    from assms(7) pointer(1) obtain name es where name: "stream_name X ws p = Inr name"
      and es: "encrypt_parts X key rng parts = Inr es"
      and stored: "stored = \<lparr>ar_headers = ?hs, ar_body = []\<rparr>" and obj: "obj = Some (name, map ar_body es)"
      by (auto simp: publish_package_def res_simps)
    note dec = encrypt_parts_decrypt [OF assms(1,5) es]
    have fetch: "fetch name (length parts) = Inr (map ar_body es)"
      using assms(8) obj dec(2) by simp
    have whole: "concat (map ar_body parts) = msg_payload msg"
      using split_parts_bodies [OF pointer(3)] by simp
    have "read_full_multipart X ws key fetch ?hs p = Inr msg"
      using header_str_carries [OF carries_intros(2)] pointer(4-6) dec
        decode_payload_carries [OF carries_intros(2) assms(3)]
      by (simp add: read_full_multipart_def name fetch whole Let_def)
    moreover have "pointer_from_json X j = Some p"
      using assms(2) pointer(2) by (simp add: pointer_json_ok_def)
    ultimately show ?thesis
      using assms(10)
      by (simp add: read_record_def seq stored decode_origin_carries [OF carries_intros(2) assms(4)])
  qed
qed

section \<open>Properties\<close>

text \<open>(C20) The log is lossless: whatever package a message becomes, once the writer has encrypted
  it and put it into S2, the reader decodes the stored record into an envelope with the same
  message and origin. Multipart payloads pass the count, size and checksum tests.\<close>

theorem log_round_trip:
  assumes "aead_ok X" and "pointer_json_ok X" and "msg_ok X msg" and "or_outbox_id origin \<le> u64_max"
    and "\<forall>i. length (rng i) = nonce_len"
    and "shared_to_s2_package X gid now msg origin = Inr pkg"
    and "publish_package X ws key rng pkg = Inr (stored, obj)"
    and "\<forall>name bodies n. obj = Some (name, bodies) \<longrightarrow> fetch name n = Inr (take n bodies)"
    and "seq < u64_max" and "time_nanos_ok X (int ts * 1000000)"
  shows "read_record X ws key fetch
      \<lparr>sr_seq_num = seq, sr_timestamp_ms = ts, sr_headers = ar_headers stored, sr_body = ar_body stored\<rparr> =
    Inr \<lparr>env_timestamp = int ts * 1000000, env_sequence_number = seq, env_origin = origin,
         env_shared_message = msg\<rparr>"
  by (rule published_reads_back [OF assms])

theorem log_round_trip_witness:
  "read_record (demo_ext (\<lambda>_. [])) ''ws'' ''key'' (\<lambda>_ _. Inl Fatal)
     \<lparr>sr_seq_num = 5, sr_timestamp_ms = 7, sr_headers = demo_headers,
      sr_body = replicate 12 (CHR ''n'') @ ''upd'' @ replicate 16 (CHR 0x00)\<rparr> =
   Inr \<lparr>env_timestamp = 7000000, env_sequence_number = 5,
        env_origin = \<lparr>or_daemon_writer_id = ''w'', or_outbox_id = 3\<rparr>,
        env_shared_message = NamespaceUpdate ''upd''\<rparr>"
proof -
  let ?X = "demo_ext (\<lambda>_. [])" and ?m = "NamespaceUpdate ''upd''"
  let ?o = "\<lparr>or_daemon_writer_id = ''w'', or_outbox_id = 3\<rparr>"
  let ?rng = "\<lambda>_ :: nat. replicate 12 (CHR ''n'')"
  let ?b = "replicate 12 (CHR ''n'') @ ''upd'' @ replicate 16 (CHR 0x00)"
  note pkg = demo_package
  have pub: "publish_package ?X ''ws'' ''key'' ?rng (Inlined \<lparr>ar_headers = demo_headers, ar_body = ''upd''\<rparr>) =
      Inr (\<lparr>ar_headers = demo_headers, ar_body = ?b\<rparr>, None)"
    by (simp add: publish_package_def encrypt_record_def encrypt_def demo_ext_def append_record_new_def
        with_headers_def demo_record_valid_def demo_metered_def demo_headers_def show_nat.simps)
  show ?thesis
    using log_round_trip [OF demo_ext_ok(3) demo_ext_ok(4) _ _ _ pkg pub, of "\<lambda>_ _. Inl Fatal" 5 7]
    by (simp add: msg_ok_def u64_max_def nonce_len_def) (simp add: demo_ext_def)
qed

text \<open>(C40) No package outgrows S2's record limit by being encrypted: the inline record and every
  part of a pointer package still fit after the nonce and the tag are added, so encrypting a
  record of an accepted package fails only if the cipher itself fails.\<close>

theorem package_fits_after_encryption:
  assumes "aead_ok X" and "s2_record_ok X" and "length nonce = nonce_len"
    and "shared_to_s2_package X gid now msg origin = Inr pkg"
    and "r \<in> (case pkg of Inlined r \<Rightarrow> {r} | Pointer _ _ parts \<Rightarrow> set parts)"
    and "aead_encrypt X key nonce (ar_body r) = Some c"
  shows "encrypt_record X key nonce r = Inr (r\<lparr>ar_body := nonce @ c\<rparr>) \<and>
     s2_metered X (ar_headers r) (nonce @ c) \<le> s2_max_record_metered_bytes"
proof -
  have len: "length (nonce @ c) = length (ar_body r) + ciphertext_overhead_len"
    using assms(1,3,6) by (simp add: aead_ok_def ciphertext_overhead_len_def tag_len_def)
  have meter: "s2_metered X hs b = s2_metered X hs [] + length b"
    and valid: "s2_record_valid X hs b \<longleftrightarrow> s2_metered X hs b \<le> s2_max_record_metered_bytes"
    and base: "s2_metered X [] [] = 8" "s2_metered X [] [] \<le> s2_metered X hs []" for hs b
    using assms(2) by (simp_all add: s2_record_ok_def s2_max_record_metered_bytes_def)
  have "s2_metered X (ar_headers r) [] + length (ar_body r) + ciphertext_overhead_len
      \<le> s2_max_record_metered_bytes"
    using assms(4)
  proof (cases rule: package_cases)
    case inline
    then show ?thesis using assms(5) by simp
  next
    case (pointer parts p j)
    then have "ar_headers r = [] \<and> length (ar_body r) \<le> max_inline_record_size"
      using split_parts_bodies [OF pointer(3)] assms(5) by auto
    then show ?thesis
      using base(1) by (simp add: max_inline_record_size_def s2_max_record_metered_bytes_def
          ciphertext_overhead_len_def nonce_len_def tag_len_def)
  qed
  then have fits: "s2_metered X (ar_headers r) (nonce @ c) \<le> s2_max_record_metered_bytes"
    using meter [of "ar_headers r" "nonce @ c"] len by simp
  moreover have "s2_metered X [] (nonce @ c) \<le> s2_max_record_metered_bytes"
    using fits meter [of "ar_headers r" "nonce @ c"] meter [of "[]" "nonce @ c"] base(2) [of "ar_headers r"]
    by simp
  ultimately show ?thesis
    using assms(6) by (simp add: encrypt_record_def encrypt_def append_record_new_def with_headers_def valid)
qed

theorem package_fits_after_encryption_witness:
  "s2_metered (demo_ext (\<lambda>_. [])) demo_headers
     (replicate 12 (CHR ''n'') @ ''upd'' @ replicate 16 (CHR 0x00)) \<le> s2_max_record_metered_bytes"
proof -
  let ?X = "demo_ext (\<lambda>_. [])" and ?r = "\<lparr>ar_headers = demo_headers, ar_body = ''upd''\<rparr>"
  have pkg: "shared_to_s2_package ?X ''id'' 0 (NamespaceUpdate ''upd'')
      \<lparr>or_daemon_writer_id = ''w'', or_outbox_id = 3\<rparr> = Inr (Inlined ?r)"
    by (rule demo_package)
  have enc: "aead_encrypt ?X ''key'' (replicate 12 (CHR ''n'')) (ar_body ?r) =
      Some (''upd'' @ replicate 16 (CHR 0x00))"
    by (simp add: demo_ext_def)
  show ?thesis
    using package_fits_after_encryption [OF demo_ext_ok(3) demo_ext_ok(9) _ pkg _ enc]
    by (simp add: nonce_len_def)
qed

text \<open>A batch is accepted exactly when it is non-empty and its sequence numbers count up
  without a gap (no wrap-around can pass the test); it carries the range and the messages.\<close>

theorem batch_try_from_iff:
  assumes "\<forall>e\<in>set es. env_sequence_number e < 2 ^ 64" and "length es < 2 ^ 64"
  shows "batch_try_from es = Inr b \<longleftrightarrow>
     es \<noteq> [] \<and> map env_sequence_number es = [batch_first b..<Suc (batch_last b)] \<and> batch_messages b = es"
proof (cases es)
  case Nil
  then show ?thesis by (simp add: batch_try_from_def)
next
  case (Cons e rest)
  let ?first = "env_sequence_number e" and ?last = "env_sequence_number (last es)"
  let ?ns = "map env_sequence_number rest"
  have last: "?last = last (?first # ?ns)"
    by (simp add: Cons last_map)
  have range: "?first < 2 ^ 64" "\<forall>n\<in>set ?ns. n < 2 ^ 64" "length ?ns < 2 ^ 64"
    using assms Cons by auto
  have "batch_try_from es = Inr b \<longleftrightarrow>
      ?first \<le> ?last \<and> contiguous_from ?first ?ns \<and>
      b = \<lparr>batch_first = ?first, batch_last = ?last, batch_messages = es\<rparr>"
    by (auto simp: batch_try_from_def Cons Let_def)
  also have "\<dots> \<longleftrightarrow> ?first # ?ns = [?first..<Suc ?last] \<and>
      b = \<lparr>batch_first = ?first, batch_last = ?last, batch_messages = es\<rparr>"
    using contiguous_from_iff [OF range] unfolding last by blast
  also have "\<dots> \<longleftrightarrow> es \<noteq> [] \<and> map env_sequence_number es = [batch_first b..<Suc (batch_last b)] \<and>
      batch_messages b = es"
  proof -
    have ends: "f = ?first \<and> l = ?last" if eq: "?first # ?ns = [f..<Suc l]" for f l
      using upt_ends [OF eq] last by (auto simp del: last.simps)
    have m: "map env_sequence_number es = ?first # ?ns" "es \<noteq> []" by (simp_all add: Cons)
    have b: "b = \<lparr>batch_first = batch_first b, batch_last = batch_last b, batch_messages = batch_messages b\<rparr>"
      by (cases b) simp
    show ?thesis
      unfolding m(1) using ends [of "batch_first b" "batch_last b"] m(2) b
      by (metis shared_message_batch.select_convs)
  qed
  finally show ?thesis .
qed

theorem batch_try_from_iff_witness:
  "is_ok (batch_try_from
     [\<lparr>env_timestamp = 0, env_sequence_number = 4, env_origin = \<lparr>or_daemon_writer_id = [], or_outbox_id = 0\<rparr>,
       env_shared_message = NamespaceUpdate []\<rparr>,
      \<lparr>env_timestamp = 0, env_sequence_number = 5, env_origin = \<lparr>or_daemon_writer_id = [], or_outbox_id = 0\<rparr>,
       env_shared_message = NamespaceUpdate []\<rparr>])"
  (is "is_ok (batch_try_from ?es)")
proof -
  have upt: "[4, 5] = [4..<Suc 5]" by simp
  have "batch_try_from ?es = Inr \<lparr>batch_first = 4, batch_last = 5, batch_messages = ?es\<rparr>"
  proof (rule batch_try_from_iff [THEN iffD2])
    show "?es \<noteq> [] \<and> map env_sequence_number ?es =
        [batch_first \<lparr>batch_first = 4, batch_last = 5, batch_messages = ?es\<rparr>..<
         Suc (batch_last \<lparr>batch_first = 4, batch_last = 5, batch_messages = ?es\<rparr>)] \<and>
        batch_messages \<lparr>batch_first = 4, batch_last = 5, batch_messages = ?es\<rparr> = ?es"
      using upt by simp
  qed simp_all
  then show ?thesis by simp
qed

text \<open>The receive buffer hands out exactly the envelopes inserted since the last drain, in
  arrival order, and is then as fresh as a new one with the same coalescing window.\<close>

theorem buffer_drains_in_order:
  "smb_drain (fold (\<lambda>(now, e). smb_insert now e) es (smb_new w)) = (map snd es, smb_new w) \<and>
   smb_wf (fold (\<lambda>(now, e). smb_insert now e) es (smb_new w))"
proof -
  let ?b = "fold (\<lambda>(now, e). smb_insert now e) es (smb_new w)"
  have "smb_envelopes ?b = map snd es" "smb_max_coalesce ?b = w"
    using smb_insert_all(1,2) [of es "smb_new w"] by (simp_all add: smb_new_def)
  moreover have "smb_wf ?b"
    by (rule smb_insert_all(3)) (simp add: smb_new_def smb_wf_def)
  moreover have "smb_drain b = (smb_envelopes b, smb_new (smb_max_coalesce b))" for b
    by (cases b) (simp add: smb_drain_def smb_new_def)
  ultimately show ?thesis by simp
qed

end
