(* ===== verification/Tables.thy ===== *)
theory Tables
  imports Namespace Log_Codec
begin

text \<open>
  The rows of the semantic database, \<open>semantic/table/*.rs\<close>: for each table the typed row, the
  column values an INSERT writes for it (in the order the SELECTs list them), and the decoder
  \<open>from_sql_row\<close>. SQL integers are \<open>int\<close>, TEXT and BLOB columns byte lists, NULL is \<open>None\<close>.
  Every \<open>i64\<close> nanosecond count is a valid \<open>OffsetDateTime\<close>, so \<open>datetime_from_unix_ns\<close> never fails
  on a stored value. The locale \<open>row_codec\<close> is the contract between writing and reading a
  table; it is interpreted for each of the tables.
\<close>

definition datetime_from_unix_ns :: "int \<Rightarrow> time_ns res" where
  "datetime_from_unix_ns ns = Inr ns"

definition datetime_to_unix_ns :: "time_ns \<Rightarrow> int res" where
  "datetime_to_unix_ns t = (if i64_range t then Inr t else Inl Fatal)"

definition u64_try_from :: "int \<Rightarrow> nat res" where
  "u64_try_from x = (if 0 \<le> x then Inr (nat x) else Inl Fatal)"

section \<open>Rows\<close>

record daemon_state_row =
  ds_workspace_id :: string
  ds_s2_basin :: string
  ds_s2_account_endpoint :: "string option"
  ds_s2_basin_endpoint :: "string option"
  ds_daemon_writer_id :: writer_id
  ds_stable_cursor :: nat
  ds_next_outbox_id :: nat
  ds_encryption_key :: bytes

record object_row =
  ob_object_id :: object_id
  ob_object_kind :: object_kind
  ob_creator_writer_id :: writer_id
  ob_created_at :: time_ns

record outbox_row =
  out_outbox_id :: nat
  out_record_kind :: shared_message_kind
  out_object_id :: "object_id option"
  out_payload :: bytes
  out_created_at :: time_ns
  out_inflight :: bool

record prior_tree_row =
  pt_path :: relative_path
  pt_claimed_path :: relative_path
  pt_claim_id :: claim_id
  pt_object_id :: object_id
  pt_fingerprint :: file_fingerprint
  pt_accepted_at :: time_ns
  pt_deleted_at :: "time_ns option"

record stable_tree_row =
  st_path :: relative_path
  st_claimed_path :: relative_path
  st_claim_id :: claim_id
  st_object_id :: object_id
  st_updated_at :: time_ns

datatype stage_kind = New | Resurrect | Update

record staged_file_row =
  sf_import_epoch :: nat
  sf_action_seq :: nat
  sf_path :: relative_path
  sf_object_id :: object_id
  sf_claim_id :: claim_id
  sf_stage_kind :: stage_kind
  sf_fingerprint :: file_fingerprint
  sf_prior_doc_blob :: bytes
  sf_text_update :: bytes
  sf_staged_at :: time_ns

datatype ignored_reason = NonUtf8 | PermissionDenied | TooLarge

record ignored_file_row =
  ig_path :: relative_path
  ig_reason :: ignored_reason
  ig_stat :: file_stat
  ig_ignored_at :: time_ns

fun stage_kind_str :: "stage_kind \<Rightarrow> string" where
  "stage_kind_str New = ''new''"
| "stage_kind_str Resurrect = ''resurrect''"
| "stage_kind_str Update = ''update''"

definition stage_kind_from_str :: "string \<Rightarrow> stage_kind res" where
  "stage_kind_from_str s =
     (if s = ''new'' then Inr New else if s = ''resurrect'' then Inr Resurrect
      else if s = ''update'' then Inr Update else Inl Fatal)"

fun reason_as_str :: "ignored_reason \<Rightarrow> string" where
  "reason_as_str NonUtf8 = ''non_utf8''"
| "reason_as_str PermissionDenied = ''permission_denied''"
| "reason_as_str TooLarge = ''too_large''"

definition reason_parse :: "string \<Rightarrow> ignored_reason res" where
  "reason_parse s =
     (if s = ''non_utf8'' then Inr NonUtf8 else if s = ''permission_denied'' then Inr PermissionDenied
      else if s = ''too_large'' then Inr TooLarge else Inl Fatal)"

definition message_kind_from_str :: "string \<Rightarrow> shared_message_kind res" where
  "message_kind_from_str s =
     (if s = ''namespace_update'' then Inr KNamespaceUpdate else if s = ''text_update'' then Inr KTextUpdate
      else if s = ''binary_put'' then Inr KBinaryPut else Inl Fatal)"

section \<open>Cipher keys\<close>

definition key_len :: nat where
  "key_len = 32"

text \<open>\<open>str::trim\<close>: Unicode white space, as UTF-8 sequences.\<close>

definition white_space :: "string list" where
  "white_space =
     [[CHR 0x09], [CHR 0x0A], [CHR 0x0B], [CHR 0x0C], [CHR 0x0D], [CHR 0x20],
      [CHR 0xC2, CHR 0x85], [CHR 0xC2, CHR 0xA0], [CHR 0xE1, CHR 0x9A, CHR 0x80],
      [CHR 0xE2, CHR 0x80, CHR 0x80], [CHR 0xE2, CHR 0x80, CHR 0x81], [CHR 0xE2, CHR 0x80, CHR 0x82],
      [CHR 0xE2, CHR 0x80, CHR 0x83], [CHR 0xE2, CHR 0x80, CHR 0x84], [CHR 0xE2, CHR 0x80, CHR 0x85],
      [CHR 0xE2, CHR 0x80, CHR 0x86], [CHR 0xE2, CHR 0x80, CHR 0x87], [CHR 0xE2, CHR 0x80, CHR 0x88],
      [CHR 0xE2, CHR 0x80, CHR 0x89], [CHR 0xE2, CHR 0x80, CHR 0x8A], [CHR 0xE2, CHR 0x80, CHR 0xA8],
      [CHR 0xE2, CHR 0x80, CHR 0xA9], [CHR 0xE2, CHR 0x80, CHR 0xAF], [CHR 0xE2, CHR 0x81, CHR 0x9F],
      [CHR 0xE3, CHR 0x80, CHR 0x80]]"

fun trim_front :: "string list \<Rightarrow> nat \<Rightarrow> string \<Rightarrow> string" where
  "trim_front ws 0 s = s"
| "trim_front ws (Suc fuel) s =
     (case find (starts_with s) ws of None \<Rightarrow> s | Some w \<Rightarrow> trim_front ws fuel (drop (length w) s))"

text \<open>Each step drops at least one byte, so the length of the string is enough fuel.\<close>

definition str_trim :: "string \<Rightarrow> string" where
  "str_trim s =
     (let a = trim_front white_space (length s) s
      in rev (trim_front (map rev white_space) (length a) (rev a)))"

definition cipher_key_to_string :: "('d, 'sv) ext \<Rightarrow> bytes \<Rightarrow> string" where
  "cipher_key_to_string X key = crockford_encode X key"

definition cipher_key_from_str :: "('d, 'sv) ext \<Rightarrow> string \<Rightarrow> bytes res" where
  "cipher_key_from_str X s =
     bind_res (ok_or (crockford_decode X (str_trim s)) Fatal) (\<lambda>key.
       if length key = key_len then Inr key else Inl Fatal)"

section \<open>Columns and decoders\<close>

type_synonym daemon_state_cols =
  "string \<times> string \<times> bytes \<times> int \<times> int \<times> string option \<times> string option \<times> string option"

definition optional_endpoint :: "string option \<Rightarrow> string option res" where
  "optional_endpoint raw =
     (case raw of None \<Rightarrow> Inr None | Some v \<Rightarrow> if v = [] then Inl Fatal else Inr (Some v))"

definition validate_endpoint_pair :: "('d, 'sv) ext \<Rightarrow> string option \<Rightarrow> string option \<Rightarrow> unit res" where
  "validate_endpoint_pair X account basin =
     (case (account, basin) of
        (Some a, Some b) \<Rightarrow> if s2_endpoints_ok X a b then Inr () else Inl Fatal
      | (Some _, None) \<Rightarrow> Inl Fatal
      | (None, Some _) \<Rightarrow> Inl Fatal
      | (None, None) \<Rightarrow> Inr ())"

definition daemon_state_cols_of :: "('d, 'sv) ext \<Rightarrow> daemon_state_row \<Rightarrow> daemon_state_cols" where
  "daemon_state_cols_of X r =
     (ds_workspace_id r, ds_s2_basin r, ds_daemon_writer_id r, int (ds_stable_cursor r),
      int (ds_next_outbox_id r), ds_s2_account_endpoint r, ds_s2_basin_endpoint r,
      Some (cipher_key_to_string X (ds_encryption_key r)))"

fun daemon_state_from_sql_row :: "('d, 'sv) ext \<Rightarrow> daemon_state_cols \<Rightarrow> daemon_state_row res" where
  "daemon_state_from_sql_row X (ws, basin, writer, cursor_raw, next_raw, account_raw, basin_ep_raw, key_raw) =
     bind_res (optional_endpoint account_raw) (\<lambda>account.
     bind_res (optional_endpoint basin_ep_raw) (\<lambda>basin_ep.
     if ws = [] then Inl Fatal
     else if basin = [] then Inl Fatal
     else if writer = [] then Inl Fatal
     else
       bind_res (u64_try_from cursor_raw) (\<lambda>cursor.
       if next_raw < 0 then Inl Fatal
       else
         bind_res (if s2_basin_name_ok X basin then Inr () else Inl Fatal) (\<lambda>_.
         bind_res (validate_endpoint_pair X account basin_ep) (\<lambda>_.
         bind_res (ok_or key_raw Fatal) (\<lambda>key_str.
         bind_res (cipher_key_from_str X key_str) (\<lambda>key.
           Inr \<lparr>ds_workspace_id = ws, ds_s2_basin = basin, ds_s2_account_endpoint = account,
                ds_s2_basin_endpoint = basin_ep, ds_daemon_writer_id = writer,
                ds_stable_cursor = cursor, ds_next_outbox_id = nat next_raw,
                ds_encryption_key = key\<rparr>)))))))"

type_synonym object_cols = "bytes \<times> string \<times> bytes \<times> int"

definition object_cols_of :: "object_row \<Rightarrow> object_cols" where
  "object_cols_of r =
     (ob_object_id r, kind_str (ob_object_kind r), ob_creator_writer_id r, ob_created_at r)"

fun object_from_sql_row :: "object_cols \<Rightarrow> object_row res" where
  "object_from_sql_row (obj, kind_raw, creator, created_at_ns) =
     (if obj = [] then Inl Fatal
      else if creator = [] then Inl Fatal
      else
        bind_res (ok_or (kind_from_str kind_raw) Fatal) (\<lambda>kind.
        bind_res (datetime_from_unix_ns created_at_ns) (\<lambda>created_at.
          Inr \<lparr>ob_object_id = obj, ob_object_kind = kind, ob_creator_writer_id = creator,
               ob_created_at = created_at\<rparr>)))"

type_synonym outbox_cols = "int \<times> string \<times> bytes option \<times> bytes \<times> int \<times> int"

definition outbox_cols_of :: "outbox_row \<Rightarrow> outbox_cols" where
  "outbox_cols_of r =
     (int (out_outbox_id r), message_kind_str (out_record_kind r), out_object_id r, out_payload r,
      out_created_at r, if out_inflight r then 1 else 0)"

definition check_outbox_kind :: "shared_message_kind \<Rightarrow> object_id option \<Rightarrow> unit res" where
  "check_outbox_kind kind obj =
     (case kind of
        KNamespaceUpdate \<Rightarrow> if obj \<noteq> None then Inl Fatal else Inr ()
      | KTextUpdate \<Rightarrow> bind_res (ok_or obj Fatal) (\<lambda>b. if b = [] then Inl Fatal else Inr ())
      | KBinaryPut \<Rightarrow> Inl Fatal)"

fun outbox_from_sql_row :: "outbox_cols \<Rightarrow> outbox_row res" where
  "outbox_from_sql_row (id_raw, kind_raw, obj, payload, created_at_ns, inflight_raw) =
     bind_res (u64_try_from id_raw) (\<lambda>i.
     bind_res (message_kind_from_str kind_raw) (\<lambda>kind.
     bind_res (check_outbox_kind kind obj) (\<lambda>_.
     bind_res (datetime_from_unix_ns created_at_ns) (\<lambda>created_at.
     bind_res (if inflight_raw = 0 then Inr False else if inflight_raw = 1 then Inr True else Inl Fatal) (\<lambda>inflight.
       Inr \<lparr>out_outbox_id = i, out_record_kind = kind, out_object_id = obj, out_payload = payload,
            out_created_at = created_at, out_inflight = inflight\<rparr>)))))"

definition into_shared_message :: "outbox_row \<Rightarrow> (nat \<times> shared_message) res" where
  "into_shared_message r =
     (case out_record_kind r of
        KNamespaceUpdate \<Rightarrow> Inr (out_outbox_id r, NamespaceUpdate (out_payload r))
      | KTextUpdate \<Rightarrow>
          bind_res (ok_or (out_object_id r) Fatal) (\<lambda>obj.
            Inr (out_outbox_id r, TextObjectUpdate obj (out_payload r)))
      | KBinaryPut \<Rightarrow> Inl Fatal)"

type_synonym prior_tree_cols =
  "string \<times> string \<times> bytes \<times> bytes \<times> string \<times> int \<times> int \<times> bytes option \<times> int \<times> int option"

fun fp_hash :: "file_fingerprint \<Rightarrow> bytes option" where
  "fp_hash (StatOnly _) = None"
| "fp_hash (StatAndContent _ h) = Some h"

definition prior_tree_cols_of :: "prior_tree_row \<Rightarrow> prior_tree_cols" where
  "prior_tree_cols_of r =
     (let stat = fp_stat (pt_fingerprint r)
      in (to_db_path (pt_path r), to_db_path (pt_claimed_path r), pt_claim_id r, pt_object_id r,
          file_key_encode (stat_file_key stat), int (stat_size stat), stat_mtime stat,
          fp_hash (pt_fingerprint r), pt_accepted_at r, pt_deleted_at r))"

fun prior_tree_from_sql_row :: "prior_tree_cols \<Rightarrow> prior_tree_row res" where
  "prior_tree_from_sql_row (path_raw, claimed_raw, claim, obj, key_raw, size_raw, mtime_ns, hash,
      accepted_at_ns, deleted_at_ns) =
     bind_res (relative_path_parse path_raw) (\<lambda>path.
     bind_res (relative_path_parse claimed_raw) (\<lambda>claimed.
     if claim = [] then Inl Fatal
     else if obj = [] then Inl Fatal
     else if key_raw = [] then Inl Fatal
     else
       bind_res (file_key_decode key_raw) (\<lambda>key.
       bind_res (u64_try_from size_raw) (\<lambda>size.
       bind_res (datetime_from_unix_ns mtime_ns) (\<lambda>mtime.
       let stat = \<lparr>stat_file_key = key, stat_size = size, stat_mtime = mtime\<rparr>;
           fingerprint = (case hash of Some h \<Rightarrow> StatAndContent stat h | None \<Rightarrow> StatOnly stat)
       in bind_res (datetime_from_unix_ns accepted_at_ns) (\<lambda>accepted_at.
          bind_res (case deleted_at_ns of None \<Rightarrow> Inr None | Some ns \<Rightarrow> map_ok Some (datetime_from_unix_ns ns)) (\<lambda>deleted_at.
          if (case deleted_at of Some t \<Rightarrow> t < accepted_at | None \<Rightarrow> False) then Inl Fatal
          else Inr \<lparr>pt_path = path, pt_claimed_path = claimed, pt_claim_id = claim, pt_object_id = obj,
                    pt_fingerprint = fingerprint, pt_accepted_at = accepted_at,
                    pt_deleted_at = deleted_at\<rparr>)))))))"

type_synonym stable_tree_cols = "string \<times> string \<times> bytes \<times> bytes \<times> int"

definition stable_tree_cols_of :: "stable_tree_row \<Rightarrow> stable_tree_cols" where
  "stable_tree_cols_of r =
     (to_db_path (st_path r), to_db_path (st_claimed_path r), st_claim_id r, st_object_id r, st_updated_at r)"

fun stable_tree_from_sql_row :: "stable_tree_cols \<Rightarrow> stable_tree_row res" where
  "stable_tree_from_sql_row (path_raw, claimed_raw, claim, obj, updated_at_ns) =
     bind_res (relative_path_parse path_raw) (\<lambda>path.
     bind_res (relative_path_parse claimed_raw) (\<lambda>claimed.
     if claim = [] then Inl Fatal
     else if obj = [] then Inl Fatal
     else
       bind_res (datetime_from_unix_ns updated_at_ns) (\<lambda>updated_at.
         Inr \<lparr>st_path = path, st_claimed_path = claimed, st_claim_id = claim, st_object_id = obj,
              st_updated_at = updated_at\<rparr>)))"

type_synonym staged_file_cols =
  "int \<times> int \<times> string \<times> bytes \<times> bytes \<times> string \<times> string \<times> int \<times> int \<times> bytes \<times> bytes \<times> bytes \<times> int"

definition staged_file_cols_of :: "staged_file_row \<Rightarrow> staged_file_cols" where
  "staged_file_cols_of r =
     (let stat = fp_stat (sf_fingerprint r)
      in (int (sf_import_epoch r), int (sf_action_seq r), to_db_path (sf_path r), sf_object_id r,
          sf_claim_id r, stage_kind_str (sf_stage_kind r), file_key_encode (stat_file_key stat),
          int (stat_size stat), stat_mtime stat,
          (case fp_hash (sf_fingerprint r) of Some h \<Rightarrow> h | None \<Rightarrow> []),
          sf_prior_doc_blob r, sf_text_update r, sf_staged_at r))"

fun staged_file_from_sql_row :: "staged_file_cols \<Rightarrow> staged_file_row res" where
  "staged_file_from_sql_row (epoch_raw, seq_raw, path_raw, obj, claim, kind_raw, key_raw, size_raw,
      mtime_ns, hash, prior_doc_blob, text_update, staged_at_ns) =
     (if obj = [] then Inl Fatal
      else if claim = [] then Inl Fatal
      else if key_raw = [] then Inl Fatal
      else if hash = [] then Inl Fatal
      else
        bind_res (u64_try_from epoch_raw) (\<lambda>epoch.
        bind_res (u64_try_from seq_raw) (\<lambda>seq.
        bind_res (relative_path_parse path_raw) (\<lambda>path.
        bind_res (stage_kind_from_str kind_raw) (\<lambda>kind.
        bind_res (file_key_decode key_raw) (\<lambda>key.
        bind_res (u64_try_from size_raw) (\<lambda>size.
        bind_res (datetime_from_unix_ns mtime_ns) (\<lambda>mtime.
        bind_res (datetime_from_unix_ns staged_at_ns) (\<lambda>staged_at.
          Inr \<lparr>sf_import_epoch = epoch, sf_action_seq = seq, sf_path = path, sf_object_id = obj,
               sf_claim_id = claim, sf_stage_kind = kind,
               sf_fingerprint = StatAndContent
                 \<lparr>stat_file_key = key, stat_size = size, stat_mtime = mtime\<rparr> hash,
               sf_prior_doc_blob = prior_doc_blob, sf_text_update = text_update,
               sf_staged_at = staged_at\<rparr>)))))))))"

type_synonym ignored_file_cols = "string \<times> string \<times> string \<times> int \<times> int \<times> int"

definition ignored_file_cols_of :: "ignored_file_row \<Rightarrow> ignored_file_cols" where
  "ignored_file_cols_of r =
     (to_db_path (ig_path r), reason_as_str (ig_reason r), file_key_encode (stat_file_key (ig_stat r)),
      int (stat_size (ig_stat r)), stat_mtime (ig_stat r), ig_ignored_at r)"

fun ignored_file_from_sql_row :: "ignored_file_cols \<Rightarrow> ignored_file_row res" where
  "ignored_file_from_sql_row (path_raw, reason_raw, key_raw, size_raw, mtime_ns, ignored_at_ns) =
     bind_res (relative_path_parse path_raw) (\<lambda>path.
     bind_res (reason_parse reason_raw) (\<lambda>reason.
     if key_raw = [] then Inl Fatal
     else
       bind_res (file_key_decode key_raw) (\<lambda>key.
       bind_res (u64_try_from size_raw) (\<lambda>size.
       bind_res (datetime_from_unix_ns mtime_ns) (\<lambda>mtime.
       bind_res (datetime_from_unix_ns ignored_at_ns) (\<lambda>ignored_at.
         Inr \<lparr>ig_path = path, ig_reason = reason,
              ig_stat = \<lparr>stat_file_key = key, stat_size = size, stat_mtime = mtime\<rparr>,
              ig_ignored_at = ignored_at\<rparr>))))))"

text \<open>\<open>stable_namespace\<close>, \<open>prior_namespace\<close>: the id column must be 1; \<open>stable_text_objects\<close>,
  \<open>prior_text_objects\<close>: the object id must not be empty.\<close>

fun namespace_from_sql_row :: "int \<times> bytes \<times> int \<Rightarrow> (bytes \<times> time_ns) res" where
  "namespace_from_sql_row (row_id, doc_blob, ns) =
     (if row_id \<noteq> 1 then Inl Fatal
      else bind_res (datetime_from_unix_ns ns) (\<lambda>t. Inr (doc_blob, t)))"

fun text_object_from_sql_row :: "bytes \<times> bytes \<times> int \<Rightarrow> (object_id \<times> bytes \<times> time_ns) res" where
  "text_object_from_sql_row (obj, doc_blob, ns) =
     (if obj = [] then Inl Fatal
      else bind_res (datetime_from_unix_ns ns) (\<lambda>t. Inr (obj, doc_blob, t)))"

section \<open>Rows that survive a write and a read\<close>

definition daemon_state_row_ok :: "('d, 'sv) ext \<Rightarrow> daemon_state_row \<Rightarrow> bool" where
  "daemon_state_row_ok X r \<longleftrightarrow>
     ds_workspace_id r \<noteq> [] \<and> ds_s2_basin r \<noteq> [] \<and> ds_daemon_writer_id r \<noteq> [] \<and>
     s2_basin_name_ok X (ds_s2_basin r) \<and> length (ds_encryption_key r) = key_len \<and>
     (case (ds_s2_account_endpoint r, ds_s2_basin_endpoint r) of
        (None, None) \<Rightarrow> True
      | (Some a, Some b) \<Rightarrow> a \<noteq> [] \<and> b \<noteq> [] \<and> s2_endpoints_ok X a b
      | _ \<Rightarrow> False)"

definition object_row_ok :: "object_row \<Rightarrow> bool" where
  "object_row_ok r \<longleftrightarrow> ob_object_id r \<noteq> [] \<and> ob_creator_writer_id r \<noteq> []"

definition outbox_row_ok :: "outbox_row \<Rightarrow> bool" where
  "outbox_row_ok r \<longleftrightarrow> is_ok (check_outbox_kind (out_record_kind r) (out_object_id r))"

definition prior_tree_row_ok :: "prior_tree_row \<Rightarrow> bool" where
  "prior_tree_row_ok r \<longleftrightarrow>
     rp_valid (pt_path r) \<and> rp_valid (pt_claimed_path r) \<and> pt_claim_id r \<noteq> [] \<and> pt_object_id r \<noteq> [] \<and>
     file_key_ok (stat_file_key (fp_stat (pt_fingerprint r))) \<and>
     (case pt_deleted_at r of Some t \<Rightarrow> pt_accepted_at r \<le> t | None \<Rightarrow> True)"

definition stable_tree_row_ok :: "stable_tree_row \<Rightarrow> bool" where
  "stable_tree_row_ok r \<longleftrightarrow>
     rp_valid (st_path r) \<and> rp_valid (st_claimed_path r) \<and> st_claim_id r \<noteq> [] \<and> st_object_id r \<noteq> []"

definition staged_file_row_ok :: "staged_file_row \<Rightarrow> bool" where
  "staged_file_row_ok r \<longleftrightarrow>
     rp_valid (sf_path r) \<and> sf_claim_id r \<noteq> [] \<and> sf_object_id r \<noteq> [] \<and>
     (case sf_fingerprint r of
        StatOnly _ \<Rightarrow> False
      | StatAndContent s h \<Rightarrow> h \<noteq> [] \<and> file_key_ok (stat_file_key s))"

definition ignored_file_row_ok :: "ignored_file_row \<Rightarrow> bool" where
  "ignored_file_row_ok r \<longleftrightarrow> rp_valid (ig_path r) \<and> file_key_ok (stat_file_key (ig_stat r))"

section \<open>The contract between writing and reading a table\<close>

locale row_codec =
  fixes cols :: "'row \<Rightarrow> 'cols" and decode :: "'cols \<Rightarrow> 'row res" and row_ok :: "'row \<Rightarrow> bool"
  assumes decode_cols: "row_ok r \<Longrightarrow> decode (cols r) = Inr r"
begin

lemma select_rows: "\<forall>r\<in>set rows. row_ok r \<Longrightarrow> map_res decode (map cols rows) = Inr rows"
  by (induction rows) (auto simp: decode_cols)

lemma cols_inj: "row_ok r \<Longrightarrow> row_ok r' \<Longrightarrow> cols r = cols r' \<Longrightarrow> r = r'"
  using decode_cols by (metis Inr_inject)

end

section \<open>The tables keep the contract\<close>

lemma trim_front_none:
  assumes "\<forall>w\<in>set ws. w \<noteq> [] \<and> \<not> P (hd w)" and "list_all P s"
  shows "trim_front ws n s = s"
proof (cases n)
  case (Suc m)
  have "\<not> starts_with s w" if "w \<in> set ws" for w
    using assms that by (cases w; cases s) (auto simp: starts_with_iff)
  then have "find (starts_with s) ws = None" by (simp add: find_None_iff)
  with Suc show ?thesis by simp
qed simp

lemma white_space_ends:
  "\<forall>w\<in>set white_space. w \<noteq> [] \<and> \<not> ascii_alnum (hd w)"
  "\<forall>w\<in>set (map rev white_space). w \<noteq> [] \<and> \<not> ascii_alnum (hd w)"
  by (simp_all add: white_space_def ascii_alnum_def)

lemma str_trim_alnum: "list_all ascii_alnum s \<Longrightarrow> str_trim s = s"
  by (simp add: str_trim_def Let_def trim_front_none [OF white_space_ends(1)]
      trim_front_none [OF white_space_ends(2)])

lemma cipher_key_roundtrip_lemma:
  assumes "crockford_ok X" and "length key = key_len"
  shows "cipher_key_from_str X (cipher_key_to_string X key) = Inr key"
  using assms by (simp add: cipher_key_from_str_def cipher_key_to_string_def crockford_ok_def str_trim_alnum)

lemma kind_from_str_inverse: "kind_from_str (kind_str k) = Some k"
  by (cases k) (simp_all add: kind_from_str_def)

lemma message_kind_inverse: "message_kind_from_str (message_kind_str k) = Inr k"
  by (cases k) (simp_all add: message_kind_from_str_def)

lemma stage_kind_inverse: "stage_kind_from_str (stage_kind_str k) = Inr k"
  by (cases k) (simp_all add: stage_kind_from_str_def)

lemma reason_inverse: "reason_parse (reason_as_str k) = Inr k"
  by (cases k) (simp_all add: reason_parse_def)

lemma file_key_encode_nonempty [simp]: "file_key_encode k \<noteq> []"
  by (simp add: file_key_encode_def)

lemmas column_inverses =
  u64_try_from_def datetime_from_unix_ns_def file_key_decode_encode kind_from_str_inverse
  message_kind_inverse stage_kind_inverse reason_inverse to_db_path_valid

interpretation objects_codec: row_codec object_cols_of object_from_sql_row object_row_ok
  by unfold_locales (simp add: object_cols_of_def object_row_ok_def column_inverses)

interpretation outbox_codec: row_codec outbox_cols_of outbox_from_sql_row outbox_row_ok
proof
  fix r assume "outbox_row_ok r"
  then have "check_outbox_kind (out_record_kind r) (out_object_id r) = Inr ()"
    by (cases "check_outbox_kind (out_record_kind r) (out_object_id r)") (auto simp: outbox_row_ok_def)
  then show "outbox_from_sql_row (outbox_cols_of r) = Inr r"
    by (simp add: outbox_cols_of_def column_inverses)
qed

interpretation stable_tree_codec: row_codec stable_tree_cols_of stable_tree_from_sql_row stable_tree_row_ok
  by unfold_locales (simp add: stable_tree_cols_of_def stable_tree_row_ok_def column_inverses)

interpretation prior_tree_codec: row_codec prior_tree_cols_of prior_tree_from_sql_row prior_tree_row_ok
proof
  fix r assume ok: "prior_tree_row_ok r"
  obtain p c i obj f a d where r: "r = \<lparr>pt_path = p, pt_claimed_path = c, pt_claim_id = i, pt_object_id = obj,
      pt_fingerprint = f, pt_accepted_at = a, pt_deleted_at = d\<rparr>"
    by (cases r) blast
  from ok show "prior_tree_from_sql_row (prior_tree_cols_of r) = Inr r"
    by (cases f)
      (auto simp: r prior_tree_cols_of_def prior_tree_row_ok_def Let_def column_inverses split: option.splits)
qed

interpretation staged_codec: row_codec staged_file_cols_of staged_file_from_sql_row staged_file_row_ok
  by unfold_locales
    (auto simp: staged_file_cols_of_def staged_file_row_ok_def Let_def column_inverses
      split: file_fingerprint.splits)

interpretation ignored_codec: row_codec ignored_file_cols_of ignored_file_from_sql_row ignored_file_row_ok
  by unfold_locales (simp add: ignored_file_cols_of_def ignored_file_row_ok_def column_inverses)

lemma daemon_state_codec:
  assumes "crockford_ok X"
  shows "row_codec (daemon_state_cols_of X) (daemon_state_from_sql_row X) (daemon_state_row_ok X)"
  by unfold_locales
    (auto simp: daemon_state_cols_of_def daemon_state_row_ok_def column_inverses optional_endpoint_def
      validate_endpoint_pair_def cipher_key_roundtrip_lemma [OF assms] split: option.splits)

section \<open>Properties\<close>

text \<open>What the transaction layer writes into a table, the row decoders read back unchanged, for
  every table: objects, outbox, stable and prior tree, staged files and ignored files.\<close>

theorem rows_survive_storage:
  assumes "\<forall>r\<in>set os. object_row_ok r" and "\<forall>r\<in>set qs. outbox_row_ok r"
    and "\<forall>r\<in>set ss. stable_tree_row_ok r" and "\<forall>r\<in>set ps. prior_tree_row_ok r"
    and "\<forall>r\<in>set fs. staged_file_row_ok r" and "\<forall>r\<in>set is. ignored_file_row_ok r"
  shows "map_res object_from_sql_row (map object_cols_of os) = Inr os \<and>
     map_res outbox_from_sql_row (map outbox_cols_of qs) = Inr qs \<and>
     map_res stable_tree_from_sql_row (map stable_tree_cols_of ss) = Inr ss \<and>
     map_res prior_tree_from_sql_row (map prior_tree_cols_of ps) = Inr ps \<and>
     map_res staged_file_from_sql_row (map staged_file_cols_of fs) = Inr fs \<and>
     map_res ignored_file_from_sql_row (map ignored_file_cols_of is) = Inr is"
  using assms objects_codec.select_rows outbox_codec.select_rows stable_tree_codec.select_rows
    prior_tree_codec.select_rows staged_codec.select_rows ignored_codec.select_rows by blast

theorem rows_survive_storage_witness:
  "map_res outbox_from_sql_row (map outbox_cols_of
     [\<lparr>out_outbox_id = 7, out_record_kind = KTextUpdate, out_object_id = Some ''o'', out_payload = ''u'',
       out_created_at = 5, out_inflight = True\<rparr>]) =
   Inr [\<lparr>out_outbox_id = 7, out_record_kind = KTextUpdate, out_object_id = Some ''o'', out_payload = ''u'',
       out_created_at = 5, out_inflight = True\<rparr>]"
  using rows_survive_storage [of "[]" "[\<lparr>out_outbox_id = 7, out_record_kind = KTextUpdate,
       out_object_id = Some ''o'', out_payload = ''u'', out_created_at = 5, out_inflight = True\<rparr>]" "[]" "[]" "[]" "[]"]
  by (simp add: outbox_row_ok_def check_outbox_kind_def)

text \<open>The daemon's singleton row, the encryption key and both endpoints included, survives
  being written and read.\<close>

theorem daemon_state_round_trip:
  assumes "crockford_ok X" and "daemon_state_row_ok X r"
  shows "daemon_state_from_sql_row X (daemon_state_cols_of X r) = Inr r"
  using row_codec.decode_cols [OF daemon_state_codec [OF assms(1)] assms(2)] .

theorem daemon_state_round_trip_witness:
  "daemon_state_from_sql_row (demo_ext (\<lambda>_. [])) (daemon_state_cols_of (demo_ext (\<lambda>_. []))
     \<lparr>ds_workspace_id = ''ws'', ds_s2_basin = ''basin'', ds_s2_account_endpoint = None,
      ds_s2_basin_endpoint = None, ds_daemon_writer_id = ''w'', ds_stable_cursor = 3,
      ds_next_outbox_id = 4, ds_encryption_key = replicate 32 (CHR ''k'')\<rparr>) =
   Inr \<lparr>ds_workspace_id = ''ws'', ds_s2_basin = ''basin'', ds_s2_account_endpoint = None,
      ds_s2_basin_endpoint = None, ds_daemon_writer_id = ''w'', ds_stable_cursor = 3,
      ds_next_outbox_id = 4, ds_encryption_key = replicate 32 (CHR ''k'')\<rparr>"
  by (rule daemon_state_round_trip [OF demo_ext_ok(2)])
    (simp add: daemon_state_row_ok_def key_len_def demo_ext_def)

end
