(* ===== verification/Store.thy ===== *)
theory Store
  imports Tables
begin

text \<open>
  The transaction layer, \<open>semantic/transaction.rs\<close>, and the set-up of \<open>app/db.rs\<close>, over a database
  whose tables are maps from primary keys to rows (\<open>schema.sql\<close>): a SELECT decodes the columns
  of the rows it matches, a write checks the ranges the code checks and the constraints the
  schema declares. A violated constraint is a \<open>turso\<close> error that is not retryable, hence \<open>Fatal\<close>.
  Path columns are the printed paths, so \<open>ORDER BY path\<close> is the order of the keys. Foreign keys
  are declared but not enforced (the connection never turns the pragma on).
\<close>

record db =
  db_daemon_state :: "daemon_state_row option"
  db_objects :: "(object_id, object_row) btree_map"
  db_stable_namespace :: "(bytes \<times> time_ns) option"
  db_prior_namespace :: "(bytes \<times> time_ns) option"
  db_stable_text :: "(object_id, bytes \<times> time_ns) btree_map"
  db_prior_text :: "(object_id, bytes \<times> time_ns) btree_map"
  db_stable_tree :: "(string, stable_tree_row) btree_map"
  db_prior_tree :: "(string, prior_tree_row) btree_map"
  db_staged :: "(nat \<times> nat, staged_file_row) btree_map"
  db_write_intents :: "(string \<times> bytes, object_id \<times> bytes \<times> time_ns) btree_map"
  db_applied_intents :: "(string \<times> bytes, string \<times> nat \<times> time_ns) btree_map"
  db_outbox :: "(nat, outbox_row) btree_map"
  db_ignored :: "(string, ignored_file_row) btree_map"

definition empty_db :: db where
  "empty_db =
     \<lparr>db_daemon_state = None, db_objects = [], db_stable_namespace = None, db_prior_namespace = None,
      db_stable_text = [], db_prior_text = [], db_stable_tree = [], db_prior_tree = [], db_staged = [],
      db_write_intents = [], db_applied_intents = [], db_outbox = [], db_ignored = []\<rparr>"

definition i64_try_from :: "nat \<Rightarrow> nat res" where
  "i64_try_from n = ok_or (i64_from_u64 n) InvariantViolation"

section \<open>Cursor, writer, namespaces\<close>

definition select_stable_cursor :: "db \<Rightarrow> nat res" where
  "select_stable_cursor d = map_ok ds_stable_cursor (ok_or (db_daemon_state d) InvariantViolation)"

definition update_stable_cursor :: "nat \<Rightarrow> nat \<Rightarrow> db \<Rightarrow> db res" where
  "update_stable_cursor first final d =
     (case db_daemon_state d of
        Some r \<Rightarrow>
          if ds_stable_cursor r = first
          then Inr (d\<lparr>db_daemon_state := Some (r\<lparr>ds_stable_cursor := final + 1\<rparr>)\<rparr>)
          else Inl InvariantViolation
      | None \<Rightarrow> Inl InvariantViolation)"

definition select_daemon_writer_id :: "db \<Rightarrow> writer_id res" where
  "select_daemon_writer_id d =
     bind_res (ok_or (db_daemon_state d) InvariantViolation) (\<lambda>r.
       if ds_daemon_writer_id r = [] then Inl InvariantViolation else Inr (ds_daemon_writer_id r))"

definition select_stable_namespace :: "db \<Rightarrow> (bytes \<times> time_ns) option res" where
  "select_stable_namespace d =
     (case db_stable_namespace d of
        None \<Rightarrow> Inr None
      | Some (blob, t) \<Rightarrow> map_ok Some (namespace_from_sql_row (1, blob, t)))"

definition select_prior_namespace :: "db \<Rightarrow> (bytes \<times> time_ns) option res" where
  "select_prior_namespace d =
     (case db_prior_namespace d of
        None \<Rightarrow> Inr None
      | Some (blob, t) \<Rightarrow> map_ok Some (namespace_from_sql_row (1, blob, t)))"

definition insert_stable_namespace :: "bytes \<Rightarrow> time_ns \<Rightarrow> db \<Rightarrow> db res" where
  "insert_stable_namespace blob t d =
     bind_res (datetime_to_unix_ns t) (\<lambda>ns.
       if db_stable_namespace d \<noteq> None then Inl Fatal
       else Inr (d\<lparr>db_stable_namespace := Some (blob, ns)\<rparr>))"

definition insert_prior_namespace :: "bytes \<Rightarrow> time_ns \<Rightarrow> db \<Rightarrow> db res" where
  "insert_prior_namespace blob t d =
     bind_res (datetime_to_unix_ns t) (\<lambda>ns.
       if db_prior_namespace d \<noteq> None then Inl Fatal
       else Inr (d\<lparr>db_prior_namespace := Some (blob, ns)\<rparr>))"

definition update_stable_namespace :: "bytes \<Rightarrow> time_ns \<Rightarrow> db \<Rightarrow> db res" where
  "update_stable_namespace blob t d =
     bind_res (datetime_to_unix_ns t) (\<lambda>ns.
       if db_stable_namespace d = None then Inl InvariantViolation
       else Inr (d\<lparr>db_stable_namespace := Some (blob, ns)\<rparr>))"

definition update_prior_namespace :: "bytes \<Rightarrow> time_ns \<Rightarrow> db \<Rightarrow> db res" where
  "update_prior_namespace blob t d =
     bind_res (datetime_to_unix_ns t) (\<lambda>ns.
       if db_prior_namespace d = None then Inl InvariantViolation
       else Inr (d\<lparr>db_prior_namespace := Some (blob, ns)\<rparr>))"

section \<open>Objects and text states\<close>

definition object_row_of :: "object_id \<Rightarrow> object_kind \<Rightarrow> writer_id \<Rightarrow> time_ns \<Rightarrow> object_row" where
  "object_row_of obj kind w t =
     \<lparr>ob_object_id = obj, ob_object_kind = kind, ob_creator_writer_id = w, ob_created_at = t\<rparr>"

definition insert_object :: "object_id \<Rightarrow> object_kind \<Rightarrow> writer_id \<Rightarrow> time_ns \<Rightarrow> db \<Rightarrow> db res" where
  "insert_object obj kind w t d =
     bind_res (datetime_to_unix_ns t) (\<lambda>ns.
       if kind \<noteq> Text \<or> bt_get (db_objects d) obj \<noteq> None then Inl Fatal
       else Inr (d\<lparr>db_objects := bt_insert obj (object_row_of obj kind w ns) (db_objects d)\<rparr>))"

text \<open>\<open>INSERT OR IGNORE\<close> skips the row when a key or a CHECK is violated.\<close>

definition insert_or_ignore_object :: "object_id \<Rightarrow> object_kind \<Rightarrow> writer_id \<Rightarrow> time_ns \<Rightarrow> db \<Rightarrow> db res" where
  "insert_or_ignore_object obj kind w t d =
     bind_res (datetime_to_unix_ns t) (\<lambda>ns.
       if kind \<noteq> Text \<or> bt_get (db_objects d) obj \<noteq> None then Inr d
       else Inr (d\<lparr>db_objects := bt_insert obj (object_row_of obj kind w ns) (db_objects d)\<rparr>))"

definition insert_stable_text_object :: "object_id \<Rightarrow> bytes \<Rightarrow> time_ns \<Rightarrow> db \<Rightarrow> db res" where
  "insert_stable_text_object obj blob t d =
     bind_res (datetime_to_unix_ns t) (\<lambda>ns.
       if bt_get (db_stable_text d) obj \<noteq> None then Inl Fatal
       else Inr (d\<lparr>db_stable_text := bt_insert obj (blob, ns) (db_stable_text d)\<rparr>))"

definition upsert_stable_text_object :: "object_id \<Rightarrow> bytes \<Rightarrow> time_ns \<Rightarrow> db \<Rightarrow> db res" where
  "upsert_stable_text_object obj blob t d =
     bind_res (datetime_to_unix_ns t) (\<lambda>ns.
       Inr (d\<lparr>db_stable_text := bt_insert obj (blob, ns) (db_stable_text d)\<rparr>))"

definition select_stable_text_object_doc :: "object_id \<Rightarrow> db \<Rightarrow> bytes option res" where
  "select_stable_text_object_doc obj d = Inr (map_option fst (bt_get (db_stable_text d) obj))"

definition insert_prior_text_object :: "object_id \<Rightarrow> bytes \<Rightarrow> time_ns \<Rightarrow> db \<Rightarrow> db res" where
  "insert_prior_text_object obj blob t d =
     bind_res (datetime_to_unix_ns t) (\<lambda>ns.
       if bt_get (db_prior_text d) obj \<noteq> None then Inl Fatal
       else Inr (d\<lparr>db_prior_text := bt_insert obj (blob, ns) (db_prior_text d)\<rparr>))"

definition select_prior_text_object_doc :: "object_id \<Rightarrow> db \<Rightarrow> bytes option res" where
  "select_prior_text_object_doc obj d = Inr (map_option fst (bt_get (db_prior_text d) obj))"

definition upsert_prior_text_object :: "object_id \<Rightarrow> bytes \<Rightarrow> time_ns \<Rightarrow> db \<Rightarrow> db res" where
  "upsert_prior_text_object obj blob t d =
     bind_res (datetime_to_unix_ns t) (\<lambda>ns.
       Inr (d\<lparr>db_prior_text := bt_insert obj (blob, ns) (db_prior_text d)\<rparr>))"

section \<open>Stable tree\<close>

definition read_stable_row :: "stable_tree_row \<Rightarrow> stable_tree_row res" where
  "read_stable_row r = stable_tree_from_sql_row (stable_tree_cols_of r)"

definition select_stable_tree_files :: "db \<Rightarrow> stable_tree_row list res" where
  "select_stable_tree_files d = map_res read_stable_row (map snd (db_stable_tree d))"

definition select_stable_tree_file :: "relative_path \<Rightarrow> db \<Rightarrow> stable_tree_row option res" where
  "select_stable_tree_file p d =
     (case bt_get (db_stable_tree d) (to_db_path p) of
        None \<Rightarrow> Inr None
      | Some r \<Rightarrow> map_ok Some (read_stable_row r))"

definition insert_stable_tree_file ::
  "relative_path \<Rightarrow> relative_path \<Rightarrow> claim_id \<Rightarrow> object_id \<Rightarrow> time_ns \<Rightarrow> db \<Rightarrow> db res" where
  "insert_stable_tree_file p claimed claim obj t d =
     bind_res (datetime_to_unix_ns t) (\<lambda>ns.
       if to_db_path p = [] \<or> to_db_path claimed = [] \<or>
          bt_get (db_stable_tree d) (to_db_path p) \<noteq> None \<or>
          (\<exists>r\<in>set (map snd (db_stable_tree d)). st_claim_id r = claim)
       then Inl Fatal
       else Inr (d\<lparr>db_stable_tree := bt_insert (to_db_path p)
              \<lparr>st_path = p, st_claimed_path = claimed, st_claim_id = claim, st_object_id = obj,
               st_updated_at = ns\<rparr> (db_stable_tree d)\<rparr>))"

definition delete_stable_tree :: "db \<Rightarrow> db res" where
  "delete_stable_tree d = Inr (d\<lparr>db_stable_tree := []\<rparr>)"

definition delete_stable_tree_file :: "relative_path \<Rightarrow> db \<Rightarrow> db res" where
  "delete_stable_tree_file p d = Inr (d\<lparr>db_stable_tree := bt_remove (to_db_path p) (db_stable_tree d)\<rparr>)"

section \<open>Prior tree\<close>

definition read_prior_row :: "prior_tree_row \<Rightarrow> prior_tree_row res" where
  "read_prior_row r = prior_tree_from_sql_row (prior_tree_cols_of r)"

definition pt_live :: "prior_tree_row \<Rightarrow> bool" where
  "pt_live r \<longleftrightarrow> pt_deleted_at r = None"

definition select_prior_tree_live_files :: "db \<Rightarrow> prior_tree_row list res" where
  "select_prior_tree_live_files d = map_res read_prior_row (filter pt_live (map snd (db_prior_tree d)))"

definition select_prior_tree_live_file :: "relative_path \<Rightarrow> db \<Rightarrow> prior_tree_row option res" where
  "select_prior_tree_live_file p d =
     (case bt_get (db_prior_tree d) (to_db_path p) of
        None \<Rightarrow> Inr None
      | Some r \<Rightarrow> if pt_live r then map_ok Some (read_prior_row r) else Inr None)"

definition deleted_since :: "time_ns \<Rightarrow> prior_tree_row \<Rightarrow> bool" where
  "deleted_since cutoff r \<longleftrightarrow> (case pt_deleted_at r of None \<Rightarrow> False | Some t \<Rightarrow> t \<ge> cutoff)"

definition select_recent_tombstoned_prior_tree_file ::
  "relative_path \<Rightarrow> time_ns \<Rightarrow> db \<Rightarrow> prior_tree_row option res" where
  "select_recent_tombstoned_prior_tree_file p cutoff d =
     bind_res (datetime_to_unix_ns cutoff) (\<lambda>cutoff_ns.
       (case bt_get (db_prior_tree d) (to_db_path p) of
          None \<Rightarrow> Inr None
        | Some r \<Rightarrow> if deleted_since cutoff_ns r then map_ok Some (read_prior_row r) else Inr None))"

text \<open>\<open>ORDER BY deleted_at_ns DESC, path ASC LIMIT 1\<close>: the table is in path order, so a stable sort
  by descending deletion time leaves equal times in path order.\<close>

definition select_recent_tombstoned_prior_tree_file_by_file_key ::
  "file_key \<Rightarrow> time_ns \<Rightarrow> db \<Rightarrow> prior_tree_row option res" where
  "select_recent_tombstoned_prior_tree_file_by_file_key k cutoff d =
     bind_res (datetime_to_unix_ns cutoff) (\<lambda>cutoff_ns.
       (case sort_key (\<lambda>r. - (case pt_deleted_at r of None \<Rightarrow> 0 | Some t \<Rightarrow> t))
               (filter (\<lambda>r. file_key_encode (stat_file_key (fp_stat (pt_fingerprint r))) = file_key_encode k \<and>
                  deleted_since cutoff_ns r) (map snd (db_prior_tree d))) of
          [] \<Rightarrow> Inr None
        | r # _ \<Rightarrow> map_ok Some (read_prior_row r)))"

definition staged_file_fingerprint_parts ::
  "file_fingerprint \<Rightarrow> (string \<times> nat \<times> time_ns \<times> bytes) res" where
  "staged_file_fingerprint_parts fp =
     (case fp of
        StatOnly _ \<Rightarrow> Inl InvariantViolation
      | StatAndContent stat hash \<Rightarrow>
          bind_res (datetime_to_unix_ns (stat_mtime stat)) (\<lambda>mtime_ns.
            Inr (file_key_encode (stat_file_key stat), stat_size stat, mtime_ns, hash)))"

definition prior_row_of ::
  "relative_path \<Rightarrow> relative_path \<Rightarrow> claim_id \<Rightarrow> object_id \<Rightarrow> file_fingerprint \<Rightarrow> time_ns \<Rightarrow> prior_tree_row" where
  "prior_row_of p claimed claim obj fp t =
     \<lparr>pt_path = p, pt_claimed_path = claimed, pt_claim_id = claim, pt_object_id = obj,
      pt_fingerprint = fp, pt_accepted_at = t, pt_deleted_at = None\<rparr>"

definition insert_prior_tree_file ::
  "relative_path \<Rightarrow> relative_path \<Rightarrow> claim_id \<Rightarrow> object_id \<Rightarrow> file_fingerprint \<Rightarrow> time_ns \<Rightarrow> db \<Rightarrow> db res" where
  "insert_prior_tree_file p claimed claim obj fp t d =
     bind_res (staged_file_fingerprint_parts fp) (\<lambda>(_, size, _, _).
     bind_res (i64_try_from size) (\<lambda>_.
     bind_res (datetime_to_unix_ns t) (\<lambda>ns.
       if to_db_path p = [] \<or> to_db_path claimed = [] \<or> bt_get (db_prior_tree d) (to_db_path p) \<noteq> None
       then Inl Fatal
       else Inr (d\<lparr>db_prior_tree := bt_insert (to_db_path p) (prior_row_of p claimed claim obj fp ns)
              (db_prior_tree d)\<rparr>))))"

definition upsert_prior_tree_file ::
  "relative_path \<Rightarrow> relative_path \<Rightarrow> claim_id \<Rightarrow> object_id \<Rightarrow> file_fingerprint \<Rightarrow> time_ns \<Rightarrow> db \<Rightarrow> db res" where
  "upsert_prior_tree_file p claimed claim obj fp t d =
     bind_res (staged_file_fingerprint_parts fp) (\<lambda>(_, size, _, _).
     bind_res (i64_try_from size) (\<lambda>_.
     bind_res (datetime_to_unix_ns t) (\<lambda>ns.
       if to_db_path p = [] \<or> to_db_path claimed = [] then Inl Fatal
       else Inr (d\<lparr>db_prior_tree := bt_insert (to_db_path p) (prior_row_of p claimed claim obj fp ns)
              (db_prior_tree d)\<rparr>))))"

text \<open>The UPDATE matches at most one row (path is the primary key); the table's CHECK rejects a
  deletion time before the acceptance time.\<close>

definition tombstone_prior_tree_file :: "relative_path \<Rightarrow> time_ns \<Rightarrow> db \<Rightarrow> db res" where
  "tombstone_prior_tree_file p t d =
     bind_res (datetime_to_unix_ns t) (\<lambda>ns.
       (case bt_get (db_prior_tree d) (to_db_path p) of
          None \<Rightarrow> Inr d
        | Some r \<Rightarrow>
            if \<not> pt_live r then Inr d
            else if ns < pt_accepted_at r then Inl Fatal
            else Inr (d\<lparr>db_prior_tree := bt_insert (to_db_path p) (r\<lparr>pt_deleted_at := Some ns\<rparr>)
                   (db_prior_tree d)\<rparr>)))"

section \<open>Projection write intents\<close>

definition upsert_projection_write_intent ::
  "relative_path \<Rightarrow> bytes \<Rightarrow> object_id \<Rightarrow> bytes \<Rightarrow> time_ns \<Rightarrow> db \<Rightarrow> db res" where
  "upsert_projection_write_intent p hash obj blob t d =
     bind_res (datetime_to_unix_ns t) (\<lambda>ns.
       if to_db_path p = [] \<or> hash = [] \<or> obj = [] then Inl Fatal
       else Inr (d\<lparr>db_write_intents := bt_insert (to_db_path p, hash) (obj, blob, ns) (db_write_intents d)\<rparr>))"

definition mark_projection_write_intent_applied :: "relative_path \<Rightarrow> file_fingerprint \<Rightarrow> db \<Rightarrow> db res" where
  "mark_projection_write_intent_applied p fp d =
     bind_res (staged_file_fingerprint_parts fp) (\<lambda>(key, size, mtime_ns, hash).
     bind_res (i64_try_from size) (\<lambda>size'.
       if bt_get (db_write_intents d) (to_db_path p, hash) = None then Inr d
       else Inr (d\<lparr>db_applied_intents := bt_insert (to_db_path p, hash) (key, size', mtime_ns)
              (db_applied_intents d)\<rparr>)))"

definition select_applied_projection_write_intent ::
  "relative_path \<Rightarrow> file_fingerprint \<Rightarrow> db \<Rightarrow> (object_id \<times> bytes) option res" where
  "select_applied_projection_write_intent p fp d =
     bind_res (staged_file_fingerprint_parts fp) (\<lambda>(key, size, mtime_ns, hash).
     bind_res (i64_try_from size) (\<lambda>size'.
       Inr (case (bt_get (db_write_intents d) (to_db_path p, hash),
                  bt_get (db_applied_intents d) (to_db_path p, hash)) of
              (Some (obj, blob, _), Some applied) \<Rightarrow>
                if applied = (key, size', mtime_ns) then Some (obj, blob) else None
            | _ \<Rightarrow> None)))"

definition delete_projection_write_intents_for_path :: "relative_path \<Rightarrow> db \<Rightarrow> db res" where
  "delete_projection_write_intents_for_path p d =
     Inr (d\<lparr>db_applied_intents := filter (\<lambda>e. fst (fst e) \<noteq> to_db_path p) (db_applied_intents d),
            db_write_intents := filter (\<lambda>e. fst (fst e) \<noteq> to_db_path p) (db_write_intents d)\<rparr>)"

section \<open>Staged imports\<close>

definition insert_import_staged_file :: "staged_file_row \<Rightarrow> db \<Rightarrow> db res" where
  "insert_import_staged_file row d =
     bind_res (i64_try_from (sf_import_epoch row)) (\<lambda>epoch.
     bind_res (i64_try_from (sf_action_seq row)) (\<lambda>seq.
     bind_res (staged_file_fingerprint_parts (sf_fingerprint row)) (\<lambda>(_, size, _, _).
     bind_res (i64_try_from size) (\<lambda>_.
     bind_res (datetime_to_unix_ns (sf_staged_at row)) (\<lambda>_.
       if to_db_path (sf_path row) = [] \<or> sf_object_id row = [] \<or> sf_claim_id row = [] \<or>
          bt_get (db_staged d) (epoch, seq) \<noteq> None \<or>
          (\<exists>r\<in>set (map snd (db_staged d)). sf_import_epoch r = epoch \<and>
             (to_db_path (sf_path r) = to_db_path (sf_path row) \<or>
              sf_object_id r = sf_object_id row \<or> sf_claim_id r = sf_claim_id row))
       then Inl Fatal
       else Inr (d\<lparr>db_staged := bt_insert (epoch, seq) row (db_staged d)\<rparr>))))))"

definition select_import_staged_files :: "nat \<Rightarrow> db \<Rightarrow> staged_file_row list res" where
  "select_import_staged_files epoch d =
     bind_res (i64_try_from epoch) (\<lambda>e.
       map_res (\<lambda>r. staged_file_from_sql_row (staged_file_cols_of r))
         (map snd (filter (\<lambda>kv. fst (fst kv) = e) (db_staged d))))"

definition count_import_staged_files :: "nat \<Rightarrow> db \<Rightarrow> nat res" where
  "count_import_staged_files epoch d =
     bind_res (i64_try_from epoch) (\<lambda>e. Inr (length (filter (\<lambda>kv. fst (fst kv) = e) (db_staged d))))"

definition delete_import_staged_files :: "nat \<Rightarrow> db \<Rightarrow> db res" where
  "delete_import_staged_files epoch d =
     bind_res (i64_try_from epoch) (\<lambda>e.
       Inr (d\<lparr>db_staged := filter (\<lambda>kv. fst (fst kv) \<noteq> e) (db_staged d)\<rparr>))"

section \<open>Outbox\<close>

definition reserve_outbox_ids :: "nat \<Rightarrow> db \<Rightarrow> (nat option \<times> db) res" where
  "reserve_outbox_ids n d =
     (if n = 0 then Inr (None, d)
      else
        bind_res (i64_try_from n) (\<lambda>count_i64.
        bind_res (ok_or (db_daemon_state d) InvariantViolation) (\<lambda>r.
        let first = ds_next_outbox_id r
        in if first + count_i64 > i64_max then Inl InvariantViolation
           else Inr (Some first, d\<lparr>db_daemon_state := Some (r\<lparr>ds_next_outbox_id := first + count_i64\<rparr>)\<rparr>))))"

definition insert_outbox_message ::
  "nat \<Rightarrow> shared_message_kind \<Rightarrow> object_id option \<Rightarrow> bytes \<Rightarrow> time_ns \<Rightarrow> db \<Rightarrow> db res" where
  "insert_outbox_message i kind obj payload t d =
     bind_res (datetime_to_unix_ns t) (\<lambda>ns.
     bind_res (i64_try_from i) (\<lambda>i'.
       if bt_get (db_outbox d) i' \<noteq> None \<or>
          \<not> (kind = KNamespaceUpdate \<and> obj = None \<or> kind = KTextUpdate \<and> obj \<noteq> None)
       then Inl Fatal
       else Inr (d\<lparr>db_outbox := bt_insert i'
              \<lparr>out_outbox_id = i', out_record_kind = kind, out_object_id = obj, out_payload = payload,
               out_created_at = ns, out_inflight = False\<rparr> (db_outbox d)\<rparr>)))"

text \<open>Every id of the loop must be the expected one, and the successor must not overflow.\<close>

fun assert_contiguous_from :: "nat \<Rightarrow> outbox_row list \<Rightarrow> unit res" where
  "assert_contiguous_from expected [] = Inr ()"
| "assert_contiguous_from expected (r # rs) =
     (if out_inflight r then Inl InvariantViolation
      else if out_outbox_id r \<noteq> expected then Inl InvariantViolation
      else bind_res (ok_or (checked_add_u64 (out_outbox_id r) 1) InvariantViolation) (\<lambda>e.
             assert_contiguous_from e rs))"

definition assert_contiguous_outbox_rows :: "outbox_row list \<Rightarrow> unit res" where
  "assert_contiguous_outbox_rows rows =
     (case rows of [] \<Rightarrow> Inr () | r # _ \<Rightarrow> assert_contiguous_from (out_outbox_id r) rows)"

definition set_inflight :: "bool \<Rightarrow> outbox_row \<Rightarrow> outbox_row" where
  "set_inflight b r = r\<lparr>out_inflight := b\<rparr>"

definition reserve_outbox_messages :: "nat \<Rightarrow> db \<Rightarrow> ((nat \<times> shared_message) list \<times> db) res" where
  "reserve_outbox_messages limit d =
     bind_res (i64_try_from limit) (\<lambda>limit'.
     bind_res (map_res (\<lambda>r. outbox_from_sql_row (outbox_cols_of r))
                (take limit' (filter (\<lambda>r. \<not> out_inflight r) (map snd (db_outbox d))))) (\<lambda>rows.
     bind_res (assert_contiguous_outbox_rows rows) (\<lambda>_.
     if rows = [] then Inr ([], d)
     else
       bind_res (i64_try_from (out_outbox_id (hd rows))) (\<lambda>first.
       bind_res (i64_try_from (out_outbox_id (List.last rows))) (\<lambda>last.
       let hit = (\<lambda>e. \<not> out_inflight (snd e) \<and> first \<le> fst e \<and> fst e \<le> last);
           updated = length (filter hit (db_outbox d))
       in if updated \<noteq> length rows then Inl InvariantViolation
          else
            bind_res (map_res into_shared_message rows) (\<lambda>msgs.
              Inr (msgs, d\<lparr>db_outbox :=
                map (\<lambda>e. if hit e then (fst e, set_inflight True (snd e)) else e) (db_outbox d)\<rparr>)))))))"

definition trim_outbox :: "nat \<Rightarrow> db \<Rightarrow> db res" where
  "trim_outbox through d =
     bind_res (i64_try_from through) (\<lambda>last.
       Inr (d\<lparr>db_outbox := filter (\<lambda>e. \<not> (fst e \<le> last \<and> out_inflight (snd e))) (db_outbox d)\<rparr>))"

definition release_outbox_messages :: "db \<Rightarrow> (nat \<times> db) res" where
  "release_outbox_messages d =
     Inr (length (filter (\<lambda>e. out_inflight (snd e)) (db_outbox d)),
          d\<lparr>db_outbox := map (\<lambda>(i, r). (i, set_inflight False r)) (db_outbox d)\<rparr>)"

definition count_outbox_inflight :: "db \<Rightarrow> nat res" where
  "count_outbox_inflight d = Inr (length (filter (\<lambda>e. out_inflight (snd e)) (db_outbox d)))"

section \<open>Ignored files\<close>

definition select_ignored_file :: "relative_path \<Rightarrow> db \<Rightarrow> ignored_file_row option res" where
  "select_ignored_file p d =
     (case bt_get (db_ignored d) (to_db_path p) of
        None \<Rightarrow> Inr None
      | Some r \<Rightarrow> map_ok Some (ignored_file_from_sql_row (ignored_file_cols_of r)))"

definition select_all_ignored_files :: "db \<Rightarrow> ignored_file_row list res" where
  "select_all_ignored_files d =
     map_res (\<lambda>r. ignored_file_from_sql_row (ignored_file_cols_of r)) (map snd (db_ignored d))"

definition upsert_ignored_file :: "relative_path \<Rightarrow> ignored_reason \<Rightarrow> file_stat \<Rightarrow> time_ns \<Rightarrow> db \<Rightarrow> db res" where
  "upsert_ignored_file p reason stat t d =
     bind_res (datetime_to_unix_ns (stat_mtime stat)) (\<lambda>_.
     bind_res (datetime_to_unix_ns t) (\<lambda>ns.
     bind_res (i64_try_from (stat_size stat)) (\<lambda>_.
       if to_db_path p = [] then Inl Fatal
       else Inr (d\<lparr>db_ignored := bt_insert (to_db_path p)
              \<lparr>ig_path = p, ig_reason = reason, ig_stat = stat, ig_ignored_at = ns\<rparr> (db_ignored d)\<rparr>))))"

definition delete_ignored_file :: "relative_path \<Rightarrow> db \<Rightarrow> db res" where
  "delete_ignored_file p d = Inr (d\<lparr>db_ignored := bt_remove (to_db_path p) (db_ignored d)\<rparr>)"

definition count_table :: "string \<Rightarrow> db \<Rightarrow> nat res" where
  "count_table table d =
     (if table = ''objects'' then Inr (length (db_objects d))
      else if table = ''stable_namespace'' then Inr (if db_stable_namespace d = None then 0 else 1)
      else if table = ''prior_namespace'' then Inr (if db_prior_namespace d = None then 0 else 1)
      else if table = ''stable_text_objects'' then Inr (length (db_stable_text d))
      else if table = ''prior_text_objects'' then Inr (length (db_prior_text d))
      else if table = ''stable_tree'' then Inr (length (db_stable_tree d))
      else if table = ''prior_tree'' then Inr (length (db_prior_tree d))
      else if table = ''import_staged_files'' then Inr (length (db_staged d))
      else if table = ''outbox'' then Inr (length (db_outbox d))
      else if table = ''ignored_files'' then Inr (length (db_ignored d))
      else Inl InvariantViolation)"

section \<open>Set-up\<close>

definition insert_daemon_state :: "daemon_state_row \<Rightarrow> db \<Rightarrow> db res" where
  "insert_daemon_state row d =
     bind_res (ok_or (i64_from_u64 (ds_stable_cursor row)) Fatal) (\<lambda>_.
     bind_res (ok_or (i64_from_u64 (ds_next_outbox_id row)) Fatal) (\<lambda>_.
       if db_daemon_state d \<noteq> None then Inl Fatal else Inr (d\<lparr>db_daemon_state := Some row\<rparr>)))"

definition insert_empty_namespaces :: "('d, 'sv) ext \<Rightarrow> time_ns \<Rightarrow> db \<Rightarrow> db res" where
  "insert_empty_namespaces X now d =
     (let blob = empty_namespace_state X 1
      in bind_res (insert_stable_namespace blob now d) (insert_prior_namespace blob now))"

definition initialize_database :: "('d, 'sv) ext \<Rightarrow> time_ns \<Rightarrow> daemon_state_row \<Rightarrow> db res" where
  "initialize_database X now row =
     bind_res (insert_daemon_state row empty_db) (insert_empty_namespaces X now)"

definition load_daemon_state_from_db :: "('d, 'sv) ext \<Rightarrow> db \<Rightarrow> daemon_state_row res" where
  "load_daemon_state_from_db X d =
     bind_res (ok_or (db_daemon_state d) Fatal) (\<lambda>row. daemon_state_from_sql_row X (daemon_state_cols_of X row))"

definition init_appears_incomplete :: "db \<Rightarrow> bool" where
  "init_appears_incomplete d =
     (case db_daemon_state d of
        None \<Rightarrow> False
      | Some r \<Rightarrow> ds_stable_cursor r = 0 \<and> length (db_outbox d) > 0)"

definition clear_startup_scratch_tables :: "db \<Rightarrow> db" where
  "clear_startup_scratch_tables d =
     d\<lparr>db_staged := [], db_outbox := map (\<lambda>(i, r). (i, set_inflight False r)) (db_outbox d)\<rparr>"

section \<open>Well-formed databases\<close>

text \<open>A table is in key order, every key is the key of its row, and every row can be read back.\<close>

definition tbl_wf :: "('r \<Rightarrow> 'k :: linorder) \<Rightarrow> ('r \<Rightarrow> bool) \<Rightarrow> ('k, 'r) btree_map \<Rightarrow> bool" where
  "tbl_wf key ok t \<longleftrightarrow> bt_wf t \<and> (\<forall>(k, r)\<in>set t. k = key r \<and> ok r)"

abbreviation st_key :: "stable_tree_row \<Rightarrow> string" where
  "st_key r \<equiv> to_db_path (st_path r)"

abbreviation pt_key :: "prior_tree_row \<Rightarrow> string" where
  "pt_key r \<equiv> to_db_path (pt_path r)"

abbreviation sf_key :: "staged_file_row \<Rightarrow> nat \<times> nat" where
  "sf_key r \<equiv> (sf_import_epoch r, sf_action_seq r)"

definition staged_unique :: "staged_file_row list \<Rightarrow> bool" where
  "staged_unique rs \<longleftrightarrow>
     distinct (map (\<lambda>r. (sf_import_epoch r, to_db_path (sf_path r))) rs) \<and>
     distinct (map (\<lambda>r. (sf_import_epoch r, sf_object_id r)) rs) \<and>
     distinct (map (\<lambda>r. (sf_import_epoch r, sf_claim_id r)) rs)"

definition db_wf :: "db \<Rightarrow> bool" where
  "db_wf d \<longleftrightarrow>
     tbl_wf ob_object_id (\<lambda>r. ob_object_kind r = Text) (db_objects d) \<and>
     bt_wf (db_stable_text d) \<and> bt_wf (db_prior_text d) \<and>
     tbl_wf st_key stable_tree_row_ok (db_stable_tree d) \<and>
     distinct (map (st_claim_id \<circ> snd) (db_stable_tree d)) \<and>
     tbl_wf pt_key prior_tree_row_ok (db_prior_tree d) \<and>
     tbl_wf sf_key staged_file_row_ok (db_staged d) \<and> staged_unique (map snd (db_staged d)) \<and>
     bt_wf (db_write_intents d) \<and> bt_wf (db_applied_intents d) \<and>
     tbl_wf out_outbox_id outbox_row_ok (db_outbox d) \<and>
     tbl_wf (to_db_path \<circ> ig_path) ignored_file_row_ok (db_ignored d)"

text \<open>The write operations as data, what the callers guarantee about their arguments (paths are
  valid, identifiers are not empty, file keys are pairs of 64-bit numbers), and their effect.\<close>

definition fp_ok :: "file_fingerprint \<Rightarrow> bool" where
  "fp_ok f \<longleftrightarrow> file_key_ok (stat_file_key (fp_stat f)) \<and> fp_hash f \<noteq> Some []"

datatype db_op =
    UpdateStableCursor nat nat
  | InsertStableNamespace bytes time_ns
  | InsertPriorNamespace bytes time_ns
  | UpdateStableNamespace bytes time_ns
  | UpdatePriorNamespace bytes time_ns
  | InsertObject object_id object_kind writer_id time_ns
  | InsertOrIgnoreObject object_id object_kind writer_id time_ns
  | InsertStableText object_id bytes time_ns
  | UpsertStableText object_id bytes time_ns
  | InsertPriorText object_id bytes time_ns
  | UpsertPriorText object_id bytes time_ns
  | InsertStableTree relative_path relative_path claim_id object_id time_ns
  | DeleteStableTree
  | DeleteStableTreeFile relative_path
  | InsertPriorTree relative_path relative_path claim_id object_id file_fingerprint time_ns
  | UpsertPriorTree relative_path relative_path claim_id object_id file_fingerprint time_ns
  | TombstonePriorTree relative_path time_ns
  | UpsertWriteIntent relative_path bytes object_id bytes time_ns
  | MarkWriteIntentApplied relative_path file_fingerprint
  | DeleteWriteIntents relative_path
  | InsertStaged staged_file_row
  | DeleteStaged nat
  | ReserveOutboxIds nat
  | InsertOutbox nat shared_message_kind "object_id option" bytes time_ns
  | ReserveOutboxMessages nat
  | TrimOutbox nat
  | ReleaseOutbox
  | UpsertIgnored relative_path ignored_reason file_stat time_ns
  | DeleteIgnored relative_path

fun run_op :: "db_op \<Rightarrow> db \<Rightarrow> db res" where
  "run_op (UpdateStableCursor a b) d = update_stable_cursor a b d"
| "run_op (InsertStableNamespace b t) d = insert_stable_namespace b t d"
| "run_op (InsertPriorNamespace b t) d = insert_prior_namespace b t d"
| "run_op (UpdateStableNamespace b t) d = update_stable_namespace b t d"
| "run_op (UpdatePriorNamespace b t) d = update_prior_namespace b t d"
| "run_op (InsertObject obj k w t) d = insert_object obj k w t d"
| "run_op (InsertOrIgnoreObject obj k w t) d = insert_or_ignore_object obj k w t d"
| "run_op (InsertStableText obj b t) d = insert_stable_text_object obj b t d"
| "run_op (UpsertStableText obj b t) d = upsert_stable_text_object obj b t d"
| "run_op (InsertPriorText obj b t) d = insert_prior_text_object obj b t d"
| "run_op (UpsertPriorText obj b t) d = upsert_prior_text_object obj b t d"
| "run_op (InsertStableTree p q c obj t) d = insert_stable_tree_file p q c obj t d"
| "run_op DeleteStableTree d = delete_stable_tree d"
| "run_op (DeleteStableTreeFile p) d = delete_stable_tree_file p d"
| "run_op (InsertPriorTree p q c obj f t) d = insert_prior_tree_file p q c obj f t d"
| "run_op (UpsertPriorTree p q c obj f t) d = upsert_prior_tree_file p q c obj f t d"
| "run_op (TombstonePriorTree p t) d = tombstone_prior_tree_file p t d"
| "run_op (UpsertWriteIntent p h obj b t) d = upsert_projection_write_intent p h obj b t d"
| "run_op (MarkWriteIntentApplied p f) d = mark_projection_write_intent_applied p f d"
| "run_op (DeleteWriteIntents p) d = delete_projection_write_intents_for_path p d"
| "run_op (InsertStaged r) d = insert_import_staged_file r d"
| "run_op (DeleteStaged e) d = delete_import_staged_files e d"
| "run_op (ReserveOutboxIds n) d = map_ok snd (reserve_outbox_ids n d)"
| "run_op (InsertOutbox i k obj p t) d = insert_outbox_message i k obj p t d"
| "run_op (ReserveOutboxMessages n) d = map_ok snd (reserve_outbox_messages n d)"
| "run_op (TrimOutbox n) d = trim_outbox n d"
| "run_op ReleaseOutbox d = map_ok snd (release_outbox_messages d)"
| "run_op (UpsertIgnored p r s t) d = upsert_ignored_file p r s t d"
| "run_op (DeleteIgnored p) d = delete_ignored_file p d"

fun op_ok :: "db_op \<Rightarrow> bool" where
  "op_ok (InsertStableTree p q c obj t) \<longleftrightarrow> rp_valid p \<and> rp_valid q \<and> c \<noteq> [] \<and> obj \<noteq> []"
| "op_ok (InsertPriorTree p q c obj f t) \<longleftrightarrow> rp_valid p \<and> rp_valid q \<and> c \<noteq> [] \<and> obj \<noteq> [] \<and> fp_ok f"
| "op_ok (UpsertPriorTree p q c obj f t) \<longleftrightarrow> rp_valid p \<and> rp_valid q \<and> c \<noteq> [] \<and> obj \<noteq> [] \<and> fp_ok f"
| "op_ok (InsertStaged r) \<longleftrightarrow> rp_valid (sf_path r) \<and> fp_ok (sf_fingerprint r)"
| "op_ok (InsertOutbox i k obj p t) \<longleftrightarrow> obj \<noteq> Some []"
| "op_ok (UpsertIgnored p r s t) \<longleftrightarrow> rp_valid p \<and> file_key_ok (stat_file_key s)"
| "op_ok _ \<longleftrightarrow> True"

section \<open>Lemmas: tables\<close>

lemma bt_set_insert_subset: "set (bt_insert k v m) \<subseteq> insert (k, v) (set m)"
  by (induction k v m rule: bt_insert.induct) auto

lemma bt_set_remove_subset: "set (bt_remove k m) \<subseteq> set m"
  by (induction k m rule: bt_remove.induct) auto

lemma bt_wf_filter: "bt_wf m \<Longrightarrow> bt_wf (filter P m)"
proof -
  have "sorted_wrt (<) (map fst m) \<Longrightarrow> sorted_wrt (<) (map fst (filter P m))"
    by (induction m) auto
  then show "bt_wf m \<Longrightarrow> bt_wf (filter P m)" by (simp add: bt_wf_def)
qed

lemma tbl_wfD:
  assumes "tbl_wf key ok t"
  shows "bt_wf t" "(k, r) \<in> set t \<Longrightarrow> k = key r" "(k, r) \<in> set t \<Longrightarrow> ok r"
  using assms by (auto simp: tbl_wf_def)

lemma tbl_wf_Nil [simp]: "tbl_wf key ok []"
  by (simp add: tbl_wf_def)

lemma tbl_wf_insert:
  assumes "tbl_wf key ok t" and "key r = k" and "ok r"
  shows "tbl_wf key ok (bt_insert k r t)"
  using assms bt_set_insert_subset [of k r t] by (auto simp: tbl_wf_def bt_wf_insert)

lemma tbl_wf_remove: "tbl_wf key ok t \<Longrightarrow> tbl_wf key ok (bt_remove k t)"
  using bt_set_remove_subset [of k t] by (auto simp: tbl_wf_def bt_wf_remove)

lemma tbl_wf_filter: "tbl_wf key ok t \<Longrightarrow> tbl_wf key ok (filter P t)"
  by (auto simp: tbl_wf_def bt_wf_filter)

lemma tbl_wf_map:
  assumes "tbl_wf key ok t" and "\<And>r. key (f r) = key r" and "\<And>r. ok r \<Longrightarrow> ok (f r)"
  shows "tbl_wf key ok (map (\<lambda>e. if P e then (fst e, f (snd e)) else e) t)"
proof -
  have "map fst (map (\<lambda>e. if P e then (fst e, f (snd e)) else e) t) = map fst t"
    by (induction t) auto
  then have "bt_wf (map (\<lambda>e. if P e then (fst e, f (snd e)) else e) t)"
    using assms(1) by (simp only: bt_wf_def tbl_wf_def)
  with assms show ?thesis by (auto simp: tbl_wf_def split: if_splits)
qed

lemma tbl_get_ok: "tbl_wf key ok t \<Longrightarrow> bt_get t k = Some r \<Longrightarrow> k = key r \<and> ok r"
  using tbl_wfD by (metis bt_get_Some_iff)

lemma bt_insert_new_mset:
  "bt_get m k = None \<Longrightarrow> mset (bt_insert k v m) = add_mset (k, v) (mset m)"
  by (induction k v m rule: bt_insert.induct) (auto simp: bt_get_def split: if_splits)

lemma bt_insert_new_distinct:
  assumes "bt_get m k = None" and "distinct (map f (map snd m))" and "f v \<notin> f ` set (map snd m)"
  shows "distinct (map f (map snd (bt_insert k v m)))"
proof -
  have "mset (map f (map snd (bt_insert k v m))) = mset (map f (map snd ((k, v) # m)))"
    using bt_insert_new_mset [OF assms(1), of v] by (simp add: mset_map)
  then have "distinct (map f (map snd (bt_insert k v m))) = distinct (map f (map snd ((k, v) # m)))"
    by (rule mset_eq_imp_distinct_iff)
  then show ?thesis using assms(2,3) by (simp only: list.map distinct.simps snd_conv list.set_map) blast
qed

lemma distinct_map_snd_remove: "distinct (map (f \<circ> snd) m) \<Longrightarrow> distinct (map (f \<circ> snd) (bt_remove k m))"
proof (induction k m rule: bt_remove.induct)
  case (2 k k' v' m)
  then show ?case using bt_set_remove_subset [of k m] by auto
qed simp

lemma distinct_map_snd_filter: "distinct (map (f \<circ> snd) m) \<Longrightarrow> distinct (map (f \<circ> snd) (filter P m))"
  by (rule distinct_map_filter_snoc)

lemma db_wf_update:
  assumes "db_wf d"
  shows "db_wf (d\<lparr>db_daemon_state := s\<rparr>)" "db_wf (d\<lparr>db_stable_namespace := n\<rparr>)"
    "db_wf (d\<lparr>db_prior_namespace := n\<rparr>)"
    "tbl_wf ob_object_id (\<lambda>r. ob_object_kind r = Text) obs \<Longrightarrow> db_wf (d\<lparr>db_objects := obs\<rparr>)"
    "bt_wf x \<Longrightarrow> db_wf (d\<lparr>db_stable_text := x\<rparr>)" "bt_wf x \<Longrightarrow> db_wf (d\<lparr>db_prior_text := x\<rparr>)"
    "tbl_wf st_key stable_tree_row_ok st \<Longrightarrow> distinct (map (st_claim_id \<circ> snd) st) \<Longrightarrow>
      db_wf (d\<lparr>db_stable_tree := st\<rparr>)"
    "tbl_wf pt_key prior_tree_row_ok pt \<Longrightarrow> db_wf (d\<lparr>db_prior_tree := pt\<rparr>)"
    "tbl_wf sf_key staged_file_row_ok sf \<Longrightarrow> staged_unique (map snd sf) \<Longrightarrow> db_wf (d\<lparr>db_staged := sf\<rparr>)"
    "bt_wf wi \<Longrightarrow> db_wf (d\<lparr>db_write_intents := wi\<rparr>)"
    "bt_wf ai \<Longrightarrow> db_wf (d\<lparr>db_applied_intents := ai\<rparr>)"
    "tbl_wf out_outbox_id outbox_row_ok ob \<Longrightarrow> db_wf (d\<lparr>db_outbox := ob\<rparr>)"
    "tbl_wf (to_db_path \<circ> ig_path) ignored_file_row_ok ig \<Longrightarrow> db_wf (d\<lparr>db_ignored := ig\<rparr>)"
  using assms by (simp_all add: db_wf_def)

lemma db_wfD:
  assumes "db_wf d"
  shows "tbl_wf ob_object_id (\<lambda>r. ob_object_kind r = Text) (db_objects d)"
    "bt_wf (db_stable_text d)" "bt_wf (db_prior_text d)"
    "tbl_wf st_key stable_tree_row_ok (db_stable_tree d)"
    "distinct (map (st_claim_id \<circ> snd) (db_stable_tree d))"
    "tbl_wf pt_key prior_tree_row_ok (db_prior_tree d)"
    "tbl_wf sf_key staged_file_row_ok (db_staged d)" "staged_unique (map snd (db_staged d))"
    "bt_wf (db_write_intents d)" "bt_wf (db_applied_intents d)"
    "tbl_wf out_outbox_id outbox_row_ok (db_outbox d)"
    "tbl_wf (to_db_path \<circ> ig_path) ignored_file_row_ok (db_ignored d)"
  using assms by (simp_all add: db_wf_def)

lemma datetime_to_unix_ns_Inr [res_simps]: "datetime_to_unix_ns t = Inr ns \<longleftrightarrow> i64_range t \<and> ns = t"
  by (auto simp: datetime_to_unix_ns_def)

lemma i64_try_from_Inr [res_simps]: "i64_try_from n = Inr m \<longleftrightarrow> n \<le> i64_max \<and> m = n"
  by (auto simp: i64_try_from_def res_simps i64_from_u64_Some)

lemma fingerprint_parts_Inr [res_simps]:
  "staged_file_fingerprint_parts fp = Inr (k, s, m, h) \<longleftrightarrow>
     (\<exists>stat. fp = StatAndContent stat h \<and> i64_range (stat_mtime stat) \<and>
        k = file_key_encode (stat_file_key stat) \<and> s = stat_size stat \<and> m = stat_mtime stat)"
  by (auto simp: staged_file_fingerprint_parts_def res_simps split: file_fingerprint.splits)

lemma insert_object_wf:
  "db_wf d \<Longrightarrow> insert_object obj k w t d = Inr d' \<Longrightarrow> db_wf d'"
  by (auto simp: insert_object_def res_simps object_row_of_def split: if_splits
      intro!: db_wf_update tbl_wf_insert dest: db_wfD)

lemma insert_or_ignore_object_wf:
  "db_wf d \<Longrightarrow> insert_or_ignore_object obj k w t d = Inr d' \<Longrightarrow> db_wf d'"
  by (auto simp: insert_or_ignore_object_def res_simps object_row_of_def split: if_splits
      intro!: db_wf_update tbl_wf_insert dest: db_wfD)

lemma insert_stable_tree_wf:
  assumes "db_wf d" and "op_ok (InsertStableTree p q c obj t)"
    and "insert_stable_tree_file p q c obj t d = Inr d'"
  shows "db_wf d'"
proof -
  let ?r = "\<lparr>st_path = p, st_claimed_path = q, st_claim_id = c, st_object_id = obj, st_updated_at = t\<rparr>"
  let ?t = "bt_insert (to_db_path p) ?r (db_stable_tree d)"
  from assms(3) have d': "d' = d\<lparr>db_stable_tree := ?t\<rparr>"
    and new: "bt_get (db_stable_tree d) (to_db_path p) = None"
    and claim: "\<forall>r\<in>set (map snd (db_stable_tree d)). st_claim_id r \<noteq> c"
    by (auto simp: insert_stable_tree_file_def res_simps split: if_splits)
  have "tbl_wf st_key stable_tree_row_ok ?t"
    using db_wfD(4) [OF assms(1)] assms(2) by (intro tbl_wf_insert) (auto simp: stable_tree_row_ok_def)
  moreover have "distinct (map st_claim_id (map snd ?t))"
    using new db_wfD(5) [OF assms(1)] claim by (intro bt_insert_new_distinct) auto
  ultimately show ?thesis unfolding d' by (intro db_wf_update [OF assms(1)]) simp_all
qed

lemma prior_row_ok:
  assumes "rp_valid p" "rp_valid q" "c \<noteq> []" "obj \<noteq> []" "fp_ok f"
  shows "pt_key (prior_row_of p q c obj f t) = to_db_path p" "prior_tree_row_ok (prior_row_of p q c obj f t)"
  using assms by (simp_all add: prior_row_of_def prior_tree_row_ok_def fp_ok_def)

lemma upsert_prior_tree_wf:
  assumes "db_wf d" and "rp_valid p \<and> rp_valid q \<and> c \<noteq> [] \<and> obj \<noteq> [] \<and> fp_ok f"
    and "insert_prior_tree_file p q c obj f t d = Inr d' \<or> upsert_prior_tree_file p q c obj f t d = Inr d'"
  shows "db_wf d'"
proof -
  have "d' = d\<lparr>db_prior_tree := bt_insert (to_db_path p) (prior_row_of p q c obj f t) (db_prior_tree d)\<rparr>"
    using assms(3)
    by (auto simp: insert_prior_tree_file_def upsert_prior_tree_file_def res_simps split: if_splits)
  then show ?thesis
    using assms(2) by (auto intro!: db_wf_update [OF assms(1)] tbl_wf_insert db_wfD(6) [OF assms(1)] prior_row_ok)
qed

lemma tombstone_wf:
  assumes "db_wf d" and "tombstone_prior_tree_file p t d = Inr d'"
  shows "db_wf d'"
proof (cases "d' = d")
  case False
  with assms(2) obtain r where r: "bt_get (db_prior_tree d) (to_db_path p) = Some r"
    and "pt_accepted_at r \<le> t"
    and d': "d' = d\<lparr>db_prior_tree := bt_insert (to_db_path p) (r\<lparr>pt_deleted_at := Some t\<rparr>) (db_prior_tree d)\<rparr>"
    by (auto simp: tombstone_prior_tree_file_def res_simps split: option.splits if_splits)
  moreover have "pt_key r = to_db_path p" "prior_tree_row_ok r"
    using tbl_get_ok [OF db_wfD(6) [OF assms(1)] r] by auto
  ultimately show ?thesis
    unfolding d' by (intro db_wf_update [OF assms(1)] tbl_wf_insert db_wfD(6) [OF assms(1)])
      (auto simp: prior_tree_row_ok_def)
qed (use assms in simp)

lemma insert_staged_wf:
  assumes "db_wf d" and "op_ok (InsertStaged r)" and "insert_import_staged_file r d = Inr d'"
  shows "db_wf d'"
proof -
  let ?t = "bt_insert (sf_key r) r (db_staged d)"
  from assms(3) have d': "d' = d\<lparr>db_staged := ?t\<rparr>" and new: "bt_get (db_staged d) (sf_key r) = None"
    and ids: "sf_object_id r \<noteq> []" "sf_claim_id r \<noteq> []"
    and fp: "\<exists>s h. sf_fingerprint r = StatAndContent s h"
    and uniq: "\<forall>x\<in>set (map snd (db_staged d)). sf_import_epoch x = sf_import_epoch r \<longrightarrow>
       to_db_path (sf_path x) \<noteq> to_db_path (sf_path r) \<and> sf_object_id x \<noteq> sf_object_id r \<and>
       sf_claim_id x \<noteq> sf_claim_id r"
    by (auto simp: insert_import_staged_file_def res_simps split: if_splits)
  have "tbl_wf sf_key staged_file_row_ok ?t"
    using db_wfD(7) [OF assms(1)] assms(2) ids fp
    by (intro tbl_wf_insert) (auto simp: staged_file_row_ok_def fp_ok_def)
  moreover have "staged_unique (map snd ?t)"
    using db_wfD(8) [OF assms(1)] uniq new unfolding staged_unique_def
    by (intro conjI bt_insert_new_distinct) (auto simp: image_iff)
  ultimately show ?thesis unfolding d' by (intro db_wf_update [OF assms(1)])
qed

lemma staged_unique_filter: "staged_unique (map snd m) \<Longrightarrow> staged_unique (map snd (filter P m))"
  unfolding staged_unique_def by (simp add: comp_def distinct_map_filter_snoc)

lemma delete_staged_wf: "db_wf d \<Longrightarrow> delete_import_staged_files e d = Inr d' \<Longrightarrow> db_wf d'"
  by (auto simp: delete_import_staged_files_def res_simps
      intro!: db_wf_update tbl_wf_filter staged_unique_filter dest: db_wfD)

lemma insert_outbox_wf:
  assumes "db_wf d" and "obj \<noteq> Some []" and "insert_outbox_message i k obj p t d = Inr d'"
  shows "db_wf d'"
proof -
  let ?r = "\<lparr>out_outbox_id = i, out_record_kind = k, out_object_id = obj, out_payload = p,
      out_created_at = t, out_inflight = False\<rparr>"
  from assms(3) have d': "d' = d\<lparr>db_outbox := bt_insert i ?r (db_outbox d)\<rparr>"
    and kind: "k = KNamespaceUpdate \<and> obj = None \<or> k = KTextUpdate \<and> obj \<noteq> None"
    by (auto simp: insert_outbox_message_def res_simps split: if_splits)
  show ?thesis
    unfolding d' using kind assms(2)
    by (intro db_wf_update [OF assms(1)] tbl_wf_insert db_wfD(11) [OF assms(1)])
      (auto simp: outbox_row_ok_def check_outbox_kind_def)
qed

lemma reserve_outbox_messages_wf:
  assumes "db_wf d" and "reserve_outbox_messages n d = Inr (ms, d')"
  shows "db_wf d'"
proof (cases "d' = d")
  case False
  with assms(2) obtain P where
    "d' = d\<lparr>db_outbox := map (\<lambda>e. if P e then (fst e, set_inflight True (snd e)) else e) (db_outbox d)\<rparr>"
    by (auto simp: reserve_outbox_messages_def res_simps Let_def split: if_splits)
  then show ?thesis
    by (auto intro!: db_wf_update [OF assms(1)] tbl_wf_map db_wfD(11) [OF assms(1)]
        simp: set_inflight_def outbox_row_ok_def)
qed (use assms in simp)

lemma release_outbox_wf: "db_wf d \<Longrightarrow> release_outbox_messages d = Inr (n, d') \<Longrightarrow> db_wf d'"
proof -
  assume wf: "db_wf d" and "release_outbox_messages d = Inr (n, d')"
  then have "d' = d\<lparr>db_outbox := map (\<lambda>e. if True then (fst e, set_inflight False (snd e)) else e) (db_outbox d)\<rparr>"
    by (auto simp: release_outbox_messages_def case_prod_unfold)
  then show "db_wf d'"
    using wf by (auto intro!: db_wf_update tbl_wf_map [where P = "\<lambda>_. True", simplified]
        dest: db_wfD(11) simp: set_inflight_def outbox_row_ok_def)
qed

lemma singleton_ops_wf:
  assumes "db_wf d"
  shows "update_stable_cursor a b d = Inr d' \<Longrightarrow> db_wf d'"
    "insert_stable_namespace blob t d = Inr d' \<Longrightarrow> db_wf d'"
    "insert_prior_namespace blob t d = Inr d' \<Longrightarrow> db_wf d'"
    "update_stable_namespace blob t d = Inr d' \<Longrightarrow> db_wf d'"
    "update_prior_namespace blob t d = Inr d' \<Longrightarrow> db_wf d'"
  using db_wf_update(1-3) [OF assms]
  by (auto simp: update_stable_cursor_def insert_stable_namespace_def insert_prior_namespace_def
    update_stable_namespace_def update_prior_namespace_def res_simps split: option.splits if_splits)

lemma reserve_ids_wf: "db_wf d \<Longrightarrow> reserve_outbox_ids n d = Inr (i, d') \<Longrightarrow> db_wf d'"
  using db_wf_update(1) by (auto simp: reserve_outbox_ids_def res_simps Let_def split: if_splits)

lemma text_ops_wf:
  assumes "db_wf d"
  shows "insert_stable_text_object obj blob t d = Inr d' \<Longrightarrow> db_wf d'"
    "upsert_stable_text_object obj blob t d = Inr d' \<Longrightarrow> db_wf d'"
    "insert_prior_text_object obj blob t d = Inr d' \<Longrightarrow> db_wf d'"
    "upsert_prior_text_object obj blob t d = Inr d' \<Longrightarrow> db_wf d'"
  using db_wf_update(5,6) [OF assms] btree.wf_insert [OF db_wfD(2) [OF assms]] btree.wf_insert [OF db_wfD(3) [OF assms]]
  by (auto simp: insert_stable_text_object_def upsert_stable_text_object_def insert_prior_text_object_def
    upsert_prior_text_object_def res_simps split: if_splits)

lemma intent_ops_wf:
  assumes "db_wf d"
  shows "upsert_projection_write_intent p h obj blob t d = Inr d' \<Longrightarrow> db_wf d'"
    "mark_projection_write_intent_applied p f d = Inr d' \<Longrightarrow> db_wf d'"
    "delete_projection_write_intents_for_path p d = Inr d' \<Longrightarrow> db_wf d'"
proof -
  show "upsert_projection_write_intent p h obj blob t d = Inr d' \<Longrightarrow> db_wf d'"
    using db_wf_update(10) [OF assms] btree.wf_insert [OF db_wfD(9) [OF assms]]
    by (auto simp: upsert_projection_write_intent_def res_simps split: if_splits)
  show "mark_projection_write_intent_applied p f d = Inr d' \<Longrightarrow> db_wf d'"
    using db_wf_update(11) [OF assms] btree.wf_insert [OF db_wfD(10) [OF assms]] assms
    by (auto simp: mark_projection_write_intent_applied_def res_simps split: if_splits)
  show "db_wf d'" if "delete_projection_write_intents_for_path p d = Inr d'"
  proof -
    have "d' = (d\<lparr>db_applied_intents := filter (\<lambda>e. fst (fst e) \<noteq> to_db_path p) (db_applied_intents d)\<rparr>)
        \<lparr>db_write_intents := filter (\<lambda>e. fst (fst e) \<noteq> to_db_path p) (db_write_intents d)\<rparr>"
      using that by (simp add: delete_projection_write_intents_for_path_def)
    then show ?thesis
      using db_wfD(9,10) [OF assms] by (auto intro!: db_wf_update bt_wf_filter assms)
  qed
qed

lemma delete_ops_wf:
  assumes "db_wf d"
  shows "delete_stable_tree d = Inr d' \<Longrightarrow> db_wf d'"
    "delete_stable_tree_file p d = Inr d' \<Longrightarrow> db_wf d'"
    "trim_outbox n d = Inr d' \<Longrightarrow> db_wf d'"
    "delete_ignored_file p d = Inr d' \<Longrightarrow> db_wf d'"
proof -
  show "delete_stable_tree d = Inr d' \<Longrightarrow> db_wf d'"
    using db_wf_update(7) [OF assms, of "[]"] by (auto simp: delete_stable_tree_def)
  show "delete_stable_tree_file p d = Inr d' \<Longrightarrow> db_wf d'"
    using db_wfD(4,5) [OF assms]
    by (auto simp: delete_stable_tree_file_def intro!: db_wf_update [OF assms] tbl_wf_remove distinct_map_snd_remove)
  show "trim_outbox n d = Inr d' \<Longrightarrow> db_wf d'"
    using db_wfD(11) [OF assms] by (auto simp: trim_outbox_def res_simps intro!: db_wf_update [OF assms] tbl_wf_filter)
  show "delete_ignored_file p d = Inr d' \<Longrightarrow> db_wf d'"
    using db_wfD(12) [OF assms] by (auto simp: delete_ignored_file_def intro!: db_wf_update [OF assms] tbl_wf_remove)
qed

lemma upsert_ignored_wf:
  assumes "db_wf d" and "rp_valid p" and "file_key_ok (stat_file_key s)"
    and "upsert_ignored_file p r s t d = Inr d'"
  shows "db_wf d'"
  using assms(2-) db_wfD(12) [OF assms(1)]
  by (auto simp: upsert_ignored_file_def res_simps ignored_file_row_ok_def split: if_splits
      intro!: db_wf_update [OF assms(1)] tbl_wf_insert)

lemmas ops_wf = singleton_ops_wf text_ops_wf intent_ops_wf delete_ops_wf insert_object_wf
  insert_or_ignore_object_wf tombstone_wf insert_staged_wf [simplified] delete_staged_wf insert_outbox_wf
  upsert_ignored_wf insert_stable_tree_wf [simplified]

section \<open>Properties\<close>

text \<open>Every write of the transaction layer keeps the database well-formed: tables stay in key
  order with keys that match their rows, every row can still be read back, no claim owns two
  stable paths, and no path, object or claim is staged twice in one import epoch.\<close>

theorem store_ops_preserve_wf:
  assumes "db_wf d" and "op_ok op" and "run_op op d = Inr d'"
  shows "db_wf d'"
  using assms(2,3)
  by (cases op) (simp_all add: ops_wf [OF assms(1)] upsert_prior_tree_wf [OF assms(1)] map_ok_eq_Inr,
      (blast dest: reserve_ids_wf [OF assms(1)] reserve_outbox_messages_wf [OF assms(1)]
        release_outbox_wf [OF assms(1)] upsert_ignored_wf [OF assms(1)]
        intro: upsert_prior_tree_wf [OF assms(1)])+)

theorem store_ops_preserve_wf_witness:
  "db_wf (projr (run_op (InsertStableTree (RelativePath [''a'']) (RelativePath [''a'']) ''c'' ''o'' 5) empty_db))"
proof (rule store_ops_preserve_wf)
  show "db_wf empty_db" by (simp add: db_wf_def empty_db_def staged_unique_def)
  show "op_ok (InsertStableTree (RelativePath [''a'']) (RelativePath [''a'']) ''c'' ''o'' 5)"
    by (simp add: rp_valid_def component_valid_def)
  show "run_op (InsertStableTree (RelativePath [''a'']) (RelativePath [''a'']) ''c'' ''o'' 5) empty_db =
      Inr (projr (run_op (InsertStableTree (RelativePath [''a'']) (RelativePath [''a'']) ''c'' ''o'' 5) empty_db))"
    by (simp add: insert_stable_tree_file_def datetime_to_unix_ns_def i64_range_def i64_max_def
        empty_db_def to_db_path_def)
qed

end
