(* ===== verification/Text_Doc.thy ===== *)
theory Text_Doc
  imports External
begin

text \<open>
  Text objects, \<open>crates/core/src/crdt/text_doc.rs\<close>: one \<open>yrs\<close> document per shared file, whose
  local edits are captured by diffing the accepted text against the new one and replaying
  the diff as insertions and removals. The \<open>u32\<close> casts and sums of the replay loop wrap (release
  arithmetic). The two \<open>f64\<close> thresholds are compared as integers: \<open>max_run \<ge> old_len * (1/3)\<close> is
  \<open>3 * max_run \<ge> old_len\<close> and \<open>significant / old_len < 0.5\<close> is \<open>2 * significant < old_len\<close>, which
  agree with the floating-point tests for the sizes a file in memory can have (both
  operands are exact below 2^52, and the rounding of \<open>1/3\<close> is below the spacing of thirds).
  The properties show that both replay modes produce the new text.
\<close>

record text_doc_state =
  tds_text :: string
  tds_full_state_bytes :: bytes

record text_capture =
  tc_update_bytes :: bytes
  tc_full_state_bytes :: bytes
  tc_text :: string

definition td_new :: "('d, 'sv) ext \<Rightarrow> nat \<Rightarrow> 'd" where
  "td_new X client_id = doc_new X client_id"

definition td_from_text :: "('d, 'sv) ext \<Rightarrow> nat \<Rightarrow> string \<Rightarrow> 'd" where
  "td_from_text X client_id initial =
     (let d = td_new X client_id
      in if initial \<noteq> [] then text_insert X 0 initial d else d)"

definition td_from_full_state :: "('d, 'sv) ext \<Rightarrow> nat \<Rightarrow> bytes \<Rightarrow> 'd res" where
  "td_from_full_state X client_id state =
     (if state = [] then Inr (td_new X client_id)
      else ok_or (doc_apply_v2 X state (doc_new X client_id)) Fatal)"

definition td_get_text :: "('d, 'sv) ext \<Rightarrow> 'd \<Rightarrow> string" where
  "td_get_text X d = text_get_string X d"

definition td_encode_update_since :: "('d, 'sv) ext \<Rightarrow> 'sv \<Rightarrow> 'd \<Rightarrow> bytes" where
  "td_encode_update_since X sv d = doc_encode_v2 X sv d"

definition td_encode_full_state :: "('d, 'sv) ext \<Rightarrow> 'd \<Rightarrow> bytes" where
  "td_encode_full_state X d = td_encode_update_since X (sv_default X) d"

definition td_apply_update :: "('d, 'sv) ext \<Rightarrow> bytes \<Rightarrow> 'd \<Rightarrow> 'd res" where
  "td_apply_update X u d = ok_or (doc_apply_v2 X u d) Fatal"

definition u32 :: "nat \<Rightarrow> nat" where
  "u32 n = n mod 2 ^ 32"

definition min_significant_run :: nat where
  "min_significant_run = 3"

text \<open>The measuring loop keeps (maximal run, significant bytes, current run).\<close>

fun close_run :: "nat \<times> nat \<times> nat \<Rightarrow> nat \<times> nat \<times> nat" where
  "close_run (max_run, significant, current) =
     (if current > max_run then current else max_run,
      if current \<ge> min_significant_run then significant + current else significant,
      0)"

fun measure_change :: "change_tag \<times> string \<Rightarrow> nat \<times> nat \<times> nat \<Rightarrow> nat \<times> nat \<times> nat" where
  "measure_change (tag, value) (max_run, significant, current) =
     (if tag = Equal then (max_run, significant, current + length value)
      else close_run (max_run, significant, current))"

definition measure_runs :: "(change_tag \<times> string) list \<Rightarrow> nat \<times> nat" where
  "measure_runs changes =
     (case close_run (fold measure_change changes (0, 0, 0)) of
        (max_run, significant, _) \<Rightarrow> (max_run, significant))"

definition use_blunt :: "string \<Rightarrow> (change_tag \<times> string) list \<Rightarrow> bool" where
  "use_blunt old changes \<longleftrightarrow>
     length old > 0 \<and>
     (case measure_runs changes of (max_run, significant) \<Rightarrow>
        \<not> (3 * max_run \<ge> length old) \<and> 2 * significant < length old)"

definition run_of :: "change_tag \<Rightarrow> (change_tag \<times> string) list \<Rightarrow> string" where
  "run_of tag changes = concat (map snd (takeWhile (\<lambda>c. fst c = tag) changes))"

text \<open>The replay loop: maximal runs of one tag are replayed as one operation.\<close>

function replay ::
  "('d, 'sv) ext \<Rightarrow> (change_tag \<times> string) list \<Rightarrow> nat \<Rightarrow> 'd \<Rightarrow> 'd" where
  "replay X [] pos d = d"
| "replay X (c # cs) pos d =
     (let run = run_of (fst c) (c # cs);
          rest = dropWhile (\<lambda>e. fst e = fst c) (c # cs);
          n = u32 (length run)
      in case fst c of
           Equal \<Rightarrow> replay X rest (u32 (pos + n)) d
         | Delete \<Rightarrow> replay X rest pos (text_remove_range X pos n d)
         | Insert \<Rightarrow> replay X rest (u32 (pos + n)) (text_insert X pos run d))"
  by pat_completeness auto

termination
  by (relation "measure (\<lambda>(X, cs, pos, d). length cs)") (auto simp: le_imp_less_Suc length_dropWhile_le)

definition apply_string_diff :: "('d, 'sv) ext \<Rightarrow> string \<Rightarrow> string \<Rightarrow> 'd \<Rightarrow> 'd" where
  "apply_string_diff X old new d =
     (let changes = diff_chars X old new
      in if use_blunt old changes then
           (let d1 = text_remove_range X 0 (u32 (length old)) d
            in if new \<noteq> [] then text_insert X 0 new d1 else d1)
         else replay X changes 0 d)"

definition td_capture_text_change ::
  "('d, 'sv) ext \<Rightarrow> string \<Rightarrow> string \<Rightarrow> 'd \<Rightarrow> text_capture option" where
  "td_capture_text_change X old new d =
     (if old = new then None
      else let sv = doc_state_vector X d;
               d' = apply_string_diff X old new d
           in Some \<lparr>tc_update_bytes = td_encode_update_since X sv d',
                    tc_full_state_bytes = td_encode_full_state X d',
                    tc_text = td_get_text X d'\<rparr>)"

definition empty_text_state :: "('d, 'sv) ext \<Rightarrow> nat \<Rightarrow> bytes" where
  "empty_text_state X client_id = td_encode_full_state X (td_new X client_id)"

definition text_state_from_content :: "('d, 'sv) ext \<Rightarrow> nat \<Rightarrow> string \<Rightarrow> bytes" where
  "text_state_from_content X client_id content = td_encode_full_state X (td_from_text X client_id content)"

definition decode_text_state :: "('d, 'sv) ext \<Rightarrow> nat \<Rightarrow> bytes \<Rightarrow> text_doc_state res" where
  "decode_text_state X client_id state =
     bind_res (td_from_full_state X client_id state) (\<lambda>d.
       Inr \<lparr>tds_text = td_get_text X d, tds_full_state_bytes = td_encode_full_state X d\<rparr>)"

definition apply_text_update :: "('d, 'sv) ext \<Rightarrow> nat \<Rightarrow> bytes \<Rightarrow> bytes \<Rightarrow> text_doc_state res" where
  "apply_text_update X ro_id base u =
     bind_res (td_from_full_state X ro_id base) (\<lambda>d.
     bind_res (td_apply_update X u d) (\<lambda>d'.
       Inr \<lparr>tds_text = td_get_text X d', tds_full_state_bytes = td_encode_full_state X d'\<rparr>))"

definition td_encode_state_delta :: "('d, 'sv) ext \<Rightarrow> nat \<Rightarrow> nat \<Rightarrow> bytes \<Rightarrow> bytes \<Rightarrow> bytes res" where
  "td_encode_state_delta X id1 id2 base next =
     bind_res (td_from_full_state X id1 base) (\<lambda>b.
     bind_res (td_from_full_state X id2 next) (\<lambda>n.
       Inr (td_encode_update_since X (doc_state_vector X b) n)))"

definition capture_text_change ::
  "('d, 'sv) ext \<Rightarrow> nat \<Rightarrow> bytes \<Rightarrow> string \<Rightarrow> string \<Rightarrow> text_capture option res" where
  "capture_text_change X client_id base old new =
     bind_res (td_from_full_state X client_id base) (\<lambda>d.
       Inr (td_capture_text_change X old new d))"

section \<open>Lemmas\<close>

definition old_text :: "(change_tag \<times> string) list \<Rightarrow> string" where
  "old_text cs = concat (map snd (filter (\<lambda>c. fst c \<noteq> Insert) cs))"

definition new_text :: "(change_tag \<times> string) list \<Rightarrow> string" where
  "new_text cs = concat (map snd (filter (\<lambda>c. fst c \<noteq> Delete) cs))"

lemma u32_id: "n < 2 ^ 32 \<Longrightarrow> u32 n = n"
  by (simp add: u32_def)

lemma run_filter:
  "concat (map snd (filter (\<lambda>c. fst c \<noteq> t) cs)) =
     (if tag = t then [] else run_of tag cs) @
     concat (map snd (filter (\<lambda>c. fst c \<noteq> t) (dropWhile (\<lambda>e. fst e = tag) cs)))"
  by (induction cs) (auto simp: run_of_def)

lemmas run_texts =
  run_filter [of Insert, folded old_text_def] run_filter [of Delete, folded new_text_def]

lemma text_edit_okD:
  assumes "text_edit_ok X"
  shows "i \<le> length (text_get_string X d) \<Longrightarrow> text_get_string X (text_insert X i s d) =
           take i (text_get_string X d) @ s @ drop i (text_get_string X d)"
    and "i + n \<le> length (text_get_string X d) \<Longrightarrow> text_get_string X (text_remove_range X i n d) =
           take i (text_get_string X d) @ drop (i + n) (text_get_string X d)"
  using assms by (simp_all add: text_edit_ok_def)

lemma replay_text:
  assumes "text_edit_ok X" and "text_get_string X d = pre @ old_text cs"
    and "length pre = pos"
    and "length (old_text cs) < 2 ^ 32"
    and "length pre + length (new_text cs) < 2 ^ 32"
  shows "text_get_string X (replay X cs pos d) = pre @ new_text cs"
  using assms
proof (induction X cs pos d arbitrary: pre rule: replay.induct)
  case (1 X pos d)
  then show ?case by (simp add: old_text_def new_text_def)
next
  case (2 X c cs pos d)
  define run where "run = run_of (fst c) (c # cs)"
  define rest where "rest = dropWhile (\<lambda>e. fst e = fst c) (c # cs)"
  note folds = run_def [symmetric] rest_def [symmetric]
  have old: "old_text (c # cs) = (if fst c = Insert then [] else run) @ old_text rest"
    and nw: "new_text (c # cs) = (if fst c = Delete then [] else run) @ new_text rest"
    unfolding run_def rest_def by (rule run_texts)+
  have n: "u32 (length run) = length run"
    using 2(7,8) old nw by (intro u32_id) (auto split: if_splits)
  note tx = 2(5) and len = 2(6)
  have step: "replay X (c # cs) pos d =
      (case fst c of
         Equal \<Rightarrow> replay X rest (u32 (pos + length run)) d
       | Delete \<Rightarrow> replay X rest pos (text_remove_range X pos (length run) d)
       | Insert \<Rightarrow> replay X rest (u32 (pos + length run)) (text_insert X pos run d))"
    by (simp only: replay.simps Let_def folds n)
  show ?case
  proof (cases "fst c")
    case Equal
    then have "u32 (pos + length run) = pos + length run"
      using 2(6,8) nw by (intro u32_id) auto
    then show ?thesis
      using 2(1) [OF refl refl refl, unfolded folds, of "pre @ run"] 2(4-8) Equal old nw
      by (simp add: n step del: replay.simps)
  next
    case Delete
    have "text_get_string X (text_remove_range X pos (length run) d) = pre @ old_text rest"
      using text_edit_okD(2) [OF 2(4), of pos "length run" d] tx len old Delete by simp
    then show ?thesis
      using 2(2) [OF refl refl refl, unfolded folds, of pre] 2(4-8) Delete old nw
      by (simp add: n step del: replay.simps)
  next
    case Insert
    have "text_get_string X (text_insert X pos run d) = (pre @ run) @ old_text rest"
      using text_edit_okD(1) [OF 2(4), of pos d run] tx len old Insert by simp
    moreover have "u32 (pos + length run) = pos + length run"
      using 2(6,8) nw Insert by (intro u32_id) auto
    ultimately show ?thesis
      using 2(3) [OF refl refl refl, unfolded folds, of "pre @ run"] 2(4-8) Insert old nw
      by (simp add: n step del: replay.simps)
  qed
qed

lemma td_from_full_state_text:
  "td_from_full_state X client_id state = Inr d \<Longrightarrow> decode_text_state X client_id state =
     Inr \<lparr>tds_text = text_get_string X d, tds_full_state_bytes = td_encode_full_state X d\<rparr>"
  by (simp add: decode_text_state_def td_get_text_def)

lemma apply_string_diff_text:
  assumes "text_edit_ok X" and "diff_ok X" and "text_get_string X d = old"
    and "length old < 2 ^ 32" and "length new < 2 ^ 32"
  shows "text_get_string X (apply_string_diff X old new d) = new"
proof (cases "use_blunt old (diff_chars X old new)")
  case True
  have "text_get_string X (text_remove_range X 0 (length old) d) = []"
    using text_edit_okD(2) [OF assms(1), of 0 "length old" d] assms(3) by simp
  moreover have "text_get_string X (text_insert X 0 new e) = new" if "text_get_string X e = []" for e
    using text_edit_okD(1) [OF assms(1), of 0 e new] that by simp
  ultimately show ?thesis
    using True assms(4) by (simp add: apply_string_diff_def u32_id Let_def)
next
  case False
  have "old_text (diff_chars X old new) = old" "new_text (diff_chars X old new) = new"
    using assms(2) by (simp_all add: diff_ok_def old_text_def new_text_def)
  then have "text_get_string X (replay X (diff_chars X old new) 0 d) = [] @ new"
    using replay_text [OF assms(1), of d "[]" "diff_chars X old new" 0] assms(3-) by simp
  with False show ?thesis by (simp add: apply_string_diff_def)
qed

text \<open>(C39) Capturing a local edit: whichever replay mode the run measurements choose, the document
  of the base state ends up with exactly the new text, and the captured update is the
  difference to the state before; an unchanged text captures nothing.\<close>

theorem capture_text_change_result:
  assumes "text_edit_ok X" and "diff_ok X" and "td_from_full_state X client_id base = Inr d"
    and "text_get_string X d = old" and "length old < 2 ^ 32" and "length new < 2 ^ 32"
  shows "capture_text_change X client_id base old new =
     Inr (if old = new then None
          else let d' = apply_string_diff X old new d
               in Some \<lparr>tc_update_bytes = doc_encode_v2 X (doc_state_vector X d) d',
                        tc_full_state_bytes = doc_encode_v2 X (sv_default X) d',
                        tc_text = new\<rparr>)"
  using assms(3) apply_string_diff_text [OF assms(1,2,4-)]
  by (simp add: capture_text_change_def td_capture_text_change_def td_get_text_def Let_def
      td_encode_full_state_def td_encode_update_since_def)

theorem capture_text_change_result_witness:
  "capture_text_change (demo_ext (\<lambda>_. [])) 7 ''hello'' ''hello'' ''help'' =
     Inr (Some \<lparr>tc_update_bytes = ''help'', tc_full_state_bytes = ''help'', tc_text = ''help''\<rparr>)"
proof -
  let ?X = "demo_ext (\<lambda>_. [])"
  have d: "td_from_full_state ?X 7 ''hello'' = Inr ([], ''hello'')"
    by (simp add: demo_ext_def td_from_full_state_def)
  have tx: "text_get_string ?X ([], ''hello'') = ''hello''"
    by (simp add: demo_ext_def)
  have short: "length ''hello'' < 2 ^ 32" "length ''help'' < 2 ^ 32" by simp_all
  have "text_get_string ?X (apply_string_diff ?X ''hello'' ''help'' ([], ''hello'')) = ''help''"
    by (rule apply_string_diff_text [OF demo_ext_ok(6,7) tx short])
  then show ?thesis
    using capture_text_change_result [OF demo_ext_ok(6,7) d tx short]
    by (simp add: demo_ext_def)
qed

end
