(* ===== verification/Service.thy ===== *)
theory Service
  imports Store Text_Doc
begin

text \<open>
  The semantic service, \<open>semantic/service.rs\<close>, with the request types of \<open>semantic/types.rs\<close>: the
  bodies of its transactions as functions on the database that fail or return a new database,
  statement by statement, and the retry loop \<open>exec_tx\<close> around them. The wall clock, generated
  identifiers and read-only client ids are arguments. Tracing is left out.
\<close>

section \<open>Types of the requests\<close>

type_synonym action_id = "nat \<times> nat"

datatype import_action_kind = Read relative_path file_fingerprint | Stat relative_path

record import_action =
  ia_id :: action_id
  ia_kind :: import_action_kind

record import_epoch_started =
  ies_epoch :: nat
  ies_actions :: "import_action list"

datatype projection_action_kind =
    WriteFile relative_path bytes expected_before
  | DeleteFile relative_path expected_before

record commit_context =
  cc_path :: relative_path
  cc_claimed_path :: relative_path
  cc_claim_id :: claim_id
  cc_object_id :: object_id
  cc_target_text_doc_blob :: "bytes option"

record projection_action =
  pa_id :: action_id
  pa_kind :: projection_action_kind
  pa_commit_context :: commit_context

record projection_epoch_started =
  pes_epoch :: nat
  pes_generation :: nat
  pes_target_namespace_doc_blob :: bytes
  pes_actions :: "projection_action list"

datatype next_work =
    NoWork
  | Import import_epoch_started
  | Project projection_epoch_started

text \<open>A read that failed: with \<open>PermissionDenied\<close> of the file system, or otherwise.\<close>

datatype import_read_outcome =
    Completed guarded_read_result
  | ReadPermissionDenied
  | ReadFailed

datatype import_action_result =
    ReadResult action_id import_read_outcome
  | StatResult action_id

fun import_result_action_id :: "import_action_result \<Rightarrow> action_id" where
  "import_result_action_id (ReadResult i _) = i"
| "import_result_action_id (StatResult i) = i"

fun invalidates_import :: "import_action_result \<Rightarrow> bool" where
  "invalidates_import (ReadResult _ (Completed (ChangedBetweenStats _ _))) = True"
| "invalidates_import (ReadResult _ (Completed (ConflictBeforeRead _))) = True"
| "invalidates_import _ = False"

datatype projection_action_result =
    WriteFileResult action_id guarded_write_result
  | DeleteFileResult action_id guarded_delete_result
  | ProjectionFailed action_id

fun projection_result_action_id :: "projection_action_result \<Rightarrow> action_id" where
  "projection_result_action_id (WriteFileResult i _) = i"
| "projection_result_action_id (DeleteFileResult i _) = i"
| "projection_result_action_id (ProjectionFailed i) = i"

fun invalidates_projection :: "projection_action_result \<Rightarrow> bool" where
  "invalidates_projection (WriteFileResult _ (Written _)) = False"
| "invalidates_projection (WriteFileResult _ (AlreadyApplied _)) = False"
| "invalidates_projection (DeleteFileResult _ Deleted) = False"
| "invalidates_projection (DeleteFileResult _ AlreadyDeleted) = False"
| "invalidates_projection (WriteFileResult _ _) = True"
| "invalidates_projection (DeleteFileResult _ _) = True"
| "invalidates_projection (ProjectionFailed _) = True"

datatype end_reason = PlanExhausted | ActionInvalidatedProjection action_id

datatype import_epoch_kind = Init | Sync

record import_action_context =
  iac_epoch_kind :: import_epoch_kind
  iac_action_kind :: import_action_kind

record completed_import_action =
  cia_action_id :: action_id
  cia_action_kind :: import_action_kind

record completed_import_epoch =
  cie_epoch :: nat
  cie_kind :: import_epoch_kind
  cie_actions :: "completed_import_action list"

record completed_projection_action =
  cpa_action_id :: action_id
  cpa_commit_context :: commit_context
  cpa_result :: projection_action_result

record completed_projection_epoch =
  cpe_epoch :: nat
  cpe_generation :: nat
  cpe_target_namespace_doc_blob :: bytes
  cpe_actions :: "completed_projection_action list"

record semantic_effects =
  eff_projection_changed :: "nat option"
  eff_outbox_ready :: "nat option"

definition no_effects :: semantic_effects where
  "no_effects = \<lparr>eff_projection_changed = None, eff_outbox_ready = None\<rparr>"

definition nonzero_u64 :: "nat \<Rightarrow> nat option" where
  "nonzero_u64 n = (if n = 0 then None else Some n)"

section \<open>Constants and client ids\<close>

definition max_sync_file_size :: nat where
  "max_sync_file_size = 20 * 1024 * 1024"

definition turso_retry_attempts :: nat where
  "turso_retry_attempts = 25"

text \<open>Durations in milliseconds.\<close>

definition turso_retry_delay :: "nat \<Rightarrow> nat" where
  "turso_retry_delay attempt = min (10 * 2 ^ min attempt 5) 250"

definition recent_tombstone_reuse_window_ns :: int where
  "recent_tombstone_reuse_window_ns = 5 * 60 * 1000000000"

definition client_id_for_writer :: "writer_id \<Rightarrow> nat" where
  "client_id_for_writer w =
     (let bytes = take 4 (take 4 w @ replicate 4 (CHR 0x00));
          i = foldl (\<lambda>acc b. acc * 256 + of_char b) 0 bytes
      in if i = 0 then 1 else i)"

definition xxh3_be_bytes :: "('d, 'sv) ext \<Rightarrow> bytes \<Rightarrow> bytes" where
  "xxh3_be_bytes X b =
     map (\<lambda>i. char_of (xxh3_64 X b div 256 ^ (7 - i) mod 256)) [0..<8]"

section \<open>The retry loop\<close>

text \<open>
  \<open>begin_fault k\<close> and \<open>commit_fault k\<close> are the errors \<open>turso\<close> reports at BEGIN and COMMIT of attempt
  \<open>k\<close>, if any; the body may fail differently in each attempt. A failed attempt is rolled back,
  so the database of the next attempt is the one the loop started with.
\<close>

function exec_tx_from ::
  "(nat \<Rightarrow> error option) \<Rightarrow> (nat \<Rightarrow> error option) \<Rightarrow> (nat \<Rightarrow> db \<Rightarrow> ('a \<times> db) res) \<Rightarrow> nat \<Rightarrow> db \<Rightarrow> 'a res \<times> db" where
  "exec_tx_from begin_fault commit_fault body attempt d =
     (case begin_fault attempt of
        Some e \<Rightarrow>
          if e = TursoRetryable \<and> attempt < turso_retry_attempts
          then exec_tx_from begin_fault commit_fault body (attempt + 1) d
          else (Inl e, d)
      | None \<Rightarrow>
          (case bind_res (body attempt d) (\<lambda>r. case commit_fault attempt of None \<Rightarrow> Inr r | Some e \<Rightarrow> Inl e) of
             Inr (v, d') \<Rightarrow> (Inr v, d')
           | Inl e \<Rightarrow>
               if e = TursoRetryable \<and> attempt < turso_retry_attempts
               then exec_tx_from begin_fault commit_fault body (attempt + 1) d
               else (Inl e, d)))"
  by pat_completeness auto

termination
  by (relation "measure (\<lambda>(b, c, f, attempt, d). turso_retry_attempts - attempt)") auto

declare exec_tx_from.simps [simp del]

definition exec_tx ::
  "(nat \<Rightarrow> error option) \<Rightarrow> (nat \<Rightarrow> error option) \<Rightarrow> (nat \<Rightarrow> db \<Rightarrow> ('a \<times> db) res) \<Rightarrow> db \<Rightarrow> 'a res \<times> db" where
  "exec_tx begin_fault commit_fault body d = exec_tx_from begin_fault commit_fault body 0 d"

section \<open>The stable projection\<close>

record desired_stable_tree_file =
  dst_claimed_path :: relative_path
  dst_claim_id :: claim_id
  dst_object_id :: object_id

definition stable_tree_row_matches_desired :: "stable_tree_row \<Rightarrow> desired_stable_tree_file \<Rightarrow> bool" where
  "stable_tree_row_matches_desired row desired \<longleftrightarrow>
     st_claimed_path row = dst_claimed_path desired \<and> st_claim_id row = dst_claim_id desired \<and>
     st_object_id row = dst_object_id desired"

definition ensure_confirmed_object :: "time_ns \<Rightarrow> confirmed_object \<Rightarrow> db \<Rightarrow> db res" where
  "ensure_confirmed_object t obj d =
     (if meta_kind (co_meta obj) = Text
      then insert_or_ignore_object (co_object_id obj) Text (meta_creator (co_meta obj)) t d
      else Inl InvariantViolation)"

text \<open>\<open>BTreeMap::insert\<close> with the check that no value was replaced.\<close>

definition insert_unique ::
  "'k :: linorder \<Rightarrow> 'v \<Rightarrow> ('k, 'v) btree_map \<Rightarrow> ('k, 'v) btree_map res" where
  "insert_unique k v m = (if bt_get m k \<noteq> None then Inl InvariantViolation else Inr (bt_insert k v m))"

definition add_desired ::
  "desired_placement \<Rightarrow> (relative_path, desired_stable_tree_file) btree_map \<Rightarrow>
     (relative_path, desired_stable_tree_file) btree_map res" where
  "add_desired p m =
     (if dp_kind p = Text
      then insert_unique (dp_path p)
        \<lparr>dst_claimed_path = dp_claimed_path p, dst_claim_id = dp_claim_id p, dst_object_id = dp_object_id p\<rparr> m
      else Inl InvariantViolation)"

definition stable_delta_deletes ::
  "(relative_path, stable_tree_row) btree_map \<Rightarrow> (relative_path, desired_stable_tree_file) btree_map \<Rightarrow>
     relative_path list" where
  "stable_delta_deletes current desired =
     map fst (filter (\<lambda>(path, row).
        case bt_get desired path of
          None \<Rightarrow> True
        | Some want \<Rightarrow> \<not> stable_tree_row_matches_desired row want) current)"

definition stable_delta_inserts ::
  "(relative_path, stable_tree_row) btree_map \<Rightarrow> (relative_path, desired_stable_tree_file) btree_map \<Rightarrow>
     (relative_path \<times> desired_stable_tree_file) list" where
  "stable_delta_inserts current desired =
     List.map_filter (\<lambda>(path, row).
        case bt_get desired path of
          None \<Rightarrow> None
        | Some want \<Rightarrow> if stable_tree_row_matches_desired row want then None else Some (path, want)) current @
     filter (\<lambda>(path, want). bt_get current path = None) desired"

definition write_stable_namespace_projection_tx ::
  "('d, 'sv) ext \<Rightarrow> 'd \<Rightarrow> time_ns \<Rightarrow> db \<Rightarrow> db res" where
  "write_stable_namespace_projection_tx X doc updated_at d =
     bind_res (materialize_namespace X doc) (\<lambda>projection.
     bind_res (update_stable_namespace (ns_encode_full_state X doc) updated_at d) (\<lambda>d1.
     bind_res (fold_res (ensure_confirmed_object updated_at) (np_confirmed_objects projection) d1) (\<lambda>d2.
     bind_res (fold_res add_desired (np_placements projection) []) (\<lambda>desired_tree.
     bind_res (select_stable_tree_files d2) (\<lambda>rows.
     bind_res (fold_res (\<lambda>row. insert_unique (st_path row) row) rows []) (\<lambda>current_tree.
     bind_res (fold_res delete_stable_tree_file (stable_delta_deletes current_tree desired_tree) d2)
       (fold_res (\<lambda>(path, want).
           insert_stable_tree_file path (dst_claimed_path want) (dst_claim_id want) (dst_object_id want) updated_at)
         (stable_delta_inserts current_tree desired_tree))))))))"

section \<open>Applying remote messages\<close>

text \<open>The loop keeps the namespace document in memory; here it is carried as a document.\<close>

record 'd batch_state =
  bs_namespace_doc :: "'d option"
  bs_text_docs :: "(object_id, bytes) btree_map"
  bs_applied_count :: nat
  bs_skipped_count :: nat
  bs_max_timestamp :: "time_ns option"

definition batch_start :: "'d batch_state" where
  "batch_start = \<lparr>bs_namespace_doc = None, bs_text_docs = [], bs_applied_count = 0,
      bs_skipped_count = 0, bs_max_timestamp = None\<rparr>"

definition apply_envelope ::
  "('d, 'sv) ext \<Rightarrow> nat \<Rightarrow> db \<Rightarrow> writer_id \<Rightarrow> shared_message_envelope \<Rightarrow> 'd batch_state \<Rightarrow> 'd batch_state res" where
  "apply_envelope X ro d writer e s =
     (if or_daemon_writer_id (env_origin e) = writer
      then Inr (s\<lparr>bs_skipped_count := bs_skipped_count s + 1\<rparr>)
      else
        let s1 = s\<lparr>bs_applied_count := bs_applied_count s + 1,
                   bs_max_timestamp := Some (case bs_max_timestamp s of
                      Some t \<Rightarrow> max t (env_timestamp e) | None \<Rightarrow> env_timestamp e)\<rparr>
        in (case env_shared_message e of
              NamespaceUpdate u \<Rightarrow>
                bind_res
                  (case bs_namespace_doc s1 of
                     Some doc \<Rightarrow> Inr doc
                   | None \<Rightarrow>
                       bind_res (select_stable_namespace d) (\<lambda>row.
                       bind_res (ok_or row InvariantViolation) (\<lambda>(blob, _).
                         ns_from_full_state X 1 blob)))
                  (\<lambda>doc. bind_res (ns_apply_update X u doc) (\<lambda>doc'.
                     Inr (s1\<lparr>bs_namespace_doc := Some doc'\<rparr>)))
            | TextObjectUpdate obj u \<Rightarrow>
                bind_res
                  (case bt_get (bs_text_docs s1) obj of
                     Some blob \<Rightarrow> Inr blob
                   | None \<Rightarrow>
                       map_ok (\<lambda>row. case row of Some blob \<Rightarrow> blob | None \<Rightarrow> empty_text_state X 1)
                         (select_stable_text_object_doc obj d))
                  (\<lambda>base. bind_res (apply_text_update X ro base u) (\<lambda>next.
                     Inr (s1\<lparr>bs_text_docs := bt_insert obj (tds_full_state_bytes next) (bs_text_docs s1)\<rparr>)))
            | BinaryObjectPut _ _ _ _ \<Rightarrow> Inl InvariantViolation))"

definition apply_shared_message_batch_tx ::
  "('d, 'sv) ext \<Rightarrow> nat \<Rightarrow> shared_message_batch \<Rightarrow> db \<Rightarrow> (semantic_effects \<times> db) res" where
  "apply_shared_message_batch_tx X ro batch d =
     bind_res (select_stable_cursor d) (\<lambda>cursor.
     if cursor \<noteq> batch_first batch then Inl InvariantViolation
     else
     bind_res (select_daemon_writer_id d) (\<lambda>writer.
     bind_res (fold_res (apply_envelope X ro d writer) (batch_messages batch) batch_start) (\<lambda>s.
     bind_res
       (case bs_namespace_doc s of
          None \<Rightarrow> Inr d
        | Some doc \<Rightarrow>
            bind_res (ok_or (bs_max_timestamp s) Panicked) (\<lambda>t.
              write_stable_namespace_projection_tx X doc t d)) (\<lambda>d1.
     bind_res
       (if bs_text_docs s = [] then Inr d1
        else
          bind_res (ok_or (bs_max_timestamp s) Panicked) (\<lambda>t.
            fold_res (\<lambda>(obj, blob). upsert_stable_text_object obj blob t) (bs_text_docs s) d1)) (\<lambda>d2.
     bind_res (update_stable_cursor (batch_first batch) (batch_last batch) d2) (\<lambda>d3.
     bind_res (ok_or (checked_add_u64 (batch_last batch) 1) InvariantViolation) (\<lambda>next_cursor.
       Inr (\<lparr>eff_projection_changed = (if bs_applied_count s > 0 then Some next_cursor else None),
             eff_outbox_ready = None\<rparr>, d3))))))))"

section \<open>Local deletes\<close>

definition required_namespace :: "(bytes \<times> time_ns) option res \<Rightarrow> bytes res" where
  "required_namespace r = bind_res r (\<lambda>row. map_ok fst (ok_or row InvariantViolation))"

definition apply_missing_prior_paths_as_local_deletes_tx ::
  "('d, 'sv) ext \<Rightarrow> time_ns \<Rightarrow> prior_tree_row list \<Rightarrow> db \<Rightarrow> (nat \<times> db) res" where
  "apply_missing_prior_paths_as_local_deletes_tx X now missing_prior d =
     (if missing_prior = [] then Inr (0, d)
      else
        bind_res (select_daemon_writer_id d) (\<lambda>writer.
        bind_res (required_namespace (select_prior_namespace d)) (\<lambda>prior_blob.
        bind_res (required_namespace (select_stable_namespace d)) (\<lambda>stable_blob.
        bind_res (ns_from_full_state X (client_id_for_writer writer) prior_blob) (\<lambda>prior_doc.
        let sv = ns_state_vector X prior_doc;
            prior_doc' = fold (\<lambda>row. ns_remove_claim X (pt_claim_id row)) missing_prior prior_doc;
            update = ns_encode_update_since X sv prior_doc'
        in bind_res (update_prior_namespace (ns_encode_full_state X prior_doc') now d) (\<lambda>d1.
           bind_res
             (if update \<noteq> [] then
                bind_res (ns_from_full_state X 1 stable_blob) (\<lambda>stable_doc.
                bind_res (ns_apply_update X update stable_doc) (\<lambda>stable_doc'.
                  write_stable_namespace_projection_tx X stable_doc' now d1))
              else Inr d1) (\<lambda>d2.
           bind_res (fold_res (\<lambda>row. tombstone_prior_tree_file (pt_path row) now) missing_prior d2) (\<lambda>d3.
           if update = [] then Inr (0, d3)
           else
             bind_res (reserve_outbox_ids 1 d3) (\<lambda>(first, d4).
             bind_res (ok_or first InvariantViolation) (\<lambda>outbox_id.
             bind_res (insert_outbox_message outbox_id KNamespaceUpdate None update now d4) (\<lambda>d5.
               Inr (1, d5))))))))))))"

section \<open>Planning a projection\<close>

definition text_doc_or_empty :: "('d, 'sv) ext \<Rightarrow> bytes option \<Rightarrow> bytes" where
  "text_doc_or_empty X row = (case row of Some blob \<Rightarrow> blob | None \<Rightarrow> empty_text_state X 1)"

text \<open>The plan loop keeps the prior rows not matched yet, the actions so far and the database; the
  action's sequence number is the number of actions so far.\<close>

definition plan_stable_row ::
  "('d, 'sv) ext \<Rightarrow> nat \<Rightarrow> time_ns \<Rightarrow> stable_tree_row \<Rightarrow>
     (relative_path, prior_tree_row) btree_map \<times> projection_action list \<times> db \<Rightarrow>
     ((relative_path, prior_tree_row) btree_map \<times> projection_action list \<times> db) res" where
  "plan_stable_row X epoch now row s =
     (case s of (prior_by_path, actions, d) \<Rightarrow>
     bind_res (select_stable_text_object_doc (st_object_id row) d) (\<lambda>stable_doc.
     let doc_blob = text_doc_or_empty X stable_doc;
         prior_by_path' = bt_remove (st_path row) prior_by_path
     in bind_res
          (case bt_get prior_by_path (st_path row) of
             None \<Rightarrow> Inr (Some Missing)
           | Some prior \<Rightarrow>
               bind_res (select_prior_text_object_doc (pt_object_id prior) d) (\<lambda>prior_doc.
                 if pt_object_id prior = st_object_id row \<and> text_doc_or_empty X prior_doc = doc_blob
                 then Inr None
                 else Inr (Some (PresentWithFingerprint (pt_fingerprint prior))))) (\<lambda>expected.
        (case expected of
           None \<Rightarrow> Inr (prior_by_path', actions, d)
         | Some expected_before \<Rightarrow>
             bind_res (decode_text_state X 1 doc_blob) (\<lambda>text_state.
             let content = tds_text text_state
             in bind_res (upsert_projection_write_intent (st_path row) (xxh3_be_bytes X content)
                     (st_object_id row) doc_blob now d) (\<lambda>d'.
                  Inr (prior_by_path',
                       actions @ [\<lparr>pa_id = (epoch, length actions),
                         pa_kind = WriteFile (st_path row) content expected_before,
                         pa_commit_context = \<lparr>cc_path = st_path row, cc_claimed_path = st_claimed_path row,
                           cc_claim_id = st_claim_id row, cc_object_id = st_object_id row,
                           cc_target_text_doc_blob = Some doc_blob\<rparr>\<rparr>],
                       d')))))))"

definition delete_action :: "nat \<Rightarrow> nat \<Rightarrow> prior_tree_row \<Rightarrow> projection_action" where
  "delete_action epoch seq prior =
     \<lparr>pa_id = (epoch, seq),
      pa_kind = DeleteFile (pt_path prior) (PresentWithFingerprint (pt_fingerprint prior)),
      pa_commit_context = \<lparr>cc_path = pt_path prior, cc_claimed_path = pt_claimed_path prior,
        cc_claim_id = pt_claim_id prior, cc_object_id = pt_object_id prior,
        cc_target_text_doc_blob = None\<rparr>\<rparr>"

definition get_next_work_tx ::
  "('d, 'sv) ext \<Rightarrow> nat \<Rightarrow> time_ns \<Rightarrow> db \<Rightarrow> (next_work \<times> db) res" where
  "get_next_work_tx X epoch now d =
     bind_res (select_stable_cursor d) (\<lambda>generation.
     bind_res (required_namespace (select_stable_namespace d)) (\<lambda>stable_blob.
     bind_res (select_prior_tree_live_files d) (\<lambda>prior_rows.
     bind_res (select_stable_tree_files d) (\<lambda>stable_rows.
     bind_res (fold_res (plan_stable_row X epoch now) stable_rows
                (bt_of_list (map (\<lambda>r. (pt_path r, r)) prior_rows), [], d)) (\<lambda>(rest, writes, d').
     let actions = writes @ map (\<lambda>(i, r). delete_action epoch i r)
                     (enumerate (length writes) (map snd rest))
     in if actions = [] then Inr (NoWork, d')
        else Inr (Project \<lparr>pes_epoch = epoch, pes_generation = generation,
               pes_target_namespace_doc_blob = stable_blob, pes_actions = actions\<rparr>, d'))))))"

section \<open>Committing a projection\<close>

definition commit_completed_projection_action_tx ::
  "time_ns \<Rightarrow> completed_projection_action \<Rightarrow> db \<Rightarrow> db res" where
  "commit_completed_projection_action_tx accepted_at action d =
     (if projection_result_action_id (cpa_result action) \<noteq> cpa_action_id action then Inl Panicked
      else
        let ctx = cpa_commit_context action;
            accept_write = (\<lambda>fingerprint.
              bind_res (ok_or (cc_target_text_doc_blob ctx) InvariantViolation) (\<lambda>blob.
              bind_res (upsert_prior_text_object (cc_object_id ctx) blob accepted_at d) (\<lambda>d1.
              bind_res (upsert_prior_tree_file (cc_path ctx) (cc_claimed_path ctx) (cc_claim_id ctx)
                          (cc_object_id ctx) fingerprint accepted_at d1) (\<lambda>d2.
                delete_projection_write_intents_for_path (cc_path ctx) d2))))
        in (case cpa_result action of
              WriteFileResult _ (Written fingerprint) \<Rightarrow> accept_write fingerprint
            | WriteFileResult _ (AlreadyApplied fingerprint) \<Rightarrow> accept_write fingerprint
            | WriteFileResult _ _ \<Rightarrow> Inl InvariantViolation
            | DeleteFileResult _ (DeleteConflict _) \<Rightarrow> Inl InvariantViolation
            | DeleteFileResult _ _ \<Rightarrow>
                bind_res (tombstone_prior_tree_file (cc_path ctx) accepted_at d) (\<lambda>d1.
                  delete_projection_write_intents_for_path (cc_path ctx) d1)
            | ProjectionFailed _ \<Rightarrow> Inl InvariantViolation))"

definition commit_projection_epoch_tx ::
  "time_ns \<Rightarrow> completed_projection_epoch \<Rightarrow> end_reason \<Rightarrow> db \<Rightarrow> db res" where
  "commit_projection_epoch_tx accepted_at completed reason d =
     (case reason of
        ActionInvalidatedProjection _ \<Rightarrow> Inr d
      | PlanExhausted \<Rightarrow>
          bind_res (update_prior_namespace (cpe_target_namespace_doc_blob completed) accepted_at d)
            (fold_res (commit_completed_projection_action_tx accepted_at) (cpe_actions completed)))"

definition commit_projection_action ::
  "commit_context \<Rightarrow> projection_action_result \<Rightarrow> db \<Rightarrow> (projection_action_result \<times> db) res" where
  "commit_projection_action ctx result d =
     (case result of
        WriteFileResult _ (Written fingerprint) \<Rightarrow>
          map_ok (Pair result) (mark_projection_write_intent_applied (cc_path ctx) fingerprint d)
      | WriteFileResult _ (AlreadyApplied fingerprint) \<Rightarrow>
          map_ok (Pair result) (mark_projection_write_intent_applied (cc_path ctx) fingerprint d)
      | _ \<Rightarrow> Inr (result, d))"

end
