(* ===== verification/Import.thy ===== *)
theory Import
  imports Service
begin

text \<open>
  The import half of \<open>semantic/service.rs\<close>: what a scan turns into reads, local deletes and
  persistently ignored files, how a read is staged (update, resurrection of a recent tombstone,
  or new object), how an orphaned projection write is recognised through the write intents
  instead of being imported, and how an init or a sync epoch is committed.
\<close>

section \<open>Scans\<close>

definition skip_ignored ::
  "(relative_path, file_stat \<times> ignored_reason) btree_map \<Rightarrow> relative_path \<Rightarrow> file_fingerprint \<Rightarrow> bool" where
  "skip_ignored ignored p fp =
     (case bt_get ignored p of
        Some (stat, reason) \<Rightarrow> fp_stat fp = stat \<and> reason \<noteq> PermissionDenied
      | None \<Rightarrow> False)"

text \<open>One file that may need a read: skipped if ignored and unchanged, recorded as too large, or
  given the next action of the epoch.\<close>

definition plan_read ::
  "(relative_path, file_stat \<times> ignored_reason) btree_map \<Rightarrow> nat \<Rightarrow> time_ns \<Rightarrow> relative_path \<times> file_fingerprint \<Rightarrow>
     import_action list \<times> db \<Rightarrow> (import_action list \<times> db) res" where
  "plan_read ignored epoch now file s =
     (case (file, s) of ((p, fp), (actions, d)) \<Rightarrow>
        if skip_ignored ignored p fp then Inr (actions, d)
        else if stat_size (fp_stat fp) > max_sync_file_size then
          map_ok (Pair actions) (upsert_ignored_file p TooLarge (fp_stat fp) now d)
        else Inr (actions @ [\<lparr>ia_id = (epoch, length actions), ia_kind = Read p fp\<rparr>], d))"

fun scanned_files :: "tree_entry list \<Rightarrow> (relative_path \<times> file_fingerprint) list" where
  "scanned_files [] = []"
| "scanned_files (e # es) =
     (case te_kind e of
        Directory \<Rightarrow> scanned_files es
      | File fp \<Rightarrow> (te_path e, fp) # scanned_files es)"

definition require_empty_table :: "string \<Rightarrow> db \<Rightarrow> unit res" where
  "require_empty_table table d =
     bind_res (count_table table d) (\<lambda>n. if n \<noteq> 0 then Inl InvariantViolation else Inr ())"

definition init_tables :: "string list" where
  "init_tables = [''objects'', ''stable_text_objects'', ''prior_text_objects'', ''stable_tree'',
     ''prior_tree'', ''import_staged_files'', ''outbox'']"

definition ignored_map ::
  "ignored_file_row list \<Rightarrow> (relative_path, file_stat \<times> ignored_reason) btree_map" where
  "ignored_map rows = bt_of_list (map (\<lambda>r. (ig_path r, (ig_stat r, ig_reason r))) rows)"

definition apply_init_scan ::
  "('d, 'sv) ext \<Rightarrow> time_ns \<Rightarrow> scan_result \<Rightarrow> nat \<Rightarrow> db \<Rightarrow> (import_epoch_started \<times> db) res" where
  "apply_init_scan X now scan epoch d =
     bind_res (fold_res (\<lambda>table _. require_empty_table table d) init_tables ()) (\<lambda>_.
     bind_res (required_namespace (select_stable_namespace d)) (\<lambda>stable_blob.
     bind_res (required_namespace (select_prior_namespace d)) (\<lambda>prior_blob.
     if stable_blob \<noteq> empty_namespace_state X 1 \<or> prior_blob \<noteq> empty_namespace_state X 1
     then Inl InvariantViolation
     else
       bind_res (select_all_ignored_files d) (\<lambda>ignored.
       bind_res (fold_res (plan_read (ignored_map ignored) epoch now) (scanned_files (scan_tree scan)) ([], d))
         (\<lambda>(actions, d').
           Inr (\<lparr>ies_epoch = epoch, ies_actions = actions\<rparr>, d'))))))"

definition collect_observed ::
  "scan_scope \<Rightarrow> tree_entry \<Rightarrow> (relative_path, file_fingerprint) btree_map \<Rightarrow>
     (relative_path, file_fingerprint) btree_map res" where
  "collect_observed scope e m =
     (if \<not> contains_path scope (te_path e) then Inl InvariantViolation
      else (case te_kind e of Directory \<Rightarrow> Inr m | File fp \<Rightarrow> Inr (bt_insert (te_path e) fp m)))"

text \<open>The loop over the live prior rows keeps the files not matched yet, the missing rows, the
  actions and the database.\<close>

definition scan_prior_row ::
  "scan_scope \<Rightarrow> (relative_path, file_stat \<times> ignored_reason) btree_map \<Rightarrow> nat \<Rightarrow> time_ns \<Rightarrow> prior_tree_row \<Rightarrow>
     (relative_path, file_fingerprint) btree_map \<times> prior_tree_row list \<times> import_action list \<times> db \<Rightarrow>
     ((relative_path, file_fingerprint) btree_map \<times> prior_tree_row list \<times> import_action list \<times> db) res" where
  "scan_prior_row scope ignored epoch now prior s =
     (case s of (observed, missing, actions, d) \<Rightarrow>
        if \<not> contains_path scope (pt_path prior) then Inr s
        else (case bt_get observed (pt_path prior) of
            None \<Rightarrow> Inr (observed, missing @ [prior], actions, d)
          | Some fp \<Rightarrow>
              let observed' = bt_remove (pt_path prior) observed
              in if fp_stat fp = fp_stat (pt_fingerprint prior) then Inr (observed', missing, actions, d)
                 else map_ok (\<lambda>(actions', d'). (observed', missing, actions', d'))
                        (plan_read ignored epoch now (pt_path prior, fp) (actions, d))))"

definition forget_unscanned_ignored :: "tree_entry list \<Rightarrow> relative_path \<Rightarrow> db \<Rightarrow> db res" where
  "forget_unscanned_ignored entries p d =
     (if \<exists>e\<in>set entries. te_path e = p then Inr d else delete_ignored_file p d)"

definition apply_scan ::
  "('d, 'sv) ext \<Rightarrow> time_ns \<Rightarrow> scan_result \<Rightarrow> nat \<Rightarrow> db \<Rightarrow> ((next_work \<times> semantic_effects) \<times> db) res" where
  "apply_scan X now scan epoch d =
     (let scope = scan_scope_of scan; entries = scan_tree scan
      in bind_res (fold_res (collect_observed scope) entries []) (\<lambda>observed.
         bind_res (select_all_ignored_files d) (\<lambda>all_ignored.
         let ignored = ignored_map (filter (\<lambda>r. contains_path scope (ig_path r)) all_ignored)
         in bind_res (select_prior_tree_live_files d) (\<lambda>priors.
            bind_res (fold_res (scan_prior_row scope ignored epoch now) priors (observed, [], [], d))
              (\<lambda>(rest, missing, actions, d1).
            bind_res (fold_res (plan_read ignored epoch now) rest (actions, d1)) (\<lambda>(actions', d2).
            bind_res (fold_res (forget_unscanned_ignored entries) (bt_keys ignored) d2) (\<lambda>d3.
            bind_res (apply_missing_prior_paths_as_local_deletes_tx X now missing d3) (\<lambda>(deletes, d4).
              Inr ((if actions' = [] then NoWork
                    else Import \<lparr>ies_epoch = epoch, ies_actions = actions'\<rparr>,
                    \<lparr>eff_projection_changed = None, eff_outbox_ready = nonzero_u64 deletes\<rparr>), d4)))))))))"

section \<open>Deciding what a read becomes\<close>

record stage_plan =
  sp_action_id :: action_id
  sp_epoch_kind :: import_epoch_kind
  sp_path :: relative_path
  sp_fingerprint :: file_fingerprint
  sp_content :: string

datatype stage_decision =
    Stage stage_plan
  | Ignore action_id
  | IgnorePersist action_id relative_path file_stat ignored_reason

fun decision_action_id :: "stage_decision \<Rightarrow> action_id" where
  "decision_action_id (Stage p) = sp_action_id p"
| "decision_action_id (Ignore i) = i"
| "decision_action_id (IgnorePersist i _ _ _) = i"

definition fingerprint_satisfies_expected :: "file_fingerprint \<Rightarrow> file_fingerprint \<Rightarrow> bool" where
  "fingerprint_satisfies_expected observed expected =
     (case expected of
        StatOnly stat \<Rightarrow> fp_stat observed = stat
      | StatAndContent stat content \<Rightarrow>
          (case observed of
             StatAndContent stat' content' \<Rightarrow> stat' = stat \<and> content' = content
           | StatOnly _ \<Rightarrow> False))"

definition prepare_import_action_stage ::
  "import_action_context \<Rightarrow> import_action_result \<Rightarrow> stage_decision res" where
  "prepare_import_action_stage ctx result =
     (case (iac_action_kind ctx, result) of
        (Read path expected, ReadResult action outcome) \<Rightarrow>
          (case outcome of
             Completed (ReadOk bytes fingerprint) \<Rightarrow>
               if \<not> fingerprint_satisfies_expected fingerprint expected then Inl Fatal
               else if fp_hash fingerprint = None then Inl Fatal
               else if stat_size (fp_stat fingerprint) > max_sync_file_size then
                 Inr (IgnorePersist action path (fp_stat fingerprint) TooLarge)
               else if \<not> utf8_valid bytes then
                 Inr (IgnorePersist action path (fp_stat fingerprint) NonUtf8)
               else Inr (Stage \<lparr>sp_action_id = action, sp_epoch_kind = iac_epoch_kind ctx, sp_path = path,
                           sp_fingerprint = fingerprint, sp_content = bytes\<rparr>)
           | Completed (ChangedBetweenStats _ _) \<Rightarrow> Inr (Ignore action)
           | Completed (ConflictBeforeRead _) \<Rightarrow> Inr (Ignore action)
           | ReadPermissionDenied \<Rightarrow> Inr (IgnorePersist action path (fp_stat expected) PermissionDenied)
           | ReadFailed \<Rightarrow> Inl Fatal)
      | _ \<Rightarrow> Inl Fatal)"

section \<open>Staging\<close>

definition realign_prior_from_write_intent_tx ::
  "time_ns \<Rightarrow> stage_plan \<Rightarrow> db \<Rightarrow> (bool \<times> db) res" where
  "realign_prior_from_write_intent_tx now plan d =
     bind_res (select_applied_projection_write_intent (sp_path plan) (sp_fingerprint plan) d) (\<lambda>intent.
     (case intent of
        None \<Rightarrow> Inr (False, d)
      | Some (intent_object, target_doc_blob) \<Rightarrow>
          bind_res (select_stable_tree_file (sp_path plan) d) (\<lambda>stable_row.
          (case stable_row of
             None \<Rightarrow> Inr (False, d)
           | Some row \<Rightarrow>
               if st_object_id row \<noteq> intent_object then Inr (False, d)
               else
                 bind_res (select_stable_text_object_doc intent_object d) (\<lambda>stable_doc.
                 (case stable_doc of
                    None \<Rightarrow> Inr (False, d)
                  | Some stable_doc_blob \<Rightarrow>
                      if stable_doc_blob \<noteq> target_doc_blob then Inr (False, d)
                      else
                        bind_res (upsert_prior_text_object intent_object stable_doc_blob now d) (\<lambda>d1.
                        bind_res (upsert_prior_tree_file (sp_path plan) (st_claimed_path row)
                                    (st_claim_id row) intent_object (sp_fingerprint plan) now d1) (\<lambda>d2.
                        bind_res (delete_projection_write_intents_for_path (sp_path plan) d2) (\<lambda>d3.
                          Inr (True, d3))))))))))"

record staged_text_import =
  sti_stage_kind :: stage_kind
  sti_object_id :: object_id
  sti_claim_id :: claim_id
  sti_prior_doc_blob :: bytes
  sti_text_update :: bytes

definition stage_existing_text_file ::
  "('d, 'sv) ext \<Rightarrow> claim_id \<Rightarrow> nat \<Rightarrow> stage_plan \<Rightarrow> prior_tree_row \<Rightarrow> stage_kind \<Rightarrow> db \<Rightarrow> staged_text_import res" where
  "stage_existing_text_file X generated_claim client_id plan prior kind d =
     (if kind = New then Inl Panicked
      else
        let obj = pt_object_id prior;
            claim = (if kind = Update then pt_claim_id prior else generated_claim)
        in bind_res (select_prior_text_object_doc obj d) (\<lambda>row.
           let prior_doc_blob = (case row of Some b \<Rightarrow> b | None \<Rightarrow> empty_text_state X client_id)
           in bind_res (decode_text_state X client_id prior_doc_blob) (\<lambda>prior_state.
              bind_res (capture_text_change X client_id prior_doc_blob (tds_text prior_state) (sp_content plan))
                (\<lambda>capture.
                Inr (case capture of
                   Some c \<Rightarrow> \<lparr>sti_stage_kind = kind, sti_object_id = obj, sti_claim_id = claim,
                       sti_prior_doc_blob = tc_full_state_bytes c, sti_text_update = tc_update_bytes c\<rparr>
                 | None \<Rightarrow> \<lparr>sti_stage_kind = kind, sti_object_id = obj, sti_claim_id = claim,
                       sti_prior_doc_blob = prior_doc_blob, sti_text_update = []\<rparr>)))))"

definition stage_new_text_file ::
  "('d, 'sv) ext \<Rightarrow> nat \<Rightarrow> string \<Rightarrow> object_id \<Rightarrow> claim_id \<Rightarrow> staged_text_import" where
  "stage_new_text_file X client_id content obj claim =
     (let blob = text_state_from_content X client_id content
      in \<lparr>sti_stage_kind = New, sti_object_id = obj, sti_claim_id = claim,
          sti_prior_doc_blob = blob, sti_text_update = blob\<rparr>)"

definition select_reusable_tombstone :: "time_ns \<Rightarrow> stage_plan \<Rightarrow> db \<Rightarrow> prior_tree_row option res" where
  "select_reusable_tombstone now plan d =
     (let cutoff = now - recent_tombstone_reuse_window_ns
      in bind_res (select_recent_tombstoned_prior_tree_file (sp_path plan) cutoff d) (\<lambda>same_path.
         (case same_path of
            Some prior \<Rightarrow> Inr (Some prior)
          | None \<Rightarrow> select_recent_tombstoned_prior_tree_file_by_file_key
                       (stat_file_key (fp_stat (sp_fingerprint plan))) cutoff d)))"

definition stage_import_action_tx ::
  "('d, 'sv) ext \<Rightarrow> time_ns \<Rightarrow> object_id \<Rightarrow> claim_id \<Rightarrow> stage_plan \<Rightarrow> db \<Rightarrow> db res" where
  "stage_import_action_tx X now gen_object gen_claim plan d =
     bind_res (if sp_epoch_kind plan = Sync then realign_prior_from_write_intent_tx now plan d else Inr (False, d))
       (\<lambda>(realigned, d1).
     if realigned then Inr d1
     else
       bind_res (select_daemon_writer_id d1) (\<lambda>writer.
       let client_id = client_id_for_writer writer;
           fresh = stage_new_text_file X client_id (sp_content plan) gen_object gen_claim
       in bind_res
            (case sp_epoch_kind plan of
               Init \<Rightarrow> Inr fresh
             | Sync \<Rightarrow>
                 bind_res (select_prior_tree_live_file (sp_path plan) d1) (\<lambda>live.
                 (case live of
                    Some prior \<Rightarrow> stage_existing_text_file X gen_claim client_id plan prior Update d1
                  | None \<Rightarrow>
                      bind_res (select_reusable_tombstone now plan d1) (\<lambda>tombstone.
                      (case tombstone of
                         Some prior \<Rightarrow> stage_existing_text_file X gen_claim client_id plan prior Resurrect d1
                       | None \<Rightarrow> Inr fresh))))) (\<lambda>staged.
          insert_import_staged_file
            \<lparr>sf_import_epoch = fst (sp_action_id plan), sf_action_seq = snd (sp_action_id plan),
             sf_path = sp_path plan, sf_object_id = sti_object_id staged, sf_claim_id = sti_claim_id staged,
             sf_stage_kind = sti_stage_kind staged, sf_fingerprint = sp_fingerprint plan,
             sf_prior_doc_blob = sti_prior_doc_blob staged, sf_text_update = sti_text_update staged,
             sf_staged_at = now\<rparr> d1)))"

definition commit_import_action ::
  "('d, 'sv) ext \<Rightarrow> time_ns \<Rightarrow> object_id \<Rightarrow> claim_id \<Rightarrow> import_action_context \<Rightarrow> import_action_result \<Rightarrow> db \<Rightarrow>
     (action_id \<times> db) res" where
  "commit_import_action X now gen_object gen_claim ctx result d =
     bind_res (prepare_import_action_stage ctx result) (\<lambda>decision.
       map_ok (Pair (decision_action_id decision))
         (case decision of
            Stage plan \<Rightarrow>
              bind_res (stage_import_action_tx X now gen_object gen_claim plan d) (delete_ignored_file (sp_path plan))
          | IgnorePersist _ path stat reason \<Rightarrow> upsert_ignored_file path reason stat now d
          | Ignore _ \<Rightarrow> Inr d))"

section \<open>Committing an import epoch\<close>

definition check_action_path :: "completed_import_action \<Rightarrow> staged_file_row \<Rightarrow> unit res" where
  "check_action_path action row =
     (case cia_action_kind action of
        Read path _ \<Rightarrow> if path = sf_path row then Inr () else Inl InvariantViolation
      | Stat _ \<Rightarrow> Inl InvariantViolation)"

definition completed_actions ::
  "completed_import_epoch \<Rightarrow> (action_id, completed_import_action) btree_map" where
  "completed_actions completed = bt_of_list (map (\<lambda>a. (cia_action_id a, a)) (cie_actions completed))"

definition validate_init_staged_rows :: "completed_import_epoch \<Rightarrow> staged_file_row list \<Rightarrow> unit res" where
  "validate_init_staged_rows completed staged =
     bind_res (fold_res (\<lambda>a _. if fst (cia_action_id a) \<noteq> cie_epoch completed
        then Inl InvariantViolation else Inr ()) (cie_actions completed) ()) (\<lambda>_.
     fold_res (\<lambda>row _.
       bind_res (ok_or (bt_get (completed_actions completed) (sf_import_epoch row, sf_action_seq row))
          InvariantViolation) (\<lambda>action.
         if sf_import_epoch row \<noteq> cie_epoch completed then Inl InvariantViolation
         else if sf_stage_kind row \<noteq> New then Inl InvariantViolation
         else check_action_path action row)) staged ())"

definition validate_sync_staged_rows :: "completed_import_epoch \<Rightarrow> staged_file_row list \<Rightarrow> unit res" where
  "validate_sync_staged_rows completed staged =
     bind_res (fold_res (\<lambda>a _. if fst (cia_action_id a) \<noteq> cie_epoch completed then Inl InvariantViolation
        else (case cia_action_kind a of Stat _ \<Rightarrow> Inl InvariantViolation | Read _ _ \<Rightarrow> Inr ()))
        (cie_actions completed) ()) (\<lambda>_.
     fold_res (\<lambda>row _.
       bind_res (ok_or (bt_get (completed_actions completed) (sf_import_epoch row, sf_action_seq row))
          InvariantViolation) (\<lambda>action.
         if sf_import_epoch row \<noteq> cie_epoch completed then Inl InvariantViolation
         else check_action_path action row)) staged ())"

definition next_outbox_id :: "nat \<Rightarrow> nat res" where
  "next_outbox_id i = ok_or (checked_add_u64 i 1) InvariantViolation"

text \<open>The messages go to consecutive ids, the first one to the reserved id itself.\<close>

fun insert_outbox_run ::
  "nat \<Rightarrow> (shared_message_kind \<times> object_id option \<times> bytes) list \<Rightarrow> time_ns \<Rightarrow> db \<Rightarrow> db res" where
  "insert_outbox_run i [] now d = Inr d"
| "insert_outbox_run i [(kind, obj, payload)] now d = insert_outbox_message i kind obj payload now d"
| "insert_outbox_run i ((kind, obj, payload) # m # ms) now d =
     bind_res (insert_outbox_message i kind obj payload now d) (\<lambda>d1.
     bind_res (next_outbox_id i) (\<lambda>i'. insert_outbox_run i' (m # ms) now d1))"

definition enqueue_outbox ::
  "(shared_message_kind \<times> object_id option \<times> bytes) list \<Rightarrow> time_ns \<Rightarrow> db \<Rightarrow> db res" where
  "enqueue_outbox messages now d =
     bind_res (reserve_outbox_ids (length messages) d) (\<lambda>(first, d1).
       (case first of None \<Rightarrow> Inr d1 | Some i \<Rightarrow> insert_outbox_run i messages now d1))"

definition commit_init_row :: "writer_id \<Rightarrow> time_ns \<Rightarrow> staged_file_row \<Rightarrow> db \<Rightarrow> db res" where
  "commit_init_row writer now row d =
     bind_res (insert_object (sf_object_id row) Text writer now d) (\<lambda>d1.
     bind_res (insert_stable_text_object (sf_object_id row) (sf_prior_doc_blob row) now d1) (\<lambda>d2.
     bind_res (insert_prior_text_object (sf_object_id row) (sf_prior_doc_blob row) now d2) (\<lambda>d3.
     bind_res (insert_stable_tree_file (sf_path row) (sf_path row) (sf_claim_id row) (sf_object_id row) now d3) (\<lambda>d4.
       insert_prior_tree_file (sf_path row) (sf_path row) (sf_claim_id row) (sf_object_id row)
         (sf_fingerprint row) now d4))))"

definition commit_init_import_epoch_tx ::
  "('d, 'sv) ext \<Rightarrow> time_ns \<Rightarrow> completed_import_epoch \<Rightarrow> db \<Rightarrow> (semantic_effects \<times> db) res" where
  "commit_init_import_epoch_tx X now completed d =
     bind_res (select_import_staged_files (cie_epoch completed) d) (\<lambda>staged.
     bind_res (validate_init_staged_rows completed staged) (\<lambda>_.
     if staged = [] then map_ok (Pair no_effects) (delete_import_staged_files (cie_epoch completed) d)
     else
     bind_res (select_daemon_writer_id d) (\<lambda>writer.
     bind_res (required_namespace (select_stable_namespace d)) (\<lambda>stable_blob.
     bind_res (required_namespace (select_prior_namespace d)) (\<lambda>prior_blob.
     if stable_blob \<noteq> prior_blob then Inl InvariantViolation
     else
     bind_res (ns_from_full_state X (client_id_for_writer writer) stable_blob) (\<lambda>doc.
     let sv = ns_state_vector X doc;
         doc' = fold (\<lambda>row doc. ns_add_new_claim X (sf_claim_id row) (sf_object_id row) (sf_path row)
                  (ns_add_new_object X (sf_object_id row) Text writer doc)) staged doc;
         update = ns_encode_update_since X sv doc'
     in if update = [] then Inl InvariantViolation
        else
        let full = ns_encode_full_state X doc'; n = length staged + 1
        in bind_res (update_stable_namespace full now d) (\<lambda>d1.
           bind_res (update_prior_namespace full now d1) (\<lambda>d2.
           bind_res (fold_res (commit_init_row writer now) staged d2) (\<lambda>d3.
           bind_res (reserve_outbox_ids n d3) (\<lambda>(first, d4).
           bind_res (ok_or first InvariantViolation) (\<lambda>outbox_id.
           bind_res (insert_outbox_run outbox_id
              ((KNamespaceUpdate, None, update) #
               map (\<lambda>row. (KTextUpdate, Some (sf_object_id row), sf_text_update row)) staged) now d4) (\<lambda>d5.
           bind_res (delete_import_staged_files (cie_epoch completed) d5) (\<lambda>d6.
             Inr (\<lparr>eff_projection_changed = None, eff_outbox_ready = Some n\<rparr>, d6))))))))))))))"

definition claim_staged_row :: "('d, 'sv) ext \<Rightarrow> writer_id \<Rightarrow> staged_file_row \<Rightarrow> 'd \<Rightarrow> 'd" where
  "claim_staged_row X writer row doc =
     (case sf_stage_kind row of
        New \<Rightarrow> ns_add_new_claim X (sf_claim_id row) (sf_object_id row) (sf_path row)
                 (ns_add_new_object X (sf_object_id row) Text writer doc)
      | Resurrect \<Rightarrow> ns_add_new_claim X (sf_claim_id row) (sf_object_id row) (sf_path row) doc
      | Update \<Rightarrow> doc)"

definition sync_namespace_phase ::
  "('d, 'sv) ext \<Rightarrow> time_ns \<Rightarrow> staged_file_row list \<Rightarrow> db \<Rightarrow> (bytes \<times> db) res" where
  "sync_namespace_phase X now staged d =
     bind_res (select_daemon_writer_id d) (\<lambda>writer.
     bind_res (required_namespace (select_prior_namespace d)) (\<lambda>prior_blob.
     bind_res (required_namespace (select_stable_namespace d)) (\<lambda>stable_blob.
     bind_res (ns_from_full_state X (client_id_for_writer writer) prior_blob) (\<lambda>prior_doc.
     let sv = ns_state_vector X prior_doc;
         prior_doc' = fold (claim_staged_row X writer) staged prior_doc;
         update = ns_encode_update_since X sv prior_doc'
     in if update = [] then Inl InvariantViolation
        else
          bind_res (update_prior_namespace (ns_encode_full_state X prior_doc') now d) (\<lambda>d1.
          bind_res (ns_from_full_state X 1 stable_blob) (\<lambda>stable_doc.
          bind_res (ns_apply_update X update stable_doc) (\<lambda>stable_doc'.
          bind_res (write_stable_namespace_projection_tx X stable_doc' now d1) (\<lambda>d2.
            Inr (update, d2)))))))))"

definition commit_sync_row :: "('d, 'sv) ext \<Rightarrow> nat \<Rightarrow> time_ns \<Rightarrow> staged_file_row \<Rightarrow> db \<Rightarrow> db res" where
  "commit_sync_row X ro now row d =
     bind_res (select_stable_text_object_doc (sf_object_id row) d) (\<lambda>stable.
     bind_res
       (if sf_text_update row = [] then Inr (text_doc_or_empty X stable)
        else map_ok tds_full_state_bytes
               (apply_text_update X ro (text_doc_or_empty X stable) (sf_text_update row))) (\<lambda>blob.
     bind_res (upsert_stable_text_object (sf_object_id row) blob now d) (\<lambda>d1.
     bind_res (upsert_prior_text_object (sf_object_id row) (sf_prior_doc_blob row) now d1) (\<lambda>d2.
       upsert_prior_tree_file (sf_path row) (sf_path row) (sf_claim_id row) (sf_object_id row)
         (sf_fingerprint row) now d2))))"

definition commit_sync_import_epoch_tx ::
  "('d, 'sv) ext \<Rightarrow> nat \<Rightarrow> time_ns \<Rightarrow> completed_import_epoch \<Rightarrow> db \<Rightarrow> (semantic_effects \<times> db) res" where
  "commit_sync_import_epoch_tx X ro now completed d =
     bind_res (select_import_staged_files (cie_epoch completed) d) (\<lambda>staged.
     bind_res (validate_sync_staged_rows completed staged) (\<lambda>_.
     if staged = [] then map_ok (Pair no_effects) (delete_import_staged_files (cie_epoch completed) d)
     else
     let namespace_changed = (\<exists>row\<in>set staged. sf_stage_kind row = New \<or> sf_stage_kind row = Resurrect)
     in bind_res (if namespace_changed then sync_namespace_phase X now staged d else Inr ([], d)) (\<lambda>(update, d1).
        bind_res (fold_res (commit_sync_row X ro now) staged d1) (\<lambda>d2.
        let texts = filter (\<lambda>row. sf_text_update row \<noteq> []) staged;
            messages = (if namespace_changed then [(KNamespaceUpdate, None, update)] else []) @
                       map (\<lambda>row. (KTextUpdate, Some (sf_object_id row), sf_text_update row)) texts;
            n = length messages
        in bind_res (enqueue_outbox messages now d2) (\<lambda>d3.
           bind_res (delete_import_staged_files (cie_epoch completed) d3) (\<lambda>d4.
             Inr (\<lparr>eff_projection_changed = None, eff_outbox_ready = nonzero_u64 n\<rparr>, d4)))))))"

definition commit_import_epoch ::
  "('d, 'sv) ext \<Rightarrow> nat \<Rightarrow> time_ns \<Rightarrow> completed_import_epoch \<Rightarrow> db \<Rightarrow> (semantic_effects \<times> db) res" where
  "commit_import_epoch X ro now completed d =
     (case cie_kind completed of
        Init \<Rightarrow> commit_init_import_epoch_tx X now completed d
      | Sync \<Rightarrow> commit_sync_import_epoch_tx X ro now completed d)"

end
