(* ===== verification/Semantic_Actor.thy ===== *)
theory Semantic_Actor
  imports Import
begin

text \<open>
  The semantic actor, \<open>semantic/actor.rs\<close>: the runtime state with its import and projection epochs
  (every \<open>assert!\<close>, \<open>expect\<close> and \<open>panic!\<close> is the error \<open>Panicked\<close>), the requests, the tasks they start
  on the service, and what finishing a task does. The actor owns one write lane: a request is taken
  from the mailbox only while no task runs. Reply channels are numbers; what is sent on them and
  to the engine is recorded in order. Epoch and operation counters start at zero and grow by one
  per request, so they are natural numbers here.
\<close>

section \<open>The runtime state\<close>

record active_import_epoch =
  aie_epoch :: nat
  aie_kind :: import_epoch_kind
  aie_expected :: "(action_id, import_action_kind) btree_map"
  aie_completed :: "(action_id, unit) btree_map"

record active_projection_epoch =
  ape_epoch :: nat
  ape_generation :: nat
  ape_target_namespace_doc_blob :: bytes
  ape_expected :: "(action_id, commit_context) btree_map"
  ape_completed :: "(action_id, projection_action_result) btree_map"

record semantic_runtime_state =
  rt_next_import_epoch :: nat
  rt_next_projection_epoch :: nat
  rt_active_import :: "active_import_epoch option"
  rt_active_projection :: "active_projection_epoch option"

definition runtime_default :: semantic_runtime_state where
  "runtime_default = \<lparr>rt_next_import_epoch = 0, rt_next_projection_epoch = 0,
     rt_active_import = None, rt_active_projection = None\<rparr>"

definition reserve_import_epoch :: "semantic_runtime_state \<Rightarrow> (nat \<times> semantic_runtime_state) res" where
  "reserve_import_epoch rt =
     (case rt_active_import rt of
        Some _ \<Rightarrow> Inl Panicked
      | None \<Rightarrow> Inr (rt_next_import_epoch rt, rt\<lparr>rt_next_import_epoch := rt_next_import_epoch rt + 1\<rparr>))"

definition reserve_projection_epoch :: "semantic_runtime_state \<Rightarrow> (nat \<times> semantic_runtime_state) res" where
  "reserve_projection_epoch rt =
     (case rt_active_projection rt of
        Some _ \<Rightarrow> Inl Panicked
      | None \<Rightarrow> Inr (rt_next_projection_epoch rt,
          rt\<lparr>rt_next_projection_epoch := rt_next_projection_epoch rt + 1\<rparr>))"

text \<open>The loop that collects the expected actions of a plan.\<close>

definition expect_action ::
  "nat \<Rightarrow> ('a \<Rightarrow> action_id) \<Rightarrow> ('a \<Rightarrow> 'v) \<Rightarrow> 'a \<Rightarrow> (action_id, 'v) btree_map \<Rightarrow> (action_id, 'v) btree_map res" where
  "expect_action epoch key val a m =
     (if fst (key a) \<noteq> epoch then Inl Panicked
      else if bt_get m (key a) \<noteq> None then Inl Panicked
      else Inr (bt_insert (key a) (val a) m))"

definition install_import_epoch ::
  "import_epoch_started \<Rightarrow> import_epoch_kind \<Rightarrow> semantic_runtime_state \<Rightarrow> semantic_runtime_state res" where
  "install_import_epoch started kind rt =
     (case rt_active_import rt of
        Some _ \<Rightarrow> Inl Panicked
      | None \<Rightarrow>
          bind_res (fold_res (expect_action (ies_epoch started) ia_id ia_kind) (ies_actions started) []) (\<lambda>expected.
            Inr (rt\<lparr>rt_active_import := Some \<lparr>aie_epoch = ies_epoch started, aie_kind = kind,
              aie_expected = expected, aie_completed = []\<rparr>\<rparr>)))"

definition install_projection_epoch ::
  "projection_epoch_started \<Rightarrow> semantic_runtime_state \<Rightarrow> semantic_runtime_state res" where
  "install_projection_epoch started rt =
     (case rt_active_projection rt of
        Some _ \<Rightarrow> Inl Panicked
      | None \<Rightarrow>
          bind_res (fold_res (expect_action (pes_epoch started) pa_id pa_commit_context) (pes_actions started) [])
            (\<lambda>expected.
              Inr (rt\<lparr>rt_active_projection := Some \<lparr>ape_epoch = pes_epoch started,
                ape_generation = pes_generation started,
                ape_target_namespace_doc_blob = pes_target_namespace_doc_blob started,
                ape_expected = expected, ape_completed = []\<rparr>\<rparr>)))"

definition validate_import_action ::
  "import_action_result \<Rightarrow> semantic_runtime_state \<Rightarrow> import_action_context res" where
  "validate_import_action result rt =
     (let action_id = import_result_action_id result
      in bind_res (ok_or (rt_active_import rt) Panicked) (\<lambda>active.
         if fst action_id \<noteq> aie_epoch active then Inl Panicked
         else if bt_get (aie_expected active) action_id = None then Inl Panicked
         else if bt_get (aie_completed active) action_id \<noteq> None then Inl Panicked
         else bind_res (ok_or (bt_get (aie_expected active) action_id) Panicked) (\<lambda>kind.
           Inr \<lparr>iac_epoch_kind = aie_kind active, iac_action_kind = kind\<rparr>)))"

definition finish_import_action :: "action_id \<Rightarrow> semantic_runtime_state \<Rightarrow> semantic_runtime_state res" where
  "finish_import_action action_id rt =
     bind_res (ok_or (rt_active_import rt) Panicked) (\<lambda>active.
       if fst action_id \<noteq> aie_epoch active then Inl Panicked
       else if bt_get (aie_expected active) action_id = None then Inl Panicked
       else if bt_get (aie_completed active) action_id \<noteq> None then Inl Panicked
       else Inr (rt\<lparr>rt_active_import :=
         Some (active\<lparr>aie_completed := bt_insert action_id () (aie_completed active)\<rparr>)\<rparr>))"

definition validate_import_epoch_commit :: "nat \<Rightarrow> semantic_runtime_state \<Rightarrow> unit res" where
  "validate_import_epoch_commit epoch rt =
     bind_res (ok_or (rt_active_import rt) Panicked) (\<lambda>active. ensure (aie_epoch active = epoch) Panicked)"

definition import_epoch_complete :: "nat \<Rightarrow> semantic_runtime_state \<Rightarrow> bool res" where
  "import_epoch_complete epoch rt =
     bind_res (validate_import_epoch_commit epoch rt) (\<lambda>_.
     bind_res (ok_or (rt_active_import rt) Panicked) (\<lambda>active.
       Inr (length (aie_completed active) = length (aie_expected active))))"

definition take_completed_import ::
  "action_id \<times> import_action_kind \<Rightarrow> (action_id, unit) btree_map \<times> completed_import_action list \<Rightarrow>
     ((action_id, unit) btree_map \<times> completed_import_action list) res" where
  "take_completed_import e s =
     (if bt_get (fst s) (fst e) = None then Inl Panicked
      else Inr (bt_remove (fst e) (fst s), snd s @ [\<lparr>cia_action_id = fst e, cia_action_kind = snd e\<rparr>]))"

definition finish_import_epoch ::
  "nat \<Rightarrow> semantic_runtime_state \<Rightarrow> (completed_import_epoch \<times> semantic_runtime_state) res" where
  "finish_import_epoch epoch rt =
     bind_res (ok_or (rt_active_import rt) Panicked) (\<lambda>active.
       if aie_epoch active \<noteq> epoch then Inl Panicked
       else if length (aie_completed active) \<noteq> length (aie_expected active) then Inl Panicked
       else bind_res (fold_res take_completed_import (aie_expected active) (aie_completed active, [])) (\<lambda>(_, actions).
         Inr (\<lparr>cie_epoch = aie_epoch active, cie_kind = aie_kind active, cie_actions = actions\<rparr>,
              rt\<lparr>rt_active_import := None\<rparr>)))"

definition validate_projection_action ::
  "projection_action_result \<Rightarrow> semantic_runtime_state \<Rightarrow> commit_context res" where
  "validate_projection_action result rt =
     (let action_id = projection_result_action_id result
      in bind_res (ok_or (rt_active_projection rt) Panicked) (\<lambda>active.
         if fst action_id \<noteq> ape_epoch active then Inl Panicked
         else if bt_get (ape_expected active) action_id = None then Inl Panicked
         else if bt_get (ape_completed active) action_id \<noteq> None then Inl Panicked
         else ok_or (bt_get (ape_expected active) action_id) Panicked))"

definition finish_projection_action ::
  "projection_action_result \<Rightarrow> semantic_runtime_state \<Rightarrow> semantic_runtime_state res" where
  "finish_projection_action result rt =
     (let action_id = projection_result_action_id result
      in bind_res (ok_or (rt_active_projection rt) Panicked) (\<lambda>active.
         if fst action_id \<noteq> ape_epoch active then Inl Panicked
         else if bt_get (ape_expected active) action_id = None then Inl Panicked
         else if bt_get (ape_completed active) action_id \<noteq> None then Inl Panicked
         else Inr (rt\<lparr>rt_active_projection :=
           Some (active\<lparr>ape_completed := bt_insert action_id result (ape_completed active)\<rparr>)\<rparr>)))"

definition validate_projection_epoch_commit :: "nat \<Rightarrow> semantic_runtime_state \<Rightarrow> unit res" where
  "validate_projection_epoch_commit epoch rt =
     bind_res (ok_or (rt_active_projection rt) Panicked) (\<lambda>active. ensure (ape_epoch active = epoch) Panicked)"

definition projection_epoch_complete :: "nat \<Rightarrow> semantic_runtime_state \<Rightarrow> bool res" where
  "projection_epoch_complete epoch rt =
     bind_res (validate_projection_epoch_commit epoch rt) (\<lambda>_.
     bind_res (ok_or (rt_active_projection rt) Panicked) (\<lambda>active.
       Inr (length (ape_completed active) = length (ape_expected active))))"

definition take_completed_projection ::
  "bool \<Rightarrow> action_id \<times> commit_context \<Rightarrow>
     (action_id, projection_action_result) btree_map \<times> completed_projection_action list \<Rightarrow>
     ((action_id, projection_action_result) btree_map \<times> completed_projection_action list) res" where
  "take_completed_projection require_complete e s =
     (case bt_get (fst s) (fst e) of
        Some result \<Rightarrow> Inr (bt_remove (fst e) (fst s),
          snd s @ [\<lparr>cpa_action_id = fst e, cpa_commit_context = snd e, cpa_result = result\<rparr>])
      | None \<Rightarrow> if require_complete then Inl Panicked else Inr s)"

definition finish_projection_epoch ::
  "nat \<Rightarrow> end_reason \<Rightarrow> semantic_runtime_state \<Rightarrow> (completed_projection_epoch \<times> semantic_runtime_state) res" where
  "finish_projection_epoch epoch reason rt =
     bind_res (ok_or (rt_active_projection rt) Panicked) (\<lambda>active.
       let require_complete = (reason = PlanExhausted)
       in if ape_epoch active \<noteq> epoch then Inl Panicked
          else if require_complete \<and> length (ape_completed active) \<noteq> length (ape_expected active) then Inl Panicked
          else bind_res (fold_res (take_completed_projection require_complete) (ape_expected active)
              (ape_completed active, [])) (\<lambda>(_, actions).
            Inr (\<lparr>cpe_epoch = ape_epoch active, cpe_generation = ape_generation active,
                   cpe_target_namespace_doc_blob = ape_target_namespace_doc_blob active, cpe_actions = actions\<rparr>,
                 rt\<lparr>rt_active_projection := None\<rparr>)))"

section \<open>Requests, pending operations and tasks\<close>

type_synonym reply_id = nat

datatype semantic_request =
    ApplyInitScan scan_result reply_id
  | ApplyScan scan_result reply_id
  | CommitImportAction import_action_result "reply_id option"
  | CommitImportEpoch nat reply_id
  | CommitProjectionAction projection_action_result "reply_id option"
  | CommitProjectionEpoch nat end_reason reply_id
  | GetNextWork reply_id
  | ReadOutbox nat reply_id
  | ReleaseOutbox reply_id
  | TrimOutbox nat
  | ReadStableCursor reply_id
  | ReadStableNamespace reply_id
  | ApplySharedMessageBatch shared_message_batch reply_id

datatype pending_op_kind =
    PApplyInitScan reply_id
  | PApplyScan reply_id
  | PCommitImportEpoch reply_id
  | PCommitImportAction "reply_id option"
  | PCommitProjectionAction "reply_id option"
  | PCommitProjectionEpoch reply_id
  | PGetNextWork reply_id
  | PReadOutbox reply_id
  | PReleaseOutbox reply_id
  | PTrimOutbox
  | PReadStableCursor reply_id
  | PReadStableNamespace reply_id
  | PApplySharedMessageBatch reply_id

text \<open>The future a request starts, with what it captured.\<close>

datatype semantic_task =
    TApplyInitScan scan_result nat
  | TApplyScan scan_result nat
  | TCommitImportAction import_action_context import_action_result
  | TCommitImportEpoch completed_import_epoch
  | TCommitProjectionAction commit_context projection_action_result
  | TCommitProjectionEpoch completed_projection_epoch end_reason
  | TGetNextWork nat
  | TReadOutbox nat
  | TReleaseOutbox
  | TTrimOutbox nat
  | TReadStableCursor
  | TReadStableNamespace
  | TApplySharedMessageBatch shared_message_batch

datatype task_outcome =
    OApplyInitScan "import_epoch_started res"
  | OApplyScan "(next_work \<times> semantic_effects) res"
  | OCommitImportAction "action_id res"
  | OCommitImportEpoch "semantic_effects res"
  | OCommitProjectionAction "projection_action_result res"
  | OCommitProjectionEpoch "unit res"
  | OGetNextWork "next_work res"
  | OReadOutbox "(nat \<times> shared_message) list res"
  | OReleaseOutbox "nat res"
  | OTrimOutbox "unit res"
  | OReadStableCursor "nat res"
  | OReadStableNamespace "bytes res"
  | OApplySharedMessageBatch "semantic_effects res"

datatype semantic_event = ProjectionChanged nat | OutboxReady nat

datatype reply_value =
    RNextWork "next_work res"
  | RUnit "unit res"
  | ROutbox "(nat \<times> shared_message) list res"
  | RCount "nat res"
  | RCursor "nat res"
  | RNamespace "bytes res"

record semantic_actor =
  act_runtime :: semantic_runtime_state
  act_next_op_id :: nat
  act_deferred_import :: "(nat \<times> reply_id) option"
  act_deferred_projection :: "(nat \<times> end_reason \<times> reply_id) option"
  act_pending :: "(nat, pending_op_kind) btree_map"
  act_running :: "(nat \<times> semantic_task) list"
  act_engine_open :: bool
  act_events :: "semantic_event list"
  act_replies :: "(reply_id \<times> reply_value) list"

definition semantic_actor_new :: semantic_actor where
  "semantic_actor_new = \<lparr>act_runtime = runtime_default, act_next_op_id = 0, act_deferred_import = None,
     act_deferred_projection = None, act_pending = [], act_running = [], act_engine_open = True,
     act_events = [], act_replies = []\<rparr>"

section \<open>Running a task on the service\<close>

text \<open>What the outside world supplies to one call: a fault of the connection pool, the faults
  of BEGIN and COMMIT, and for every attempt the clock, generated ids and read-only client id.\<close>

record service_input =
  si_pool_fault :: "error option"
  si_begin_fault :: "nat \<Rightarrow> error option"
  si_commit_fault :: "nat \<Rightarrow> error option"
  si_now :: "nat \<Rightarrow> time_ns"
  si_object_id :: "nat \<Rightarrow> object_id"
  si_claim_id :: "nat \<Rightarrow> claim_id"
  si_client_id :: "nat \<Rightarrow> nat"

definition service_exec :: "service_input \<Rightarrow> (nat \<Rightarrow> db \<Rightarrow> ('a \<times> db) res) \<Rightarrow> db \<Rightarrow> 'a res \<times> db" where
  "service_exec i body d =
     (case si_pool_fault i of
        Some e \<Rightarrow> (Inl e, d)
      | None \<Rightarrow> exec_tx (si_begin_fault i) (si_commit_fault i) body d)"

definition service_commit_import_action ::
  "('d, 'sv) ext \<Rightarrow> service_input \<Rightarrow> import_action_context \<Rightarrow> import_action_result \<Rightarrow> db \<Rightarrow> action_id res \<times> db" where
  "service_commit_import_action X i ctx result d =
     (case prepare_import_action_stage ctx result of
        Inl e \<Rightarrow> (Inl e, d)
      | Inr (Ignore action) \<Rightarrow> (Inr action, d)
      | Inr (IgnorePersist _ _ _ _) \<Rightarrow>
          service_exec i (\<lambda>k. commit_import_action X (si_now i 0) (si_object_id i k) (si_claim_id i k) ctx result) d
      | Inr (Stage _) \<Rightarrow>
          service_exec i (\<lambda>k. commit_import_action X (si_now i k) (si_object_id i k) (si_claim_id i k) ctx result) d)"

definition service_commit_projection_action ::
  "service_input \<Rightarrow> commit_context \<Rightarrow> projection_action_result \<Rightarrow> db \<Rightarrow> projection_action_result res \<times> db" where
  "service_commit_projection_action i ctx result d =
     (case result of
        WriteFileResult _ (Written _) \<Rightarrow> service_exec i (\<lambda>_. commit_projection_action ctx result) d
      | WriteFileResult _ (AlreadyApplied _) \<Rightarrow> service_exec i (\<lambda>_. commit_projection_action ctx result) d
      | _ \<Rightarrow> (Inr result, d))"

fun run_task :: "('d, 'sv) ext \<Rightarrow> service_input \<Rightarrow> semantic_task \<Rightarrow> db \<Rightarrow> task_outcome \<times> db" where
  "run_task X i (TApplyInitScan scan epoch) d =
     apfst OApplyInitScan (service_exec i (\<lambda>k. apply_init_scan X (si_now i k) scan epoch) d)"
| "run_task X i (TApplyScan scan epoch) d =
     apfst OApplyScan (service_exec i (\<lambda>k. apply_scan X (si_now i k) scan epoch) d)"
| "run_task X i (TCommitImportAction ctx result) d =
     apfst OCommitImportAction (service_commit_import_action X i ctx result d)"
| "run_task X i (TCommitImportEpoch completed) d =
     apfst OCommitImportEpoch
       (service_exec i (\<lambda>k. commit_import_epoch X (si_client_id i k) (si_now i k) completed) d)"
| "run_task X i (TCommitProjectionAction ctx result) d =
     apfst OCommitProjectionAction (service_commit_projection_action i ctx result d)"
| "run_task X i (TCommitProjectionEpoch completed reason) d =
     apfst OCommitProjectionEpoch
       (service_exec i (\<lambda>k d. map_ok (Pair ()) (commit_projection_epoch_tx (si_now i k) completed reason d)) d)"
| "run_task X i (TGetNextWork epoch) d =
     apfst OGetNextWork (service_exec i (\<lambda>k. get_next_work_tx X epoch (si_now i k)) d)"
| "run_task X i (TReadOutbox n) d = apfst OReadOutbox (service_exec i (\<lambda>_. reserve_outbox_messages n) d)"
| "run_task X i TReleaseOutbox d = apfst OReleaseOutbox (service_exec i (\<lambda>_. release_outbox_messages) d)"
| "run_task X i (TTrimOutbox through) d =
     apfst OTrimOutbox (service_exec i (\<lambda>_ d. map_ok (Pair ()) (trim_outbox through d)) d)"
| "run_task X i TReadStableCursor d =
     apfst OReadStableCursor (service_exec i (\<lambda>_ d. map_ok (\<lambda>c. (c, d)) (select_stable_cursor d)) d)"
| "run_task X i TReadStableNamespace d =
     apfst OReadStableNamespace
       (service_exec i (\<lambda>_ d. map_ok (\<lambda>b. (b, d)) (required_namespace (select_stable_namespace d))) d)"
| "run_task X i (TApplySharedMessageBatch batch) d =
     apfst OApplySharedMessageBatch
       (service_exec i (\<lambda>k. apply_shared_message_batch_tx X (si_client_id i k) batch) d)"

text \<open>A panic inside a task unwinds through the actor that polls it.\<close>

fun outcome_panics :: "task_outcome \<Rightarrow> bool" where
  "outcome_panics (OApplyInitScan r) = (r = Inl Panicked)"
| "outcome_panics (OApplyScan r) = (r = Inl Panicked)"
| "outcome_panics (OCommitImportAction r) = (r = Inl Panicked)"
| "outcome_panics (OCommitImportEpoch r) = (r = Inl Panicked)"
| "outcome_panics (OCommitProjectionAction r) = (r = Inl Panicked)"
| "outcome_panics (OCommitProjectionEpoch r) = (r = Inl Panicked)"
| "outcome_panics (OGetNextWork r) = (r = Inl Panicked)"
| "outcome_panics (OReadOutbox r) = (r = Inl Panicked)"
| "outcome_panics (OReleaseOutbox r) = (r = Inl Panicked)"
| "outcome_panics (OTrimOutbox r) = (r = Inl Panicked)"
| "outcome_panics (OReadStableCursor r) = (r = Inl Panicked)"
| "outcome_panics (OReadStableNamespace r) = (r = Inl Panicked)"
| "outcome_panics (OApplySharedMessageBatch r) = (r = Inl Panicked)"

section \<open>The actor\<close>

definition start_op :: "pending_op_kind \<Rightarrow> semantic_task \<Rightarrow> semantic_actor \<Rightarrow> semantic_actor" where
  "start_op kind task a =
     a\<lparr>act_next_op_id := act_next_op_id a + 1,
       act_pending := bt_insert (act_next_op_id a) kind (act_pending a),
       act_running := act_running a @ [(act_next_op_id a, task)]\<rparr>"

definition send_reply :: "reply_id \<Rightarrow> reply_value \<Rightarrow> semantic_actor \<Rightarrow> semantic_actor" where
  "send_reply r v a = a\<lparr>act_replies := act_replies a @ [(r, v)]\<rparr>"

definition effects_events :: "semantic_effects \<Rightarrow> semantic_event list" where
  "effects_events eff =
     (case eff_projection_changed eff of None \<Rightarrow> [] | Some g \<Rightarrow> [ProjectionChanged g]) @
     (case eff_outbox_ready eff of None \<Rightarrow> [] | Some n \<Rightarrow> [OutboxReady n])"

definition emit :: "semantic_effects \<Rightarrow> semantic_actor \<Rightarrow> semantic_actor res" where
  "emit eff a =
     (if effects_events eff \<noteq> [] \<and> \<not> act_engine_open a then Inl Disconnected
      else Inr (a\<lparr>act_events := act_events a @ effects_events eff\<rparr>))"

definition projection_action_commits_in_flight :: "semantic_actor \<Rightarrow> bool" where
  "projection_action_commits_in_flight a \<longleftrightarrow>
     list_ex (\<lambda>(_, kind). case kind of PCommitProjectionAction _ \<Rightarrow> True | _ \<Rightarrow> False) (act_pending a)"

definition projection_epoch_ready_to_commit :: "nat \<Rightarrow> end_reason \<Rightarrow> semantic_actor \<Rightarrow> bool res" where
  "projection_epoch_ready_to_commit epoch reason a =
     bind_res (validate_projection_epoch_commit epoch (act_runtime a)) (\<lambda>_.
       if projection_action_commits_in_flight a then Inr False
       else (case reason of
          PlanExhausted \<Rightarrow> projection_epoch_complete epoch (act_runtime a)
        | ActionInvalidatedProjection _ \<Rightarrow> Inr True))"

definition start_commit_import_epoch :: "nat \<Rightarrow> reply_id \<Rightarrow> semantic_actor \<Rightarrow> semantic_actor res" where
  "start_commit_import_epoch epoch reply a =
     bind_res (finish_import_epoch epoch (act_runtime a)) (\<lambda>(completed, rt).
       Inr (start_op (PCommitImportEpoch reply) (TCommitImportEpoch completed) (a\<lparr>act_runtime := rt\<rparr>)))"

definition start_commit_projection_epoch ::
  "nat \<Rightarrow> end_reason \<Rightarrow> reply_id \<Rightarrow> semantic_actor \<Rightarrow> semantic_actor res" where
  "start_commit_projection_epoch epoch reason reply a =
     bind_res (finish_projection_epoch epoch reason (act_runtime a)) (\<lambda>(completed, rt).
       Inr (start_op (PCommitProjectionEpoch reply) (TCommitProjectionEpoch completed reason)
         (a\<lparr>act_runtime := rt\<rparr>)))"

definition start_ready_deferred_import_epoch_commit :: "semantic_actor \<Rightarrow> semantic_actor res" where
  "start_ready_deferred_import_epoch_commit a =
     (case act_deferred_import a of
        None \<Rightarrow> Inr a
      | Some (epoch, reply) \<Rightarrow>
          bind_res (import_epoch_complete epoch (act_runtime a)) (\<lambda>complete.
            if \<not> complete then Inr a
            else start_commit_import_epoch epoch reply (a\<lparr>act_deferred_import := None\<rparr>)))"

definition start_ready_deferred_projection_epoch_commit :: "semantic_actor \<Rightarrow> semantic_actor res" where
  "start_ready_deferred_projection_epoch_commit a =
     (case act_deferred_projection a of
        None \<Rightarrow> Inr a
      | Some (epoch, reason, reply) \<Rightarrow>
          bind_res (projection_epoch_ready_to_commit epoch reason a) (\<lambda>ready.
            if \<not> ready then Inr a
            else start_commit_projection_epoch epoch reason reply (a\<lparr>act_deferred_projection := None\<rparr>)))"

fun start_request :: "semantic_request \<Rightarrow> semantic_actor \<Rightarrow> semantic_actor res" where
  "start_request (ApplyInitScan scan reply) a =
     bind_res (reserve_import_epoch (act_runtime a)) (\<lambda>(epoch, rt).
       Inr (start_op (PApplyInitScan reply) (TApplyInitScan scan epoch) (a\<lparr>act_runtime := rt\<rparr>)))"
| "start_request (ApplyScan scan reply) a =
     bind_res (reserve_import_epoch (act_runtime a)) (\<lambda>(epoch, rt).
       Inr (start_op (PApplyScan reply) (TApplyScan scan epoch) (a\<lparr>act_runtime := rt\<rparr>)))"
| "start_request (CommitImportAction result reply) a =
     bind_res (validate_import_action result (act_runtime a)) (\<lambda>context.
       Inr (start_op (PCommitImportAction reply) (TCommitImportAction context result) a))"
| "start_request (CommitImportEpoch epoch reply) a =
     bind_res (validate_import_epoch_commit epoch (act_runtime a)) (\<lambda>_.
     if act_deferred_import a \<noteq> None then Inl Panicked
     else bind_res (import_epoch_complete epoch (act_runtime a)) (\<lambda>complete.
       if complete then start_commit_import_epoch epoch reply a
       else Inr (a\<lparr>act_deferred_import := Some (epoch, reply)\<rparr>)))"
| "start_request (CommitProjectionAction result reply) a =
     bind_res (validate_projection_action result (act_runtime a)) (\<lambda>context.
       Inr (start_op (PCommitProjectionAction reply) (TCommitProjectionAction context result) a))"
| "start_request (CommitProjectionEpoch epoch reason reply) a =
     bind_res (validate_projection_epoch_commit epoch (act_runtime a)) (\<lambda>_.
     if act_deferred_projection a \<noteq> None then Inl Panicked
     else bind_res (projection_epoch_ready_to_commit epoch reason a) (\<lambda>ready.
       if ready then start_commit_projection_epoch epoch reason reply a
       else Inr (a\<lparr>act_deferred_projection := Some (epoch, reason, reply)\<rparr>)))"
| "start_request (GetNextWork reply) a =
     bind_res (reserve_projection_epoch (act_runtime a)) (\<lambda>(epoch, rt).
       Inr (start_op (PGetNextWork reply) (TGetNextWork epoch) (a\<lparr>act_runtime := rt\<rparr>)))"
| "start_request (ReadOutbox n reply) a = Inr (start_op (PReadOutbox reply) (TReadOutbox n) a)"
| "start_request (ReleaseOutbox reply) a = Inr (start_op (PReleaseOutbox reply) TReleaseOutbox a)"
| "start_request (TrimOutbox through) a = Inr (start_op PTrimOutbox (TTrimOutbox through) a)"
| "start_request (ReadStableCursor reply) a = Inr (start_op (PReadStableCursor reply) TReadStableCursor a)"
| "start_request (ReadStableNamespace reply) a =
     Inr (start_op (PReadStableNamespace reply) TReadStableNamespace a)"
| "start_request (ApplySharedMessageBatch batch reply) a =
     Inr (start_op (PApplySharedMessageBatch reply) (TApplySharedMessageBatch batch) a)"

text \<open>The closure of \<open>result.and_then\<close> that emits the effects first: a failed emit becomes the reply.\<close>

definition reply_after_emit ::
  "reply_id \<Rightarrow> (unit res \<Rightarrow> reply_value) \<Rightarrow> semantic_effects res \<Rightarrow> semantic_actor \<Rightarrow> semantic_actor" where
  "reply_after_emit reply wrap r a =
     (case r of
        Inl e \<Rightarrow> send_reply reply (wrap (Inl e)) a
      | Inr eff \<Rightarrow>
          (case emit eff a of
             Inl e \<Rightarrow> send_reply reply (wrap (Inl e)) a
           | Inr a' \<Rightarrow> send_reply reply (wrap (Inr ())) a'))"

text \<open>The end of an action commit: without a reply channel an error ends the actor.\<close>

definition conclude_action ::
  "reply_id option \<Rightarrow> unit res \<Rightarrow> (semantic_actor \<Rightarrow> semantic_actor res) \<Rightarrow> semantic_actor \<Rightarrow> semantic_actor res" where
  "conclude_action reply result continue a =
     bind_res (case reply of
          Some r \<Rightarrow> Inr (send_reply r (RUnit result) a)
        | None \<Rightarrow> map_ok (\<lambda>_. a) result) (\<lambda>a'.
       if is_ok result then continue a' else Inr a')"

fun finish_pending :: "task_outcome \<Rightarrow> pending_op_kind \<Rightarrow> semantic_actor \<Rightarrow> semantic_actor res" where
  "finish_pending (OApplyInitScan result) kind a =
     (case kind of PApplyInitScan reply \<Rightarrow>
       (case result of
          Inl e \<Rightarrow> Inr (send_reply reply (RNextWork (Inl e)) a)
        | Inr started \<Rightarrow>
            bind_res (install_import_epoch started Init (act_runtime a)) (\<lambda>rt.
              Inr (send_reply reply (RNextWork (Inr (Import started))) (a\<lparr>act_runtime := rt\<rparr>))))
      | _ \<Rightarrow> Inl Fatal)"
| "finish_pending (OApplyScan result) kind a =
     (case kind of PApplyScan reply \<Rightarrow>
       (case result of
          Inl e \<Rightarrow> Inr (send_reply reply (RNextWork (Inl e)) a)
        | Inr (next, eff) \<Rightarrow>
            (case emit eff a of
               Inl e \<Rightarrow> Inr (send_reply reply (RNextWork (Inl e)) a)
             | Inr a1 \<Rightarrow>
                 bind_res
                   (case next of
                      Import started \<Rightarrow> install_import_epoch started Sync (act_runtime a1)
                    | _ \<Rightarrow> Inr (act_runtime a1)) (\<lambda>rt.
                   Inr (send_reply reply (RNextWork (Inr next)) (a1\<lparr>act_runtime := rt\<rparr>)))))
      | _ \<Rightarrow> Inl Fatal)"
| "finish_pending (OCommitImportAction result) kind a =
     (case kind of PCommitImportAction reply \<Rightarrow>
       (case result of
          Inl e \<Rightarrow> conclude_action reply (Inl e) start_ready_deferred_import_epoch_commit a
        | Inr action \<Rightarrow>
            bind_res (finish_import_action action (act_runtime a)) (\<lambda>rt.
              conclude_action reply (Inr ()) start_ready_deferred_import_epoch_commit (a\<lparr>act_runtime := rt\<rparr>)))
      | _ \<Rightarrow> Inl Fatal)"
| "finish_pending (OApplySharedMessageBatch result) kind a =
     (case kind of PApplySharedMessageBatch reply \<Rightarrow>
       Inr (reply_after_emit reply RUnit result a)
      | _ \<Rightarrow> Inl Fatal)"
| "finish_pending (OCommitImportEpoch result) kind a =
     (case kind of PCommitImportEpoch reply \<Rightarrow>
       Inr (reply_after_emit reply RUnit result a)
      | _ \<Rightarrow> Inl Fatal)"
| "finish_pending (OCommitProjectionAction result) kind a =
     (case kind of PCommitProjectionAction reply \<Rightarrow>
       (case result of
          Inl e \<Rightarrow> conclude_action reply (Inl e) start_ready_deferred_projection_epoch_commit a
        | Inr done \<Rightarrow>
            bind_res (finish_projection_action done (act_runtime a)) (\<lambda>rt.
              conclude_action reply (Inr ()) start_ready_deferred_projection_epoch_commit (a\<lparr>act_runtime := rt\<rparr>)))
      | _ \<Rightarrow> Inl Fatal)"
| "finish_pending (OCommitProjectionEpoch result) kind a =
     (case kind of PCommitProjectionEpoch reply \<Rightarrow>
       Inr (send_reply reply (RUnit result) a)
      | _ \<Rightarrow> Inl Fatal)"
| "finish_pending (OGetNextWork result) kind a =
     (case kind of PGetNextWork reply \<Rightarrow>
       bind_res
         (case result of
            Inr (Project started) \<Rightarrow> install_projection_epoch started (act_runtime a)
          | _ \<Rightarrow> Inr (act_runtime a)) (\<lambda>rt.
         Inr (send_reply reply (RNextWork result) (a\<lparr>act_runtime := rt\<rparr>)))
      | _ \<Rightarrow> Inl Fatal)"
| "finish_pending (OReadOutbox result) kind a =
     (case kind of PReadOutbox reply \<Rightarrow>
       Inr (send_reply reply (ROutbox result) a)
      | _ \<Rightarrow> Inl Fatal)"
| "finish_pending (OReleaseOutbox result) kind a =
     (case kind of PReleaseOutbox reply \<Rightarrow>
       Inr (send_reply reply (RCount result) a)
      | _ \<Rightarrow> Inl Fatal)"
| "finish_pending (OTrimOutbox result) kind a =
     (case kind of PTrimOutbox \<Rightarrow>
       map_ok (\<lambda>_. a) result
      | _ \<Rightarrow> Inl Fatal)"
| "finish_pending (OReadStableCursor result) kind a =
     (case kind of PReadStableCursor reply \<Rightarrow>
       Inr (send_reply reply (RCursor result) a)
      | _ \<Rightarrow> Inl Fatal)"
| "finish_pending (OReadStableNamespace result) kind a =
     (case kind of PReadStableNamespace reply \<Rightarrow>
       Inr (send_reply reply (RNamespace result) a)
      | _ \<Rightarrow> Inl Fatal)"

definition finish_task_result :: "nat \<times> task_outcome \<Rightarrow> semantic_actor \<Rightarrow> semantic_actor res" where
  "finish_task_result r a =
     bind_res (ok_or (bt_get (act_pending a) (fst r)) Fatal) (\<lambda>kind.
       finish_pending (snd r) kind (a\<lparr>act_pending := bt_remove (fst r) (act_pending a)\<rparr>))"

text \<open>One turn of the event loop: a request is taken only while nothing runs, or the running
  task completes.\<close>

datatype actor_turn = TakeRequest semantic_request | TaskDone service_input

definition semantic_turn ::
  "('d, 'sv) ext \<Rightarrow> actor_turn \<Rightarrow> semantic_actor \<times> db \<Rightarrow> (semantic_actor \<times> db) res" where
  "semantic_turn X t s =
     (case s of (a, d) \<Rightarrow>
       (case (t, act_running a) of
          (TakeRequest request, []) \<Rightarrow> map_ok (\<lambda>a'. (a', d)) (start_request request a)
        | (TaskDone i, (op, task) # rest) \<Rightarrow>
            (case run_task X i task d of (outcome, d') \<Rightarrow>
               if outcome_panics outcome then Inl Panicked
               else map_ok (\<lambda>a'. (a', d')) (finish_task_result (op, outcome) (a\<lparr>act_running := rest\<rparr>)))
        | _ \<Rightarrow> Inr s))"

end
