(* ===== verification/Projection.thy ===== *)
theory Projection
  imports Service
begin

text \<open>
  What the projection half of the service guarantees: rewriting the stable projection succeeds
  (rows are deleted before rows are inserted, so the uniqueness of claim ids never blocks a move)
  and leaves exactly the placements of the document; the plan of the next projection is empty
  exactly when the prior tree agrees with the stable tree; committing a completed plan leaves
  nothing to project.
\<close>

section \<open>Views\<close>

definition stable_entry :: "stable_tree_row \<Rightarrow> relative_path \<times> relative_path \<times> claim_id \<times> object_id" where
  "stable_entry r = (st_path r, st_claimed_path r, st_claim_id r, st_object_id r)"

definition placement_entry :: "desired_placement \<Rightarrow> relative_path \<times> relative_path \<times> claim_id \<times> object_id" where
  "placement_entry p = (dp_path p, dp_claimed_path p, dp_claim_id p, dp_object_id p)"

definition stable_files :: "db \<Rightarrow> (relative_path \<times> relative_path \<times> claim_id \<times> object_id) set" where
  "stable_files d = stable_entry ` snd ` set (db_stable_tree d)"

definition want_entry :: "relative_path \<times> desired_stable_tree_file \<Rightarrow>
    relative_path \<times> relative_path \<times> claim_id \<times> object_id" where
  "want_entry e = (fst e, dst_claimed_path (snd e), dst_claim_id (snd e), dst_object_id (snd e))"

text \<open>A document with two text files that claim one path, and a database just set up.\<close>

definition demo_text_doc :: demo_doc where
  "demo_text_doc =
     ([((''objects'', ''A''), YMap [(''c'', YAny (YBuffer ''w'')), (''k'', YAny (YString ''text''))]),
       ((''objects'', ''B''), YMap [(''c'', YAny (YBuffer ''v'')), (''k'', YAny (YString ''text''))]),
       ((''claims'', ''x''), YMap [(''o'', YAny (YBuffer ''A'')), (''p'', YAny (YString ''n.md''))]),
       ((''claims'', ''y''), YMap [(''o'', YAny (YBuffer ''B'')), (''p'', YAny (YString ''n.md''))])], [])"

definition demo_projection_db :: db where
  "demo_projection_db = empty_db\<lparr>db_stable_namespace := Some ([], 0)\<rparr>"

section \<open>Lemmas: the placements are writable\<close>

lemma res_ok_Some [simp]: "res_ok m = Some x \<longleftrightarrow> m = Inr x"
  by (cases m) (auto simp: res_ok_def)

lemma claim_record_path_valid: "claim_record_from_out X v = Some r \<Longrightarrow> rp_valid (cr_path r)"
  by (auto simp: claim_record_from_out_def bind_eq_Some_conv dest: relative_path_parse_sound
      split: yout.splits yany.splits)

lemma map_res_mem: "map_res f xs = Inr ys \<Longrightarrow> y \<in> set ys \<Longrightarrow> \<exists>x\<in>set xs. f x = Inr y"
  by (induction xs arbitrary: ys) (auto simp: res_simps)

lemma collect_paths_valid:
  assumes "collect_materialization_claims X doc = Inr cs" and "c \<in> set cs"
  shows "rp_valid (mc_path c)"
proof -
  from assms(1) obtain as where as: "ns_active_claims X doc = Inr as"
    and cs: "map_res (materialization_claim_of X doc) as = Inr cs"
    by (auto simp: collect_materialization_claims_def res_simps)
  from map_res_mem [OF cs assms(2)] obtain a where a: "a \<in> set as" "materialization_claim_of X doc a = Inr c" by blast
  from map_res_mem [OF as [unfolded ns_active_claims_def] a(1)] obtain kv where "active_claim_of X kv = Inr a" by blast
  then have "rp_valid (cr_path (ac_record a))"
    by (auto simp: active_claim_of_def res_simps claim_record_path_valid)
  with a(2) show ?thesis by (auto simp: materialization_claim_of_def res_simps)
qed

lemma set_tl_sort: "c \<in> set (tl (sort_key k g)) \<Longrightarrow> c \<in> set g"
  by (metis list.sel(2) list.set_sel(2) set_sort)

lemma losers_valid:
  assumes "place_losers X cs occ = Inr ps" and "\<forall>c\<in>set cs. rp_valid (mc_path c)"
  shows "\<forall>p\<in>set ps. rp_valid (dp_path p)"
  using assms
proof (induction cs arbitrary: occ ps)
  case (Cons c cs)
  then obtain p rest where p: "next_available_conflict_path X c occ = Inr p"
    and rest: "place_losers X cs (p # occ) = Inr rest" and ps: "ps = place_claim p c # rest"
    by (auto simp: res_simps)
  from p obtain n where "with_file_name (mc_path c) n = Inr p"
    unfolding next_available_conflict_path_def by (auto dest!: first_free_candidate_ok)
  then have "rp_valid p" using Cons.prems(2) by (auto intro: with_file_name_valid)
  with Cons.IH [OF rest] Cons.prems(2) ps show ?case by (simp add: place_claim_def)
qed simp

lemma placements_valid:
  assumes "materialize_namespace X doc = Inr np" and "p \<in> set (np_placements np)"
  shows "rp_valid (dp_path p)" "rp_valid (dp_claimed_path p)"
proof -
  from assms(1) obtain cs ps where cs: "collect_materialization_claims X doc = Inr cs"
    and ps: "derive_visible_placements X (sort_claims_deterministically cs) = Inr ps" and np: "np_placements np = ps"
    by (auto simp: materialize_namespace_def res_simps)
  let ?cs = "sort_claims_deterministically cs"
  let ?m = "claims_by_requested_path ?cs"
  have valid: "rp_valid (mc_path c)" if "c \<in> set ?cs" for c
    using that collect_paths_valid [OF cs] by (simp add: sort_claims_deterministically_def)
  show "rp_valid (dp_claimed_path p)"
  proof -
    have "placement_content p \<in> claim_content ` set ?cs"
      using derive_content [OF ps] assms(2) np by (metis image_eqI list.set_map set_mset_mset)
    then show ?thesis using valid by (auto simp: placement_content_def claim_content_def)
  qed
  have groups: "rp_valid q" if "q \<in> set (map fst ?m)" for q
    using that valid unfolding claims_group_keys by auto
  from derive_ok_split [OF ps] obtain ls where
    ls: "place_losers X (concat (map (\<lambda>(p, g). tl (sort_key claim_rank g)) ?m)) (map fst ?m) = Inr ls"
    and sorted: "ps = sort_key placement_key
       (map (\<lambda>(p, g). (place_claim p (hd (sort_key claim_rank g)))\<lparr>dp_claimed_path := p\<rparr>) ?m @ ls)" by blast
  have "c \<in> set ?cs" if "c \<in> set (concat (map (\<lambda>(p, g). tl (sort_key claim_rank g)) ?m))" for c
    using that by (auto simp: claims_group_mem dest!: set_tl_sort)
  then have "\<forall>p\<in>set ls. rp_valid (dp_path p)" using losers_valid [OF ls] valid by blast
  moreover have "dp_path p \<in> set (map fst ?m) \<union> dp_path ` set ls"
    using assms(2) unfolding np sorted set_sort set_append by (force simp: place_claim_def)
  ultimately show "rp_valid (dp_path p)" using groups by auto
qed

lemma placement_claims_distinct:
  assumes "materialize_namespace X doc = Inr np" and "map_iter_ok X doc" and "b64_ok X"
  shows "distinct (map dp_claim_id (np_placements np))" "distinct (map dp_path (np_placements np))"
proof -
  from assms(1) obtain cs ps where cs: "collect_materialization_claims X doc = Inr cs"
    and ps: "derive_visible_placements X (sort_claims_deterministically cs) = Inr ps" and np: "np_placements np = ps"
    by (auto simp: materialize_namespace_def res_simps)
  have "mset (map (fst \<circ> snd) (map placement_content ps)) = mset (map (fst \<circ> snd) (map claim_content cs))"
    using derive_content [OF ps] by (simp only: mset_map) (simp add: sort_claims_deterministically_def)
  then have "mset (map dp_claim_id ps) = mset (map mc_claim_id cs)"
    by (simp add: placement_content_def claim_content_def comp_def)
  then show "distinct (map dp_claim_id (np_placements np))"
    using collect_claims_distinct [OF assms(2,3) cs] np by (metis mset_eq_imp_distinct_iff)
  show "distinct (map dp_path (np_placements np))"
    unfolding np by (rule derive_paths_distinct [OF ps])
qed

section \<open>Lemmas: the loops of the stable projection\<close>

lemma to_db_path_nonempty: "rp_valid p \<Longrightarrow> to_db_path p \<noteq> []"
  using to_db_path_valid by (fastforce simp: relative_path_parse_def)

lemma bt_set_insert_new:
  "bt_get m k = None \<Longrightarrow> set (bt_insert k v m) = insert (k, v) (set m)"
  using arg_cong [OF bt_insert_new_mset, of m k set_mset v] by simp

lemma fold_insert_unique:
  assumes "bt_wf m" and "distinct (map f xs)" and "\<forall>x\<in>set xs. bt_get m (f x) = None"
  shows "\<exists>m'. fold_res (\<lambda>x. insert_unique (f x) (g x)) xs m = Inr m' \<and> bt_wf m' \<and>
    set m' = set m \<union> (\<lambda>x. (f x, g x)) ` set xs"
  using assms
proof (induction xs arbitrary: m)
  case (Cons x xs)
  let ?m = "bt_insert (f x) (g x) m"
  have "\<forall>y\<in>set xs. bt_get ?m (f y) = None"
    using Cons.prems(2,3) by (auto simp: bt_get_insert) (metis imageI)
  from Cons.IH [OF bt_wf_insert [OF Cons.prems(1)] _ this] Cons.prems show ?case
    by (auto simp: insert_unique_def bt_set_insert_new)
qed simp

lemma fold_res_cong: "(\<And>x s. x \<in> set xs \<Longrightarrow> f x s = g x s) \<Longrightarrow> fold_res f xs s = fold_res g xs s"
  by (induction xs arbitrary: s) (auto simp: bind_res_def split: sum.splits)

lemma select_stable_rows:
  assumes "db_wf d"
  shows "select_stable_tree_files d = Inr (map snd (db_stable_tree d))"
proof -
  have "\<forall>r\<in>set (map snd (db_stable_tree d)). stable_tree_row_ok r"
    using tbl_wfD(3) [OF db_wfD(4) [OF assms]] by auto
  then show ?thesis
    unfolding select_stable_tree_files_def read_stable_row_def
    by (intro map_res_all_ok [where g = id, simplified]) (auto simp: stable_tree_codec.decode_cols)
qed

lemma stable_keys:
  assumes "db_wf d" and "(k, r) \<in> set (db_stable_tree d)"
  shows "k = st_key r" "rp_valid (st_path r)"
  using tbl_wfD(2,3) [OF db_wfD(4) [OF assms(1)] assms(2)] by (auto simp: stable_tree_row_ok_def)

lemma stable_paths_distinct:
  assumes "db_wf d"
  shows "distinct (map st_path (map snd (db_stable_tree d)))"
proof -
  have "map fst (db_stable_tree d) = map to_db_path (map st_path (map snd (db_stable_tree d)))"
    using stable_keys(1) [OF assms] by (auto simp: prod_eq_iff)
  moreover have "distinct (map fst (db_stable_tree d))"
    using tbl_wfD(1) [OF db_wfD(4) [OF assms]] by (rule bt_wf_distinct)
  ultimately show ?thesis by (metis distinct_map)
qed

lemma ensure_objects:
  assumes "db_wf d" and "i64_range t" and "\<forall>x\<in>set objs. meta_kind (co_meta x) = Text"
  shows "\<exists>obs. fold_res (ensure_confirmed_object t) objs d = Inr (d\<lparr>db_objects := obs\<rparr>) \<and>
    db_wf (d\<lparr>db_objects := obs\<rparr>)"
  using assms
proof (induction objs arbitrary: d)
  case Nil
  then show ?case by (intro exI [of _ "db_objects d"]) simp
next
  case (Cons x objs)
  from Cons.prems obtain obs where obs: "ensure_confirmed_object t x d = Inr (d\<lparr>db_objects := obs\<rparr>)"
    by (fastforce simp: ensure_confirmed_object_def insert_or_ignore_object_def datetime_to_unix_ns_def
        intro: that [of "db_objects d"])
  then have "db_wf (d\<lparr>db_objects := obs\<rparr>)"
    using Cons.prems(1,3) by (auto simp: ensure_confirmed_object_def intro: insert_or_ignore_object_wf)
  from Cons.IH [OF this Cons.prems(2)] Cons.prems(3) obs show ?case by auto
qed

lemma delete_stable_fold:
  assumes "bt_wf (db_stable_tree d)"
  shows "fold_res delete_stable_tree_file ps d =
    Inr (d\<lparr>db_stable_tree := filter (\<lambda>e. fst e \<notin> to_db_path ` set ps) (db_stable_tree d)\<rparr>)"
  using assms
proof (induction ps arbitrary: d)
  case (Cons p ps)
  have "bt_remove (to_db_path p) (db_stable_tree d) = filter (\<lambda>e. fst e \<noteq> to_db_path p) (db_stable_tree d)"
    by (rule bt_remove_eq_filter [OF bt_wf_distinct [OF Cons.prems]])
  with Cons.IH [of "d\<lparr>db_stable_tree := bt_remove (to_db_path p) (db_stable_tree d)\<rparr>"] Cons.prems show ?case
    by (auto simp: delete_stable_tree_file_def bt_wf_filter intro!: filter_cong)
qed simp

text \<open>The insert loop: what is in the table already are entries of the target, none of which is
  still to be inserted, and no two entries of the target share a path or a claim.\<close>

definition insert_want :: "time_ns \<Rightarrow> relative_path \<times> desired_stable_tree_file \<Rightarrow> db \<Rightarrow> db res" where
  "insert_want t = (\<lambda>(path, want).
     insert_stable_tree_file path (dst_claimed_path want) (dst_claim_id want) (dst_object_id want) t)"

definition target_ok :: "(relative_path \<times> relative_path \<times> claim_id \<times> object_id) set \<Rightarrow> bool" where
  "target_ok T \<longleftrightarrow>
     (\<forall>(p, q, c, x)\<in>T. rp_valid p \<and> rp_valid q) \<and>
     (\<forall>a\<in>T. \<forall>b\<in>T. fst a = fst b \<or> fst (snd (snd a)) = fst (snd (snd b)) \<longrightarrow> a = b)"

lemma insert_want_step:
  assumes "i64_range t" and "target_ok T" and "want_entry e \<in> T"
    and "\<forall>(k, r)\<in>set (db_stable_tree d). k = st_key r \<and> stable_entry r \<in> T - {want_entry e}"
  shows "\<exists>tree r. insert_want t e d = Inr (d\<lparr>db_stable_tree := tree\<rparr>) \<and> stable_entry r = want_entry e \<and>
    set tree = insert (st_key r, r) (set (db_stable_tree d)) \<and>
    tree = bt_insert (to_db_path (fst e)) r (db_stable_tree d)"
proof -
  obtain p w where e: "e = (p, w)" by (cases e)
  let ?r = "\<lparr>st_path = p, st_claimed_path = dst_claimed_path w, st_claim_id = dst_claim_id w,
      st_object_id = dst_object_id w, st_updated_at = t\<rparr>"
  have valid: "rp_valid p" "rp_valid (dst_claimed_path w)"
    using assms(2,3) by (auto simp: target_ok_def want_entry_def e)
  have nonempty: "to_db_path p \<noteq> []" "to_db_path (dst_claimed_path w) \<noteq> []"
    using valid by (simp_all add: to_db_path_nonempty)
  have other: "st_key r \<noteq> to_db_path p \<and> st_claim_id r \<noteq> dst_claim_id w" if "(k, r) \<in> set (db_stable_tree d)" for k r
  proof -
    from that assms(4) have r: "stable_entry r \<in> T" "stable_entry r \<noteq> want_entry e" by auto
    with assms(2,3) have "fst (stable_entry r) \<noteq> fst (want_entry e)"
      "fst (snd (snd (stable_entry r))) \<noteq> fst (snd (snd (want_entry e)))"
      unfolding target_ok_def by blast+
    moreover have "rp_valid (st_path r)" using r(1) assms(2) by (auto simp: target_ok_def stable_entry_def)
    ultimately show ?thesis using to_db_path_inj valid(1) by (auto simp: stable_entry_def want_entry_def e)
  qed
  have fresh: "bt_get (db_stable_tree d) (to_db_path p) = None"
    using other assms(4) by (fastforce simp: bt_get_def map_of_eq_None_iff)
  have "insert_want t e d = Inr (d\<lparr>db_stable_tree := bt_insert (to_db_path p) ?r (db_stable_tree d)\<rparr>)"
    using assms(1) nonempty fresh other
    by (auto simp: insert_want_def e insert_stable_tree_file_def datetime_to_unix_ns_def)
  then show ?thesis
    using fresh by (intro exI [of _ "bt_insert (to_db_path p) ?r (db_stable_tree d)"] exI [of _ ?r])
      (simp add: e stable_entry_def want_entry_def bt_set_insert_new)
qed

lemma insert_want_fold:
  assumes "i64_range t" and "target_ok T" and "want_entry ` set es \<subseteq> T" and "distinct (map want_entry es)"
    and "\<forall>(k, r)\<in>set (db_stable_tree d). k = st_key r \<and> stable_entry r \<in> T - want_entry ` set es"
    and "bt_wf (db_stable_tree d)"
  shows "\<exists>tree. fold_res (insert_want t) es d = Inr (d\<lparr>db_stable_tree := tree\<rparr>) \<and> bt_wf tree \<and>
    (\<forall>(k, r)\<in>set tree. k = st_key r) \<and>
    (stable_entry \<circ> snd) ` set tree = (stable_entry \<circ> snd) ` set (db_stable_tree d) \<union> want_entry ` set es"
  using assms(3-)
proof (induction es arbitrary: d)
  case Nil
  then show ?case by (intro exI [of _ "db_stable_tree d"]) auto
next
  case (Cons e es)
  have "\<forall>(k, r)\<in>set (db_stable_tree d). k = st_key r \<and> stable_entry r \<in> T - {want_entry e}"
    using Cons.prems(3) by auto
  from insert_want_step [OF assms(1,2) _ this] Cons.prems(1) obtain tree r where
    step: "insert_want t e d = Inr (d\<lparr>db_stable_tree := tree\<rparr>)" "stable_entry r = want_entry e"
      "set tree = insert (st_key r, r) (set (db_stable_tree d))"
      "tree = bt_insert (to_db_path (fst e)) r (db_stable_tree d)" by auto
  let ?d = "d\<lparr>db_stable_tree := tree\<rparr>"
  have "\<forall>(k, r)\<in>set tree. k = st_key r \<and> stable_entry r \<in> T - want_entry ` set es"
    using Cons.prems(1-3) step(2,3) by auto
  moreover have "bt_wf tree" using Cons.prems(4) step(4) by (simp add: bt_wf_insert)
  ultimately obtain tree' where tree': "fold_res (insert_want t) es ?d = Inr (?d\<lparr>db_stable_tree := tree'\<rparr>)" "bt_wf tree'"
      "\<forall>(k, r)\<in>set tree'. k = st_key r"
      "(stable_entry \<circ> snd) ` set tree' = (stable_entry \<circ> snd) ` set tree \<union> want_entry ` set es"
    using Cons.IH [of ?d] Cons.prems(1,2) by auto
  then show ?case
    using step by (intro exI [of _ tree']) (auto simp: tree'(4))
qed

text \<open>The delta between the current and the desired tree.\<close>

lemma bt_functional: "bt_wf m \<Longrightarrow> (p, a) \<in> set m \<Longrightarrow> (p, b) \<in> set m \<Longrightarrow> a = b"
  by (metis bt_get_Some_iff option.inject)

lemma map_filter_mem: "x \<in> set (List.map_filter f xs) \<longleftrightarrow> (\<exists>y\<in>set xs. f y = Some x)"
  by (induction xs) (auto simp: map_filter_simps split: option.splits)

lemma delta_inserts_mem:
  "(p, w) \<in> set (stable_delta_inserts current desired) \<longleftrightarrow>
     (\<exists>row. (p, row) \<in> set current \<and> bt_get desired p = Some w \<and> \<not> stable_tree_row_matches_desired row w) \<or>
     (p, w) \<in> set desired \<and> bt_get current p = None"
proof -
  have "(p, w) \<in> set (List.map_filter (\<lambda>(path, row). case bt_get desired path of None \<Rightarrow> None
        | Some want \<Rightarrow> if stable_tree_row_matches_desired row want then None else Some (path, want)) current) \<longleftrightarrow>
      (\<exists>row. (p, row) \<in> set current \<and> bt_get desired p = Some w \<and> \<not> stable_tree_row_matches_desired row w)"
    unfolding map_filter_mem by (force split: option.splits if_splits)
  then show ?thesis by (simp add: stable_delta_inserts_def)
qed

lemma delta_inserts_distinct:
  assumes "bt_wf current" "bt_wf desired"
  shows "distinct (map fst (stable_delta_inserts current desired))"
proof -
  let ?f = "\<lambda>(path, row). case bt_get desired path of None \<Rightarrow> None
      | Some want \<Rightarrow> if stable_tree_row_matches_desired row want then None else Some (path, want)"
  have sub: "set (map fst (List.map_filter ?f xs)) \<subseteq> set (map fst xs)" for xs
    by (induction xs) (auto simp: map_filter_simps split: option.splits if_splits)
  have "distinct (map fst (List.map_filter ?f xs))" if "distinct (map fst xs)" for xs
    using that
  proof (induction xs)
    case (Cons x xs)
    then have "fst x \<notin> fst ` set (List.map_filter ?f xs)" using sub [of xs] by auto
    with Cons show ?case by (cases x) (auto simp: map_filter_simps image_iff split: option.splits if_splits)
  qed (simp add: map_filter_simps)
  then have "distinct (map fst (List.map_filter ?f current))" using assms(1) bt_wf_distinct by blast
  moreover have "distinct (map fst (filter (\<lambda>(path, want). bt_get current path = None) desired))"
    using assms(2) bt_wf_distinct distinct_map_filter_snoc by blast
  moreover have "p \<notin> fst ` set (filter (\<lambda>(path, want). bt_get current path = None) desired)"
    if "p \<in> set (map fst current)" for p
    using that by (auto simp: bt_get_def map_of_eq_None_iff image_iff)
  then have "set (map fst (List.map_filter ?f current)) \<inter>
      set (map fst (filter (\<lambda>(path, want). bt_get current path = None) desired)) = {}"
    using sub [of current] by (simp only: list.set_map) blast
  ultimately show ?thesis
    unfolding stable_delta_inserts_def by (simp only: map_append distinct_append)
qed

lemma delta_cases:
  assumes wf: "bt_wf current" "bt_wf desired" and want: "(p, w) \<in> set desired"
  shows "(p, w) \<in> set (stable_delta_inserts current desired) \<longleftrightarrow>
    \<not> (\<exists>row. (p, row) \<in> set current \<and> stable_tree_row_matches_desired row w)"
proof -
  have get: "bt_get desired p = Some w" using wf want by (simp add: bt_get_Some_iff)
  show ?thesis
  proof (cases "bt_get current p")
    case None
    then have "\<not> (\<exists>row. (p, row) \<in> set current)" using bt_get_Some_iff [OF wf(1)] by (metis option.distinct(1))
    with None want show ?thesis by (simp add: delta_inserts_mem)
  next
    case (Some row)
    then have "(p, row') \<in> set current \<longleftrightarrow> row' = row" for row'
      using bt_get_Some_iff [OF wf(1)] bt_functional [OF wf(1)] by blast
    with Some get show ?thesis by (simp add: delta_inserts_mem)
  qed
qed

lemma delta_deletes:
  assumes "bt_wf current" "bt_wf desired" and "(p, row) \<in> set current"
  shows "p \<notin> set (stable_delta_deletes current desired) \<longleftrightarrow>
    (\<exists>w. (p, w) \<in> set desired \<and> stable_tree_row_matches_desired row w)"
proof -
  have "(p, row') \<in> set current \<longleftrightarrow> row' = row" for row'
    using assms(3) bt_functional [OF assms(1)] by blast
  then have "p \<notin> set (stable_delta_deletes current desired) \<longleftrightarrow>
      (\<exists>w. bt_get desired p = Some w \<and> stable_tree_row_matches_desired row w)"
    using assms(3) by (auto simp: stable_delta_deletes_def image_iff split: option.splits)
  then show ?thesis using assms(2) by (simp add: bt_get_Some_iff)
qed

lemma matches_entry:
  "st_path row = p \<Longrightarrow> stable_tree_row_matches_desired row w \<longleftrightarrow> stable_entry row = want_entry (p, w)"
  by (auto simp: stable_tree_row_matches_desired_def stable_entry_def want_entry_def)

lemma desired_tree_of:
  assumes "distinct (map dp_path ps)" and "\<forall>p\<in>set ps. dp_kind p = Text"
  shows "\<exists>desired. fold_res add_desired ps [] = Inr desired \<and> bt_wf desired \<and>
    want_entry ` set desired = placement_entry ` set ps"
proof -
  let ?g = "\<lambda>p. \<lparr>dst_claimed_path = dp_claimed_path p, dst_claim_id = dp_claim_id p, dst_object_id = dp_object_id p\<rparr>"
  have "fold_res add_desired ps [] = fold_res (\<lambda>p. insert_unique (dp_path p) (?g p)) ps []"
    using assms(2) by (intro fold_res_cong) (simp add: add_desired_def)
  with fold_insert_unique [OF bt_wf_Nil assms(1), of ?g] show ?thesis
    by (auto simp: want_entry_def placement_entry_def image_image)
qed

lemma current_tree_of:
  assumes "db_wf d"
  shows "\<exists>current. fold_res (\<lambda>row. insert_unique (st_path row) row) (map snd (db_stable_tree d)) [] = Inr current \<and>
    bt_wf current \<and> set current = (\<lambda>e. (st_path (snd e), snd e)) ` set (db_stable_tree d)"
  using fold_insert_unique [OF bt_wf_Nil stable_paths_distinct [OF assms], of "\<lambda>r. r"]
  by (auto simp: image_image)

lemma apply_delta:
  assumes wf: "db_wf d" and t: "i64_range t" and T: "target_ok (want_entry ` set desired)" and des: "bt_wf desired"
    and cur: "bt_wf current" "set current = (\<lambda>e. (st_path (snd e), snd e)) ` set (db_stable_tree d)"
  shows "\<exists>tree. bind_res (fold_res delete_stable_tree_file (stable_delta_deletes current desired) d)
      (fold_res (insert_want t) (stable_delta_inserts current desired)) = Inr (d\<lparr>db_stable_tree := tree\<rparr>) \<and>
    bt_wf tree \<and> (\<forall>(k, r)\<in>set tree. k = st_key r) \<and>
    (stable_entry \<circ> snd) ` set tree = want_entry ` set desired"
proof -
  let ?dels = "stable_delta_deletes current desired" and ?ins = "stable_delta_inserts current desired"
  let ?kept = "filter (\<lambda>e. fst e \<notin> to_db_path ` set ?dels) (db_stable_tree d)"
  let ?d = "d\<lparr>db_stable_tree := ?kept\<rparr>"
  have sub: "rp_valid p" if "p \<in> set ?dels" for p
    using that stable_keys(2) [OF wf] cur(2) by (fastforce simp: stable_delta_deletes_def)
  have kept: "(k, r) \<in> set ?kept \<longleftrightarrow> (k, r) \<in> set (db_stable_tree d) \<and>
      (\<exists>w. (st_path r, w) \<in> set desired \<and> stable_entry r = want_entry (st_path r, w))" for k r
  proof (cases "(k, r) \<in> set (db_stable_tree d)")
    case True
    then have "(st_path r, r) \<in> set current" using cur(2) by force
    from delta_deletes [OF cur(1) des this] have "st_path r \<notin> set ?dels \<longleftrightarrow>
        (\<exists>w. (st_path r, w) \<in> set desired \<and> stable_entry r = want_entry (st_path r, w))"
      by (simp add: matches_entry)
    moreover have "k \<in> to_db_path ` set ?dels \<longleftrightarrow> st_path r \<in> set ?dels"
      using stable_keys [OF wf True] to_db_path_inj sub by (auto simp: image_iff)
    ultimately show ?thesis using True by auto
  qed simp
  have fd: "fold_res delete_stable_tree_file ?dels d = Inr ?d"
    by (rule delete_stable_fold) (rule tbl_wfD(1) [OF db_wfD(4) [OF wf]])
  have ins: "(p, w) \<in> set ?ins \<longleftrightarrow> (p, w) \<in> set desired \<and>
      \<not> (\<exists>k r. (k, r) \<in> set (db_stable_tree d) \<and> st_path r = p \<and> stable_entry r = want_entry (p, w))" for p w
  proof -
    have "(\<exists>row. (p, row) \<in> set current \<and> stable_tree_row_matches_desired row w) \<longleftrightarrow>
        (\<exists>k r. (k, r) \<in> set (db_stable_tree d) \<and> st_path r = p \<and> stable_entry r = want_entry (p, w))"
      using cur(2) matches_entry by (fastforce simp: image_iff)
    then show ?thesis using delta_cases [OF cur(1) des] bt_get_Some_iff [OF des] by (metis delta_inserts_mem)
  qed
  have "map fst (map want_entry ?ins) = map fst ?ins" by (simp add: want_entry_def)
  then have dist: "distinct (map want_entry ?ins)"
    using delta_inserts_distinct [OF cur(1) des] by (metis distinct_map)
  have sub_ins: "want_entry ` set ?ins \<subseteq> want_entry ` set desired" using ins by auto
  have old: "\<forall>(k, r)\<in>set (db_stable_tree ?d). k = st_key r \<and>
      stable_entry r \<in> want_entry ` set desired - want_entry ` set ?ins"
  proof (clarify, intro conjI DiffI)
    fix k r assume "(k, r) \<in> set (db_stable_tree ?d)"
    then have mem: "(k, r) \<in> set (db_stable_tree d)"
      and "\<exists>w. (st_path r, w) \<in> set desired \<and> stable_entry r = want_entry (st_path r, w)" using kept by auto
    then show "k = st_key r" "stable_entry r \<in> want_entry ` set desired" using stable_keys(1) [OF wf] by auto
    show "stable_entry r \<notin> want_entry ` set ?ins"
    proof
      assume "stable_entry r \<in> want_entry ` set ?ins"
      then obtain p w where "(p, w) \<in> set ?ins" "stable_entry r = want_entry (p, w)" by auto
      moreover from this(2) have "st_path r = p" by (simp add: stable_entry_def want_entry_def)
      ultimately show False using ins mem by blast
    qed
  qed
  have kwf: "bt_wf (db_stable_tree ?d)"
    using tbl_wfD(1) [OF db_wfD(4) [OF wf]] by (simp add: bt_wf_filter)
  from insert_want_fold [OF t T sub_ins dist old kwf] obtain tree where
    tree: "fold_res (insert_want t) ?ins ?d = Inr (d\<lparr>db_stable_tree := tree\<rparr>)" "bt_wf tree"
      "\<forall>(k, r)\<in>set tree. k = st_key r"
      "(stable_entry \<circ> snd) ` set tree = (stable_entry \<circ> snd) ` set ?kept \<union> want_entry ` set ?ins" by auto
  have "want_entry (p, w) \<in> (stable_entry \<circ> snd) ` set ?kept \<union> want_entry ` set ?ins" if "(p, w) \<in> set desired" for p w
  proof (cases "(p, w) \<in> set ?ins")
    case False
    with ins that obtain k r where "(k, r) \<in> set (db_stable_tree d)" "st_path r = p" "stable_entry r = want_entry (p, w)" by blast
    then have "(k, r) \<in> set ?kept" using kept that by blast
    then show ?thesis using \<open>stable_entry r = want_entry (p, w)\<close> by force
  qed auto
  then have "want_entry ` set desired \<subseteq> (stable_entry \<circ> snd) ` set ?kept \<union> want_entry ` set ?ins"
    by (intro image_subsetI) (metis prod.collapse)
  moreover have "(stable_entry \<circ> snd) ` set ?kept \<subseteq> want_entry ` set desired" using old by auto
  ultimately have "(stable_entry \<circ> snd) ` set ?kept \<union> want_entry ` set ?ins = want_entry ` set desired"
    using sub_ins by blast
  with tree fd show ?thesis by auto
qed

lemma placements_target:
  assumes "materialize_namespace X doc = Inr np" and "map_iter_ok X doc" and "b64_ok X"
  shows "target_ok (placement_entry ` set (np_placements np))"
proof -
  have "p = q" if "p \<in> set (np_placements np)" "q \<in> set (np_placements np)"
      "dp_path p = dp_path q \<or> dp_claim_id p = dp_claim_id q" for p q
    using that placement_claims_distinct [OF assms] map_inj_distinct by metis
  then show ?thesis
    using placements_valid [OF assms(1)] unfolding target_ok_def by (auto simp: placement_entry_def)
qed

lemma write_stable_projection_ok:
  assumes wf: "db_wf d" and ns: "db_stable_namespace d \<noteq> None" and t: "i64_range t"
    and mat: "materialize_namespace X doc = Inr np" "map_iter_ok X doc" "b64_ok X"
    and kinds: "\<forall>x\<in>set (np_confirmed_objects np). meta_kind (co_meta x) = Text"
      "\<forall>p\<in>set (np_placements np). dp_kind p = Text"
  shows "\<exists>obs tree. write_stable_namespace_projection_tx X doc t d =
      Inr (d\<lparr>db_stable_namespace := Some (ns_encode_full_state X doc, t), db_objects := obs, db_stable_tree := tree\<rparr>) \<and>
    bt_wf tree \<and> (\<forall>(k, r)\<in>set tree. k = st_key r) \<and>
    (stable_entry \<circ> snd) ` set tree = placement_entry ` set (np_placements np) \<and>
    db_wf (d\<lparr>db_stable_namespace := Some (ns_encode_full_state X doc, t), db_objects := obs\<rparr>)"
proof -
  let ?d1 = "d\<lparr>db_stable_namespace := Some (ns_encode_full_state X doc, t)\<rparr>"
  have d1: "update_stable_namespace (ns_encode_full_state X doc) t d = Inr ?d1" "db_wf ?d1"
    using ns t wf by (auto simp: update_stable_namespace_def datetime_to_unix_ns_def intro: db_wf_update)
  from ensure_objects [OF d1(2) t kinds(1)] obtain obs where
    obs: "fold_res (ensure_confirmed_object t) (np_confirmed_objects np) ?d1 = Inr (?d1\<lparr>db_objects := obs\<rparr>)"
      "db_wf (?d1\<lparr>db_objects := obs\<rparr>)" by blast
  let ?d2 = "?d1\<lparr>db_objects := obs\<rparr>"
  from desired_tree_of [OF placement_claims_distinct(2) [OF mat] kinds(2)] obtain desired where
    des: "fold_res add_desired (np_placements np) [] = Inr desired" "bt_wf desired"
      "want_entry ` set desired = placement_entry ` set (np_placements np)" by blast
  from current_tree_of [OF obs(2)] obtain current where
    cur: "fold_res (\<lambda>row. insert_unique (st_path row) row) (map snd (db_stable_tree ?d2)) [] = Inr current"
      "bt_wf current" "set current = (\<lambda>e. (st_path (snd e), snd e)) ` set (db_stable_tree ?d2)" by blast
  have "target_ok (want_entry ` set desired)" unfolding des(3) by (rule placements_target [OF mat])
  from apply_delta [OF obs(2) t this des(2) cur(2,3)] show ?thesis
    using mat(1) d1 obs des select_stable_rows [OF obs(2)] cur(1)
    by (auto simp: write_stable_namespace_projection_tx_def insert_want_def [abs_def] case_prod_unfold)
qed

lemma stable_tree_entries_wf:
  assumes "target_ok T" and "\<forall>(p, q, c, x)\<in>T. c \<noteq> [] \<and> x \<noteq> []"
    and tree: "bt_wf tree" "\<forall>(k, r)\<in>set tree. k = st_key r" "(stable_entry \<circ> snd) ` set tree = T"
  shows "tbl_wf st_key stable_tree_row_ok tree" "distinct (map (st_claim_id \<circ> snd) tree)"
proof -
  have entry: "stable_entry r \<in> T" if "(k, r) \<in> set tree" for k r using that tree(3) by force
  have "stable_tree_row_ok r" if "(k, r) \<in> set tree" for k r
    using entry [OF that] assms(1,2) by (auto simp: stable_tree_row_ok_def target_ok_def stable_entry_def)
  with tree(1,2) show "tbl_wf st_key stable_tree_row_ok tree" by (auto simp: tbl_wf_def)
  have "inj_on (st_claim_id \<circ> snd) (set tree)"
  proof (rule inj_onI)
    fix a b assume ab: "a \<in> set tree" "b \<in> set tree" "(st_claim_id \<circ> snd) a = (st_claim_id \<circ> snd) b"
    then have "stable_entry (snd a) = stable_entry (snd b)"
      using entry assms(1) unfolding target_ok_def
      by (metis (no_types, lifting) comp_apply fst_conv prod.collapse snd_conv stable_entry_def)
    then have "fst a = fst b" using ab(1,2) tree(2) by (simp add: case_prod_unfold stable_entry_def)
    then show "a = b" using ab(1,2) bt_functional [OF tree(1)] by (metis prod.collapse)
  qed
  moreover have "distinct tree" using bt_wf_distinct [OF tree(1)] by (simp add: distinct_map)
  ultimately show "distinct (map (st_claim_id \<circ> snd) tree)" by (simp add: distinct_map)
qed

section \<open>Properties\<close>

text \<open>(C30) Rewriting the stable projection always succeeds on a well-formed database: rows are deleted
  before rows are inserted, so no path or claim collides on the way, and afterwards the stable
  tree holds exactly the placements of the document, while the prior tables, the staged files,
  the write intents, the outbox and the cursor are untouched.\<close>

theorem stable_projection_exact:
  assumes "db_wf d" and "db_stable_namespace d \<noteq> None" and "i64_range t"
    and "materialize_namespace X doc = Inr np" and "map_iter_ok X doc" and "b64_ok X"
    and "\<forall>x\<in>set (np_confirmed_objects np). meta_kind (co_meta x) = Text"
    and "\<forall>p\<in>set (np_placements np). dp_kind p = Text \<and> dp_claim_id p \<noteq> [] \<and> dp_object_id p \<noteq> []"
  shows "\<exists>d'. write_stable_namespace_projection_tx X doc t d = Inr d' \<and> db_wf d' \<and>
    stable_files d' = placement_entry ` set (np_placements np) \<and>
    db_stable_namespace d' = Some (ns_encode_full_state X doc, t) \<and>
    d' = d\<lparr>db_stable_namespace := db_stable_namespace d', db_objects := db_objects d', db_stable_tree := db_stable_tree d'\<rparr>"
proof -
  from write_stable_projection_ok [OF assms(1-7)] assms(8) obtain obs tree where
    run: "write_stable_namespace_projection_tx X doc t d = Inr (d\<lparr>db_stable_namespace :=
        Some (ns_encode_full_state X doc, t), db_objects := obs, db_stable_tree := tree\<rparr>)"
    and tree: "bt_wf tree" "\<forall>(k, r)\<in>set tree. k = st_key r"
      "(stable_entry \<circ> snd) ` set tree = placement_entry ` set (np_placements np)"
    and wf: "db_wf (d\<lparr>db_stable_namespace := Some (ns_encode_full_state X doc, t), db_objects := obs\<rparr>)" by auto
  have "\<forall>(p, q, c, x)\<in>placement_entry ` set (np_placements np). c \<noteq> [] \<and> x \<noteq> []"
    using assms(8) by (auto simp: placement_entry_def)
  from stable_tree_entries_wf [OF placements_target [OF assms(4-6)] this tree] db_wf_update(7) [OF wf, of tree] run tree(3)
  show ?thesis by (auto simp: stable_files_def image_comp)
qed

theorem stable_projection_exact_witness:
  "\<exists>d'. write_stable_namespace_projection_tx demo_ns_ext demo_text_doc 5 demo_projection_db = Inr d' \<and> db_wf d' \<and>
    stable_files d' = placement_entry ` set (np_placements (projr (materialize_namespace demo_ns_ext demo_text_doc)))"
proof -
  let ?np = "projr (materialize_namespace demo_ns_ext demo_text_doc)"
  have kinds: "list_all (\<lambda>x. meta_kind (co_meta x) = Text) (np_confirmed_objects ?np)"
    "list_all (\<lambda>p. dp_kind p = Text \<and> dp_claim_id p \<noteq> [] \<and> dp_object_id p \<noteq> []) (np_placements ?np)"
    by code_simp+
  have "is_ok (materialize_namespace demo_ns_ext demo_text_doc)" by code_simp
  then have ok: "materialize_namespace demo_ns_ext demo_text_doc = Inr ?np"
    by (cases "materialize_namespace demo_ns_ext demo_text_doc") auto
  have "db_wf demo_projection_db"
    by (simp add: demo_projection_db_def db_wf_def empty_db_def staged_unique_def)
  moreover have "map_iter_ok demo_ns_ext demo_text_doc" "b64_ok demo_ns_ext"
    unfolding demo_ns_ext_def by (simp_all add: demo_map_iter_ok demo_text_doc_def demo_ext_ok)
  ultimately show ?thesis
    using stable_projection_exact [of demo_projection_db 5 demo_ns_ext demo_text_doc ?np] ok kinds
    by (simp add: list_all_iff demo_projection_db_def i64_range_def i64_max_def) blast
qed

end
