(* ===== verification/Outbox.thy ===== *)
theory Outbox
  imports Import
begin

text \<open>
  The durable outbox as a queue. \<open>message_queue\<close> states what the engine's writer loop relies on:
  enqueued messages wait in order, a reservation hands out the oldest waiting ones, an
  acknowledgement drops acknowledged ones only, and a release puts everything handed out back
  in front. The interpretation \<open>outbox\<close> discharges it for the SQL operations, under the
  invariant \<open>out_inv\<close> (ids are consecutive up to \<open>next_outbox_id\<close> and the in-flight rows are a
  prefix), which every operation keeps.
\<close>

section \<open>The interface\<close>

locale message_queue =
  fixes inv :: "'s \<Rightarrow> bool"
    and waiting :: "'s \<Rightarrow> (nat \<times> 'm) list"
    and sent :: "'s \<Rightarrow> (nat \<times> 'm) list"
    and enqueue :: "'m list \<Rightarrow> 's \<Rightarrow> 's res"
    and reserve :: "nat \<Rightarrow> 's \<Rightarrow> ((nat \<times> 'm) list \<times> 's) res"
    and ack :: "nat \<Rightarrow> 's \<Rightarrow> 's res"
    and release :: "'s \<Rightarrow> (nat \<times> 's) res"
    and sendable :: "'m \<Rightarrow> bool"
    and limit :: nat
  assumes ids_ascending: "inv s \<Longrightarrow> sorted_wrt (<) (map fst (sent s @ waiting s))"
    and enqueue_law: "inv s \<Longrightarrow> \<forall>m\<in>set ms. sendable m \<Longrightarrow> enqueue ms s = Inr s' \<Longrightarrow>
       inv s' \<and> sent s' = sent s \<and> (\<exists>new. waiting s' = waiting s @ new \<and> map snd new = ms)"
    and reserve_law: "inv s \<Longrightarrow> n \<le> limit \<Longrightarrow>
       \<exists>s'. reserve n s = Inr (take n (waiting s), s') \<and> inv s' \<and>
         sent s' = sent s @ take n (waiting s) \<and> waiting s' = drop n (waiting s)"
    and ack_law: "inv s \<Longrightarrow> i \<le> limit \<Longrightarrow>
       \<exists>s'. ack i s = Inr s' \<and> inv s' \<and> sent s' = filter (\<lambda>m. i < fst m) (sent s) \<and> waiting s' = waiting s"
    and release_law: "inv s \<Longrightarrow>
       \<exists>s'. release s = Inr (length (sent s), s') \<and> inv s' \<and> sent s' = [] \<and> waiting s' = sent s @ waiting s"
begin

definition contents :: "'s \<Rightarrow> (nat \<times> 'm) list" where
  "contents s = sent s @ waiting s"

lemma reserve_keeps_contents:
  "inv s \<Longrightarrow> n \<le> limit \<Longrightarrow> reserve n s = Inr (ms, s') \<Longrightarrow> inv s' \<and> contents s' = contents s"
  using reserve_law [of s n] by (auto simp: contents_def)

lemma release_keeps_contents:
  "inv s \<Longrightarrow> release s = Inr (n, s') \<Longrightarrow> inv s' \<and> contents s' = contents s"
  using release_law [of s] by (auto simp: contents_def)

text \<open>After a reconnect, what is handed out starts again with the oldest unacknowledged message.\<close>

lemma redelivery:
  assumes "inv s" and "n \<le> limit"
  shows "\<exists>s1 s2. release s = Inr (length (sent s), s1) \<and> reserve n s1 = Inr (take n (contents s), s2) \<and>
     inv s2 \<and> contents s2 = contents s"
proof -
  obtain s1 where s1: "release s = Inr (length (sent s), s1)" "inv s1" "sent s1 = []"
      "waiting s1 = sent s @ waiting s"
    using release_law [OF assms(1)] by blast
  obtain s2 where "reserve n s1 = Inr (take n (waiting s1), s2)" "inv s2"
      "sent s2 = take n (waiting s1)" "waiting s2 = drop n (waiting s1)"
    using reserve_law [OF s1(2) assms(2)] s1(3) by auto
  moreover from this have "contents s2 = waiting s1" by (simp only: contents_def append_take_drop_id)
  ultimately show ?thesis using s1 by (auto simp: contents_def)
qed

text \<open>Acknowledging the last message handed out leaves exactly what was not handed out before.\<close>

lemma ack_reserved:
  assumes "inv s" and "sent s = []" and "n \<le> limit" and "reserve n s = Inr (ms, s')" and "ms \<noteq> []"
    and "fst (last ms) \<le> limit"
  shows "\<exists>s''. ack (fst (last ms)) s' = Inr s'' \<and> inv s'' \<and> sent s'' = [] \<and> waiting s'' = drop n (waiting s)"
proof -
  from reserve_law [OF assms(1,3)] assms(2,4) have ms: "ms = take n (waiting s)" and inv': "inv s'"
    and sent': "sent s' = ms" and wait': "waiting s' = drop n (waiting s)"
    by auto
  from ack_law [OF inv' assms(6)] obtain s'' where s'': "ack (fst (last ms)) s' = Inr s''" "inv s''"
      "sent s'' = filter (\<lambda>m. fst (last ms) < fst m) ms" "waiting s'' = drop n (waiting s)"
    using sent' wait' by auto
  have "sorted_wrt (<) (map fst ms)"
    using ids_ascending [OF inv'] sent' by (simp add: sorted_wrt_append)
  then have "fst m \<le> fst (last ms)" if "m \<in> set ms" for m
    using that assms(5) by (induction ms) (auto simp: last_in_set less_imp_le)
  then have "sent s'' = []" using s''(3) by (auto simp: filter_empty_conv not_less)
  with s'' show ?thesis by blast
qed

end

section \<open>The outbox table\<close>

text \<open>Messages as they are enqueued: kind, object and payload.\<close>

fun outbox_item :: "shared_message_kind \<times> object_id option \<times> bytes \<Rightarrow> shared_message" where
  "outbox_item (KTextUpdate, Some obj, payload) = TextObjectUpdate obj payload"
| "outbox_item (_, _, payload) = NamespaceUpdate payload"

fun item_of :: "shared_message \<Rightarrow> shared_message_kind \<times> object_id option \<times> bytes" where
  "item_of (NamespaceUpdate u) = (KNamespaceUpdate, None, u)"
| "item_of (TextObjectUpdate obj u) = (KTextUpdate, Some obj, u)"
| "item_of (BinaryObjectPut obj _ _ b) = (KBinaryPut, Some obj, b)"

definition row_message :: "outbox_row \<Rightarrow> nat \<times> shared_message" where
  "row_message r = (out_outbox_id r, outbox_item (out_record_kind r, out_object_id r, out_payload r))"

definition out_rows :: "db \<Rightarrow> outbox_row list" where
  "out_rows d = map snd (db_outbox d)"

definition out_waiting :: "db \<Rightarrow> (nat \<times> shared_message) list" where
  "out_waiting d = map row_message (dropWhile out_inflight (out_rows d))"

definition out_sent :: "db \<Rightarrow> (nat \<times> shared_message) list" where
  "out_sent d = map row_message (takeWhile out_inflight (out_rows d))"

definition out_inv :: "db \<Rightarrow> bool" where
  "out_inv d \<longleftrightarrow>
     (case db_daemon_state d of
        None \<Rightarrow> False
      | Some r \<Rightarrow>
          ds_next_outbox_id r \<le> i64_max \<and>
          length (db_outbox d) \<le> ds_next_outbox_id r \<and>
          map fst (db_outbox d) = [ds_next_outbox_id r - length (db_outbox d)..<ds_next_outbox_id r] \<and>
          list_all (\<lambda>e. out_outbox_id (snd e) = fst e) (db_outbox d) \<and>
          list_all outbox_row_ok (out_rows d) \<and>
          list_all (\<lambda>r. \<not> out_inflight r) (dropWhile out_inflight (out_rows d)))"

definition enqueue_messages :: "time_ns \<Rightarrow> shared_message list \<Rightarrow> db \<Rightarrow> db res" where
  "enqueue_messages now ms d = enqueue_outbox (map item_of ms) now d"

fun sendable :: "shared_message \<Rightarrow> bool" where
  "sendable (NamespaceUpdate _) = True"
| "sendable (TextObjectUpdate obj _) = (obj \<noteq> [])"
| "sendable (BinaryObjectPut _ _ _ _) = False"

section \<open>The abstract queue\<close>

text \<open>What is handed out, what waits, and the next id.\<close>

type_synonym queue = "(nat \<times> shared_message) list \<times> (nat \<times> shared_message) list \<times> nat"

datatype queue_op = QEnqueue time_ns "shared_message list" | QReserve nat | QAck nat | QRelease

fun q_step :: "queue_op \<Rightarrow> queue \<Rightarrow> queue" where
  "q_step (QEnqueue _ ms) (snt, wait, next) = (snt, wait @ enumerate next ms, next + length ms)"
| "q_step (QReserve n) (snt, wait, next) = (snt @ take n wait, drop n wait, next)"
| "q_step (QAck i) (snt, wait, next) = (filter (\<lambda>m. i < fst m) snt, wait, next)"
| "q_step QRelease (snt, wait, next) = ([], snt @ wait, next)"

fun q_ok :: "queue_op \<Rightarrow> queue \<Rightarrow> bool" where
  "q_ok (QEnqueue now ms) (_, _, next) \<longleftrightarrow>
     i64_range now \<and> list_all sendable ms \<and> next + length ms \<le> i64_max"
| "q_ok (QReserve n) _ \<longleftrightarrow> n \<le> i64_max"
| "q_ok (QAck i) _ \<longleftrightarrow> i \<le> i64_max"
| "q_ok QRelease _ \<longleftrightarrow> True"

fun q_run_ok :: "queue_op list \<Rightarrow> queue \<Rightarrow> bool" where
  "q_run_ok [] q \<longleftrightarrow> True"
| "q_run_ok (op # ops) q \<longleftrightarrow> q_ok op q \<and> q_run_ok ops (q_step op q)"

fun run_queue_op :: "queue_op \<Rightarrow> db \<Rightarrow> db res" where
  "run_queue_op (QEnqueue now ms) d = enqueue_messages now ms d"
| "run_queue_op (QReserve n) d = map_ok snd (reserve_outbox_messages n d)"
| "run_queue_op (QAck i) d = trim_outbox i d"
| "run_queue_op QRelease d = map_ok snd (release_outbox_messages d)"

definition queue_abs :: "db \<Rightarrow> queue" where
  "queue_abs d =
     (out_sent d, out_waiting d, case db_daemon_state d of None \<Rightarrow> 0 | Some r \<Rightarrow> ds_next_outbox_id r)"

text \<open>What a run of operations adds, and the ids it acknowledges.\<close>

fun q_enqueued :: "nat \<Rightarrow> queue_op list \<Rightarrow> (nat \<times> shared_message) list" where
  "q_enqueued next [] = []"
| "q_enqueued next (QEnqueue _ ms # ops) = enumerate next ms @ q_enqueued (next + length ms) ops"
| "q_enqueued next (_ # ops) = q_enqueued next ops"

fun q_acks :: "queue_op list \<Rightarrow> nat list" where
  "q_acks [] = []"
| "q_acks (QAck i # ops) = i # q_acks ops"
| "q_acks (_ # ops) = q_acks ops"

text \<open>A workspace just set up, for the examples.\<close>

definition demo_daemon_state :: daemon_state_row where
  "demo_daemon_state =
     \<lparr>ds_workspace_id = ''ws'', ds_s2_basin = ''basin'', ds_s2_account_endpoint = None,
      ds_s2_basin_endpoint = None, ds_daemon_writer_id = ''writer'', ds_stable_cursor = 0,
      ds_next_outbox_id = 1, ds_encryption_key = ''key''\<rparr>"

definition demo_outbox_db :: db where
  "demo_outbox_db = empty_db\<lparr>db_daemon_state := Some demo_daemon_state\<rparr>"

definition demo_ops :: "queue_op list" where
  "demo_ops = [QEnqueue 5 [NamespaceUpdate ''u'', TextObjectUpdate ''o'' ''t''], QReserve 1, QAck 1, QReserve 5, QRelease]"

section \<open>Lemmas\<close>

lemma into_shared_message_ok: "outbox_row_ok r \<Longrightarrow> into_shared_message r = Inr (row_message r)"
  by (cases "out_object_id r")
    (auto simp: outbox_row_ok_def check_outbox_kind_def into_shared_message_def row_message_def
      split: shared_message_kind.splits)

lemma sendable_item:
  "sendable m \<Longrightarrow> outbox_item (item_of m) = m" "sendable m \<Longrightarrow> fst (snd (item_of m)) \<noteq> Some []"
  by (cases m; simp)+

text \<open>The table is a prefix of in-flight rows followed by waiting rows, under consecutive ids.\<close>

definition out_layout :: "db \<Rightarrow> nat \<Rightarrow> nat \<Rightarrow> (nat \<times> outbox_row) list \<Rightarrow> (nat \<times> outbox_row) list \<Rightarrow> bool" where
  "out_layout d lo hi a b \<longleftrightarrow>
     map_option ds_next_outbox_id (db_daemon_state d) = Some hi \<and> hi \<le> i64_max \<and> lo \<le> hi \<and>
     db_outbox d = a @ b \<and> map fst (a @ b) = [lo..<hi] \<and>
     (\<forall>e\<in>set (a @ b). out_outbox_id (snd e) = fst e \<and> outbox_row_ok (snd e)) \<and>
     (\<forall>e\<in>set a. out_inflight (snd e)) \<and> (\<forall>e\<in>set b. \<not> out_inflight (snd e))"

lemma out_layout_views:
  assumes "out_layout d lo hi a b"
  shows "out_sent d = map (row_message \<circ> snd) a" "out_waiting d = map (row_message \<circ> snd) b" "out_inv d"
proof -
  have b: "takeWhile (out_inflight \<circ> snd) b = []" "dropWhile (out_inflight \<circ> snd) b = b"
    using assms by (cases b; simp add: out_layout_def)+
  have a: "takeWhile (out_inflight \<circ> snd) (a @ b) = a" "dropWhile (out_inflight \<circ> snd) (a @ b) = b"
    using assms b by (auto simp: out_layout_def takeWhile_append2 dropWhile_append2)
  have rows: "takeWhile out_inflight (out_rows d) = map snd a" "dropWhile out_inflight (out_rows d) = map snd b"
    using assms a by (simp_all add: out_layout_def out_rows_def takeWhile_map dropWhile_map del: map_append)
  then show "out_sent d = map (row_message \<circ> snd) a" "out_waiting d = map (row_message \<circ> snd) b"
    by (simp_all add: out_sent_def out_waiting_def)
  have "length (a @ b) = hi - lo"
    using assms by (metis out_layout_def length_map length_upt)
  then show "out_inv d"
    using assms rows
    by (auto simp: out_inv_def out_layout_def list_all_iff out_rows_def simp del: map_append split: option.splits)
qed

lemma out_inv_layout:
  assumes "out_inv d"
  obtains lo hi a b where "out_layout d lo hi a b"
proof -
  let ?P = "out_inflight \<circ> snd"
  let ?a = "takeWhile ?P (db_outbox d)" and ?b = "dropWhile ?P (db_outbox d)"
  from assms obtain r where r: "db_daemon_state d = Some r" by (auto simp: out_inv_def split: option.splits)
  have "list_all (\<lambda>r. \<not> out_inflight r) (map snd ?b)"
    using assms r by (simp add: out_inv_def out_rows_def dropWhile_map comp_def)
  then have "\<forall>e\<in>set ?b. \<not> out_inflight (snd e)" by (auto simp: list_all_iff)
  moreover have "\<forall>e\<in>set ?a. out_inflight (snd e)" using set_takeWhileD by fastforce
  ultimately have "out_layout d (ds_next_outbox_id r - length (db_outbox d)) (ds_next_outbox_id r) ?a ?b"
    using assms r by (auto simp: out_layout_def out_inv_def out_rows_def list_all_iff simp del: map_append)
  then show ?thesis by (rule that)
qed

lemma read_outbox_rows:
  "\<forall>e\<in>set es. outbox_row_ok (snd e) \<Longrightarrow>
     map_res (\<lambda>r. outbox_from_sql_row (outbox_cols_of r)) (map snd es) = Inr (map snd es)"
  by (induction es) (simp_all add: outbox_codec.decode_cols)

lemma send_outbox_rows:
  "\<forall>e\<in>set es. outbox_row_ok (snd e) \<Longrightarrow>
     map_res into_shared_message (map snd es) = Inr (map (row_message \<circ> snd) es)"
  by (induction es) (simp_all add: into_shared_message_ok)

lemma contiguous_rows:
  assumes "\<forall>e\<in>set es. out_outbox_id (snd e) = fst e \<and> \<not> out_inflight (snd e)"
    and "map fst es = [k..<m]" and "m \<le> i64_max"
  shows "assert_contiguous_from k (map snd es) = Inr ()"
  using assms
proof (induction es arbitrary: k)
  case (Cons e es)
  then have "[k..<m] = fst e # map fst es" by simp
  then have "fst e = k" "k < m" "map fst es = [Suc k..<m]"
    by (auto simp: upt_eq_Cons_conv)
  with Cons i64_max_less_u64_max show ?case
    by (auto simp: checked_add_u64_def)
qed simp

lemma contiguous_outbox_rows:
  assumes "\<forall>e\<in>set es. out_outbox_id (snd e) = fst e \<and> \<not> out_inflight (snd e)"
    and "map fst es = [k..<m]" and "m \<le> i64_max"
  shows "assert_contiguous_outbox_rows (map snd es) = Inr ()"
proof (cases es)
  case (Cons e es')
  with assms(2) have "[k..<m] = fst e # map fst es'" by simp
  then have "fst e = k" by (auto simp: upt_eq_Cons_conv)
  with Cons contiguous_rows [OF assms] assms(1) show ?thesis
    by (auto simp: assert_contiguous_outbox_rows_def simp del: assert_contiguous_from.simps)
qed (simp add: assert_contiguous_outbox_rows_def)

lemma upt_append_split:
  assumes "xs @ ys = [lo..<hi]"
  shows "xs = [lo..<lo + length xs]" "ys = [lo + length xs..<hi]"
proof -
  have xs: "xs = take (length xs) [lo..<hi]" and ys: "ys = drop (length xs) [lo..<hi]"
    by (simp_all flip: assms)
  have len: "length xs \<le> hi - lo" using arg_cong [OF assms, of length] by simp
  show "xs = [lo..<lo + length xs]"
    by (cases "xs = []", simp, subst xs, rule take_upt) (use len in \<open>cases xs; simp\<close>)
  show "ys = [lo + length xs..<hi]" by (subst ys) (rule drop_upt)
qed

lemma small_ids:
  assumes "map fst (x @ y @ z) = [lo..<hi]" and "e \<in> set y"
  shows "fst e < hi"
proof -
  have "fst e \<in> set (map fst (x @ y @ z))" using assms(2) by simp
  then show ?thesis by (simp only: assms(1)) simp
qed

lemma map_hit:
  assumes "\<forall>e\<in>set x. \<not> P e" "\<forall>e\<in>set y. P e" "\<forall>e\<in>set z. \<not> P e"
  shows "map (\<lambda>e. if P e then f e else e) (x @ y @ z) = (x @ map f y) @ z"
proof -
  have "map (\<lambda>e. if P e then f e else e) x = x" "map (\<lambda>e. if P e then f e else e) z = z"
    using assms by (auto intro!: map_idI)
  moreover have "map (\<lambda>e. if P e then f e else e) y = map f y" using assms by simp
  ultimately show ?thesis by simp
qed

lemma hit_split:
  assumes "map fst (x @ y @ z) = [lo..<hi]" and "y \<noteq> []"
  shows "\<forall>e\<in>set x. fst e < fst (hd y)" "\<forall>e\<in>set y. fst (hd y) \<le> fst e \<and> fst e \<le> fst (List.last y)"
    "\<forall>e\<in>set z. fst (List.last y) < fst e"
proof -
  have srt: "sorted_wrt (<) (map fst (x @ y @ z))" by (simp only: assms(1) sorted_wrt_upt)
  have y: "hd y \<in> set y" "List.last y \<in> set y" using assms(2) by simp_all
  show "\<forall>e\<in>set x. fst e < fst (hd y)" "\<forall>e\<in>set z. fst (List.last y) < fst e"
    using srt y by (auto simp: sorted_wrt_append)
  have "sorted_wrt (<) (map fst y)" using srt by (simp add: sorted_wrt_append)
  then show "\<forall>e\<in>set y. fst (hd y) \<le> fst e \<and> fst e \<le> fst (List.last y)"
    by (induction y) (auto simp: less_imp_le)
qed

text \<open>The four operations on a laid out table.\<close>

lemma i64_ok: "n \<le> i64_max \<Longrightarrow> i64_try_from n = Inr n"
  by (simp add: i64_try_from_def i64_from_u64_def)

lemma set_inflight_keeps [simp]:
  "out_outbox_id (set_inflight f r) = out_outbox_id r" "outbox_row_ok (set_inflight f r) = outbox_row_ok r"
  "out_inflight (set_inflight f r) = f" "row_message (set_inflight f r) = row_message r"
  by (simp_all add: set_inflight_def outbox_row_ok_def row_message_def)

lemma reserve_layout:
  assumes lay: "out_layout d lo hi a b" and n: "n \<le> i64_max"
  shows "\<exists>d'. reserve_outbox_messages n d = Inr (map (row_message \<circ> snd) (take n b), d') \<and>
     out_layout d' lo hi (a @ map (\<lambda>e. (fst e, set_inflight True (snd e))) (take n b)) (drop n b)"
proof -
  define t u where tu: "t = take n b" "u = drop n b"
  have b: "b = t @ u" by (simp add: tu)
  let ?on = "\<lambda>e. (fst e, set_inflight True (snd e))"
  have ids: "map fst (a @ t @ u) = [lo..<hi]" and box: "db_outbox d = a @ t @ u"
    and ok: "\<forall>e\<in>set (a @ b). out_outbox_id (snd e) = fst e \<and> outbox_row_ok (snd e)"
    and fl: "\<forall>e\<in>set a. out_inflight (snd e)" "\<forall>e\<in>set b. \<not> out_inflight (snd e)" and hi: "hi \<le> i64_max"
    using lay by (auto simp: out_layout_def b)
  have sub: "set t \<subseteq> set b" "set u \<subseteq> set b" by (auto simp: b)
  have rows: "take n (filter (\<lambda>r. \<not> out_inflight r) (map snd (db_outbox d))) = map snd t"
    using lay fl by (simp add: out_layout_def filter_map comp_def take_map filter_empty_conv filter_id_conv tu(1))
  have parts: "map fst a @ (map fst t @ map fst u) = [lo..<hi]"
    using ids by (simp only: map_append)
  have mids: "map fst t = [lo + length a..<lo + length a + length t]"
    using upt_append_split(1) [OF upt_append_split(2) [OF parts]] by (simp only: length_map)
  have "lo + length a + length t \<le> hi"
    using lay arg_cong [OF parts, of length] by (auto simp: out_layout_def)
  then have cont: "assert_contiguous_outbox_rows (map snd t) = Inr ()"
    using contiguous_outbox_rows [OF _ mids] ok fl sub hi by auto
  have reads: "map_res (\<lambda>r. outbox_from_sql_row (outbox_cols_of r)) (map snd t) = Inr (map snd t)"
    "map_res into_shared_message (map snd t) = Inr (map (row_message \<circ> snd) t)"
    using ok sub by (auto intro!: read_outbox_rows send_outbox_rows)
  have "\<exists>d'. reserve_outbox_messages n d = Inr (map (row_message \<circ> snd) t, d') \<and>
     out_layout d' lo hi (a @ map ?on t) u"
  proof (cases "t = []")
    case True
    then show ?thesis
      using lay n rows b by (auto simp: reserve_outbox_messages_def i64_ok assert_contiguous_outbox_rows_def)
  next
    case False
    let ?hit = "\<lambda>e. \<not> out_inflight (snd e) \<and> fst (hd t) \<le> fst e \<and> fst e \<le> fst (List.last t)"
    note hs = hit_split [OF ids False]
    have hits: "\<forall>e\<in>set a. \<not> ?hit e" "\<forall>e\<in>set t. ?hit e" "\<forall>e\<in>set u. \<not> ?hit e"
      using hs fl sub by (auto simp: not_le)
    have ends: "out_outbox_id (hd (map snd t)) = fst (hd t)"
        "out_outbox_id (List.last (map snd t)) = fst (List.last t)"
      using ok sub hd_in_set [OF False] last_in_set [OF False] False
      unfolding hd_map [OF False] last_map [OF False] set_append by blast+
    have small: "fst (hd t) \<le> i64_max" "fst (List.last t) \<le> i64_max"
      using False hi small_ids [OF ids] by (meson hd_in_set last_in_set less_le_trans less_imp_le)+
    have filt: "filter ?hit (db_outbox d) = t"
      using hits unfolding box by (simp only: filter_append) (simp add: filter_empty_conv filter_id_conv)
    have mapd: "map (\<lambda>e. if ?hit e then ?on e else e) (db_outbox d) = (a @ map ?on t) @ u"
      unfolding box by (rule map_hit [OF hits])
    have "reserve_outbox_messages n d =
        Inr (map (row_message \<circ> snd) t, d\<lparr>db_outbox := (a @ map ?on t) @ u\<rparr>)"
      using False unfolding reserve_outbox_messages_def
      by (simp add: i64_ok n small rows reads cont ends filt mapd Let_def del: append_assoc)
    moreover have "out_outbox_id (set_inflight True (snd e)) = fst e \<and> outbox_row_ok (set_inflight True (snd e))"
      if "e \<in> set t" for e
      using ok sub that unfolding set_append set_inflight_keeps by blast
    then have "out_layout (d\<lparr>db_outbox := (a @ map ?on t) @ u\<rparr>) lo hi (a @ map ?on t) u"
      using lay ids fl sub ok by (auto simp: out_layout_def comp_def)
    ultimately show ?thesis by blast
  qed
  then show ?thesis by (simp add: tu)
qed

lemma trim_layout:
  assumes lay: "out_layout d lo hi a b" and n: "n \<le> i64_max"
  shows "\<exists>d' lo'. trim_outbox n d = Inr d' \<and> out_layout d' lo' hi (filter (\<lambda>e. n < fst e) a) b"
proof -
  let ?a = "filter (\<lambda>e. n < fst e) a"
  let ?d = "d\<lparr>db_outbox := ?a @ b\<rparr>"
  have parts: "map fst a @ map fst b = [lo..<hi]" using lay by (simp add: out_layout_def)
  have "length (map fst a @ map fst b) = hi - lo" by (simp only: parts length_upt)
  then have len: "lo + length a \<le> hi" using lay unfolding out_layout_def by auto
  have "map fst ?a = filter (\<lambda>i. n < i) (map fst a)" by (simp add: filter_map comp_def)
  also have "\<dots> = filter (\<lambda>i. n < i) [lo..<lo + length a]"
    using upt_append_split(1) [OF parts] by simp
  also have "\<dots> = [min (lo + length a) (max lo (Suc n))..<lo + length a]"
    by (rule sorted_wrt_less_set_eq) (auto simp: sorted_wrt_filter min_def max_def)
  finally have "map fst (?a @ b) = [min (lo + length a) (max lo (Suc n))..<hi]"
    using upt_append_split(2) [OF parts] len upt_add_eq_append [of "min (lo + length a) (max lo (Suc n))" "lo + length a" "hi - (lo + length a)"]
    by simp
  then have "out_layout ?d (min (lo + length a) (max lo (Suc n))) hi ?a b"
    using lay len unfolding out_layout_def by (auto simp del: map_append simp: min_le_iff_disj)
  moreover have "filter (\<lambda>e. \<not> (fst e \<le> n \<and> out_inflight (snd e))) (db_outbox d) = ?a @ b"
    using lay by (auto simp: out_layout_def not_le filter_id_conv intro!: filter_cong)
  then have "trim_outbox n d = Inr ?d"
    using n by (simp add: trim_outbox_def i64_try_from_def i64_from_u64_def)
  ultimately show ?thesis by blast
qed

lemma release_layout:
  assumes lay: "out_layout d lo hi a b"
  shows "\<exists>d'. release_outbox_messages d = Inr (length a, d') \<and>
     out_layout d' lo hi [] (map (\<lambda>e. (fst e, set_inflight False (snd e))) a @ b)"
proof -
  have off: "set_inflight False r = r" if "\<not> out_inflight r" for r
    using that by (simp add: set_inflight_def)
  have b: "map (\<lambda>(i, r). (i, set_inflight False r)) b = b"
    using lay by (intro map_idI) (auto simp: out_layout_def off)
  have a: "filter (\<lambda>e. out_inflight (snd e)) (a @ b) = a"
    using lay by (simp add: out_layout_def filter_empty_conv filter_id_conv)
  have "release_outbox_messages d = Inr (length a, d\<lparr>db_outbox := map (\<lambda>e. (fst e, set_inflight False (snd e))) a @ b\<rparr>)"
    using lay a b by (simp add: release_outbox_messages_def out_layout_def case_prod_unfold del: filter_append)
  moreover have "out_outbox_id (set_inflight False (snd e)) = fst e \<and> outbox_row_ok (set_inflight False (snd e))"
    if "e \<in> set a" for e
    using lay that by (simp add: out_layout_def)
  ultimately show ?thesis using lay by (auto simp: out_layout_def comp_def) (metis UnI1 fst_conv snd_conv)+
qed

lemma bt_insert_append: "\<forall>e\<in>set m. fst e < k \<Longrightarrow> bt_insert k v m = m @ [(k, v)]"
  by (induction m) auto

lemma insert_message_append:
  assumes "insert_outbox_message i k obj p now d = Inr d'" and "\<forall>e\<in>set (db_outbox d). fst e < i"
  shows "\<exists>r. d' = d\<lparr>db_outbox := db_outbox d @ [(i, r)]\<rparr> \<and> out_outbox_id r = i \<and> \<not> out_inflight r \<and>
     row_message r = (i, outbox_item (k, obj, p)) \<and> (obj \<noteq> Some [] \<longrightarrow> outbox_row_ok r)"
  using assms
  by (auto simp: insert_outbox_message_def res_simps bt_insert_append row_message_def outbox_row_ok_def
      check_outbox_kind_def split: if_splits)

lemma insert_run_append:
  assumes "insert_outbox_run i ms now d = Inr d'" and "\<forall>e\<in>set (db_outbox d). fst e < i"
    and "\<forall>(k, obj, p)\<in>set ms. obj \<noteq> Some []"
  shows "\<exists>es. d' = d\<lparr>db_outbox := db_outbox d @ es\<rparr> \<and> map fst es = [i..<i + length ms] \<and>
     (\<forall>e\<in>set es. out_outbox_id (snd e) = fst e \<and> outbox_row_ok (snd e) \<and> \<not> out_inflight (snd e)) \<and>
     map (snd \<circ> row_message \<circ> snd) es = map outbox_item ms"
  using assms
proof (induction i ms now d arbitrary: d' rule: insert_outbox_run.induct)
  case (1 i now d)
  then show ?case by (intro exI [of _ "[]"]) simp
next
  case (2 i k obj p now d)
  then obtain r where "d' = d\<lparr>db_outbox := db_outbox d @ [(i, r)]\<rparr>" "out_outbox_id r = i" "\<not> out_inflight r"
      "row_message r = (i, outbox_item (k, obj, p))" "outbox_row_ok r"
    using insert_message_append [of i k obj p now d d'] by auto
  then show ?case by (intro exI [of _ "[(i, r)]"]) simp
next
  case (3 i k obj p m ms now d)
  then obtain d1 where d1: "insert_outbox_message i k obj p now d = Inr d1"
    and rest: "insert_outbox_run (Suc i) (m # ms) now d1 = Inr d'" and nxt: "next_outbox_id i = Inr (Suc i)"
    by (auto simp: res_simps next_outbox_id_def checked_add_u64_Some)
  from insert_message_append [OF d1 "3.prems"(2)] "3.prems"(3)
  obtain r where r: "d1 = d\<lparr>db_outbox := db_outbox d @ [(i, r)]\<rparr>" "out_outbox_id r = i" "\<not> out_inflight r"
      "row_message r = (i, outbox_item (k, obj, p))" "outbox_row_ok r" by auto
  have "\<forall>e\<in>set (db_outbox d1). fst e < Suc i" "\<forall>(k, obj, p)\<in>set (m # ms). obj \<noteq> Some []"
    using "3.prems"(2,3) r(1) by auto
  from "3.IH" [OF rest this]
  obtain es where es: "d' = d1\<lparr>db_outbox := db_outbox d1 @ es\<rparr>" "map fst es = [Suc i..<Suc i + length (m # ms)]"
      "\<forall>e\<in>set es. out_outbox_id (snd e) = fst e \<and> outbox_row_ok (snd e) \<and> \<not> out_inflight (snd e)"
      "map (snd \<circ> row_message \<circ> snd) es = map outbox_item (m # ms)" by blast
  moreover have "[i..<i + length ((k, obj, p) # m # ms)] = i # [Suc i..<Suc i + length (m # ms)]"
    by (simp add: upt_conv_Cons del: upt_Suc)
  ultimately show ?case
    using r by (intro exI [of _ "(i, r) # es"]) (simp add: comp_def del: upt_Suc)
qed

lemma insert_run_ok:
  assumes "\<forall>e\<in>set (db_outbox d). fst e < i" and "i64_range now" and "i + length ms \<le> Suc i64_max"
    and "\<forall>m\<in>set ms. sendable m"
  shows "\<exists>d'. insert_outbox_run i (map item_of ms) now d = Inr d'"
  using assms
proof (induction ms arbitrary: i d)
  case (Cons m ms)
  obtain k obj p where m: "item_of m = (k, obj, p)" by (cases "item_of m")
  have "bt_get (db_outbox d) i = None"
    using Cons.prems(1) by (auto simp: bt_get_def map_of_eq_None_iff)
  moreover have "k = KNamespaceUpdate \<and> obj = None \<or> k = KTextUpdate \<and> obj \<noteq> None"
    using Cons.prems(4) m by (cases m) auto
  ultimately obtain d1 where d1: "insert_outbox_message i k obj p now d = Inr d1"
    using Cons.prems(2,3) by (auto simp: insert_outbox_message_def datetime_to_unix_ns_def i64_ok)
  show ?case
  proof (cases ms)
    case (Cons m' ms')
    from insert_message_append [OF d1 Cons.prems(1)] have "\<forall>e\<in>set (db_outbox d1). fst e < Suc i"
      using Cons.prems(1) by (fastforce intro: less_SucI)
    from Cons.IH [OF this] Cons.prems Cons m d1 i64_max_less_u64_max show ?thesis
      by (cases "item_of m'") (auto simp: next_outbox_id_def checked_add_u64_def)
  qed (use m d1 in simp)
qed simp

lemma enqueue_split:
  assumes lay: "out_layout d lo hi a b" and "ms \<noteq> []" and fits: "hi + length ms \<le> i64_max"
  obtains d1 where "db_daemon_state d1 = map_option (\<lambda>r. r\<lparr>ds_next_outbox_id := hi + length ms\<rparr>) (db_daemon_state d)"
    "db_outbox d1 = a @ b"
    "enqueue_messages now ms d = insert_outbox_run hi (map item_of ms) now d1"
proof -
  from lay obtain r where "db_daemon_state d = Some r" "ds_next_outbox_id r = hi" by (auto simp: out_layout_def)
  with assms that [of "d\<lparr>db_daemon_state := Some (r\<lparr>ds_next_outbox_id := hi + length ms\<rparr>)\<rparr>"] show ?thesis
    by (simp add: enqueue_messages_def enqueue_outbox_def reserve_outbox_ids_def i64_ok Let_def out_layout_def)
qed

lemma enqueue_fits:
  assumes "out_layout d lo hi a b" and "enqueue_messages now ms d = Inr d'"
  shows "hi + length ms \<le> i64_max"
  using assms by (cases "ms = []")
    (auto simp: out_layout_def enqueue_messages_def enqueue_outbox_def reserve_outbox_ids_def res_simps Let_def
      split: if_splits)

lemma enqueue_layout:
  assumes lay: "out_layout d lo hi a b" and send: "\<forall>m\<in>set ms. sendable m"
    and run: "enqueue_messages now ms d = Inr d'"
  shows "\<exists>es. out_layout d' lo (hi + length ms) a (b @ es) \<and> map (snd \<circ> row_message \<circ> snd) es = ms"
proof (cases "ms = []")
  case True
  with run lay show ?thesis
    by (intro exI [of _ "[]"]) (simp add: enqueue_messages_def enqueue_outbox_def reserve_outbox_ids_def)
next
  case False
  note fits = enqueue_fits [OF lay run]
  from enqueue_split [OF lay False fits, of now] run obtain d1 where
    d1: "db_daemon_state d1 = map_option (\<lambda>r. r\<lparr>ds_next_outbox_id := hi + length ms\<rparr>) (db_daemon_state d)"
    "db_outbox d1 = a @ b" and ins: "insert_outbox_run hi (map item_of ms) now d1 = Inr d'" by metis
  have below: "\<forall>e\<in>set (db_outbox d1). fst e < hi"
    using lay small_ids [of "[]" "a @ b" "[]" lo hi] d1(2) by (auto simp: out_layout_def)
  have ok: "\<forall>(k, obj, p)\<in>set (map item_of ms). obj \<noteq> Some []"
    using send sendable_item(2) by (auto simp: case_prod_unfold)
  from insert_run_append [OF ins below ok] obtain es where es: "d' = d1\<lparr>db_outbox := db_outbox d1 @ es\<rparr>"
      "map fst es = [hi..<hi + length ms]"
      "\<forall>e\<in>set es. out_outbox_id (snd e) = fst e \<and> outbox_row_ok (snd e) \<and> \<not> out_inflight (snd e)"
      "map (snd \<circ> row_message \<circ> snd) es = map outbox_item (map item_of ms)" by auto
  have "out_layout d' lo (hi + length ms) a (b @ es)"
    using lay fits es(1-3) d1 upt_add_eq_append [of lo hi "length ms"] by (auto simp: out_layout_def)
  moreover have "map outbox_item (map item_of ms) = ms"
    using send by (simp add: map_idI sendable_item(1))
  ultimately show ?thesis using es(4) by auto
qed

lemma enqueue_succeeds:
  assumes lay: "out_layout d lo hi a b" and "\<forall>m\<in>set ms. sendable m" and "i64_range now"
    and fits: "hi + length ms \<le> i64_max"
  shows "\<exists>d'. enqueue_messages now ms d = Inr d'"
proof (cases "ms = []")
  case False
  from enqueue_split [OF lay False fits, of now] obtain d1 where
    "db_outbox d1 = a @ b" "enqueue_messages now ms d = insert_outbox_run hi (map item_of ms) now d1" by metis
  moreover have "\<forall>e\<in>set (a @ b). fst e < hi"
    using lay small_ids [of "[]" "a @ b" "[]" lo hi] by (auto simp: out_layout_def)
  ultimately show ?thesis using insert_run_ok [of d1 hi now ms] assms by simp
qed (simp add: enqueue_messages_def enqueue_outbox_def reserve_outbox_ids_def)

section \<open>The SQL operations implement the queue\<close>

lemma sorted_messages:
  assumes "out_layout d lo hi a b"
  shows "map fst (map (row_message \<circ> snd) (a @ b)) = [lo..<hi]"
proof -
  have "map fst (map (row_message \<circ> snd) (a @ b)) = map fst (a @ b)"
    unfolding map_map using assms by (intro map_cong refl) (simp add: out_layout_def row_message_def)
  with assms show ?thesis by (simp add: out_layout_def)
qed

lemma filter_messages:
  assumes "out_layout d lo hi a b"
  shows "filter (\<lambda>m. i < fst m) (map (row_message \<circ> snd) a) = map (row_message \<circ> snd) (filter (\<lambda>e. i < fst e) a)"
proof -
  have "filter ((\<lambda>m. i < fst m) \<circ> (row_message \<circ> snd)) a = filter (\<lambda>e. i < fst e) a"
    using assms by (intro filter_cong refl) (simp add: out_layout_def row_message_def)
  then show ?thesis by (simp only: filter_map)
qed

interpretation outbox: message_queue out_inv out_waiting out_sent "enqueue_messages now"
  reserve_outbox_messages trim_outbox release_outbox_messages sendable i64_max
proof
  fix d d' :: db and ms :: "shared_message list" and n :: nat
  assume inv: "out_inv d"
  then obtain lo hi a b where lay: "out_layout d lo hi a b" by (rule out_inv_layout)
  note v = out_layout_views [OF lay]
  show "sorted_wrt (<) (map fst (out_sent d @ out_waiting d))"
    using sorted_messages [OF lay] v by (simp flip: map_append)
  show "\<exists>d'. release_outbox_messages d = Inr (length (out_sent d), d') \<and> out_inv d' \<and> out_sent d' = [] \<and>
      out_waiting d' = out_sent d @ out_waiting d"
    using release_layout [OF lay] out_layout_views v by (fastforce simp: comp_def)
  show "\<exists>d'. reserve_outbox_messages n d = Inr (take n (out_waiting d), d') \<and> out_inv d' \<and>
      out_sent d' = out_sent d @ take n (out_waiting d) \<and> out_waiting d' = drop n (out_waiting d)"
    if "n \<le> i64_max"
    using reserve_layout [OF lay that] out_layout_views v by (fastforce simp: comp_def take_map drop_map)
  show "\<exists>d'. trim_outbox n d = Inr d' \<and> out_inv d' \<and> out_sent d' = filter (\<lambda>m. n < fst m) (out_sent d) \<and>
      out_waiting d' = out_waiting d" if "n \<le> i64_max"
    using trim_layout [OF lay that] out_layout_views v filter_messages [OF lay] by metis
  show "out_inv d' \<and> out_sent d' = out_sent d \<and>
      (\<exists>new. out_waiting d' = out_waiting d @ new \<and> map snd new = ms)"
    if "\<forall>m\<in>set ms. sendable m" "enqueue_messages now ms d = Inr d'"
    using enqueue_layout [OF lay that] out_layout_views v by (metis map_append map_map)
qed

lemma next_layout: "out_layout d lo hi a b \<Longrightarrow>
    (case db_daemon_state d of None \<Rightarrow> 0 | Some r \<Rightarrow> ds_next_outbox_id r) = hi"
  by (auto simp: out_layout_def)

lemma queue_abs_layout:
  "out_layout d lo hi a b \<Longrightarrow> queue_abs d = (map (row_message \<circ> snd) a, map (row_message \<circ> snd) b, hi)"
  by (simp add: queue_abs_def next_layout out_layout_views)

lemma enumerate_messages:
  assumes "map fst es = [hi..<hi + length ms]" and "\<forall>e\<in>set es. out_outbox_id (snd e) = fst e"
    and "map (snd \<circ> row_message \<circ> snd) es = ms"
  shows "map (row_message \<circ> snd) es = enumerate hi ms"
proof -
  have "map fst (map (row_message \<circ> snd) es) = map fst es"
    unfolding map_map using assms(2) by (intro map_cong refl) (simp add: row_message_def)
  moreover have "map snd (map (row_message \<circ> snd) es) = ms" using assms(3) by (simp add: comp_def)
  ultimately show ?thesis by (metis assms(1) enumerate_eq_zip zip_map_fst_snd)
qed

lemma queue_step_refines:
  assumes "out_inv d" and "q_ok op (queue_abs d)"
  shows "\<exists>d'. run_queue_op op d = Inr d' \<and> out_inv d' \<and> queue_abs d' = q_step op (queue_abs d)"
proof -
  from assms(1) obtain lo hi a b where lay: "out_layout d lo hi a b" by (rule out_inv_layout)
  note q = queue_abs_layout
  show ?thesis
  proof (cases op)
    case (QEnqueue now ms)
    with assms(2) have ok: "i64_range now" "\<forall>m\<in>set ms. sendable m" "hi + length ms \<le> i64_max"
      by (simp_all add: q [OF lay] list_all_iff)
    from enqueue_succeeds [OF lay ok(2,1,3)] obtain d' where d': "enqueue_messages now ms d = Inr d'" ..
    from enqueue_layout [OF lay ok(2) d'] obtain es where
      es: "out_layout d' lo (hi + length ms) a (b @ es)" "map (snd \<circ> row_message \<circ> snd) es = ms" by blast
    have "map fst (a @ b) @ map fst es = [lo..<hi + length ms]"
      using es(1) by (simp add: out_layout_def)
    moreover have "map fst (a @ b) = [lo..<hi]" "lo \<le> hi" using lay by (simp_all only: out_layout_def)
    ultimately have "map fst es = [hi..<hi + length ms]"
      using upt_append_split(2) [of "map fst (a @ b)" "map fst es"] by (simp only: length_upt le_add_diff_inverse)
    then have "map (row_message \<circ> snd) es = enumerate hi ms"
      using es by (intro enumerate_messages) (auto simp: out_layout_def)
    then show ?thesis using QEnqueue d' es(1) out_layout_views(3) by (auto simp: q [OF lay] q [OF es(1)])
  next
    case (QReserve n)
    with assms(2) reserve_layout [OF lay, of n] out_layout_views(3) show ?thesis
      by (auto simp: q [OF lay] q comp_def take_map drop_map simp del: map_append) (auto simp: take_map drop_map comp_def)
  next
    case (QAck i)
    with assms(2) trim_layout [OF lay, of i] out_layout_views(3) show ?thesis
      by (auto simp: q [OF lay] filter_messages [OF lay]) (metis q)
  next
    case QRelease
    with release_layout [OF lay] out_layout_views(3) show ?thesis
      by (auto simp: q [OF lay]) (auto simp: q comp_def)
  qed
qed

lemma q_step_next: "snd (snd (q_step op q)) = snd (snd q) + (case op of QEnqueue _ ms \<Rightarrow> length ms | _ \<Rightarrow> 0)"
  by (cases q; cases op) auto

lemma q_step_contents:
  assumes "\<forall>i\<in>set (q_acks [op]). i \<le> A"
  shows "filter (\<lambda>m. A < fst m) (fst (q_step op (s, w, n)) @ fst (snd (q_step op (s, w, n)))) =
    filter (\<lambda>m. A < fst m) (s @ w @ q_enqueued n [op])"
proof (cases op)
  case (QAck i)
  with assms have "filter (\<lambda>m. A < fst m) (filter (\<lambda>m. i < fst m) s) = filter (\<lambda>m. A < fst m) s"
    by (auto intro!: filter_cong)
  with QAck show ?thesis by simp
next
  case (QReserve n)
  then show ?thesis by (simp del: filter_append)
qed simp_all

lemma q_run_contents:
  assumes "\<forall>i\<in>set (q_acks ops). i \<le> A"
  shows "(case fold q_step ops (s, w, n) of (s', w', _) \<Rightarrow> filter (\<lambda>m. A < fst m) (s' @ w')) =
    filter (\<lambda>m. A < fst m) (s @ w @ q_enqueued n ops)"
  using assms
proof (induction ops arbitrary: s w n)
  case (Cons op ops)
  obtain s1 w1 n1 where st: "q_step op (s, w, n) = (s1, w1, n1)" by (cases "q_step op (s, w, n)")
  have split: "set (q_acks (op # ops)) = set (q_acks [op]) \<union> set (q_acks ops)"
    "q_enqueued n (op # ops) = q_enqueued n [op] @ q_enqueued n1 ops"
    using st by (cases op; auto)+
  with Cons q_step_contents [of op A s w n] show ?case by (simp add: st)
qed simp

lemma queue_run_refines:
  assumes "out_inv d" and "q_run_ok ops (queue_abs d)"
  shows "\<exists>d'. fold_res run_queue_op ops d = Inr d' \<and> out_inv d' \<and> queue_abs d' = fold q_step ops (queue_abs d)"
  using assms
proof (induction ops arbitrary: d)
  case (Cons op ops)
  from queue_step_refines [OF Cons.prems(1), of op] Cons.prems(2) obtain d1 where
    "run_queue_op op d = Inr d1" "out_inv d1" "queue_abs d1 = q_step op (queue_abs d)" by auto
  with Cons.IH [of d1] Cons.prems(2) show ?case by simp
qed simp

section \<open>Properties\<close>

text \<open>(C32) The outbox table refines a queue: every admissible run of enqueue, reserve, acknowledge and
  release succeeds on the SQL tables and leaves exactly what the abstract queue holds, in order,
  under consecutive ids.\<close>

theorem outbox_refines_queue:
  assumes "out_inv d" and "q_run_ok ops (queue_abs d)"
  shows "\<exists>d'. fold_res run_queue_op ops d = Inr d' \<and> out_inv d' \<and>
    queue_abs d' = fold q_step ops (queue_abs d)"
  by (rule queue_run_refines [OF assms])

lemma demo_outbox:
  "out_inv demo_outbox_db" "queue_abs demo_outbox_db = ([], [], 1)" "q_run_ok demo_ops ([], [], 1)"
  by (simp_all add: out_inv_def demo_outbox_db_def empty_db_def demo_daemon_state_def i64_max_def out_rows_def
      queue_abs_def out_sent_def out_waiting_def demo_ops_def i64_range_def)

theorem outbox_refines_queue_witness:
  "\<exists>d'. fold_res run_queue_op demo_ops demo_outbox_db = Inr d' \<and> out_inv d' \<and>
    queue_abs d' = ([], [(2, TextObjectUpdate ''o'' ''t'')], 3)"
proof -
  have "fold q_step demo_ops ([], [], 1) = ([], [(2, TextObjectUpdate ''o'' ''t'')], 3)"
    by (simp add: demo_ops_def)
  with outbox_refines_queue [of demo_outbox_db demo_ops] demo_outbox show ?thesis by simp
qed

text \<open>Nothing is lost or reordered: after any run, the messages above the acknowledged ids are
  exactly those that were in the outbox or were enqueued since, in the same order, whatever
  was reserved and released in between.\<close>

theorem outbox_no_loss:
  assumes "out_inv d" and "q_run_ok ops (queue_abs d)" and "\<forall>i\<in>set (q_acks ops). i \<le> A"
    and "fold_res run_queue_op ops d = Inr d'"
  shows "filter (\<lambda>m. A < fst m) (out_sent d' @ out_waiting d') =
    filter (\<lambda>m. A < fst m) (out_sent d @ out_waiting d @ q_enqueued (snd (snd (queue_abs d))) ops)"
proof -
  from queue_run_refines [OF assms(1,2)] assms(4) have q: "queue_abs d' = fold q_step ops (queue_abs d)" by simp
  have "queue_abs d = (out_sent d, out_waiting d, snd (snd (queue_abs d)))"
    "fst (queue_abs d') = out_sent d'" "fst (snd (queue_abs d')) = out_waiting d'" by (simp_all add: queue_abs_def)
  with q_run_contents [OF assms(3), of "out_sent d" "out_waiting d" "snd (snd (queue_abs d))"] q
  show ?thesis by (metis (no_types, lifting) case_prod_unfold)
qed

theorem outbox_no_loss_witness:
  "\<exists>d'. fold_res run_queue_op demo_ops demo_outbox_db = Inr d' \<and>
    filter (\<lambda>m. 1 < fst m) (out_sent d' @ out_waiting d') = [(2, TextObjectUpdate ''o'' ''t'')]"
proof -
  obtain d' where d': "fold_res run_queue_op demo_ops demo_outbox_db = Inr d'"
    using queue_run_refines [of demo_outbox_db demo_ops] demo_outbox by auto
  have "out_sent demo_outbox_db = []" "out_waiting demo_outbox_db = []"
    using demo_outbox(2) by (simp_all add: queue_abs_def)
  moreover have "q_enqueued 1 demo_ops = [(1, NamespaceUpdate ''u''), (2, TextObjectUpdate ''o'' ''t'')]"
    "q_acks demo_ops = [1]" by (simp_all add: demo_ops_def)
  ultimately have "filter (\<lambda>m. 1 < fst m) (out_sent d' @ out_waiting d') = [(2, TextObjectUpdate ''o'' ''t'')]"
    using outbox_no_loss [of demo_outbox_db demo_ops 1 d'] d' demo_outbox by simp
  with d' show ?thesis by blast
qed

text \<open>After a reconnect the writer is handed the oldest unacknowledged messages first: releasing
  what was in flight and reserving again returns the head of the whole outbox, and keeps it.\<close>

theorem outbox_redelivery:
  assumes "out_inv d" and "n \<le> i64_max"
  shows "\<exists>d1 d2. release_outbox_messages d = Inr (length (out_sent d), d1) \<and>
    reserve_outbox_messages n d1 = Inr (take n (out_sent d @ out_waiting d), d2) \<and>
    out_inv d2 \<and> out_sent d2 @ out_waiting d2 = out_sent d @ out_waiting d"
  using outbox.redelivery [OF assms] by (simp only: outbox.contents_def)

theorem outbox_redelivery_witness:
  "\<exists>d1 d2. release_outbox_messages demo_outbox_db = Inr (0, d1) \<and>
    reserve_outbox_messages 3 d1 = Inr ([], d2) \<and> out_inv d2"
proof -
  have "out_sent demo_outbox_db = []" "out_waiting demo_outbox_db = []"
    using demo_outbox(2) by (simp_all add: queue_abs_def)
  with outbox_redelivery [of demo_outbox_db 3] demo_outbox(1) show ?thesis by (auto simp: i64_max_def)
qed

end
