(* ===== verification/Next_Work.thy ===== *)
theory Next_Work
  imports Projection Outbox
begin

text \<open>
  Convergence of the projection loop: \<open>get_next_work_tx\<close> plans nothing exactly when the prior tree
  agrees with the stable tree (\<open>in_sync\<close>), and committing a plan whose actions were all carried
  out brings the database into that state.
\<close>

section \<open>Agreement of the prior and the stable side\<close>

definition stable_doc :: "('d, 'sv) ext \<Rightarrow> db \<Rightarrow> object_id \<Rightarrow> bytes" where
  "stable_doc X d obj = text_doc_or_empty X (map_option fst (bt_get (db_stable_text d) obj))"

definition prior_doc :: "('d, 'sv) ext \<Rightarrow> db \<Rightarrow> object_id \<Rightarrow> bytes" where
  "prior_doc X d obj = text_doc_or_empty X (map_option fst (bt_get (db_prior_text d) obj))"

definition prior_matches :: "('d, 'sv) ext \<Rightarrow> db \<Rightarrow> stable_tree_row \<Rightarrow> prior_tree_row \<Rightarrow> bool" where
  "prior_matches X d row prior \<longleftrightarrow>
     pt_object_id prior = st_object_id row \<and> prior_doc X d (pt_object_id prior) = stable_doc X d (st_object_id row)"

definition in_sync :: "('d, 'sv) ext \<Rightarrow> db \<Rightarrow> bool" where
  "in_sync X d \<longleftrightarrow>
     list_all (\<lambda>(k, row). case bt_get (db_prior_tree d) k of
        None \<Rightarrow> False | Some prior \<Rightarrow> pt_live prior \<and> prior_matches X d row prior) (db_stable_tree d) \<and>
     list_all (\<lambda>(k, prior). pt_live prior \<longrightarrow> bt_get (db_stable_tree d) k \<noteq> None) (db_prior_tree d)"

text \<open>What the plan loop decides for one stable row, given the prior rows.\<close>

definition row_need ::
  "('d, 'sv) ext \<Rightarrow> (relative_path, prior_tree_row) btree_map \<Rightarrow> db \<Rightarrow> stable_tree_row \<Rightarrow> expected_before option" where
  "row_need X m d row =
     (case bt_get m (st_path row) of
        None \<Rightarrow> Some Missing
      | Some prior \<Rightarrow> if prior_matches X d row prior then None
          else Some (PresentWithFingerprint (pt_fingerprint prior)))"

definition row_context :: "('d, 'sv) ext \<Rightarrow> db \<Rightarrow> stable_tree_row \<Rightarrow> commit_context" where
  "row_context X d row =
     \<lparr>cc_path = st_path row, cc_claimed_path = st_claimed_path row, cc_claim_id = st_claim_id row,
      cc_object_id = st_object_id row, cc_target_text_doc_blob = Some (stable_doc X d (st_object_id row))\<rparr>"

definition live_by_path :: "db \<Rightarrow> (relative_path, prior_tree_row) btree_map" where
  "live_by_path d = bt_of_list (map (\<lambda>r. (pt_path r, r)) (filter pt_live (map snd (db_prior_tree d))))"

text \<open>One stable file that is not on disk yet, and one file on disk that the stable tree lost.\<close>

definition demo_stat :: file_stat where
  "demo_stat = \<lparr>stat_file_key = \<lparr>device_id = 1, inode = 2\<rparr>, stat_size = 2, stat_mtime = 3\<rparr>"

definition demo_work_db :: db where
  "demo_work_db = demo_outbox_db\<lparr>
     db_stable_namespace := Some (''ns'', 1), db_prior_namespace := Some (''old'', 1),
     db_stable_text := [(''o'', (''hi'', 1))],
     db_stable_tree := [(''a.md'', \<lparr>st_path = RelativePath [''a.md''], st_claimed_path = RelativePath [''a.md''],
       st_claim_id = ''c'', st_object_id = ''o'', st_updated_at = 1\<rparr>)],
     db_prior_tree := [(''b.md'', prior_row_of (RelativePath [''b.md'']) (RelativePath [''b.md'']) ''k'' ''p''
       (StatAndContent demo_stat ''h'') 1)]\<rparr>"

definition demo_completed :: "projection_epoch_started \<Rightarrow> completed_projection_epoch" where
  "demo_completed pes = \<lparr>cpe_epoch = pes_epoch pes, cpe_generation = pes_generation pes,
     cpe_target_namespace_doc_blob = pes_target_namespace_doc_blob pes,
     cpe_actions = map (\<lambda>a. \<lparr>cpa_action_id = pa_id a, cpa_commit_context = pa_commit_context a,
       cpa_result = (case pa_kind a of
          WriteFile _ _ _ \<Rightarrow> WriteFileResult (pa_id a) (Written (StatAndContent demo_stat ''h''))
        | DeleteFile _ _ \<Rightarrow> DeleteFileResult (pa_id a) Deleted)\<rparr>) (pes_actions pes)\<rparr>"

section \<open>Lemmas: reading the prior tree\<close>

lemma prior_keys:
  assumes "db_wf d" and "(k, r) \<in> set (db_prior_tree d)"
  shows "k = pt_key r" "rp_valid (pt_path r)" "prior_tree_row_ok r"
  using tbl_wfD(2,3) [OF db_wfD(6) [OF assms(1)] assms(2)] by (auto simp: prior_tree_row_ok_def)

lemma select_live_rows:
  assumes "db_wf d"
  shows "select_prior_tree_live_files d = Inr (filter pt_live (map snd (db_prior_tree d)))"
  unfolding select_prior_tree_live_files_def read_prior_row_def
  using prior_keys(3) [OF assms]
  by (intro map_res_all_ok [where g = id, simplified]) (auto intro!: prior_tree_codec.decode_cols)

lemma prior_paths_distinct:
  assumes "db_wf d"
  shows "distinct (map pt_path (map snd (db_prior_tree d)))"
proof -
  have "map fst (db_prior_tree d) = map to_db_path (map pt_path (map snd (db_prior_tree d)))"
    using prior_keys(1) [OF assms] by (auto simp: prod_eq_iff)
  moreover have "distinct (map fst (db_prior_tree d))"
    using tbl_wfD(1) [OF db_wfD(6) [OF assms]] by (rule bt_wf_distinct)
  ultimately show ?thesis by (metis distinct_map)
qed

lemma live_by_path:
  assumes "db_wf d"
  shows "bt_wf (live_by_path d)"
    "set (live_by_path d) = {(pt_path r, r) |k r. (k, r) \<in> set (db_prior_tree d) \<and> pt_live r}"
proof -
  have "distinct (map fst (map (\<lambda>r. (pt_path r, r)) (filter pt_live (map snd (db_prior_tree d)))))"
    using distinct_map_filter_snoc [OF prior_paths_distinct [OF assms], of pt_live] by (simp add: comp_def)
  then show "set (live_by_path d) = {(pt_path r, r) |k r. (k, r) \<in> set (db_prior_tree d) \<and> pt_live r}"
    unfolding live_by_path_def by (subst bt_set_of_distinct) force+
qed (simp add: live_by_path_def)

lemma live_get:
  assumes "db_wf d" and "rp_valid p"
  shows "bt_get (live_by_path d) p =
    (case bt_get (db_prior_tree d) (to_db_path p) of None \<Rightarrow> None | Some r \<Rightarrow> if pt_live r then Some r else None)"
proof -
  have wf: "bt_wf (db_prior_tree d)" using tbl_wfD(1) [OF db_wfD(6) [OF assms(1)]] .
  have iff: "bt_get (live_by_path d) p = Some r \<longleftrightarrow> bt_get (db_prior_tree d) (to_db_path p) = Some r \<and> pt_live r" for r
  proof -
    have "(p, r) \<in> set (live_by_path d) \<longleftrightarrow> (to_db_path p, r) \<in> set (db_prior_tree d) \<and> pt_live r"
    proof
      assume "(p, r) \<in> set (live_by_path d)"
      then obtain k where kr: "(k, r) \<in> set (db_prior_tree d)" "pt_live r" "p = pt_path r"
        unfolding live_by_path(2) [OF assms(1)] by blast
      have "k = to_db_path p" using prior_keys(1) [OF assms(1) kr(1)] kr(3) by (simp only:)
      with kr show "(to_db_path p, r) \<in> set (db_prior_tree d) \<and> pt_live r" by (simp only: simp_thms)
    next
      assume "(to_db_path p, r) \<in> set (db_prior_tree d) \<and> pt_live r"
      then have mem: "(to_db_path p, r) \<in> set (db_prior_tree d)" and live: "pt_live r" by blast+
      have "p = pt_path r"
        by (rule to_db_path_inj [OF assms(2) prior_keys(2) [OF assms(1) mem] prior_keys(1) [OF assms(1) mem]])
      with mem live show "(p, r) \<in> set (live_by_path d)" unfolding live_by_path(2) [OF assms(1)] by blast
    qed
    then show ?thesis
      by (simp only: bt_get_Some_iff [OF live_by_path(1) [OF assms(1)]] bt_get_Some_iff [OF wf])
  qed
  show ?thesis
  proof (cases "bt_get (db_prior_tree d) (to_db_path p)")
    case None
    then have "bt_get (live_by_path d) p = None" using iff by (metis option.distinct(1) option.exhaust)
    with None show ?thesis by simp
  next
    case (Some r)
    then have "bt_get (live_by_path d) p = Some r' \<longleftrightarrow> r' = r \<and> pt_live r" for r' unfolding iff by auto
    with Some show ?thesis by (cases "bt_get (live_by_path d) p") auto
  qed
qed

section \<open>Lemmas: the plan loop\<close>

lemma plan_row_skip:
  assumes "row_need X m d row = None"
  shows "plan_stable_row X epoch now row (m, acts, d) = Inr (bt_remove (st_path row) m, acts, d)"
  using assms
  by (auto simp: plan_stable_row_def row_need_def prior_matches_def stable_doc_def prior_doc_def
      select_stable_text_object_doc_def select_prior_text_object_doc_def split: option.splits if_splits)

lemma plan_row_write:
  assumes "row_need X m d row = Some eb" and "plan_stable_row X epoch now row (m, acts, d) = Inr s'"
  shows "\<exists>st wi. decode_text_state X 1 (stable_doc X d (st_object_id row)) = Inr st \<and>
    s' = (bt_remove (st_path row) m,
          acts @ [\<lparr>pa_id = (epoch, length acts), pa_kind = WriteFile (st_path row) (tds_text st) eb,
            pa_commit_context = row_context X d row\<rparr>],
          d\<lparr>db_write_intents := wi\<rparr>)"
proof -
  have sd: "select_stable_text_object_doc (st_object_id row) d = Inr (map_option fst (bt_get (db_stable_text d) (st_object_id row)))"
    and pd: "select_prior_text_object_doc obj d = Inr (map_option fst (bt_get (db_prior_text d) obj))" for obj
    by (simp_all add: select_stable_text_object_doc_def select_prior_text_object_doc_def)
  have need: "(case bt_get m (st_path row) of
             None \<Rightarrow> Inr (Some Missing)
           | Some prior \<Rightarrow>
               bind_res (select_prior_text_object_doc (pt_object_id prior) d) (\<lambda>prior_doc.
                 if pt_object_id prior = st_object_id row \<and>
                    text_doc_or_empty X prior_doc = text_doc_or_empty X (map_option fst (bt_get (db_stable_text d) (st_object_id row)))
                 then Inr None
                 else Inr (Some (PresentWithFingerprint (pt_fingerprint prior))))) = Inr (Some eb)"
    using assms(1) by (auto simp: pd row_need_def prior_matches_def stable_doc_def prior_doc_def split: option.splits if_splits)
  from assms(2) show ?thesis
    unfolding plan_stable_row_def
    by (simp add: sd need Let_def res_simps upsert_projection_write_intent_def row_context_def stable_doc_def split: if_splits)
      (elim exE conjE, auto split: if_splits)
qed

lemma row_need_frame:
  assumes "bt_wf m" and "st_path r \<noteq> q"
  shows "row_need X (bt_remove q m) (d\<lparr>db_write_intents := wi\<rparr>) r = row_need X m d r"
  using assms
  by (simp add: row_need_def prior_matches_def stable_doc_def prior_doc_def bt_get_remove cong: option.case_cong)

lemma row_context_frame: "row_context X (d\<lparr>db_write_intents := wi\<rparr>) = row_context X d"
  by (simp add: row_context_def stable_doc_def fun_eq_iff)

lemma filter_need_frame:
  assumes "bt_wf m" and "\<forall>r\<in>set rows. st_path r \<noteq> q"
  shows "filter (\<lambda>r. row_need X (bt_remove q m) (d\<lparr>db_write_intents := wi\<rparr>) r \<noteq> None) rows =
    filter (\<lambda>r. row_need X m d r \<noteq> None) rows"
  using assms by (intro filter_cong refl) (simp add: row_need_frame)

lemma plan_fold:
  assumes "fold_res (plan_stable_row X epoch now) rows (m, acts, d) = Inr (rest, acts', d')"
    and "bt_wf m" and "distinct (map st_path rows)"
  shows "\<exists>wi ws. d' = d\<lparr>db_write_intents := wi\<rparr> \<and> acts' = acts @ ws \<and> bt_wf rest \<and>
    (\<forall>p. bt_get rest p = (if p \<in> st_path ` set rows then None else bt_get m p)) \<and>
    map pa_commit_context ws = map (row_context X d) (filter (\<lambda>r. row_need X m d r \<noteq> None) rows) \<and>
    (\<forall>a\<in>set ws. \<exists>p c e. pa_kind a = WriteFile p c e)"
  using assms
proof (induction rows arbitrary: m acts d)
  case Nil
  then show ?case by (intro exI [of _ "db_write_intents d"] exI [of _ "[]"]) simp
next
  case (Cons r rows)
  let ?m = "bt_remove (st_path r) m"
  have wf: "bt_wf ?m" using Cons.prems(2) by (rule bt_wf_remove)
  have other: "\<forall>r'\<in>set rows. st_path r' \<noteq> st_path r" using Cons.prems(3) by (simp add: image_iff) metis
  obtain acts1 wi where step: "plan_stable_row X epoch now r (m, acts, d) = Inr (?m, acts1, d\<lparr>db_write_intents := wi\<rparr>)"
    and acts1: "\<exists>new. acts1 = acts @ new \<and> (\<forall>a\<in>set new. \<exists>p c e. pa_kind a = WriteFile p c e) \<and>
      map pa_commit_context new = map (row_context X d) (filter (\<lambda>r. row_need X m d r \<noteq> None) [r])"
  proof (cases "row_need X m d r")
    case None
    then show ?thesis using that [of acts "db_write_intents d"] plan_row_skip [OF None] by simp
  next
    case (Some eb)
    from Cons.prems(1) obtain s' where s': "plan_stable_row X epoch now r (m, acts, d) = Inr s'"
      by (auto simp: res_simps)
    from plan_row_write [OF Some s'] that s' Some show ?thesis by auto
  qed
  let ?d = "d\<lparr>db_write_intents := wi\<rparr>"
  from Cons.prems(1) step have "fold_res (plan_stable_row X epoch now) rows (?m, acts1, ?d) = Inr (rest, acts', d')" by simp
  from Cons.IH [OF this wf] Cons.prems(3) obtain wi' ws where IH: "d' = ?d\<lparr>db_write_intents := wi'\<rparr>" "acts' = acts1 @ ws"
      "bt_wf rest" "\<forall>p. bt_get rest p = (if p \<in> st_path ` set rows then None else bt_get ?m p)"
      "map pa_commit_context ws = map (row_context X ?d) (filter (\<lambda>r. row_need X ?m ?d r \<noteq> None) rows)"
      "\<forall>a\<in>set ws. \<exists>p c e. pa_kind a = WriteFile p c e" by auto
  from acts1 obtain new where new: "acts1 = acts @ new" "\<forall>a\<in>set new. \<exists>p c e. pa_kind a = WriteFile p c e"
      "map pa_commit_context new = map (row_context X d) (filter (\<lambda>r. row_need X m d r \<noteq> None) [r])" by blast
  have "map pa_commit_context (new @ ws) = map (row_context X d) (filter (\<lambda>r. row_need X m d r \<noteq> None) (r # rows))"
    using new(3) IH(5) unfolding filter_need_frame [OF Cons.prems(2) other] row_context_frame
    by (simp split: if_splits)
  moreover have "\<forall>p. bt_get rest p = (if p \<in> st_path ` set (r # rows) then None else bt_get m p)"
    using IH(4) Cons.prems(2) by (simp add: bt_get_remove)
  ultimately show ?case
    using IH(1,2,3,6) new(1,2) by (intro exI [of _ wi'] exI [of _ "new @ ws"]) auto
qed

lemma plan_fold_idle:
  assumes "\<forall>r\<in>set rows. row_need X m d r = None" and "bt_wf m" and "distinct (map st_path rows)"
  shows "fold_res (plan_stable_row X epoch now) rows (m, acts, d) = Inr (fold (bt_remove \<circ> st_path) rows m, acts, d)"
  using assms
proof (induction rows arbitrary: m)
  case (Cons r rows)
  have "\<forall>r'\<in>set rows. st_path r' \<noteq> st_path r" using Cons.prems(3) by (simp add: image_iff) metis
  then have "\<forall>r'\<in>set rows. row_need X (bt_remove (st_path r) m) d r' = None"
    using Cons.prems(1,2) row_need_frame [of m _ "st_path r" X "db_write_intents d" d] by simp
  from Cons.IH [OF this] Cons.prems show ?case
    by (simp add: plan_row_skip bt_wf_remove)
qed simp

section \<open>Lemmas: when the plan is empty\<close>

lemma rest_empty_iff:
  assumes "bt_wf m"
  shows "m = [] \<longleftrightarrow> (\<forall>p. bt_get m p = None)"
proof
  assume "\<forall>p. bt_get m p = None"
  then show "m = []" using assms by (cases m) (auto simp: bt_get_def split: if_splits)
qed simp

definition readable :: "db \<Rightarrow> bool" where
  "readable d \<longleftrightarrow> db_wf d \<and> db_daemon_state d \<noteq> None \<and> db_stable_namespace d \<noteq> None"

lemma readable_prefix:
  assumes "readable d"
  obtains r blob t where "db_daemon_state d = Some r" "select_stable_cursor d = Inr (ds_stable_cursor r)"
    "required_namespace (select_stable_namespace d) = Inr blob" "db_stable_namespace d = Some (blob, t)"
proof -
  from assms obtain r blob t where "db_daemon_state d = Some r" "db_stable_namespace d = Some (blob, t)"
    by (auto simp: readable_def)
  with that show ?thesis
    by (auto simp: select_stable_cursor_def required_namespace_def select_stable_namespace_def datetime_from_unix_ns_def)
qed

lemma in_sync_iff:
  assumes "db_wf d"
  shows "in_sync X d \<longleftrightarrow> (\<forall>r\<in>set (map snd (db_stable_tree d)). row_need X (live_by_path d) d r = None) \<and>
    (\<forall>p. bt_get (live_by_path d) p \<noteq> None \<longrightarrow> p \<in> st_path ` snd ` set (db_stable_tree d))"
proof -
  have "(case bt_get (db_prior_tree d) k of None \<Rightarrow> False | Some prior \<Rightarrow> pt_live prior \<and> prior_matches X d r prior) \<longleftrightarrow>
      row_need X (live_by_path d) d r = None" if "(k, r) \<in> set (db_stable_tree d)" for k r
    unfolding row_need_def live_get [OF assms stable_keys(2) [OF assms that]] stable_keys(1) [OF assms that]
    by (simp split: option.splits)
  then have "list_all (\<lambda>(k, row). case bt_get (db_prior_tree d) k of
        None \<Rightarrow> False | Some prior \<Rightarrow> pt_live prior \<and> prior_matches X d row prior) (db_stable_tree d) \<longleftrightarrow>
      (\<forall>r\<in>set (map snd (db_stable_tree d)). row_need X (live_by_path d) d r = None)"
    by (auto simp: list_all_iff)
  moreover have "list_all (\<lambda>(k, prior). pt_live prior \<longrightarrow> bt_get (db_stable_tree d) k \<noteq> None) (db_prior_tree d) \<longleftrightarrow>
      (\<forall>p. bt_get (live_by_path d) p \<noteq> None \<longrightarrow> p \<in> st_path ` snd ` set (db_stable_tree d))"
  proof -
    have mem: "pt_path r \<in> st_path ` snd ` set (db_stable_tree d) \<longleftrightarrow> bt_get (db_stable_tree d) k \<noteq> None"
      if "(k, r) \<in> set (db_prior_tree d)" for k r
    proof -
      have "bt_get (db_stable_tree d) k \<noteq> None \<longleftrightarrow> k \<in> fst ` set (db_stable_tree d)"
        by (simp add: bt_get_def map_of_eq_None_iff)
      also have "\<dots> \<longleftrightarrow> pt_path r \<in> st_path ` snd ` set (db_stable_tree d)"
      proof
        assume "k \<in> fst ` set (db_stable_tree d)"
        then obtain s where s: "(k, s) \<in> set (db_stable_tree d)" by auto
        have "to_db_path (pt_path r) = to_db_path (st_path s)"
          using stable_keys(1) [OF assms s] prior_keys(1) [OF assms that] by metis
        then have "pt_path r = st_path s"
          by (rule to_db_path_inj [OF prior_keys(2) [OF assms that] stable_keys(2) [OF assms s]])
        with s show "pt_path r \<in> st_path ` snd ` set (db_stable_tree d)" by force
      next
        assume "pt_path r \<in> st_path ` snd ` set (db_stable_tree d)"
        then obtain k' s where s: "(k', s) \<in> set (db_stable_tree d)" "pt_path r = st_path s" by auto
        have "k = k'" using stable_keys(1) [OF assms s(1)] prior_keys(1) [OF assms that] s(2) by metis
        with s(1) show "k \<in> fst ` set (db_stable_tree d)" by force
      qed
      finally show ?thesis by blast
    qed
    have all: "list_all (\<lambda>(k, prior). pt_live prior \<longrightarrow> bt_get (db_stable_tree d) k \<noteq> None) (db_prior_tree d) \<longleftrightarrow>
        (\<forall>k r. (k, r) \<in> set (db_prior_tree d) \<longrightarrow> pt_live r \<longrightarrow> bt_get (db_stable_tree d) k \<noteq> None)"
      by (auto simp: list_all_iff)
    have live: "bt_get (live_by_path d) p \<noteq> None \<longleftrightarrow> (\<exists>k r. (k, r) \<in> set (db_prior_tree d) \<and> pt_live r \<and> pt_path r = p)" for p
    proof -
      have "bt_get (live_by_path d) p \<noteq> None \<longleftrightarrow> (\<exists>r. (p, r) \<in> set (live_by_path d))"
        by (simp add: bt_get_Some_iff [OF live_by_path(1) [OF assms]])
      then show ?thesis unfolding live_by_path(2) [OF assms] by blast
    qed
    show ?thesis unfolding all live using mem by metis
  qed
  ultimately show ?thesis by (simp add: in_sync_def)
qed

text \<open>What a plan consists of: the writes of the rows that need one, then the deletes of the live
  prior rows whose path the stable tree no longer has.\<close>

definition plan_spec :: "('d, 'sv) ext \<Rightarrow> db \<Rightarrow> projection_action list \<Rightarrow> bool" where
  "plan_spec X d actions \<longleftrightarrow>
     (\<exists>writes deletes. actions = writes @ deletes \<and>
        map pa_commit_context writes =
          map (row_context X d) (filter (\<lambda>r. row_need X (live_by_path d) d r \<noteq> None) (map snd (db_stable_tree d))) \<and>
        (\<forall>a\<in>set writes. \<exists>p c e. pa_kind a = WriteFile p c e) \<and>
        (\<forall>a\<in>set deletes. \<exists>p e. pa_kind a = DeleteFile p e) \<and>
        (cc_path \<circ> pa_commit_context) ` set deletes =
          {p. bt_get (live_by_path d) p \<noteq> None} - st_path ` snd ` set (db_stable_tree d) \<and>
        distinct (map (cc_path \<circ> pa_commit_context) deletes))"

lemma next_work_split:
  assumes "readable d" and "get_next_work_tx X epoch now d = Inr (work, d')"
  shows "\<exists>wi actions. d' = d\<lparr>db_write_intents := wi\<rparr> \<and> plan_spec X d actions \<and>
    (if actions = [] then work = NoWork
     else \<exists>pes. work = Project pes \<and> pes_actions pes = actions \<and> pes_epoch pes = epoch \<and>
       (\<exists>t. db_stable_namespace d = Some (pes_target_namespace_doc_blob pes, t)))"
proof -
  have wf: "db_wf d" using assms(1) by (simp add: readable_def)
  obtain r blob t where pre: "db_daemon_state d = Some r" "select_stable_cursor d = Inr (ds_stable_cursor r)"
    "required_namespace (select_stable_namespace d) = Inr blob" "db_stable_namespace d = Some (blob, t)"
    using readable_prefix [OF assms(1)] .
  let ?rows = "map snd (db_stable_tree d)"
  from assms(2) obtain rest writes d1 where
    loop: "fold_res (plan_stable_row X epoch now) ?rows (live_by_path d, [], d) = Inr (rest, writes, d1)"
    and out: "(if writes @ map (\<lambda>(i, r). delete_action epoch i r) (enumerate (length writes) (map snd rest)) = []
        then (NoWork, d1)
        else (Project \<lparr>pes_epoch = epoch, pes_generation = ds_stable_cursor r, pes_target_namespace_doc_blob = blob,
          pes_actions = writes @ map (\<lambda>(i, r). delete_action epoch i r) (enumerate (length writes) (map snd rest))\<rparr>, d1))
        = (work, d')"
    unfolding get_next_work_tx_def
    by (auto simp: pre select_live_rows [OF wf] select_stable_rows [OF wf] live_by_path_def res_simps Let_def split: if_splits)
  let ?dels = "map (\<lambda>(i, r). delete_action epoch i r) (enumerate (length writes) (map snd rest))"
  from plan_fold [OF loop live_by_path(1) [OF wf] stable_paths_distinct [OF wf]] obtain wi where
    pf: "d1 = d\<lparr>db_write_intents := wi\<rparr>" "bt_wf rest"
      "\<forall>p. bt_get rest p = (if p \<in> st_path ` set ?rows then None else bt_get (live_by_path d) p)"
      "map pa_commit_context writes = map (row_context X d) (filter (\<lambda>r. row_need X (live_by_path d) d r \<noteq> None) ?rows)"
      "\<forall>a\<in>set writes. \<exists>p c e. pa_kind a = WriteFile p c e" by auto
  have keys: "pt_path q = p" if "(p, q) \<in> set rest" for p q
  proof -
    have "bt_get rest p = Some q" using that pf(2) by (simp add: bt_get_Some_iff)
    then have "bt_get (live_by_path d) p = Some q" using pf(3) by (simp split: if_splits)
    then have "(p, q) \<in> set (live_by_path d)" using live_by_path(1) [OF wf] by (simp add: bt_get_Some_iff)
    then show ?thesis unfolding live_by_path(2) [OF wf] by blast
  qed
  have paths: "map (cc_path \<circ> pa_commit_context) ?dels = map fst rest"
    using keys by (auto simp: delete_action_def comp_def case_prod_unfold intro!: nth_equalityI)
      (metis nth_mem prod.collapse nth_enumerate_eq snd_conv length_map nth_map)
  have "plan_spec X d (writes @ ?dels)"
    unfolding plan_spec_def
  proof (rule exI [of _ writes], rule exI [of _ ?dels], intro conjI)
    have "(cc_path \<circ> pa_commit_context) ` set ?dels = set (map fst rest)"
      unfolding paths [symmetric] by (simp only: list.set_map)
    also have "\<dots> = {p. bt_get rest p \<noteq> None}" by (auto simp: bt_get_def map_of_eq_None_iff)
    also have "\<dots> = {p. bt_get (live_by_path d) p \<noteq> None} - st_path ` snd ` set (db_stable_tree d)"
      using pf(3) by auto
    finally show "(cc_path \<circ> pa_commit_context) ` set ?dels =
        {p. bt_get (live_by_path d) p \<noteq> None} - st_path ` snd ` set (db_stable_tree d)" .
    show "distinct (map (cc_path \<circ> pa_commit_context) ?dels)"
      unfolding paths by (rule bt_wf_distinct [OF pf(2)])
  qed (use pf(4,5) in \<open>auto simp: delete_action_def\<close>)
  with out pf(1) pre(4) show ?thesis by (intro exI [of _ wi] exI [of _ "writes @ ?dels"]) (auto split: if_splits)
qed

lemma next_work_idle:
  assumes "readable d" and "in_sync X d"
  shows "get_next_work_tx X epoch now d = Inr (NoWork, d)"
proof -
  have wf: "db_wf d" using assms(1) by (simp add: readable_def)
  let ?rows = "map snd (db_stable_tree d)"
  let ?rest = "fold (bt_remove \<circ> st_path) ?rows (live_by_path d)"
  have need: "\<forall>r\<in>set ?rows. row_need X (live_by_path d) d r = None"
    and cover: "\<forall>p. bt_get (live_by_path d) p \<noteq> None \<longrightarrow> p \<in> st_path ` snd ` set (db_stable_tree d)"
    using assms(2) unfolding in_sync_iff [OF wf] by blast+
  have loop: "fold_res (plan_stable_row X epoch now) ?rows (live_by_path d, [], d) = Inr (?rest, [], d)"
    by (rule plan_fold_idle [OF need live_by_path(1) [OF wf] stable_paths_distinct [OF wf]])
  from plan_fold [OF loop live_by_path(1) [OF wf] stable_paths_distinct [OF wf]]
  have "bt_wf ?rest" and get: "\<forall>p. bt_get ?rest p = (if p \<in> st_path ` set ?rows then None else bt_get (live_by_path d) p)"
    by blast+
  moreover have "bt_get ?rest p = None" for p
    using get cover by (metis (mono_tags, lifting) list.set_map)
  ultimately have "?rest = []" using rest_empty_iff by blast
  with loop have loop: "fold_res (plan_stable_row X epoch now) ?rows (live_by_path d, [], d) = Inr ([], [], d)" by (simp only:)
  obtain r blob t where pre: "db_daemon_state d = Some r" "select_stable_cursor d = Inr (ds_stable_cursor r)"
    "required_namespace (select_stable_namespace d) = Inr blob" "db_stable_namespace d = Some (blob, t)"
    using readable_prefix [OF assms(1)] .
  show ?thesis
    unfolding get_next_work_tx_def pre(2,3) bind_res_Inr select_live_rows [OF wf] select_stable_rows [OF wf]
      live_by_path_def [symmetric] loop by simp
qed

lemma empty_plan_in_sync:
  assumes "db_wf d" and "plan_spec X d []"
  shows "in_sync X d"
  using assms(2) unfolding in_sync_iff [OF assms(1)] plan_spec_def by (auto simp: filter_empty_conv)

section \<open>Lemmas: committing a completed plan\<close>

definition fp_good :: "file_fingerprint \<Rightarrow> bool" where
  "fp_good f \<longleftrightarrow> fp_ok f \<and>
     (case f of StatOnly _ \<Rightarrow> False | StatAndContent s h \<Rightarrow> i64_range (stat_mtime s) \<and> stat_size s \<le> i64_max)"

fun write_done :: "projection_action_result \<Rightarrow> action_id \<Rightarrow> bool" where
  "write_done (WriteFileResult i (Written f)) j \<longleftrightarrow> i = j \<and> fp_good f"
| "write_done (WriteFileResult i (AlreadyApplied f)) j \<longleftrightarrow> i = j \<and> fp_good f"
| "write_done _ _ \<longleftrightarrow> False"

fun delete_done :: "projection_action_result \<Rightarrow> action_id \<Rightarrow> bool" where
  "delete_done (DeleteFileResult i Deleted) j \<longleftrightarrow> i = j"
| "delete_done (DeleteFileResult i AlreadyDeleted) j \<longleftrightarrow> i = j"
| "delete_done _ _ \<longleftrightarrow> False"

text \<open>The action was carried out, and its completion is reported under its own id and context.\<close>

definition accepted :: "projection_action \<Rightarrow> completed_projection_action \<Rightarrow> bool" where
  "accepted a c \<longleftrightarrow>
     cpa_action_id c = pa_id a \<and> cpa_commit_context c = pa_commit_context a \<and>
     (case pa_kind a of
        WriteFile _ _ _ \<Rightarrow> write_done (cpa_result c) (pa_id a)
      | DeleteFile _ _ \<Rightarrow> delete_done (cpa_result c) (pa_id a))"

lemma fp_good_parts:
  assumes "fp_good f"
  obtains k s m h where "staged_file_fingerprint_parts f = Inr (k, s, m, h)" "s \<le> i64_max"
  using assms by (cases f) (auto simp: fp_good_def fingerprint_parts_Inr)

lemma commit_write:
  assumes "db_wf d" and t: "i64_range t" and row: "stable_tree_row_ok row"
    and c: "cpa_commit_context c = row_context X d0 row" "write_done (cpa_result c) (cpa_action_id c)"
  shows "\<exists>f pt px ai wi. commit_completed_projection_action_tx t c d =
      Inr (d\<lparr>db_prior_text := px, db_prior_tree := pt, db_applied_intents := ai, db_write_intents := wi\<rparr>) \<and>
    db_wf (d\<lparr>db_prior_text := px, db_prior_tree := pt, db_applied_intents := ai, db_write_intents := wi\<rparr>) \<and>
    pt = bt_insert (st_key row) (prior_row_of (st_path row) (st_claimed_path row) (st_claim_id row) (st_object_id row) f t)
      (db_prior_tree d) \<and>
    px = bt_insert (st_object_id row) (stable_doc X d0 (st_object_id row), t) (db_prior_text d)"
proof -
  obtain f where res: "cpa_result c = WriteFileResult (cpa_action_id c) (Written f) \<or>
      cpa_result c = WriteFileResult (cpa_action_id c) (AlreadyApplied f)" and f: "fp_good f"
    using c(2) by (cases "(cpa_result c, cpa_action_id c)" rule: write_done.cases) auto
  let ?px = "bt_insert (st_object_id row) (stable_doc X d0 (st_object_id row), t) (db_prior_text d)"
  let ?row = "prior_row_of (st_path row) (st_claimed_path row) (st_claim_id row) (st_object_id row) f t"
  let ?pt = "bt_insert (st_key row) ?row (db_prior_tree d)"
  let ?ai = "filter (\<lambda>e. fst (fst e) \<noteq> st_key row) (db_applied_intents d)"
  let ?wi = "filter (\<lambda>e. fst (fst e) \<noteq> st_key row) (db_write_intents d)"
  have valid: "rp_valid (st_path row)" "rp_valid (st_claimed_path row)" "st_claim_id row \<noteq> []" "st_object_id row \<noteq> []"
    using row by (simp_all add: stable_tree_row_ok_def)
  obtain k s m h where parts: "staged_file_fingerprint_parts f = Inr (k, s, m, h)" "s \<le> i64_max"
    using fp_good_parts [OF f] .
  have up: "upsert_prior_tree_file (st_path row) (st_claimed_path row) (st_claim_id row) (st_object_id row) f t d1 =
      Inr (d1\<lparr>db_prior_tree := bt_insert (st_key row) ?row (db_prior_tree d1)\<rparr>)" for d1
    using valid t parts
    by (simp add: upsert_prior_tree_file_def i64_try_from_def i64_from_u64_def datetime_to_unix_ns_def to_db_path_nonempty)
  have "commit_completed_projection_action_tx t c d =
      Inr (d\<lparr>db_prior_text := ?px, db_prior_tree := ?pt, db_applied_intents := ?ai, db_write_intents := ?wi\<rparr>)"
    using res by (elim disjE) (simp_all add: commit_completed_projection_action_tx_def c(1) row_context_def Let_def
        upsert_prior_text_object_def datetime_to_unix_ns_def t up delete_projection_write_intents_for_path_def)
  moreover have "db_wf (d\<lparr>db_prior_text := ?px, db_prior_tree := ?pt, db_applied_intents := ?ai, db_write_intents := ?wi\<rparr>)"
    using valid f by (intro db_wf_update(6) db_wf_update(8) db_wf_update(10) db_wf_update(11) assms(1) bt_wf_insert
        bt_wf_filter tbl_wf_insert prior_row_ok db_wfD(3,6,9,10) [OF assms(1)]) (simp_all add: fp_good_def)
  ultimately show ?thesis by blast
qed

lemma commit_delete:
  assumes "db_wf d" and t: "i64_range t" and "rp_valid (cc_path (cpa_commit_context c))"
    and c: "delete_done (cpa_result c) (cpa_action_id c)"
    and time: "\<And>r. bt_get (db_prior_tree d) (to_db_path (cc_path (cpa_commit_context c))) = Some r \<Longrightarrow> pt_accepted_at r \<le> t"
  shows "\<exists>pt ai wi. commit_completed_projection_action_tx t c d =
      Inr (d\<lparr>db_prior_tree := pt, db_applied_intents := ai, db_write_intents := wi\<rparr>) \<and>
    db_wf (d\<lparr>db_prior_tree := pt, db_applied_intents := ai, db_write_intents := wi\<rparr>) \<and>
    bt_get pt = (bt_get (db_prior_tree d)) (to_db_path (cc_path (cpa_commit_context c)) :=
      map_option (\<lambda>r. if pt_live r then r\<lparr>pt_deleted_at := Some t\<rparr> else r)
        (bt_get (db_prior_tree d) (to_db_path (cc_path (cpa_commit_context c)))))"
proof -
  let ?k = "to_db_path (cc_path (cpa_commit_context c))"
  let ?ai = "filter (\<lambda>e. fst (fst e) \<noteq> ?k) (db_applied_intents d)"
  let ?wi = "filter (\<lambda>e. fst (fst e) \<noteq> ?k) (db_write_intents d)"
  have run: "commit_completed_projection_action_tx t c d =
      bind_res (tombstone_prior_tree_file (cc_path (cpa_commit_context c)) t d)
        (delete_projection_write_intents_for_path (cc_path (cpa_commit_context c)))"
    using c by (cases "(cpa_result c, cpa_action_id c)" rule: delete_done.cases)
      (auto simp: commit_completed_projection_action_tx_def Let_def)
  obtain pt where tomb: "tombstone_prior_tree_file (cc_path (cpa_commit_context c)) t d = Inr (d\<lparr>db_prior_tree := pt\<rparr>)"
    and get: "bt_get pt = (bt_get (db_prior_tree d)) (?k :=
      map_option (\<lambda>r. if pt_live r then r\<lparr>pt_deleted_at := Some t\<rparr> else r) (bt_get (db_prior_tree d) ?k))"
  proof (cases "bt_get (db_prior_tree d) ?k")
    case None
    then show ?thesis using that [of "db_prior_tree d"] t
      by (simp add: tombstone_prior_tree_file_def datetime_to_unix_ns_def fun_upd_idem)
  next
    case (Some r)
    then show ?thesis
      using t time [OF Some] that [of "db_prior_tree d"] that [of "bt_insert ?k (r\<lparr>pt_deleted_at := Some t\<rparr>) (db_prior_tree d)"]
      by (cases "pt_live r") (auto simp: tombstone_prior_tree_file_def datetime_to_unix_ns_def bt_get_insert fun_upd_idem)
  qed
  have "db_wf (d\<lparr>db_prior_tree := pt\<rparr>)" by (rule tombstone_wf [OF assms(1) tomb])
  then have "db_wf (d\<lparr>db_prior_tree := pt, db_applied_intents := ?ai, db_write_intents := ?wi\<rparr>)"
    by (intro db_wf_update(10) db_wf_update(11) bt_wf_filter db_wfD(9,10) [OF assms(1)])
  with run tomb get show ?thesis
    by (intro exI [of _ pt] exI [of _ ?ai] exI [of _ ?wi]) (simp add: delete_projection_write_intents_for_path_def)
qed

text \<open>Both folds only touch the prior tables and the write intents.\<close>

definition prior_update :: "db \<Rightarrow> (string, prior_tree_row) btree_map \<Rightarrow> (object_id, bytes \<times> time_ns) btree_map \<Rightarrow> db \<Rightarrow> bool" where
  "prior_update d pt px d' \<longleftrightarrow> db_wf d' \<and>
     (\<exists>ai wi. d' = d\<lparr>db_prior_text := px, db_prior_tree := pt, db_applied_intents := ai, db_write_intents := wi\<rparr>)"

lemma prior_update_refl: "db_wf d \<Longrightarrow> prior_update d (db_prior_tree d) (db_prior_text d) d"
  unfolding prior_update_def by (rule conjI, assumption, rule exI [of _ "db_applied_intents d"],
      rule exI [of _ "db_write_intents d"]) simp

lemma prior_update_trans: "prior_update d pt px d1 \<Longrightarrow> prior_update d1 pt' px' d2 \<Longrightarrow> prior_update d pt' px' d2"
  unfolding prior_update_def by (elim conjE exE, hypsubst, intro conjI, assumption, rule exI, rule exI, simp)

lemma prior_update_step:
  "db_wf (d\<lparr>db_prior_text := px, db_prior_tree := pt, db_applied_intents := ai, db_write_intents := wi\<rparr>) \<Longrightarrow>
    prior_update d pt px (d\<lparr>db_prior_text := px, db_prior_tree := pt, db_applied_intents := ai, db_write_intents := wi\<rparr>)"
  unfolding prior_update_def by blast

lemma prior_update_step_tree:
  "db_wf (d\<lparr>db_prior_tree := pt, db_applied_intents := ai, db_write_intents := wi\<rparr>) \<Longrightarrow>
    prior_update d pt (db_prior_text d) (d\<lparr>db_prior_tree := pt, db_applied_intents := ai, db_write_intents := wi\<rparr>)"
  unfolding prior_update_def by (rule conjI, assumption, rule exI [of _ ai], rule exI [of _ wi]) simp

lemma commit_writes:
  assumes t: "i64_range t" and "db_wf d"
    and "list_all2 (\<lambda>row c. stable_tree_row_ok row \<and> cpa_commit_context c = row_context X d0 row \<and>
      write_done (cpa_result c) (cpa_action_id c)) rows cs"
    and "distinct (map st_key rows)"
  shows "\<exists>d' pt px. fold_res (commit_completed_projection_action_tx t) cs d = Inr d' \<and> prior_update d pt px d' \<and>
    (\<forall>k. k \<notin> st_key ` set rows \<longrightarrow> bt_get pt k = bt_get (db_prior_tree d) k) \<and>
    (\<forall>row\<in>set rows. \<exists>r. bt_get pt (st_key row) = Some r \<and> pt_live r \<and> pt_object_id r = st_object_id row \<and> pt_accepted_at r = t) \<and>
    (\<forall>obj. map_option fst (bt_get px obj) =
      (if obj \<in> st_object_id ` set rows then Some (stable_doc X d0 obj) else map_option fst (bt_get (db_prior_text d) obj)))"
  using assms(3,2,4)
proof (induction rows cs arbitrary: d rule: list_all2_induct)
  case Nil
  then show ?case
    by (intro exI [of _ d] exI [of _ "db_prior_tree d"] exI [of _ "db_prior_text d"]) (simp add: prior_update_refl)
next
  case (Cons row rows c cs)
  from commit_write [OF Cons.prems(1) t, of row c X d0] Cons.hyps(1) obtain f pt px ai wi where
    step: "commit_completed_projection_action_tx t c d =
        Inr (d\<lparr>db_prior_text := px, db_prior_tree := pt, db_applied_intents := ai, db_write_intents := wi\<rparr>)"
      "db_wf (d\<lparr>db_prior_text := px, db_prior_tree := pt, db_applied_intents := ai, db_write_intents := wi\<rparr>)"
    and pt: "pt = bt_insert (st_key row) (prior_row_of (st_path row) (st_claimed_path row) (st_claim_id row) (st_object_id row) f t)
        (db_prior_tree d)"
    and px: "px = bt_insert (st_object_id row) (stable_doc X d0 (st_object_id row), t) (db_prior_text d)" by blast
  let ?d = "d\<lparr>db_prior_text := px, db_prior_tree := pt, db_applied_intents := ai, db_write_intents := wi\<rparr>"
  from Cons.IH [OF step(2)] Cons.prems(2) obtain d' pt' px' where IH:
      "fold_res (commit_completed_projection_action_tx t) cs ?d = Inr d'" "prior_update ?d pt' px' d'"
      "\<forall>k. k \<notin> st_key ` set rows \<longrightarrow> bt_get pt' k = bt_get pt k"
      "\<forall>row\<in>set rows. \<exists>r. bt_get pt' (st_key row) = Some r \<and> pt_live r \<and> pt_object_id r = st_object_id row \<and> pt_accepted_at r = t"
      "\<forall>obj. map_option fst (bt_get px' obj) =
        (if obj \<in> st_object_id ` set rows then Some (stable_doc X d0 obj) else map_option fst (bt_get px obj))" by auto
  have new: "st_key row \<notin> st_key ` set rows" using Cons.prems(2) by simp
  have "bt_get pt' (st_key row) = Some (prior_row_of (st_path row) (st_claimed_path row) (st_claim_id row) (st_object_id row) f t)"
    using IH(3) new by (simp add: pt bt_get_insert)
  then have "\<forall>row'\<in>set (row # rows). \<exists>r. bt_get pt' (st_key row') = Some r \<and> pt_live r \<and> pt_object_id r = st_object_id row' \<and> pt_accepted_at r = t"
    using IH(4) by (simp add: prior_row_of_def pt_live_def)
  moreover have "\<forall>k. k \<notin> st_key ` set (row # rows) \<longrightarrow> bt_get pt' k = bt_get (db_prior_tree d) k"
    using IH(3) by (simp add: pt bt_get_insert)
  moreover have "\<forall>obj. map_option fst (bt_get px' obj) = (if obj \<in> st_object_id ` set (row # rows)
      then Some (stable_doc X d0 obj) else map_option fst (bt_get (db_prior_text d) obj))"
    using IH(5) by (simp add: px bt_get_insert)
  moreover have "prior_update d pt' px' d'" by (rule prior_update_trans [OF prior_update_step [OF step(2)] IH(2)])
  ultimately show ?case
    using IH(1) step(1) by (intro exI [of _ d'] exI [of _ pt'] exI [of _ px']) simp
qed

lemma commit_deletes:
  assumes t: "i64_range t" and "db_wf d"
    and "\<forall>c\<in>set cs. rp_valid (cc_path (cpa_commit_context c)) \<and> delete_done (cpa_result c) (cpa_action_id c)"
    and "\<forall>k r. bt_get (db_prior_tree d) k = Some r \<longrightarrow> pt_accepted_at r \<le> t"
  shows "\<exists>d' pt. fold_res (commit_completed_projection_action_tx t) cs d = Inr d' \<and> prior_update d pt (db_prior_text d) d' \<and>
    (\<forall>k. k \<notin> (to_db_path \<circ> cc_path \<circ> cpa_commit_context) ` set cs \<longrightarrow> bt_get pt k = bt_get (db_prior_tree d) k) \<and>
    (\<forall>k r. bt_get pt k = Some r \<and> pt_live r \<longrightarrow> bt_get (db_prior_tree d) k = Some r \<and>
      k \<notin> (to_db_path \<circ> cc_path \<circ> cpa_commit_context) ` set cs)"
  using assms(2-)
proof (induction cs arbitrary: d)
  case Nil
  then show ?case by (intro exI [of _ d] exI [of _ "db_prior_tree d"]) (simp add: prior_update_refl)
next
  case (Cons c cs)
  let ?k = "to_db_path (cc_path (cpa_commit_context c))"
  have c: "rp_valid (cc_path (cpa_commit_context c))" "delete_done (cpa_result c) (cpa_action_id c)"
    and cs: "\<forall>c\<in>set cs. rp_valid (cc_path (cpa_commit_context c)) \<and> delete_done (cpa_result c) (cpa_action_id c)"
    using Cons.prems(2) by simp_all
  have time: "pt_accepted_at r \<le> t" if "bt_get (db_prior_tree d) ?k = Some r" for r
    using Cons.prems(3) that by blast
  from commit_delete [OF Cons.prems(1) t c time] obtain pt ai wi where
    step: "commit_completed_projection_action_tx t c d = Inr (d\<lparr>db_prior_tree := pt, db_applied_intents := ai, db_write_intents := wi\<rparr>)"
      "db_wf (d\<lparr>db_prior_tree := pt, db_applied_intents := ai, db_write_intents := wi\<rparr>)"
    and pt: "bt_get pt = (bt_get (db_prior_tree d)) (?k :=
        map_option (\<lambda>r. if pt_live r then r\<lparr>pt_deleted_at := Some t\<rparr> else r) (bt_get (db_prior_tree d) ?k))" by blast
  let ?d = "d\<lparr>db_prior_tree := pt, db_applied_intents := ai, db_write_intents := wi\<rparr>"
  have times: "\<forall>k r. bt_get (db_prior_tree ?d) k = Some r \<longrightarrow> pt_accepted_at r \<le> t"
    using Cons.prems(3) by (auto simp: pt split: if_splits)
  from Cons.IH [OF step(2) cs times] obtain d' pt' where IH:
      "fold_res (commit_completed_projection_action_tx t) cs ?d = Inr d'" "prior_update ?d pt' (db_prior_text ?d) d'"
      "\<forall>k. k \<notin> (to_db_path \<circ> cc_path \<circ> cpa_commit_context) ` set cs \<longrightarrow> bt_get pt' k = bt_get (db_prior_tree ?d) k"
      "\<forall>k r. bt_get pt' k = Some r \<and> pt_live r \<longrightarrow> bt_get (db_prior_tree ?d) k = Some r \<and>
        k \<notin> (to_db_path \<circ> cc_path \<circ> cpa_commit_context) ` set cs" by blast
  have dead: "\<not> pt_live r" if "bt_get pt ?k = Some r" for r
  proof -
    from that obtain r0 where "r = (if pt_live r0 then r0\<lparr>pt_deleted_at := Some t\<rparr> else r0)" by (auto simp: pt)
    then show ?thesis by (cases "pt_live r0") (simp_all add: pt_live_def)
  qed
  have "bt_get (db_prior_tree d) k = Some r \<and> k \<notin> (to_db_path \<circ> cc_path \<circ> cpa_commit_context) ` set (c # cs)"
    if "bt_get pt' k = Some r" "pt_live r" for k r
  proof -
    have k: "bt_get pt k = Some r" "k \<notin> (to_db_path \<circ> cc_path \<circ> cpa_commit_context) ` set cs"
      using IH(4) that by simp_all
    with dead that(2) have "k \<noteq> ?k" by blast
    with k show ?thesis by (simp add: pt)
  qed
  then have "\<forall>k r. bt_get pt' k = Some r \<and> pt_live r \<longrightarrow> bt_get (db_prior_tree d) k = Some r \<and>
      k \<notin> (to_db_path \<circ> cc_path \<circ> cpa_commit_context) ` set (c # cs)" by blast
  moreover have "prior_update d pt' (db_prior_text d) d'"
    using prior_update_trans [OF prior_update_step_tree [OF step(2)] IH(2)] by simp
  moreover have "\<forall>k. k \<notin> (to_db_path \<circ> cc_path \<circ> cpa_commit_context) ` set (c # cs) \<longrightarrow> bt_get pt' k = bt_get (db_prior_tree d) k"
    using IH(3) by (simp add: pt)
  moreover have "fold_res (commit_completed_projection_action_tx t) (c # cs) d = Inr d'" using IH(1) step(1) by simp
  ultimately show ?case by blast
qed

lemma plan_row_wf:
  assumes "plan_stable_row X epoch now row s = Inr s'" and "db_wf (snd (snd s))"
  shows "db_wf (snd (snd s'))"
  using assms by (auto simp: plan_stable_row_def res_simps Let_def split: prod.splits option.splits if_splits)
    (blast intro: intent_ops_wf(1))+

lemma next_work_wf:
  assumes "get_next_work_tx X epoch now d = Inr (work, d')" and "db_wf d"
  shows "db_wf d'"
proof -
  from assms(1) obtain rows m rest writes d1 where
    loop: "fold_res (plan_stable_row X epoch now) rows (m, [], d) = Inr (rest, writes, d1)" and "d' = d1"
    by (auto simp: get_next_work_tx_def res_simps Let_def split: if_splits)
  moreover from loop have "db_wf (snd (snd (rest, writes, d1)))"
    by (rule fold_res_inv) (use assms(2) plan_row_wf in auto)
  ultimately show ?thesis by simp
qed

lemma accepted_writes:
  assumes "list_all2 accepted ws cs" and "map pa_commit_context ws = map (row_context X d) rows"
    and "\<forall>a\<in>set ws. \<exists>p c e. pa_kind a = WriteFile p c e" and "\<forall>r\<in>set rows. stable_tree_row_ok r"
  shows "list_all2 (\<lambda>row c. stable_tree_row_ok row \<and> cpa_commit_context c = row_context X d row \<and>
      write_done (cpa_result c) (cpa_action_id c)) rows cs"
  using assms
proof (induction ws cs arbitrary: rows rule: list_all2_induct)
  case (Cons a ws c cs)
  then obtain r rs where rows: "rows = r # rs" by (cases rows) auto
  from Cons.prems(2) obtain p b e where "pa_kind a = WriteFile p b e" by auto
  with Cons.hyps(1) Cons.prems rows Cons.IH [of rs] show ?case by (simp add: accepted_def)
qed simp

lemma accepted_deletes:
  assumes "list_all2 accepted as cs" and "\<forall>a\<in>set as. \<exists>p e. pa_kind a = DeleteFile p e"
  shows "(\<forall>c\<in>set cs. delete_done (cpa_result c) (cpa_action_id c)) \<and>
    map cpa_commit_context cs = map pa_commit_context as"
  using assms by (induction rule: list_all2_induct) (auto simp: accepted_def)

lemma in_sync_after:
  assumes wf: "db_wf d" "db_wf d2"
    and stable: "db_stable_tree d2 = db_stable_tree d" "db_stable_text d2 = db_stable_text d"
    and written: "\<And>row. row \<in> set (map snd (db_stable_tree d)) \<Longrightarrow> row_need X (live_by_path d) d row \<noteq> None \<Longrightarrow>
      \<exists>r. bt_get (db_prior_tree d2) (st_key row) = Some r \<and> pt_live r \<and> pt_object_id r = st_object_id row"
    and kept: "\<And>row. row \<in> set (map snd (db_stable_tree d)) \<Longrightarrow> row_need X (live_by_path d) d row = None \<Longrightarrow>
      bt_get (db_prior_tree d2) (st_key row) = bt_get (db_prior_tree d) (st_key row)"
    and docs: "\<And>row. row \<in> set (map snd (db_stable_tree d)) \<Longrightarrow>
      prior_doc X d2 (st_object_id row) = stable_doc X d (st_object_id row)"
    and gone: "\<And>k r. bt_get (db_prior_tree d2) k = Some r \<Longrightarrow> pt_live r \<Longrightarrow> bt_get (db_stable_tree d) k \<noteq> None"
  shows "in_sync X d2"
proof -
  have sd: "stable_doc X d2 = stable_doc X d" by (simp add: stable_doc_def stable fun_eq_iff)
  have "\<exists>r. bt_get (db_prior_tree d2) k = Some r \<and> pt_live r \<and> prior_matches X d2 row r"
    if mem: "(k, row) \<in> set (db_stable_tree d)" for k row
  proof -
    have row: "row \<in> set (map snd (db_stable_tree d))" using mem by force
    note k = stable_keys [OF wf(1) mem]
    obtain r where "bt_get (db_prior_tree d2) (st_key row) = Some r" "pt_live r" "pt_object_id r = st_object_id row"
    proof (cases "row_need X (live_by_path d) d row")
      case None
      then obtain r where "bt_get (live_by_path d) (st_path row) = Some r" "prior_matches X d row r"
        by (auto simp: row_need_def split: option.splits if_splits)
      then have "bt_get (db_prior_tree d) (st_key row) = Some r" "pt_live r" "pt_object_id r = st_object_id row"
        unfolding live_get [OF wf(1) k(2)] by (auto simp: prior_matches_def split: option.splits if_splits)
      with that kept [OF row None] show ?thesis by metis
    next
      case (Some eb)
      then show ?thesis using that written [OF row] by blast
    qed
    moreover have "prior_doc X d2 (st_object_id row) = stable_doc X d2 (st_object_id row)"
      unfolding sd by (rule docs [OF row])
    ultimately show ?thesis using k(1) unfolding prior_matches_def by metis
  qed
  then have "list_all (\<lambda>(k, row). case bt_get (db_prior_tree d2) k of None \<Rightarrow> False
      | Some prior \<Rightarrow> pt_live prior \<and> prior_matches X d2 row prior) (db_stable_tree d2)"
    unfolding stable by (fastforce simp: list_all_iff split: option.splits)
  moreover have "list_all (\<lambda>(k, prior). pt_live prior \<longrightarrow> bt_get (db_stable_tree d2) k \<noteq> None) (db_prior_tree d2)"
  proof -
    have "bt_get (db_prior_tree d2) k = Some r" if "(k, r) \<in> set (db_prior_tree d2)" for k r
      using that bt_get_Some_iff [OF tbl_wfD(1) [OF db_wfD(6) [OF wf(2)]]] by blast
    then show ?thesis using gone unfolding stable list_all_iff by fast
  qed
  ultimately show ?thesis by (simp add: in_sync_def)
qed

lemma rows_keys_distinct: "db_wf d \<Longrightarrow> distinct (map st_key (filter P (map snd (db_stable_tree d))))"
proof -
  assume wf: "db_wf d"
  have "map st_key (map snd (db_stable_tree d)) = map fst (db_stable_tree d)"
    using stable_keys(1) [OF wf] by (auto simp: prod_eq_iff)
  then have "distinct (map st_key (map snd (db_stable_tree d)))"
    using bt_wf_distinct [OF tbl_wfD(1) [OF db_wfD(4) [OF wf]]] by (simp only:)
  then show ?thesis by (rule distinct_map_filter_snoc)
qed

abbreviation stable_keyset :: "db \<Rightarrow> string set" where
  "stable_keyset d \<equiv> fst ` set (db_stable_tree d)"

abbreviation need_rows :: "('d, 'sv) ext \<Rightarrow> db \<Rightarrow> stable_tree_row list" where
  "need_rows X d \<equiv> filter (\<lambda>r. row_need X (live_by_path d) d r \<noteq> None) (map snd (db_stable_tree d))"

definition orphan_paths :: "db \<Rightarrow> relative_path set" where
  "orphan_paths d = {p. bt_get (live_by_path d) p \<noteq> None} - st_path ` snd ` set (db_stable_tree d)"

lemma stable_row_key:
  assumes "db_wf d" and "row \<in> set (map snd (db_stable_tree d))"
  shows "st_key row \<in> stable_keyset d"
  using assms(2) stable_keys(1) [OF assms(1)] by force

lemma path_key_stable:
  assumes "db_wf d" and "rp_valid p"
  shows "to_db_path p \<in> stable_keyset d \<longleftrightarrow> p \<in> st_path ` snd ` set (db_stable_tree d)"
proof
  assume "to_db_path p \<in> stable_keyset d"
  then obtain s where s: "(to_db_path p, s) \<in> set (db_stable_tree d)" by auto
  have "p = st_path s"
    by (rule to_db_path_inj [OF assms(2) stable_keys(2) [OF assms(1) s] stable_keys(1) [OF assms(1) s]])
  with s show "p \<in> st_path ` snd ` set (db_stable_tree d)" by force
next
  assume "p \<in> st_path ` snd ` set (db_stable_tree d)"
  then obtain k s where s: "(k, s) \<in> set (db_stable_tree d)" "p = st_path s" by auto
  then have "k = to_db_path p" using stable_keys(1) [OF assms(1) s(1)] by simp
  with s(1) show "to_db_path p \<in> stable_keyset d" by force
qed

lemma orphan_iff:
  assumes "db_wf d" and "rp_valid p"
  shows "p \<in> orphan_paths d \<longleftrightarrow>
    (\<exists>r. bt_get (db_prior_tree d) (to_db_path p) = Some r \<and> pt_live r) \<and> to_db_path p \<notin> stable_keyset d"
proof -
  have "bt_get (live_by_path d) p \<noteq> None \<longleftrightarrow> (\<exists>r. bt_get (db_prior_tree d) (to_db_path p) = Some r \<and> pt_live r)"
    unfolding live_get [OF assms] by (simp split: option.splits)
  then show ?thesis unfolding orphan_paths_def path_key_stable [OF assms] by blast
qed

lemma orphan_valid:
  assumes "db_wf d" and "p \<in> orphan_paths d"
  shows "rp_valid p" "to_db_path p \<notin> stable_keyset d"
proof -
  from assms(2) obtain r where "bt_get (live_by_path d) p = Some r" by (auto simp: orphan_paths_def)
  then have "(p, r) \<in> set (live_by_path d)" using bt_get_Some_iff [OF live_by_path(1) [OF assms(1)]] by blast
  then obtain k where k: "(k, r) \<in> set (db_prior_tree d)" "p = pt_path r" unfolding live_by_path(2) [OF assms(1)] by blast
  show "rp_valid p" unfolding k(2) by (rule prior_keys(2) [OF assms(1) k(1)])
  then show "to_db_path p \<notin> stable_keyset d" using orphan_iff [OF assms(1)] assms(2) by blast
qed

text \<open>The maps after the writes (\<open>pt1\<close>, \<open>px\<close>) and after the deletes (\<open>pt2\<close>).\<close>

lemma in_sync_maps:
  assumes wf: "db_wf d" "db_wf d2"
    and d2: "db_stable_tree d2 = db_stable_tree d" "db_stable_text d2 = db_stable_text d"
      "db_prior_tree d2 = pt2" "db_prior_text d2 = px"
    and w: "\<forall>k. k \<notin> st_key ` set (need_rows X d) \<longrightarrow> bt_get pt1 k = bt_get (db_prior_tree d) k"
      "\<forall>row\<in>set (need_rows X d). \<exists>r. bt_get pt1 (st_key row) = Some r \<and> pt_live r \<and> pt_object_id r = st_object_id row"
      "\<forall>obj. map_option fst (bt_get px obj) = (if obj \<in> st_object_id ` set (need_rows X d) then Some (stable_doc X d obj)
        else map_option fst (bt_get (db_prior_text d) obj))"
    and del: "\<forall>k. k \<notin> to_db_path ` orphan_paths d \<longrightarrow> bt_get pt2 k = bt_get pt1 k"
      "\<forall>k r. bt_get pt2 k = Some r \<and> pt_live r \<longrightarrow> bt_get pt1 k = Some r \<and> k \<notin> to_db_path ` orphan_paths d"
  shows "in_sync X d2"
proof (rule in_sync_after [OF wf d2(1,2)])
  fix row assume row: "row \<in> set (map snd (db_stable_tree d))"
  have "st_key row \<notin> to_db_path ` orphan_paths d"
    using orphan_valid(2) [OF wf(1)] stable_row_key [OF wf(1) row] by (metis imageE)
  then have same: "bt_get (db_prior_tree d2) (st_key row) = bt_get pt1 (st_key row)"
    using del(1) unfolding d2 by simp
  show "\<exists>r. bt_get (db_prior_tree d2) (st_key row) = Some r \<and> pt_live r \<and> pt_object_id r = st_object_id row"
    if "row_need X (live_by_path d) d row \<noteq> None"
    unfolding same using w(2) row that by simp
  show "bt_get (db_prior_tree d2) (st_key row) = bt_get (db_prior_tree d) (st_key row)"
    if need: "row_need X (live_by_path d) d row = None"
  proof -
    have "st_key row \<notin> st_key ` set (need_rows X d)"
    proof
      assume "st_key row \<in> st_key ` set (need_rows X d)"
      then obtain row' where r': "row' \<in> set (need_rows X d)" "st_key row = st_key row'" by (rule imageE)
      have all: "row' \<in> set (filter (\<lambda>_. True) (map snd (db_stable_tree d)))"
        "row \<in> set (filter (\<lambda>_. True) (map snd (db_stable_tree d)))" using r'(1) row by simp_all
      have "row = row'" by (rule map_inj_distinct [OF rows_keys_distinct [OF wf(1)] all(2,1) r'(2)])
      with r'(1) need show False by simp
    qed
    then show ?thesis unfolding same using w(1) by blast
  qed
  show "prior_doc X d2 (st_object_id row) = stable_doc X d (st_object_id row)"
  proof (cases "st_object_id row \<in> st_object_id ` set (need_rows X d)")
    case True
    then show ?thesis using w(3) by (simp add: prior_doc_def d2 text_doc_or_empty_def)
  next
    case False
    then have "row_need X (live_by_path d) d row = None" using row by auto
    then have "prior_doc X d (st_object_id row) = stable_doc X d (st_object_id row)"
      by (auto simp: row_need_def prior_matches_def split: option.splits if_splits)
    with False w(3) show ?thesis by (simp add: prior_doc_def d2)
  qed
next
  fix k r assume kr: "bt_get (db_prior_tree d2) k = Some r" "pt_live r"
  with del(2) have k1: "bt_get pt1 k = Some r" "k \<notin> to_db_path ` orphan_paths d" unfolding d2 by blast+
  show "bt_get (db_stable_tree d) k \<noteq> None"
  proof (cases "k \<in> stable_keyset d")
    case False
    then have "k \<notin> st_key ` set (need_rows X d)" using stable_row_key [OF wf(1)] by auto
    with w(1) k1(1) have old: "bt_get (db_prior_tree d) k = Some r" by metis
    then have mem: "(k, r) \<in> set (db_prior_tree d)"
      using bt_get_Some_iff [OF tbl_wfD(1) [OF db_wfD(6) [OF wf(1)]]] by blast
    note key = prior_keys(1,2) [OF wf(1) mem]
    have "pt_path r \<in> orphan_paths d"
      unfolding orphan_iff [OF wf(1) key(2)] key(1) [symmetric] using old kr(2) False by blast
    with k1(2) key(1) show ?thesis by blast
  qed (simp add: bt_get_def map_of_eq_None_iff)
qed

lemma prior_update_fields:
  assumes "prior_update d pt px d'"
  shows "db_wf d'" "db_prior_tree d' = pt" "db_prior_text d' = px" "db_stable_tree d' = db_stable_tree d"
    "db_stable_text d' = db_stable_text d" "db_daemon_state d' = db_daemon_state d"
    "db_stable_namespace d' = db_stable_namespace d" "db_outbox d' = db_outbox d"
  using assms unfolding prior_update_def by auto

lemma plan_spec_split:
  assumes "plan_spec X d actions" and "list_all2 accepted actions cs" and "db_wf d"
  obtains cw cd where "cs = cw @ cd"
    "list_all2 (\<lambda>row c. stable_tree_row_ok row \<and> cpa_commit_context c = row_context X d row \<and>
      write_done (cpa_result c) (cpa_action_id c)) (need_rows X d) cw"
    "\<forall>c\<in>set cd. rp_valid (cc_path (cpa_commit_context c)) \<and> delete_done (cpa_result c) (cpa_action_id c)"
    "(to_db_path \<circ> cc_path \<circ> cpa_commit_context) ` set cd = to_db_path ` orphan_paths d"
proof -
  from assms(1) obtain ws ds where acts: "actions = ws @ ds"
    and ws: "map pa_commit_context ws = map (row_context X d) (need_rows X d)" "\<forall>a\<in>set ws. \<exists>p c e. pa_kind a = WriteFile p c e"
    and ds: "\<forall>a\<in>set ds. \<exists>p e. pa_kind a = DeleteFile p e" "(cc_path \<circ> pa_commit_context) ` set ds = orphan_paths d"
    unfolding plan_spec_def orphan_paths_def by blast
  from assms(2) acts obtain cw cd where cs: "cs = cw @ cd" "list_all2 accepted ws cw" "list_all2 accepted ds cd"
    by (auto simp: list_all2_append1)
  have rowok: "\<forall>r\<in>set (need_rows X d). stable_tree_row_ok r"
    using tbl_wfD(3) [OF db_wfD(4) [OF assms(3)]] by auto
  note del = accepted_deletes [OF cs(3) ds(1)]
  then have paths: "(cc_path \<circ> cpa_commit_context) ` set cd = orphan_paths d"
    unfolding ds(2) [symmetric] by (metis image_comp image_set)
  then have "\<forall>c\<in>set cd. rp_valid (cc_path (cpa_commit_context c))" using orphan_valid(1) [OF assms(3)] by auto
  moreover have "(to_db_path \<circ> cc_path \<circ> cpa_commit_context) ` set cd = to_db_path ` orphan_paths d"
    unfolding paths [symmetric] by (simp add: image_comp comp_assoc)
  ultimately show ?thesis
    using that [OF cs(1) accepted_writes [OF cs(2) ws rowok]] del by blast
qed

lemma written_times:
  assumes "\<forall>k r. bt_get pt k = Some r \<longrightarrow> pt_accepted_at r \<le> t"
    and "\<forall>k. k \<notin> st_key ` set rows \<longrightarrow> bt_get pt1 k = bt_get pt k"
    and "\<forall>row\<in>set rows. \<exists>r. bt_get pt1 (st_key row) = Some r \<and> pt_live r \<and>
      pt_object_id r = st_object_id row \<and> pt_accepted_at r = t"
  shows "\<forall>k r. bt_get pt1 k = Some r \<longrightarrow> pt_accepted_at r \<le> t"
proof (intro allI impI)
  fix k r assume kr: "bt_get pt1 k = Some r"
  show "pt_accepted_at r \<le> t"
  proof (cases "k \<in> st_key ` set rows")
    case True
    then obtain row where "row \<in> set rows" "k = st_key row" by (rule imageE)
    with assms(3) kr show ?thesis by auto
  next
    case False
    with assms(1,2) kr show ?thesis by simp
  qed
qed

lemma completed_in_sync:
  assumes wf: "db_wf d" and spec: "plan_spec X d actions" and acc: "list_all2 accepted actions cs"
    and dm: "db_wf dm" "db_stable_tree dm = db_stable_tree d" "db_stable_text dm = db_stable_text d"
      "db_prior_tree dm = db_prior_tree d" "db_prior_text dm = db_prior_text d"
    and t: "i64_range t" and times: "\<forall>(k, r)\<in>set (db_prior_tree d). pt_accepted_at r \<le> t"
  shows "\<exists>d2 pt px. fold_res (commit_completed_projection_action_tx t) cs dm = Inr d2 \<and> prior_update dm pt px d2 \<and> in_sync X d2"
proof -
  obtain cw cd where cs: "cs = cw @ cd" and cw: "list_all2 (\<lambda>row c. stable_tree_row_ok row \<and>
      cpa_commit_context c = row_context X d row \<and> write_done (cpa_result c) (cpa_action_id c)) (need_rows X d) cw"
    and cd: "\<forall>c\<in>set cd. rp_valid (cc_path (cpa_commit_context c)) \<and> delete_done (cpa_result c) (cpa_action_id c)"
      "(to_db_path \<circ> cc_path \<circ> cpa_commit_context) ` set cd = to_db_path ` orphan_paths d"
    using plan_spec_split [OF spec acc wf] .
  from commit_writes [OF t dm(1) cw rows_keys_distinct [OF wf]] obtain d1 pt1 px where
    w: "fold_res (commit_completed_projection_action_tx t) cw dm = Inr d1" and u1: "prior_update dm pt1 px d1"
    and w1: "\<forall>k. k \<notin> st_key ` set (need_rows X d) \<longrightarrow> bt_get pt1 k = bt_get (db_prior_tree d) k"
    and w2: "\<forall>row\<in>set (need_rows X d). \<exists>r. bt_get pt1 (st_key row) = Some r \<and> pt_live r \<and>
        pt_object_id r = st_object_id row \<and> pt_accepted_at r = t"
    and w3: "\<forall>obj. map_option fst (bt_get px obj) = (if obj \<in> st_object_id ` set (need_rows X d)
        then Some (stable_doc X d obj) else map_option fst (bt_get (db_prior_text d) obj))"
    unfolding dm by blast
  note f1 = prior_update_fields [OF u1]
  have "\<forall>k r. bt_get (db_prior_tree d) k = Some r \<longrightarrow> pt_accepted_at r \<le> t"
    using times bt_get_Some_iff [OF tbl_wfD(1) [OF db_wfD(6) [OF wf]]] by fast
  then have times1: "\<forall>k r. bt_get (db_prior_tree d1) k = Some r \<longrightarrow> pt_accepted_at r \<le> t"
    unfolding f1 by (rule written_times [OF _ w1 w2])
  from commit_deletes [OF t f1(1) cd(1) times1] obtain d2 pt2 where
    del: "fold_res (commit_completed_projection_action_tx t) cd d1 = Inr d2" and u2: "prior_update d1 pt2 (db_prior_text d1) d2"
    and x1: "\<forall>k. k \<notin> to_db_path ` orphan_paths d \<longrightarrow> bt_get pt2 k = bt_get pt1 k"
    and x2: "\<forall>k r. bt_get pt2 k = Some r \<and> pt_live r \<longrightarrow> bt_get pt1 k = Some r \<and> k \<notin> to_db_path ` orphan_paths d"
    unfolding cd(2) f1 by blast
  note f2 = prior_update_fields [OF u2]
  have "in_sync X d2"
  proof (rule in_sync_maps [OF wf f2(1) _ _ f2(2) _ w1 _ w3 x1 x2])
    show "\<forall>row\<in>set (need_rows X d). \<exists>r. bt_get pt1 (st_key row) = Some r \<and> pt_live r \<and> pt_object_id r = st_object_id row"
      using w2 by blast
  qed (simp_all only: f1 f2 dm)
  moreover have "prior_update dm pt2 px d2"
    using prior_update_trans [OF u1 u2] unfolding f1 .
  ultimately show ?thesis using w del cs by (auto simp: fold_res_append)
qed

section \<open>Properties\<close>

text \<open>(C33) The daemon has nothing to project exactly when every stable file has a live prior row of
  the same object with the same document and no other live prior row is left; planning then
  writes nothing. (Claim ids are not compared.)\<close>

theorem next_work_none_iff:
  assumes "readable d"
  shows "get_next_work_tx X epoch now d = Inr (NoWork, d') \<longleftrightarrow> in_sync X d \<and> d' = d"
proof
  assume "get_next_work_tx X epoch now d = Inr (NoWork, d')"
  with next_work_split [OF assms this] have "plan_spec X d []" by (auto split: if_splits)
  with assms have "in_sync X d" unfolding readable_def by (blast intro: empty_plan_in_sync)
  with next_work_idle [OF assms this, of epoch now] \<open>get_next_work_tx X epoch now d = Inr (NoWork, d')\<close>
  show "in_sync X d \<and> d' = d" by simp
qed (use next_work_idle [OF assms] in blast)

theorem next_work_none_iff_witness:
  "get_next_work_tx demo_ns_ext 1 2 (demo_work_db\<lparr>db_stable_tree := [], db_prior_tree := []\<rparr>) =
    Inr (NoWork, demo_work_db\<lparr>db_stable_tree := [], db_prior_tree := []\<rparr>)"
proof -
  let ?d = "demo_work_db\<lparr>db_stable_tree := [], db_prior_tree := []\<rparr>"
  have "readable ?d"
    by (simp add: readable_def demo_work_db_def demo_outbox_db_def empty_db_def db_wf_def staged_unique_def bt_wf_def)
  moreover have "in_sync demo_ns_ext ?d" by (simp add: in_sync_def)
  ultimately show ?thesis by (simp only: next_work_none_iff)
qed

text \<open>(C4) The projection loop converges: when every action of the planned epoch was carried out, and
  its completion is committed later than the prior rows were accepted, the commit succeeds, the
  prior tree agrees with the stable tree, and the next plan is empty. The write intents marked in
  between do not matter.\<close>

theorem projection_converges:
  assumes "readable d" and "db_prior_namespace d \<noteq> None"
    and "get_next_work_tx X epoch now d = Inr (Project pes, d1)"
    and "bt_wf ai" and "list_all2 accepted (pes_actions pes) (cpe_actions completed)"
    and "i64_range t" and "\<forall>(k, r)\<in>set (db_prior_tree d). pt_accepted_at r \<le> t"
  shows "\<exists>d2. commit_projection_epoch_tx t completed PlanExhausted (d1\<lparr>db_applied_intents := ai\<rparr>) = Inr d2 \<and>
    in_sync X d2 \<and> db_stable_tree d2 = db_stable_tree d \<and> db_stable_text d2 = db_stable_text d \<and>
    get_next_work_tx X epoch' now' d2 = Inr (NoWork, d2)"
proof -
  have wf: "db_wf d" using assms(1) by (simp add: readable_def)
  from next_work_split [OF assms(1,3)] obtain wi where d1: "d1 = d\<lparr>db_write_intents := wi\<rparr>"
    and spec: "plan_spec X d (pes_actions pes)" by (auto split: if_splits)
  let ?dm = "d1\<lparr>db_applied_intents := ai, db_prior_namespace := Some (cpe_target_namespace_doc_blob completed, t)\<rparr>"
  have dm: "db_wf ?dm" by (intro db_wf_update(3) db_wf_update(11) next_work_wf [OF assms(3) wf] assms(4))
  have ns: "update_prior_namespace (cpe_target_namespace_doc_blob completed) t (d1\<lparr>db_applied_intents := ai\<rparr>) = Inr ?dm"
    using assms(2,6) by (simp add: update_prior_namespace_def datetime_to_unix_ns_def d1)
  from completed_in_sync [OF wf spec assms(5) dm _ _ _ _ assms(6,7)] obtain d2 pt px where
    run: "fold_res (commit_completed_projection_action_tx t) (cpe_actions completed) ?dm = Inr d2"
    and upd: "prior_update ?dm pt px d2" and sync: "in_sync X d2" by (auto simp: d1)
  note f = prior_update_fields [OF upd]
  have "readable d2" using assms(1) f by (simp add: readable_def d1)
  with sync ns run f show ?thesis
    using next_work_none_iff [of d2 X epoch' now' d2] by (simp add: commit_projection_epoch_tx_def d1)
qed

lemma demo_text_state:
  "decode_text_state demo_ns_ext k b = Inr \<lparr>tds_text = b, tds_full_state_bytes = b\<rparr>"
  by (simp add: demo_ns_ext_def demo_ext_def decode_text_state_def td_from_full_state_def td_apply_update_def
      td_get_text_def td_encode_full_state_def td_encode_update_since_def td_new_def)

theorem projection_converges_witness:
  "\<exists>d2. commit_projection_epoch_tx 9
      (demo_completed (case projr (get_next_work_tx demo_ns_ext 1 2 demo_work_db) of (Project p, _) \<Rightarrow> p)) PlanExhausted
      ((snd (projr (get_next_work_tx demo_ns_ext 1 2 demo_work_db)))\<lparr>db_applied_intents := []\<rparr>) = Inr d2 \<and>
    in_sync demo_ns_ext d2 \<and> get_next_work_tx demo_ns_ext 2 3 d2 = Inr (NoWork, d2)"
proof -
  have rd: "readable demo_work_db"
    by (simp add: readable_def demo_work_db_def demo_outbox_db_def empty_db_def db_wf_def staged_unique_def bt_wf_def
        tbl_wf_def to_db_path_def stable_tree_row_ok_def prior_tree_row_ok_def prior_row_of_def rp_valid_def
        component_valid_def demo_stat_def file_key_ok_def u64_max_def)
  then have wf: "db_wf demo_work_db" by (simp add: readable_def)
  have "case get_next_work_tx demo_ns_ext 1 2 demo_work_db of Inr (Project p, _) \<Rightarrow>
      list_all2 accepted (pes_actions p) (cpe_actions (demo_completed p)) | _ \<Rightarrow> False"
    unfolding get_next_work_tx_def select_live_rows [OF wf] select_stable_rows [OF wf]
    by (simp add: demo_work_db_def demo_outbox_db_def empty_db_def demo_daemon_state_def select_stable_cursor_def
        select_stable_namespace_def required_namespace_def datetime_from_unix_ns_def pt_live_def prior_row_of_def bt_of_list_def
        plan_stable_row_def select_stable_text_object_doc_def bt_get_def text_doc_or_empty_def demo_text_state
        upsert_projection_write_intent_def datetime_to_unix_ns_def i64_range_def i64_max_def to_db_path_def xxh3_be_bytes_def
        delete_action_def demo_completed_def accepted_def fp_good_def fp_ok_def demo_stat_def file_key_ok_def u64_max_def Let_def)
  then obtain pes d1 where run: "get_next_work_tx demo_ns_ext 1 2 demo_work_db = Inr (Project pes, d1)"
    and acc: "list_all2 accepted (pes_actions pes) (cpe_actions (demo_completed pes))"
    by (auto split: sum.splits prod.splits next_work.splits)
  have "db_prior_namespace demo_work_db \<noteq> None" "\<forall>(k, r)\<in>set (db_prior_tree demo_work_db). pt_accepted_at r \<le> 9"
    by (simp_all add: demo_work_db_def prior_row_of_def)
  with projection_converges [OF rd _ run bt_wf_Nil acc, of 9 2 3] show ?thesis
    unfolding run by (auto simp: i64_range_def i64_max_def)
qed

end
