(* ===== verification/Remote.thy ===== *)
theory Remote
  imports Next_Work
begin

text \<open>
  What applying a batch of shared messages guarantees: the cursor moves exactly over the batch and
  a second application is refused, the device's own side of the database (prior tables, staged
  files, outbox) is not touched, own messages are skipped, and the text of every object is the
  fold of the foreign updates in log order. Also the retry loop around every transaction body.
\<close>

section \<open>The foreign updates of a batch\<close>

definition foreign :: "writer_id \<Rightarrow> shared_message_envelope list \<Rightarrow> shared_message_envelope list" where
  "foreign writer = filter (\<lambda>e. or_daemon_writer_id (env_origin e) \<noteq> writer)"

fun text_update_of :: "object_id \<Rightarrow> shared_message \<Rightarrow> bytes option" where
  "text_update_of obj (TextObjectUpdate o' u) = (if o' = obj then Some u else None)"
| "text_update_of obj _ = None"

definition foreign_text_updates :: "writer_id \<Rightarrow> object_id \<Rightarrow> shared_message_envelope list \<Rightarrow> bytes list" where
  "foreign_text_updates writer obj msgs =
     List.map_filter (text_update_of obj \<circ> env_shared_message) (foreign writer msgs)"

definition merge_updates :: "('d, 'sv) ext \<Rightarrow> nat \<Rightarrow> bytes list \<Rightarrow> bytes \<Rightarrow> bytes res" where
  "merge_updates X ro us base =
     fold_res (\<lambda>u b. map_ok tds_full_state_bytes (apply_text_update X ro b u)) us base"

text \<open>The part of the database that belongs to this device's own file system and outbox.\<close>

definition local_part :: "db \<Rightarrow> _" where
  "local_part d = (db_prior_namespace d, db_prior_text d, db_prior_tree d, db_staged d, db_write_intents d,
     db_applied_intents d, db_outbox d, db_ignored d)"

text \<open>One attempt of a transaction.\<close>

definition attempt_tx ::
  "(nat \<Rightarrow> error option) \<Rightarrow> (nat \<Rightarrow> error option) \<Rightarrow> (nat \<Rightarrow> db \<Rightarrow> ('a \<times> db) res) \<Rightarrow> nat \<Rightarrow> db \<Rightarrow> ('a \<times> db) res" where
  "attempt_tx begin_fault commit_fault body k d =
     (case begin_fault k of
        Some e \<Rightarrow> Inl e
      | None \<Rightarrow> bind_res (body k d) (\<lambda>r. case commit_fault k of None \<Rightarrow> Inr r | Some e \<Rightarrow> Inl e))"

section \<open>Lemmas: the retry loop\<close>

lemma exec_tx_from_unfold:
  "exec_tx_from b c f k d =
     (case attempt_tx b c f k d of
        Inr (v, d') \<Rightarrow> (Inr v, d')
      | Inl e \<Rightarrow> if e = TursoRetryable \<and> k < turso_retry_attempts then exec_tx_from b c f (k + 1) d else (Inl e, d))"
  by (subst exec_tx_from.simps) (auto simp: attempt_tx_def split: option.splits)

lemma exec_tx_from_spec:
  assumes "k \<le> turso_retry_attempts"
  shows "\<exists>n. k \<le> n \<and> n \<le> turso_retry_attempts \<and> (\<forall>j. k \<le> j \<and> j < n \<longrightarrow> attempt_tx b c f j d = Inl TursoRetryable) \<and>
    (n = turso_retry_attempts \<or> attempt_tx b c f n d \<noteq> Inl TursoRetryable) \<and>
    exec_tx_from b c f k d = (case attempt_tx b c f n d of Inl e \<Rightarrow> (Inl e, d) | Inr (v, d') \<Rightarrow> (Inr v, d'))"
  using assms
proof (induction "turso_retry_attempts - k" arbitrary: k)
  case 0
  then have k: "k = turso_retry_attempts" by simp
  show ?case unfolding k
    by (intro exI [of _ turso_retry_attempts], simp add: exec_tx_from_unfold [of b c f turso_retry_attempts])
      (auto split: sum.splits)
next
  case (Suc n)
  then have k: "k < turso_retry_attempts" "n = turso_retry_attempts - Suc k" by simp_all
  show ?case
  proof (cases "attempt_tx b c f k d = Inl TursoRetryable")
    case True
    from Suc.hyps(1) [OF k(2)] k(1) obtain m where "Suc k \<le> m" "m \<le> turso_retry_attempts"
      "\<forall>j. Suc k \<le> j \<and> j < m \<longrightarrow> attempt_tx b c f j d = Inl TursoRetryable"
      "m = turso_retry_attempts \<or> attempt_tx b c f m d \<noteq> Inl TursoRetryable"
      "exec_tx_from b c f (Suc k) d = (case attempt_tx b c f m d of Inl e \<Rightarrow> (Inl e, d) | Inr (v, d') \<Rightarrow> (Inr v, d'))"
      by auto
    then show ?thesis
      using True k(1) by (intro exI [of _ m]) (auto simp: exec_tx_from_unfold [of b c f k] Suc_le_eq nat_less_le)
  next
    case False
    then show ?thesis
      using k(1) by (intro exI [of _ k]) (auto simp: exec_tx_from_unfold [of b c f k] split: sum.splits)
  qed
qed

section \<open>Lemmas: what the stable operations leave alone\<close>

definition keeps_local :: "(db \<Rightarrow> db res) \<Rightarrow> bool" where
  "keeps_local f \<longleftrightarrow> (\<forall>d d'. f d = Inr d' \<longrightarrow> local_part d' = local_part d \<and>
     db_daemon_state d' = db_daemon_state d \<and> db_stable_text d' = db_stable_text d)"

lemma keeps_localD:
  "keeps_local f \<Longrightarrow> f d = Inr d' \<Longrightarrow> local_part d' = local_part d"
  "keeps_local f \<Longrightarrow> f d = Inr d' \<Longrightarrow> db_daemon_state d' = db_daemon_state d"
  "keeps_local f \<Longrightarrow> f d = Inr d' \<Longrightarrow> db_stable_text d' = db_stable_text d"
  by (simp_all add: keeps_local_def)

lemma keeps_local_fold: "(\<And>x. keeps_local (f x)) \<Longrightarrow> keeps_local (fold_res f xs)"
proof -
  assume f: "\<And>x. keeps_local (f x)"
  have "local_part d' = local_part d \<and> db_daemon_state d' = db_daemon_state d \<and> db_stable_text d' = db_stable_text d"
    if "fold_res f xs d = Inr d'" for d d'
    by (rule fold_res_inv [OF that, where I = "\<lambda>e. local_part e = local_part d \<and>
        db_daemon_state e = db_daemon_state d \<and> db_stable_text e = db_stable_text d"])
      (use f in \<open>auto simp: keeps_local_def\<close>)
  then show ?thesis by (simp add: keeps_local_def)
qed

lemma keeps_local_stable_ops:
  "keeps_local (update_stable_namespace blob t)" "keeps_local (ensure_confirmed_object t co)"
  "keeps_local (delete_stable_tree_file p)" "keeps_local (insert_stable_tree_file p q c obj t)"
  by (auto simp: keeps_local_def local_part_def update_stable_namespace_def ensure_confirmed_object_def
      insert_or_ignore_object_def delete_stable_tree_file_def insert_stable_tree_file_def res_simps split: if_splits)

lemma keeps_local_projection: "keeps_local (write_stable_namespace_projection_tx X doc t)"
proof -
  have ins: "keeps_local (fold_res (\<lambda>(path, want :: desired_stable_tree_file).
      insert_stable_tree_file path (dst_claimed_path want) (dst_claim_id want) (dst_object_id want) t) xs)" for xs
    by (rule keeps_local_fold) (auto intro: keeps_local_stable_ops split: prod.split)
  have del: "keeps_local (fold_res delete_stable_tree_file xs)" for xs
    by (rule keeps_local_fold) (rule keeps_local_stable_ops)
  have ens: "keeps_local (fold_res (ensure_confirmed_object t) xs)" for xs
    by (rule keeps_local_fold) (rule keeps_local_stable_ops)
  show ?thesis
    unfolding keeps_local_def [of "write_stable_namespace_projection_tx X doc t"]
  proof (intro allI impI)
    fix d d' assume "write_stable_namespace_projection_tx X doc t d = Inr d'"
    then have "\<exists>np d1 d2 d3 dels inserts.
      update_stable_namespace (ns_encode_full_state X doc) t d = Inr d1 \<and>
      fold_res (ensure_confirmed_object t) (np_confirmed_objects (np :: namespace_projection)) d1 = Inr d2 \<and>
      fold_res delete_stable_tree_file dels d2 = Inr d3 \<and>
      fold_res (\<lambda>(path, want :: desired_stable_tree_file).
          insert_stable_tree_file path (dst_claimed_path want) (dst_claim_id want) (dst_object_id want) t) inserts d3 = Inr d'"
      unfolding write_stable_namespace_projection_tx_def bind_res_eq_Inr by (elim exE conjE) (intro exI conjI; assumption)
    then obtain np d1 d2 d3 dels inserts where
      s: "update_stable_namespace (ns_encode_full_state X doc) t d = Inr d1"
        "fold_res (ensure_confirmed_object t) (np_confirmed_objects (np :: namespace_projection)) d1 = Inr d2"
        "fold_res delete_stable_tree_file dels d2 = Inr d3"
        "fold_res (\<lambda>(path, want :: desired_stable_tree_file).
          insert_stable_tree_file path (dst_claimed_path want) (dst_claim_id want) (dst_object_id want) t) inserts d3 = Inr d'"
      by (elim exE conjE)
    note k = keeps_localD [OF keeps_local_stable_ops(1) s(1)] keeps_localD [OF ens s(2)]
      keeps_localD [OF del s(3)] keeps_localD [OF ins s(4)]
    show "local_part d' = local_part d \<and> db_daemon_state d' = db_daemon_state d \<and> db_stable_text d' = db_stable_text d"
      by (simp only: k)
  qed
qed

section \<open>Lemmas: the envelope loop\<close>

lemma foreign_text_simps:
  "foreign_text_updates w obj [] = []"
  "foreign_text_updates w obj (e # es) =
     (if or_daemon_writer_id (env_origin e) = w then foreign_text_updates w obj es
      else case text_update_of obj (env_shared_message e) of None \<Rightarrow> foreign_text_updates w obj es
        | Some u \<Rightarrow> u # foreign_text_updates w obj es)"
  by (simp_all add: foreign_text_updates_def foreign_def map_filter_simps split: option.splits)

definition current_text :: "('d, 'sv) ext \<Rightarrow> db \<Rightarrow> 'd batch_state \<Rightarrow> object_id \<Rightarrow> bytes" where
  "current_text X d s obj = (case bt_get (bs_text_docs s) obj of Some b \<Rightarrow> b | None \<Rightarrow> stable_doc X d obj)"

lemma apply_envelope_text:
  assumes "apply_envelope X ro d w e s = Inr s'" and "bt_wf (bs_text_docs s)"
  shows "bt_wf (bs_text_docs s') \<and>
    (if foreign_text_updates w obj [e] = [] then bt_get (bs_text_docs s') obj = bt_get (bs_text_docs s) obj
     else \<exists>b. merge_updates X ro (foreign_text_updates w obj [e]) (current_text X d s obj) = Inr b \<and>
       bt_get (bs_text_docs s') obj = Some b)"
proof (cases "or_daemon_writer_id (env_origin e) = w")
  case True
  with assms show ?thesis by (auto simp: apply_envelope_def foreign_text_simps)
next
  case False
  show ?thesis
  proof (cases "env_shared_message e")
    case (NamespaceUpdate u)
    with False assms show ?thesis by (auto simp: apply_envelope_def foreign_text_simps Let_def res_simps)
  next
    case (TextObjectUpdate o' u)
    have base: "(case bt_get (bs_text_docs s) o' of Some blob \<Rightarrow> Inr blob
        | None \<Rightarrow> map_ok (\<lambda>row. case row of Some blob \<Rightarrow> blob | None \<Rightarrow> empty_text_state X 1)
            (select_stable_text_object_doc o' d)) = Inr (current_text X d s o')"
      by (auto simp: current_text_def stable_doc_def text_doc_or_empty_def select_stable_text_object_doc_def split: option.splits)
    from assms(1) False TextObjectUpdate base obtain nxt where
      "apply_text_update X ro (current_text X d s o') u = Inr nxt"
      "bs_text_docs s' = bt_insert o' (tds_full_state_bytes nxt) (bs_text_docs s)"
      by (auto simp: apply_envelope_def Let_def res_simps)
    with False TextObjectUpdate assms(2) show ?thesis
      by (auto simp: foreign_text_simps merge_updates_def bt_get_insert bt_wf_insert)
  next
    case (BinaryObjectPut a b c e)
    with False assms show ?thesis by (simp add: apply_envelope_def Let_def)
  qed
qed

lemma merge_updates_append:
  "merge_updates X ro (us @ vs) b = bind_res (merge_updates X ro us b) (\<lambda>b. merge_updates X ro vs b)"
  by (simp add: merge_updates_def fold_res_append)

lemma batch_loop_text:
  assumes "fold_res (apply_envelope X ro d w) msgs s = Inr s'" and "bt_wf (bs_text_docs s)"
  shows "bt_wf (bs_text_docs s') \<and>
    (if foreign_text_updates w obj msgs = [] then bt_get (bs_text_docs s') obj = bt_get (bs_text_docs s) obj
     else \<exists>b. merge_updates X ro (foreign_text_updates w obj msgs) (current_text X d s obj) = Inr b \<and>
       bt_get (bs_text_docs s') obj = Some b)"
  using assms
proof (induction msgs arbitrary: s)
  case Nil
  then show ?case by (simp add: foreign_text_simps)
next
  case (Cons e msgs)
  from Cons.prems(1) obtain s1 where s1: "apply_envelope X ro d w e s = Inr s1"
    and rest: "fold_res (apply_envelope X ro d w) msgs s1 = Inr s'" by (auto simp: res_simps)
  note step = apply_envelope_text [OF s1 Cons.prems(2), of obj]
  then have wf1: "bt_wf (bs_text_docs s1)" by blast
  have split: "foreign_text_updates w obj (e # msgs) = foreign_text_updates w obj [e] @ foreign_text_updates w obj msgs"
    by (simp add: foreign_text_simps split: option.splits)
  have cur: "merge_updates X ro (foreign_text_updates w obj [e]) (current_text X d s obj) = Inr (current_text X d s1 obj)"
    using step by (cases "foreign_text_updates w obj [e] = []") (auto simp: current_text_def merge_updates_def)
  show ?case
  proof (cases "foreign_text_updates w obj msgs = []")
    case True
    with Cons.IH [OF rest wf1] step show ?thesis unfolding split by simp
  next
    case False
    with Cons.IH [OF rest wf1] cur show ?thesis unfolding split by (simp add: merge_updates_append)
  qed
qed

lemma own_loop:
  assumes "\<forall>e\<in>set msgs. or_daemon_writer_id (env_origin e) = w"
  shows "fold_res (apply_envelope X ro d w) msgs s = Inr (s\<lparr>bs_skipped_count := bs_skipped_count s + length msgs\<rparr>)"
  using assms by (induction msgs arbitrary: s) (simp_all add: apply_envelope_def)

section \<open>Lemmas: the whole batch\<close>

lemma keeps_local_stable_text:
  assumes "fold_res (\<lambda>(obj, blob). upsert_stable_text_object obj blob t) docs d = Inr d'"
  shows "local_part d' = local_part d \<and> db_daemon_state d' = db_daemon_state d \<and> db_stable_tree d' = db_stable_tree d"
  by (rule fold_res_inv [OF assms, where I = "\<lambda>e. local_part e = local_part d \<and>
        db_daemon_state e = db_daemon_state d \<and> db_stable_tree e = db_stable_tree d"])
    (auto simp: upsert_stable_text_object_def res_simps local_part_def)

lemma upserted_text:
  assumes "fold_res (\<lambda>(obj, blob). upsert_stable_text_object obj blob t) docs d = Inr d'"
    and "distinct (map fst docs)"
  shows "case map_of docs obj of
      None \<Rightarrow> bt_get (db_stable_text d') obj = bt_get (db_stable_text d) obj
    | Some b \<Rightarrow> bt_get (db_stable_text d') obj = Some (b, t)"
  using assms
proof (induction docs arbitrary: d)
  case Nil
  then show ?case by simp
next
  case (Cons e docs)
  obtain o' b where e: "e = (o', b)" by (cases e)
  from Cons.prems(1) e have rest: "fold_res (\<lambda>(obj, blob). upsert_stable_text_object obj blob t) docs
      (d\<lparr>db_stable_text := bt_insert o' (b, t) (db_stable_text d)\<rparr>) = Inr d'"
    by (simp add: upsert_stable_text_object_def [of o'] datetime_to_unix_ns_def split: if_splits)
  have "o' \<notin> fst ` set docs" using Cons.prems(2) e by simp
  then have "map_of docs o' = None" by (simp add: map_of_eq_None_iff)
  with Cons.IH [OF rest] Cons.prems(2) e show ?case
    by (cases "obj = o'"; cases "map_of docs obj") (simp_all add: bt_get_insert)
qed

definition batch_writer :: "db \<Rightarrow> writer_id" where
  "batch_writer d = (case db_daemon_state d of Some r \<Rightarrow> ds_daemon_writer_id r | None \<Rightarrow> [])"

definition cursor_moved :: "nat \<Rightarrow> nat \<Rightarrow> db \<Rightarrow> db \<Rightarrow> bool" where
  "cursor_moved from to d d' \<longleftrightarrow> (\<exists>r. db_daemon_state d = Some r \<and> ds_stable_cursor r = from \<and>
     db_daemon_state d' = Some (r\<lparr>ds_stable_cursor := to\<rparr>))"

lemma apply_batch_parts:
  assumes "apply_shared_message_batch_tx X ro batch d = Inr (eff, d')"
  shows "\<exists>s d1 d2 t t'. fold_res (apply_envelope X ro d (batch_writer d)) (batch_messages batch) batch_start = Inr s \<and>
    (case bs_namespace_doc s of None \<Rightarrow> d1 = d | Some doc \<Rightarrow> write_stable_namespace_projection_tx X doc t d = Inr d1) \<and>
    fold_res (\<lambda>(obj, blob). upsert_stable_text_object obj blob t') (bs_text_docs s) d1 = Inr d2 \<and>
    update_stable_cursor (batch_first batch) (batch_last batch) d2 = Inr d' \<and>
    select_stable_cursor d = Inr (batch_first batch)"
proof -
  from assms obtain w s d1 d2 where c: "select_stable_cursor d = Inr (batch_first batch)"
    and w: "select_daemon_writer_id d = Inr w"
    and s: "fold_res (apply_envelope X ro d w) (batch_messages batch) batch_start = Inr s"
    and d1: "(case bs_namespace_doc s of None \<Rightarrow> Inr d | Some doc \<Rightarrow>
       bind_res (ok_or (bs_max_timestamp s) Panicked) (\<lambda>t. write_stable_namespace_projection_tx X doc t d)) = Inr d1"
    and d2: "(if bs_text_docs s = [] then Inr d1 else bind_res (ok_or (bs_max_timestamp s) Panicked) (\<lambda>t.
       fold_res (\<lambda>(obj, blob). upsert_stable_text_object obj blob t) (bs_text_docs s) d1)) = Inr d2"
    and d': "update_stable_cursor (batch_first batch) (batch_last batch) d2 = Inr d'"
    unfolding apply_shared_message_batch_tx_def bind_res_eq_Inr
    by (elim exE conjE, split if_split_asm, simp, unfold bind_res_eq_Inr, elim exE conjE) simp
  have "w = batch_writer d" using w
    by (auto simp: select_daemon_writer_id_def batch_writer_def res_simps split: if_splits option.splits)
  moreover from d1 have "\<exists>t. case bs_namespace_doc s of None \<Rightarrow> d1 = d
      | Some doc \<Rightarrow> write_stable_namespace_projection_tx X doc t d = Inr d1"
    by (auto simp: res_simps split: option.splits)
  moreover from d2 have "\<exists>t. fold_res (\<lambda>(obj, blob). upsert_stable_text_object obj blob t) (bs_text_docs s) d1 = Inr d2"
    by (cases "bs_text_docs s") (auto simp: res_simps)
  ultimately show ?thesis using s d' c by blast
qed

lemma moved_by_update: "update_stable_cursor f l d = Inr d' \<Longrightarrow>
    cursor_moved f (l + 1) d d' \<and> local_part d' = local_part d \<and> db_stable_text d' = db_stable_text d"
  by (auto simp: update_stable_cursor_def cursor_moved_def local_part_def split: option.splits if_splits)

lemma projected_part:
  assumes "case doc of None \<Rightarrow> d1 = d | Some doc \<Rightarrow> write_stable_namespace_projection_tx X doc t d = Inr d1"
  shows "local_part d1 = local_part d \<and> db_daemon_state d1 = db_daemon_state d \<and> db_stable_text d1 = db_stable_text d"
  using assms keeps_localD [OF keeps_local_projection] by (cases doc) auto

section \<open>Properties\<close>



text \<open>A shared batch that is applied starts exactly at the stable cursor and moves it behind its last
  message; it leaves the device's own side of the database (prior tables, staged files, write
  intents, outbox, ignored files) alone, and applying the same batch again is refused.\<close>

theorem remote_batch_frame:
  assumes "apply_shared_message_batch_tx X ro batch d = Inr (eff, d')"
    and "batch_first batch \<le> batch_last batch"
  shows "cursor_moved (batch_first batch) (batch_last batch + 1) d d' \<and> local_part d' = local_part d \<and>
    apply_shared_message_batch_tx X' ro' batch d' = Inl InvariantViolation"
proof -
  from apply_batch_parts [OF assms(1)] obtain s d1 d2 t t' where
    s: "fold_res (apply_envelope X ro d (batch_writer d)) (batch_messages batch) batch_start = Inr s"
    and d1: "case bs_namespace_doc s of None \<Rightarrow> d1 = d | Some doc \<Rightarrow> write_stable_namespace_projection_tx X doc t d = Inr d1"
    and d2: "fold_res (\<lambda>(obj, blob). upsert_stable_text_object obj blob t') (bs_text_docs s) d1 = Inr d2"
    and d': "update_stable_cursor (batch_first batch) (batch_last batch) d2 = Inr d'" by blast
  have "cursor_moved (batch_first batch) (batch_last batch + 1) d d'" "local_part d' = local_part d"
    using projected_part [OF d1] keeps_local_stable_text [OF d2] moved_by_update [OF d'] by (simp_all add: cursor_moved_def)
  moreover from this(1) assms(2) have "select_stable_cursor d' = Inr (batch_last batch + 1)"
    by (auto simp: cursor_moved_def select_stable_cursor_def)
  then have "apply_shared_message_batch_tx X' ro' batch d' = Inl InvariantViolation"
    using assms(2) by (simp add: apply_shared_message_batch_tx_def)
  ultimately show ?thesis by blast
qed

text \<open>(C31) After a batch the stable text of every object is the fold, in log order, of the foreign updates
  the batch holds for it over the text it had, and objects without foreign updates keep theirs.\<close>

theorem remote_batch_merges:
  assumes "apply_shared_message_batch_tx X ro batch d = Inr (eff, d')"
  shows "let us = foreign_text_updates (batch_writer d) obj (batch_messages batch) in
    if us = [] then bt_get (db_stable_text d') obj = bt_get (db_stable_text d) obj
    else \<exists>b t. merge_updates X ro us (stable_doc X d obj) = Inr b \<and> bt_get (db_stable_text d') obj = Some (b, t)"
proof -
  from apply_batch_parts [OF assms(1)] obtain s d1 d2 t t' where
    s: "fold_res (apply_envelope X ro d (batch_writer d)) (batch_messages batch) batch_start = Inr s"
    and d1: "case bs_namespace_doc s of None \<Rightarrow> d1 = d | Some doc \<Rightarrow> write_stable_namespace_projection_tx X doc t d = Inr d1"
    and d2: "fold_res (\<lambda>(obj, blob). upsert_stable_text_object obj blob t') (bs_text_docs s) d1 = Inr d2"
    and d': "update_stable_cursor (batch_first batch) (batch_last batch) d2 = Inr d'" by blast
  have start: "bt_wf (bs_text_docs batch_start)" "bt_get (bs_text_docs batch_start) obj = None"
    "current_text X d batch_start obj = stable_doc X d obj" by (simp_all add: batch_start_def current_text_def)
  note loop = batch_loop_text [OF s start(1), of obj]
  then have "distinct (map fst (bs_text_docs s))" by (blast intro: bt_wf_distinct)
  note up = upserted_text [OF d2 this, of obj]
  have final: "bt_get (db_stable_text d') obj = bt_get (db_stable_text d2) obj" using moved_by_update [OF d'] by simp
  have init: "bt_get (db_stable_text d1) obj = bt_get (db_stable_text d) obj" using projected_part [OF d1] by simp
  show ?thesis
  proof (cases "foreign_text_updates (batch_writer d) obj (batch_messages batch) = []")
    case True
    with loop start up have "map_of (bs_text_docs s) obj = None" by (simp add: bt_get_def)
    with up final init True show ?thesis by simp
  next
    case False
    with loop start obtain b where "merge_updates X ro (foreign_text_updates (batch_writer d) obj (batch_messages batch))
        (stable_doc X d obj) = Inr b" "map_of (bs_text_docs s) obj = Some b" by (auto simp: bt_get_def)
    with up final False show ?thesis by auto
  qed
qed

text \<open>A batch with one own message between two foreign ones.\<close>

definition demo_env :: "writer_id \<Rightarrow> nat \<Rightarrow> bytes \<Rightarrow> shared_message_envelope" where
  "demo_env w i u = \<lparr>env_timestamp = 7, env_sequence_number = i,
     env_origin = \<lparr>or_daemon_writer_id = w, or_outbox_id = 1\<rparr>, env_shared_message = TextObjectUpdate ''o'' u\<rparr>"

definition demo_batch :: shared_message_batch where
  "demo_batch = \<lparr>batch_first = 0, batch_last = 2,
     batch_messages = [demo_env ''v'' 0 ''x'', demo_env ''writer'' 1 ''y'', demo_env ''v'' 2 ''z'']\<rparr>"

lemma demo_batch_run:
  "apply_shared_message_batch_tx demo_ns_ext 1 demo_batch demo_work_db =
     Inr (\<lparr>eff_projection_changed = Some 3, eff_outbox_ready = None\<rparr>,
       demo_work_db\<lparr>db_stable_text := [(''o'', (''z'', 7))],
         db_daemon_state := Some (demo_daemon_state\<lparr>ds_stable_cursor := 3\<rparr>)\<rparr>)"
  by (simp add: apply_shared_message_batch_tx_def demo_batch_def demo_env_def demo_work_db_def demo_outbox_db_def
      demo_daemon_state_def empty_db_def select_stable_cursor_def select_daemon_writer_id_def apply_envelope_def batch_start_def
      select_stable_text_object_doc_def bt_get_def apply_text_update_def demo_ns_ext_def demo_ext_def td_from_full_state_def
      td_apply_update_def td_get_text_def td_encode_full_state_def td_encode_update_since_def td_new_def Let_def
      upsert_stable_text_object_def datetime_to_unix_ns_def i64_range_def i64_max_def update_stable_cursor_def
      checked_add_u64_def u64_max_def)

theorem remote_batch_frame_witness:
  "apply_shared_message_batch_tx demo_ns_ext 1 demo_batch
     (demo_work_db\<lparr>db_stable_text := [(''o'', (''z'', 7))],
        db_daemon_state := Some (demo_daemon_state\<lparr>ds_stable_cursor := 3\<rparr>)\<rparr>) = Inl InvariantViolation"
  using remote_batch_frame [OF demo_batch_run, of demo_ns_ext 1] by (simp add: demo_batch_def)

theorem remote_batch_merges_witness:
  "merge_updates demo_ns_ext 1 [''x'', ''z''] ''hi'' = Inr ''z''"
proof -
  have "foreign_text_updates (batch_writer demo_work_db) ''o'' (batch_messages demo_batch) = [''x'', ''z'']"
    "stable_doc demo_ns_ext demo_work_db ''o'' = ''hi''"
    by (simp_all add: foreign_text_simps batch_writer_def demo_batch_def demo_env_def demo_work_db_def demo_outbox_db_def
        demo_daemon_state_def stable_doc_def text_doc_or_empty_def bt_get_def)
  with remote_batch_merges [OF demo_batch_run, of "''o''"] show ?thesis by (simp add: bt_get_def)
qed

end
