(* ===== verification/Epochs.thy ===== *)
theory Epochs
  imports Semantic_Actor Remote
begin

text \<open>
  Correctness of the semantic actor: the plans the service hands out are well numbered, so that
  installing them never panics; the epoch ledgers only ever complete expected actions; an epoch
  commit receives exactly the planned actions in order; at most one task runs, and its result
  always meets its pending entry; a deferred epoch commit waits for actions that are still missing.
\<close>

section \<open>Specification\<close>

text \<open>The actions of a plan carry the epoch and the numbers \<open>0, 1, \<dots>\<close>.\<close>

definition numbered :: "nat \<Rightarrow> action_id list \<Rightarrow> bool" where
  "numbered epoch ids \<longleftrightarrow> ids = map (Pair epoch) [0..<length ids]"

definition ledger_ok :: "nat \<Rightarrow> (action_id, 'v) btree_map \<Rightarrow> (action_id, 'w) btree_map \<Rightarrow> bool" where
  "ledger_ok epoch expected completed \<longleftrightarrow>
     bt_wf expected \<and> bt_wf completed \<and> set (map fst completed) \<subseteq> set (map fst expected) \<and>
     list_all (\<lambda>k. fst k = epoch) (map fst expected)"

definition runtime_ok :: "semantic_runtime_state \<Rightarrow> bool" where
  "runtime_ok rt \<longleftrightarrow>
     (case rt_active_import rt of None \<Rightarrow> True
      | Some e \<Rightarrow> ledger_ok (aie_epoch e) (aie_expected e) (aie_completed e) \<and> aie_epoch e < rt_next_import_epoch rt) \<and>
     (case rt_active_projection rt of None \<Rightarrow> True
      | Some e \<Rightarrow> ledger_ok (ape_epoch e) (ape_expected e) (ape_completed e) \<and>
          ape_epoch e < rt_next_projection_epoch rt)"

text \<open>The names \<open>strum\<close> derives for results and pending operations.\<close>

fun task_name :: "semantic_task \<Rightarrow> string" where
  "task_name (TApplyInitScan _ _) = ''apply_init_scan''"
| "task_name (TApplyScan _ _) = ''apply_scan''"
| "task_name (TCommitImportAction _ _) = ''commit_import_action''"
| "task_name (TCommitImportEpoch _) = ''commit_import_epoch''"
| "task_name (TCommitProjectionAction _ _) = ''commit_projection_action''"
| "task_name (TCommitProjectionEpoch _ _) = ''commit_projection_epoch''"
| "task_name (TGetNextWork _) = ''get_next_work''"
| "task_name (TReadOutbox _) = ''read_outbox''"
| "task_name TReleaseOutbox = ''release_outbox''"
| "task_name (TTrimOutbox _) = ''trim_outbox''"
| "task_name TReadStableCursor = ''read_stable_cursor''"
| "task_name TReadStableNamespace = ''read_stable_namespace''"
| "task_name (TApplySharedMessageBatch _) = ''apply_shared_message_batch''"

fun pending_name :: "pending_op_kind \<Rightarrow> string" where
  "pending_name (PApplyInitScan _) = ''apply_init_scan''"
| "pending_name (PApplyScan _) = ''apply_scan''"
| "pending_name (PCommitImportAction _) = ''commit_import_action''"
| "pending_name (PCommitImportEpoch _) = ''commit_import_epoch''"
| "pending_name (PCommitProjectionAction _) = ''commit_projection_action''"
| "pending_name (PCommitProjectionEpoch _) = ''commit_projection_epoch''"
| "pending_name (PGetNextWork _) = ''get_next_work''"
| "pending_name (PReadOutbox _) = ''read_outbox''"
| "pending_name (PReleaseOutbox _) = ''release_outbox''"
| "pending_name PTrimOutbox = ''trim_outbox''"
| "pending_name (PReadStableCursor _) = ''read_stable_cursor''"
| "pending_name (PReadStableNamespace _) = ''read_stable_namespace''"
| "pending_name (PApplySharedMessageBatch _) = ''apply_shared_message_batch''"

text \<open>What a running task relies on: a planning task runs while no epoch of its side is active, an
  action commit while its action is expected and not completed.\<close>

definition task_ok :: "semantic_runtime_state \<Rightarrow> semantic_task \<Rightarrow> bool" where
  "task_ok rt task =
     (case task of
        TApplyInitScan _ epoch \<Rightarrow> rt_active_import rt = None \<and> epoch < rt_next_import_epoch rt
      | TApplyScan _ epoch \<Rightarrow> rt_active_import rt = None \<and> epoch < rt_next_import_epoch rt
      | TGetNextWork epoch \<Rightarrow> rt_active_projection rt = None \<and> epoch < rt_next_projection_epoch rt
      | TCommitImportAction ctx result \<Rightarrow> validate_import_action result rt = Inr ctx
      | TCommitProjectionAction ctx result \<Rightarrow> validate_projection_action result rt = Inr ctx
      | _ \<Rightarrow> True)"

definition lane_ok :: "semantic_actor \<Rightarrow> bool" where
  "lane_ok a \<longleftrightarrow>
     (case act_running a of
        [] \<Rightarrow> act_pending a = []
      | [(op, task)] \<Rightarrow>
          (case act_pending a of
             [(op', kind)] \<Rightarrow> op' = op \<and> pending_name kind = task_name task \<and> op < act_next_op_id a
           | _ \<Rightarrow> False) \<and> task_ok (act_runtime a) task
      | _ \<Rightarrow> False)"

definition deferred_ok :: "semantic_actor \<Rightarrow> bool" where
  "deferred_ok a \<longleftrightarrow>
     (case act_deferred_import a of None \<Rightarrow> True
      | Some (epoch, _) \<Rightarrow> import_epoch_complete epoch (act_runtime a) = Inr False) \<and>
     (case act_deferred_projection a of None \<Rightarrow> True
      | Some (epoch, reason, _) \<Rightarrow> reason = PlanExhausted \<and>
          projection_epoch_complete epoch (act_runtime a) = Inr False)"

definition actor_ok :: "semantic_actor \<Rightarrow> bool" where
  "actor_ok a \<longleftrightarrow> runtime_ok (act_runtime a) \<and> lane_ok a \<and> deferred_ok a"

section \<open>Lemmas: numbered plans\<close>

lemma numbered_Nil [simp]: "numbered epoch []"
  by (simp add: numbered_def)

lemma numbered_snoc: "numbered epoch ids \<Longrightarrow> numbered epoch (ids @ [(epoch, length ids)])"
  unfolding numbered_def by simp

lemma numbered_distinct: "numbered epoch ids \<Longrightarrow> distinct ids"
  unfolding numbered_def by (metis distinct_map distinct_upt inj_onI prod.inject)

lemma numbered_epoch: "numbered epoch ids \<Longrightarrow> i \<in> set ids \<Longrightarrow> fst i = epoch"
  unfolding numbered_def by (metis (no_types, lifting) fst_conv image_iff list.set_map)

lemma plan_read_numbered:
  assumes "plan_read ignored epoch now file (actions, d) = Inr (actions', d')" and "numbered epoch (map ia_id actions)"
  shows "numbered epoch (map ia_id actions')"
  using assms numbered_snoc [of epoch "map ia_id actions"]
  by (auto simp: plan_read_def res_simps split: prod.splits if_splits)

lemma plan_reads_numbered:
  assumes "fold_res (plan_read ignored epoch now) files (actions, d) = Inr (actions', d')"
    and "numbered epoch (map ia_id actions)"
  shows "numbered epoch (map ia_id actions')"
proof -
  have "numbered epoch (map ia_id (fst (actions', d')))"
    by (rule fold_res_inv [OF assms(1), where I = "\<lambda>s. numbered epoch (map ia_id (fst s))"])
      (use assms(2) plan_read_numbered in auto)
  then show ?thesis by simp
qed

lemma scan_priors_numbered:
  assumes "fold_res (scan_prior_row scope ignored epoch now) priors (observed, missing, actions, d) =
      Inr (observed', missing', actions', d')"
    and "numbered epoch (map ia_id actions)"
  shows "numbered epoch (map ia_id actions')"
proof -
  have "numbered epoch (map ia_id (fst (snd (snd (observed', missing', actions', d')))))"
    by (rule fold_res_inv [OF assms(1), where I = "\<lambda>s. numbered epoch (map ia_id (fst (snd (snd s))))"])
      (use assms(2) plan_read_numbered in \<open>auto simp: scan_prior_row_def Let_def res_simps
        split: prod.splits if_splits option.splits\<close>)
  then show ?thesis by simp
qed

lemma init_scan_plan:
  assumes "apply_init_scan X now scan epoch d = Inr (started, d')"
  shows "ies_epoch started = epoch" "numbered epoch (map ia_id (ies_actions started))"
  using assms plan_reads_numbered [where actions = "[]"]
  by (auto simp: apply_init_scan_def res_simps split: if_splits)

lemma scan_plan:
  assumes "apply_scan X now scan epoch d = Inr ((work, eff), d')"
  shows "(case work of NoWork \<Rightarrow> True | Import s \<Rightarrow> ies_epoch s = epoch \<and> numbered epoch (map ia_id (ies_actions s))
    | Project _ \<Rightarrow> False)"
proof -
  from assms obtain observed ignored priors rest missing actions d1 actions' d2 where
    "fold_res (scan_prior_row (scan_scope_of scan) ignored epoch now) priors (observed, [], [], d) =
       Inr (rest, missing, actions, d1)"
    "fold_res (plan_read ignored epoch now) rest (actions, d1) = Inr (actions', d2)"
    and nx: "work = (if actions' = [] then NoWork else Import \<lparr>ies_epoch = epoch, ies_actions = actions'\<rparr>)"
    by (auto simp: apply_scan_def Let_def res_simps)
  then have "numbered epoch (map ia_id actions')"
    using scan_priors_numbered plan_reads_numbered by (metis list.simps(8) numbered_Nil)
  with nx show ?thesis by simp
qed

lemma plan_row_numbered:
  assumes "plan_stable_row X epoch now row (m, actions, d) = Inr (m', actions', d')"
    and "numbered epoch (map pa_id actions)"
  shows "numbered epoch (map pa_id actions')"
  using assms numbered_snoc [of epoch "map pa_id actions"]
  by (auto simp: plan_stable_row_def Let_def res_simps split: option.splits)

lemma plan_rows_numbered:
  assumes "fold_res (plan_stable_row X epoch now) rows (m, [], d) = Inr (m', actions', d')"
  shows "numbered epoch (map pa_id actions')"
proof -
  have "numbered epoch (map pa_id (fst (snd (m', actions', d'))))"
    by (rule fold_res_inv [OF assms(1), where I = "\<lambda>s. numbered epoch (map pa_id (fst (snd s)))"])
      (use plan_row_numbered in auto)
  then show ?thesis by simp
qed

lemma next_work_plan:
  assumes "get_next_work_tx X epoch now d = Inr (work, d')"
  shows "(case work of NoWork \<Rightarrow> True | Import _ \<Rightarrow> False
    | Project s \<Rightarrow> pes_epoch s = epoch \<and> numbered epoch (map pa_id (pes_actions s)))"
proof -
  from assms obtain m rows gen blob rest writes d1 where
    run: "fold_res (plan_stable_row X epoch now) rows (m, [], d) = Inr (rest, writes, d1)"
    and nx: "work = (let actions = writes @ map (\<lambda>(i, r). delete_action epoch i r)
          (enumerate (length writes) (map snd rest)) in
        if actions = [] then NoWork else Project \<lparr>pes_epoch = epoch, pes_generation = gen,
          pes_target_namespace_doc_blob = blob, pes_actions = actions\<rparr>)"
    by (auto simp: get_next_work_tx_def Let_def res_simps split: if_splits)
  have "map pa_id writes = map (Pair epoch) [0..<length writes]"
    using plan_rows_numbered [OF run] by (simp add: numbered_def)
  moreover have "map (pa_id \<circ> (\<lambda>(i, r). delete_action epoch i r)) (enumerate n rs) = map (Pair epoch) [n..<n + length rs]"
    for n rs by (induction rs arbitrary: n) (simp_all add: delete_action_def upt_rec)
  ultimately have "numbered epoch (map pa_id (writes @ map (\<lambda>(i, r). delete_action epoch i r)
      (enumerate (length writes) (map snd rest))))"
    using upt_add_eq_append [of 0 "length writes" "length rest"] by (simp add: numbered_def comp_def)
  then show ?thesis by (simp add: nx Let_def)
qed

section \<open>Lemmas: ledgers\<close>

lemma dom_bt_get: "dom (bt_get m) = set (map fst m)"
  by (simp add: bt_get_def [abs_def] dom_map_of_conv_image_fst)

lemma ledger_complete_iff:
  assumes "ledger_ok epoch expected completed"
  shows "length completed = length expected \<longleftrightarrow> set (map fst completed) = set (map fst expected)"
proof -
  have d: "distinct (map fst expected)" "distinct (map fst completed)"
    using assms by (simp_all add: ledger_ok_def bt_wf_distinct)
  then have c: "card (set (map fst expected)) = length expected" "card (set (map fst completed)) = length completed"
    by (metis distinct_card length_map)+
  show ?thesis
  proof
    assume "length completed = length expected"
    with c have "card (set (map fst completed)) = card (set (map fst expected))" by simp
    moreover have "set (map fst completed) \<subseteq> set (map fst expected)" using assms by (simp add: ledger_ok_def)
    ultimately show "set (map fst completed) = set (map fst expected)" by (meson List.finite_set card_subset_eq)
  qed (metis c)
qed

lemma ledger_step:
  "ledger_ok epoch expected completed \<Longrightarrow> bt_get expected i \<noteq> None \<Longrightarrow> ledger_ok epoch expected (bt_insert i v completed)"
  using bt_keys_insert [of i v completed]
  by (auto simp: ledger_ok_def bt_wf_insert bt_keys_def bt_get_def map_of_eq_None_iff)

lemma expect_fold:
  assumes "numbered epoch (map key xs)"
  shows "\<exists>m. fold_res (expect_action epoch key val) xs [] = Inr m \<and> bt_wf m \<and>
    set (map fst m) = set (map key xs) \<and> bt_get m = map_of (map (\<lambda>x. (key x, val x)) xs)"
proof -
  have "\<exists>m'. fold_res (expect_action epoch key val) ys m = Inr m' \<and> bt_wf m' \<and> set (map fst m') = set (map fst m) \<union> key ` set ys \<and>
      bt_get m' = bt_get m ++ map_of (map (\<lambda>x. (key x, val x)) ys)"
    if "bt_wf m" "set (map fst m) \<inter> key ` set ys = {}" "distinct (map key ys)" "\<forall>x\<in>set ys. fst (key x) = epoch" for ys m
    using that
  proof (induction ys arbitrary: m)
    case Nil
    then show ?case by simp
  next
    case (Cons y ys)
    have "bt_get m (key y) = None" using Cons.prems(2) by (auto simp: bt_get_def map_of_eq_None_iff)
    then have step: "expect_action epoch key val y m = Inr (bt_insert (key y) (val y) m)"
      using Cons.prems(4) by (simp add: expect_action_def)
    have keys: "set (map fst (bt_insert (key y) (val y) m)) = insert (key y) (set (map fst m))"
      using bt_keys_insert [of "key y" "val y" m] by (simp add: bt_keys_def)
    have "set (map fst (bt_insert (key y) (val y) m)) \<inter> key ` set ys = {}"
      using Cons.prems(2,3) unfolding keys by auto
    from Cons.IH [OF bt_wf_insert [OF Cons.prems(1)] this] Cons.prems(3,4) obtain m' where
      m': "fold_res (expect_action epoch key val) ys (bt_insert (key y) (val y) m) = Inr m'" "bt_wf m'"
      "set (map fst m') = insert (key y) (set (map fst m)) \<union> key ` set ys"
      "bt_get m' = bt_get (bt_insert (key y) (val y) m) ++ map_of (map (\<lambda>x. (key x, val x)) ys)"
      unfolding keys by auto
    have "key y \<notin> dom (map_of (map (\<lambda>x. (key x, val x)) ys))"
      using Cons.prems(3) by (auto simp: dom_map_of_conv_image_fst image_image)
    then have "bt_get m' = bt_get m ++ map_of (map (\<lambda>x. (key x, val x)) (y # ys))"
      by (auto simp: m'(4) bt_get_insert fun_eq_iff map_add_def split: option.splits)
    moreover have "fold_res (expect_action epoch key val) (y # ys) m = Inr m'" using step m'(1) by simp
    moreover have "set (map fst m') = set (map fst m) \<union> key ` set (y # ys)" using m'(3) by simp
    ultimately show ?case using m'(2) by blast
  qed
  from this [of "[]" xs] show ?thesis
    using numbered_distinct [OF assms] numbered_epoch [OF assms] by auto
qed

lemma install_import_ok:
  assumes "rt_active_import rt = None" and "numbered (ies_epoch s) (map ia_id (ies_actions s))"
  shows "\<exists>e. install_import_epoch s kind rt = Inr (rt\<lparr>rt_active_import := Some e\<rparr>) \<and> aie_epoch e = ies_epoch s \<and>
    aie_kind e = kind \<and> aie_completed e = [] \<and> ledger_ok (aie_epoch e) (aie_expected e) (aie_completed e) \<and>
    bt_get (aie_expected e) = map_of (map (\<lambda>a. (ia_id a, ia_kind a)) (ies_actions s))"
proof -
  from expect_fold [OF assms(2), of ia_kind] obtain m where
    m: "fold_res (expect_action (ies_epoch s) ia_id ia_kind) (ies_actions s) [] = Inr m" "bt_wf m"
      "set (map fst m) = set (map ia_id (ies_actions s))"
      "bt_get m = map_of (map (\<lambda>a. (ia_id a, ia_kind a)) (ies_actions s))" by blast
  have "\<forall>k\<in>set (map fst m). fst k = ies_epoch s" using numbered_epoch [OF assms(2)] unfolding m(3) by blast
  with m assms(1) show ?thesis
    by (intro exI [of _ "\<lparr>aie_epoch = ies_epoch s, aie_kind = kind, aie_expected = m, aie_completed = []\<rparr>"])
      (simp add: install_import_epoch_def ledger_ok_def list_all_iff)
qed

lemma install_projection_ok:
  assumes "rt_active_projection rt = None" and "numbered (pes_epoch s) (map pa_id (pes_actions s))"
  shows "\<exists>e. install_projection_epoch s rt = Inr (rt\<lparr>rt_active_projection := Some e\<rparr>) \<and> ape_epoch e = pes_epoch s \<and>
    ape_completed e = [] \<and> ledger_ok (ape_epoch e) (ape_expected e) (ape_completed e) \<and>
    bt_get (ape_expected e) = map_of (map (\<lambda>a. (pa_id a, pa_commit_context a)) (pes_actions s))"
proof -
  from expect_fold [OF assms(2), of pa_commit_context] obtain m where
    m: "fold_res (expect_action (pes_epoch s) pa_id pa_commit_context) (pes_actions s) [] = Inr m" "bt_wf m"
      "set (map fst m) = set (map pa_id (pes_actions s))"
      "bt_get m = map_of (map (\<lambda>a. (pa_id a, pa_commit_context a)) (pes_actions s))" by blast
  have "\<forall>k\<in>set (map fst m). fst k = pes_epoch s" using numbered_epoch [OF assms(2)] unfolding m(3) by blast
  with m assms(1) show ?thesis
    by (intro exI [of _ "\<lparr>ape_epoch = pes_epoch s, ape_generation = pes_generation s,
        ape_target_namespace_doc_blob = pes_target_namespace_doc_blob s, ape_expected = m, ape_completed = []\<rparr>"])
      (simp add: install_projection_epoch_def ledger_ok_def list_all_iff)
qed

section \<open>Lemmas: closing an epoch\<close>

lemma take_imports:
  assumes "bt_wf completed" and "distinct (map fst expected)" and "set (map fst expected) \<subseteq> dom (bt_get completed)"
  shows "\<exists>rest. fold_res take_completed_import expected (completed, acc) =
    Inr (rest, acc @ map (\<lambda>(i, k). \<lparr>cia_action_id = i, cia_action_kind = k\<rparr>) expected)"
  using assms
proof (induction expected arbitrary: completed acc)
  case Nil
  then show ?case by simp
next
  case (Cons e expected)
  have in_c: "bt_get completed (fst e) \<noteq> None" using Cons.prems(3) by auto
  have "set (map fst expected) \<subseteq> dom (bt_get (bt_remove (fst e) completed))"
    using Cons.prems(2,3) by (simp add: bt_get_remove [OF Cons.prems(1)] subset_Diff_insert)
  from Cons.IH [OF bt_wf_remove [OF Cons.prems(1)] _ this, of "acc @ [\<lparr>cia_action_id = fst e, cia_action_kind = snd e\<rparr>]"]
    Cons.prems(2) show ?case using in_c by (simp add: take_completed_import_def [of e] case_prod_unfold)
qed

lemma take_projections:
  assumes "bt_wf completed" and "distinct (map fst expected)"
    and "complete \<longrightarrow> set (map fst expected) \<subseteq> dom (bt_get completed)"
  shows "\<exists>rest. fold_res (take_completed_projection complete) expected (completed, acc) =
    Inr (rest, acc @ List.map_filter (\<lambda>(i, c). map_option (\<lambda>r. \<lparr>cpa_action_id = i, cpa_commit_context = c, cpa_result = r\<rparr>)
       (bt_get completed i)) expected)"
  using assms
proof (induction expected arbitrary: completed acc)
  case Nil
  then show ?case by (simp add: List.map_filter_simps)
next
  case (Cons e expected)
  obtain i c where e: "e = (i, c)" by (cases e)
  have other: "bt_get (bt_remove i completed) j = bt_get completed j" if "j \<in> fst ` set expected" for j
    using that Cons.prems(2) e by (auto simp: bt_get_remove [OF Cons.prems(1)])
  have "complete \<longrightarrow> set (map fst expected) \<subseteq> dom (bt_get (bt_remove i completed))"
    using Cons.prems(2,3) e by (simp add: bt_get_remove [OF Cons.prems(1)] subset_Diff_insert)
  note ih = Cons.IH [OF bt_wf_remove [OF Cons.prems(1)] _ this]
  have cong: "List.map_filter (\<lambda>(j, c). map_option (\<lambda>r. \<lparr>cpa_action_id = j, cpa_commit_context = c, cpa_result = r\<rparr>)
       (bt_get (bt_remove i completed) j)) expected =
     List.map_filter (\<lambda>(j, c). map_option (\<lambda>r. \<lparr>cpa_action_id = j, cpa_commit_context = c, cpa_result = r\<rparr>)
       (bt_get completed j)) expected"
    using other by (induction expected) (auto simp: List.map_filter_simps split: option.splits)
  show ?case
  proof (cases "bt_get completed i")
    case None
    then have "\<not> complete" using Cons.prems(3) e by auto
    with None e Cons.IH [OF Cons.prems(1), of acc] Cons.prems(2) show ?thesis
      by (simp add: take_completed_projection_def List.map_filter_simps)
  next
    case (Some r)
    with e ih [of "acc @ [\<lparr>cpa_action_id = i, cpa_commit_context = c, cpa_result = r\<rparr>]"] Cons.prems(2) show ?thesis
      by (simp add: take_completed_projection_def List.map_filter_simps cong)
  qed
qed

lemma finish_import_epoch_ok:
  assumes "runtime_ok rt" and "import_epoch_complete epoch rt = Inr True" and "rt_active_import rt = Some e"
  shows "finish_import_epoch epoch rt =
    Inr (\<lparr>cie_epoch = epoch, cie_kind = aie_kind e,
          cie_actions = map (\<lambda>(i, k). \<lparr>cia_action_id = i, cia_action_kind = k\<rparr>) (aie_expected e)\<rparr>,
         rt\<lparr>rt_active_import := None\<rparr>)"
proof -
  have l: "ledger_ok (aie_epoch e) (aie_expected e) (aie_completed e)" using assms by (simp add: runtime_ok_def)
  have c: "aie_epoch e = epoch" "length (aie_completed e) = length (aie_expected e)"
    using assms(2,3) by (auto simp: import_epoch_complete_def validate_import_epoch_commit_def res_simps)
  have "set (map fst (aie_expected e)) \<subseteq> dom (bt_get (aie_completed e))"
    using ledger_complete_iff [OF l] c(2) by (simp add: dom_bt_get)
  with take_imports [of "aie_completed e" "aie_expected e" "[]"] l c assms(3) show ?thesis
    by (auto simp: finish_import_epoch_def ledger_ok_def bt_wf_distinct)
qed

lemma finish_projection_epoch_ok:
  assumes "runtime_ok rt" and "rt_active_projection rt = Some e" and "ape_epoch e = epoch"
    and "reason = PlanExhausted \<longrightarrow> length (ape_completed e) = length (ape_expected e)"
  shows "finish_projection_epoch epoch reason rt =
    Inr (\<lparr>cpe_epoch = epoch, cpe_generation = ape_generation e,
          cpe_target_namespace_doc_blob = ape_target_namespace_doc_blob e,
          cpe_actions = List.map_filter (\<lambda>(i, c). map_option (\<lambda>r. \<lparr>cpa_action_id = i, cpa_commit_context = c,
            cpa_result = r\<rparr>) (bt_get (ape_completed e) i)) (ape_expected e)\<rparr>,
         rt\<lparr>rt_active_projection := None\<rparr>)"
proof -
  have l: "ledger_ok (ape_epoch e) (ape_expected e) (ape_completed e)" using assms by (simp add: runtime_ok_def)
  have "reason = PlanExhausted \<longrightarrow> set (map fst (ape_expected e)) \<subseteq> dom (bt_get (ape_completed e))"
    using ledger_complete_iff [OF l] assms(4) by (simp add: dom_bt_get)
  with take_projections [of "ape_completed e" "ape_expected e" "reason = PlanExhausted" "[]"] l assms show ?thesis
    by (auto simp: finish_projection_epoch_def ledger_ok_def bt_wf_distinct Let_def)
qed

section \<open>Lemmas: what a task returns\<close>

fun outcome_name :: "task_outcome \<Rightarrow> string" where
  "outcome_name (OApplyInitScan _) = ''apply_init_scan''"
| "outcome_name (OApplyScan _) = ''apply_scan''"
| "outcome_name (OCommitImportAction _) = ''commit_import_action''"
| "outcome_name (OCommitImportEpoch _) = ''commit_import_epoch''"
| "outcome_name (OCommitProjectionAction _) = ''commit_projection_action''"
| "outcome_name (OCommitProjectionEpoch _) = ''commit_projection_epoch''"
| "outcome_name (OGetNextWork _) = ''get_next_work''"
| "outcome_name (OReadOutbox _) = ''read_outbox''"
| "outcome_name (OReleaseOutbox _) = ''release_outbox''"
| "outcome_name (OTrimOutbox _) = ''trim_outbox''"
| "outcome_name (OReadStableCursor _) = ''read_stable_cursor''"
| "outcome_name (OReadStableNamespace _) = ''read_stable_namespace''"
| "outcome_name (OApplySharedMessageBatch _) = ''apply_shared_message_batch''"

lemma apfst_eq: "apfst f p = (x, y) \<longleftrightarrow> (\<exists>v. p = (v, y) \<and> x = f v)"
  by (cases p) auto

lemma run_task_name: "run_task X i task d = (outcome, d') \<Longrightarrow> outcome_name outcome = task_name task"
  by (cases task) (auto simp: apfst_eq)

lemma exec_tx_attempt:
  assumes "exec_tx b c f d = (Inr v, d')"
  shows "\<exists>k. f k d = Inr (v, d')"
proof -
  from exec_tx_from_spec [of 0 b c f d] obtain n where
    "exec_tx b c f d = (case attempt_tx b c f n d of Inl e \<Rightarrow> (Inl e, d) | Inr (v, d') \<Rightarrow> (Inr v, d'))"
    by (auto simp: exec_tx_def)
  with assms have "attempt_tx b c f n d = Inr (v, d')" by (auto split: sum.splits)
  then have "f n d = Inr (v, d')" by (auto simp: attempt_tx_def res_simps split: option.splits)
  then show ?thesis by blast
qed

lemma service_exec_attempt: "service_exec i f d = (Inr v, d') \<Longrightarrow> \<exists>k. f k d = Inr (v, d')"
  by (auto simp: service_exec_def dest: exec_tx_attempt split: option.splits)

lemma prepared_action_id:
  "prepare_import_action_stage ctx result = Inr dec \<Longrightarrow> decision_action_id dec = import_result_action_id result"
  by (auto simp: prepare_import_action_stage_def split: import_action_kind.splits import_action_result.splits
      import_read_outcome.splits guarded_read_result.splits if_splits)

lemma committed_import_action_id:
  assumes "service_commit_import_action X i ctx result d = (Inr action, d')"
  shows "action = import_result_action_id result"
proof (cases "prepare_import_action_stage ctx result")
  case (Inl e)
  with assms show ?thesis by (simp add: service_commit_import_action_def)
next
  case (Inr dec)
  have "action = decision_action_id dec" if "commit_import_action X now x c ctx result d = Inr (action, d')" for now x c
    using that Inr by (auto simp: commit_import_action_def res_simps)
  with assms Inr have "action = decision_action_id dec"
    by (auto simp: service_commit_import_action_def dest!: service_exec_attempt split: stage_decision.splits)
  with prepared_action_id [OF Inr] show ?thesis by simp
qed

lemma committed_projection_action:
  assumes "service_commit_projection_action i ctx result d = (Inr r, d')"
  shows "r = result"
  using assms
  by (auto simp: service_commit_projection_action_def commit_projection_action_def res_simps dest!: service_exec_attempt
      split: projection_action_result.splits guarded_write_result.splits)

text \<open>A successful outcome fits the task: plans are numbered with the reserved epoch, action commits
  return the action they were asked for.\<close>

definition outcome_fits :: "semantic_task \<Rightarrow> task_outcome \<Rightarrow> bool" where
  "outcome_fits task outcome \<longleftrightarrow>
     (case (task, outcome) of
        (TApplyInitScan _ epoch, OApplyInitScan (Inr s)) \<Rightarrow> ies_epoch s = epoch \<and> numbered epoch (map ia_id (ies_actions s))
      | (TApplyScan _ epoch, OApplyScan (Inr (work, _))) \<Rightarrow>
          (case work of NoWork \<Rightarrow> True | Project _ \<Rightarrow> False
           | Import s \<Rightarrow> ies_epoch s = epoch \<and> numbered epoch (map ia_id (ies_actions s)))
      | (TGetNextWork epoch, OGetNextWork (Inr work)) \<Rightarrow>
          (case work of NoWork \<Rightarrow> True | Import _ \<Rightarrow> False
           | Project s \<Rightarrow> pes_epoch s = epoch \<and> numbered epoch (map pa_id (pes_actions s)))
      | (TCommitImportAction _ result, OCommitImportAction (Inr action)) \<Rightarrow> action = import_result_action_id result
      | (TCommitProjectionAction _ result, OCommitProjectionAction (Inr r)) \<Rightarrow> r = result
      | _ \<Rightarrow> True)"

lemma run_task_fits:
  assumes "run_task X i task d = (outcome, d')"
  shows "outcome_fits task outcome"
proof (cases task)
  case (TApplyInitScan scan epoch)
  with assms show ?thesis
    by (auto simp: outcome_fits_def apfst_eq dest!: service_exec_attempt dest: init_scan_plan
        split: sum.splits)
next
  case (TApplyScan scan epoch)
  with assms show ?thesis
    by (auto simp: outcome_fits_def apfst_eq dest!: service_exec_attempt dest: scan_plan
        split: sum.splits)
next
  case (TGetNextWork epoch)
  with assms show ?thesis
    by (auto simp: outcome_fits_def apfst_eq dest!: service_exec_attempt dest: next_work_plan
        split: sum.splits)
next
  case (TCommitImportAction ctx result)
  with assms show ?thesis
    by (auto simp: outcome_fits_def apfst_eq dest: committed_import_action_id split: sum.splits)
next
  case (TCommitProjectionAction ctx result)
  with assms show ?thesis
    by (auto simp: outcome_fits_def apfst_eq dest: committed_projection_action split: sum.splits)
qed (simp_all add: outcome_fits_def)

section \<open>Lemmas: requests\<close>

lemma runtime_frame [simp]:
  "import_epoch_complete epoch (rt\<lparr>rt_next_import_epoch := n\<rparr>) = import_epoch_complete epoch rt"
  "import_epoch_complete epoch (rt\<lparr>rt_next_projection_epoch := n\<rparr>) = import_epoch_complete epoch rt"
  "import_epoch_complete epoch (rt\<lparr>rt_active_projection := p\<rparr>) = import_epoch_complete epoch rt"
  "projection_epoch_complete epoch (rt\<lparr>rt_next_import_epoch := n\<rparr>) = projection_epoch_complete epoch rt"
  "projection_epoch_complete epoch (rt\<lparr>rt_next_projection_epoch := n\<rparr>) = projection_epoch_complete epoch rt"
  "projection_epoch_complete epoch (rt\<lparr>rt_active_import := e\<rparr>) = projection_epoch_complete epoch rt"
  by (simp_all add: import_epoch_complete_def validate_import_epoch_commit_def projection_epoch_complete_def
      validate_projection_epoch_commit_def)

lemma import_complete_iff:
  "import_epoch_complete epoch rt = Inr b \<longleftrightarrow> (\<exists>e. rt_active_import rt = Some e \<and> aie_epoch e = epoch \<and>
     b = (length (aie_completed e) = length (aie_expected e)))"
  by (auto simp: import_epoch_complete_def validate_import_epoch_commit_def res_simps)

lemma projection_complete_iff:
  "projection_epoch_complete epoch rt = Inr b \<longleftrightarrow> (\<exists>e. rt_active_projection rt = Some e \<and> ape_epoch e = epoch \<and>
     b = (length (ape_completed e) = length (ape_expected e)))"
  by (auto simp: projection_epoch_complete_def validate_projection_epoch_commit_def res_simps)

lemma start_op_simps [simp]:
  "act_runtime (start_op k t a) = act_runtime a" "act_deferred_import (start_op k t a) = act_deferred_import a"
  "act_deferred_projection (start_op k t a) = act_deferred_projection a"
  "act_replies (start_op k t a) = act_replies a" "act_events (start_op k t a) = act_events a"
  by (simp_all add: start_op_def)

definition idle :: "semantic_actor \<Rightarrow> bool" where
  "idle a \<longleftrightarrow> act_running a = [] \<and> act_pending a = []"

lemma actor_ok_idle: "idle a \<Longrightarrow> actor_ok a \<longleftrightarrow> runtime_ok (act_runtime a) \<and> deferred_ok a"
  by (auto simp: actor_ok_def lane_ok_def idle_def)

lemma idle_of_ok: "actor_ok a \<Longrightarrow> act_running a = [] \<Longrightarrow> idle a"
  by (simp add: actor_ok_def lane_ok_def idle_def)

lemma start_op_ok:
  assumes "idle a" and "runtime_ok (act_runtime a)" and "deferred_ok a"
    and "task_ok (act_runtime a) task" and "pending_name kind = task_name task"
  shows "actor_ok (start_op kind task a)"
  using assms by (auto simp: actor_ok_def lane_ok_def idle_def deferred_ok_def start_op_def split: option.splits)

lemma start_commit_import_ok:
  assumes "idle a" and "runtime_ok (act_runtime a)" and "deferred_ok a" and "act_deferred_import a = None"
    and "import_epoch_complete epoch (act_runtime a) = Inr True"
  shows "\<exists>a'. start_commit_import_epoch epoch reply a = Inr a' \<and> actor_ok a'"
proof -
  from assms(5) obtain e where e: "rt_active_import (act_runtime a) = Some e" by (auto simp: import_complete_iff)
  note fin = finish_import_epoch_ok [OF assms(2,5) e]
  have "runtime_ok ((act_runtime a)\<lparr>rt_active_import := None\<rparr>)" using assms(2) by (auto simp: runtime_ok_def split: option.splits)
  moreover have "deferred_ok (a\<lparr>act_runtime := (act_runtime a)\<lparr>rt_active_import := None\<rparr>\<rparr>)"
    using assms(3,4) by (auto simp: deferred_ok_def split: option.splits)
  ultimately show ?thesis
    using assms(1) by (auto simp: start_commit_import_epoch_def fin task_ok_def idle_def intro!: start_op_ok)
qed

lemma start_commit_projection_ok:
  assumes "idle a" and "runtime_ok (act_runtime a)" and "deferred_ok a" and "act_deferred_projection a = None"
    and "rt_active_projection (act_runtime a) = Some e" and "ape_epoch e = epoch"
    and "reason = PlanExhausted \<longrightarrow> length (ape_completed e) = length (ape_expected e)"
  shows "\<exists>a'. start_commit_projection_epoch epoch reason reply a = Inr a' \<and> actor_ok a'"
proof -
  note fin = finish_projection_epoch_ok [OF assms(2,5,6,7)]
  have "runtime_ok ((act_runtime a)\<lparr>rt_active_projection := None\<rparr>)" using assms(2) by (auto simp: runtime_ok_def split: option.splits)
  moreover have "deferred_ok (a\<lparr>act_runtime := (act_runtime a)\<lparr>rt_active_projection := None\<rparr>\<rparr>)"
    using assms(3,4) by (auto simp: deferred_ok_def split: option.splits)
  ultimately show ?thesis
    using assms(1) by (auto simp: start_commit_projection_epoch_def fin task_ok_def idle_def intro!: start_op_ok)
qed

lemma ready_iff:
  assumes "idle a"
  shows "projection_epoch_ready_to_commit epoch reason a = Inr b \<longleftrightarrow>
    (\<exists>e. rt_active_projection (act_runtime a) = Some e \<and> ape_epoch e = epoch \<and>
      b = (reason = PlanExhausted \<longrightarrow> length (ape_completed e) = length (ape_expected e)))"
  using assms
  by (cases reason) (auto simp: projection_epoch_ready_to_commit_def projection_action_commits_in_flight_def idle_def
      validate_projection_epoch_commit_def projection_complete_iff res_simps)

text \<open>The requests the runtime accepts; every other one panics.\<close>

definition admissible :: "semantic_request \<Rightarrow> semantic_actor \<Rightarrow> bool" where
  "admissible request a =
     (case request of
        ApplyInitScan _ _ \<Rightarrow> rt_active_import (act_runtime a) = None
      | ApplyScan _ _ \<Rightarrow> rt_active_import (act_runtime a) = None
      | GetNextWork _ \<Rightarrow> rt_active_projection (act_runtime a) = None
      | CommitImportAction result _ \<Rightarrow>
          (case rt_active_import (act_runtime a) of None \<Rightarrow> False
           | Some e \<Rightarrow> bt_get (aie_expected e) (import_result_action_id result) \<noteq> None \<and>
               bt_get (aie_completed e) (import_result_action_id result) = None)
      | CommitProjectionAction result _ \<Rightarrow>
          (case rt_active_projection (act_runtime a) of None \<Rightarrow> False
           | Some e \<Rightarrow> bt_get (ape_expected e) (projection_result_action_id result) \<noteq> None \<and>
               bt_get (ape_completed e) (projection_result_action_id result) = None)
      | CommitImportEpoch epoch _ \<Rightarrow> act_deferred_import a = None \<and>
          map_option aie_epoch (rt_active_import (act_runtime a)) = Some epoch
      | CommitProjectionEpoch epoch _ _ \<Rightarrow> act_deferred_projection a = None \<and>
          map_option ape_epoch (rt_active_projection (act_runtime a)) = Some epoch
      | _ \<Rightarrow> True)"

lemma ledger_key: "ledger_ok epoch expected completed \<Longrightarrow> bt_get expected i \<noteq> None \<Longrightarrow> fst i = epoch"
  by (auto simp: ledger_ok_def list_all_iff bt_get_def map_of_eq_None_iff)

lemma start_request_ok:
  assumes "actor_ok a" and "act_running a = []" and "admissible request a"
  shows "\<exists>a'. start_request request a = Inr a' \<and> actor_ok a'"
proof -
  note idle = idle_of_ok [OF assms(1,2)]
  have rt: "runtime_ok (act_runtime a)" and df: "deferred_ok a" using assms(1) by (simp_all add: actor_ok_def)
  have dfn: "deferred_ok (a\<lparr>act_runtime := (act_runtime a)\<lparr>rt_next_import_epoch := n\<rparr>\<rparr>)"
    "deferred_ok (a\<lparr>act_runtime := (act_runtime a)\<lparr>rt_next_projection_epoch := n\<rparr>\<rparr>)" for n
    using df by (auto simp: deferred_ok_def split: option.splits)
  show ?thesis
  proof (cases request)
    case (ApplyInitScan scan reply)
    with assms(3) rt dfn idle show ?thesis
      by (auto simp: admissible_def reserve_import_epoch_def runtime_ok_def task_ok_def idle_def intro!: start_op_ok
          split: option.splits)
  next
    case (ApplyScan scan reply)
    with assms(3) rt dfn idle show ?thesis
      by (auto simp: admissible_def reserve_import_epoch_def runtime_ok_def task_ok_def idle_def intro!: start_op_ok
          split: option.splits)
  next
    case (GetNextWork reply)
    with assms(3) rt dfn idle show ?thesis
      by (auto simp: admissible_def reserve_projection_epoch_def runtime_ok_def task_ok_def idle_def intro!: start_op_ok
          split: option.splits)
  next
    case (CommitImportAction result reply)
    with assms(3) rt obtain ctx where "validate_import_action result (act_runtime a) = Inr ctx"
      by (auto simp: admissible_def validate_import_action_def runtime_ok_def Let_def dest: ledger_key split: option.splits)
    with CommitImportAction idle rt df show ?thesis by (auto simp: task_ok_def intro!: start_op_ok)
  next
    case (CommitProjectionAction result reply)
    with assms(3) rt obtain ctx where "validate_projection_action result (act_runtime a) = Inr ctx"
      by (auto simp: admissible_def validate_projection_action_def runtime_ok_def Let_def dest: ledger_key split: option.splits)
    with CommitProjectionAction idle rt df show ?thesis by (auto simp: task_ok_def intro!: start_op_ok)
  next
    case (CommitImportEpoch epoch reply)
    with assms(3) obtain e where e: "act_deferred_import a = None" "rt_active_import (act_runtime a) = Some e" "aie_epoch e = epoch"
      by (auto simp: admissible_def)
    then have v: "validate_import_epoch_commit epoch (act_runtime a) = Inr ()" by (simp add: validate_import_epoch_commit_def)
    obtain b where b: "import_epoch_complete epoch (act_runtime a) = Inr b" using e by (auto simp: import_complete_iff)
    show ?thesis
    proof (cases b)
      case True
      with start_commit_import_ok [OF idle rt df e(1)] b v e CommitImportEpoch show ?thesis by simp
    next
      case False
      with b v e CommitImportEpoch rt df idle show ?thesis
        by (auto simp: deferred_ok_def idle_def actor_ok_def lane_ok_def split: option.splits)
    qed
  next
    case (CommitProjectionEpoch epoch reason reply)
    with assms(3) obtain e where e: "act_deferred_projection a = None" "rt_active_projection (act_runtime a) = Some e"
      "ape_epoch e = epoch" by (auto simp: admissible_def)
    then have v: "validate_projection_epoch_commit epoch (act_runtime a) = Inr ()" by (simp add: validate_projection_epoch_commit_def)
    let ?b = "reason = PlanExhausted \<longrightarrow> length (ape_completed e) = length (ape_expected e)"
    have b: "projection_epoch_ready_to_commit epoch reason a = Inr ?b" using ready_iff [OF idle] e by blast
    show ?thesis
    proof (cases ?b)
      case True
      with start_commit_projection_ok [OF idle rt df e(1,2,3) True] b v e CommitProjectionEpoch show ?thesis by simp
    next
      case False
      then have "projection_epoch_complete epoch (act_runtime a) = Inr False" using e by (auto simp: projection_complete_iff)
      with False b v e CommitProjectionEpoch rt df idle show ?thesis
        by (auto simp: deferred_ok_def idle_def actor_ok_def lane_ok_def split: option.splits)
    qed
  qed (use idle rt df in \<open>auto simp: task_ok_def intro!: start_op_ok\<close>)
qed

lemma start_request_refused:
  assumes "actor_ok a" and "\<not> admissible request a"
  shows "start_request request a = Inl Panicked"
  using assms
  by (cases request; cases "rt_active_import (act_runtime a)"; cases "rt_active_projection (act_runtime a)")
    (auto simp: admissible_def reserve_import_epoch_def reserve_projection_epoch_def
      validate_import_action_def validate_projection_action_def validate_import_epoch_commit_def
      validate_projection_epoch_commit_def ensure_def Let_def split: option.splits)

section \<open>Lemmas: finishing a task\<close>

lemma send_reply_simps [simp]:
  "act_runtime (send_reply r v a) = act_runtime a" "act_running (send_reply r v a) = act_running a"
  "act_pending (send_reply r v a) = act_pending a" "act_deferred_import (send_reply r v a) = act_deferred_import a"
  "act_deferred_projection (send_reply r v a) = act_deferred_projection a"
  by (simp_all add: send_reply_def)

lemma emit_simps: "emit eff a = Inr a' \<Longrightarrow> act_runtime a' = act_runtime a \<and> act_running a' = act_running a \<and>
    act_pending a' = act_pending a \<and> act_deferred_import a' = act_deferred_import a \<and>
    act_deferred_projection a' = act_deferred_projection a"
  by (auto simp: emit_def split: if_splits)

text \<open>An idle actor stays correct when only what it sent changes.\<close>

lemma idle_ok_cong:
  assumes "idle a" and "actor_ok a" and "act_runtime a' = act_runtime a" and "act_running a' = act_running a"
    and "act_pending a' = act_pending a" and "act_deferred_import a' = act_deferred_import a"
    and "act_deferred_projection a' = act_deferred_projection a"
  shows "idle a' \<and> actor_ok a'"
  using assms by (auto simp: idle_def actor_ok_def lane_ok_def deferred_ok_def split: option.splits)

lemma idle_ok_reply: "idle a \<Longrightarrow> actor_ok a \<Longrightarrow> actor_ok (send_reply r v a)"
  using idle_ok_cong [of a "send_reply r v a"] by simp

lemma idle_ok_after_emit: "idle a \<Longrightarrow> actor_ok a \<Longrightarrow> actor_ok (reply_after_emit r w res a)"
proof -
  assume a: "idle a" "actor_ok a"
  have "actor_ok (send_reply r v a')" if "emit eff a = Inr a'" for eff a' v
    using idle_ok_cong [OF a, of "send_reply r v a'"] emit_simps [OF that] by simp
  then show ?thesis using idle_ok_reply [OF a] by (auto simp: reply_after_emit_def split: sum.splits)
qed

lemma idle_ok_install_import:
  assumes "idle a" and "actor_ok a" and "rt_active_import (act_runtime a) = None"
    and "numbered (ies_epoch s) (map ia_id (ies_actions s))" and "ies_epoch s < rt_next_import_epoch (act_runtime a)"
  shows "\<exists>rt. install_import_epoch s kind (act_runtime a) = Inr rt \<and> actor_ok (a\<lparr>act_runtime := rt\<rparr>)"
proof -
  from install_import_ok [OF assms(3,4)] obtain e where e:
    "install_import_epoch s kind (act_runtime a) = Inr ((act_runtime a)\<lparr>rt_active_import := Some e\<rparr>)"
    "aie_epoch e = ies_epoch s" "ledger_ok (aie_epoch e) (aie_expected e) (aie_completed e)" by blast
  have "act_deferred_import a = None"
    using assms(2,3) by (auto simp: actor_ok_def deferred_ok_def import_complete_iff split: option.splits)
  with e assms show ?thesis
    by (auto simp: actor_ok_def idle_def lane_ok_def runtime_ok_def deferred_ok_def split: option.splits)
qed

lemma idle_ok_install_projection:
  assumes "idle a" and "actor_ok a" and "rt_active_projection (act_runtime a) = None"
    and "numbered (pes_epoch s) (map pa_id (pes_actions s))" and "pes_epoch s < rt_next_projection_epoch (act_runtime a)"
  shows "\<exists>rt. install_projection_epoch s (act_runtime a) = Inr rt \<and> actor_ok (a\<lparr>act_runtime := rt\<rparr>)"
proof -
  from install_projection_ok [OF assms(3,4)] obtain e where e:
    "install_projection_epoch s (act_runtime a) = Inr ((act_runtime a)\<lparr>rt_active_projection := Some e\<rparr>)"
    "ape_epoch e = pes_epoch s" "ledger_ok (ape_epoch e) (ape_expected e) (ape_completed e)" by blast
  have "act_deferred_projection a = None"
    using assms(2,3) by (auto simp: actor_ok_def deferred_ok_def projection_complete_iff split: option.splits)
  with e assms show ?thesis
    by (auto simp: actor_ok_def idle_def lane_ok_def runtime_ok_def deferred_ok_def split: option.splits)
qed

text \<open>After an action is completed the deferred commit of its epoch starts or keeps waiting.\<close>

definition import_wait :: "semantic_actor \<Rightarrow> bool" where
  "import_wait a \<longleftrightarrow> (\<forall>epoch r. act_deferred_import a = Some (epoch, r) \<longrightarrow>
     import_epoch_complete epoch (act_runtime a) = Inr False)"

definition projection_wait :: "semantic_actor \<Rightarrow> bool" where
  "projection_wait a \<longleftrightarrow> (\<forall>epoch reason r. act_deferred_projection a = Some (epoch, reason, r) \<longrightarrow>
     reason = PlanExhausted \<and> projection_epoch_complete epoch (act_runtime a) = Inr False)"

lemma deferred_ok_iff: "deferred_ok a \<longleftrightarrow> import_wait a \<and> projection_wait a"
  by (auto simp: deferred_ok_def import_wait_def projection_wait_def split: option.splits)

lemma deferred_import_step:
  assumes "idle a" and "runtime_ok (act_runtime a)" and "projection_wait a"
    and "\<forall>epoch r. act_deferred_import a = Some (epoch, r) \<longrightarrow>
      (\<exists>e. rt_active_import (act_runtime a) = Some e \<and> aie_epoch e = epoch)"
  shows "\<exists>a'. start_ready_deferred_import_epoch_commit a = Inr a' \<and> actor_ok a'"
proof (cases "act_deferred_import a")
  case None
  with assms show ?thesis
    by (simp add: start_ready_deferred_import_epoch_commit_def actor_ok_idle deferred_ok_iff import_wait_def)
next
  case (Some p)
  obtain epoch r where p: "p = (epoch, r)" by (cases p)
  with Some assms(4) obtain b where b: "import_epoch_complete epoch (act_runtime a) = Inr b"
    by (auto simp: import_complete_iff)
  show ?thesis
  proof (cases b)
    case True
    have "\<exists>a'. start_commit_import_epoch epoch r (a\<lparr>act_deferred_import := None\<rparr>) = Inr a' \<and> actor_ok a'"
      using assms b True
      by (intro start_commit_import_ok) (auto simp: idle_def deferred_ok_iff import_wait_def projection_wait_def)
    with Some p b True show ?thesis by (simp add: start_ready_deferred_import_epoch_commit_def)
  next
    case False
    with Some p b assms show ?thesis
      by (simp add: start_ready_deferred_import_epoch_commit_def actor_ok_idle deferred_ok_iff import_wait_def)
  qed
qed

lemma deferred_projection_step:
  assumes "idle a" and "runtime_ok (act_runtime a)" and "import_wait a"
    and "\<forall>epoch reason r. act_deferred_projection a = Some (epoch, reason, r) \<longrightarrow> reason = PlanExhausted \<and>
      (\<exists>e. rt_active_projection (act_runtime a) = Some e \<and> ape_epoch e = epoch)"
  shows "\<exists>a'. start_ready_deferred_projection_epoch_commit a = Inr a' \<and> actor_ok a'"
proof (cases "act_deferred_projection a")
  case None
  with assms show ?thesis
    by (simp add: start_ready_deferred_projection_epoch_commit_def actor_ok_idle deferred_ok_iff projection_wait_def)
next
  case (Some p)
  obtain epoch reason r where p: "p = (epoch, reason, r)" by (cases p)
  with Some assms(4) obtain e where e: "rt_active_projection (act_runtime a) = Some e" "ape_epoch e = epoch"
    "reason = PlanExhausted" by auto
  let ?b = "length (ape_completed e) = length (ape_expected e)"
  have b: "projection_epoch_ready_to_commit epoch reason a = Inr ?b" using e by (simp add: ready_iff [OF assms(1)])
  show ?thesis
  proof (cases ?b)
    case True
    have "\<exists>a'. start_commit_projection_epoch epoch reason r (a\<lparr>act_deferred_projection := None\<rparr>) = Inr a' \<and> actor_ok a'"
      using assms e True by (intro start_commit_projection_ok [where e = e])
        (auto simp: idle_def deferred_ok_iff import_wait_def projection_wait_def)
    with Some p b True show ?thesis by (simp add: start_ready_deferred_projection_epoch_commit_def)
  next
    case False
    with Some p b e assms show ?thesis
      by (simp add: start_ready_deferred_projection_epoch_commit_def actor_ok_idle deferred_ok_iff projection_wait_def
          projection_complete_iff)
  qed
qed

lemma complete_import_action:
  assumes "idle a" and "actor_ok a" and "validate_import_action result (act_runtime a) = Inr ctx"
  shows "\<exists>rt a'. finish_import_action (import_result_action_id result) (act_runtime a) = Inr rt \<and>
    conclude_action reply (Inr ()) start_ready_deferred_import_epoch_commit (a\<lparr>act_runtime := rt\<rparr>) = Inr a' \<and> actor_ok a'"
proof -
  let ?i = "import_result_action_id result"
  from assms(3) obtain e where e: "rt_active_import (act_runtime a) = Some e" "fst ?i = aie_epoch e"
    "bt_get (aie_expected e) ?i \<noteq> None" "bt_get (aie_completed e) ?i \<noteq> Some ()"
    by (auto simp: validate_import_action_def Let_def res_simps split: if_splits)
  let ?rt = "(act_runtime a)\<lparr>rt_active_import := Some (e\<lparr>aie_completed := bt_insert ?i () (aie_completed e)\<rparr>)\<rparr>"
  have fin: "finish_import_action ?i (act_runtime a) = Inr ?rt" using e by (simp add: finish_import_action_def)
  have rt: "runtime_ok ?rt"
    using assms(2) e by (auto simp: actor_ok_def runtime_ok_def intro: ledger_step split: option.splits)
  have wait: "projection_wait a" "\<forall>epoch r. act_deferred_import a = Some (epoch, r) \<longrightarrow> aie_epoch e = epoch"
    using assms(2) e by (auto simp: actor_ok_def deferred_ok_iff import_wait_def import_complete_iff)
  have "\<exists>a'. start_ready_deferred_import_epoch_commit b = Inr a' \<and> actor_ok a'"
    if "act_runtime b = ?rt" "act_running b = act_running a" "act_pending b = act_pending a"
      "act_deferred_import b = act_deferred_import a" "act_deferred_projection b = act_deferred_projection a" for b
    using assms(1) that rt wait by (intro deferred_import_step) (auto simp: idle_def projection_wait_def)
  note b = this [of "a\<lparr>act_runtime := ?rt\<rparr>"] this [of "send_reply r (RUnit (Inr ())) (a\<lparr>act_runtime := ?rt\<rparr>)" for r]
  show ?thesis using fin b by (cases reply) (simp_all add: conclude_action_def)
qed

lemma complete_projection_action:
  assumes "idle a" and "actor_ok a" and "validate_projection_action result (act_runtime a) = Inr ctx"
  shows "\<exists>rt a'. finish_projection_action result (act_runtime a) = Inr rt \<and>
    conclude_action reply (Inr ()) start_ready_deferred_projection_epoch_commit (a\<lparr>act_runtime := rt\<rparr>) = Inr a' \<and> actor_ok a'"
proof -
  let ?i = "projection_result_action_id result"
  from assms(3) obtain e where e: "rt_active_projection (act_runtime a) = Some e" "fst ?i = ape_epoch e"
    "bt_get (ape_expected e) ?i \<noteq> None" "bt_get (ape_completed e) ?i = None"
    by (auto simp: validate_projection_action_def Let_def res_simps split: if_splits)
  let ?rt = "(act_runtime a)\<lparr>rt_active_projection := Some (e\<lparr>ape_completed := bt_insert ?i result (ape_completed e)\<rparr>)\<rparr>"
  have fin: "finish_projection_action result (act_runtime a) = Inr ?rt"
    using e by (simp add: finish_projection_action_def Let_def)
  have rt: "runtime_ok ?rt"
    using assms(2) e by (auto simp: actor_ok_def runtime_ok_def intro: ledger_step split: option.splits)
  have wait: "import_wait a" "\<forall>epoch reason r. act_deferred_projection a = Some (epoch, reason, r) \<longrightarrow>
      reason = PlanExhausted \<and> ape_epoch e = epoch"
    using assms(2) e by (auto simp: actor_ok_def deferred_ok_iff projection_wait_def projection_complete_iff)
  have "\<exists>a'. start_ready_deferred_projection_epoch_commit b = Inr a' \<and> actor_ok a'"
    if "act_runtime b = ?rt" "act_running b = act_running a" "act_pending b = act_pending a"
      "act_deferred_import b = act_deferred_import a" "act_deferred_projection b = act_deferred_projection a" for b
    using assms(1) that rt wait by (intro deferred_projection_step) (auto simp: idle_def import_wait_def)
  note b = this [of "a\<lparr>act_runtime := ?rt\<rparr>"] this [of "send_reply r (RUnit (Inr ())) (a\<lparr>act_runtime := ?rt\<rparr>)" for r]
  show ?thesis using fin b by (cases reply) (simp_all add: conclude_action_def)
qed

lemma outcome_name_iff:
  "outcome_name out = ''apply_init_scan'' \<longleftrightarrow> (\<exists>r. out = OApplyInitScan r)"
  "outcome_name out = ''apply_scan'' \<longleftrightarrow> (\<exists>r. out = OApplyScan r)"
  "outcome_name out = ''commit_import_action'' \<longleftrightarrow> (\<exists>r. out = OCommitImportAction r)"
  "outcome_name out = ''commit_import_epoch'' \<longleftrightarrow> (\<exists>r. out = OCommitImportEpoch r)"
  "outcome_name out = ''commit_projection_action'' \<longleftrightarrow> (\<exists>r. out = OCommitProjectionAction r)"
  "outcome_name out = ''commit_projection_epoch'' \<longleftrightarrow> (\<exists>r. out = OCommitProjectionEpoch r)"
  "outcome_name out = ''get_next_work'' \<longleftrightarrow> (\<exists>r. out = OGetNextWork r)"
  "outcome_name out = ''read_outbox'' \<longleftrightarrow> (\<exists>r. out = OReadOutbox r)"
  "outcome_name out = ''release_outbox'' \<longleftrightarrow> (\<exists>r. out = OReleaseOutbox r)"
  "outcome_name out = ''trim_outbox'' \<longleftrightarrow> (\<exists>r. out = OTrimOutbox r)"
  "outcome_name out = ''read_stable_cursor'' \<longleftrightarrow> (\<exists>r. out = OReadStableCursor r)"
  "outcome_name out = ''read_stable_namespace'' \<longleftrightarrow> (\<exists>r. out = OReadStableNamespace r)"
  "outcome_name out = ''apply_shared_message_batch'' \<longleftrightarrow> (\<exists>r. out = OApplySharedMessageBatch r)"
  by (cases out; simp)+

lemma pending_name_iff:
  "pending_name kind = ''apply_init_scan'' \<longleftrightarrow> (\<exists>r. kind = PApplyInitScan r)"
  "pending_name kind = ''apply_scan'' \<longleftrightarrow> (\<exists>r. kind = PApplyScan r)"
  "pending_name kind = ''commit_import_action'' \<longleftrightarrow> (\<exists>r. kind = PCommitImportAction r)"
  "pending_name kind = ''commit_import_epoch'' \<longleftrightarrow> (\<exists>r. kind = PCommitImportEpoch r)"
  "pending_name kind = ''commit_projection_action'' \<longleftrightarrow> (\<exists>r. kind = PCommitProjectionAction r)"
  "pending_name kind = ''commit_projection_epoch'' \<longleftrightarrow> (\<exists>r. kind = PCommitProjectionEpoch r)"
  "pending_name kind = ''get_next_work'' \<longleftrightarrow> (\<exists>r. kind = PGetNextWork r)"
  "pending_name kind = ''read_outbox'' \<longleftrightarrow> (\<exists>r. kind = PReadOutbox r)"
  "pending_name kind = ''release_outbox'' \<longleftrightarrow> (\<exists>r. kind = PReleaseOutbox r)"
  "pending_name kind = ''trim_outbox'' \<longleftrightarrow> kind = PTrimOutbox"
  "pending_name kind = ''read_stable_cursor'' \<longleftrightarrow> (\<exists>r. kind = PReadStableCursor r)"
  "pending_name kind = ''read_stable_namespace'' \<longleftrightarrow> (\<exists>r. kind = PReadStableNamespace r)"
  "pending_name kind = ''apply_shared_message_batch'' \<longleftrightarrow> (\<exists>r. kind = PApplySharedMessageBatch r)"
  by (cases kind; simp)+

lemma conclude_failed: "conclude_action reply (Inl e) f a =
    (case reply of Some r \<Rightarrow> Inr (send_reply r (RUnit (Inl e)) a) | None \<Rightarrow> Inl e)"
  by (simp add: conclude_action_def split: option.splits)

definition task_error :: "task_outcome \<Rightarrow> error \<Rightarrow> bool" where
  "task_error outcome e \<longleftrightarrow>
     outcome = OTrimOutbox (Inl e) \<or> outcome = OCommitImportAction (Inl e) \<or> outcome = OCommitProjectionAction (Inl e)"

text \<open>What the reviewed branches have in common: the idle actor answers, installs a plan, or
  completes an action.\<close>

lemma finish_pending_ok:
  assumes "idle a" and "actor_ok a" and "task_ok (act_runtime a) task" and "outcome_fits task outcome"
    and "outcome_name outcome = task_name task" and "pending_name kind = task_name task"
  shows "(\<exists>a'. finish_pending outcome kind a = Inr a' \<and> actor_ok a') \<or>
    (\<exists>e. finish_pending outcome kind a = Inl e \<and> task_error outcome e)"
proof -
  note reply = idle_ok_reply [OF assms(1,2)]
  show ?thesis
  proof (cases task)
    case (TApplyInitScan scan epoch)
    with assms(5,6) obtain res r where o: "outcome = OApplyInitScan res" "kind = PApplyInitScan r"
      by (auto simp: outcome_name_iff pending_name_iff)
    show ?thesis
    proof (cases res)
      case (Inl e)
      with o reply show ?thesis by simp
    next
      case (Inr st)
      with o TApplyInitScan assms(3,4) idle_ok_install_import [OF assms(1,2), of st Init] obtain rt where
        "install_import_epoch st Init (act_runtime a) = Inr rt" "actor_ok (a\<lparr>act_runtime := rt\<rparr>)"
        by (auto simp: outcome_fits_def task_ok_def)
      with o Inr idle_ok_reply [of "a\<lparr>act_runtime := rt\<rparr>"] assms(1) show ?thesis by (simp add: idle_def)
    qed
  next
    case (TApplyScan scan epoch)
    with assms(5,6) obtain res r where o: "outcome = OApplyScan res" "kind = PApplyScan r"
      by (auto simp: outcome_name_iff pending_name_iff)
    show ?thesis
    proof (cases res)
      case (Inl e)
      with o reply show ?thesis by simp
    next
      case (Inr w)
      obtain work eff where w: "w = (work, eff)" by (cases w)
      show ?thesis
      proof (cases "emit eff a")
        case (Inl e)
        with o Inr w reply show ?thesis by simp
      next
        case (Inr a1)
        note a1 = emit_simps [OF Inr]
        have ok: "idle a1 \<and> actor_ok a1" by (rule idle_ok_cong [OF assms(1,2)]) (use a1 in simp_all)
        then have i1: "idle a1" "actor_ok a1" by simp_all
        have "\<exists>rt. (case work of Import st \<Rightarrow> install_import_epoch st Sync (act_runtime a1) | _ \<Rightarrow> Inr (act_runtime a1)) =
            Inr rt \<and> actor_ok (a1\<lparr>act_runtime := rt\<rparr>)"
        proof (cases work)
          case NoWork
          with i1 show ?thesis by (intro exI [of _ "act_runtime a1"]) simp
        qed (use o w \<open>res = Inr w\<close> TApplyScan assms(3,4) a1 idle_ok_install_import [OF i1, where kind = Sync] in
            \<open>simp_all add: outcome_fits_def task_ok_def\<close>)
        then obtain rt where "(case work of Import st \<Rightarrow> install_import_epoch st Sync (act_runtime a1) | _ \<Rightarrow> Inr (act_runtime a1)) =
            Inr rt" "actor_ok (a1\<lparr>act_runtime := rt\<rparr>)" by blast
        with o w \<open>res = Inr w\<close> Inr idle_ok_reply [of "a1\<lparr>act_runtime := rt\<rparr>"] i1(1) show ?thesis by (simp add: idle_def)
      qed
    qed
  next
    case (TGetNextWork epoch)
    with assms(5,6) obtain res r where o: "outcome = OGetNextWork res" "kind = PGetNextWork r"
      by (auto simp: outcome_name_iff pending_name_iff)
    have "\<exists>rt. (case res of Inr (Project st) \<Rightarrow> install_projection_epoch st (act_runtime a) | _ \<Rightarrow> Inr (act_runtime a)) =
        Inr rt \<and> actor_ok (a\<lparr>act_runtime := rt\<rparr>)"
      using o TGetNextWork assms(2,3,4) idle_ok_install_projection [OF assms(1,2)]
      by (auto simp: outcome_fits_def task_ok_def split: sum.splits next_work.splits)
    then obtain rt where "(case res of Inr (Project st) \<Rightarrow> install_projection_epoch st (act_runtime a) | _ \<Rightarrow> Inr (act_runtime a)) =
        Inr rt" "actor_ok (a\<lparr>act_runtime := rt\<rparr>)" by blast
    with o idle_ok_reply [of "a\<lparr>act_runtime := rt\<rparr>"] assms(1) show ?thesis by (simp add: idle_def)
  next
    case (TCommitImportAction ctx result)
    with assms(5,6) obtain res r where o: "outcome = OCommitImportAction res" "kind = PCommitImportAction r"
      by (auto simp: outcome_name_iff pending_name_iff)
    show ?thesis
    proof (cases res)
      case (Inl e)
      with o reply show ?thesis by (cases r) (simp_all add: conclude_failed task_error_def)
    next
      case (Inr action)
      with o TCommitImportAction assms(3,4) complete_import_action [OF assms(1,2), of result ctx r] show ?thesis
        by (auto simp: outcome_fits_def task_ok_def)
    qed
  next
    case (TCommitProjectionAction ctx result)
    with assms(5,6) obtain res r where o: "outcome = OCommitProjectionAction res" "kind = PCommitProjectionAction r"
      by (auto simp: outcome_name_iff pending_name_iff)
    show ?thesis
    proof (cases res)
      case (Inl e)
      with o reply show ?thesis by (cases r) (simp_all add: conclude_failed task_error_def)
    next
      case (Inr action)
      with o TCommitProjectionAction assms(3,4) complete_projection_action [OF assms(1,2), of result ctx r] show ?thesis
        by (auto simp: outcome_fits_def task_ok_def)
    qed
  next
    case (TTrimOutbox n)
    with assms(5,6) obtain res where o: "outcome = OTrimOutbox res" "kind = PTrimOutbox"
      by (auto simp: outcome_name_iff pending_name_iff)
    with assms(2) show ?thesis by (cases res) (simp_all add: task_error_def)
  qed (use assms(5,6) reply idle_ok_after_emit [OF assms(1,2)] in
      \<open>auto simp: outcome_name_iff pending_name_iff\<close>)
qed

lemma lane_ok_Cons:
  assumes "act_running a = (op, task) # rest"
  shows "lane_ok a \<longleftrightarrow> rest = [] \<and> (\<exists>kind. act_pending a = [(op, kind)] \<and> pending_name kind = task_name task) \<and>
    op < act_next_op_id a \<and> task_ok (act_runtime a) task"
  using assms by (cases rest; cases "act_pending a" rule: remdups_adj.cases) (auto simp: lane_ok_def)

lemma semantic_turn_done:
  assumes "actor_ok a" and "act_running a = (op, task) # rest" and "run_task X i task d = (outcome, d')"
    and "\<not> outcome_panics outcome"
  shows "(\<exists>a'. semantic_turn X (TaskDone i) (a, d) = Inr (a', d') \<and> actor_ok a') \<or>
    (\<exists>e. semantic_turn X (TaskDone i) (a, d) = Inl e \<and> task_error outcome e)"
proof -
  from assms(1,2) obtain kind where lane: "rest = []" "act_pending a = [(op, kind)]" "pending_name kind = task_name task"
    "task_ok (act_runtime a) task"
    by (auto simp: actor_ok_def lane_ok_Cons)
  let ?a = "a\<lparr>act_running := [], act_pending := []\<rparr>"
  have fin: "finish_task_result (op, outcome) (a\<lparr>act_running := rest\<rparr>) = finish_pending outcome kind ?a"
    using lane by (simp add: finish_task_result_def bt_get_def)
  have "idle ?a" by (simp add: idle_def)
  moreover have "actor_ok ?a"
    using assms(1) by (auto simp: actor_ok_def lane_ok_def [of ?a] deferred_ok_iff import_wait_def projection_wait_def)
  ultimately have "(\<exists>a'. finish_pending outcome kind ?a = Inr a' \<and> actor_ok a') \<or>
      (\<exists>e. finish_pending outcome kind ?a = Inl e \<and> task_error outcome e)"
    using lane run_task_name [OF assms(3)] run_task_fits [OF assms(3)] by (intro finish_pending_ok) simp_all
  with assms(2,3,4) fin show ?thesis by (auto simp: semantic_turn_def)
qed

section \<open>Reachable states\<close>

inductive semantic_reachable :: "('d, 'sv) ext \<Rightarrow> db \<Rightarrow> semantic_actor \<times> db \<Rightarrow> bool" for X d0 where
  start: "semantic_reachable X d0 (semantic_actor_new, d0)"
| turn: "semantic_reachable X d0 s \<Longrightarrow> semantic_turn X t s = Inr s' \<Longrightarrow> semantic_reachable X d0 s'"

lemma actor_new_ok: "actor_ok semantic_actor_new"
  by (simp add: actor_ok_def semantic_actor_new_def runtime_default_def runtime_ok_def lane_ok_def deferred_ok_def)

lemma semantic_turn_preserves:
  assumes "actor_ok a" and "semantic_turn X t (a, d) = Inr (a', d')"
  shows "actor_ok a'"
proof (cases t)
  case (TakeRequest request)
  show ?thesis
  proof (cases "act_running a")
    case Nil
    with TakeRequest assms(2) have start: "start_request request a = Inr a'" by (auto simp: semantic_turn_def res_simps)
    with start_request_refused [OF assms(1)] have "admissible request a" by fastforce
    from start_request_ok [OF assms(1) Nil this] start show ?thesis by simp
  next
    case (Cons r rs)
    with TakeRequest assms show ?thesis by (simp add: semantic_turn_def)
  qed
next
  case (TaskDone i)
  show ?thesis
  proof (cases "act_running a")
    case Nil
    with TaskDone assms show ?thesis by (simp add: semantic_turn_def)
  next
    case (Cons r rs)
    obtain op task where r: "r = (op, task)" by (cases r)
    obtain outcome d'' where run: "run_task X i task d = (outcome, d'')" by (cases "run_task X i task d")
    with TaskDone Cons r assms(2) have "\<not> outcome_panics outcome" by (auto simp: semantic_turn_def split: if_splits)
    from semantic_turn_done [OF assms(1) Cons [unfolded r] run this] assms(2) TaskDone show ?thesis by auto
  qed
qed

lemma reachable_ok: "semantic_reachable X d0 s \<Longrightarrow> actor_ok (fst s)"
proof (induction rule: semantic_reachable.induct)
  case start
  then show ?case by (simp add: actor_new_ok)
next
  case (turn s t s')
  then show ?case using semantic_turn_preserves by (cases s; cases s') auto
qed

section \<open>Lemmas: a whole epoch\<close>

lemma bt_wf_numbered: "numbered epoch (map key xs) \<Longrightarrow> bt_wf (map (\<lambda>x. (key x, val x)) xs)"
proof -
  assume n: "numbered epoch (map key xs)"
  have "sorted_wrt (<) (map (Pair epoch) [0..<k])" for k
    by (induction k) (auto simp: sorted_wrt_append)
  with n show ?thesis unfolding numbered_def bt_wf_def by (simp add: comp_def)
qed

lemma expect_fold_list:
  assumes "numbered epoch (map key xs)"
  shows "fold_res (expect_action epoch key val) xs [] = Inr (map (\<lambda>x. (key x, val x)) xs)"
proof -
  from expect_fold [OF assms, of val] obtain m where m: "fold_res (expect_action epoch key val) xs [] = Inr m" "bt_wf m"
    "bt_get m = map_of (map (\<lambda>x. (key x, val x)) xs)" by blast
  have "m = map (\<lambda>x. (key x, val x)) xs"
    by (rule bt_eqI [OF m(2) bt_wf_numbered [OF assms]]) (use m(3) in \<open>simp add: bt_get_def [abs_def]\<close>)
  with m show ?thesis by simp
qed

lemma finish_imports:
  assumes "rt_active_import rt = Some e" and "distinct ids" and "\<forall>i\<in>set ids. fst i = aie_epoch e \<and> bt_get (aie_expected e) i \<noteq> None"
    and "set ids \<inter> dom (bt_get (aie_completed e)) = {}"
  shows "fold_res finish_import_action ids rt =
    Inr (rt\<lparr>rt_active_import := Some (e\<lparr>aie_completed := fold (\<lambda>i. bt_insert i ()) ids (aie_completed e)\<rparr>)\<rparr>)"
  using assms
proof (induction ids arbitrary: rt e)
  case Nil
  then show ?case by simp
next
  case (Cons i ids)
  let ?e = "e\<lparr>aie_completed := bt_insert i () (aie_completed e)\<rparr>"
  have "bt_get (aie_completed e) i = None" using Cons.prems(4) by auto
  then have step: "finish_import_action i rt = Inr (rt\<lparr>rt_active_import := Some ?e\<rparr>)"
    using Cons.prems(1,3) by (simp add: finish_import_action_def)
  have "set ids \<inter> dom (bt_get (aie_completed ?e)) = {}" using Cons.prems(2,4) by (auto simp: bt_get_insert)
  with Cons.IH [of "rt\<lparr>rt_active_import := Some ?e\<rparr>" ?e] Cons.prems(2,3) step show ?case by simp
qed

lemma fold_insert_keys:
  assumes "bt_wf m"
  shows "bt_wf (fold (\<lambda>i. bt_insert i ()) ids m) \<and>
    set (map fst (fold (\<lambda>i. bt_insert i ()) ids m)) = set (map fst m) \<union> set ids"
  using assms
proof (induction ids arbitrary: m)
  case Nil
  then show ?case by simp
next
  case (Cons i ids)
  from Cons.IH [OF bt_wf_insert [OF Cons.prems]] show ?case
    using bt_keys_insert [of i "()" m] by (auto simp: bt_keys_def)
qed

section \<open>Properties\<close>

text \<open>(C36) In every reachable state of the semantic actor at most one task runs, it is the one pending
  operation and of the same kind, the active epochs only hold expected actions as completed, and
  a deferred epoch commit waits for an epoch that is active and incomplete.\<close>

theorem semantic_actor_invariant:
  assumes "semantic_reachable X d0 (a, d)"
  shows "map fst (act_running a) = map fst (act_pending a) \<and> length (act_running a) \<le> 1 \<and> runtime_ok (act_runtime a) \<and>
    deferred_ok a"
  using reachable_ok [OF assms]
  by (cases "act_running a") (auto simp: actor_ok_def lane_ok_Cons, simp add: lane_ok_def)

text \<open>An actor that was asked for the stable cursor, and a service call without faults.\<close>

definition demo_actor :: semantic_actor where
  "demo_actor = start_op (PReadStableCursor 0) TReadStableCursor semantic_actor_new"

definition demo_input :: service_input where
  "demo_input = \<lparr>si_pool_fault = None, si_begin_fault = \<lambda>_. None, si_commit_fault = \<lambda>_. None, si_now = \<lambda>_. 1,
     si_object_id = \<lambda>_. ''o'', si_claim_id = \<lambda>_. ''c'', si_client_id = \<lambda>_. 1\<rparr>"

lemma demo_actor_reachable: "semantic_reachable demo_ns_ext demo_work_db (demo_actor, demo_work_db)"
  by (rule semantic_reachable.turn [OF semantic_reachable.start, where t = "TakeRequest (ReadStableCursor 0)"])
    (simp add: semantic_turn_def demo_actor_def semantic_actor_new_def)

lemma demo_actor_running: "act_running demo_actor = [(0, TReadStableCursor)]"
  by (simp add: demo_actor_def start_op_def semantic_actor_new_def)

lemma demo_cursor_run:
  "run_task demo_ns_ext demo_input TReadStableCursor demo_work_db = (OReadStableCursor (Inr 0), demo_work_db)"
  by (simp add: service_exec_def demo_input_def exec_tx_def exec_tx_from.simps demo_work_db_def demo_outbox_db_def
      demo_daemon_state_def select_stable_cursor_def)

theorem semantic_actor_invariant_witness:
  "map fst (act_running demo_actor) = map fst (act_pending demo_actor) \<and> runtime_ok (act_runtime demo_actor)"
  using semantic_actor_invariant [OF demo_actor_reachable] by simp

text \<open>(C35) Finishing a task never fails on the actor's own bookkeeping: unless the task itself panicked,
  the actor carries on, or it stops with an error the task reported and nobody was waiting for.\<close>

theorem semantic_finish_safe:
  assumes "semantic_reachable X d0 (a, d)" and "act_running a = (op, task) # rest"
    and "run_task X i task d = (outcome, d')" and "\<not> outcome_panics outcome"
  shows "(\<exists>a'. semantic_turn X (TaskDone i) (a, d) = Inr (a', d') \<and> semantic_reachable X d0 (a', d')) \<or>
    (\<exists>e. semantic_turn X (TaskDone i) (a, d) = Inl e \<and> task_error outcome e)"
  using semantic_turn_done [OF _ assms(2-4)] reachable_ok [OF assms(1)] semantic_reachable.turn [OF assms(1)] by fastforce

theorem semantic_finish_safe_witness:
  "\<exists>a'. semantic_turn demo_ns_ext (TaskDone demo_input) (demo_actor, demo_work_db) = Inr (a', demo_work_db)"
  using semantic_finish_safe [OF demo_actor_reachable demo_actor_running demo_cursor_run] by (auto simp: task_error_def)

text \<open>(C37) A request taken by an idle reachable actor panics exactly when it breaks the protocol: planning
  while an epoch is active, an action that is unknown or already completed, the commit of another
  epoch or a second commit of the same one. Every other request is accepted.\<close>

theorem semantic_request_panics_iff:
  assumes "semantic_reachable X d0 (a, d)" and "act_running a = []"
  shows "(semantic_turn X (TakeRequest request) (a, d) = Inl Panicked \<longleftrightarrow> \<not> admissible request a) \<and>
    (admissible request a \<longrightarrow> (\<exists>a'. semantic_turn X (TakeRequest request) (a, d) = Inr (a', d)))"
proof -
  have ok: "actor_ok a" using reachable_ok [OF assms(1)] by simp
  have turn: "semantic_turn X (TakeRequest request) (a, d) = map_ok (\<lambda>a'. (a', d)) (start_request request a)"
    using assms(2) by (simp add: semantic_turn_def)
  show ?thesis
    using start_request_ok [OF ok assms(2), of request] start_request_refused [OF ok, of request] unfolding turn
    by (cases "admissible request a") auto
qed

theorem semantic_request_panics_iff_witness:
  "semantic_turn demo_ns_ext (TakeRequest (CommitImportEpoch 0 1)) (semantic_actor_new, demo_work_db) = Inl Panicked \<and>
   (\<exists>a'. semantic_turn demo_ns_ext (TakeRequest (GetNextWork 1)) (semantic_actor_new, demo_work_db) = Inr (a', demo_work_db))"
  using semantic_request_panics_iff [OF semantic_reachable.start [of demo_ns_ext demo_work_db], of "CommitImportEpoch 0 1"]
    semantic_request_panics_iff [OF semantic_reachable.start [of demo_ns_ext demo_work_db], of "GetNextWork 1"]
  by (simp add: semantic_actor_new_def runtime_default_def admissible_def)

text \<open>(C38) An import epoch whose actions are completed once each, in any order, is closed with exactly
  the planned actions in the order of the plan, and leaves the runtime as it was before.\<close>

theorem import_epoch_round:
  assumes "rt_active_import rt = None" and "numbered (ies_epoch s) (map ia_id (ies_actions s))"
    and "distinct ids" and "set ids = set (map ia_id (ies_actions s))"
  shows "bind_res (install_import_epoch s kind rt) (\<lambda>rt1. bind_res (fold_res finish_import_action ids rt1)
      (finish_import_epoch (ies_epoch s))) =
    Inr (\<lparr>cie_epoch = ies_epoch s, cie_kind = kind,
          cie_actions = map (\<lambda>a. \<lparr>cia_action_id = ia_id a, cia_action_kind = ia_kind a\<rparr>) (ies_actions s)\<rparr>, rt)"
proof -
  let ?x = "map (\<lambda>a. (ia_id a, ia_kind a)) (ies_actions s)"
  let ?e = "\<lparr>aie_epoch = ies_epoch s, aie_kind = kind, aie_expected = ?x, aie_completed = []\<rparr>"
  let ?rt1 = "rt\<lparr>rt_active_import := Some ?e\<rparr>"
  let ?c = "fold (\<lambda>i. bt_insert i ()) ids []"
  have inst: "install_import_epoch s kind rt = Inr ?rt1"
    using assms(1) expect_fold_list [OF assms(2), of ia_kind] by (simp add: install_import_epoch_def)
  have keys: "\<forall>i\<in>set ids. fst i = aie_epoch ?e \<and> bt_get (aie_expected ?e) i \<noteq> None"
    using numbered_epoch [OF assms(2)] assms(4) by (auto simp: bt_get_def map_of_eq_None_iff image_image)
  have run: "fold_res finish_import_action ids ?rt1 = Inr (?rt1\<lparr>rt_active_import := Some (?e\<lparr>aie_completed := ?c\<rparr>)\<rparr>)"
    using finish_imports [of ?rt1 ?e ids] assms(3) keys by simp
  have c: "bt_wf ?c" "set (map fst ?c) = set ids" using fold_insert_keys [of "[]" ids] by simp_all
  have "length ?c = length ?x"
    using c(2) assms(4) bt_wf_distinct [OF c(1)] numbered_distinct [OF assms(2)] by (metis distinct_card length_map)
  moreover have "set (map fst ?x) \<subseteq> dom (bt_get ?c)" using c(2) assms(4) by (simp add: dom_bt_get image_image)
  moreover have "distinct (map fst ?x)" using numbered_distinct [OF assms(2)] by (simp add: comp_def)
  ultimately have "finish_import_epoch (ies_epoch s) (?rt1\<lparr>rt_active_import := Some (?e\<lparr>aie_completed := ?c\<rparr>)\<rparr>) =
      Inr (\<lparr>cie_epoch = ies_epoch s, cie_kind = kind,
          cie_actions = map (\<lambda>a. \<lparr>cia_action_id = ia_id a, cia_action_kind = ia_kind a\<rparr>) (ies_actions s)\<rparr>, rt)"
    using take_imports [OF c(1), of ?x "[]"] assms(1) by (auto simp: finish_import_epoch_def comp_def)
  with inst run show ?thesis by simp
qed

definition demo_import_plan :: import_epoch_started where
  "demo_import_plan = \<lparr>ies_epoch = 4, ies_actions =
     [\<lparr>ia_id = (4, 0), ia_kind = Stat (RelativePath [''a''])\<rparr>, \<lparr>ia_id = (4, 1), ia_kind = Stat (RelativePath [''b''])\<rparr>]\<rparr>"

theorem import_epoch_round_witness:
  "bind_res (install_import_epoch demo_import_plan Sync runtime_default) (\<lambda>rt1.
     bind_res (fold_res finish_import_action [(4, 1), (4, 0)] rt1) (finish_import_epoch 4)) =
   Inr (\<lparr>cie_epoch = 4, cie_kind = Sync, cie_actions =
     [\<lparr>cia_action_id = (4, 0), cia_action_kind = Stat (RelativePath [''a''])\<rparr>,
      \<lparr>cia_action_id = (4, 1), cia_action_kind = Stat (RelativePath [''b''])\<rparr>]\<rparr>, runtime_default)"
  using import_epoch_round [of runtime_default demo_import_plan "[(4, 1), (4, 0)]" Sync]
  by (simp add: demo_import_plan_def runtime_default_def numbered_def insert_commute)

text \<open>A projection epoch that is invalidated before all its actions completed is closed with the
  completed ones in plan order, each with its own commit context and result; when the plan was
  exhausted it is closed only if every action completed.\<close>

theorem projection_epoch_round:
  assumes "runtime_ok rt" and "rt_active_projection rt = Some e"
  shows "finish_projection_epoch (ape_epoch e) reason rt =
    (if reason = PlanExhausted \<and> set (map fst (ape_completed e)) \<noteq> set (map fst (ape_expected e)) then Inl Panicked
     else Inr (\<lparr>cpe_epoch = ape_epoch e, cpe_generation = ape_generation e,
          cpe_target_namespace_doc_blob = ape_target_namespace_doc_blob e,
          cpe_actions = List.map_filter (\<lambda>(i, c). map_option (\<lambda>r. \<lparr>cpa_action_id = i, cpa_commit_context = c,
            cpa_result = r\<rparr>) (bt_get (ape_completed e) i)) (ape_expected e)\<rparr>,
         rt\<lparr>rt_active_projection := None\<rparr>))"
proof -
  have l: "ledger_ok (ape_epoch e) (ape_expected e) (ape_completed e)" using assms by (simp add: runtime_ok_def)
  note c = ledger_complete_iff [OF l]
  show ?thesis
  proof (cases "reason = PlanExhausted \<longrightarrow> length (ape_completed e) = length (ape_expected e)")
    case True
    with finish_projection_epoch_ok [OF assms refl True] c show ?thesis by auto
  next
    case False
    with assms(2) c show ?thesis by (auto simp: finish_projection_epoch_def Let_def)
  qed
qed

definition demo_context :: commit_context where
  "demo_context = \<lparr>cc_path = RelativePath [''a''], cc_claimed_path = RelativePath [''a''], cc_claim_id = ''c'',
     cc_object_id = ''o'', cc_target_text_doc_blob = None\<rparr>"

definition demo_projection_epoch :: active_projection_epoch where
  "demo_projection_epoch = \<lparr>ape_epoch = 7, ape_generation = 1, ape_target_namespace_doc_blob = ''ns'',
     ape_expected = [((7, 0), demo_context), ((7, 1), demo_context)],
     ape_completed = [((7, 1), DeleteFileResult (7, 1) Deleted)]\<rparr>"

definition demo_projection_runtime :: semantic_runtime_state where
  "demo_projection_runtime = runtime_default\<lparr>rt_next_projection_epoch := 8,
     rt_active_projection := Some demo_projection_epoch\<rparr>"

theorem projection_epoch_round_witness:
  "finish_projection_epoch 7 PlanExhausted demo_projection_runtime = Inl Panicked \<and>
   map_ok (map cpa_action_id \<circ> cpe_actions \<circ> fst)
     (finish_projection_epoch 7 (ActionInvalidatedProjection (7, 1)) demo_projection_runtime) = Inr [(7, 1)]"
proof -
  have "runtime_ok demo_projection_runtime"
    by (simp add: demo_projection_runtime_def demo_projection_epoch_def runtime_default_def runtime_ok_def ledger_ok_def bt_wf_def)
  moreover have "rt_active_projection demo_projection_runtime = Some demo_projection_epoch"
    by (simp add: demo_projection_runtime_def)
  ultimately show ?thesis
    using projection_epoch_round [of demo_projection_runtime demo_projection_epoch PlanExhausted]
      projection_epoch_round [of demo_projection_runtime demo_projection_epoch "ActionInvalidatedProjection (7, 1)"]
    by (simp add: demo_projection_epoch_def List.map_filter_simps bt_get_def)
qed

end
