(* ===== verification/Clients.thy ===== *)
theory Clients
  imports Semantic_Actor
begin

text \<open>
  The engine's clients, \<open>fs/client.rs\<close> and \<open>semantic/client.rs\<close>, and the status types of
  \<open>app/connectivity.rs\<close>. A client sends a request on a channel and keeps a future that turns the
  reply into a response; here the future is an entry of the pending list, and a reply that is not
  one the entry waits for cannot be delivered to it. A closed channel is the error \<open>Disconnected\<close>;
  a failed \<open>assert!\<close> or \<open>expect\<close> is \<open>Panicked\<close>.
\<close>

section \<open>The file-system client\<close>

datatype fs_request =
    FsScan scan_scope
  | FsGuardedRead relative_path file_fingerprint
  | FsStat relative_path
  | FsGuardedWrite relative_path bytes expected_before
  | FsGuardedDelete relative_path expected_before
  | FsDeleteIfExists relative_path

datatype fs_pending =
    WaitScan
  | WaitRead action_id
  | WaitStat action_id
  | WaitWrite action_id
  | WaitDelete action_id
  | WaitCleanup relative_path

text \<open>What the file-system actor answers on a reply channel; \<open>FsFailed\<close> is any other error, a
  dropped channel included.\<close>

datatype fs_reply =
    FsScanned scan_result
  | FsRead guarded_read_result
  | FsReadDenied
  | FsStatted "tree_entry option"
  | FsWrote guarded_write_result
  | FsDeleted guarded_delete_result
  | FsCleaned
  | FsFailed

datatype fs_client_response =
    RespScan "scan_result res"
  | RespImportAction import_action_result
  | RespProjectionAction projection_action_result
  | RespDeleteIfExists relative_path

record fs_client =
  fc_open :: bool
  fc_sent :: "fs_request list"
  fc_pending :: "fs_pending list"
  fc_phase_inflight :: nat
  fc_cleanup_inflight :: nat

definition fs_client_new :: fs_client where
  "fs_client_new = \<lparr>fc_open = True, fc_sent = [], fc_pending = [], fc_phase_inflight = 0, fc_cleanup_inflight = 0\<rparr>"

definition max_cleanup_in_flight :: nat where
  "max_cleanup_in_flight = 16"

definition can_accept_projection :: "fs_client \<Rightarrow> bool" where
  "can_accept_projection c \<longleftrightarrow> fc_phase_inflight c = 0"

definition can_accept_import :: "fs_client \<Rightarrow> bool" where
  "can_accept_import c \<longleftrightarrow> fc_phase_inflight c = 0"

definition can_accept_cleanup :: "fs_client \<Rightarrow> bool" where
  "can_accept_cleanup c \<longleftrightarrow> fc_cleanup_inflight c < max_cleanup_in_flight"

definition fs_send :: "fs_request \<Rightarrow> fs_pending \<Rightarrow> fs_client \<Rightarrow> fs_client res" where
  "fs_send request wait c =
     (if \<not> fc_open c then Inl Disconnected
      else Inr (c\<lparr>fc_sent := fc_sent c @ [request], fc_pending := fc_pending c @ [wait]\<rparr>))"

definition fs_send_phase :: "fs_request \<Rightarrow> fs_pending \<Rightarrow> fs_client \<Rightarrow> fs_client res" where
  "fs_send_phase request wait c =
     map_ok (\<lambda>c'. c'\<lparr>fc_phase_inflight := fc_phase_inflight c' + 1\<rparr>) (fs_send request wait c)"

definition fs_scan :: "scan_scope \<Rightarrow> fs_client \<Rightarrow> fs_client res" where
  "fs_scan scope c = fs_send_phase (FsScan scope) WaitScan c"

definition apply_import_action :: "import_action \<Rightarrow> fs_client \<Rightarrow> fs_client res" where
  "apply_import_action action c =
     (case ia_kind action of
        Read path expected \<Rightarrow> fs_send_phase (FsGuardedRead path expected) (WaitRead (ia_id action)) c
      | Stat path \<Rightarrow> fs_send_phase (FsStat path) (WaitStat (ia_id action)) c)"

definition apply_projection_action :: "projection_action \<Rightarrow> fs_client \<Rightarrow> fs_client res" where
  "apply_projection_action action c =
     (case pa_kind action of
        WriteFile path bytes expected \<Rightarrow>
          fs_send_phase (FsGuardedWrite path bytes expected) (WaitWrite (pa_id action)) c
      | DeleteFile path expected \<Rightarrow>
          fs_send_phase (FsGuardedDelete path expected) (WaitDelete (pa_id action)) c)"

definition delete_if_exists :: "relative_path \<Rightarrow> fs_client \<Rightarrow> fs_client res" where
  "delete_if_exists path c =
     (if \<not> can_accept_cleanup c then Inl Panicked
      else map_ok (\<lambda>c'. c'\<lparr>fc_cleanup_inflight := fc_cleanup_inflight c' + 1\<rparr>)
             (fs_send (FsDeleteIfExists path) (WaitCleanup path) c))"

definition fs_response_of :: "fs_pending \<Rightarrow> fs_reply \<Rightarrow> fs_client_response option" where
  "fs_response_of wait reply =
     (case wait of
        WaitScan \<Rightarrow>
          (case reply of FsScanned r \<Rightarrow> Some (RespScan (Inr r)) | FsFailed \<Rightarrow> Some (RespScan (Inl Fatal)) | _ \<Rightarrow> None)
      | WaitRead i \<Rightarrow>
          (case reply of
             FsRead r \<Rightarrow> Some (RespImportAction (ReadResult i (Completed r)))
           | FsReadDenied \<Rightarrow> Some (RespImportAction (ReadResult i ReadPermissionDenied))
           | FsFailed \<Rightarrow> Some (RespImportAction (ReadResult i ReadFailed))
           | _ \<Rightarrow> None)
      | WaitStat i \<Rightarrow>
          (case reply of
             FsStatted _ \<Rightarrow> Some (RespImportAction (StatResult i))
           | FsFailed \<Rightarrow> Some (RespImportAction (StatResult i))
           | _ \<Rightarrow> None)
      | WaitWrite i \<Rightarrow>
          (case reply of
             FsWrote r \<Rightarrow> Some (RespProjectionAction (WriteFileResult i r))
           | FsFailed \<Rightarrow> Some (RespProjectionAction (ProjectionFailed i))
           | _ \<Rightarrow> None)
      | WaitDelete i \<Rightarrow>
          (case reply of
             FsDeleted r \<Rightarrow> Some (RespProjectionAction (DeleteFileResult i r))
           | FsFailed \<Rightarrow> Some (RespProjectionAction (ProjectionFailed i))
           | _ \<Rightarrow> None)
      | WaitCleanup path \<Rightarrow>
          (case reply of
             FsCleaned \<Rightarrow> Some (RespDeleteIfExists path)
           | FsFailed \<Rightarrow> Some (RespDeleteIfExists path)
           | _ \<Rightarrow> None))"

text \<open>\<open>checked_sub(1).expect(..)\<close>\<close>

definition checked_pred :: "nat \<Rightarrow> nat res" where
  "checked_pred n = (if n = 0 then Inl Panicked else Inr (n - 1))"

text \<open>The future at position \<open>k\<close> of the pending list completes with the given response.\<close>

definition drop_nth :: "nat \<Rightarrow> 'a list \<Rightarrow> 'a list" where
  "drop_nth k xs = take k xs @ drop (Suc k) xs"

definition fs_client_next :: "nat \<Rightarrow> fs_client_response \<Rightarrow> fs_client \<Rightarrow> fs_client res" where
  "fs_client_next k response c =
     (let c1 = c\<lparr>fc_pending := drop_nth k (fc_pending c)\<rparr>
      in (case response of
            RespDeleteIfExists _ \<Rightarrow>
              map_ok (\<lambda>n. c1\<lparr>fc_cleanup_inflight := n\<rparr>) (checked_pred (fc_cleanup_inflight c))
          | _ \<Rightarrow> map_ok (\<lambda>n. c1\<lparr>fc_phase_inflight := n\<rparr>) (checked_pred (fc_phase_inflight c))))"

section \<open>The semantic client\<close>

datatype semantic_wait =
    WaitApplyInitScan
  | WaitApplyScan
  | WaitCommitImportAction
  | WaitCommitImportEpoch
  | WaitCommitProjectionAction
  | WaitCommitProjectionEpoch
  | WaitGetNextWork nat
  | WaitApplySharedMessageBatch nat nat
  | WaitReadOutbox
  | WaitReleaseOutbox
  | WaitReadStableCursor
  | WaitReadStableNamespace

datatype semantic_client_response =
    CApplyInitScan "next_work res"
  | CApplyScan "next_work res"
  | CCommitImportAction "unit res"
  | CCommitImportEpoch "unit res"
  | CCommitProjectionAction "unit res"
  | CCommitProjectionEpoch "unit res"
  | CGetNextWork nat "next_work res"
  | CApplySharedMessageBatch nat nat "unit res"
  | CReadOutbox "(nat \<times> shared_message) list res"
  | CReleaseOutbox "nat res"
  | CReadStableCursor "nat res"
  | CReadStableNamespace "bytes res"

text \<open>Reply channels are numbered; the next number is fresh.\<close>

record semantic_client =
  sc_open :: bool
  sc_sent :: "semantic_request list"
  sc_pending :: "(reply_id \<times> semantic_wait) list"
  sc_next_reply :: reply_id
  sc_in_flight_apply_shared_message_batch :: nat
  sc_in_flight_read_outbox :: bool

definition semantic_client_new :: semantic_client where
  "semantic_client_new = \<lparr>sc_open = True, sc_sent = [], sc_pending = [], sc_next_reply = 0,
     sc_in_flight_apply_shared_message_batch = 0, sc_in_flight_read_outbox = False\<rparr>"

definition sc_enqueue ::
  "(reply_id \<Rightarrow> semantic_request) \<Rightarrow> semantic_wait \<Rightarrow> semantic_client \<Rightarrow> semantic_client res" where
  "sc_enqueue build wait c =
     (if \<not> sc_open c then Inl Disconnected
      else Inr (c\<lparr>sc_sent := sc_sent c @ [build (sc_next_reply c)],
                  sc_pending := sc_pending c @ [(sc_next_reply c, wait)],
                  sc_next_reply := sc_next_reply c + 1\<rparr>))"

text \<open>A request without a reply channel.\<close>

definition sc_post :: "semantic_request \<Rightarrow> semantic_client \<Rightarrow> semantic_client res" where
  "sc_post request c =
     (if \<not> sc_open c then Inl Disconnected else Inr (c\<lparr>sc_sent := sc_sent c @ [request]\<rparr>))"

definition sc_apply_init_scan :: "scan_result \<Rightarrow> semantic_client \<Rightarrow> semantic_client res" where
  "sc_apply_init_scan scan = sc_enqueue (ApplyInitScan scan) WaitApplyInitScan"

definition sc_apply_scan :: "scan_result \<Rightarrow> semantic_client \<Rightarrow> semantic_client res" where
  "sc_apply_scan scan = sc_enqueue (ApplyScan scan) WaitApplyScan"

definition sc_commit_import_action :: "import_action_result \<Rightarrow> semantic_client \<Rightarrow> semantic_client res" where
  "sc_commit_import_action result = sc_post (CommitImportAction result None)"

definition sc_commit_import_action_checked :: "import_action_result \<Rightarrow> semantic_client \<Rightarrow> semantic_client res" where
  "sc_commit_import_action_checked result =
     sc_enqueue (\<lambda>r. CommitImportAction result (Some r)) WaitCommitImportAction"

definition sc_commit_import_epoch :: "nat \<Rightarrow> semantic_client \<Rightarrow> semantic_client res" where
  "sc_commit_import_epoch epoch = sc_enqueue (CommitImportEpoch epoch) WaitCommitImportEpoch"

definition sc_commit_projection_action :: "projection_action_result \<Rightarrow> semantic_client \<Rightarrow> semantic_client res" where
  "sc_commit_projection_action result = sc_post (CommitProjectionAction result None)"

definition sc_commit_projection_action_checked ::
  "projection_action_result \<Rightarrow> semantic_client \<Rightarrow> semantic_client res" where
  "sc_commit_projection_action_checked result =
     sc_enqueue (\<lambda>r. CommitProjectionAction result (Some r)) WaitCommitProjectionAction"

definition sc_commit_projection_epoch :: "nat \<Rightarrow> end_reason \<Rightarrow> semantic_client \<Rightarrow> semantic_client res" where
  "sc_commit_projection_epoch epoch reason =
     sc_enqueue (CommitProjectionEpoch epoch reason) WaitCommitProjectionEpoch"

definition sc_get_next_work :: "nat \<Rightarrow> semantic_client \<Rightarrow> semantic_client res" where
  "sc_get_next_work boundary = sc_enqueue GetNextWork (WaitGetNextWork boundary)"

definition sc_trim_outbox :: "nat \<Rightarrow> semantic_client \<Rightarrow> semantic_client res" where
  "sc_trim_outbox through = sc_post (TrimOutbox through)"

definition sc_read_outbox :: "nat \<Rightarrow> semantic_client \<Rightarrow> semantic_client res" where
  "sc_read_outbox n c =
     (if sc_in_flight_read_outbox c then Inl Panicked
      else map_ok (\<lambda>c'. c'\<lparr>sc_in_flight_read_outbox := True\<rparr>) (sc_enqueue (ReadOutbox n) WaitReadOutbox c))"

definition sc_release_outbox :: "semantic_client \<Rightarrow> semantic_client res" where
  "sc_release_outbox = sc_enqueue ReleaseOutbox WaitReleaseOutbox"

definition sc_read_stable_cursor :: "semantic_client \<Rightarrow> semantic_client res" where
  "sc_read_stable_cursor = sc_enqueue ReadStableCursor WaitReadStableCursor"

definition sc_read_stable_namespace :: "semantic_client \<Rightarrow> semantic_client res" where
  "sc_read_stable_namespace = sc_enqueue ReadStableNamespace WaitReadStableNamespace"

definition can_accept_apply_shared_message_batch :: "semantic_client \<Rightarrow> bool" where
  "can_accept_apply_shared_message_batch c \<longleftrightarrow> sc_in_flight_apply_shared_message_batch c = 0"

definition sc_apply_shared_message_batch :: "shared_message_batch \<Rightarrow> semantic_client \<Rightarrow> semantic_client res" where
  "sc_apply_shared_message_batch batch c =
     (if \<not> can_accept_apply_shared_message_batch c then Inl Panicked
      else map_ok (\<lambda>c'. c'\<lparr>sc_in_flight_apply_shared_message_batch :=
               sc_in_flight_apply_shared_message_batch c' + 1\<rparr>)
             (sc_enqueue (ApplySharedMessageBatch batch)
               (WaitApplySharedMessageBatch (batch_first batch) (batch_last batch)) c))"

definition semantic_response_of :: "semantic_wait \<Rightarrow> reply_value \<Rightarrow> semantic_client_response option" where
  "semantic_response_of wait v =
     (case wait of
        WaitApplyInitScan \<Rightarrow> (case v of RNextWork r \<Rightarrow> Some (CApplyInitScan r) | _ \<Rightarrow> None)
      | WaitApplyScan \<Rightarrow> (case v of RNextWork r \<Rightarrow> Some (CApplyScan r) | _ \<Rightarrow> None)
      | WaitCommitImportAction \<Rightarrow> (case v of RUnit r \<Rightarrow> Some (CCommitImportAction r) | _ \<Rightarrow> None)
      | WaitCommitImportEpoch \<Rightarrow> (case v of RUnit r \<Rightarrow> Some (CCommitImportEpoch r) | _ \<Rightarrow> None)
      | WaitCommitProjectionAction \<Rightarrow> (case v of RUnit r \<Rightarrow> Some (CCommitProjectionAction r) | _ \<Rightarrow> None)
      | WaitCommitProjectionEpoch \<Rightarrow> (case v of RUnit r \<Rightarrow> Some (CCommitProjectionEpoch r) | _ \<Rightarrow> None)
      | WaitGetNextWork boundary \<Rightarrow> (case v of RNextWork r \<Rightarrow> Some (CGetNextWork boundary r) | _ \<Rightarrow> None)
      | WaitApplySharedMessageBatch first final \<Rightarrow>
          (case v of RUnit r \<Rightarrow> Some (CApplySharedMessageBatch first final r) | _ \<Rightarrow> None)
      | WaitReadOutbox \<Rightarrow> (case v of ROutbox r \<Rightarrow> Some (CReadOutbox r) | _ \<Rightarrow> None)
      | WaitReleaseOutbox \<Rightarrow> (case v of RCount r \<Rightarrow> Some (CReleaseOutbox r) | _ \<Rightarrow> None)
      | WaitReadStableCursor \<Rightarrow> (case v of RCursor r \<Rightarrow> Some (CReadStableCursor r) | _ \<Rightarrow> None)
      | WaitReadStableNamespace \<Rightarrow> (case v of RNamespace r \<Rightarrow> Some (CReadStableNamespace r) | _ \<Rightarrow> None))"

definition semantic_client_next :: "reply_id \<Rightarrow> semantic_client_response \<Rightarrow> semantic_client \<Rightarrow> semantic_client res" where
  "semantic_client_next reply response c =
     (let c1 = c\<lparr>sc_pending := filter (\<lambda>p. fst p \<noteq> reply) (sc_pending c)\<rparr>
      in (case response of
            CApplySharedMessageBatch _ _ _ \<Rightarrow>
              map_ok (\<lambda>n. c1\<lparr>sc_in_flight_apply_shared_message_batch := n\<rparr>)
                (checked_pred (sc_in_flight_apply_shared_message_batch c))
          | CReadOutbox _ \<Rightarrow>
              if \<not> sc_in_flight_read_outbox c then Inl Panicked
              else Inr (c1\<lparr>sc_in_flight_read_outbox := False\<rparr>)
          | _ \<Rightarrow> Inr c1))"

section \<open>Connectivity\<close>

datatype connectivity_role = Reader | Writer

datatype connectivity_overall_state = OverallOnline | OverallReconnecting | OverallOffline | OverallDegraded

datatype link_state = Online | Reconnecting | Offline

record link_status =
  ls_state :: link_state
  ls_last_error :: "string option"
  ls_retry_at_ns :: "time_ns option"

definition link_status_online :: link_status where
  "link_status_online = \<lparr>ls_state = Online, ls_last_error = None, ls_retry_at_ns = None\<rparr>"

definition link_status_reconnecting :: "string option \<Rightarrow> link_status" where
  "link_status_reconnecting last_error =
     \<lparr>ls_state = Reconnecting, ls_last_error = last_error, ls_retry_at_ns = None\<rparr>"

definition link_status_offline :: "string \<Rightarrow> time_ns \<Rightarrow> link_status" where
  "link_status_offline last_error retry_at =
     \<lparr>ls_state = Offline, ls_last_error = Some last_error, ls_retry_at_ns = Some retry_at\<rparr>"

text \<open>\<open>i128\<close> arithmetic saturates far outside the range of timestamps; the remaining time is cut to
  \<open>u64\<close> nanoseconds.\<close>

definition retry_after :: "time_ns \<Rightarrow> link_status \<Rightarrow> nat option" where
  "retry_after now s = map_option (\<lambda>t. min (nat (max (t - now) 0)) u64_max) (ls_retry_at_ns s)"

record connectivity_snapshot =
  cs_overall :: connectivity_overall_state
  cs_reader :: link_status
  cs_writer :: link_status
  cs_updated_at_ns :: time_ns

definition overall_state :: "link_state \<Rightarrow> link_state \<Rightarrow> connectivity_overall_state" where
  "overall_state reader writer =
     (if reader = Online \<and> writer = Online then OverallOnline
      else if reader = Reconnecting \<or> writer = Reconnecting then OverallReconnecting
      else if reader = Offline \<and> writer = Offline then OverallOffline
      else OverallDegraded)"

definition snapshot_from_links :: "time_ns \<Rightarrow> link_status \<Rightarrow> link_status \<Rightarrow> connectivity_snapshot" where
  "snapshot_from_links now reader writer =
     \<lparr>cs_overall = overall_state (ls_state reader) (ls_state writer), cs_reader = reader, cs_writer = writer,
      cs_updated_at_ns = now\<rparr>"

definition snapshot_starting :: "time_ns \<Rightarrow> connectivity_snapshot" where
  "snapshot_starting now = snapshot_from_links now (link_status_reconnecting None) (link_status_reconnecting None)"

end
