(* ===== verification/Engine.thy ===== *)
theory Engine
  imports Clients
begin

text \<open>
  The engine actor, \<open>engine/actor.rs\<close>: the phase machine that turns scans into imports and stable
  changes into projections, outbox reads and releases, the reader and writer links, and one turn
  of its event loop. Every \<open>bail!\<close> is \<open>Fatal\<close>, every assertion \<open>Panicked\<close>, a closed channel
  \<open>Disconnected\<close>. The timers belong to \<open>tokio_muxt\<close>: the engine's arm and cancel calls are recorded,
  and a timer event may arrive as an input. The spy tap, which only observes messages, and the
  tracing are left out. Clock readings are arguments.
\<close>

section \<open>Links\<close>

datatype link_runtime_state = LinkOnline | LinkReconnecting | LinkOffline

record link_runtime =
  lr_state :: link_runtime_state
  lr_last_error :: "string option"
  lr_retry_at :: "time_ns option"
  lr_retry_at_wall :: "time_ns option"

definition lr_new :: link_runtime where
  "lr_new = \<lparr>lr_state = LinkReconnecting, lr_last_error = None, lr_retry_at = None, lr_retry_at_wall = None\<rparr>"

definition lr_online :: "link_runtime \<Rightarrow> link_runtime" where
  "lr_online l = l\<lparr>lr_state := LinkOnline, lr_last_error := None, lr_retry_at := None, lr_retry_at_wall := None\<rparr>"

definition lr_offline :: "string \<Rightarrow> time_ns \<Rightarrow> time_ns \<Rightarrow> link_runtime \<Rightarrow> link_runtime" where
  "lr_offline reason retry_at retry_at_wall l =
     l\<lparr>lr_state := LinkOffline, lr_last_error := Some reason, lr_retry_at := Some retry_at,
       lr_retry_at_wall := Some retry_at_wall\<rparr>"

definition lr_reconnect :: "link_runtime \<Rightarrow> link_runtime" where
  "lr_reconnect l = l\<lparr>lr_state := LinkReconnecting, lr_retry_at := None, lr_retry_at_wall := None\<rparr>"

definition lr_status :: "time_ns \<Rightarrow> link_runtime \<Rightarrow> link_status" where
  "lr_status now l =
     (case lr_state l of
        LinkOnline \<Rightarrow> link_status_online
      | LinkReconnecting \<Rightarrow> link_status_reconnecting (lr_last_error l)
      | LinkOffline \<Rightarrow> link_status_offline
          (case lr_last_error l of Some e \<Rightarrow> e | None \<Rightarrow> ''connection failed'')
          (case lr_retry_at_wall l of Some t \<Rightarrow> t | None \<Rightarrow> now))"

record engine_connectivity =
  ec_reader :: link_runtime
  ec_writer :: link_runtime

definition ec_new :: engine_connectivity where
  "ec_new = \<lparr>ec_reader = lr_new, ec_writer = lr_new\<rparr>"

fun ec_link :: "connectivity_role \<Rightarrow> engine_connectivity \<Rightarrow> link_runtime" where
  "ec_link Reader c = ec_reader c"
| "ec_link Writer c = ec_writer c"

fun ec_update :: "connectivity_role \<Rightarrow> (link_runtime \<Rightarrow> link_runtime) \<Rightarrow> engine_connectivity \<Rightarrow> engine_connectivity" where
  "ec_update Reader f c = c\<lparr>ec_reader := f (ec_reader c)\<rparr>"
| "ec_update Writer f c = c\<lparr>ec_writer := f (ec_writer c)\<rparr>"

definition ec_snapshot :: "time_ns \<Rightarrow> engine_connectivity \<Rightarrow> connectivity_snapshot" where
  "ec_snapshot now c = snapshot_from_links now (lr_status now (ec_reader c)) (lr_status now (ec_writer c))"

section \<open>Scan scopes\<close>

definition subtree_contains_scope :: "relative_path \<Rightarrow> scan_scope \<Rightarrow> bool" where
  "subtree_contains_scope subtree scope =
     (case scope of
        Full \<Rightarrow> False
      | SingleFile path \<Rightarrow> path = subtree \<or> starts_with (as_components path) (as_components subtree)
      | Subtree path \<Rightarrow> path = subtree \<or> starts_with (as_components path) (as_components subtree))"

definition coalesce_scan_scopes :: "scan_scope \<Rightarrow> scan_scope \<Rightarrow> scan_scope" where
  "coalesce_scan_scopes left right =
     (case left of
        Full \<Rightarrow> Full
      | SingleFile left_path \<Rightarrow>
          (case right of
             Full \<Rightarrow> Full
           | SingleFile right_path \<Rightarrow> if left_path = right_path then left else Full
           | Subtree right_path \<Rightarrow> if subtree_contains_scope right_path left then right else Full)
      | Subtree left_path \<Rightarrow>
          (case right of
             Full \<Rightarrow> Full
           | SingleFile _ \<Rightarrow> if subtree_contains_scope left_path right then left else Full
           | Subtree right_path \<Rightarrow>
               if subtree_contains_scope left_path right then left
               else if subtree_contains_scope right_path left then right
               else Full))"

section \<open>Phases and state\<close>

datatype import_phase =
    ImportDispatching nat "import_action list" "action_id set"
  | ImportCommitting nat

datatype projection_phase =
    ProjectionDispatching nat nat "projection_action list" "action_id set"
  | ProjectionDraining nat nat end_reason "action_id set"
  | ProjectionCommitting nat nat

datatype engine_phase =
    Idle
  | AwaitingNextWork nat bool
  | Scanning scan_scope
  | PlanningImport
  | Importing import_phase
  | Projecting projection_phase

datatype engine_phase_status =
    StatusIdle | StatusAwaitingNextWork | StatusScanning | StatusPlanningImport | StatusImporting | StatusProjecting

fun phase_status :: "engine_phase \<Rightarrow> engine_phase_status" where
  "phase_status Idle = StatusIdle"
| "phase_status (AwaitingNextWork _ _) = StatusAwaitingNextWork"
| "phase_status (Scanning _) = StatusScanning"
| "phase_status PlanningImport = StatusPlanningImport"
| "phase_status (Importing _) = StatusImporting"
| "phase_status (Projecting _) = StatusProjecting"

datatype timer_event = SharedMessageBufferDrain | FullScan | ReaderReconnect | WriterReconnect | Stop

datatype timer_call = ArmAt timer_event time_ns | CancelTimer timer_event

datatype log_reader_request = ReaderStatus | ReconnectReader nat

datatype log_writer_request = WriterStatus | ReconnectWriter | Append nat shared_message

datatype log_reader_event =
    ReaderConnected
  | ReaderDisconnected string
  | ReaderTail nat
  | ReaderRead shared_message_envelope
  | ReaderEnded nat

datatype log_writer_response =
    WriterConnected
  | WriterDisconnected string
  | WriterPing
  | WriterDurable nat

text \<open>The configuration the daemon reports, the denormalized cursor included.\<close>

record engine_status_state =
  es_sync_root :: string
  es_workspace_id :: string
  es_basin :: string
  es_daemon_writer_id :: writer_id
  es_stable_cursor :: nat
  es_started_at :: time_ns

record daemon_status =
  dms_workspace_id :: string
  dms_basin :: string
  dms_root :: string
  dms_pid :: nat
  dms_stable_cursor_end :: nat
  dms_daemon_writer_id_b64 :: string
  dms_started_at_ns :: time_ns
  dms_engine_phase :: engine_phase_status
  dms_connectivity :: connectivity_snapshot

datatype engine_command = ScanCommand scan_scope | StatusCommand reply_id | StopCommand reply_id

record engine =
  en_fs :: fs_client
  en_semantic :: semantic_client
  en_log_open :: bool
  en_reader_requests :: "log_reader_request list"
  en_writer_requests :: "log_writer_request list"
  en_timer_calls :: "timer_call list"
  en_status_replies :: "(reply_id \<times> daemon_status) list"
  en_status :: engine_status_state
  en_phase :: engine_phase
  en_cleanup_queue :: "relative_path list"
  en_buffer :: shared_message_buffer
  en_outbox_read_in_flight :: bool
  en_outbox_read_requested :: bool
  en_outbox_release_in_flight :: bool
  en_outbox_release_requested :: bool
  en_reader_reconnect_cursor_in_flight :: bool
  en_connectivity :: engine_connectivity
  en_next_boundary :: nat
  en_pending_scan_scope :: "scan_scope option"

text \<open>Durations in nanoseconds.\<close>

definition max_shared_message_buffer :: nat where "max_shared_message_buffer = 10 * 1000000"
definition full_scan_interval :: int where "full_scan_interval = 120000 * 1000000"
definition reconnect_interval :: int where "reconnect_interval = 5 * 1000000000"
definition stop_response_grace :: int where "stop_response_grace = 50 * 1000000"
definition read_outbox_batch_size :: nat where "read_outbox_batch_size = 1024"

definition engine_new :: "engine_status_state \<Rightarrow> engine" where
  "engine_new status =
     \<lparr>en_fs = fs_client_new, en_semantic = semantic_client_new, en_log_open = True, en_reader_requests = [],
      en_writer_requests = [], en_timer_calls = [], en_status_replies = [], en_status = status, en_phase = Idle,
      en_cleanup_queue = [], en_buffer = smb_new max_shared_message_buffer,
      en_outbox_read_in_flight = False, en_outbox_read_requested = False, en_outbox_release_in_flight = False,
      en_outbox_release_requested = False, en_reader_reconnect_cursor_in_flight = False,
      en_connectivity = ec_new, en_next_boundary = 0, en_pending_scan_scope = None\<rparr>"

definition update_stable_cursor_after_batch :: "nat \<Rightarrow> engine_status_state \<Rightarrow> engine_status_state res" where
  "update_stable_cursor_after_batch final s =
     map_ok (\<lambda>n. s\<lparr>es_stable_cursor := n\<rparr>) (ok_or (checked_add_u64 final 1) Fatal)"

text \<open>\<open>i64::try_from(started_at).expect(..)\<close>\<close>

definition daemon_status_of :: "('d, 'sv) ext \<Rightarrow> nat \<Rightarrow> time_ns \<Rightarrow> engine \<Rightarrow> daemon_status res" where
  "daemon_status_of X pid now e =
     (if \<not> i64_range (es_started_at (en_status e)) then Inl Panicked
      else Inr \<lparr>dms_workspace_id = es_workspace_id (en_status e), dms_basin = es_basin (en_status e),
        dms_root = es_sync_root (en_status e), dms_pid = pid, dms_stable_cursor_end = es_stable_cursor (en_status e),
        dms_daemon_writer_id_b64 = b64_encode X (es_daemon_writer_id (en_status e)),
        dms_started_at_ns = es_started_at (en_status e), dms_engine_phase = phase_status (en_phase e),
        dms_connectivity = ec_snapshot now (en_connectivity e)\<rparr>)"

section \<open>Calls through the clients\<close>

definition with_fs :: "(fs_client \<Rightarrow> fs_client res) \<Rightarrow> engine \<Rightarrow> engine res" where
  "with_fs f e = map_ok (\<lambda>c. e\<lparr>en_fs := c\<rparr>) (f (en_fs e))"

definition with_semantic :: "(semantic_client \<Rightarrow> semantic_client res) \<Rightarrow> engine \<Rightarrow> engine res" where
  "with_semantic f e = map_ok (\<lambda>c. e\<lparr>en_semantic := c\<rparr>) (f (en_semantic e))"

definition send_reader :: "log_reader_request \<Rightarrow> engine \<Rightarrow> engine res" where
  "send_reader r e =
     (if \<not> en_log_open e then Inl Disconnected else Inr (e\<lparr>en_reader_requests := en_reader_requests e @ [r]\<rparr>))"

definition send_writer :: "log_writer_request \<Rightarrow> engine \<Rightarrow> engine res" where
  "send_writer r e =
     (if \<not> en_log_open e then Inl Disconnected else Inr (e\<lparr>en_writer_requests := en_writer_requests e @ [r]\<rparr>))"

definition arm_at :: "timer_event \<Rightarrow> time_ns \<Rightarrow> engine \<Rightarrow> engine" where
  "arm_at ev t e = e\<lparr>en_timer_calls := en_timer_calls e @ [ArmAt ev t]\<rparr>"

definition cancel_timer :: "timer_event \<Rightarrow> engine \<Rightarrow> engine" where
  "cancel_timer ev e = e\<lparr>en_timer_calls := en_timer_calls e @ [CancelTimer ev]\<rparr>"

section \<open>Phase changes\<close>

definition enter_boundary :: "engine \<Rightarrow> engine res" where
  "enter_boundary e =
     (case en_pending_scan_scope e of
        Some scope \<Rightarrow>
          map_ok (\<lambda>e'. e'\<lparr>en_phase := Scanning scope\<rparr>)
            (with_fs (fs_scan scope) (e\<lparr>en_pending_scan_scope := None\<rparr>))
      | None \<Rightarrow>
          let boundary = en_next_boundary e + 1
          in map_ok (\<lambda>e'. e'\<lparr>en_phase := AwaitingNextWork boundary False\<rparr>)
               (with_semantic (sc_get_next_work boundary) (e\<lparr>en_next_boundary := boundary\<rparr>)))"

definition request_scan :: "scan_scope \<Rightarrow> engine \<Rightarrow> engine res" where
  "request_scan scope e =
     (let e1 = e\<lparr>en_pending_scan_scope := Some (case en_pending_scan_scope e of
                   Some pending \<Rightarrow> coalesce_scan_scopes pending scope | None \<Rightarrow> scope)\<rparr>
      in if en_phase e1 = Idle then enter_boundary e1 else Inr e1)"

text \<open>The dispatch loops: the queue shrinks until the client is busy or it is empty.\<close>

fun dispatch_imports ::
  "fs_client \<Rightarrow> import_action list \<Rightarrow> action_id set \<Rightarrow> (fs_client \<times> import_action list \<times> action_id set) res" where
  "dispatch_imports c [] in_flight = Inr (c, [], in_flight)"
| "dispatch_imports c (action # queue) in_flight =
     (if \<not> can_accept_import c then Inr (c, action # queue, in_flight)
      else bind_res (apply_import_action action c) (\<lambda>c'.
        dispatch_imports c' queue (insert (ia_id action) in_flight)))"

fun dispatch_projections ::
  "fs_client \<Rightarrow> projection_action list \<Rightarrow> action_id set \<Rightarrow> (fs_client \<times> projection_action list \<times> action_id set) res" where
  "dispatch_projections c [] in_flight = Inr (c, [], in_flight)"
| "dispatch_projections c (action # plan) in_flight =
     (if \<not> can_accept_projection c then Inr (c, action # plan, in_flight)
      else bind_res (apply_projection_action action c) (\<lambda>c'.
        dispatch_projections c' plan (insert (pa_id action) in_flight)))"

definition dispatch_phase :: "engine \<Rightarrow> engine res" where
  "dispatch_phase e =
     (case en_phase e of
        Importing (ImportDispatching epoch queue in_flight) \<Rightarrow>
          map_ok (\<lambda>(c, queue', in_flight').
              e\<lparr>en_fs := c, en_phase := Importing (ImportDispatching epoch queue' in_flight')\<rparr>)
            (dispatch_imports (en_fs e) queue in_flight)
      | Projecting (ProjectionDispatching epoch generation plan in_flight) \<Rightarrow>
          map_ok (\<lambda>(c, plan', in_flight').
              e\<lparr>en_fs := c, en_phase := Projecting (ProjectionDispatching epoch generation plan' in_flight')\<rparr>)
            (dispatch_projections (en_fs e) plan in_flight)
      | _ \<Rightarrow> Inr e)"

definition commit_phase :: "engine \<Rightarrow> engine res" where
  "commit_phase e =
     (case en_phase e of
        Importing (ImportDispatching epoch queue in_flight) \<Rightarrow>
          if queue = [] \<and> in_flight = {} then
            map_ok (\<lambda>e'. e'\<lparr>en_phase := Importing (ImportCommitting epoch)\<rparr>)
              (with_semantic (sc_commit_import_epoch epoch) e)
          else Inr e
      | Projecting (ProjectionDispatching epoch generation plan in_flight) \<Rightarrow>
          if plan = [] \<and> in_flight = {} then
            map_ok (\<lambda>e'. e'\<lparr>en_phase := Projecting (ProjectionCommitting epoch generation)\<rparr>)
              (with_semantic (sc_commit_projection_epoch epoch PlanExhausted) e)
          else Inr e
      | Projecting (ProjectionDraining epoch generation reason in_flight) \<Rightarrow>
          if in_flight = {} then
            map_ok (\<lambda>e'. e'\<lparr>en_phase := Projecting (ProjectionCommitting epoch generation)\<rparr>)
              (with_semantic (sc_commit_projection_epoch epoch reason) e)
          else Inr e
      | _ \<Rightarrow> Inr e)"

definition drive_phase :: "engine \<Rightarrow> engine res" where
  "drive_phase e = bind_res (dispatch_phase e) commit_phase"

fun dispatch_cleanup :: "fs_client \<Rightarrow> relative_path list \<Rightarrow> (fs_client \<times> relative_path list) res" where
  "dispatch_cleanup c [] = Inr (c, [])"
| "dispatch_cleanup c (path # queue) =
     (if \<not> can_accept_cleanup c then Inr (c, path # queue)
      else bind_res (delete_if_exists path c) (\<lambda>c'. dispatch_cleanup c' queue))"

definition drive_cleanup :: "engine \<Rightarrow> engine res" where
  "drive_cleanup e =
     map_ok (\<lambda>(c, queue). e\<lparr>en_fs := c, en_cleanup_queue := queue\<rparr>) (dispatch_cleanup (en_fs e) (en_cleanup_queue e))"

section \<open>Outbox reads and releases\<close>

definition link_is_online :: "connectivity_role \<Rightarrow> engine \<Rightarrow> bool" where
  "link_is_online role e \<longleftrightarrow> lr_state (ec_link role (en_connectivity e)) = LinkOnline"

definition maybe_start_outbox_read :: "engine \<Rightarrow> engine res" where
  "maybe_start_outbox_read e =
     (if en_outbox_read_requested e \<and> \<not> en_outbox_read_in_flight e \<and> \<not> en_outbox_release_in_flight e \<and>
         \<not> en_outbox_release_requested e \<and> link_is_online Writer e
      then map_ok (\<lambda>e'. e'\<lparr>en_outbox_read_requested := False, en_outbox_read_in_flight := True\<rparr>)
             (with_semantic (sc_read_outbox read_outbox_batch_size) e)
      else Inr e)"

definition request_outbox_read :: "engine \<Rightarrow> engine res" where
  "request_outbox_read e = maybe_start_outbox_read (e\<lparr>en_outbox_read_requested := True\<rparr>)"

definition maybe_start_outbox_release :: "engine \<Rightarrow> engine res" where
  "maybe_start_outbox_release e =
     (if en_outbox_release_requested e \<and> \<not> en_outbox_release_in_flight e
      then map_ok (\<lambda>e'. e'\<lparr>en_outbox_release_requested := False, en_outbox_release_in_flight := True\<rparr>)
             (with_semantic sc_release_outbox e)
      else Inr e)"

definition request_outbox_release :: "engine \<Rightarrow> engine res" where
  "request_outbox_release e = maybe_start_outbox_release (e\<lparr>en_outbox_release_requested := True\<rparr>)"

section \<open>Links going up and down\<close>

definition mark_link_online :: "connectivity_role \<Rightarrow> engine \<Rightarrow> engine" where
  "mark_link_online role e = e\<lparr>en_connectivity := ec_update role lr_online (en_connectivity e)\<rparr>"

definition mark_link_reconnecting :: "connectivity_role \<Rightarrow> engine \<Rightarrow> engine" where
  "mark_link_reconnecting role e = e\<lparr>en_connectivity := ec_update role lr_reconnect (en_connectivity e)\<rparr>"

definition mark_link_disconnected ::
  "time_ns \<Rightarrow> time_ns \<Rightarrow> connectivity_role \<Rightarrow> string \<Rightarrow> engine \<Rightarrow> engine res" where
  "mark_link_disconnected now wall role reason e =
     (let retry_at = now + reconnect_interval;
          retry_at_wall = wall + reconnect_interval;
          e1 = e\<lparr>en_connectivity := ec_update role (lr_offline reason retry_at retry_at_wall) (en_connectivity e)\<rparr>;
          e2 = arm_at (case role of Reader \<Rightarrow> ReaderReconnect | Writer \<Rightarrow> WriterReconnect) retry_at e1
      in if role = Writer then request_outbox_release (e2\<lparr>en_outbox_read_requested := True\<rparr>)
         else Inr e2)"

section \<open>Responses and events\<close>

definition handle_get_next_work_response :: "nat \<Rightarrow> next_work res \<Rightarrow> engine \<Rightarrow> engine res" where
  "handle_get_next_work_response response_boundary result e =
     (case en_phase e of
        AwaitingNextWork boundary dirty \<Rightarrow>
          if response_boundary \<noteq> boundary then Inl Fatal
          else bind_res result (\<lambda>work.
            (case work of
               Project started \<Rightarrow>
                 Inr (e\<lparr>en_phase := Projecting (ProjectionDispatching (pes_epoch started) (pes_generation started)
                   (pes_actions started) {})\<rparr>)
             | Import _ \<Rightarrow> Inl Fatal
             | NoWork \<Rightarrow>
                 if dirty \<or> en_pending_scan_scope e \<noteq> None then enter_boundary e
                 else Inr (e\<lparr>en_phase := Idle\<rparr>)))
      | _ \<Rightarrow> Inl Fatal)"

definition handle_projection_changed :: "engine \<Rightarrow> engine res" where
  "handle_projection_changed e =
     (case en_phase e of
        Idle \<Rightarrow> enter_boundary e
      | AwaitingNextWork boundary _ \<Rightarrow> Inr (e\<lparr>en_phase := AwaitingNextWork boundary True\<rparr>)
      | _ \<Rightarrow> Inr e)"

definition handle_import_action :: "import_action_result \<Rightarrow> engine \<Rightarrow> engine res" where
  "handle_import_action result e =
     (let action_id = import_result_action_id result
      in (case en_phase e of
            Importing (ImportDispatching epoch queue in_flight) \<Rightarrow>
              if fst action_id \<noteq> epoch then Inl Fatal
              else if action_id \<notin> in_flight then Inl Fatal
              else
                let e1 = e\<lparr>en_phase := Importing (ImportDispatching epoch queue (in_flight - {action_id}))\<rparr>
                in bind_res (if invalidates_import result then request_scan Full e1 else Inr e1)
                     (with_semantic (sc_commit_import_action result))
          | _ \<Rightarrow> Inl Fatal))"

definition projection_after_action :: "projection_action_result \<Rightarrow> engine \<Rightarrow> engine res" where
  "projection_after_action result e =
     (let action = projection_result_action_id result
      in (case en_phase e of
            Projecting (ProjectionDispatching epoch generation plan in_flight) \<Rightarrow>
              if fst action \<noteq> epoch then Inl Fatal
              else if action \<notin> in_flight then Inl Fatal
              else Inr (e\<lparr>en_phase := Projecting
                (if invalidates_projection result
                 then ProjectionDraining epoch generation (ActionInvalidatedProjection action) (in_flight - {action})
                 else ProjectionDispatching epoch generation plan (in_flight - {action}))\<rparr>)
          | Projecting (ProjectionDraining epoch generation reason in_flight) \<Rightarrow>
              if fst action \<noteq> epoch then Inl Fatal
              else if action \<notin> in_flight then Inl Fatal
              else Inr (e\<lparr>en_phase := Projecting (ProjectionDraining epoch generation reason (in_flight - {action}))\<rparr>)
          | _ \<Rightarrow> Inl Fatal))"

definition cleanup_path :: "projection_action_result \<Rightarrow> relative_path option" where
  "cleanup_path result =
     (case result of WriteFileResult _ (ConflictBeforeSwap swap_path _) \<Rightarrow> Some swap_path | _ \<Rightarrow> None)"

definition handle_projection_action :: "projection_action_result \<Rightarrow> engine \<Rightarrow> engine res" where
  "handle_projection_action result e =
     bind_res (projection_after_action result e) (\<lambda>e1.
     let e2 = (case cleanup_path result of
                 Some path \<Rightarrow> e1\<lparr>en_cleanup_queue := en_cleanup_queue e1 @ [path]\<rparr>
               | None \<Rightarrow> e1)
     in bind_res (if invalidates_projection result then request_scan Full e2 else Inr e2)
          (with_semantic (sc_commit_projection_action result)))"

definition handle_fs_response :: "fs_client_response \<Rightarrow> engine \<Rightarrow> engine res" where
  "handle_fs_response response e =
     (case response of
        RespScan result \<Rightarrow>
          (case en_phase e of
             Scanning _ \<Rightarrow>
               bind_res result (\<lambda>scan.
                 map_ok (\<lambda>e'. e'\<lparr>en_phase := PlanningImport\<rparr>) (with_semantic (sc_apply_scan scan) e))
           | _ \<Rightarrow> Inl Fatal)
      | RespImportAction result \<Rightarrow> handle_import_action result e
      | RespProjectionAction result \<Rightarrow> handle_projection_action result e
      | RespDeleteIfExists _ \<Rightarrow> Inr e)"

definition handle_read_outbox :: "(nat \<times> shared_message) list res \<Rightarrow> engine \<Rightarrow> engine res" where
  "handle_read_outbox result e =
     (if \<not> en_outbox_read_in_flight e then Inl Panicked
      else
        let e1 = e\<lparr>en_outbox_read_in_flight := False\<rparr>
        in bind_res result (\<lambda>messages.
           bind_res
             (if link_is_online Writer e1
              then fold_res (\<lambda>(outbox_id, m). send_writer (Append outbox_id m)) messages e1
              else if messages \<noteq> [] then request_outbox_release e1
              else Inr e1) (\<lambda>e2.
             maybe_start_outbox_read (if messages \<noteq> [] then e2\<lparr>en_outbox_read_requested := True\<rparr> else e2))))"

definition handle_semantic_response :: "time_ns \<Rightarrow> semantic_client_response \<Rightarrow> engine \<Rightarrow> engine res" where
  "handle_semantic_response now response e =
     (case response of
        CApplyInitScan _ \<Rightarrow> Inl Fatal
      | CApplyScan result \<Rightarrow>
          (case en_phase e of
             PlanningImport \<Rightarrow>
               bind_res result (\<lambda>work.
                 (case work of
                    Import started \<Rightarrow>
                      Inr (e\<lparr>en_phase := Importing (ImportDispatching (ies_epoch started) (ies_actions started) {})\<rparr>)
                  | NoWork \<Rightarrow> enter_boundary e
                  | Project _ \<Rightarrow> Inl Fatal))
           | _ \<Rightarrow> Inl Fatal)
      | CCommitImportAction _ \<Rightarrow> Inl Fatal
      | CCommitImportEpoch result \<Rightarrow>
          bind_res result (\<lambda>_.
            (case en_phase e of Importing (ImportCommitting _) \<Rightarrow> enter_boundary e | _ \<Rightarrow> Inl Fatal))
      | CCommitProjectionAction _ \<Rightarrow> Inl Fatal
      | CCommitProjectionEpoch result \<Rightarrow>
          bind_res result (\<lambda>_.
            (case en_phase e of Projecting (ProjectionCommitting _ _) \<Rightarrow> enter_boundary e | _ \<Rightarrow> Inl Fatal))
      | CGetNextWork boundary result \<Rightarrow> handle_get_next_work_response boundary result e
      | CApplySharedMessageBatch _ final result \<Rightarrow>
          bind_res result (\<lambda>_.
          bind_res (update_stable_cursor_after_batch final (en_status e)) (\<lambda>status.
            let e1 = e\<lparr>en_status := status\<rparr>
            in Inr (case next_fire_at now (en_buffer e1) of
                      Some t \<Rightarrow> arm_at SharedMessageBufferDrain t e1
                    | None \<Rightarrow> e1)))
      | CReadOutbox result \<Rightarrow> handle_read_outbox result e
      | CReleaseOutbox result \<Rightarrow>
          if \<not> en_outbox_release_in_flight e then Inl Panicked
          else bind_res result (\<lambda>_.
               bind_res (maybe_start_outbox_release (e\<lparr>en_outbox_release_in_flight := False\<rparr>))
                 maybe_start_outbox_read)
      | CReadStableCursor result \<Rightarrow>
          if \<not> en_reader_reconnect_cursor_in_flight e then Inl Panicked
          else
            let e1 = e\<lparr>en_reader_reconnect_cursor_in_flight := False\<rparr>
            in bind_res result (\<lambda>cursor.
                 if lr_state (ec_link Reader (en_connectivity e1)) = LinkReconnecting
                 then send_reader (ReconnectReader cursor) e1
                 else Inr e1)
      | CReadStableNamespace _ \<Rightarrow> Inl Fatal)"

definition handle_reader_event :: "time_ns \<Rightarrow> time_ns \<Rightarrow> log_reader_event \<Rightarrow> engine \<Rightarrow> engine res" where
  "handle_reader_event now wall ev e =
     (case ev of
        ReaderConnected \<Rightarrow> Inr (mark_link_online Reader e)
      | ReaderDisconnected reason \<Rightarrow> mark_link_disconnected now wall Reader reason e
      | ReaderTail _ \<Rightarrow> Inr e
      | ReaderRead envelope \<Rightarrow>
          let e1 = e\<lparr>en_buffer := smb_insert now envelope (en_buffer e)\<rparr>
          in if can_accept_apply_shared_message_batch (en_semantic e1)
             then map_ok (\<lambda>t. arm_at SharedMessageBufferDrain t e1) (ok_or (next_fire_at now (en_buffer e1)) Panicked)
             else Inr e1
      | ReaderEnded _ \<Rightarrow> Inl Fatal)"

definition handle_writer_event :: "time_ns \<Rightarrow> time_ns \<Rightarrow> log_writer_response \<Rightarrow> engine \<Rightarrow> engine res" where
  "handle_writer_event now wall ev e =
     (case ev of
        WriterConnected \<Rightarrow> maybe_start_outbox_read (mark_link_online Writer e)
      | WriterDisconnected reason \<Rightarrow> mark_link_disconnected now wall Writer reason e
      | WriterPing \<Rightarrow> Inr e
      | WriterDurable through \<Rightarrow> with_semantic (sc_trim_outbox through) e)"

definition handle_semantic_event :: "semantic_event \<Rightarrow> engine \<Rightarrow> engine res" where
  "handle_semantic_event ev e =
     (case ev of
        OutboxReady n \<Rightarrow> if n > 0 then request_outbox_read e else Inr e
      | ProjectionChanged _ \<Rightarrow> handle_projection_changed e)"

text \<open>The timer branch; \<open>Stop\<close> ends the loop, which is the value \<open>None\<close>.\<close>

definition handle_timer :: "time_ns \<Rightarrow> timer_event \<Rightarrow> engine \<Rightarrow> engine option res" where
  "handle_timer now ev e =
     (case ev of
        SharedMessageBufferDrain \<Rightarrow>
          if can_accept_apply_shared_message_batch (en_semantic e) then
            (case smb_drain (en_buffer e) of (envelopes, buffer) \<Rightarrow>
               if envelopes = [] then Inl Panicked
               else bind_res (batch_try_from envelopes) (\<lambda>batch.
                 map_ok Some (with_semantic (sc_apply_shared_message_batch batch)
                   (cancel_timer SharedMessageBufferDrain (e\<lparr>en_buffer := buffer\<rparr>)))))
          else Inr (Some e)
      | FullScan \<Rightarrow>
          map_ok (\<lambda>e'. Some (arm_at FullScan (now + full_scan_interval) e')) (request_scan Full e)
      | ReaderReconnect \<Rightarrow>
          if lr_state (ec_link Reader (en_connectivity e)) = LinkOffline \<and> \<not> en_reader_reconnect_cursor_in_flight e then
            map_ok (\<lambda>e'. Some (e'\<lparr>en_reader_reconnect_cursor_in_flight := True\<rparr>))
              (with_semantic sc_read_stable_cursor (mark_link_reconnecting Reader e))
          else Inr (Some e)
      | WriterReconnect \<Rightarrow>
          if lr_state (ec_link Writer (en_connectivity e)) = LinkOffline then
            map_ok Some (send_writer ReconnectWriter (mark_link_reconnecting Writer e))
          else Inr (Some e)
      | Stop \<Rightarrow> Inr None)"

definition handle_command ::
  "('d, 'sv) ext \<Rightarrow> nat \<Rightarrow> time_ns \<Rightarrow> time_ns \<Rightarrow> engine_command \<Rightarrow> engine \<Rightarrow> engine res" where
  "handle_command X pid now wall command e =
     (case command of
        ScanCommand scope \<Rightarrow> request_scan scope e
      | StatusCommand reply \<Rightarrow>
          map_ok (\<lambda>s. e\<lparr>en_status_replies := en_status_replies e @ [(reply, s)]\<rparr>) (daemon_status_of X pid wall e)
      | StopCommand reply \<Rightarrow>
          map_ok (\<lambda>s. arm_at Stop (now + stop_response_grace)
              (e\<lparr>en_status_replies := en_status_replies e @ [(reply, s)]\<rparr>)) (daemon_status_of X pid wall e))"

section \<open>The event loop\<close>

text \<open>What the \<open>select!\<close> of one turn takes: a timer, a message of one of the channels, or a completed
  future of one of the clients.\<close>

datatype engine_event =
    EvTimer timer_event
  | EvReader log_reader_event
  | EvWriter log_writer_response
  | EvSemanticReply reply_id reply_value
  | EvFsReply nat fs_reply
  | EvSemantic semantic_event
  | EvCommand engine_command

record engine_clock =
  ck_pid :: nat
  ck_now :: time_ns
  ck_wall :: time_ns

definition engine_event :: "('d, 'sv) ext \<Rightarrow> engine_clock \<Rightarrow> engine_event \<Rightarrow> engine \<Rightarrow> engine option res" where
  "engine_event X ck ev e =
     (case ev of
        EvTimer t \<Rightarrow> handle_timer (ck_now ck) t e
      | EvReader r \<Rightarrow>
          if has_capacity (en_buffer e) then map_ok Some (handle_reader_event (ck_now ck) (ck_wall ck) r e)
          else Inr (Some e)
      | EvWriter r \<Rightarrow> map_ok Some (handle_writer_event (ck_now ck) (ck_wall ck) r e)
      | EvSemanticReply reply v \<Rightarrow>
          (case map_of (sc_pending (en_semantic e)) reply of
             None \<Rightarrow> Inr (Some e)
           | Some wait \<Rightarrow>
               (case semantic_response_of wait v of
                  None \<Rightarrow> Inr (Some e)
                | Some response \<Rightarrow>
                    bind_res (with_semantic (semantic_client_next reply response) e) (\<lambda>e1.
                      map_ok Some (handle_semantic_response (ck_now ck) response e1))))
      | EvFsReply k reply \<Rightarrow>
          if k < length (fc_pending (en_fs e)) then
            (case fs_response_of (fc_pending (en_fs e) ! k) reply of
               None \<Rightarrow> Inr (Some e)
             | Some response \<Rightarrow>
                 bind_res (with_fs (fs_client_next k response) e) (\<lambda>e1. map_ok Some (handle_fs_response response e1)))
          else Inr (Some e)
      | EvSemantic s \<Rightarrow> map_ok Some (handle_semantic_event s e)
      | EvCommand c \<Rightarrow> map_ok Some (handle_command X (ck_pid ck) (ck_now ck) (ck_wall ck) c e))"

definition drive :: "engine \<Rightarrow> engine res" where
  "drive e = bind_res (drive_cleanup e) drive_phase"

text \<open>What runs before the loop: the spy namespace is read, the first scan and outbox read requested.\<close>

definition engine_start :: "engine_clock \<Rightarrow> engine \<Rightarrow> engine res" where
  "engine_start ck e =
     bind_res (request_scan Full e) (\<lambda>e1.
     map_ok (arm_at FullScan (ck_now ck + full_scan_interval)) (request_outbox_read e1))"

text \<open>A turn takes one event and then drives the phase for the next turn.\<close>

definition engine_turn :: "('d, 'sv) ext \<Rightarrow> engine_clock \<Rightarrow> engine_event \<Rightarrow> engine \<Rightarrow> engine option res" where
  "engine_turn X ck ev e =
     bind_res (engine_event X ck ev e) (\<lambda>r. case r of None \<Rightarrow> Inr None | Some e' \<Rightarrow> map_ok Some (drive e'))"

section \<open>Lemmas: scan scopes\<close>

lemma subtree_covers:
  assumes "subtree_contains_scope q scope" and "contains_path scope p"
  shows "contains_path (Subtree q) p"
  using assms
  by (cases scope) (auto simp: subtree_contains_scope_def intro: starts_with_trans)

lemma coalesce_covers:
  assumes "contains_path left p \<or> contains_path right p"
  shows "contains_path (coalesce_scan_scopes left right) p"
  using assms subtree_covers [of _ left p] subtree_covers [of _ right p]
  by (cases left; cases right) (auto simp: coalesce_scan_scopes_def simp del: contains_path.simps(3))

lemma with_fs_frame: "with_fs f e = Inr e' \<Longrightarrow> \<exists>c. f (en_fs e) = Inr c \<and> e' = e\<lparr>en_fs := c\<rparr>"
  by (auto simp: with_fs_def res_simps)

lemma with_semantic_frame: "with_semantic f e = Inr e' \<Longrightarrow> \<exists>c. f (en_semantic e) = Inr c \<and> e' = e\<lparr>en_semantic := c\<rparr>"
  by (auto simp: with_semantic_def res_simps)

section \<open>Properties\<close>

text \<open>Scan evidence is never dropped: after a scan request every path that the request or the
  evidence pending before covers is covered by the scan that starts now or by the one that is pending.\<close>

theorem scan_request_kept:
  assumes "request_scan scope e = Inr e'"
    and "contains_path scope p \<or> (\<exists>s. en_pending_scan_scope e = Some s \<and> contains_path s p)"
  shows "\<exists>s. (en_pending_scan_scope e' = Some s \<or> en_phase e' = Scanning s) \<and> contains_path s p"
proof -
  let ?s = "case en_pending_scan_scope e of Some pending \<Rightarrow> coalesce_scan_scopes pending scope | None \<Rightarrow> scope"
  have cover: "contains_path ?s p" using assms(2) coalesce_covers by (auto split: option.splits)
  show ?thesis
  proof (cases "en_phase e = Idle")
    case True
    with assms(1) have "en_phase e' = Scanning ?s"
      by (auto simp: request_scan_def Let_def enter_boundary_def res_simps)
    with cover show ?thesis by blast
  next
    case False
    with assms(1) have "en_pending_scan_scope e' = Some ?s" by (auto simp: request_scan_def Let_def)
    with cover show ?thesis by blast
  qed
qed

definition demo_engine :: engine where
  "demo_engine = engine_new \<lparr>es_sync_root = ''/w'', es_workspace_id = ''ws'', es_basin = ''basin'',
     es_daemon_writer_id = ''writer'', es_stable_cursor = 0, es_started_at = 0\<rparr>"

theorem scan_request_kept_witness:
  "\<exists>e' s. request_scan (SingleFile (RelativePath [''a'', ''b'']))
      (demo_engine\<lparr>en_phase := PlanningImport, en_pending_scan_scope := Some (Subtree (RelativePath [''a'']))\<rparr>) = Inr e' \<and>
    (en_pending_scan_scope e' = Some s \<or> en_phase e' = Scanning s) \<and> contains_path s (RelativePath [''a'', ''c''])"
proof -
  let ?e = "demo_engine\<lparr>en_phase := PlanningImport, en_pending_scan_scope := Some (Subtree (RelativePath [''a'']))\<rparr>"
  obtain e' where e': "request_scan (SingleFile (RelativePath [''a'', ''b''])) ?e = Inr e'"
    by (simp add: request_scan_def Let_def)
  from scan_request_kept [OF e', of "RelativePath [''a'', ''c'']"] e' show ?thesis by (auto simp: starts_with_def)
qed

end
