(* ===== verification/Protocol.thy ===== *)
theory Protocol
  imports Epochs Engine
begin

text \<open>
  The engine and the semantic actor together. The engine's requests queue up in the actor's mailbox,
  the actor's replies and events come back, the file system, the log, timers and commands are the
  environment. The result is that the two state machines fit: in no reachable state does the
  engine send a request the actor panics on, and no response or event finds the engine in a phase
  that does not expect it.
\<close>

section \<open>The composed system\<close>

record system =
  sy_engine :: engine
  sy_actor :: semantic_actor
  sy_db :: db

datatype system_step =
    EngineStep engine_clock engine_event
  | ReplyStep engine_clock nat
  | EventStep engine_clock
  | TakeStep
  | DoneStep service_input

fun environment_event :: "engine_event \<Rightarrow> bool" where
  "environment_event (EvSemanticReply _ _) = False"
| "environment_event (EvSemantic _) = False"
| "environment_event _ = True"

definition deliver ::
  "('d, 'sv) ext \<Rightarrow> engine_clock \<Rightarrow> engine_event \<Rightarrow> semantic_actor \<Rightarrow> system \<Rightarrow> system option res" where
  "deliver X ck ev a sy =
     map_ok (map_option (\<lambda>e. sy\<lparr>sy_engine := e, sy_actor := a\<rparr>)) (engine_turn X ck ev (sy_engine sy))"

definition system_turn :: "('d, 'sv) ext \<Rightarrow> system_step \<Rightarrow> system \<Rightarrow> system option res" where
  "system_turn X step sy =
     (let e = sy_engine sy; a = sy_actor sy
      in (case step of
            EngineStep ck ev \<Rightarrow> if environment_event ev then deliver X ck ev a sy else Inr (Some sy)
          | ReplyStep ck k \<Rightarrow>
              if k < length (act_replies a) then
                deliver X ck (EvSemanticReply (fst (act_replies a ! k)) (snd (act_replies a ! k)))
                  (a\<lparr>act_replies := drop_nth k (act_replies a)\<rparr>) sy
              else Inr (Some sy)
          | EventStep ck \<Rightarrow>
              (case act_events a of
                 [] \<Rightarrow> Inr (Some sy)
               | ev # evs \<Rightarrow> deliver X ck (EvSemantic ev) (a\<lparr>act_events := evs\<rparr>) sy)
          | TakeStep \<Rightarrow>
              (case sc_sent (en_semantic e) of
                 [] \<Rightarrow> Inr (Some sy)
               | request # rest \<Rightarrow>
                   if act_running a \<noteq> [] then Inr (Some sy)
                   else map_ok (\<lambda>(a', d'). Some (sy\<lparr>sy_engine := e\<lparr>en_semantic := (en_semantic e)\<lparr>sc_sent := rest\<rparr>\<rparr>,
                          sy_actor := a', sy_db := d'\<rparr>))
                        (semantic_turn X (TakeRequest request) (a, sy_db sy)))
          | DoneStep i \<Rightarrow>
              if act_running a = [] then Inr (Some sy)
              else map_ok (\<lambda>(a', d'). Some (sy\<lparr>sy_actor := a', sy_db := d'\<rparr>))
                     (semantic_turn X (TaskDone i) (a, sy_db sy))))"

definition system_start :: "engine_clock \<Rightarrow> engine_status_state \<Rightarrow> db \<Rightarrow> system res" where
  "system_start ck status d =
     bind_res (engine_start ck (engine_new status)) (\<lambda>e.
       map_ok (\<lambda>e'. \<lparr>sy_engine = e', sy_actor = semantic_actor_new, sy_db = d\<rparr>) (drive e))"

inductive system_reachable :: "('d, 'sv) ext \<Rightarrow> engine_status_state \<Rightarrow> db \<Rightarrow> system \<Rightarrow> bool" for X status d0 where
  start: "system_start ck status d0 = Inr sy \<Longrightarrow> system_reachable X status d0 sy"
| turn: "system_reachable X status d0 sy \<Longrightarrow> system_turn X step sy = Inr (Some sy') \<Longrightarrow>
    system_reachable X status d0 sy'"

section \<open>Requests, waits and replies of the phases\<close>

fun phase_request :: "semantic_request \<Rightarrow> bool" where
  "phase_request (ApplyInitScan _ _) = True"
| "phase_request (ApplyScan _ _) = True"
| "phase_request (CommitImportAction _ _) = True"
| "phase_request (CommitImportEpoch _ _) = True"
| "phase_request (CommitProjectionAction _ _) = True"
| "phase_request (CommitProjectionEpoch _ _ _) = True"
| "phase_request (GetNextWork _) = True"
| "phase_request _ = False"

fun request_reply :: "semantic_request \<Rightarrow> reply_id list" where
  "request_reply (ApplyInitScan _ r) = [r]"
| "request_reply (ApplyScan _ r) = [r]"
| "request_reply (CommitImportAction _ r) = (case r of None \<Rightarrow> [] | Some r \<Rightarrow> [r])"
| "request_reply (CommitImportEpoch _ r) = [r]"
| "request_reply (CommitProjectionAction _ r) = (case r of None \<Rightarrow> [] | Some r \<Rightarrow> [r])"
| "request_reply (CommitProjectionEpoch _ _ r) = [r]"
| "request_reply (GetNextWork r) = [r]"
| "request_reply (ReadOutbox _ r) = [r]"
| "request_reply (ReleaseOutbox r) = [r]"
| "request_reply (TrimOutbox _) = []"
| "request_reply (ReadStableCursor r) = [r]"
| "request_reply (ReadStableNamespace r) = [r]"
| "request_reply (ApplySharedMessageBatch _ r) = [r]"

fun pending_reply :: "pending_op_kind \<Rightarrow> reply_id list" where
  "pending_reply (PApplyInitScan r) = [r]"
| "pending_reply (PApplyScan r) = [r]"
| "pending_reply (PCommitImportEpoch r) = [r]"
| "pending_reply (PCommitImportAction r) = (case r of None \<Rightarrow> [] | Some r \<Rightarrow> [r])"
| "pending_reply (PCommitProjectionAction r) = (case r of None \<Rightarrow> [] | Some r \<Rightarrow> [r])"
| "pending_reply (PCommitProjectionEpoch r) = [r]"
| "pending_reply (PGetNextWork r) = [r]"
| "pending_reply (PReadOutbox r) = [r]"
| "pending_reply (PReleaseOutbox r) = [r]"
| "pending_reply PTrimOutbox = []"
| "pending_reply (PReadStableCursor r) = [r]"
| "pending_reply (PReadStableNamespace r) = [r]"
| "pending_reply (PApplySharedMessageBatch r) = [r]"

fun phase_wait :: "semantic_wait \<Rightarrow> bool" where
  "phase_wait WaitReadOutbox = False"
| "phase_wait WaitReleaseOutbox = False"
| "phase_wait WaitReadStableCursor = False"
| "phase_wait (WaitApplySharedMessageBatch _ _) = False"
| "phase_wait _ = True"

fun phase_task :: "semantic_task \<Rightarrow> bool" where
  "phase_task (TApplyInitScan _ _) = True"
| "phase_task (TApplyScan _ _) = True"
| "phase_task (TCommitImportAction _ _) = True"
| "phase_task (TCommitImportEpoch _) = True"
| "phase_task (TCommitProjectionAction _ _) = True"
| "phase_task (TCommitProjectionEpoch _ _) = True"
| "phase_task (TGetNextWork _) = True"
| "phase_task _ = False"

fun phase_fs :: "fs_pending \<Rightarrow> bool" where
  "phase_fs (WaitCleanup _) = False"
| "phase_fs _ = True"

text \<open>The actor's lane: the running task with its pending entry.\<close>

definition lane :: "semantic_actor \<Rightarrow> (semantic_task \<times> pending_op_kind) list" where
  "lane a = map (\<lambda>((_, task), (_, kind)). (task, kind)) (zip (act_running a) (act_pending a))"

definition phase_lane :: "semantic_actor \<Rightarrow> (semantic_task \<times> pending_op_kind) list" where
  "phase_lane a = filter (phase_task \<circ> fst) (lane a)"

definition phase_queue :: "engine \<Rightarrow> semantic_request list" where
  "phase_queue e = filter phase_request (sc_sent (en_semantic e))"

definition phase_waits :: "engine \<Rightarrow> (reply_id \<times> semantic_wait) list" where
  "phase_waits e = filter (phase_wait \<circ> snd) (sc_pending (en_semantic e))"

definition phase_pending :: "engine \<Rightarrow> fs_pending list" where
  "phase_pending e = filter phase_fs (fc_pending (en_fs e))"

section \<open>The invariant\<close>

text \<open>Channels: every reply id is fresh, used once, and waits are counted by the flags.\<close>

definition reply_ids :: "engine \<Rightarrow> semantic_actor \<Rightarrow> reply_id list" where
  "reply_ids e a =
     concat (map request_reply (sc_sent (en_semantic e))) @ concat (map (pending_reply \<circ> snd) (lane a)) @
     map fst (act_replies a)"

definition channels_ok :: "engine \<Rightarrow> semantic_actor \<Rightarrow> bool" where
  "channels_ok e a \<longleftrightarrow>
     fc_open (en_fs e) \<and> sc_open (en_semantic e) \<and> en_log_open e \<and> act_engine_open a \<and>
     distinct (reply_ids e a) \<and> list_all (\<lambda>r. r < sc_next_reply (en_semantic e)) (reply_ids e a) \<and>
     distinct (map fst (sc_pending (en_semantic e))) \<and>
     list_all (\<lambda>r. r < sc_next_reply (en_semantic e)) (map fst (sc_pending (en_semantic e)))"

definition count_waits :: "(semantic_wait \<Rightarrow> bool) \<Rightarrow> engine \<Rightarrow> nat" where
  "count_waits P e = length (filter (P \<circ> snd) (sc_pending (en_semantic e)))"

fun is_batch_wait :: "semantic_wait \<Rightarrow> bool" where
  "is_batch_wait (WaitApplySharedMessageBatch _ _) = True"
| "is_batch_wait _ = False"

definition flags_ok :: "engine \<Rightarrow> bool" where
  "flags_ok e \<longleftrightarrow>
     sc_in_flight_read_outbox (en_semantic e) = en_outbox_read_in_flight e \<and>
     count_waits ((=) WaitReadOutbox) e = of_bool (en_outbox_read_in_flight e) \<and>
     count_waits ((=) WaitReleaseOutbox) e = of_bool (en_outbox_release_in_flight e) \<and>
     count_waits ((=) WaitReadStableCursor) e = of_bool (en_reader_reconnect_cursor_in_flight e) \<and>
     count_waits is_batch_wait e = sc_in_flight_apply_shared_message_batch (en_semantic e) \<and>
     fc_cleanup_inflight (en_fs e) = length (filter (Not \<circ> phase_fs) (fc_pending (en_fs e)))"

text \<open>A reply that is waiting to be delivered.\<close>

definition answered :: "reply_id \<Rightarrow> (reply_value \<Rightarrow> bool) \<Rightarrow> semantic_actor \<Rightarrow> bool" where
  "answered r P a \<longleftrightarrow> list_ex (\<lambda>(r', v). r' = r \<and> P v) (act_replies a)"

text \<open>The outstanding actions of an epoch, wherever they are.\<close>

fun fs_action :: "fs_pending \<Rightarrow> action_id list" where
  "fs_action (WaitRead i) = [i]"
| "fs_action (WaitStat i) = [i]"
| "fs_action (WaitWrite i) = [i]"
| "fs_action (WaitDelete i) = [i]"
| "fs_action _ = []"

fun import_wait_fs :: "fs_pending \<Rightarrow> bool" where
  "import_wait_fs (WaitRead _) = True"
| "import_wait_fs (WaitStat _) = True"
| "import_wait_fs _ = False"

fun projection_wait_fs :: "fs_pending \<Rightarrow> bool" where
  "projection_wait_fs (WaitWrite _) = True"
| "projection_wait_fs (WaitDelete _) = True"
| "projection_wait_fs _ = False"

fun import_commit :: "semantic_request \<Rightarrow> bool" where
  "import_commit (CommitImportAction _ None) = True"
| "import_commit _ = False"

fun projection_commit :: "semantic_request \<Rightarrow> bool" where
  "projection_commit (CommitProjectionAction _ None) = True"
| "projection_commit _ = False"

fun request_action :: "semantic_request \<Rightarrow> action_id list" where
  "request_action (CommitImportAction result _) = [import_result_action_id result]"
| "request_action (CommitProjectionAction result _) = [projection_result_action_id result]"
| "request_action _ = []"

fun task_action :: "semantic_task \<Rightarrow> action_id list" where
  "task_action (TCommitImportAction _ result) = [import_result_action_id result]"
| "task_action (TCommitProjectionAction _ result) = [projection_result_action_id result]"
| "task_action _ = []"

fun import_lane :: "semantic_task \<times> pending_op_kind \<Rightarrow> bool" where
  "import_lane (TCommitImportAction _ _, kind) = (kind = PCommitImportAction None)"
| "import_lane _ = False"

fun projection_lane :: "semantic_task \<times> pending_op_kind \<Rightarrow> bool" where
  "projection_lane (TCommitProjectionAction _ _, kind) = (kind = PCommitProjectionAction None)"
| "projection_lane _ = False"

definition outstanding ::
  "action_id list \<Rightarrow> semantic_request list \<Rightarrow> semantic_actor \<Rightarrow> action_id list" where
  "outstanding outside queue a =
     outside @ concat (map request_action queue) @ concat (map (task_action \<circ> fst) (phase_lane a))"

text \<open>\<open>ids\<close> are the expected actions that are not completed (all of them, or at least only such).\<close>

definition covers :: "bool \<Rightarrow> action_id list \<Rightarrow> (action_id, 'v) btree_map \<Rightarrow> (action_id, 'w) btree_map \<Rightarrow> bool" where
  "covers full ids expected completed \<longleftrightarrow>
     distinct ids \<and> set ids \<subseteq> set (map fst expected) - set (map fst completed) \<and>
     (full \<longrightarrow> set ids = set (map fst expected) - set (map fst completed))"

definition no_import :: "semantic_actor \<Rightarrow> bool" where
  "no_import a \<longleftrightarrow> rt_active_import (act_runtime a) = None \<and> act_deferred_import a = None"

definition no_projection :: "semantic_actor \<Rightarrow> bool" where
  "no_projection a \<longleftrightarrow> rt_active_projection (act_runtime a) = None \<and> act_deferred_projection a = None"

definition import_flow :: "nat \<Rightarrow> action_id list \<Rightarrow> semantic_request list \<Rightarrow> semantic_actor \<Rightarrow> bool" where
  "import_flow epoch outside queue a \<longleftrightarrow>
     act_deferred_import a = None \<and> list_all import_commit queue \<and> list_all import_lane (phase_lane a) \<and>
     (case rt_active_import (act_runtime a) of None \<Rightarrow> False
      | Some x \<Rightarrow> aie_epoch x = epoch \<and> covers True (outstanding outside queue a) (aie_expected x) (aie_completed x))"

definition projection_flow ::
  "bool \<Rightarrow> nat \<Rightarrow> action_id list \<Rightarrow> semantic_request list \<Rightarrow> semantic_actor \<Rightarrow> bool" where
  "projection_flow full epoch outside queue a \<longleftrightarrow>
     act_deferred_projection a = None \<and> list_all projection_commit queue \<and> list_all projection_lane (phase_lane a) \<and>
     (case rt_active_projection (act_runtime a) of None \<Rightarrow> False
      | Some x \<Rightarrow> ape_epoch x = epoch \<and> covers full (outstanding outside queue a) (ape_expected x) (ape_completed x))"

definition import_answer :: "semantic_actor \<Rightarrow> reply_value \<Rightarrow> bool" where
  "import_answer a v =
     (case v of
        RNextWork (Inr (Import s)) \<Rightarrow> import_flow (ies_epoch s) (map ia_id (ies_actions s)) [] a
      | RNextWork (Inr (Project _)) \<Rightarrow> False
      | RNextWork (Inr NoWork) \<Rightarrow> no_import a
      | RNextWork (Inl _) \<Rightarrow> True
      | _ \<Rightarrow> False)"

definition projection_answer :: "semantic_actor \<Rightarrow> reply_value \<Rightarrow> bool" where
  "projection_answer a v =
     (case v of
        RNextWork (Inr (Project s)) \<Rightarrow> projection_flow True (pes_epoch s) (map pa_id (pes_actions s)) [] a
      | RNextWork (Inr (Import _)) \<Rightarrow> False
      | RNextWork (Inr NoWork) \<Rightarrow> no_projection a
      | RNextWork (Inl _) \<Rightarrow> True
      | _ \<Rightarrow> False)"

definition unit_answer :: "reply_value \<Rightarrow> bool" where
  "unit_answer v = (case v of RUnit _ \<Rightarrow> True | _ \<Rightarrow> False)"

definition quiet :: "engine \<Rightarrow> semantic_actor \<Rightarrow> bool" where
  "quiet e a \<longleftrightarrow> phase_queue e = [] \<and> phase_lane a = []"

definition at_boundary :: "engine \<Rightarrow> semantic_actor \<Rightarrow> bool" where
  "at_boundary e a \<longleftrightarrow> quiet e a \<and> phase_waits e = [] \<and> phase_pending e = [] \<and> no_import a \<and> no_projection a"

definition phase_state :: "engine_phase \<Rightarrow> engine \<Rightarrow> semantic_actor \<Rightarrow> bool" where
  "phase_state phase e a =
     (case phase of
        Idle \<Rightarrow> at_boundary e a
      | Scanning _ \<Rightarrow>
          quiet e a \<and> phase_waits e = [] \<and> phase_pending e = [WaitScan] \<and> no_import a \<and> no_projection a
      | AwaitingNextWork b _ \<Rightarrow>
          phase_pending e = [] \<and> no_import a \<and>
          (\<exists>r. phase_waits e = [(r, WaitGetNextWork b)] \<and>
            (phase_queue e = [GetNextWork r] \<and> phase_lane a = [] \<and> no_projection a \<or>
             phase_queue e = [] \<and> (\<exists>ep. phase_lane a = [(TGetNextWork ep, PGetNextWork r)]) \<and> no_projection a \<or>
             quiet e a \<and> answered r (projection_answer a) a))
      | PlanningImport \<Rightarrow>
          phase_pending e = [] \<and> no_projection a \<and>
          (\<exists>r. phase_waits e = [(r, WaitApplyScan)] \<and>
            ((\<exists>scan. phase_queue e = [ApplyScan scan r]) \<and> phase_lane a = [] \<and> no_import a \<or>
             phase_queue e = [] \<and> (\<exists>scan ep. phase_lane a = [(TApplyScan scan ep, PApplyScan r)]) \<and> no_import a \<or>
             quiet e a \<and> answered r (import_answer a) a))
      | Importing (ImportDispatching epoch queue in_flight) \<Rightarrow>
          phase_waits e = [] \<and> no_projection a \<and> list_all import_wait_fs (phase_pending e) \<and>
          length (phase_pending e) \<le> 1 \<and> in_flight = set (concat (map fs_action (phase_pending e))) \<and>
          import_flow epoch (map ia_id queue @ concat (map fs_action (phase_pending e))) (phase_queue e) a
      | Importing (ImportCommitting epoch) \<Rightarrow>
          phase_pending e = [] \<and> no_projection a \<and>
          (\<exists>r. phase_waits e = [(r, WaitCommitImportEpoch)] \<and>
            ((\<exists>q. phase_queue e = q @ [CommitImportEpoch epoch r] \<and> import_flow epoch [] q a) \<or>
             phase_queue e = [] \<and> (\<exists>c. phase_lane a = [(TCommitImportEpoch c, PCommitImportEpoch r)]) \<and> no_import a \<or>
             quiet e a \<and> answered r unit_answer a \<and> no_import a))
      | Projecting (ProjectionDispatching epoch _ plan in_flight) \<Rightarrow>
          phase_waits e = [] \<and> no_import a \<and> list_all projection_wait_fs (phase_pending e) \<and>
          length (phase_pending e) \<le> 1 \<and> in_flight = set (concat (map fs_action (phase_pending e))) \<and>
          projection_flow True epoch (map pa_id plan @ concat (map fs_action (phase_pending e))) (phase_queue e) a
      | Projecting (ProjectionDraining epoch _ reason in_flight) \<Rightarrow>
          phase_waits e = [] \<and> no_import a \<and> list_all projection_wait_fs (phase_pending e) \<and>
          length (phase_pending e) \<le> 1 \<and> in_flight = set (concat (map fs_action (phase_pending e))) \<and>
          reason \<noteq> PlanExhausted \<and>
          projection_flow False epoch (concat (map fs_action (phase_pending e))) (phase_queue e) a
      | Projecting (ProjectionCommitting epoch _) \<Rightarrow>
          phase_pending e = [] \<and> no_import a \<and>
          (\<exists>r. phase_waits e = [(r, WaitCommitProjectionEpoch)] \<and>
            ((\<exists>q reason. phase_queue e = q @ [CommitProjectionEpoch epoch reason r] \<and>
                projection_flow (reason = PlanExhausted) epoch [] q a) \<or>
             phase_queue e = [] \<and> (\<exists>c reason. phase_lane a = [(TCommitProjectionEpoch c reason, PCommitProjectionEpoch r)]) \<and>
               no_projection a \<or>
             quiet e a \<and> answered r unit_answer a \<and> no_projection a)))"

definition phase_inv :: "engine \<Rightarrow> semantic_actor \<Rightarrow> bool" where
  "phase_inv e a \<longleftrightarrow> fc_phase_inflight (en_fs e) = length (phase_pending e) \<and> phase_state (en_phase e) e a"

definition system_inv :: "system \<Rightarrow> bool" where
  "system_inv sy \<longleftrightarrow>
     actor_ok (sy_actor sy) \<and> channels_ok (sy_engine sy) (sy_actor sy) \<and> flags_ok (sy_engine sy) \<and>
     phase_inv (sy_engine sy) (sy_actor sy)"

section \<open>Lemmas: sending requests\<close>

lemma enqueue_open: "sc_open c \<Longrightarrow> sc_enqueue build wait c = Inr (c\<lparr>sc_sent := sc_sent c @ [build (sc_next_reply c)],
    sc_pending := sc_pending c @ [(sc_next_reply c, wait)], sc_next_reply := sc_next_reply c + 1\<rparr>)"
  by (simp add: sc_enqueue_def)

lemma post_open: "sc_open c \<Longrightarrow> sc_post q c = Inr (c\<lparr>sc_sent := sc_sent c @ [q]\<rparr>)"
  by (simp add: sc_post_def)

text \<open>What sending does to the channels and the views of the phases.\<close>

definition enqueued :: "(reply_id \<Rightarrow> semantic_request) \<Rightarrow> semantic_wait \<Rightarrow> engine \<Rightarrow> engine \<Rightarrow> bool" where
  "enqueued build wait e e' \<longleftrightarrow>
     sc_sent (en_semantic e') = sc_sent (en_semantic e) @ [build (sc_next_reply (en_semantic e))] \<and>
     sc_pending (en_semantic e') = sc_pending (en_semantic e) @ [(sc_next_reply (en_semantic e), wait)] \<and>
     sc_next_reply (en_semantic e') = sc_next_reply (en_semantic e) + 1 \<and>
     sc_open (en_semantic e') = sc_open (en_semantic e) \<and> en_fs e' = en_fs e \<and> en_log_open e' = en_log_open e"

definition posted :: "semantic_request \<Rightarrow> engine \<Rightarrow> engine \<Rightarrow> bool" where
  "posted q e e' \<longleftrightarrow>
     sc_sent (en_semantic e') = sc_sent (en_semantic e) @ [q] \<and>
     sc_pending (en_semantic e') = sc_pending (en_semantic e) \<and>
     sc_next_reply (en_semantic e') = sc_next_reply (en_semantic e) \<and>
     sc_open (en_semantic e') = sc_open (en_semantic e) \<and> en_fs e' = en_fs e \<and> en_log_open e' = en_log_open e"

lemma fresh_more:
  assumes "mset ys = mset (r # xs)" and "distinct xs" and "list_all (\<lambda>x. x < r) xs"
  shows "distinct ys" "list_all (\<lambda>x. x < r + 1) (ys :: nat list)"
proof -
  have "distinct (r # xs)" using assms(2,3) by (auto simp: list_all_iff)
  with assms(1) show "distinct ys" by (metis mset_eq_imp_distinct_iff)
  have "set ys = insert r (set xs)" using mset_eq_setD [OF assms(1)] by simp
  then show "list_all (\<lambda>x. x < r + 1) ys" using assms(3) by (auto simp: list_all_iff)
qed

lemma fresh_fewer:
  assumes "mset ys \<subseteq># mset xs" and "distinct xs" and "list_all P xs"
  shows "distinct ys" "list_all P ys"
proof -
  from assms(1) obtain M where "mset xs = mset ys + M" by (auto simp: mset_subset_eq_exists_conv)
  moreover obtain zs where "mset zs = M" using ex_mset by blast
  ultimately have "mset xs = mset (ys @ zs)" by simp
  with assms(2) have "distinct (ys @ zs)" by (metis mset_eq_imp_distinct_iff)
  then show "distinct ys" by simp
  show "list_all P ys" using assms(3) set_mset_mono [OF assms(1)] by (auto simp: list_all_iff)
qed

lemma channels_enqueued:
  assumes "enqueued build wait e e'" and "channels_ok e a" and "\<And>r. request_reply (build r) = [r]"
  shows "channels_ok e' a"
proof -
  let ?r = "sc_next_reply (en_semantic e)"
  have c: "distinct (reply_ids e a)" "list_all (\<lambda>r. r < ?r) (reply_ids e a)" "distinct (map fst (sc_pending (en_semantic e)))"
    "list_all (\<lambda>r. r < ?r) (map fst (sc_pending (en_semantic e)))" using assms(2) by (simp_all add: channels_ok_def)
  have "mset (reply_ids e' a) = mset (?r # reply_ids e a)"
    using assms(1,3) by (simp add: reply_ids_def enqueued_def)
  note ids = fresh_more [OF this c(1,2)]
  have "mset (map fst (sc_pending (en_semantic e'))) = mset (?r # map fst (sc_pending (en_semantic e)))"
    using assms(1) by (simp add: enqueued_def)
  note waits = fresh_more [OF this c(3,4)]
  show ?thesis using ids waits assms(1,2) by (simp add: channels_ok_def enqueued_def)
qed

lemma channels_posted:
  assumes "posted q e e'" and "channels_ok e a" and "request_reply q = []"
  shows "channels_ok e' a"
  using assms by (auto simp: posted_def channels_ok_def reply_ids_def list_all_iff)

lemma views_enqueued:
  assumes "enqueued build wait e e'"
  shows "phase_queue e' = phase_queue e @ (if phase_request (build (sc_next_reply (en_semantic e))) then
      [build (sc_next_reply (en_semantic e))] else [])"
    "phase_waits e' = phase_waits e @ (if phase_wait wait then [(sc_next_reply (en_semantic e), wait)] else [])"
    "phase_pending e' = phase_pending e"
    "count_waits P e' = count_waits P e + of_bool (P wait)"
  using assms by (auto simp: enqueued_def phase_queue_def phase_waits_def phase_pending_def count_waits_def)

lemma views_posted:
  assumes "posted q e e'"
  shows "phase_queue e' = phase_queue e @ (if phase_request q then [q] else [])" "phase_waits e' = phase_waits e"
    "phase_pending e' = phase_pending e" "count_waits P e' = count_waits P e"
  using assms by (auto simp: posted_def phase_queue_def phase_waits_def phase_pending_def count_waits_def)

section \<open>Lemmas: entering a boundary\<close>

text \<open>The parts of the engine the invariant reads.\<close>

definition same_views :: "engine \<Rightarrow> engine \<Rightarrow> bool" where
  "same_views e e' \<longleftrightarrow> phase_queue e' = phase_queue e \<and> phase_waits e' = phase_waits e \<and>
     phase_pending e' = phase_pending e"

lemma phase_state_cong: "same_views e e' \<Longrightarrow> phase_state phase e' a = phase_state phase e a"
  by (simp add: same_views_def phase_state_def at_boundary_def quiet_def split: engine_phase.splits import_phase.splits
      projection_phase.splits)

lemma channels_cong:
  assumes "channels_ok e a" and "en_semantic e' = en_semantic e" and "fc_open (en_fs e') = fc_open (en_fs e)"
    and "en_log_open e' = en_log_open e"
  shows "channels_ok e' a"
  using assms by (simp add: channels_ok_def reply_ids_def)

lemma fs_phase_open: "fc_open c \<Longrightarrow> fs_send_phase q w c =
    Inr (c\<lparr>fc_sent := fc_sent c @ [q], fc_pending := fc_pending c @ [w], fc_phase_inflight := fc_phase_inflight c + 1\<rparr>)"
  by (simp add: fs_send_phase_def fs_send_def)

lemma enter_boundary_ok:
  assumes "channels_ok e a" and "flags_ok e" and "at_boundary e a" and "fc_phase_inflight (en_fs e) = 0"
  shows "\<exists>e'. enter_boundary e = Inr e' \<and> channels_ok e' a \<and> flags_ok e' \<and> phase_inv e' a"
proof (cases "en_pending_scan_scope e")
  case None
  let ?r = "sc_next_reply (en_semantic e)"
  let ?e = "e\<lparr>en_next_boundary := en_next_boundary e + 1, en_semantic := (en_semantic e)\<lparr>
      sc_sent := sc_sent (en_semantic e) @ [GetNextWork ?r],
      sc_pending := sc_pending (en_semantic e) @ [(?r, WaitGetNextWork (en_next_boundary e + 1))],
      sc_next_reply := ?r + 1\<rparr>, en_phase := AwaitingNextWork (en_next_boundary e + 1) False\<rparr>"
  have run: "enter_boundary e = Inr ?e"
    using None assms(1) by (simp add: enter_boundary_def with_semantic_def sc_get_next_work_def enqueue_open channels_ok_def)
  have q: "enqueued GetNextWork (WaitGetNextWork (en_next_boundary e + 1)) e ?e" by (simp add: enqueued_def)
  note v = views_enqueued [OF q]
  have "flags_ok ?e" using assms(2) unfolding flags_ok_def v(4) by simp
  moreover have "phase_inv ?e a"
    using assms(3,4) v(1-3) by (auto simp: phase_inv_def phase_state_def at_boundary_def quiet_def)
  ultimately show ?thesis using run channels_enqueued [OF q assms(1)] by simp
next
  case (Some scope)
  let ?c = "(en_fs e)\<lparr>fc_sent := fc_sent (en_fs e) @ [FsScan scope], fc_pending := fc_pending (en_fs e) @ [WaitScan],
      fc_phase_inflight := fc_phase_inflight (en_fs e) + 1\<rparr>"
  let ?e = "e\<lparr>en_pending_scan_scope := None, en_fs := ?c, en_phase := Scanning scope\<rparr>"
  have run: "enter_boundary e = Inr ?e"
    using Some assms(1) by (simp add: enter_boundary_def with_fs_def fs_scan_def fs_phase_open channels_ok_def)
  have "channels_ok ?e a" by (rule channels_cong [OF assms(1)]) simp_all
  moreover have "flags_ok ?e" using assms(2) by (simp add: flags_ok_def count_waits_def)
  moreover have "phase_inv ?e a"
    using assms(3,4) by (auto simp: phase_inv_def phase_state_def at_boundary_def quiet_def phase_queue_def phase_waits_def
        phase_pending_def)
  ultimately show ?thesis using run by blast
qed

definition engine_inv :: "engine \<Rightarrow> semantic_actor \<Rightarrow> bool" where
  "engine_inv e a \<longleftrightarrow> channels_ok e a \<and> flags_ok e \<and> phase_inv e a"

text \<open>Fields the invariant does not read may change freely.\<close>

lemma engine_inv_frame:
  assumes "engine_inv e a" and "en_semantic e' = en_semantic e" and "en_fs e' = en_fs e" and "en_log_open e' = en_log_open e"
    and "en_phase e' = en_phase e" and "en_outbox_read_in_flight e' = en_outbox_read_in_flight e"
    and "en_outbox_release_in_flight e' = en_outbox_release_in_flight e"
    and "en_reader_reconnect_cursor_in_flight e' = en_reader_reconnect_cursor_in_flight e"
  shows "engine_inv e' a"
proof -
  have "channels_ok e' a" by (rule channels_cong) (use assms in \<open>simp_all add: engine_inv_def\<close>)
  moreover have "same_views e e'" using assms(2,3) by (simp add: same_views_def phase_queue_def phase_waits_def phase_pending_def)
  from phase_state_cong [OF this] have "phase_inv e' a" using assms
    by (simp add: engine_inv_def phase_inv_def phase_pending_def)
  moreover have "flags_ok e'" using assms by (simp add: engine_inv_def flags_ok_def count_waits_def)
  ultimately show ?thesis by (simp add: engine_inv_def)
qed

lemma request_scan_ok:
  assumes "engine_inv e a"
  shows "\<exists>e'. request_scan scope e = Inr e' \<and> engine_inv e' a \<and> (en_phase e \<noteq> Idle \<longrightarrow> en_phase e' = en_phase e \<and>
    en_semantic e' = en_semantic e \<and> en_fs e' = en_fs e)"
proof -
  let ?e = "e\<lparr>en_pending_scan_scope := Some (case en_pending_scan_scope e of
      Some pending \<Rightarrow> coalesce_scan_scopes pending scope | None \<Rightarrow> scope)\<rparr>"
  have inv: "engine_inv ?e a" by (rule engine_inv_frame [OF assms]) simp_all
  show ?thesis
  proof (cases "en_phase e = Idle")
    case True
    with inv have "at_boundary ?e a" "fc_phase_inflight (en_fs ?e) = 0"
      by (auto simp: engine_inv_def phase_inv_def phase_state_def at_boundary_def)
    with enter_boundary_ok [of ?e a] inv True show ?thesis by (auto simp: request_scan_def Let_def engine_inv_def)
  next
    case False
    with inv show ?thesis by (auto simp: request_scan_def Let_def)
  qed
qed

lemma projection_changed_ok:
  assumes "engine_inv e a"
  shows "\<exists>e'. handle_projection_changed e = Inr e' \<and> engine_inv e' a"
proof (cases "en_phase e")
  case Idle
  with assms enter_boundary_ok [of e a] show ?thesis
    by (auto simp: handle_projection_changed_def engine_inv_def phase_inv_def phase_state_def at_boundary_def)
next
  case (AwaitingNextWork b dirty)
  let ?e = "e\<lparr>en_phase := AwaitingNextWork b True\<rparr>"
  have "channels_ok ?e a" by (rule channels_cong) (use assms in \<open>simp_all add: engine_inv_def\<close>)
  moreover have "same_views e ?e" by (simp add: same_views_def phase_queue_def phase_waits_def phase_pending_def)
  from phase_state_cong [OF this] have "phase_inv ?e a" using assms AwaitingNextWork
    by (simp add: engine_inv_def phase_inv_def phase_pending_def) (simp add: phase_state_def)
  moreover have "flags_ok ?e" using assms by (simp add: engine_inv_def flags_ok_def count_waits_def)
  ultimately show ?thesis using AwaitingNextWork by (simp add: handle_projection_changed_def engine_inv_def)
qed (use assms in \<open>auto simp: handle_projection_changed_def\<close>)

section \<open>Lemmas: neutral requests\<close>

lemma neutral_enqueued:
  assumes "engine_inv e a" and "enqueued build wait e e'" and "\<And>r. request_reply (build r) = [r]"
    and "\<And>r. \<not> phase_request (build r)" and "\<not> phase_wait wait" and "en_phase e' = en_phase e" and "flags_ok e'"
  shows "engine_inv e' a"
proof -
  note v = views_enqueued [OF assms(2)]
  have "same_views e e'" using v(1-3) assms(4,5) by (simp add: same_views_def)
  from phase_state_cong [OF this] have "phase_inv e' a"
    using assms(1,2,6) v(3) by (simp add: engine_inv_def phase_inv_def enqueued_def)
  with channels_enqueued [OF assms(2) _ assms(3)] assms(1,7) show ?thesis by (simp add: engine_inv_def)
qed

lemma neutral_posted:
  assumes "engine_inv e a" and "posted q e e'" and "request_reply q = []" and "\<not> phase_request q"
    and "en_phase e' = en_phase e" and "flags_ok e'"
  shows "engine_inv e' a"
proof -
  note v = views_posted [OF assms(2)]
  have "same_views e e'" using v(1-3) assms(4) by (simp add: same_views_def)
  from phase_state_cong [OF this] have "phase_inv e' a"
    using assms(1,2,5) v(3) by (simp add: engine_inv_def phase_inv_def posted_def)
  with channels_posted [OF assms(2) _ assms(3)] assms(1,6) show ?thesis by (simp add: engine_inv_def)
qed

lemma count_append: "count_waits P (e\<lparr>en_semantic := (en_semantic e)\<lparr>sc_sent := q, sc_pending := sc_pending (en_semantic e) @ ws,
    sc_next_reply := n\<rparr>\<rparr>) = count_waits P e + length (filter (P \<circ> snd) ws)"
  by (simp add: count_waits_def)

lemma outbox_read_ok:
  assumes "engine_inv e a"
  shows "\<exists>e'. maybe_start_outbox_read e = Inr e' \<and> engine_inv e' a \<and> en_phase e' = en_phase e"
proof (cases "en_outbox_read_requested e \<and> \<not> en_outbox_read_in_flight e \<and> \<not> en_outbox_release_in_flight e \<and>
    \<not> en_outbox_release_requested e \<and> link_is_online Writer e")
  case True
  let ?r = "sc_next_reply (en_semantic e)"
  let ?e = "e\<lparr>en_semantic := (en_semantic e)\<lparr>sc_sent := sc_sent (en_semantic e) @ [ReadOutbox read_outbox_batch_size ?r],
      sc_pending := sc_pending (en_semantic e) @ [(?r, WaitReadOutbox)], sc_next_reply := ?r + 1,
      sc_in_flight_read_outbox := True\<rparr>, en_outbox_read_requested := False, en_outbox_read_in_flight := True\<rparr>"
  have f: "flags_ok e" "sc_open (en_semantic e)" using assms by (simp_all add: engine_inv_def channels_ok_def)
  have run: "maybe_start_outbox_read e = Inr ?e"
    using True f by (simp add: maybe_start_outbox_read_def with_semantic_def sc_read_outbox_def enqueue_open flags_ok_def)
  have q: "enqueued (ReadOutbox read_outbox_batch_size) WaitReadOutbox e ?e" by (simp add: enqueued_def)
  have "flags_ok ?e" using f(1) True unfolding flags_ok_def views_enqueued(4) [OF q] by simp
  with neutral_enqueued [OF assms q] run show ?thesis by simp
next
  case False
  with assms show ?thesis by (auto simp: maybe_start_outbox_read_def)
qed

lemma outbox_release_ok:
  assumes "engine_inv e a"
  shows "\<exists>e'. maybe_start_outbox_release e = Inr e' \<and> engine_inv e' a \<and> en_phase e' = en_phase e"
proof (cases "en_outbox_release_requested e \<and> \<not> en_outbox_release_in_flight e")
  case True
  let ?r = "sc_next_reply (en_semantic e)"
  let ?e = "e\<lparr>en_semantic := (en_semantic e)\<lparr>sc_sent := sc_sent (en_semantic e) @ [ReleaseOutbox ?r],
      sc_pending := sc_pending (en_semantic e) @ [(?r, WaitReleaseOutbox)], sc_next_reply := ?r + 1\<rparr>,
      en_outbox_release_requested := False, en_outbox_release_in_flight := True\<rparr>"
  have f: "flags_ok e" "sc_open (en_semantic e)" using assms by (simp_all add: engine_inv_def channels_ok_def)
  have run: "maybe_start_outbox_release e = Inr ?e"
    using True f by (simp add: maybe_start_outbox_release_def with_semantic_def sc_release_outbox_def enqueue_open)
  have q: "enqueued ReleaseOutbox WaitReleaseOutbox e ?e" by (simp add: enqueued_def)
  have "flags_ok ?e" using f(1) True unfolding flags_ok_def views_enqueued(4) [OF q] by simp
  with neutral_enqueued [OF assms q] run show ?thesis by simp
next
  case False
  with assms show ?thesis by (auto simp: maybe_start_outbox_release_def)
qed

lemma request_outbox_ok:
  assumes "engine_inv e a"
  shows "\<exists>e'. request_outbox_read e = Inr e' \<and> engine_inv e' a" "\<exists>e'. request_outbox_release e = Inr e' \<and> engine_inv e' a"
proof -
  have "engine_inv (e\<lparr>en_outbox_read_requested := True\<rparr>) a" "engine_inv (e\<lparr>en_outbox_release_requested := True\<rparr>) a"
    by (rule engine_inv_frame [OF assms]; simp)+
  then show "\<exists>e'. request_outbox_read e = Inr e' \<and> engine_inv e' a" "\<exists>e'. request_outbox_release e = Inr e' \<and> engine_inv e' a"
    using outbox_read_ok outbox_release_ok unfolding request_outbox_read_def request_outbox_release_def by blast+
qed

section \<open>Lemmas: the log, timers and commands\<close>

lemma disconnected_ok:
  assumes "engine_inv e a"
  shows "\<exists>e'. mark_link_disconnected now wall role reason e = Inr e' \<and> engine_inv e' a"
proof -
  have "engine_inv (arm_at ev t (e\<lparr>en_connectivity := c\<rparr>)) a"
    "engine_inv ((arm_at ev t (e\<lparr>en_connectivity := c\<rparr>))\<lparr>en_outbox_read_requested := b\<rparr>) a" for ev t c b
    by (rule engine_inv_frame [OF assms]; simp add: arm_at_def)+
  then show ?thesis using request_outbox_ok(2) by (auto simp: mark_link_disconnected_def Let_def)
qed

lemma writer_event_ok:
  assumes "engine_inv e a"
  shows "\<exists>e'. handle_writer_event now wall ev e = Inr e' \<and> engine_inv e' a"
proof (cases ev)
  case WriterConnected
  have "engine_inv (mark_link_online Writer e) a" by (rule engine_inv_frame [OF assms]) (simp_all add: mark_link_online_def)
  with WriterConnected outbox_read_ok show ?thesis by (fastforce simp: handle_writer_event_def)
next
  case (WriterDisconnected reason)
  with disconnected_ok [OF assms] show ?thesis by (simp add: handle_writer_event_def)
next
  case WriterPing
  with assms show ?thesis by (simp add: handle_writer_event_def)
next
  case (WriterDurable n)
  let ?e = "e\<lparr>en_semantic := (en_semantic e)\<lparr>sc_sent := sc_sent (en_semantic e) @ [TrimOutbox n]\<rparr>\<rparr>"
  have "sc_open (en_semantic e)" using assms by (simp add: engine_inv_def channels_ok_def)
  then have run: "handle_writer_event now wall ev e = Inr ?e"
    using WriterDurable by (simp add: handle_writer_event_def with_semantic_def sc_trim_outbox_def post_open)
  have q: "posted (TrimOutbox n) e ?e" by (simp add: posted_def)
  have "flags_ok ?e" using assms unfolding flags_ok_def views_posted(4) [OF q] by (simp add: engine_inv_def flags_ok_def)
  with neutral_posted [OF assms q] run show ?thesis by simp
qed

lemma next_fire_after_insert: "next_fire_at now (smb_insert t m b) \<noteq> None"
  by (auto simp: next_fire_at_def smb_insert_def has_capacity_def split: option.splits)

lemma reader_event_ok:
  assumes "engine_inv e a"
  shows "(\<exists>n. ev = ReaderEnded n) \<or> (\<exists>e'. handle_reader_event now wall ev e = Inr e' \<and> engine_inv e' a)"
proof (cases ev)
  case ReaderConnected
  have "engine_inv (mark_link_online Reader e) a" by (rule engine_inv_frame [OF assms]) (simp_all add: mark_link_online_def)
  with ReaderConnected show ?thesis by (simp add: handle_reader_event_def)
next
  case (ReaderDisconnected reason)
  with disconnected_ok [OF assms] show ?thesis by (simp add: handle_reader_event_def)
next
  case (ReaderTail n)
  with assms show ?thesis by (simp add: handle_reader_event_def)
next
  case (ReaderRead m)
  obtain t where t: "next_fire_at now (smb_insert now m (en_buffer e)) = Some t"
    using next_fire_after_insert [of now now m "en_buffer e"] by blast
  have "engine_inv (e\<lparr>en_buffer := b\<rparr>) a" "engine_inv (arm_at x t (e\<lparr>en_buffer := b\<rparr>)) a" for b x
    by (rule engine_inv_frame [OF assms]; simp add: arm_at_def)+
  with ReaderRead t show ?thesis by (simp add: handle_reader_event_def Let_def)
qed simp

lemma command_ok:
  assumes "engine_inv e a" and "i64_range (es_started_at (en_status e))"
  shows "\<exists>e'. handle_command X pid now wall c e = Inr e' \<and> engine_inv e' a"
proof (cases c)
  case (ScanCommand scope)
  with request_scan_ok [OF assms(1)] show ?thesis by (fastforce simp: handle_command_def)
next
  case (StatusCommand r)
  have "engine_inv (e\<lparr>en_status_replies := x\<rparr>) a" for x by (rule engine_inv_frame [OF assms(1)]) simp_all
  with StatusCommand assms(2) show ?thesis by (simp add: handle_command_def daemon_status_of_def)
next
  case (StopCommand r)
  have "engine_inv (arm_at t n (e\<lparr>en_status_replies := x\<rparr>)) a" for t n x
    by (rule engine_inv_frame [OF assms(1)]) (simp_all add: arm_at_def)
  with StopCommand assms(2) show ?thesis by (simp add: handle_command_def daemon_status_of_def)
qed

definition drainable :: "engine \<Rightarrow> bool" where
  "drainable e \<longleftrightarrow> \<not> can_accept_apply_shared_message_batch (en_semantic e) \<or>
     (smb_envelopes (en_buffer e) \<noteq> [] \<and> is_ok (batch_try_from (smb_envelopes (en_buffer e))))"

lemma timer_ok:
  assumes "engine_inv e a" and "t = SharedMessageBufferDrain \<longrightarrow> drainable e"
  shows "\<exists>r. handle_timer now t e = Inr r \<and> (case r of None \<Rightarrow> True | Some e' \<Rightarrow> engine_inv e' a)"
proof (cases t)
  case SharedMessageBufferDrain
  show ?thesis
  proof (cases "can_accept_apply_shared_message_batch (en_semantic e)")
    case False
    with SharedMessageBufferDrain assms(1) show ?thesis by (simp add: handle_timer_def)
  next
    case True
    with SharedMessageBufferDrain assms(2) obtain batch where b: "smb_envelopes (en_buffer e) \<noteq> []"
      "batch_try_from (smb_envelopes (en_buffer e)) = Inr batch"
      by (auto simp: drainable_def is_ok_def split: sum.splits)
    let ?r = "sc_next_reply (en_semantic e)" and ?w = "WaitApplySharedMessageBatch (batch_first batch) (batch_last batch)"
    let ?e = "(cancel_timer SharedMessageBufferDrain (e\<lparr>en_buffer := snd (smb_drain (en_buffer e))\<rparr>))\<lparr>en_semantic :=
        (en_semantic e)\<lparr>sc_sent := sc_sent (en_semantic e) @ [ApplySharedMessageBatch batch ?r],
          sc_pending := sc_pending (en_semantic e) @ [(?r, ?w)], sc_next_reply := ?r + 1,
          sc_in_flight_apply_shared_message_batch := sc_in_flight_apply_shared_message_batch (en_semantic e) + 1\<rparr>\<rparr>"
    have f: "flags_ok e" "sc_open (en_semantic e)" using assms by (simp_all add: engine_inv_def channels_ok_def)
    have run: "handle_timer now t e = Inr (Some ?e)"
      using SharedMessageBufferDrain True b f
      by (simp add: handle_timer_def smb_drain_def with_semantic_def sc_apply_shared_message_batch_def enqueue_open cancel_timer_def)
    have q: "enqueued (ApplySharedMessageBatch batch) ?w e ?e" by (simp add: enqueued_def cancel_timer_def)
    have "flags_ok ?e" using f(1) unfolding flags_ok_def views_enqueued(4) [OF q] by (simp add: cancel_timer_def)
    with neutral_enqueued [OF assms(1) q] run show ?thesis by (simp add: cancel_timer_def)
  qed
next
  case FullScan
  obtain e' where e': "request_scan Full e = Inr e'" "engine_inv e' a" using request_scan_ok [OF assms(1)] by blast
  have "engine_inv (arm_at x n e') a" for x n by (rule engine_inv_frame [OF e'(2)]) (simp_all add: arm_at_def)
  with FullScan e' show ?thesis by (simp add: handle_timer_def)
next
  case ReaderReconnect
  show ?thesis
  proof (cases "lr_state (ec_link Reader (en_connectivity e)) = LinkOffline \<and> \<not> en_reader_reconnect_cursor_in_flight e")
    case True
    let ?r = "sc_next_reply (en_semantic e)"
    let ?e = "(mark_link_reconnecting Reader e)\<lparr>en_semantic := (en_semantic e)\<lparr>
          sc_sent := sc_sent (en_semantic e) @ [ReadStableCursor ?r],
          sc_pending := sc_pending (en_semantic e) @ [(?r, WaitReadStableCursor)], sc_next_reply := ?r + 1\<rparr>,
        en_reader_reconnect_cursor_in_flight := True\<rparr>"
    have f: "flags_ok e" "sc_open (en_semantic e)" using assms by (simp_all add: engine_inv_def channels_ok_def)
    have run: "handle_timer now t e = Inr (Some ?e)"
      using ReaderReconnect True f
      by (simp add: handle_timer_def with_semantic_def sc_read_stable_cursor_def enqueue_open mark_link_reconnecting_def)
    have q: "enqueued ReadStableCursor WaitReadStableCursor e ?e" by (simp add: enqueued_def mark_link_reconnecting_def)
    have "flags_ok ?e" using f(1) True unfolding flags_ok_def views_enqueued(4) [OF q] by (simp add: mark_link_reconnecting_def)
    with neutral_enqueued [OF assms(1) q] run show ?thesis by (simp add: mark_link_reconnecting_def)
  next
    case False
    with ReaderReconnect assms(1) show ?thesis by (auto simp: handle_timer_def)
  qed
next
  case WriterReconnect
  have "engine_inv ((mark_link_reconnecting Writer e)\<lparr>en_writer_requests := x\<rparr>) a" for x
    by (rule engine_inv_frame [OF assms(1)]) (simp_all add: mark_link_reconnecting_def)
  moreover have "en_log_open e" using assms(1) by (simp add: engine_inv_def channels_ok_def)
  ultimately show ?thesis using WriterReconnect assms(1)
    by (simp add: handle_timer_def send_writer_def mark_link_reconnecting_def)
next
  case Stop
  then show ?thesis by (simp add: handle_timer_def)
qed

section \<open>Lemmas: driving the phase\<close>

lemma dispatch_cleanup_ok:
  assumes "fc_open c"
  shows "\<exists>c' q. dispatch_cleanup c queue = Inr (c', q) \<and> fc_open c' \<and> fc_phase_inflight c' = fc_phase_inflight c \<and>
    filter phase_fs (fc_pending c') = filter phase_fs (fc_pending c) \<and>
    (fc_cleanup_inflight c = length (filter (Not \<circ> phase_fs) (fc_pending c)) \<longrightarrow>
      fc_cleanup_inflight c' = length (filter (Not \<circ> phase_fs) (fc_pending c')))"
  using assms
proof (induction queue arbitrary: c)
  case Nil
  then show ?case by simp
next
  case (Cons path queue)
  show ?case
  proof (cases "can_accept_cleanup c")
    case False
    with Cons.prems show ?thesis by simp
  next
    case True
    let ?c = "c\<lparr>fc_sent := fc_sent c @ [FsDeleteIfExists path], fc_pending := fc_pending c @ [WaitCleanup path],
        fc_cleanup_inflight := fc_cleanup_inflight c + 1\<rparr>"
    have "delete_if_exists path c = Inr ?c" using True Cons.prems by (simp add: delete_if_exists_def fs_send_def)
    with True Cons.IH [of ?c] Cons.prems show ?thesis by simp
  qed
qed

lemma drive_cleanup_ok:
  assumes "engine_inv e a"
  shows "\<exists>e'. drive_cleanup e = Inr e' \<and> engine_inv e' a"
proof -
  have f: "channels_ok e a" "flags_ok e" "phase_inv e a" using assms by (simp_all add: engine_inv_def)
  then obtain c q where c: "dispatch_cleanup (en_fs e) (en_cleanup_queue e) = Inr (c, q)" "fc_open c"
    "fc_phase_inflight c = fc_phase_inflight (en_fs e)" "filter phase_fs (fc_pending c) = filter phase_fs (fc_pending (en_fs e))"
    "fc_cleanup_inflight c = length (filter (Not \<circ> phase_fs) (fc_pending c))"
    using dispatch_cleanup_ok [of "en_fs e" "en_cleanup_queue e"] by (auto simp: flags_ok_def channels_ok_def)
  let ?e = "e\<lparr>en_fs := c, en_cleanup_queue := q\<rparr>"
  have "channels_ok ?e a" by (rule channels_cong [OF f(1)]) (use c(2) f(1) in \<open>simp_all add: channels_ok_def\<close>)
  moreover have "flags_ok ?e" using f(2) c(5) by (simp add: flags_ok_def count_waits_def)
  moreover have "same_views e ?e" using c(4) by (simp add: same_views_def phase_queue_def phase_waits_def phase_pending_def)
  from phase_state_cong [OF this] have "phase_inv ?e a" using f(3) c(3,4) by (simp add: phase_inv_def phase_pending_def)
  ultimately show ?thesis using c(1) by (simp add: drive_cleanup_def engine_inv_def)
qed

definition fs_sent :: "fs_pending \<Rightarrow> fs_client \<Rightarrow> fs_client \<Rightarrow> bool" where
  "fs_sent w c c' \<longleftrightarrow> fc_pending c' = fc_pending c @ [w] \<and> fc_phase_inflight c' = fc_phase_inflight c + 1 \<and>
     fc_open c' = fc_open c \<and> fc_cleanup_inflight c' = fc_cleanup_inflight c"

lemma import_sent:
  "fc_open c \<Longrightarrow> \<exists>c' w. apply_import_action action c = Inr c' \<and> fs_sent w c c' \<and> import_wait_fs w \<and> fs_action w = [ia_id action]"
  by (cases "ia_kind action") (force simp: apply_import_action_def fs_phase_open fs_sent_def)+

lemma projection_sent:
  "fc_open c \<Longrightarrow> \<exists>c' w. apply_projection_action action c = Inr c' \<and> fs_sent w c c' \<and> projection_wait_fs w \<and>
    fs_action w = [pa_id action]"
  by (cases "pa_kind action") (force simp: apply_projection_action_def fs_phase_open fs_sent_def)+

lemma dispatch_imports_ok:
  assumes "fc_open c"
  shows "(dispatch_imports c queue infl = Inr (c, queue, infl)) \<or>
    (\<exists>x rest c' w. fc_phase_inflight c = 0 \<and> queue = x # rest \<and> fs_sent w c c' \<and> import_wait_fs w \<and> fs_action w = [ia_id x] \<and>
      dispatch_imports c queue infl = Inr (c', rest, insert (ia_id x) infl))"
proof (cases queue)
  case (Cons x rest)
  show ?thesis
  proof (cases "fc_phase_inflight c = 0")
    case True
    from import_sent [OF assms, of x] obtain c' w where s: "apply_import_action x c = Inr c'" "fs_sent w c c'"
      "import_wait_fs w" "fs_action w = [ia_id x]" by blast
    have "dispatch_imports c' rest i = Inr (c', rest, i)" for i
      using s(2) True by (cases rest) (simp_all add: fs_sent_def can_accept_import_def)
    with Cons True s show ?thesis by (auto simp: can_accept_import_def)
  qed (use Cons in \<open>simp add: can_accept_import_def\<close>)
qed simp

lemma dispatch_projections_ok:
  assumes "fc_open c"
  shows "(dispatch_projections c plan infl = Inr (c, plan, infl)) \<or>
    (\<exists>x rest c' w. fc_phase_inflight c = 0 \<and> plan = x # rest \<and> fs_sent w c c' \<and> projection_wait_fs w \<and> fs_action w = [pa_id x] \<and>
      dispatch_projections c plan infl = Inr (c', rest, insert (pa_id x) infl))"
proof (cases plan)
  case (Cons x rest)
  show ?thesis
  proof (cases "fc_phase_inflight c = 0")
    case True
    from projection_sent [OF assms, of x] obtain c' w where s: "apply_projection_action x c = Inr c'" "fs_sent w c c'"
      "projection_wait_fs w" "fs_action w = [pa_id x]" by blast
    have "dispatch_projections c' rest i = Inr (c', rest, i)" for i
      using s(2) True by (cases rest) (simp_all add: fs_sent_def can_accept_projection_def)
    with Cons True s show ?thesis by (auto simp: can_accept_projection_def)
  qed (use Cons in \<open>simp add: can_accept_projection_def\<close>)
qed simp

lemma phase_fs_kinds: "import_wait_fs w \<Longrightarrow> phase_fs w" "projection_wait_fs w \<Longrightarrow> phase_fs w"
  by (cases w; simp)+

lemma covers_perm: "mset ids = mset ids' \<Longrightarrow> covers full ids E C = covers full ids' E C"
  using mset_eq_imp_distinct_iff [of ids ids'] mset_eq_setD [of ids ids'] by (simp add: covers_def)

lemma outstanding_perm:
  "mset (outside' @ concat (map request_action q')) = mset (outside @ concat (map request_action q)) \<Longrightarrow>
    covers full (outstanding outside' q' a) E C = covers full (outstanding outside q a) E C"
  by (rule covers_perm) (simp add: outstanding_def)

lemma import_flow_perm:
  "mset (outside' @ concat (map request_action q')) = mset (outside @ concat (map request_action q)) \<Longrightarrow>
    list_all import_commit q' = list_all import_commit q \<Longrightarrow> import_flow epoch outside' q' a = import_flow epoch outside q a"
  by (simp only: import_flow_def outstanding_perm [of outside' q' outside q])

lemma projection_flow_perm:
  "mset (outside' @ concat (map request_action q')) = mset (outside @ concat (map request_action q)) \<Longrightarrow>
    list_all projection_commit q' = list_all projection_commit q \<Longrightarrow>
    projection_flow full epoch outside' q' a = projection_flow full epoch outside q a"
  by (simp only: projection_flow_def outstanding_perm [of outside' q' outside q])

lemma projection_flow_weaken: "projection_flow full epoch outside q a \<Longrightarrow> projection_flow False epoch outside q a"
  by (auto simp: projection_flow_def covers_def split: option.splits)

lemma fs_sent_inv:
  assumes "channels_ok e a" and "flags_ok e" and "fs_sent w (en_fs e) c" and "phase_fs w"
  shows "channels_ok (e\<lparr>en_fs := c, en_phase := p\<rparr>) a" "flags_ok (e\<lparr>en_fs := c, en_phase := p\<rparr>)"
    "phase_pending (e\<lparr>en_fs := c, en_phase := p\<rparr>) = phase_pending e @ [w]"
    "phase_queue (e\<lparr>en_fs := c, en_phase := p\<rparr>) = phase_queue e"
    "phase_waits (e\<lparr>en_fs := c, en_phase := p\<rparr>) = phase_waits e"
proof -
  show "channels_ok (e\<lparr>en_fs := c, en_phase := p\<rparr>) a"
    by (rule channels_cong [OF assms(1)]) (use assms(3) in \<open>simp_all add: fs_sent_def\<close>)
qed (use assms(2,3,4) in \<open>simp_all add: fs_sent_def flags_ok_def count_waits_def phase_pending_def phase_queue_def phase_waits_def\<close>)

lemma dispatch_phase_ok:
  assumes "engine_inv e a"
  shows "\<exists>e'. dispatch_phase e = Inr e' \<and> engine_inv e' a"
proof -
  have f: "channels_ok e a" "flags_ok e" "phase_inv e a" "fc_open (en_fs e)"
    using assms by (simp_all add: engine_inv_def channels_ok_def)
  have "(\<exists>epoch queue infl. en_phase e = Importing (ImportDispatching epoch queue infl)) \<or>
      (\<exists>epoch gen plan infl. en_phase e = Projecting (ProjectionDispatching epoch gen plan infl)) \<or> dispatch_phase e = Inr e"
    by (simp add: dispatch_phase_def split: engine_phase.splits import_phase.splits projection_phase.splits)
  then consider (imp) epoch queue infl where "en_phase e = Importing (ImportDispatching epoch queue infl)"
    | (proj) epoch gen plan infl where "en_phase e = Projecting (ProjectionDispatching epoch gen plan infl)"
    | (other) "dispatch_phase e = Inr e"
    by blast
  then show ?thesis
  proof cases
    case imp
    from dispatch_imports_ok [OF f(4), of queue infl] show ?thesis
    proof (elim disjE exE conjE)
      assume "dispatch_imports (en_fs e) queue infl = Inr (en_fs e, queue, infl)"
      moreover have "engine_inv (e\<lparr>en_phase := Importing (ImportDispatching epoch queue infl)\<rparr>) a"
        unfolding imp [symmetric] using assms by simp
      ultimately show ?thesis using imp by (simp add: dispatch_phase_def)
    next
      fix x rest c w
      assume d: "fc_phase_inflight (en_fs e) = 0" "queue = x # rest" "fs_sent w (en_fs e) c" "import_wait_fs w"
        "fs_action w = [ia_id x]" "dispatch_imports (en_fs e) queue infl = Inr (c, rest, insert (ia_id x) infl)"
      let ?p = "Importing (ImportDispatching epoch rest (insert (ia_id x) infl))"
      note v = fs_sent_inv [OF f(1,2) d(3) phase_fs_kinds(1) [OF d(4)], of ?p]
      have F: "phase_pending e = []" using f(3) d(1) by (simp add: phase_inv_def)
      have "import_flow epoch (map ia_id rest @ [ia_id x]) (phase_queue e) a"
        using f(3) imp d(2) F import_flow_perm [of "map ia_id rest @ [ia_id x]" "phase_queue e" "map ia_id queue" "phase_queue e"]
        by (simp add: phase_inv_def phase_state_def)
      then have "phase_inv (e\<lparr>en_fs := c, en_phase := ?p\<rparr>) a"
        using f(3) imp F d v(3-5) by (simp add: phase_inv_def phase_state_def fs_sent_def)
      with imp d(6) v(1,2) show ?thesis by (simp add: dispatch_phase_def engine_inv_def)
    qed
  next
    case proj
    from dispatch_projections_ok [OF f(4), of plan infl] show ?thesis
    proof (elim disjE exE conjE)
      assume "dispatch_projections (en_fs e) plan infl = Inr (en_fs e, plan, infl)"
      moreover have "engine_inv (e\<lparr>en_phase := Projecting (ProjectionDispatching epoch gen plan infl)\<rparr>) a"
        unfolding proj [symmetric] using assms by simp
      ultimately show ?thesis using proj by (simp add: dispatch_phase_def)
    next
      fix x rest c w
      assume d: "fc_phase_inflight (en_fs e) = 0" "plan = x # rest" "fs_sent w (en_fs e) c" "projection_wait_fs w"
        "fs_action w = [pa_id x]" "dispatch_projections (en_fs e) plan infl = Inr (c, rest, insert (pa_id x) infl)"
      let ?p = "Projecting (ProjectionDispatching epoch gen rest (insert (pa_id x) infl))"
      note v = fs_sent_inv [OF f(1,2) d(3) phase_fs_kinds(2) [OF d(4)], of ?p]
      have F: "phase_pending e = []" using f(3) d(1) by (simp add: phase_inv_def)
      have "projection_flow True epoch (map pa_id rest @ [pa_id x]) (phase_queue e) a"
        using f(3) proj d(2) F projection_flow_perm [of "map pa_id rest @ [pa_id x]" "phase_queue e" "map pa_id plan" "phase_queue e"]
        by (simp add: phase_inv_def phase_state_def)
      then have "phase_inv (e\<lparr>en_fs := c, en_phase := ?p\<rparr>) a"
        using f(3) proj F d v(3-5) by (simp add: phase_inv_def phase_state_def fs_sent_def)
      with proj d(6) v(1,2) show ?thesis by (simp add: dispatch_phase_def engine_inv_def)
    qed
  next
    case other
    with assms show ?thesis by simp
  qed
qed

lemma sent_phase_inv:
  assumes "enqueued build wait e e'" and "phase_inv e a" and "fc_phase_inflight (en_fs e) = 0" and "phase_wait wait"
    and "\<And>r. phase_request (build r)" and "phase_waits e = []"
  shows "phase_queue e' = phase_queue e @ [build (sc_next_reply (en_semantic e))]"
    "phase_waits e' = [(sc_next_reply (en_semantic e), wait)]" "phase_pending e' = []" "fc_phase_inflight (en_fs e') = 0"
    "phase_pending e = []"
  using views_enqueued [OF assms(1)] assms by (simp_all add: phase_inv_def enqueued_def)

lemma no_actions:
  "list_all import_wait_fs ws \<Longrightarrow> concat (map fs_action ws) = [] \<Longrightarrow> ws = []"
  "list_all projection_wait_fs ws \<Longrightarrow> concat (map fs_action ws) = [] \<Longrightarrow> ws = []"
  by (cases ws; cases "hd ws"; simp)+

lemma commit_phase_ok:
  assumes "engine_inv e a"
  shows "\<exists>e'. commit_phase e = Inr e' \<and> engine_inv e' a"
proof -
  have f: "channels_ok e a" "flags_ok e" "phase_inv e a" "sc_open (en_semantic e)"
    using assms by (simp_all add: engine_inv_def channels_ok_def)
  let ?r = "sc_next_reply (en_semantic e)"
  have "(\<exists>epoch. en_phase e = Importing (ImportDispatching epoch [] {})) \<or>
      (\<exists>epoch gen reason. en_phase e = Projecting (ProjectionDispatching epoch gen [] {}) \<and> reason = PlanExhausted \<or>
        en_phase e = Projecting (ProjectionDraining epoch gen reason {})) \<or> commit_phase e = Inr e"
    by (auto simp: commit_phase_def split: engine_phase.splits import_phase.splits projection_phase.splits)
  then consider (imp) epoch where "en_phase e = Importing (ImportDispatching epoch [] {})"
    | (proj) epoch gen reason where "en_phase e = Projecting (ProjectionDispatching epoch gen [] {}) \<and> reason = PlanExhausted \<or>
        en_phase e = Projecting (ProjectionDraining epoch gen reason {})"
    | (other) "commit_phase e = Inr e"
    by blast
  then show ?thesis
  proof cases
    case imp
    let ?e = "e\<lparr>en_semantic := (en_semantic e)\<lparr>sc_sent := sc_sent (en_semantic e) @ [CommitImportEpoch epoch ?r],
        sc_pending := sc_pending (en_semantic e) @ [(?r, WaitCommitImportEpoch)], sc_next_reply := ?r + 1\<rparr>,
        en_phase := Importing (ImportCommitting epoch)\<rparr>"
    have run: "commit_phase e = Inr ?e"
      using imp f(4) by (simp add: commit_phase_def with_semantic_def sc_commit_import_epoch_def enqueue_open)
    have q: "enqueued (CommitImportEpoch epoch) WaitCommitImportEpoch e ?e" by (simp add: enqueued_def)
    have none: "phase_pending e = []" "phase_waits e = []" "no_projection a" "import_flow epoch [] (phase_queue e) a"
      using f(3) imp no_actions(1) [of "phase_pending e"] by (auto simp: phase_inv_def phase_state_def)
    then have "fc_phase_inflight (en_fs e) = 0" using f(3) by (simp add: phase_inv_def)
    note v = sent_phase_inv [OF q f(3) this _ _ none(2)]
    have "flags_ok ?e" using f(2) unfolding flags_ok_def views_enqueued(4) [OF q] by simp
    moreover have "phase_inv ?e a" using v none by (auto simp: phase_inv_def phase_state_def)
    ultimately show ?thesis using run channels_enqueued [OF q f(1)] by (simp add: engine_inv_def)
  next
    case proj
    let ?e = "e\<lparr>en_semantic := (en_semantic e)\<lparr>sc_sent := sc_sent (en_semantic e) @ [CommitProjectionEpoch epoch reason ?r],
        sc_pending := sc_pending (en_semantic e) @ [(?r, WaitCommitProjectionEpoch)], sc_next_reply := ?r + 1\<rparr>,
        en_phase := Projecting (ProjectionCommitting epoch gen)\<rparr>"
    have run: "commit_phase e = Inr ?e"
      using proj f(4) by (auto simp: commit_phase_def with_semantic_def sc_commit_projection_epoch_def enqueue_open)
    have q: "enqueued (CommitProjectionEpoch epoch reason) WaitCommitProjectionEpoch e ?e" by (simp add: enqueued_def)
    have none: "phase_pending e = []" "phase_waits e = []" "no_import a"
      "projection_flow (reason = PlanExhausted) epoch [] (phase_queue e) a"
      using f(3) proj no_actions(2) [of "phase_pending e"] by (auto simp: phase_inv_def phase_state_def)
    then have "fc_phase_inflight (en_fs e) = 0" using f(3) by (simp add: phase_inv_def)
    note v = sent_phase_inv [OF q f(3) this _ _ none(2)]
    have "flags_ok ?e" using f(2) unfolding flags_ok_def views_enqueued(4) [OF q] by simp
    moreover have "phase_inv ?e a" using v none by (auto simp: phase_inv_def phase_state_def)
    ultimately show ?thesis using run channels_enqueued [OF q f(1)] by (simp add: engine_inv_def)
  next
    case other
    with assms show ?thesis by simp
  qed
qed

lemma drive_ok:
  assumes "engine_inv e a"
  shows "\<exists>e'. drive e = Inr e' \<and> engine_inv e' a"
proof -
  obtain e1 where e1: "drive_cleanup e = Inr e1" "engine_inv e1 a" using drive_cleanup_ok [OF assms] by blast
  obtain e2 where e2: "dispatch_phase e1 = Inr e2" "engine_inv e2 a" using dispatch_phase_ok [OF e1(2)] by blast
  from commit_phase_ok [OF e2(2)] e1 e2 show ?thesis by (simp add: drive_def drive_phase_def)
qed

end
