(* ===== verification/Protocol_Turns.thy ===== *)
theory Protocol_Turns
  imports Protocol
begin

text \<open>
  The turns of the composed system: responses of the file system, replies and events of the
  semantic actor, requests taken by the actor and tasks it finishes all keep the invariant of
  \<open>Protocol\<close>. The properties at the end say that the engine and the actor never break the
  protocol, and that a phase of the engine always has something outstanding that ends it.
\<close>

section \<open>Lemmas: responses of the file system\<close>

lemma fs_response_kinds:
  "fs_response_of w reply = Some response \<Longrightarrow>
     (w = WaitScan \<and> (\<exists>r. response = RespScan r \<and> (reply \<noteq> FsFailed \<longrightarrow> is_ok r))) \<or>
     (import_wait_fs w \<and> (\<exists>r. response = RespImportAction r \<and> fs_action w = [import_result_action_id r])) \<or>
     (projection_wait_fs w \<and> (\<exists>r. response = RespProjectionAction r \<and> fs_action w = [projection_result_action_id r])) \<or>
     (\<exists>p. w = WaitCleanup p \<and> response = RespDeleteIfExists p)"
  by (cases w; cases reply) (auto simp: fs_response_of_def is_ok_def)

lemma filter_drop_nth:
  assumes "k < length xs"
  shows "\<exists>ys zs. filter P xs = ys @ filter P [xs ! k] @ zs \<and> filter P (drop_nth k xs) = ys @ zs"
proof -
  have "filter P xs = filter P (take k xs) @ filter P [xs ! k] @ filter P (drop (Suc k) xs)"
    using id_take_nth_drop [OF assms] by (metis append_Cons append_Nil filter_append)
  then show ?thesis by (auto simp: drop_nth_def)
qed

definition fs_done :: "fs_client \<Rightarrow> nat \<Rightarrow> fs_client \<Rightarrow> bool" where
  "fs_done c k c' \<longleftrightarrow> fc_open c' = fc_open c \<and> fc_pending c' = drop_nth k (fc_pending c) \<and>
     fc_phase_inflight c' = fc_phase_inflight c - of_bool (phase_fs (fc_pending c ! k)) \<and>
     fc_cleanup_inflight c' = fc_cleanup_inflight c - of_bool (\<not> phase_fs (fc_pending c ! k))"

lemma fs_next_ok:
  assumes "k < length (fc_pending c)" and "fs_response_of (fc_pending c ! k) reply = Some response"
    and "fc_phase_inflight c = length (filter phase_fs (fc_pending c))"
    and "fc_cleanup_inflight c = length (filter (Not \<circ> phase_fs) (fc_pending c))"
  shows "\<exists>c'. fs_client_next k response c = Inr c' \<and> fs_done c k c' \<and>
    fc_phase_inflight c' = length (filter phase_fs (fc_pending c')) \<and>
    fc_cleanup_inflight c' = length (filter (Not \<circ> phase_fs) (fc_pending c'))"
proof -
  obtain ys zs ys' zs' where f: "filter phase_fs (fc_pending c) = ys @ filter phase_fs [fc_pending c ! k] @ zs"
    "filter phase_fs (drop_nth k (fc_pending c)) = ys @ zs"
    "filter (Not \<circ> phase_fs) (fc_pending c) = ys' @ filter (Not \<circ> phase_fs) [fc_pending c ! k] @ zs'"
    "filter (Not \<circ> phase_fs) (drop_nth k (fc_pending c)) = ys' @ zs'"
    using filter_drop_nth [OF assms(1), of phase_fs] filter_drop_nth [OF assms(1), of "Not \<circ> phase_fs"] by blast
  from fs_response_kinds [OF assms(2)] f assms(3,4) show ?thesis
    by (cases "fc_pending c ! k") (auto simp: fs_client_next_def checked_pred_def fs_done_def Let_def)
qed

lemma fs_done_channels:
  "channels_ok e a \<Longrightarrow> fs_done (en_fs e) k c \<Longrightarrow> channels_ok (e\<lparr>en_fs := c, en_phase := p\<rparr>) a"
  by (rule channels_cong) (simp_all add: fs_done_def)

lemma fs_done_flags:
  "flags_ok e \<Longrightarrow> fc_cleanup_inflight c = length (filter (Not \<circ> phase_fs) (fc_pending c)) \<Longrightarrow>
    flags_ok (e\<lparr>en_fs := c, en_phase := p\<rparr>)"
  by (simp add: flags_ok_def count_waits_def)

text \<open>Leaving the phase behind, the rest of a response handler.\<close>

lemma posted_inv:
  assumes "channels_ok e a" and "flags_ok e" and "posted q e e'" and "request_reply q = []"
    and "en_outbox_read_in_flight e' = en_outbox_read_in_flight e"
    and "en_outbox_release_in_flight e' = en_outbox_release_in_flight e"
    and "en_reader_reconnect_cursor_in_flight e' = en_reader_reconnect_cursor_in_flight e"
    and "sc_in_flight_read_outbox (en_semantic e') = sc_in_flight_read_outbox (en_semantic e)"
    and "sc_in_flight_apply_shared_message_batch (en_semantic e') = sc_in_flight_apply_shared_message_batch (en_semantic e)"
  shows "channels_ok e' a" "flags_ok e'"
proof -
  show "channels_ok e' a" by (rule channels_posted [OF assms(3,1,4)])
  show "flags_ok e'" using assms(2,3,5-9) unfolding flags_ok_def views_posted(4) [OF assms(3)] by (simp add: posted_def)
qed

text \<open>A scan request outside \<open>Idle\<close> only records the scope.\<close>

lemma request_scan_busy:
  "en_phase e \<noteq> Idle \<Longrightarrow>
    \<exists>s. (if b then request_scan Full e else Inr e) = Inr (e\<lparr>en_pending_scan_scope := s\<rparr>)"
proof (cases b)
  case False
  then show ?thesis by (intro exI [of _ "en_pending_scan_scope e"]) simp
qed (auto simp: request_scan_def Let_def)

lemma import_flow_epoch:
  assumes "import_flow epoch outside queue a" and "actor_ok a" and "i \<in> set (outstanding outside queue a)"
  shows "fst i = epoch"
  using assms by (auto simp: import_flow_def covers_def actor_ok_def runtime_ok_def ledger_ok_def list_all_iff split: option.splits)

lemma projection_flow_epoch:
  assumes "projection_flow full epoch outside queue a" and "actor_ok a" and "i \<in> set (outstanding outside queue a)"
  shows "fst i = epoch"
  using assms
  by (auto simp: projection_flow_def covers_def actor_ok_def runtime_ok_def ledger_ok_def list_all_iff split: option.splits)

lemma projection_flow_fewer:
  assumes "projection_flow full epoch (xs @ ys) queue a"
  shows "projection_flow False epoch ys queue a"
  using assms by (auto simp: projection_flow_def covers_def outstanding_def split: option.splits)

lemma import_response_ok:
  assumes "actor_ok a" and "channels_ok e a" and "flags_ok e" and "phase_inv e a" and "phase_pending e = [w]"
    and "import_wait_fs w" and "fs_action w = [import_result_action_id result]"
    and "fs_done (en_fs e) k c" and "fc_phase_inflight c = length (filter phase_fs (fc_pending c))"
    and "filter phase_fs (fc_pending c) = []"
    and "fc_cleanup_inflight c = length (filter (Not \<circ> phase_fs) (fc_pending c))"
  shows "\<exists>e'. handle_import_action result (e\<lparr>en_fs := c\<rparr>) = Inr e' \<and> engine_inv e' a"
proof -
  let ?i = "import_result_action_id result" and ?q = "CommitImportAction result None"
  have "(\<exists>epoch queue infl. en_phase e = Importing (ImportDispatching epoch queue infl))"
    using assms(4,5,6) by (cases w) (auto simp: phase_inv_def phase_state_def at_boundary_def
        split: engine_phase.splits import_phase.splits projection_phase.splits)
  then obtain epoch queue infl where ph: "en_phase e = Importing (ImportDispatching epoch queue infl)" by blast
  with assms(4,5,7) have f: "infl = {?i}" "phase_waits e = []" "no_projection a"
    "import_flow epoch (map ia_id queue @ [?i]) (phase_queue e) a"
    by (auto simp: phase_inv_def phase_state_def)
  have i: "fst ?i = epoch" by (rule import_flow_epoch [OF f(4) assms(1)]) (simp add: outstanding_def)
  let ?e1 = "e\<lparr>en_fs := c, en_phase := Importing (ImportDispatching epoch queue {})\<rparr>"
  obtain s where s: "(if invalidates_import result then request_scan Full ?e1 else Inr ?e1) =
      Inr (?e1\<lparr>en_pending_scan_scope := s\<rparr>)"
    using request_scan_busy [of ?e1 "invalidates_import result"] by auto
  let ?e2 = "?e1\<lparr>en_pending_scan_scope := s, en_semantic := (en_semantic e)\<lparr>sc_sent := sc_sent (en_semantic e) @ [?q]\<rparr>\<rparr>"
  have open': "sc_open (en_semantic e)" using assms(2) by (simp add: channels_ok_def)
  have run: "handle_import_action result (e\<lparr>en_fs := c\<rparr>) = Inr ?e2"
    using ph f(1) i s open'
    by (simp add: handle_import_action_def Let_def with_semantic_def sc_commit_import_action_def post_open)
  have q: "posted ?q ?e1 ?e2" by (simp add: posted_def)
  note inv = posted_inv [OF fs_done_channels [OF assms(2,8)] fs_done_flags [OF assms(3,11)] q]
  have v: "phase_queue ?e2 = phase_queue e @ [?q]" "phase_waits ?e2 = []" "phase_pending ?e2 = []"
    "phase_queue ?e1 = phase_queue e" using f(2) assms(10) by (simp_all add: phase_queue_def phase_waits_def phase_pending_def)
  have "import_flow epoch (map ia_id queue) (phase_queue e @ [?q]) a"
    using f(4) import_flow_perm [of "map ia_id queue" "phase_queue e @ [?q]" "map ia_id queue @ [?i]" "phase_queue e"] by simp
  then have "phase_inv ?e2 a" using f(3) v assms(9,10) by (simp add: phase_inv_def phase_state_def)
  with run inv show ?thesis by (simp add: engine_inv_def)
qed

lemma projection_response_ok:
  assumes "actor_ok a" and "channels_ok e a" and "flags_ok e" and "phase_inv e a" and "phase_pending e = [w]"
    and "projection_wait_fs w" and "fs_action w = [projection_result_action_id result]"
    and "fs_done (en_fs e) k c" and "fc_phase_inflight c = length (filter phase_fs (fc_pending c))"
    and "filter phase_fs (fc_pending c) = []"
    and "fc_cleanup_inflight c = length (filter (Not \<circ> phase_fs) (fc_pending c))"
  shows "\<exists>e'. handle_projection_action result (e\<lparr>en_fs := c\<rparr>) = Inr e' \<and> engine_inv e' a"
proof -
  let ?i = "projection_result_action_id result" and ?q = "CommitProjectionAction result None"
  have "(\<exists>epoch gen plan infl. en_phase e = Projecting (ProjectionDispatching epoch gen plan infl)) \<or>
      (\<exists>epoch gen reason infl. en_phase e = Projecting (ProjectionDraining epoch gen reason infl))"
    using assms(4,5,6) by (cases w) (auto simp: phase_inv_def phase_state_def at_boundary_def
        split: engine_phase.splits import_phase.splits projection_phase.splits)
  then have "\<exists>epoch p full outside. projection_after_action result (e\<lparr>en_fs := c\<rparr>) = Inr (e\<lparr>en_fs := c, en_phase := p\<rparr>) \<and>
      p \<noteq> Idle \<and> phase_waits e = [] \<and> no_import a \<and> projection_flow full epoch (outside @ [?i]) (phase_queue e) a \<and>
      ((\<exists>gen plan. p = Projecting (ProjectionDispatching epoch gen plan {}) \<and> full \<and> outside = map pa_id plan) \<or>
       (\<exists>gen reason. p = Projecting (ProjectionDraining epoch gen reason {}) \<and> reason \<noteq> PlanExhausted \<and> outside = []))"
  proof (elim disjE exE)
    fix epoch gen plan infl
    assume ph: "en_phase e = Projecting (ProjectionDispatching epoch gen plan infl)"
    with assms(4,5,7) have f: "infl = {?i}" "phase_waits e = []" "no_import a"
      "projection_flow True epoch (map pa_id plan @ [?i]) (phase_queue e) a"
      by (auto simp: phase_inv_def phase_state_def)
    have i: "fst ?i = epoch" by (rule projection_flow_epoch [OF f(4) assms(1)]) (simp add: outstanding_def)
    show ?thesis
    proof (cases "invalidates_projection result")
      case True
      with ph f i projection_flow_fewer [OF f(4)] show ?thesis
        by (intro exI [of _ epoch] exI [of _ "Projecting (ProjectionDraining epoch gen (ActionInvalidatedProjection ?i) {})"]
            exI [of _ False] exI [of _ "[]"]) (simp add: projection_after_action_def Let_def)
    next
      case False
      with ph f i show ?thesis
        by (intro exI [of _ epoch] exI [of _ "Projecting (ProjectionDispatching epoch gen plan {})"]
            exI [of _ True] exI [of _ "map pa_id plan"]) (simp add: projection_after_action_def Let_def)
    qed
  next
    fix epoch gen reason infl
    assume ph: "en_phase e = Projecting (ProjectionDraining epoch gen reason infl)"
    with assms(4,5,7) have f: "infl = {?i}" "phase_waits e = []" "no_import a" "reason \<noteq> PlanExhausted"
      "projection_flow False epoch [?i] (phase_queue e) a"
      by (auto simp: phase_inv_def phase_state_def)
    have i: "fst ?i = epoch" by (rule projection_flow_epoch [OF f(5) assms(1)]) (simp add: outstanding_def)
    with ph f show ?thesis
      by (intro exI [of _ epoch] exI [of _ "Projecting (ProjectionDraining epoch gen reason {})"]
          exI [of _ False] exI [of _ "[]"]) (simp add: projection_after_action_def Let_def)
  qed
  then obtain epoch p full outside where f:
    "projection_after_action result (e\<lparr>en_fs := c\<rparr>) = Inr (e\<lparr>en_fs := c, en_phase := p\<rparr>)" "p \<noteq> Idle" "phase_waits e = []"
    "no_import a" "projection_flow full epoch (outside @ [?i]) (phase_queue e) a"
    "(\<exists>gen plan. p = Projecting (ProjectionDispatching epoch gen plan {}) \<and> full \<and> outside = map pa_id plan) \<or>
       (\<exists>gen reason. p = Projecting (ProjectionDraining epoch gen reason {}) \<and> reason \<noteq> PlanExhausted \<and> outside = [])"
    by blast
  let ?cq = "case cleanup_path result of Some path \<Rightarrow> en_cleanup_queue e @ [path] | None \<Rightarrow> en_cleanup_queue e"
  let ?e0 = "e\<lparr>en_fs := c, en_phase := p\<rparr>"
  let ?e1 = "?e0\<lparr>en_cleanup_queue := ?cq\<rparr>"
  have e1: "(case cleanup_path result of Some path \<Rightarrow> ?e0\<lparr>en_cleanup_queue := en_cleanup_queue ?e0 @ [path]\<rparr> | None \<Rightarrow> ?e0) = ?e1"
    by (simp split: option.splits)
  obtain s where s: "(if invalidates_projection result then request_scan Full ?e1 else Inr ?e1) =
      Inr (?e1\<lparr>en_pending_scan_scope := s\<rparr>)"
    using request_scan_busy [of ?e1 "invalidates_projection result"] f(2) by auto
  let ?e2 = "?e1\<lparr>en_pending_scan_scope := s, en_semantic := (en_semantic e)\<lparr>sc_sent := sc_sent (en_semantic e) @ [?q]\<rparr>\<rparr>"
  have open': "sc_open (en_semantic e)" using assms(2) by (simp add: channels_ok_def)
  have run: "handle_projection_action result (e\<lparr>en_fs := c\<rparr>) = Inr ?e2"
    unfolding handle_projection_action_def f(1) Let_def bind_res_Inr e1 s
    using open' by (simp add: with_semantic_def sc_commit_projection_action_def post_open)
  have q: "posted ?q ?e0 ?e2" by (simp add: posted_def)
  note inv = posted_inv [OF fs_done_channels [OF assms(2,8)] fs_done_flags [OF assms(3,11)] q]
  have v: "phase_queue ?e2 = phase_queue e @ [?q]" "phase_waits ?e2 = []" "phase_pending ?e2 = []"
    using f(3) assms(10) by (simp_all add: phase_queue_def phase_waits_def phase_pending_def)
  have "projection_flow full epoch outside (phase_queue e @ [?q]) a"
    using f(5) projection_flow_perm [of outside "phase_queue e @ [?q]" "outside @ [?i]" "phase_queue e"] by simp
  then have "phase_inv ?e2 a" using f(4,6) v assms(9,10) projection_flow_weaken by (auto simp: phase_inv_def phase_state_def)
  with run inv show ?thesis by (simp add: engine_inv_def)
qed

lemma scan_response_ok:
  assumes "channels_ok e a" and "flags_ok e" and "phase_inv e a" and "phase_pending e = [WaitScan]"
    and "fs_done (en_fs e) k c" and "fc_phase_inflight c = length (filter phase_fs (fc_pending c))"
    and "filter phase_fs (fc_pending c) = []"
    and "fc_cleanup_inflight c = length (filter (Not \<circ> phase_fs) (fc_pending c))"
  shows "\<exists>e'. handle_fs_response (RespScan (Inr scan)) (e\<lparr>en_fs := c\<rparr>) = Inr e' \<and> engine_inv e' a"
proof -
  let ?r = "sc_next_reply (en_semantic e)"
  have "\<exists>s. en_phase e = Scanning s"
    using assms(3,4) by (auto simp: phase_inv_def phase_state_def at_boundary_def
        split: engine_phase.splits import_phase.splits projection_phase.splits)
  then obtain s where ph: "en_phase e = Scanning s" by blast
  let ?e1 = "e\<lparr>en_fs := c, en_phase := PlanningImport\<rparr>"
  let ?e2 = "?e1\<lparr>en_semantic := (en_semantic e)\<lparr>sc_sent := sc_sent (en_semantic e) @ [ApplyScan scan ?r],
      sc_pending := sc_pending (en_semantic e) @ [(?r, WaitApplyScan)], sc_next_reply := ?r + 1\<rparr>\<rparr>"
  have run: "handle_fs_response (RespScan (Inr scan)) (e\<lparr>en_fs := c\<rparr>) = Inr ?e2"
    using ph assms(1) by (simp add: handle_fs_response_def with_semantic_def sc_apply_scan_def enqueue_open channels_ok_def)
  have q: "enqueued (ApplyScan scan) WaitApplyScan ?e1 ?e2" by (simp add: enqueued_def)
  have "flags_ok ?e2"
    using fs_done_flags [OF assms(2,8), of PlanningImport] unfolding flags_ok_def views_enqueued(4) [OF q] by simp
  moreover have "phase_inv ?e2 a"
    using assms(3,6,7) ph by (auto simp: phase_inv_def phase_state_def quiet_def phase_queue_def phase_waits_def
        phase_pending_def)
  ultimately show ?thesis
    using run channels_enqueued [OF q fs_done_channels [OF assms(1,5)]] by (simp add: engine_inv_def)
qed

lemma fs_reply_ok:
  assumes "engine_inv e a" and "actor_ok a"
    and "k < length (fc_pending (en_fs e)) \<longrightarrow> fc_pending (en_fs e) ! k = WaitScan \<longrightarrow> reply \<noteq> FsFailed"
  shows "\<exists>e'. engine_event X ck (EvFsReply k reply) e = Inr (Some e') \<and> engine_inv e' a"
proof (cases "k < length (fc_pending (en_fs e)) \<and> fs_response_of (fc_pending (en_fs e) ! k) reply \<noteq> None")
  case False
  with assms(1) show ?thesis by (auto simp: engine_event_def)
next
  case True
  let ?w = "fc_pending (en_fs e) ! k"
  from True obtain response where k: "k < length (fc_pending (en_fs e))" "fs_response_of ?w reply = Some response" by blast
  have f: "channels_ok e a" "flags_ok e" "phase_inv e a" using assms(1) by (simp_all add: engine_inv_def)
  have n: "fc_phase_inflight (en_fs e) = length (filter phase_fs (fc_pending (en_fs e)))"
    "fc_cleanup_inflight (en_fs e) = length (filter (Not \<circ> phase_fs) (fc_pending (en_fs e)))"
    using f by (simp_all add: phase_inv_def phase_pending_def flags_ok_def)
  from fs_next_ok [OF k n] obtain c where c: "fs_client_next k response (en_fs e) = Inr c" "fs_done (en_fs e) k c"
    "fc_phase_inflight c = length (filter phase_fs (fc_pending c))"
    "fc_cleanup_inflight c = length (filter (Not \<circ> phase_fs) (fc_pending c))" by blast
  have turn: "engine_event X ck (EvFsReply k reply) e = map_ok Some (handle_fs_response response (e\<lparr>en_fs := c\<rparr>))"
    using k c(1) by (simp add: engine_event_def with_fs_def)
  obtain ys zs where p: "phase_pending e = ys @ filter phase_fs [?w] @ zs" "filter phase_fs (fc_pending c) = ys @ zs"
    using filter_drop_nth [OF k(1), of phase_fs] c(2) by (auto simp: fs_done_def phase_pending_def)
  have one: "length (phase_pending e) \<le> 1"
    using f(3) by (auto simp: phase_inv_def phase_state_def at_boundary_def
        split: engine_phase.splits import_phase.splits projection_phase.splits)
  have last_phase: "phase_pending e = [?w]" "filter phase_fs (fc_pending c) = []" if "phase_fs ?w"
    using p one that by auto
  from fs_response_kinds [OF k(2)] show ?thesis
  proof (elim disjE conjE exE)
    fix r
    assume w: "?w = WaitScan" "response = RespScan r" "reply \<noteq> FsFailed \<longrightarrow> is_ok r"
    then obtain scan where scan: "r = Inr scan" using assms(3) k(1) by (auto simp: is_ok_def split: sum.splits)
    from scan_response_ok [OF f _ c(2,3) _ c(4), of scan] last_phase w(1) obtain e' where
      "handle_fs_response (RespScan (Inr scan)) (e\<lparr>en_fs := c\<rparr>) = Inr e'" "engine_inv e' a" by auto
    with turn w(2) scan show ?thesis by simp
  next
    fix r
    assume w: "import_wait_fs ?w" "response = RespImportAction r" "fs_action ?w = [import_result_action_id r]"
    from import_response_ok [OF assms(2) f _ w(1,3) c(2,3) _ c(4)] last_phase phase_fs_kinds(1) [OF w(1)] obtain e' where
      "handle_import_action r (e\<lparr>en_fs := c\<rparr>) = Inr e'" "engine_inv e' a" by auto
    with turn w(2) show ?thesis by (simp add: handle_fs_response_def)
  next
    fix r
    assume w: "projection_wait_fs ?w" "response = RespProjectionAction r" "fs_action ?w = [projection_result_action_id r]"
    from projection_response_ok [OF assms(2) f _ w(1,3) c(2,3) _ c(4)] last_phase phase_fs_kinds(2) [OF w(1)] obtain e' where
      "handle_projection_action r (e\<lparr>en_fs := c\<rparr>) = Inr e'" "engine_inv e' a" by auto
    with turn w(2) show ?thesis by (simp add: handle_fs_response_def)
  next
    fix path
    assume w: "?w = WaitCleanup path" "response = RespDeleteIfExists path"
    let ?e = "e\<lparr>en_fs := c, en_phase := en_phase e\<rparr>"
    have "same_views e ?e" using p w(1) by (simp add: same_views_def phase_queue_def phase_waits_def phase_pending_def)
    from phase_state_cong [OF this] have "phase_inv ?e a"
      using f(3) p w(1) c(3) by (simp add: phase_inv_def phase_pending_def)
    with fs_done_channels [OF f(1) c(2)] fs_done_flags [OF f(2) c(4)] have "engine_inv ?e a" unfolding engine_inv_def by blast
    with turn w(2) show ?thesis by (simp add: handle_fs_response_def)
  qed
qed

section \<open>Lemmas: replies of the semantic actor\<close>

lemma lane_sent [simp]:
  "lane (a\<lparr>act_replies := x\<rparr>) = lane a" "lane (a\<lparr>act_events := y\<rparr>) = lane a"
  by (simp_all add: lane_def)

lemma views_sent [simp]:
  "phase_lane (a\<lparr>act_replies := x\<rparr>) = phase_lane a" "phase_lane (a\<lparr>act_events := y\<rparr>) = phase_lane a"
  "no_import (a\<lparr>act_replies := x\<rparr>) = no_import a" "no_import (a\<lparr>act_events := y\<rparr>) = no_import a"
  "no_projection (a\<lparr>act_replies := x\<rparr>) = no_projection a" "no_projection (a\<lparr>act_events := y\<rparr>) = no_projection a"
  "outstanding ids q (a\<lparr>act_replies := x\<rparr>) = outstanding ids q a" "outstanding ids q (a\<lparr>act_events := y\<rparr>) = outstanding ids q a"
  by (simp_all add: phase_lane_def no_import_def no_projection_def outstanding_def)

lemma flows_sent [simp]:
  "import_flow epoch ids q (a\<lparr>act_replies := x\<rparr>) = import_flow epoch ids q a"
  "import_flow epoch ids q (a\<lparr>act_events := y\<rparr>) = import_flow epoch ids q a"
  "projection_flow full epoch ids q (a\<lparr>act_replies := x\<rparr>) = projection_flow full epoch ids q a"
  "projection_flow full epoch ids q (a\<lparr>act_events := y\<rparr>) = projection_flow full epoch ids q a"
  by (simp_all add: import_flow_def projection_flow_def split: option.splits)

lemma answers_sent [simp]:
  "import_answer (a\<lparr>act_replies := x\<rparr>) = import_answer a" "import_answer (a\<lparr>act_events := y\<rparr>) = import_answer a"
  "projection_answer (a\<lparr>act_replies := x\<rparr>) = projection_answer a" "projection_answer (a\<lparr>act_events := y\<rparr>) = projection_answer a"
  by (simp_all add: fun_eq_iff import_answer_def projection_answer_def split: reply_value.splits sum.splits next_work.splits)

text \<open>Only replies of phase waits matter to the phase.\<close>

lemma phase_state_replies:
  assumes "\<And>r w P. (r, w) \<in> set (phase_waits e) \<Longrightarrow> answered r P a \<Longrightarrow> answered r P (a\<lparr>act_replies := x\<rparr>)"
    and "phase_state phase e a"
  shows "phase_state phase e (a\<lparr>act_replies := x\<rparr>)"
  using assms(2) assms(1)
  by (auto simp: phase_state_def at_boundary_def quiet_def split: engine_phase.splits import_phase.splits
      projection_phase.splits)

lemma replies_split:
  "k < length (act_replies a) \<Longrightarrow> act_replies a ! k = (r, v) \<Longrightarrow>
    \<exists>xs ys. act_replies a = xs @ (r, v) # ys \<and> drop_nth k (act_replies a) = xs @ ys"
  by (metis drop_nth_def id_take_nth_drop)

lemma reply_dropped:
  assumes "engine_inv e a" and "act_replies a = xs @ (r, v) # ys"
  shows "channels_ok e (a\<lparr>act_replies := xs @ ys\<rparr>)"
    "r \<notin> fst ` set (phase_waits e) \<Longrightarrow> engine_inv e (a\<lparr>act_replies := xs @ ys\<rparr>)"
proof -
  let ?a = "a\<lparr>act_replies := xs @ ys\<rparr>"
  have c: "channels_ok e a" "flags_ok e" "phase_inv e a" using assms(1) by (simp_all add: engine_inv_def)
  have "mset (reply_ids e ?a) \<subseteq># mset (reply_ids e a)" using assms(2) by (simp add: reply_ids_def)
  note fewer = fresh_fewer [OF this]
  have "distinct (reply_ids e a)" "list_all (\<lambda>r. r < sc_next_reply (en_semantic e)) (reply_ids e a)"
    using c(1) by (simp_all add: channels_ok_def)
  from fewer [OF this] c(1) show ch: "channels_ok e ?a" by (simp add: channels_ok_def)
  assume r: "r \<notin> fst ` set (phase_waits e)"
  have "answered r' P ?a" if "(r', w) \<in> set (phase_waits e)" "answered r' P a" for r' w P
    using that r assms(2) by (force simp: answered_def list_ex_iff)
  from phase_state_replies [OF this, where phase = "en_phase e"] c(3) have "phase_inv e ?a"
    by (simp add: phase_inv_def)
  with ch c(2) show "engine_inv e ?a" by (simp add: engine_inv_def)
qed

text \<open>The wait determines the phase.\<close>

lemma phase_wait_kinds:
  assumes "phase_state phase e a" and "(r, w) \<in> set (phase_waits e)"
  shows "phase_waits e = [(r, w)] \<and>
    ((\<exists>b dirty. phase = AwaitingNextWork b dirty \<and> w = WaitGetNextWork b) \<or>
     (phase = PlanningImport \<and> w = WaitApplyScan) \<or>
     (\<exists>ep. phase = Importing (ImportCommitting ep) \<and> w = WaitCommitImportEpoch) \<or>
     (\<exists>ep g. phase = Projecting (ProjectionCommitting ep g) \<and> w = WaitCommitProjectionEpoch))"
proof (cases phase)
  case (Importing p)
  with assms show ?thesis by (cases p) (auto simp: phase_state_def)
next
  case (Projecting p)
  with assms show ?thesis by (cases p) (auto simp: phase_state_def)
qed (use assms in \<open>auto simp: phase_state_def at_boundary_def\<close>)

text \<open>A reply to a phase wait arrives in the phase that waits for it.\<close>

lemma phase_answer:
  assumes "engine_inv e a" and "act_replies a = xs @ (r, v) # ys" and "(r, w) \<in> set (phase_waits e)"
  shows "phase_waits e = [(r, w)] \<and> phase_pending e = [] \<and> quiet e a \<and>
    ((\<exists>b dirty. en_phase e = AwaitingNextWork b dirty \<and> w = WaitGetNextWork b \<and> no_import a \<and> projection_answer a v) \<or>
     (en_phase e = PlanningImport \<and> w = WaitApplyScan \<and> no_projection a \<and> import_answer a v) \<or>
     (\<exists>ep. en_phase e = Importing (ImportCommitting ep) \<and> w = WaitCommitImportEpoch \<and> no_import a \<and> no_projection a \<and>
       unit_answer v) \<or>
     (\<exists>ep g. en_phase e = Projecting (ProjectionCommitting ep g) \<and> w = WaitCommitProjectionEpoch \<and> no_import a \<and>
       no_projection a \<and> unit_answer v))"
proof -
  have c: "distinct (reply_ids e a)" and ph: "phase_state (en_phase e) e a"
    using assms(1) by (simp_all add: engine_inv_def channels_ok_def phase_inv_def)
  have n: "r \<notin> set (concat (map request_reply (sc_sent (en_semantic e))))" "r \<notin> set (concat (map (pending_reply \<circ> snd) (lane a)))"
    "r \<notin> fst ` set xs" "r \<notin> fst ` set ys"
    using c unfolding reply_ids_def assms(2) by auto
  have "phase_queue e \<noteq> q @ [x]" if "r \<in> set (request_reply x)" for q x
  proof
    assume "phase_queue e = q @ [x]"
    then have "x \<in> set (phase_queue e)" by simp
    then have "x \<in> set (sc_sent (en_semantic e))" by (simp add: phase_queue_def)
    with n(1) that show False by auto
  qed
  from this [of "GetNextWork r" "[]"] this [of "ApplyScan scan r" "[]" for scan] this [of "CommitImportEpoch ep r" for ep]
    this [of "CommitProjectionEpoch ep reason r" for ep reason]
  have q: "phase_queue e \<noteq> [GetNextWork r]" "\<And>scan. phase_queue e \<noteq> [ApplyScan scan r]"
    "\<And>q ep. phase_queue e \<noteq> q @ [CommitImportEpoch ep r]" "\<And>q ep reason. phase_queue e \<noteq> q @ [CommitProjectionEpoch ep reason r]"
    by simp_all
  have l: "phase_lane a \<noteq> [(t, kind)]" if "r \<in> set (pending_reply kind)" for t kind
  proof
    assume "phase_lane a = [(t, kind)]"
    then have "(t, kind) \<in> set (phase_lane a)" by simp
    then have "(t, kind) \<in> set (lane a)" by (simp add: phase_lane_def)
    with n(2) that show False by auto
  qed
  have ans: "P v" if "answered r P a" for P
    using that n(3,4) assms(2) by (auto simp: answered_def list_ex_iff image_iff)
  from phase_wait_kinds [OF ph assms(3)] show ?thesis
  proof (elim conjE disjE exE)
    fix b dirty
    assume w: "phase_waits e = [(r, w)]" "en_phase e = AwaitingNextWork b dirty" "w = WaitGetNextWork b"
    with ph q(1) l [of "PGetNextWork r"] ans [of "projection_answer a"] show ?thesis by (simp add: phase_state_def)
  next
    assume w: "phase_waits e = [(r, w)]" "en_phase e = PlanningImport" "w = WaitApplyScan"
    with ph q(2) l [of "PApplyScan r"] ans [of "import_answer a"] show ?thesis by (simp add: phase_state_def)
  next
    fix ep
    assume w: "phase_waits e = [(r, w)]" "en_phase e = Importing (ImportCommitting ep)" "w = WaitCommitImportEpoch"
    with ph q(3) l [of "PCommitImportEpoch r"] ans [of unit_answer] show ?thesis by (simp add: phase_state_def)
  next
    fix ep g
    assume w: "phase_waits e = [(r, w)]" "en_phase e = Projecting (ProjectionCommitting ep g)" "w = WaitCommitProjectionEpoch"
    with ph q(4) l [of "PCommitProjectionEpoch r"] ans [of unit_answer] show ?thesis by (simp add: phase_state_def)
  qed
qed

lemma phase_response:
  assumes "engine_inv e a" and "act_replies a = xs @ (r, v) # ys" and "(r, w) \<in> set (phase_waits e)"
  shows "semantic_response_of w v \<noteq> None"
  using phase_answer [OF assms]
  by (auto simp: semantic_response_of_def projection_answer_def import_answer_def unit_answer_def split: reply_value.splits)

text \<open>The events a healthy environment does not send. On each of them the engine gives up.\<close>

fun reply_failed :: "reply_value \<Rightarrow> bool" where
  "reply_failed (RNextWork r) = (\<not> is_ok r)"
| "reply_failed (RUnit r) = (\<not> is_ok r)"
| "reply_failed (ROutbox r) = (\<not> is_ok r)"
| "reply_failed (RCount r) = (\<not> is_ok r)"
| "reply_failed (RCursor r) = (\<not> is_ok r)"
| "reply_failed (RNamespace r) = (\<not> is_ok r)"

definition fatal_event :: "engine_event \<Rightarrow> engine \<Rightarrow> bool" where
  "fatal_event ev e =
     (case ev of
        EvTimer t \<Rightarrow> t = SharedMessageBufferDrain \<and> \<not> drainable e
      | EvReader r \<Rightarrow> has_capacity (en_buffer e) \<and> (case r of ReaderEnded _ \<Rightarrow> True | _ \<Rightarrow> False)
      | EvCommand c \<Rightarrow> (case c of ScanCommand _ \<Rightarrow> False | _ \<Rightarrow> \<not> i64_range (es_started_at (en_status e)))
      | EvFsReply k reply \<Rightarrow> k < length (fc_pending (en_fs e)) \<and> fc_pending (en_fs e) ! k = WaitScan \<and> reply = FsFailed
      | EvSemanticReply r v \<Rightarrow>
          (case map_of (sc_pending (en_semantic e)) r of
             None \<Rightarrow> False
           | Some w \<Rightarrow> semantic_response_of w v \<noteq> None \<and>
               (reply_failed v \<or> (case w of WaitApplySharedMessageBatch _ final \<Rightarrow> u64_max \<le> final | _ \<Rightarrow> False)))
      | _ \<Rightarrow> False)"

definition popped :: "reply_id \<Rightarrow> engine \<Rightarrow> engine" where
  "popped r e = e\<lparr>en_semantic := (en_semantic e)\<lparr>sc_pending := filter (\<lambda>p. fst p \<noteq> r) (sc_pending (en_semantic e))\<rparr>\<rparr>"

lemma filter_key_length:
  "distinct (map fst xs) \<Longrightarrow> map_of xs r = Some w \<Longrightarrow>
    length (filter (P \<circ> snd) (filter (\<lambda>p. fst p \<noteq> r) xs)) + of_bool (P w) = length (filter (P \<circ> snd) xs)"
proof (induction xs)
  case (Cons x xs)
  show ?case
  proof (cases "fst x = r")
    case True
    with Cons.prems have "\<forall>p\<in>set xs. fst p \<noteq> r" by (metis distinct.simps(2) image_eqI list.map(2) list.set_map)
    then have "filter (\<lambda>p. fst p \<noteq> r) xs = xs" by simp
    with True Cons.prems show ?thesis by (cases x) (simp del: filter_filter)
  next
    case False
    with Cons show ?thesis by (cases x) (simp del: filter_filter)
  qed
qed simp

lemma popped_views:
  assumes "channels_ok e a" and "map_of (sc_pending (en_semantic e)) r = Some w"
  shows "channels_ok (popped r e) a" "phase_waits (popped r e) = filter (\<lambda>p. fst p \<noteq> r) (phase_waits e)"
    "count_waits P (popped r e) + of_bool (P w) = count_waits P e" "phase_queue (popped r e) = phase_queue e"
    "phase_pending (popped r e) = phase_pending e"
proof -
  show "channels_ok (popped r e) a"
    using assms(1) by (auto simp: channels_ok_def popped_def reply_ids_def list_all_iff distinct_map inj_on_def)
  show "count_waits P (popped r e) + of_bool (P w) = count_waits P e"
    using filter_key_length [OF _ assms(2), of P] assms(1) by (simp add: count_waits_def popped_def channels_ok_def)
  show "phase_waits (popped r e) = filter (\<lambda>p. fst p \<noteq> r) (phase_waits e)"
    by (simp add: phase_waits_def popped_def conj_commute)
qed (simp_all add: popped_def phase_queue_def phase_pending_def)

lemma popped_phase:
  assumes "channels_ok e a" and "map_of (sc_pending (en_semantic e)) r = Some w" and "\<not> phase_wait w"
  shows "r \<notin> fst ` set (phase_waits e)" "phase_waits (popped r e) = phase_waits e" "same_views e (popped r e)"
proof -
  have "distinct (map fst (sc_pending (en_semantic e)))" using assms(1) by (simp add: channels_ok_def)
  then have "w' = w" if "(r, w') \<in> set (sc_pending (en_semantic e))" for w'
    using that assms(2) by (metis map_of_eq_Some_iff option.inject)
  with assms(3) show r: "r \<notin> fst ` set (phase_waits e)" by (auto simp: phase_waits_def)
  then show "phase_waits (popped r e) = phase_waits e"
    unfolding popped_views(2) [OF assms(1,2)] by (fastforce simp: filter_id_conv)
  then show "same_views e (popped r e)" using popped_views(4,5) [OF assms(1,2)] by (simp add: same_views_def)
qed

lemma phase_reply_ok:
  assumes "engine_inv e a" and "act_replies a = xs @ (r, v) # ys" and "(r, w) \<in> set (phase_waits e)"
    and "map_of (sc_pending (en_semantic e)) r = Some w" and "\<not> reply_failed v"
  shows "\<exists>response e'. semantic_response_of w v = Some response \<and>
    with_semantic (semantic_client_next r response) e = Inr (popped r e) \<and>
    handle_semantic_response now response (popped r e) = Inr e' \<and> engine_inv e' (a\<lparr>act_replies := xs @ ys\<rparr>)"
proof -
  let ?a = "a\<lparr>act_replies := xs @ ys\<rparr>" and ?e = "popped r e"
  have inv: "channels_ok e a" "flags_ok e" using assms(1) by (simp_all add: engine_inv_def)
  note ans = phase_answer [OF assms(1-3)]
  have n: "fc_phase_inflight (en_fs e) = 0" using assms(1) ans by (simp add: engine_inv_def phase_inv_def)
  have w: "phase_wait w" using assms(3) by (simp add: phase_waits_def)
  note c = reply_dropped(1) [OF assms(1,2)]
  note v = popped_views [OF c assms(4)]
  have views: "phase_waits ?e = []" "phase_pending ?e = []" "phase_queue ?e = []" "phase_lane ?a = []"
    using v(2,4,5) ans by (simp_all add: quiet_def)
  have "count_waits P ?e = count_waits P e" if "\<not> P w" for P using v(3) [of P] that by simp
  with w inv(2) have "flags_ok ?e" by (cases w) (auto simp: flags_ok_def popped_def)
  note base = v(1) this
  have bd: "at_boundary ?e ?a" if "no_import a" "no_projection a"
    using that views by (simp add: at_boundary_def quiet_def)
  have enter: "\<exists>e'. enter_boundary ?e = Inr e' \<and> engine_inv e' ?a" if "no_import a" "no_projection a"
    using enter_boundary_ok [OF base bd [OF that]] n by (simp add: engine_inv_def popped_def)
  have ph: "engine_inv (?e\<lparr>en_phase := p\<rparr>) ?a" if "phase_state p ?e ?a" for p
  proof -
    have "channels_ok (?e\<lparr>en_phase := p\<rparr>) ?a" by (rule channels_cong [OF base(1)]) simp_all
    moreover have "flags_ok (?e\<lparr>en_phase := p\<rparr>)" using base(2) by (simp add: flags_ok_def count_waits_def)
    moreover have "same_views ?e (?e\<lparr>en_phase := p\<rparr>)" by (simp add: same_views_def phase_queue_def phase_waits_def phase_pending_def)
    from phase_state_cong [OF this] that have "phase_inv (?e\<lparr>en_phase := p\<rparr>) ?a"
      using n views(2) by (simp add: phase_inv_def popped_def phase_pending_def)
    ultimately show ?thesis by (simp add: engine_inv_def)
  qed
  have pop: "with_semantic (semantic_client_next r resp) e = Inr ?e"
    if "\<And>f l x. resp \<noteq> CApplySharedMessageBatch f l x" "\<And>x. resp \<noteq> CReadOutbox x" for resp
    using that by (cases resp) (auto simp: with_semantic_def semantic_client_next_def popped_def simp del: not_all)
  have phase: "en_phase ?e = en_phase e" "en_pending_scan_scope ?e = en_pending_scan_scope e" by (simp_all add: popped_def)
  from ans show ?thesis
  proof (elim conjE disjE exE)
    fix b dirty
    assume s: "en_phase e = AwaitingNextWork b dirty" "w = WaitGetNextWork b" "no_import a" "projection_answer a v"
    then obtain work where k: "v = RNextWork (Inr work)" using assms(5)
      by (auto simp: projection_answer_def is_ok_def split: reply_value.splits sum.splits)
    have "\<exists>e'. handle_get_next_work_response b (Inr work) ?e = Inr e' \<and> engine_inv e' ?a"
    proof (cases work)
      case NoWork
      with s k have np: "no_projection a" by (simp add: projection_answer_def)
      show ?thesis
      proof (cases "dirty \<or> en_pending_scan_scope e \<noteq> None")
        case True
        with enter [OF s(3) np] NoWork s(1) phase show ?thesis by (auto simp: handle_get_next_work_response_def)
      next
        case False
        with bd [OF s(3) np] ph [of Idle] NoWork s(1) phase show ?thesis
          by (simp add: handle_get_next_work_response_def phase_state_def)
      qed
    next
      case (Import st)
      with s(4) k show ?thesis by (simp add: projection_answer_def)
    next
      case (Project st)
      with s(4) k have "projection_flow True (pes_epoch st) (map pa_id (pes_actions st)) [] a" by (simp add: projection_answer_def)
      with ph [of "Projecting (ProjectionDispatching (pes_epoch st) (pes_generation st) (pes_actions st) {})"] s(1,3) views Project
        phase show ?thesis by (simp add: handle_get_next_work_response_def phase_state_def)
    qed
    with s(2) k pop [of "CGetNextWork b (Inr work)"] show ?thesis
      by (simp add: semantic_response_of_def handle_semantic_response_def)
  next
    assume s: "en_phase e = PlanningImport" "w = WaitApplyScan" "no_projection a" "import_answer a v"
    then obtain work where k: "v = RNextWork (Inr work)" using assms(5)
      by (auto simp: import_answer_def is_ok_def split: reply_value.splits sum.splits)
    have "\<exists>e'. handle_semantic_response now (CApplyScan (Inr work)) ?e = Inr e' \<and> engine_inv e' ?a"
    proof (cases work)
      case NoWork
      with s k have "no_import a" by (simp add: import_answer_def)
      with enter s(1,3) NoWork phase show ?thesis by (simp add: handle_semantic_response_def)
    next
      case (Import st)
      with s(4) k have "import_flow (ies_epoch st) (map ia_id (ies_actions st)) [] a" by (simp add: import_answer_def)
      with ph [of "Importing (ImportDispatching (ies_epoch st) (ies_actions st) {})"] s(1,3) views Import
        phase show ?thesis by (simp add: handle_semantic_response_def phase_state_def)
    next
      case (Project st)
      with s(4) k show ?thesis by (simp add: import_answer_def)
    qed
    with s(2) k pop [of "CApplyScan (Inr work)"] show ?thesis by (simp add: semantic_response_of_def)
  next
    fix ep
    assume s: "en_phase e = Importing (ImportCommitting ep)" "w = WaitCommitImportEpoch" "no_import a" "no_projection a" "unit_answer v"
    then have k: "v = RUnit (Inr ())" using assms(5)
      by (auto simp: unit_answer_def is_ok_def split: reply_value.splits sum.splits)
    with s enter pop [of "CCommitImportEpoch (Inr ())"] phase show ?thesis
      by (simp add: semantic_response_of_def handle_semantic_response_def)
  next
    fix ep g
    assume s: "en_phase e = Projecting (ProjectionCommitting ep g)" "w = WaitCommitProjectionEpoch" "no_import a"
      "no_projection a" "unit_answer v"
    then have k: "v = RUnit (Inr ())" using assms(5)
      by (auto simp: unit_answer_def is_ok_def split: reply_value.splits sum.splits)
    with s enter pop [of "CCommitProjectionEpoch (Inr ())"] phase show ?thesis
      by (simp add: semantic_response_of_def handle_semantic_response_def)
  qed
qed

text \<open>The other replies leave the phase alone.\<close>

lemma popped_inv:
  assumes "engine_inv e a" and "map_of (sc_pending (en_semantic e)) r = Some w" and "\<not> phase_wait w"
    and "en_semantic E = (en_semantic (popped r e))\<lparr>sc_in_flight_apply_shared_message_batch := n, sc_in_flight_read_outbox := b\<rparr>"
    and "en_fs E = en_fs e" and "en_log_open E = en_log_open e" and "en_phase E = en_phase e" and "flags_ok E"
  shows "engine_inv E a"
proof -
  have c: "channels_ok e a" and ph: "phase_inv e a" using assms(1) by (simp_all add: engine_inv_def)
  have "channels_ok E a"
    using popped_views(1) [OF c assms(2)] assms(4-6) by (simp add: channels_ok_def reply_ids_def popped_def)
  moreover have "same_views (popped r e) E"
    using assms(4,5) by (simp add: same_views_def phase_queue_def phase_waits_def phase_pending_def popped_def)
  with popped_phase(3) [OF c assms(2,3)] have "same_views e E" by (simp add: same_views_def)
  from phase_state_cong [OF this] have "phase_inv E a"
    using ph assms(5,7) by (simp add: phase_inv_def phase_pending_def)
  ultimately show ?thesis using assms(8) by (simp add: engine_inv_def)
qed

lemma popped_count:
  assumes "engine_inv e a" and "map_of (sc_pending (en_semantic e)) r = Some w"
    and "sc_pending (en_semantic E) = sc_pending (en_semantic (popped r e))"
  shows "count_waits P E = count_waits P e - of_bool (P w)" "P w \<Longrightarrow> 0 < count_waits P e"
proof -
  have "count_waits P E + of_bool (P w) = count_waits P e"
    using popped_views(3) [of e a r w P] assms by (simp add: engine_inv_def count_waits_def)
  then show "count_waits P E = count_waits P e - of_bool (P w)" "P w \<Longrightarrow> 0 < count_waits P e" by auto
qed

lemma append_all_ok:
  "engine_inv e a \<Longrightarrow> \<exists>e'. fold_res (\<lambda>(i, m). send_writer (Append i m)) ms e = Inr e' \<and> engine_inv e' a"
proof (induction ms arbitrary: e)
  case (Cons x ms)
  obtain i m where x: "x = (i, m)" by (cases x)
  let ?e = "e\<lparr>en_writer_requests := en_writer_requests e @ [Append i m]\<rparr>"
  have "engine_inv ?e a" by (rule engine_inv_frame [OF Cons.prems]) simp_all
  moreover have "send_writer (Append i m) e = Inr ?e"
    using Cons.prems by (simp add: send_writer_def engine_inv_def channels_ok_def)
  ultimately show ?case using Cons.IH x by simp
qed simp

lemma read_outbox_reply_ok:
  assumes "engine_inv e a" and "map_of (sc_pending (en_semantic e)) r = Some WaitReadOutbox"
  shows "\<exists>e1 e'. with_semantic (semantic_client_next r (CReadOutbox (Inr ms))) e = Inr e1 \<and>
    handle_semantic_response now (CReadOutbox (Inr ms)) e1 = Inr e' \<and> engine_inv e' a"
proof -
  let ?e = "(popped r e)\<lparr>en_semantic := (en_semantic (popped r e))\<lparr>sc_in_flight_read_outbox := False\<rparr>\<rparr>"
  let ?E = "?e\<lparr>en_outbox_read_in_flight := False\<rparr>"
  have f: "flags_ok e" using assms(1) by (simp add: engine_inv_def)
  note n = popped_count [OF assms, of ?E]
  from f n(2) [of "(=) WaitReadOutbox"] have on: "en_outbox_read_in_flight e" "sc_in_flight_read_outbox (en_semantic e)"
    by (auto simp: flags_ok_def)
  have pop: "with_semantic (semantic_client_next r (CReadOutbox (Inr ms))) e = Inr ?e"
    using on by (simp add: with_semantic_def semantic_client_next_def popped_def)
  have fl: "flags_ok ?E" using f on n(1) by (simp add: flags_ok_def popped_def)
  have inv: "engine_inv ?E a"
    by (rule popped_inv [OF assms, where n = "sc_in_flight_apply_shared_message_batch (en_semantic e)" and b = False])
      (use fl in \<open>simp_all add: popped_def\<close>)
  have more: "engine_inv e'' a \<Longrightarrow> engine_inv (if b then e''\<lparr>en_outbox_read_requested := True\<rparr> else e'') a" for e'' b
    by (rule engine_inv_frame, assumption) simp_all
  obtain e2 where e2: "(if link_is_online Writer ?E then fold_res (\<lambda>(outbox_id, m). send_writer (Append outbox_id m)) ms ?E
      else if ms \<noteq> [] then request_outbox_release ?E else Inr ?E) = Inr e2" "engine_inv e2 a"
    using append_all_ok [OF inv, of ms] request_outbox_ok(2) [OF inv] inv by (cases "link_is_online Writer ?E"; cases "ms = []") auto
  from outbox_read_ok [OF more [OF e2(2), of "ms \<noteq> []"]] obtain e3 where
    "maybe_start_outbox_read (if ms \<noteq> [] then e2\<lparr>en_outbox_read_requested := True\<rparr> else e2) = Inr e3" "engine_inv e3 a" by blast
  moreover have "en_outbox_read_in_flight ?e" using on by (simp add: popped_def)
  ultimately have "handle_read_outbox (Inr ms) ?e = Inr e3"
    unfolding handle_read_outbox_def Let_def bind_res_Inr e2(1) by simp
  then have "handle_semantic_response now (CReadOutbox (Inr ms)) ?e = Inr e3" by (simp add: handle_semantic_response_def)
  with pop \<open>engine_inv e3 a\<close> show ?thesis by blast
qed

lemma release_reply_ok:
  assumes "engine_inv e a" and "map_of (sc_pending (en_semantic e)) r = Some WaitReleaseOutbox"
  shows "\<exists>e1 e'. with_semantic (semantic_client_next r (CReleaseOutbox (Inr n))) e = Inr e1 \<and>
    handle_semantic_response now (CReleaseOutbox (Inr n)) e1 = Inr e' \<and> engine_inv e' a"
proof -
  let ?E = "(popped r e)\<lparr>en_outbox_release_in_flight := False\<rparr>"
  have f: "flags_ok e" using assms(1) by (simp add: engine_inv_def)
  note m = popped_count [OF assms, of ?E]
  from f m(2) [of "(=) WaitReleaseOutbox"] have on: "en_outbox_release_in_flight e" by (auto simp: flags_ok_def)
  have pop: "with_semantic (semantic_client_next r (CReleaseOutbox (Inr n))) e = Inr (popped r e)"
    by (simp add: with_semantic_def semantic_client_next_def popped_def)
  have fl: "flags_ok ?E" using f on m(1) by (simp add: flags_ok_def popped_def)
  have inv: "engine_inv ?E a"
    by (rule popped_inv [OF assms, where n = "sc_in_flight_apply_shared_message_batch (en_semantic e)" and
          b = "sc_in_flight_read_outbox (en_semantic e)"]) (use fl in \<open>simp_all add: popped_def\<close>)
  from outbox_release_ok [OF inv] obtain e2 where e2: "maybe_start_outbox_release ?E = Inr e2" "engine_inv e2 a" by blast
  from outbox_read_ok [OF e2(2)] obtain e3 where "maybe_start_outbox_read e2 = Inr e3" "engine_inv e3 a" by blast
  with pop e2(1) on show ?thesis by (simp add: handle_semantic_response_def popped_def)
qed

lemma cursor_reply_ok:
  assumes "engine_inv e a" and "map_of (sc_pending (en_semantic e)) r = Some WaitReadStableCursor"
  shows "\<exists>e1 e'. with_semantic (semantic_client_next r (CReadStableCursor (Inr n))) e = Inr e1 \<and>
    handle_semantic_response now (CReadStableCursor (Inr n)) e1 = Inr e' \<and> engine_inv e' a"
proof -
  let ?E = "(popped r e)\<lparr>en_reader_reconnect_cursor_in_flight := False\<rparr>"
  have f: "flags_ok e" "en_log_open e" using assms(1) by (simp_all add: engine_inv_def channels_ok_def)
  note m = popped_count [OF assms, of ?E]
  from f m(2) [of "(=) WaitReadStableCursor"] have on: "en_reader_reconnect_cursor_in_flight e" by (auto simp: flags_ok_def)
  have pop: "with_semantic (semantic_client_next r (CReadStableCursor (Inr n))) e = Inr (popped r e)"
    by (simp add: with_semantic_def semantic_client_next_def popped_def)
  have fl: "flags_ok ?E" using f on m(1) by (simp add: flags_ok_def popped_def)
  have inv: "engine_inv ?E a"
    by (rule popped_inv [OF assms, where n = "sc_in_flight_apply_shared_message_batch (en_semantic e)" and
          b = "sc_in_flight_read_outbox (en_semantic e)"]) (use fl in \<open>simp_all add: popped_def\<close>)
  then have "engine_inv (?E\<lparr>en_reader_requests := x\<rparr>) a" for x by (rule engine_inv_frame) simp_all
  with pop inv on f(2) show ?thesis
    by (simp add: handle_semantic_response_def popped_def send_reader_def Let_def)
qed

lemma batch_reply_ok:
  assumes "engine_inv e a" and "map_of (sc_pending (en_semantic e)) r = Some (WaitApplySharedMessageBatch first final)"
    and "final < u64_max"
  shows "\<exists>e1 e'. with_semantic (semantic_client_next r (CApplySharedMessageBatch first final (Inr ()))) e = Inr e1 \<and>
    handle_semantic_response now (CApplySharedMessageBatch first final (Inr ())) e1 = Inr e' \<and> engine_inv e' a"
proof -
  let ?n = "sc_in_flight_apply_shared_message_batch (en_semantic e)"
  let ?E = "(popped r e)\<lparr>en_semantic := (en_semantic (popped r e))\<lparr>sc_in_flight_apply_shared_message_batch := ?n - 1\<rparr>\<rparr>"
  have f: "flags_ok e" using assms(1) by (simp add: engine_inv_def)
  note m = popped_count [OF assms(1,2), of ?E]
  from f m(2) [of is_batch_wait] have on: "0 < ?n" by (simp add: flags_ok_def)
  then have pop: "with_semantic (semantic_client_next r (CApplySharedMessageBatch first final (Inr ()))) e = Inr ?E"
    by (simp add: with_semantic_def semantic_client_next_def popped_def checked_pred_def)
  have fl: "flags_ok ?E" using f m(1) by (simp add: flags_ok_def popped_def)
  have inv: "engine_inv ?E a"
    by (rule popped_inv [OF assms(1,2), where n = "?n - 1" and b = "sc_in_flight_read_outbox (en_semantic e)"])
      (use fl in \<open>simp_all add: popped_def\<close>)
  then have "engine_inv (?E\<lparr>en_status := s\<rparr>) a" "engine_inv (arm_at x t (?E\<lparr>en_status := s\<rparr>)) a" for s x t
    by (rule engine_inv_frame; simp add: arm_at_def)+
  with pop assms(3) show ?thesis
    by (auto simp: handle_semantic_response_def update_stable_cursor_after_batch_def checked_add_u64_def Let_def split: option.splits)
qed

text \<open>A reply of the actor, whatever it answers.\<close>

lemma semantic_reply_ok:
  assumes "engine_inv e a" and "act_replies a = xs @ (r, v) # ys" and "\<not> fatal_event (EvSemanticReply r v) e"
  shows "\<exists>e'. engine_event X ck (EvSemanticReply r v) e = Inr (Some e') \<and> engine_inv e' (a\<lparr>act_replies := xs @ ys\<rparr>)"
proof (cases "map_of (sc_pending (en_semantic e)) r")
  case None
  then have "r \<notin> fst ` set (phase_waits e)" by (force simp: phase_waits_def map_of_eq_None_iff)
  from reply_dropped(2) [OF assms(1,2) this] None show ?thesis by (simp add: engine_event_def)
next
  case (Some w)
  have c: "channels_ok e a" using assms(1) by (simp add: engine_inv_def)
  have ok: "\<not> reply_failed v" if "semantic_response_of w v \<noteq> None" using assms(3) Some that by (simp add: fatal_event_def)
  show ?thesis
  proof (cases "phase_wait w")
    case True
    with Some have w: "(r, w) \<in> set (phase_waits e)" by (auto simp: phase_waits_def dest: map_of_SomeD)
    from phase_reply_ok [OF assms(1,2) w Some ok [OF phase_response [OF assms(1,2) w]], of "ck_now ck"] Some
    show ?thesis by (auto simp: engine_event_def)
  next
    case False
    note inv = reply_dropped(2) [OF assms(1,2) popped_phase(1) [OF c Some False]]
    note some = read_outbox_reply_ok [OF inv] release_reply_ok [OF inv] cursor_reply_ok [OF inv]
    show ?thesis
    proof (cases "semantic_response_of w v")
      case None
      with Some inv show ?thesis by (simp add: engine_event_def)
    next
      case resp: (Some response)
      have "\<exists>e1 e'. with_semantic (semantic_client_next r response) e = Inr e1 \<and>
          handle_semantic_response (ck_now ck) response e1 = Inr e' \<and> engine_inv e' (a\<lparr>act_replies := xs @ ys\<rparr>)"
      proof (cases w)
        case WaitReadOutbox
        with resp ok [unfolded resp] obtain ms where "response = CReadOutbox (Inr ms)"
          by (auto simp: semantic_response_of_def is_ok_def split: reply_value.splits sum.splits)
        with WaitReadOutbox Some read_outbox_reply_ok [OF inv] show ?thesis by simp
      next
        case WaitReleaseOutbox
        with resp ok [unfolded resp] obtain n where "response = CReleaseOutbox (Inr n)"
          by (auto simp: semantic_response_of_def is_ok_def split: reply_value.splits sum.splits)
        with WaitReleaseOutbox Some release_reply_ok [OF inv] show ?thesis by simp
      next
        case WaitReadStableCursor
        with resp ok [unfolded resp] obtain n where "response = CReadStableCursor (Inr n)"
          by (auto simp: semantic_response_of_def is_ok_def split: reply_value.splits sum.splits)
        with WaitReadStableCursor Some cursor_reply_ok [OF inv] show ?thesis by simp
      next
        case (WaitApplySharedMessageBatch first final)
        with resp ok [unfolded resp] have "response = CApplySharedMessageBatch first final (Inr ())"
          by (auto simp: semantic_response_of_def is_ok_def split: reply_value.splits sum.splits)
        with WaitApplySharedMessageBatch Some resp batch_reply_ok [OF inv] assms(3) show ?thesis by (simp add: fatal_event_def)
      qed (use False in simp_all)
      then show ?thesis using Some resp by (auto simp: engine_event_def)
    qed
  qed
qed

section \<open>Lemmas: turns of the engine\<close>

lemma semantic_event_ok:
  assumes "engine_inv e a"
  shows "\<exists>e'. engine_event X ck (EvSemantic ev) e = Inr (Some e') \<and> engine_inv e' a"
proof (cases ev)
  case (ProjectionChanged g)
  with projection_changed_ok [OF assms] show ?thesis by (auto simp: engine_event_def handle_semantic_event_def)
next
  case (OutboxReady n)
  with request_outbox_ok(1) [OF assms] assms show ?thesis by (auto simp: engine_event_def handle_semantic_event_def)
qed

lemma environment_event_ok:
  assumes "engine_inv e a" and "actor_ok a" and "environment_event ev" and "\<not> fatal_event ev e"
  shows "\<exists>r. engine_event X ck ev e = Inr r \<and> (case r of None \<Rightarrow> True | Some e' \<Rightarrow> engine_inv e' a)"
proof (cases ev)
  case (EvTimer t)
  with timer_ok [OF assms(1)] assms(4) show ?thesis by (auto simp: engine_event_def fatal_event_def)
next
  case (EvReader r)
  show ?thesis
  proof (cases "has_capacity (en_buffer e)")
    case True
    with EvReader assms(4) have "\<not> (\<exists>n. r = ReaderEnded n)" by (auto simp: fatal_event_def)
    then obtain e' where "handle_reader_event (ck_now ck) (ck_wall ck) r e = Inr e'" "engine_inv e' a"
      using reader_event_ok [OF assms(1), of r] by blast
    with EvReader True show ?thesis by (simp add: engine_event_def)
  next
    case False
    with EvReader assms(1) show ?thesis by (simp add: engine_event_def)
  qed
next
  case (EvWriter r)
  obtain e' where "handle_writer_event (ck_now ck) (ck_wall ck) r e = Inr e'" "engine_inv e' a"
    using writer_event_ok [OF assms(1)] by blast
  with EvWriter show ?thesis by (simp add: engine_event_def)
next
  case (EvFsReply k reply)
  with fs_reply_ok [OF assms(1,2), of k reply X ck] assms(4) show ?thesis by (fastforce simp: fatal_event_def)
next
  case (EvCommand c)
  have "\<exists>e'. handle_command X (ck_pid ck) (ck_now ck) (ck_wall ck) c e = Inr e' \<and> engine_inv e' a"
  proof (cases c)
    case (ScanCommand s)
    with request_scan_ok [OF assms(1), of s] show ?thesis by (auto simp: handle_command_def)
  qed (use command_ok [OF assms(1)] EvCommand assms(4) in \<open>auto simp: fatal_event_def\<close>)
  with EvCommand show ?thesis by (auto simp: engine_event_def)
qed (use assms(3) in simp_all)

text \<open>After a turn of the engine an epoch that is not being committed has an action with the file system.\<close>

definition driven :: "engine \<Rightarrow> bool" where
  "driven e \<longleftrightarrow>
     (case en_phase e of
        Importing (ImportDispatching _ _ _) \<Rightarrow> phase_pending e \<noteq> []
      | Projecting (ProjectionDispatching _ _ _ _) \<Rightarrow> phase_pending e \<noteq> []
      | Projecting (ProjectionDraining _ _ _ _) \<Rightarrow> phase_pending e \<noteq> []
      | _ \<Rightarrow> True)"

lemma dispatch_exhausts:
  "dispatch_imports c queue infl = Inr (c', queue', infl') \<Longrightarrow> fc_phase_inflight c' = 0 \<Longrightarrow> queue' = []"
  "dispatch_projections c plan infl = Inr (c', plan', infl') \<Longrightarrow> fc_phase_inflight c' = 0 \<Longrightarrow> plan' = []"
  by (induction c queue infl rule: dispatch_imports.induct; auto simp: can_accept_import_def res_simps split: if_splits)
    (induction c plan infl rule: dispatch_projections.induct; auto simp: can_accept_projection_def res_simps split: if_splits)

lemma drive_driven:
  assumes "engine_inv e a" and "drive e = Inr e'"
  shows "driven e'"
proof -
  obtain e1 where e1: "drive_cleanup e = Inr e1" "engine_inv e1 a" using drive_cleanup_ok [OF assms(1)] by blast
  obtain e2 where e2: "dispatch_phase e1 = Inr e2" "engine_inv e2 a" using dispatch_phase_ok [OF e1(2)] by blast
  have c: "commit_phase e2 = Inr e'" using assms(2) e1(1) e2(1) by (simp add: drive_def drive_phase_def)
  have i: "phase_inv e2 a" using e2(2) by (simp add: engine_inv_def)
  have q1: "queue = []" if "en_phase e2 = Importing (ImportDispatching epoch queue infl)" "phase_pending e2 = []" for epoch queue infl
    using e2(1) that i
    by (auto simp: dispatch_phase_def phase_inv_def res_simps dest!: dispatch_exhausts(1)
        split: engine_phase.splits import_phase.splits projection_phase.splits)
  have q2: "plan = []" if "en_phase e2 = Projecting (ProjectionDispatching epoch gen plan infl)" "phase_pending e2 = []" for epoch gen plan infl
    using e2(1) that i
    by (auto simp: dispatch_phase_def phase_inv_def res_simps dest!: dispatch_exhausts(2)
        split: engine_phase.splits import_phase.splits projection_phase.splits)
  have commit: "driven e'" if "driven e2 \<or> (\<exists>epoch. en_phase e2 = Importing (ImportDispatching epoch [] {})) \<or>
      (\<exists>epoch gen. en_phase e2 = Projecting (ProjectionDispatching epoch gen [] {})) \<or>
      (\<exists>epoch gen reason. en_phase e2 = Projecting (ProjectionDraining epoch gen reason {}))"
    using c that
    by (auto simp: commit_phase_def driven_def with_semantic_def res_simps split: engine_phase.splits import_phase.splits
        projection_phase.splits if_splits)
  show ?thesis
  proof (cases "phase_pending e2 = []")
    case True
    with i q1 q2 show ?thesis
      by (intro commit) (auto simp: driven_def phase_inv_def phase_state_def split: engine_phase.splits import_phase.splits
          projection_phase.splits)
  next
    case False
    then show ?thesis by (intro commit) (simp add: driven_def split: engine_phase.splits import_phase.splits projection_phase.splits)
  qed
qed

lemma engine_turn_ok:
  assumes "engine_event X ck ev e = Inr r" and "case r of None \<Rightarrow> True | Some e' \<Rightarrow> engine_inv e' a"
  shows "\<exists>r. engine_turn X ck ev e = Inr r \<and> (case r of None \<Rightarrow> True | Some e' \<Rightarrow> engine_inv e' a \<and> driven e')"
proof (cases r)
  case None
  with assms show ?thesis by (simp add: engine_turn_def)
next
  case (Some e1)
  with assms(2) obtain e2 where "drive e1 = Inr e2" "engine_inv e2 a" using drive_ok [of e1 a] by auto
  with Some assms drive_driven [of e1 a e2] show ?thesis by (simp add: engine_turn_def)
qed

text \<open>The errors of an event are those of the turn.\<close>

lemma lane_ok_cong:
  assumes "act_running a' = act_running a" and "act_pending a' = act_pending a" and "act_next_op_id a' = act_next_op_id a"
    and "act_runtime a' = act_runtime a"
  shows "lane_ok a' = lane_ok a"
  using assms by (simp add: lane_ok_def cong: list.case_cong)

lemma lane_ok_sent: "lane_ok (a\<lparr>act_replies := x\<rparr>) = lane_ok a" "lane_ok (a\<lparr>act_events := y\<rparr>) = lane_ok a"
  by (rule lane_ok_cong; simp)+

lemma actor_ok_sent [simp]:
  "actor_ok (a\<lparr>act_replies := x\<rparr>) = actor_ok a" "actor_ok (a\<lparr>act_events := y\<rparr>) = actor_ok a"
  by (simp_all add: actor_ok_def lane_ok_sent deferred_ok_iff import_wait_def projection_wait_def)

lemma system_inv_iff: "system_inv sy \<longleftrightarrow> actor_ok (sy_actor sy) \<and> engine_inv (sy_engine sy) (sy_actor sy)"
  by (auto simp: system_inv_def engine_inv_def)

lemma deliver_ok:
  assumes "engine_event X ck ev (sy_engine sy) = Inr r" and "case r of None \<Rightarrow> True | Some e' \<Rightarrow> engine_inv e' a"
    and "actor_ok a"
  shows "\<exists>r. deliver X ck ev a sy = Inr r \<and>
    (case r of None \<Rightarrow> True | Some sy' \<Rightarrow> system_inv sy' \<and> (sy' = sy \<or> driven (sy_engine sy')))"
proof -
  obtain r' where r': "engine_turn X ck ev (sy_engine sy) = Inr r'"
    "case r' of None \<Rightarrow> True | Some e' \<Rightarrow> engine_inv e' a \<and> driven e'" using engine_turn_ok [OF assms(1,2)] by blast
  with assms(3) show ?thesis by (cases r') (simp_all add: deliver_def system_inv_iff)
qed

lemma events_ok: "engine_inv e a \<Longrightarrow> engine_inv e (a\<lparr>act_events := y\<rparr>)"
proof -
  assume inv: "engine_inv e a"
  have "answered r P (a\<lparr>act_events := y\<rparr>) = answered r P a" for r P by (simp add: answered_def)
  then have "phase_state p e (a\<lparr>act_events := y\<rparr>) = phase_state p e a" for p
    by (simp add: phase_state_def at_boundary_def quiet_def split: engine_phase.splits import_phase.splits
        projection_phase.splits)
  with inv show ?thesis by (simp add: engine_inv_def phase_inv_def channels_ok_def reply_ids_def)
qed

text \<open>A step of the engine or of a channel to it.\<close>

definition fatal_step :: "system_step \<Rightarrow> system \<Rightarrow> bool" where
  "fatal_step step sy =
     (case step of
        EngineStep _ ev \<Rightarrow> environment_event ev \<and> fatal_event ev (sy_engine sy)
      | ReplyStep _ k \<Rightarrow> k < length (act_replies (sy_actor sy)) \<and>
          fatal_event (EvSemanticReply (fst (act_replies (sy_actor sy) ! k)) (snd (act_replies (sy_actor sy) ! k))) (sy_engine sy)
      | _ \<Rightarrow> False)"

fun engine_side :: "system_step \<Rightarrow> bool" where
  "engine_side (EngineStep _ _) = True"
| "engine_side (ReplyStep _ _) = True"
| "engine_side (EventStep _) = True"
| "engine_side _ = False"

lemma engine_side_ok:
  assumes "system_inv sy" and "engine_side step" and "\<not> fatal_step step sy"
  shows "\<exists>r. system_turn X step sy = Inr r \<and>
    (case r of None \<Rightarrow> True | Some sy' \<Rightarrow> system_inv sy' \<and> (sy' = sy \<or> driven (sy_engine sy')))"
proof -
  have inv: "actor_ok (sy_actor sy)" "engine_inv (sy_engine sy) (sy_actor sy)" using assms(1) by (simp_all add: system_inv_iff)
  show ?thesis
  proof (cases step)
    case (EngineStep ck ev)
    show ?thesis
    proof (cases "environment_event ev")
      case True
      with assms(3) EngineStep have "\<not> fatal_event ev (sy_engine sy)" by (simp add: fatal_step_def)
      from environment_event_ok [OF inv(2,1) True this] obtain r where
        "engine_event X ck ev (sy_engine sy) = Inr r" "case r of None \<Rightarrow> True | Some e' \<Rightarrow> engine_inv e' (sy_actor sy)" by blast
      from deliver_ok [OF this inv(1)] EngineStep True show ?thesis by (simp add: system_turn_def Let_def)
    next
      case False
      with EngineStep assms(1) show ?thesis by (simp add: system_turn_def Let_def)
    qed
  next
    case (ReplyStep ck k)
    show ?thesis
    proof (cases "k < length (act_replies (sy_actor sy))")
      case True
      let ?r = "fst (act_replies (sy_actor sy) ! k)" and ?v = "snd (act_replies (sy_actor sy) ! k)"
      from replies_split [OF True, of ?r ?v] obtain xs ys where s: "act_replies (sy_actor sy) = xs @ (?r, ?v) # ys"
        "drop_nth k (act_replies (sy_actor sy)) = xs @ ys" by auto
      from assms(3) ReplyStep True have "\<not> fatal_event (EvSemanticReply ?r ?v) (sy_engine sy)" by (simp add: fatal_step_def)
      from semantic_reply_ok [OF inv(2) s(1) this, of X ck] obtain e' where
        e': "engine_event X ck (EvSemanticReply ?r ?v) (sy_engine sy) = Inr (Some e')"
        "engine_inv e' ((sy_actor sy)\<lparr>act_replies := xs @ ys\<rparr>)" by blast
      have "case Some e' of None \<Rightarrow> True | Some e' \<Rightarrow> engine_inv e' ((sy_actor sy)\<lparr>act_replies := xs @ ys\<rparr>)" using e'(2) by simp
      from deliver_ok [OF e'(1) this] inv(1) s(2) ReplyStep True show ?thesis by (simp add: system_turn_def Let_def)
    next
      case False
      with ReplyStep assms(1) show ?thesis by (simp add: system_turn_def Let_def)
    qed
  next
    case (EventStep ck)
    show ?thesis
    proof (cases "act_events (sy_actor sy)")
      case Nil
      with EventStep assms(1) show ?thesis by (simp add: system_turn_def Let_def)
    next
      case (Cons ev evs)
      from semantic_event_ok [OF events_ok [OF inv(2), of evs], of X ck ev] obtain e' where
        e': "engine_event X ck (EvSemantic ev) (sy_engine sy) = Inr (Some e')"
        "engine_inv e' ((sy_actor sy)\<lparr>act_events := evs\<rparr>)" by blast
      have "case Some e' of None \<Rightarrow> True | Some e' \<Rightarrow> engine_inv e' ((sy_actor sy)\<lparr>act_events := evs\<rparr>)" using e'(2) by simp
      from deliver_ok [OF e'(1) this] inv(1) Cons EventStep show ?thesis by (simp add: system_turn_def Let_def)
    qed
  qed (use assms(2) in simp_all)
qed

text \<open>Conversely a fatal event ends the engine.\<close>

fun response_failed :: "semantic_client_response \<Rightarrow> bool" where
  "response_failed (CApplyInitScan r) = (\<not> is_ok r)"
| "response_failed (CApplyScan r) = (\<not> is_ok r)"
| "response_failed (CCommitImportAction r) = (\<not> is_ok r)"
| "response_failed (CCommitImportEpoch r) = (\<not> is_ok r)"
| "response_failed (CCommitProjectionAction r) = (\<not> is_ok r)"
| "response_failed (CCommitProjectionEpoch r) = (\<not> is_ok r)"
| "response_failed (CGetNextWork _ r) = (\<not> is_ok r)"
| "response_failed (CApplySharedMessageBatch _ final r) = (\<not> is_ok r \<or> u64_max \<le> final)"
| "response_failed (CReadOutbox r) = (\<not> is_ok r)"
| "response_failed (CReleaseOutbox r) = (\<not> is_ok r)"
| "response_failed (CReadStableCursor r) = (\<not> is_ok r)"
| "response_failed (CReadStableNamespace r) = (\<not> is_ok r)"

lemma response_failed_ends: "response_failed response \<Longrightarrow> \<exists>err. handle_semantic_response now response e = Inl err"
  by (cases response)
    (auto simp: handle_semantic_response_def handle_get_next_work_response_def handle_read_outbox_def is_ok_def Let_def
      update_stable_cursor_after_batch_def checked_add_u64_def
      split: engine_phase.splits import_phase.splits projection_phase.splits sum.splits)

lemma fatal_event_ends:
  assumes "fatal_event ev e"
  shows "\<exists>err. engine_event X ck ev e = Inl err"
proof (cases ev)
  case (EvTimer t)
  with assms show ?thesis
    by (auto simp: engine_event_def fatal_event_def handle_timer_def drainable_def smb_drain_def is_ok_def split: sum.splits)
next
  case (EvReader r)
  with assms show ?thesis
    by (auto simp: engine_event_def fatal_event_def handle_reader_event_def split: log_reader_event.splits)
next
  case (EvCommand c)
  with assms show ?thesis
    by (auto simp: engine_event_def fatal_event_def handle_command_def daemon_status_of_def split: engine_command.splits)
next
  case (EvFsReply k reply)
  with assms show ?thesis
    by (cases "fs_client_next k (RespScan (Inl Fatal)) (en_fs e)")
      (auto simp: engine_event_def fatal_event_def fs_response_of_def with_fs_def handle_fs_response_def split: engine_phase.splits)
next
  case (EvSemanticReply r v)
  with assms obtain w response where w: "map_of (sc_pending (en_semantic e)) r = Some w" "semantic_response_of w v = Some response"
    "reply_failed v \<or> (case w of WaitApplySharedMessageBatch _ final \<Rightarrow> u64_max \<le> final | _ \<Rightarrow> False)"
    by (auto simp: fatal_event_def split: option.splits)
  then have "response_failed response"
    by (cases w; cases v) (auto simp: semantic_response_of_def)
  note ends = response_failed_ends [OF this, of "ck_now ck"]
  show ?thesis
  proof (cases "with_semantic (semantic_client_next r response) e")
    case (Inl err)
    with EvSemanticReply w(1,2) show ?thesis by (simp add: engine_event_def)
  next
    case (Inr e1)
    obtain err where "handle_semantic_response (ck_now ck) response e1 = Inl err" using ends [of e1] by blast
    with Inr EvSemanticReply w(1,2) show ?thesis by (simp add: engine_event_def)
  qed
qed (use assms in \<open>simp_all add: fatal_event_def\<close>)

lemma fatal_step_ends:
  assumes "fatal_step step sy"
  shows "\<exists>err. system_turn X step sy = Inl err"
proof (cases step)
  case (EngineStep ck ev)
  with assms have "environment_event ev" "fatal_event ev (sy_engine sy)" by (simp_all add: fatal_step_def)
  with fatal_event_ends [of ev "sy_engine sy" X ck] EngineStep show ?thesis
    by (auto simp: system_turn_def deliver_def engine_turn_def Let_def)
next
  case (ReplyStep ck k)
  let ?ev = "EvSemanticReply (fst (act_replies (sy_actor sy) ! k)) (snd (act_replies (sy_actor sy) ! k))"
  from ReplyStep assms have "k < length (act_replies (sy_actor sy))" "fatal_event ?ev (sy_engine sy)" by (simp_all add: fatal_step_def)
  with fatal_event_ends [of ?ev "sy_engine sy" X ck] ReplyStep show ?thesis
    by (auto simp: system_turn_def deliver_def engine_turn_def Let_def)
qed (use assms in \<open>simp_all add: fatal_step_def\<close>)

end
