(* ===== verification/Protocol_Actor.thy ===== *)
theory Protocol_Actor
  imports Protocol_Turns
begin

text \<open>
  The semantic actor's side of the composed system: the request it takes from its mailbox is always
  admissible, and finishing a task leads from one state of the protocol to the next. With the
  engine's side from \<open>Protocol_Turns\<close> this gives the invariant of all reachable states, and the
  properties: no request panics, only fatal events end the engine, no phase waits for nothing.
\<close>

section \<open>Lemmas: taking a request\<close>

lemma lane_start_op: "idle a \<Longrightarrow> lane (start_op kind task a) = [(task, kind)]"
  by (simp add: lane_def start_op_def idle_def)

lemma lane_idle: "idle a \<Longrightarrow> lane a = [] \<and> phase_lane a = []"
  by (simp add: lane_def phase_lane_def idle_def)

lemma phase_state_actor_cong:
  assumes "phase_lane a' = phase_lane a" and "act_runtime a' = act_runtime a" and "act_deferred_import a' = act_deferred_import a"
    and "act_deferred_projection a' = act_deferred_projection a" and "act_replies a' = act_replies a"
  shows "phase_state phase e a' = phase_state phase e a"
proof -
  have o: "outstanding ids q a' = outstanding ids q a" for ids q using assms(1) by (simp add: outstanding_def)
  have flows: "import_flow epoch ids q a' = import_flow epoch ids q a"
    "projection_flow full epoch ids q a' = projection_flow full epoch ids q a" for epoch ids q full
    using assms o by (simp_all add: import_flow_def projection_flow_def split: option.splits)
  have idle: "no_import a' = no_import a" "no_projection a' = no_projection a"
    using assms by (simp_all add: no_import_def no_projection_def)
  have "import_answer a' = import_answer a" "projection_answer a' = projection_answer a"
    using flows idle by (auto simp: fun_eq_iff import_answer_def projection_answer_def split: reply_value.splits sum.splits
        next_work.splits)
  moreover have "answered r P a' = answered r P a" for r P using assms(5) by (simp add: answered_def)
  ultimately show ?thesis using assms(1) flows idle
    by (simp add: phase_state_def at_boundary_def quiet_def split: engine_phase.splits import_phase.splits
        projection_phase.splits)
qed

text \<open>What a taken request does to the channels and the views.\<close>

definition taken :: "semantic_request \<Rightarrow> engine \<Rightarrow> engine \<Rightarrow> bool" where
  "taken q e e' \<longleftrightarrow> (\<exists>rest. sc_sent (en_semantic e) = q # rest \<and>
     e' = e\<lparr>en_semantic := (en_semantic e)\<lparr>sc_sent := rest\<rparr>\<rparr>)"

lemma taken_views:
  assumes "taken q e e'"
  shows "phase_queue e = (if phase_request q then [q] else []) @ phase_queue e'" "phase_waits e' = phase_waits e"
    "phase_pending e' = phase_pending e" "flags_ok e' = flags_ok e" "en_phase e' = en_phase e"
    "fc_phase_inflight (en_fs e') = fc_phase_inflight (en_fs e)"
proof -
  obtain rest where "sc_sent (en_semantic e) = q # rest" "e' = e\<lparr>en_semantic := (en_semantic e)\<lparr>sc_sent := rest\<rparr>\<rparr>"
    using assms by (auto simp: taken_def)
  then show "phase_queue e = (if phase_request q then [q] else []) @ phase_queue e'" "phase_waits e' = phase_waits e"
    "phase_pending e' = phase_pending e" "flags_ok e' = flags_ok e" "en_phase e' = en_phase e"
    "fc_phase_inflight (en_fs e') = fc_phase_inflight (en_fs e)"
    by (simp_all add: phase_queue_def phase_waits_def phase_pending_def flags_ok_def count_waits_def)
qed

lemma taken_channels:
  assumes "taken q e e'" and "channels_ok e a" and "idle a" and "lane a' = [(task, kind)]"
    and "pending_reply kind = request_reply q" and "act_replies a' = act_replies a" and "act_engine_open a' = act_engine_open a"
  shows "channels_ok e' a'"
proof -
  obtain rest where t: "sc_sent (en_semantic e) = q # rest" "e' = e\<lparr>en_semantic := (en_semantic e)\<lparr>sc_sent := rest\<rparr>\<rparr>"
    using assms(1) by (auto simp: taken_def)
  have "mset (reply_ids e' a') = mset (reply_ids e a)"
    using assms(3-6) t lane_idle [OF assms(3)] by (simp add: reply_ids_def)
  then have "distinct (reply_ids e' a') = distinct (reply_ids e a)" "set (reply_ids e' a') = set (reply_ids e a)"
    by (metis mset_eq_imp_distinct_iff, metis mset_eq_setD)
  moreover from this(2) have "list_all P (reply_ids e' a') = list_all P (reply_ids e a)" for P by (simp add: list_all_iff)
  ultimately show ?thesis using assms(2,7) t(2) unfolding channels_ok_def by simp
qed

text \<open>A task that belongs to no phase.\<close>

lemma take_neutral:
  assumes "engine_inv e a" and "taken q e e'" and "idle a" and "\<not> phase_request q"
  shows "\<exists>a'. start_request q a = Inr a' \<and> engine_inv e' a'"
proof -
  have "\<exists>kind task. start_request q a = Inr (start_op kind task a) \<and> pending_reply kind = request_reply q \<and> \<not> phase_task task"
    using assms(4) by (cases q) force+
  then obtain kind task where s: "start_request q a = Inr (start_op kind task a)" "pending_reply kind = request_reply q"
    "\<not> phase_task task" by blast
  let ?a = "start_op kind task a"
  have ch: "channels_ok e' ?a"
    by (rule taken_channels [OF assms(2) _ assms(3) lane_start_op [OF assms(3)] s(2)])
      (use assms(1) in \<open>simp_all add: engine_inv_def start_op_def\<close>)
  have "phase_lane ?a = phase_lane a" using s(3) lane_start_op [OF assms(3)] lane_idle [OF assms(3)] by (simp add: phase_lane_def)
  then have "phase_state (en_phase e) e ?a = phase_state (en_phase e) e a" by (rule phase_state_actor_cong) simp_all
  moreover have "same_views e e'" using taken_views [OF assms(2)] assms(4) by (simp add: same_views_def)
  ultimately have "phase_inv e' ?a"
    using assms(1) phase_state_cong [of e e'] taken_views [OF assms(2)] by (simp add: engine_inv_def phase_inv_def)
  with ch s(1) assms(1) taken_views [OF assms(2)] show ?thesis by (simp add: engine_inv_def)
qed

text \<open>A request of a phase: the rest of the invariant follows from the phase's own part.\<close>

lemma take_phase:
  assumes "engine_inv e a" and "taken q e e'" and "idle a" and "lane a' = [(task, kind)]"
    and "pending_reply kind = request_reply q" and "act_replies a' = act_replies a" and "act_engine_open a' = act_engine_open a"
    and "phase_state (en_phase e) e' a'"
  shows "engine_inv e' a'"
  using taken_channels [OF assms(2) _ assms(3-7)] taken_views [OF assms(2)] assms(1,8)
  by (simp add: engine_inv_def phase_inv_def)

lemma covers_member:
  "covers full ids E C \<Longrightarrow> i \<in> set ids \<Longrightarrow> bt_get E i \<noteq> None \<and> bt_get C i = None"
  by (auto simp: covers_def bt_get_def map_of_eq_None_iff)

lemma take_import_action:
  assumes "import_flow epoch outside (CommitImportAction result None # queue) a" and "actor_ok a" and "idle a"
  shows "\<exists>ctx. start_request (CommitImportAction result None) a =
      Inr (start_op (PCommitImportAction None) (TCommitImportAction ctx result) a) \<and>
    import_flow epoch outside queue (start_op (PCommitImportAction None) (TCommitImportAction ctx result) a)"
proof -
  let ?q = "CommitImportAction result None" and ?i = "import_result_action_id result"
  let ?task = "\<lambda>ctx. start_op (PCommitImportAction None) (TCommitImportAction ctx result) a"
  obtain x where x: "rt_active_import (act_runtime a) = Some x" "aie_epoch x = epoch" "act_deferred_import a = None"
    "list_all import_commit queue" "covers True (outstanding outside (?q # queue) a) (aie_expected x) (aie_completed x)"
    using assms(1) by (auto simp: import_flow_def split: option.splits)
  have "bt_get (aie_expected x) ?i \<noteq> None \<and> bt_get (aie_completed x) ?i = None"
    by (rule covers_member [OF x(5)]) (simp add: outstanding_def)
  then have "admissible ?q a" using x(1) by (simp add: admissible_def)
  from start_request_ok [OF assms(2) _ this] assms(3) obtain ctx where
    s: "start_request ?q a = Inr (?task ctx)" by (auto simp: idle_def res_simps)
  have l: "phase_lane a = []" "phase_lane (?task ctx) = [(TCommitImportAction ctx result, PCommitImportAction None)]"
    using lane_idle [OF assms(3)] lane_start_op [OF assms(3)] by (simp_all add: phase_lane_def)
  have "mset (outstanding outside queue (?task ctx)) = mset (outstanding outside (?q # queue) a)"
    using l by (simp add: outstanding_def)
  from covers_perm [OF this, of True "aie_expected x" "aie_completed x"] x l have "import_flow epoch outside queue (?task ctx)" by (simp add: import_flow_def)
  with s show ?thesis by blast
qed

lemma take_projection_action:
  assumes "projection_flow full epoch outside (CommitProjectionAction result None # queue) a" and "actor_ok a" and "idle a"
  shows "\<exists>ctx. start_request (CommitProjectionAction result None) a =
      Inr (start_op (PCommitProjectionAction None) (TCommitProjectionAction ctx result) a) \<and>
    projection_flow full epoch outside queue (start_op (PCommitProjectionAction None) (TCommitProjectionAction ctx result) a)"
proof -
  let ?q = "CommitProjectionAction result None" and ?i = "projection_result_action_id result"
  let ?task = "\<lambda>ctx. start_op (PCommitProjectionAction None) (TCommitProjectionAction ctx result) a"
  obtain x where x: "rt_active_projection (act_runtime a) = Some x" "ape_epoch x = epoch" "act_deferred_projection a = None"
    "list_all projection_commit queue" "covers full (outstanding outside (?q # queue) a) (ape_expected x) (ape_completed x)"
    using assms(1) by (auto simp: projection_flow_def split: option.splits)
  have "bt_get (ape_expected x) ?i \<noteq> None \<and> bt_get (ape_completed x) ?i = None"
    by (rule covers_member [OF x(5)]) (simp add: outstanding_def)
  then have "admissible ?q a" using x(1) by (simp add: admissible_def)
  from start_request_ok [OF assms(2) _ this] assms(3) obtain ctx where
    s: "start_request ?q a = Inr (?task ctx)" by (auto simp: idle_def res_simps)
  have l: "phase_lane a = []" "phase_lane (?task ctx) = [(TCommitProjectionAction ctx result, PCommitProjectionAction None)]"
    using lane_idle [OF assms(3)] lane_start_op [OF assms(3)] by (simp_all add: phase_lane_def)
  have "mset (outstanding outside queue (?task ctx)) = mset (outstanding outside (?q # queue) a)"
    using l by (simp add: outstanding_def)
  from covers_perm [OF this, of full "ape_expected x" "ape_completed x"] x l have "projection_flow full epoch outside queue (?task ctx)" by (simp add: projection_flow_def)
  with s show ?thesis by blast
qed

text \<open>An epoch with nothing outstanding is complete, so its commit starts at once.\<close>

lemma take_import_commit:
  assumes "import_flow epoch [] [] a" and "actor_ok a" and "idle a"
  shows "\<exists>c. start_request (CommitImportEpoch epoch r) a = Inr (start_op (PCommitImportEpoch r) (TCommitImportEpoch c)
      (a\<lparr>act_runtime := (act_runtime a)\<lparr>rt_active_import := None\<rparr>\<rparr>)) \<and> act_deferred_import a = None"
proof -
  have rt: "runtime_ok (act_runtime a)" using assms(2) by (simp add: actor_ok_def)
  obtain x where x: "rt_active_import (act_runtime a) = Some x" "aie_epoch x = epoch" "act_deferred_import a = None"
    "covers True (outstanding [] [] a) (aie_expected x) (aie_completed x)"
    using assms(1) by (auto simp: import_flow_def split: option.splits)
  have l: "ledger_ok (aie_epoch x) (aie_expected x) (aie_completed x)" using rt x(1) by (simp add: runtime_ok_def)
  have "outstanding [] [] a = []" using lane_idle [OF assms(3)] by (simp add: outstanding_def)
  with x(4) l have "set (map fst (aie_completed x)) = set (map fst (aie_expected x))" by (auto simp: covers_def ledger_ok_def)
  then have n: "length (aie_completed x) = length (aie_expected x)" using ledger_complete_iff [OF l] by simp
  then have c: "import_epoch_complete epoch (act_runtime a) = Inr True" using x(1,2) by (auto simp: import_complete_iff)
  have "validate_import_epoch_commit epoch (act_runtime a) = Inr ()" using x(1,2) by (simp add: validate_import_epoch_commit_def)
  with c x(3) finish_import_epoch_ok [OF rt c x(1)] show ?thesis by (simp add: start_commit_import_epoch_def) blast
qed

lemma take_projection_commit:
  assumes "projection_flow (reason = PlanExhausted) epoch [] [] a" and "actor_ok a" and "idle a"
  shows "\<exists>c. start_request (CommitProjectionEpoch epoch reason r) a =
      Inr (start_op (PCommitProjectionEpoch r) (TCommitProjectionEpoch c reason)
        (a\<lparr>act_runtime := (act_runtime a)\<lparr>rt_active_projection := None\<rparr>\<rparr>)) \<and> act_deferred_projection a = None"
proof -
  have rt: "runtime_ok (act_runtime a)" using assms(2) by (simp add: actor_ok_def)
  obtain x where x: "rt_active_projection (act_runtime a) = Some x" "ape_epoch x = epoch" "act_deferred_projection a = None"
    "covers (reason = PlanExhausted) (outstanding [] [] a) (ape_expected x) (ape_completed x)"
    using assms(1) by (auto simp: projection_flow_def split: option.splits)
  have l: "ledger_ok (ape_epoch x) (ape_expected x) (ape_completed x)" using rt x(1) by (simp add: runtime_ok_def)
  have "outstanding [] [] a = []" using lane_idle [OF assms(3)] by (simp add: outstanding_def)
  with x(4) l have "reason = PlanExhausted \<longrightarrow> set (map fst (ape_completed x)) = set (map fst (ape_expected x))"
    by (auto simp: covers_def ledger_ok_def)
  then have n: "reason = PlanExhausted \<longrightarrow> length (ape_completed x) = length (ape_expected x)"
    using ledger_complete_iff [OF l] by simp
  then have c: "projection_epoch_ready_to_commit epoch reason a = Inr True"
    unfolding ready_iff [OF assms(3)] using x(1,2) by blast
  have "validate_projection_epoch_commit epoch (act_runtime a) = Inr ()"
    using x(1,2) by (simp add: validate_projection_epoch_commit_def)
  with c x(3) finish_projection_epoch_ok [OF rt x(1,2) n] show ?thesis by (simp add: start_commit_projection_epoch_def) blast
qed

lemma import_commit_form: "import_commit q \<Longrightarrow> \<exists>result. q = CommitImportAction result None"
  and projection_commit_form: "projection_commit q \<Longrightarrow> \<exists>result. q = CommitProjectionAction result None"
  by (cases q rule: import_commit.cases; simp) (cases q rule: projection_commit.cases; simp)

text \<open>The first request of the mailbox is always accepted.\<close>

definition accepts :: "semantic_request \<Rightarrow> engine \<Rightarrow> semantic_actor \<Rightarrow> bool" where
  "accepts q e a \<longleftrightarrow> (\<exists>a'. start_request q a = Inr a' \<and> engine_inv e a')"

lemma take_importing:
  assumes "engine_inv e a" and "taken q e e'" and "idle a" and "actor_ok a" and "phase_queue e = q # phase_queue e'"
    and "en_phase e = Importing (ImportDispatching epoch queue infl)"
  shows "accepts q e' a"
proof -
  let ?out = "map ia_id queue @ concat (map fs_action (phase_pending e))"
  have f: "phase_waits e = []" "no_projection a" "list_all import_wait_fs (phase_pending e)" "length (phase_pending e) \<le> 1"
    "infl = set (concat (map fs_action (phase_pending e)))" "import_flow epoch ?out (q # phase_queue e') a"
    using assms(1,5,6) by (simp_all add: engine_inv_def phase_inv_def phase_state_def)
  then obtain result where q: "q = CommitImportAction result None" using import_commit_form by (auto simp: import_flow_def)
  from take_import_action [OF _ assms(4,3), of epoch ?out result "phase_queue e'"] f(6) q obtain ctx where
    s: "start_request q a = Inr (start_op (PCommitImportAction None) (TCommitImportAction ctx result) a)"
    "import_flow epoch ?out (phase_queue e') (start_op (PCommitImportAction None) (TCommitImportAction ctx result) a)" by auto
  have "engine_inv e' (start_op (PCommitImportAction None) (TCommitImportAction ctx result) a)"
    by (rule take_phase [OF assms(1-3) lane_start_op [OF assms(3)]])
      (use s(2) f taken_views [OF assms(2)] assms(6) q in \<open>simp_all add: phase_state_def no_projection_def start_op_def\<close>)
  with s(1) show ?thesis by (auto simp: accepts_def)
qed

lemma take_projecting:
  assumes "engine_inv e a" and "taken q e e'" and "idle a" and "actor_ok a" and "phase_queue e = q # phase_queue e'"
    and "(\<exists>epoch gen plan infl. en_phase e = Projecting (ProjectionDispatching epoch gen plan infl)) \<or>
      (\<exists>epoch gen reason infl. en_phase e = Projecting (ProjectionDraining epoch gen reason infl))"
  shows "accepts q e' a"
proof -
  let ?fs = "concat (map fs_action (phase_pending e))"
  have ph: "phase_state (en_phase e) e a" using assms(1) by (simp add: engine_inv_def phase_inv_def)
  have "\<exists>full epoch out. projection_flow full epoch out (phase_queue e) a \<and>
      (\<forall>a'. no_import a' = no_import a \<longrightarrow> projection_flow full epoch out (phase_queue e') a' \<longrightarrow> phase_state (en_phase e) e' a')"
    using assms(6)
  proof (elim disjE exE)
    fix epoch gen plan infl
    assume "en_phase e = Projecting (ProjectionDispatching epoch gen plan infl)"
    with ph show ?thesis
      by (intro exI [of _ True] exI [of _ epoch] exI [of _ "map pa_id plan @ ?fs"])
        (simp add: phase_state_def taken_views [OF assms(2)])
  next
    fix epoch gen reason infl
    assume "en_phase e = Projecting (ProjectionDraining epoch gen reason infl)"
    with ph show ?thesis
      by (intro exI [of _ False] exI [of _ epoch] exI [of _ ?fs]) (simp add: phase_state_def taken_views [OF assms(2)])
  qed
  then obtain full epoch out where f: "projection_flow full epoch out (q # phase_queue e') a"
    "\<And>a'. no_import a' = no_import a \<Longrightarrow> projection_flow full epoch out (phase_queue e') a' \<Longrightarrow> phase_state (en_phase e) e' a'"
    unfolding assms(5) by blast
  then obtain result where q: "q = CommitProjectionAction result None"
    using projection_commit_form by (auto simp: projection_flow_def)
  from take_projection_action [OF _ assms(4,3), of full epoch out result "phase_queue e'"] f(1) q obtain ctx where
    s: "start_request q a = Inr (start_op (PCommitProjectionAction None) (TCommitProjectionAction ctx result) a)"
    "projection_flow full epoch out (phase_queue e') (start_op (PCommitProjectionAction None) (TCommitProjectionAction ctx result) a)"
    by auto
  have "phase_state (en_phase e) e' (start_op (PCommitProjectionAction None) (TCommitProjectionAction ctx result) a)"
    by (rule f(2) [OF _ s(2)]) (simp add: no_import_def)
  then have "engine_inv e' (start_op (PCommitProjectionAction None) (TCommitProjectionAction ctx result) a)"
    by (intro take_phase [OF assms(1-3) lane_start_op [OF assms(3)]]) (use q in \<open>simp_all add: start_op_def\<close>)
  with s(1) show ?thesis by (auto simp: accepts_def)
qed

lemma take_import_committing:
  assumes "engine_inv e a" and "taken q e e'" and "idle a" and "actor_ok a" and "phase_queue e = q # phase_queue e'"
    and "en_phase e = Importing (ImportCommitting epoch)"
  shows "accepts q e' a"
proof -
  from assms(1,5,6) obtain r qs where f: "phase_waits e = [(r, WaitCommitImportEpoch)]" "phase_pending e = []" "no_projection a"
    "q # phase_queue e' = qs @ [CommitImportEpoch epoch r]" "import_flow epoch [] qs a"
    by (auto simp: engine_inv_def phase_inv_def phase_state_def quiet_def)
  note v = taken_views [OF assms(2)]
  show ?thesis
  proof (cases qs)
    case Nil
    with f have q: "q = CommitImportEpoch epoch r" "phase_queue e' = []" "import_flow epoch [] [] a" by simp_all
    let ?a = "a\<lparr>act_runtime := (act_runtime a)\<lparr>rt_active_import := None\<rparr>\<rparr>"
    from take_import_commit [OF q(3) assms(4,3), of r] obtain c where
      s: "start_request q a = Inr (start_op (PCommitImportEpoch r) (TCommitImportEpoch c) ?a)" "act_deferred_import a = None"
      unfolding q(1) by blast
    have i: "idle ?a" using assms(3) by (simp add: idle_def)
    have "phase_lane (start_op (PCommitImportEpoch r) (TCommitImportEpoch c) ?a) = [(TCommitImportEpoch c, PCommitImportEpoch r)]"
      using lane_start_op [OF i] by (simp add: phase_lane_def)
    then have "engine_inv e' (start_op (PCommitImportEpoch r) (TCommitImportEpoch c) ?a)"
      by (intro take_phase [OF assms(1-3) lane_start_op [OF i]])
        (use f(1-3) v(2,3) q assms(6) s(2) in \<open>simp_all add: start_op_def phase_state_def no_import_def no_projection_def\<close>)
    with s(1) show ?thesis by (auto simp: accepts_def)
  next
    case (Cons x qs')
    with f have q: "q = x" "phase_queue e' = qs' @ [CommitImportEpoch epoch r]" "import_flow epoch [] (x # qs') a" by simp_all
    then obtain result where x: "x = CommitImportAction result None" using import_commit_form by (auto simp: import_flow_def)
    from take_import_action [OF _ assms(4,3), of epoch "[]" result qs'] q(1,3) x obtain ctx where
      s: "start_request q a = Inr (start_op (PCommitImportAction None) (TCommitImportAction ctx result) a)"
      "import_flow epoch [] qs' (start_op (PCommitImportAction None) (TCommitImportAction ctx result) a)" by auto
    let ?a = "start_op (PCommitImportAction None) (TCommitImportAction ctx result) a"
    have "no_projection ?a" using f(3) by (simp add: no_projection_def)
    then have "engine_inv e' ?a"
      by (intro take_phase [OF assms(1-3) lane_start_op [OF assms(3)]])
        (use f(1-2) v(2,3) q x assms(6) s(2) in \<open>simp_all add: start_op_def phase_state_def\<close>)
    with s(1) show ?thesis by (auto simp: accepts_def)
  qed
qed

lemma take_projection_committing:
  assumes "engine_inv e a" and "taken q e e'" and "idle a" and "actor_ok a" and "phase_queue e = q # phase_queue e'"
    and "en_phase e = Projecting (ProjectionCommitting epoch gen)"
  shows "accepts q e' a"
proof -
  from assms(1,5,6) obtain r qs reason where f: "phase_waits e = [(r, WaitCommitProjectionEpoch)]" "phase_pending e = []"
    "no_import a" "q # phase_queue e' = qs @ [CommitProjectionEpoch epoch reason r]"
    "projection_flow (reason = PlanExhausted) epoch [] qs a"
    by (auto simp: engine_inv_def phase_inv_def phase_state_def quiet_def)
  note v = taken_views [OF assms(2)]
  show ?thesis
  proof (cases qs)
    case Nil
    with f have q: "q = CommitProjectionEpoch epoch reason r" "phase_queue e' = []"
      "projection_flow (reason = PlanExhausted) epoch [] [] a" by simp_all
    let ?a = "a\<lparr>act_runtime := (act_runtime a)\<lparr>rt_active_projection := None\<rparr>\<rparr>"
    from take_projection_commit [OF q(3) assms(4,3), of r] obtain c where
      s: "start_request q a = Inr (start_op (PCommitProjectionEpoch r) (TCommitProjectionEpoch c reason) ?a)"
      "act_deferred_projection a = None"
      unfolding q(1) by blast
    have i: "idle ?a" using assms(3) by (simp add: idle_def)
    have "phase_lane (start_op (PCommitProjectionEpoch r) (TCommitProjectionEpoch c reason) ?a) =
        [(TCommitProjectionEpoch c reason, PCommitProjectionEpoch r)]"
      using lane_start_op [OF i] by (simp add: phase_lane_def)
    then have "engine_inv e' (start_op (PCommitProjectionEpoch r) (TCommitProjectionEpoch c reason) ?a)"
      by (intro take_phase [OF assms(1-3) lane_start_op [OF i]])
        (use f(1-3) v(2,3) q assms(6) s(2) in \<open>simp_all add: start_op_def phase_state_def no_import_def no_projection_def\<close>)
    with s(1) show ?thesis by (auto simp: accepts_def)
  next
    case (Cons x qs')
    with f have q: "q = x" "phase_queue e' = qs' @ [CommitProjectionEpoch epoch reason r]"
      "projection_flow (reason = PlanExhausted) epoch [] (x # qs') a" by simp_all
    then obtain result where x: "x = CommitProjectionAction result None"
      using projection_commit_form by (auto simp: projection_flow_def)
    from take_projection_action [OF _ assms(4,3), of "reason = PlanExhausted" epoch "[]" result qs'] q(1,3) x obtain ctx where
      s: "start_request q a = Inr (start_op (PCommitProjectionAction None) (TCommitProjectionAction ctx result) a)"
      "projection_flow (reason = PlanExhausted) epoch [] qs'
        (start_op (PCommitProjectionAction None) (TCommitProjectionAction ctx result) a)" by auto
    let ?a = "start_op (PCommitProjectionAction None) (TCommitProjectionAction ctx result) a"
    have "no_import ?a" using f(3) by (simp add: no_import_def)
    then have "engine_inv e' ?a"
      by (intro take_phase [OF assms(1-3) lane_start_op [OF assms(3)]])
        (use f(1-2) v(2,3) q x assms(6) s(2) in \<open>simp_all add: start_op_def phase_state_def\<close>)
    with s(1) show ?thesis by (auto simp: accepts_def)
  qed
qed

lemma take_planning:
  assumes "engine_inv e a" and "taken q e e'" and "idle a" and "phase_queue e = q # phase_queue e'"
    and "en_phase e = PlanningImport \<or> (\<exists>b dirty. en_phase e = AwaitingNextWork b dirty)"
  shows "accepts q e' a"
  using assms(5)
proof (elim disjE exE)
  assume p: "en_phase e = PlanningImport"
  with assms(1,4) obtain r scan where f: "phase_waits e = [(r, WaitApplyScan)]" "phase_pending e = []" "no_projection a"
    "q = ApplyScan scan r" "phase_queue e' = []" "no_import a"
    by (auto simp: engine_inv_def phase_inv_def phase_state_def quiet_def)
  let ?n = "rt_next_import_epoch (act_runtime a)"
  let ?b = "a\<lparr>act_runtime := (act_runtime a)\<lparr>rt_next_import_epoch := ?n + 1\<rparr>\<rparr>"
  let ?a = "start_op (PApplyScan r) (TApplyScan scan ?n) ?b"
  have s: "start_request q a = Inr ?a" using f(4,6) by (simp add: reserve_import_epoch_def no_import_def)
  have i: "idle ?b" using assms(3) by (simp add: idle_def)
  have "phase_lane ?a = [(TApplyScan scan ?n, PApplyScan r)]" using lane_start_op [OF i] by (simp add: phase_lane_def)
  then have "engine_inv e' ?a"
    by (intro take_phase [OF assms(1-3) lane_start_op [OF i]])
      (use f taken_views [OF assms(2)] p in \<open>simp_all add: start_op_def phase_state_def no_import_def no_projection_def\<close>)
  with s show ?thesis by (auto simp: accepts_def)
next
  fix b dirty
  assume p: "en_phase e = AwaitingNextWork b dirty"
  with assms(1,4) obtain r where f: "phase_waits e = [(r, WaitGetNextWork b)]" "phase_pending e = []" "no_projection a"
    "q = GetNextWork r" "phase_queue e' = []" "no_import a"
    by (auto simp: engine_inv_def phase_inv_def phase_state_def quiet_def)
  let ?n = "rt_next_projection_epoch (act_runtime a)"
  let ?b = "a\<lparr>act_runtime := (act_runtime a)\<lparr>rt_next_projection_epoch := ?n + 1\<rparr>\<rparr>"
  let ?a = "start_op (PGetNextWork r) (TGetNextWork ?n) ?b"
  have s: "start_request q a = Inr ?a" using f(3,4) by (simp add: reserve_projection_epoch_def no_projection_def)
  have i: "idle ?b" using assms(3) by (simp add: idle_def)
  have "phase_lane ?a = [(TGetNextWork ?n, PGetNextWork r)]" using lane_start_op [OF i] by (simp add: phase_lane_def)
  then have "engine_inv e' ?a"
    by (intro take_phase [OF assms(1-3) lane_start_op [OF i]])
      (use f taken_views [OF assms(2)] p in \<open>simp_all add: start_op_def phase_state_def no_import_def no_projection_def\<close>)
  with s show ?thesis by (auto simp: accepts_def)
qed

lemma take_ok:
  assumes "engine_inv e a" and "taken q e e'" and "idle a" and "actor_ok a"
  shows "accepts q e' a"
proof (cases "phase_request q")
  case False
  with take_neutral [OF assms(1-3)] show ?thesis by (simp add: accepts_def)
next
  case True
  then have q: "phase_queue e = q # phase_queue e'" using taken_views(1) [OF assms(2)] by simp
  have ph: "phase_state (en_phase e) e a" using assms(1) by (simp add: engine_inv_def phase_inv_def)
  show ?thesis
  proof (cases "en_phase e")
    case (AwaitingNextWork b dirty)
    with take_planning [OF assms(1-3) q] show ?thesis by simp
  next
    case PlanningImport
    with take_planning [OF assms(1-3) q] show ?thesis by simp
  next
    case (Importing p)
    with take_importing [OF assms q] take_import_committing [OF assms q] show ?thesis by (cases p) simp_all
  next
    case (Projecting p)
    with take_projecting [OF assms q] take_projection_committing [OF assms q] show ?thesis by (cases p) simp_all
  qed (use ph q in \<open>simp_all add: phase_state_def at_boundary_def quiet_def\<close>)
qed

section \<open>Lemmas: finishing a task\<close>

lemma phase_state_more_replies:
  assumes "phase_lane a' = phase_lane a" and "act_runtime a' = act_runtime a" and "act_deferred_import a' = act_deferred_import a"
    and "act_deferred_projection a' = act_deferred_projection a" and "act_replies a' = act_replies a @ zs"
    and "phase_state phase e a"
  shows "phase_state phase e a'"
proof -
  have "phase_state phase e (a\<lparr>act_replies := act_replies a @ zs\<rparr>)"
    by (rule phase_state_replies [OF _ assms(6)]) (auto simp: answered_def)
  moreover have "phase_state phase e a' = phase_state phase e (a\<lparr>act_replies := act_replies a @ zs\<rparr>)"
    by (rule phase_state_actor_cong) (use assms in simp_all)
  ultimately show ?thesis by simp
qed

text \<open>The actor after a task: the lane is empty, at most the task's reply was sent.\<close>

definition finished :: "pending_op_kind \<Rightarrow> semantic_actor \<Rightarrow> semantic_actor \<Rightarrow> bool" where
  "finished kind a a' \<longleftrightarrow> idle a' \<and> act_engine_open a' = act_engine_open a \<and>
     (\<exists>zs. act_replies a' = act_replies a @ zs \<and> mset (map fst zs) \<subseteq># mset (pending_reply kind))"

lemma finished_channels:
  assumes "finished kind a a'" and "channels_ok e a" and "lane a = [(task, kind)]"
  shows "channels_ok e a'"
proof -
  obtain zs where d: "idle a'" "act_engine_open a' = act_engine_open a" "act_replies a' = act_replies a @ zs"
    "mset (map fst zs) \<subseteq># mset (pending_reply kind)" using assms(1) by (auto simp: finished_def)
  have "mset (reply_ids e a') \<subseteq># mset (reply_ids e a)"
    using d lane_idle [OF d(1)] assms(3) by (simp add: reply_ids_def)
  note fewer = fresh_fewer [OF this]
  have "distinct (reply_ids e a)" "list_all (\<lambda>r. r < sc_next_reply (en_semantic e)) (reply_ids e a)"
    using assms(2) by (simp_all add: channels_ok_def)
  from fewer [OF this] assms(2) d(2) show ?thesis by (simp add: channels_ok_def)
qed

lemma finished_inv:
  assumes "engine_inv e a" and "lane a = [(task, kind)]" and "finished kind a a'" and "phase_state (en_phase e) e a'"
  shows "engine_inv e a'"
  using finished_channels [OF assms(3) _ assms(2)] assms(1,4) by (simp add: engine_inv_def phase_inv_def)

lemma emit_sent: "emit eff a = Inr a' \<Longrightarrow> act_replies a' = act_replies a \<and> act_engine_open a' = act_engine_open a"
  by (auto simp: emit_def split: if_splits)

lemma reply_after_emit_sent:
  "\<exists>res a'. reply_after_emit r w result a = send_reply r (w res) a' \<and> act_runtime a' = act_runtime a \<and>
    act_running a' = act_running a \<and> act_pending a' = act_pending a \<and> act_deferred_import a' = act_deferred_import a \<and>
    act_deferred_projection a' = act_deferred_projection a \<and> act_replies a' = act_replies a \<and> act_engine_open a' = act_engine_open a"
proof (cases result)
  case (Inl x)
  then show ?thesis by (auto simp: reply_after_emit_def)
next
  case (Inr eff)
  show ?thesis
  proof (cases "emit eff a")
    case Inl
    with Inr show ?thesis by (auto simp: reply_after_emit_def)
  next
    case (Inr a')
    from emit_simps [OF Inr] emit_sent [OF Inr] Inr \<open>result = Inr eff\<close> show ?thesis by (auto simp: reply_after_emit_def)
  qed
qed

lemma send_reply_sent [simp]:
  "act_replies (send_reply r v a) = act_replies a @ [(r, v)]" "act_engine_open (send_reply r v a) = act_engine_open a"
  by (simp_all add: send_reply_def)

lemma finish_neutral:
  assumes "finish_pending outcome kind b = Inr a'" and "\<not> phase_task task" and "outcome_name outcome = task_name task"
    and "pending_name kind = task_name task"
  shows "act_runtime a' = act_runtime b \<and> act_running a' = act_running b \<and> act_pending a' = act_pending b \<and>
    act_deferred_import a' = act_deferred_import b \<and> act_deferred_projection a' = act_deferred_projection b \<and>
    act_engine_open a' = act_engine_open b \<and> (\<exists>zs. act_replies a' = act_replies b @ zs \<and> map fst zs = pending_reply kind)"
proof (cases task)
  case (TApplySharedMessageBatch batch)
  with assms(3,4) obtain res r where o: "outcome = OApplySharedMessageBatch res" "kind = PApplySharedMessageBatch r"
    by (auto simp: outcome_name_iff pending_name_iff)
  with assms(1) reply_after_emit_sent [of r RUnit res b] show ?thesis by auto
qed (use assms in \<open>auto simp: outcome_name_iff pending_name_iff res_simps\<close>)

definition unlaned :: "semantic_actor \<Rightarrow> semantic_actor" where
  "unlaned a = a\<lparr>act_running := [], act_pending := []\<rparr>"

lemma unlaned_simps [simp]:
  "act_runtime (unlaned a) = act_runtime a" "act_deferred_import (unlaned a) = act_deferred_import a"
  "act_deferred_projection (unlaned a) = act_deferred_projection a" "act_replies (unlaned a) = act_replies a"
  "act_engine_open (unlaned a) = act_engine_open a" "act_running (unlaned a) = []" "act_pending (unlaned a) = []"
  by (simp_all add: unlaned_def)

lemma covers_done:
  assumes "covers full (xs @ i # ys) E C" and "bt_wf C"
  shows "covers full (xs @ ys) E (bt_insert i v C)"
  using assms bt_keys_insert [of i v C] by (auto simp: covers_def bt_keys_def)

lemma finish_import:
  assumes "import_flow epoch out q a" and "phase_lane a = [(TCommitImportAction ctx result, kind)]"
    and "finish_pending outcome kind (unlaned a) = Inr a'" and "outcome_fits (TCommitImportAction ctx result) outcome"
    and "outcome_name outcome = task_name (TCommitImportAction ctx result)" and "actor_ok a"
  shows "finished kind a a' \<and> import_flow epoch out q a' \<and> no_projection a' = no_projection a \<and> act_replies a' = act_replies a"
proof -
  let ?i = "import_result_action_id result"
  have k: "kind = PCommitImportAction None" using assms(1,2) by (simp add: import_flow_def)
  obtain x where x: "rt_active_import (act_runtime a) = Some x" "aie_epoch x = epoch" "act_deferred_import a = None"
    "list_all import_commit q" "covers True (outstanding out q a) (aie_expected x) (aie_completed x)"
    using assms(1) by (auto simp: import_flow_def split: option.splits)
  from assms(3-5) k obtain rt where rt: "finish_import_action ?i (act_runtime a) = Inr rt"
    "a' = (unlaned a)\<lparr>act_runtime := rt\<rparr>"
    using x(3) by (auto simp: outcome_name_iff conclude_action_def is_ok_def outcome_fits_def res_simps
        start_ready_deferred_import_epoch_commit_def split: sum.splits)
  with x(1) have a': "a' = (unlaned a)\<lparr>act_runtime := (act_runtime a)\<lparr>rt_active_import :=
      Some (x\<lparr>aie_completed := bt_insert ?i () (aie_completed x)\<rparr>)\<rparr>\<rparr>"
    by (auto simp: finish_import_action_def split: if_splits)
  have i: "idle a'" by (simp add: a' idle_def)
  have wf: "bt_wf (aie_completed x)" using assms(6) x(1) by (simp add: actor_ok_def runtime_ok_def ledger_ok_def)
  have "outstanding out q a' = out @ concat (map request_action q)" using lane_idle [OF i] by (simp add: outstanding_def)
  moreover have "outstanding out q a = (out @ concat (map request_action q)) @ ?i # []" using assms(2) by (simp add: outstanding_def)
  ultimately have "covers True (outstanding out q a') (aie_expected x) (bt_insert ?i () (aie_completed x))"
    using covers_done [of True "out @ concat (map request_action q)" ?i "[]" "aie_expected x" "aie_completed x" "()"] wf x(5)
    by simp
  with x i lane_idle [OF i] show ?thesis
    by (simp add: a' import_flow_def finished_def no_projection_def)
qed

lemma finish_projection:
  assumes "projection_flow full epoch out q a" and "phase_lane a = [(TCommitProjectionAction ctx result, kind)]"
    and "finish_pending outcome kind (unlaned a) = Inr a'" and "outcome_fits (TCommitProjectionAction ctx result) outcome"
    and "outcome_name outcome = task_name (TCommitProjectionAction ctx result)" and "actor_ok a"
  shows "finished kind a a' \<and> projection_flow full epoch out q a' \<and> no_import a' = no_import a \<and> act_replies a' = act_replies a"
proof -
  let ?i = "projection_result_action_id result"
  have k: "kind = PCommitProjectionAction None" using assms(1,2) by (simp add: projection_flow_def)
  obtain x where x: "rt_active_projection (act_runtime a) = Some x" "ape_epoch x = epoch" "act_deferred_projection a = None"
    "list_all projection_commit q" "covers full (outstanding out q a) (ape_expected x) (ape_completed x)"
    using assms(1) by (auto simp: projection_flow_def split: option.splits)
  from assms(3-5) k obtain rt where rt: "finish_projection_action result (act_runtime a) = Inr rt"
    "a' = (unlaned a)\<lparr>act_runtime := rt\<rparr>"
    using x(3) by (auto simp: outcome_name_iff conclude_action_def is_ok_def outcome_fits_def res_simps
        start_ready_deferred_projection_epoch_commit_def split: sum.splits)
  with x(1) have a': "a' = (unlaned a)\<lparr>act_runtime := (act_runtime a)\<lparr>rt_active_projection :=
      Some (x\<lparr>ape_completed := bt_insert ?i result (ape_completed x)\<rparr>)\<rparr>\<rparr>"
    by (auto simp: finish_projection_action_def Let_def split: if_splits)
  have i: "idle a'" by (simp add: a' idle_def)
  have wf: "bt_wf (ape_completed x)" using assms(6) x(1) by (simp add: actor_ok_def runtime_ok_def ledger_ok_def)
  have "outstanding out q a' = out @ concat (map request_action q)" using lane_idle [OF i] by (simp add: outstanding_def)
  moreover have "outstanding out q a = (out @ concat (map request_action q)) @ ?i # []" using assms(2) by (simp add: outstanding_def)
  ultimately have "covers full (outstanding out q a') (ape_expected x) (bt_insert ?i result (ape_completed x))"
    using covers_done [of full "out @ concat (map request_action q)" ?i "[]" "ape_expected x" "ape_completed x" result] wf x(5)
    by simp
  with x i lane_idle [OF i] show ?thesis
    by (simp add: a' projection_flow_def finished_def no_import_def)
qed

text \<open>Planning ends with the answer the engine waits for.\<close>

lemma answered_last [simp]: "answered r P (send_reply r v a) \<longleftrightarrow> P v \<or> answered r P a"
  by (auto simp: answered_def)

lemma answer_reply [simp]:
  "import_answer (send_reply r v a) = import_answer a" "projection_answer (send_reply r v a) = projection_answer a"
  by (simp_all add: send_reply_def)

lemma flow_installed_import:
  assumes "rt_active_import (act_runtime b) = Some x" and "aie_epoch x = epoch" and "aie_completed x = []"
    and "bt_get (aie_expected x) = map_of (map (\<lambda>a. (ia_id a, ia_kind a)) actions)" and "numbered epoch (map ia_id actions)"
    and "idle b" and "act_deferred_import b = None"
  shows "import_flow epoch (map ia_id actions) [] b"
proof -
  have "set (map fst (aie_expected x)) = set (map ia_id actions)"
    unfolding dom_bt_get [symmetric] assms(4) by (force simp: dom_map_of_conv_image_fst)
  with assms lane_idle [OF assms(6)] numbered_distinct [OF assms(5)] show ?thesis
    by (simp add: import_flow_def covers_def outstanding_def)
qed

lemma flow_installed_projection:
  assumes "rt_active_projection (act_runtime b) = Some x" and "ape_epoch x = epoch" and "ape_completed x = []"
    and "bt_get (ape_expected x) = map_of (map (\<lambda>a. (pa_id a, pa_commit_context a)) actions)"
    and "numbered epoch (map pa_id actions)" and "idle b" and "act_deferred_projection b = None"
  shows "projection_flow True epoch (map pa_id actions) [] b"
proof -
  have "set (map fst (ape_expected x)) = set (map pa_id actions)"
    unfolding dom_bt_get [symmetric] assms(4) by (force simp: dom_map_of_conv_image_fst)
  with assms lane_idle [OF assms(6)] numbered_distinct [OF assms(5)] show ?thesis
    by (simp add: projection_flow_def covers_def outstanding_def)
qed

lemma finish_planning_import:
  assumes "phase_lane a = [(TApplyScan scan ep, PApplyScan r)]" and "finish_pending outcome (PApplyScan r) (unlaned a) = Inr a'"
    and "outcome_fits (TApplyScan scan ep) outcome" and "outcome_name outcome = task_name (TApplyScan scan ep)"
    and "no_import a"
  shows "finished (PApplyScan r) a a' \<and> answered r (import_answer a') a' \<and> no_projection a' = no_projection a"
proof -
  obtain res where o: "outcome = OApplyScan res" using assms(4) by (auto simp: outcome_name_iff)
  have none: "rt_active_import (act_runtime a) = None" "act_deferred_import a = None" using assms(5) by (simp_all add: no_import_def)
  have failed: ?thesis if "a' = send_reply r (RNextWork (Inl err)) (unlaned a)" for err
    using that by (simp add: finished_def idle_def no_projection_def import_answer_def)
  show ?thesis
  proof (cases res)
    case (Inl err)
    with assms(2) o failed show ?thesis by auto
  next
    case (Inr w)
    obtain work eff where w: "w = (work, eff)" by (cases w)
    show ?thesis
    proof (cases "emit eff (unlaned a)")
      case (Inl err)
      with assms(2) o \<open>res = Inr w\<close> w failed show ?thesis by auto
    next
      case (Inr a1)
      note a1 = emit_simps [OF Inr] emit_sent [OF Inr]
      show ?thesis
      proof (cases work)
        case NoWork
        with assms(2) o \<open>res = Inr w\<close> w Inr have "a' = send_reply r (RNextWork (Inr NoWork)) (a1\<lparr>act_runtime := act_runtime a1\<rparr>)" by simp
        with a1 none show ?thesis by (simp add: finished_def idle_def no_projection_def import_answer_def no_import_def)
      next
        case (Import st)
        with o \<open>res = Inr w\<close> w assms(3) have n: "numbered (ies_epoch st) (map ia_id (ies_actions st))" by (simp add: outcome_fits_def)
        have "rt_active_import (act_runtime a1) = None" using a1 none by simp
        from install_import_ok [OF this n, of Sync] obtain x where x:
          "install_import_epoch st Sync (act_runtime a1) = Inr ((act_runtime a1)\<lparr>rt_active_import := Some x\<rparr>)"
          "aie_epoch x = ies_epoch st" "aie_completed x = []"
          "bt_get (aie_expected x) = map_of (map (\<lambda>a. (ia_id a, ia_kind a)) (ies_actions st))" by blast
        let ?b = "a1\<lparr>act_runtime := (act_runtime a1)\<lparr>rt_active_import := Some x\<rparr>\<rparr>"
        have "import_flow (ies_epoch st) (map ia_id (ies_actions st)) [] ?b"
          by (rule flow_installed_import [where x = x]) (use x n a1 none in \<open>simp_all add: idle_def\<close>)
        moreover have "a' = send_reply r (RNextWork (Inr (Import st))) ?b"
          using assms(2) o \<open>res = Inr w\<close> w Inr Import x(1) by simp
        ultimately show ?thesis using a1 by (simp add: finished_def idle_def no_projection_def import_answer_def)
      next
        case (Project st)
        with o \<open>res = Inr w\<close> w assms(3) show ?thesis by (simp add: outcome_fits_def)
      qed
    qed
  qed
qed

lemma finish_planning_projection:
  assumes "phase_lane a = [(TGetNextWork ep, PGetNextWork r)]" and "finish_pending outcome (PGetNextWork r) (unlaned a) = Inr a'"
    and "outcome_fits (TGetNextWork ep) outcome" and "outcome_name outcome = task_name (TGetNextWork ep)"
    and "no_projection a"
  shows "finished (PGetNextWork r) a a' \<and> answered r (projection_answer a') a' \<and> no_import a' = no_import a"
proof -
  obtain res where o: "outcome = OGetNextWork res" using assms(4) by (auto simp: outcome_name_iff)
  have none: "rt_active_projection (act_runtime a) = None" "act_deferred_projection a = None"
    using assms(5) by (simp_all add: no_projection_def)
  show ?thesis
  proof (cases "\<exists>st. res = Inr (Project st)")
    case False
    then have "a' = send_reply r (RNextWork res) ((unlaned a)\<lparr>act_runtime := act_runtime (unlaned a)\<rparr>)"
      "\<And>st. res \<noteq> Inr (Import st)"
      using assms(2,3) o by (auto simp: outcome_fits_def split: sum.splits next_work.splits)
    with none False show ?thesis
      by (auto simp: finished_def idle_def no_projection_def no_import_def projection_answer_def split: sum.splits next_work.splits)
  next
    case True
    then obtain st where st: "res = Inr (Project st)" by blast
    with o assms(3) have n: "numbered (pes_epoch st) (map pa_id (pes_actions st))" by (simp add: outcome_fits_def)
    from install_projection_ok [OF none(1) n] obtain x where x:
      "install_projection_epoch st (act_runtime a) = Inr ((act_runtime a)\<lparr>rt_active_projection := Some x\<rparr>)"
      "ape_epoch x = pes_epoch st" "ape_completed x = []"
      "bt_get (ape_expected x) = map_of (map (\<lambda>a. (pa_id a, pa_commit_context a)) (pes_actions st))" by blast
    let ?b = "(unlaned a)\<lparr>act_runtime := (act_runtime a)\<lparr>rt_active_projection := Some x\<rparr>\<rparr>"
    have "projection_flow True (pes_epoch st) (map pa_id (pes_actions st)) [] ?b"
      by (rule flow_installed_projection [where x = x]) (use x n none in \<open>simp_all add: idle_def\<close>)
    moreover have "a' = send_reply r (RNextWork (Inr (Project st))) ?b" using assms(2) o st x(1) by simp
    ultimately show ?thesis by (simp add: finished_def idle_def no_import_def projection_answer_def)
  qed
qed

lemma finish_commit_epoch:
  assumes "finish_pending outcome kind (unlaned a) = Inr a'" and "outcome_name outcome = task_name task"
    and "(\<exists>c. task = TCommitImportEpoch c \<and> kind = PCommitImportEpoch r) \<or>
      (\<exists>c reason. task = TCommitProjectionEpoch c reason \<and> kind = PCommitProjectionEpoch r)"
  shows "finished kind a a' \<and> answered r unit_answer a' \<and> no_import a' = no_import a \<and> no_projection a' = no_projection a"
  using assms(3)
proof (elim disjE exE conjE)
  fix c
  assume t: "task = TCommitImportEpoch c" "kind = PCommitImportEpoch r"
  with assms(2) obtain res where "outcome = OCommitImportEpoch res" by (auto simp: outcome_name_iff)
  with assms(1) t(2) reply_after_emit_sent [of r RUnit res "unlaned a"] obtain res' b where
    "a' = send_reply r (RUnit res') b" "act_runtime b = act_runtime a" "act_running b = []" "act_pending b = []"
    "act_deferred_import b = act_deferred_import a" "act_deferred_projection b = act_deferred_projection a"
    "act_replies b = act_replies a" "act_engine_open b = act_engine_open a" by auto
  with t(2) show ?thesis by (simp add: finished_def idle_def unit_answer_def no_import_def no_projection_def)
next
  fix c reason
  assume t: "task = TCommitProjectionEpoch c reason" "kind = PCommitProjectionEpoch r"
  with assms(2) obtain res where "outcome = OCommitProjectionEpoch res" by (auto simp: outcome_name_iff)
  with assms(1) t(2) have "a' = send_reply r (RUnit res) (unlaned a)" by simp
  with t(2) show ?thesis by (simp add: finished_def idle_def unit_answer_def no_import_def no_projection_def)
qed

lemma finished_idle: "finished kind a a' \<Longrightarrow> phase_lane a' = []"
  using lane_idle by (auto simp: finished_def)

lemma finish_phase_ok:
  assumes "engine_inv e a" and "actor_ok a" and "lane a = [(task, kind)]" and "phase_task task"
    and "finish_pending outcome kind (unlaned a) = Inr a'" and "outcome_fits task outcome"
    and "outcome_name outcome = task_name task"
  shows "finished kind a a' \<and> phase_state (en_phase e) e a'"
proof -
  have l: "phase_lane a = [(task, kind)]" using assms(3,4) by (simp add: phase_lane_def)
  have ph: "phase_state (en_phase e) e a" using assms(1) by (simp add: engine_inv_def phase_inv_def)
  show ?thesis
  proof (cases "en_phase e")
    case Idle
    with ph l show ?thesis by (simp add: phase_state_def at_boundary_def quiet_def)
  next
    case (Scanning s)
    with ph l show ?thesis by (simp add: phase_state_def quiet_def)
  next
    case (AwaitingNextWork b dirty)
    with ph l obtain r ep where f: "phase_pending e = []" "no_import a" "phase_waits e = [(r, WaitGetNextWork b)]" "phase_queue e = []"
      "task = TGetNextWork ep" "kind = PGetNextWork r" "no_projection a" by (auto simp: phase_state_def quiet_def)
    from finish_planning_projection [of a ep r outcome a'] assms(5-7) l f finished_idle show ?thesis
      by (auto simp: AwaitingNextWork phase_state_def quiet_def)
  next
    case PlanningImport
    with ph l obtain r ep scan where f: "phase_pending e = []" "no_projection a" "phase_waits e = [(r, WaitApplyScan)]" "phase_queue e = []"
      "task = TApplyScan scan ep" "kind = PApplyScan r" "no_import a" by (auto simp: phase_state_def quiet_def)
    from finish_planning_import [of a scan ep r outcome a'] assms(5-7) l f finished_idle show ?thesis
      by (auto simp: PlanningImport phase_state_def quiet_def)
  next
    case (Importing p)
    show ?thesis
    proof (cases p)
      case (ImportDispatching epoch queue infl)
      let ?out = "map ia_id queue @ concat (map fs_action (phase_pending e))"
      from ph Importing ImportDispatching have f: "import_flow epoch ?out (phase_queue e) a" by (simp add: phase_state_def)
      with l obtain ctx result where t: "task = TCommitImportAction ctx result"
        by (cases task) (auto simp: import_flow_def)
      from finish_import [OF f l [unfolded t] assms(5) assms(6,7) [unfolded t] assms(2)] ph Importing ImportDispatching
      show ?thesis by (simp add: phase_state_def)
    next
      case (ImportCommitting epoch)
      with ph Importing l obtain r where f: "phase_pending e = []" "no_projection a" "phase_waits e = [(r, WaitCommitImportEpoch)]"
        "(\<exists>q. phase_queue e = q @ [CommitImportEpoch epoch r] \<and> import_flow epoch [] q a) \<or>
         phase_queue e = [] \<and> (\<exists>c. task = TCommitImportEpoch c \<and> kind = PCommitImportEpoch r) \<and> no_import a"
        by (auto simp: phase_state_def quiet_def)
      from f(4) show ?thesis
      proof (elim disjE exE conjE)
        fix q
        assume q: "phase_queue e = q @ [CommitImportEpoch epoch r]" "import_flow epoch [] q a"
        with l obtain ctx result where t: "task = TCommitImportAction ctx result"
          by (cases task) (auto simp: import_flow_def)
        from finish_import [OF q(2) l [unfolded t] assms(5) assms(6,7) [unfolded t] assms(2)] f(1-3) q(1) Importing ImportCommitting
        show ?thesis by (simp add: phase_state_def)
      next
        fix c
        assume t: "phase_queue e = []" "task = TCommitImportEpoch c" "kind = PCommitImportEpoch r" "no_import a"
        with finish_commit_epoch [OF assms(5,7), of r] f(1-3) finished_idle [of kind a a'] Importing ImportCommitting
        show ?thesis by (simp add: phase_state_def quiet_def)
      qed
    qed
  next
    case (Projecting p)
    show ?thesis
    proof (cases p)
      case (ProjectionDispatching epoch gen plan infl)
      let ?out = "map pa_id plan @ concat (map fs_action (phase_pending e))"
      from ph Projecting ProjectionDispatching have f: "projection_flow True epoch ?out (phase_queue e) a" by (simp add: phase_state_def)
      with l obtain ctx result where t: "task = TCommitProjectionAction ctx result"
        by (cases task) (auto simp: projection_flow_def)
      from finish_projection [OF f l [unfolded t] assms(5) assms(6,7) [unfolded t] assms(2)] ph Projecting ProjectionDispatching
      show ?thesis by (simp add: phase_state_def)
    next
      case (ProjectionDraining epoch gen reason infl)
      from ph Projecting ProjectionDraining
      have f: "projection_flow False epoch (concat (map fs_action (phase_pending e))) (phase_queue e) a" by (simp add: phase_state_def)
      with l obtain ctx result where t: "task = TCommitProjectionAction ctx result"
        by (cases task) (auto simp: projection_flow_def)
      from finish_projection [OF f l [unfolded t] assms(5) assms(6,7) [unfolded t] assms(2)] ph Projecting ProjectionDraining
      show ?thesis by (simp add: phase_state_def)
    next
      case (ProjectionCommitting epoch gen)
      with ph Projecting l obtain r where f: "phase_pending e = []" "no_import a" "phase_waits e = [(r, WaitCommitProjectionEpoch)]"
        "(\<exists>q reason. phase_queue e = q @ [CommitProjectionEpoch epoch reason r] \<and>
            projection_flow (reason = PlanExhausted) epoch [] q a) \<or>
         phase_queue e = [] \<and> (\<exists>c reason. task = TCommitProjectionEpoch c reason \<and> kind = PCommitProjectionEpoch r) \<and> no_projection a"
        by (auto simp: phase_state_def quiet_def)
      from f(4) show ?thesis
      proof (elim disjE exE conjE)
        fix q reason
        assume q: "phase_queue e = q @ [CommitProjectionEpoch epoch reason r]" "projection_flow (reason = PlanExhausted) epoch [] q a"
        with l obtain ctx result where t: "task = TCommitProjectionAction ctx result"
          by (cases task) (auto simp: projection_flow_def)
        from finish_projection [OF q(2) l [unfolded t] assms(5) assms(6,7) [unfolded t] assms(2)] f(1-3) q(1) Projecting
          ProjectionCommitting
        show ?thesis by (auto simp: phase_state_def)
      next
        fix c reason
        assume t: "phase_queue e = []" "task = TCommitProjectionEpoch c reason" "kind = PCommitProjectionEpoch r" "no_projection a"
        with finish_commit_epoch [OF assms(5,7), of r] f(1-3) finished_idle [of kind a a'] Projecting ProjectionCommitting
        show ?thesis by (simp add: phase_state_def quiet_def)
      qed
    qed
  qed
qed

lemma task_done_ok:
  assumes "engine_inv e a" and "actor_ok a" and "act_running a \<noteq> []" and "semantic_turn X (TaskDone i) (a, d) = Inr (a', d')"
  shows "engine_inv e a'"
proof -
  obtain op task rest where run: "act_running a = (op, task) # rest" using assms(3) by (cases "act_running a") auto
  with assms(2) obtain kind where l: "rest = []" "act_pending a = [(op, kind)]" "pending_name kind = task_name task"
    by (auto simp: actor_ok_def lane_ok_Cons)
  obtain outcome d1 where o: "run_task X i task d = (outcome, d1)" by (cases "run_task X i task d")
  have fin: "finish_pending outcome kind (unlaned a) = Inr a'"
    using assms(4) run l o by (auto simp: semantic_turn_def finish_task_result_def bt_get_def unlaned_def res_simps split: if_splits)
  have lane: "lane a = [(task, kind)]" using run l by (simp add: lane_def)
  note out = run_task_fits [OF o] run_task_name [OF o]
  show ?thesis
  proof (cases "phase_task task")
    case True
    from finish_phase_ok [OF assms(1,2) lane True fin out] finished_channels [OF _ _ lane] assms(1) show ?thesis
      by (simp add: engine_inv_def phase_inv_def)
  next
    case False
    note f = finish_neutral [OF fin False out(2) l(3)]
    then obtain zs where zs: "act_replies a' = act_replies a @ zs" "map fst zs = pending_reply kind" by auto
    with f have fd: "finished kind a a'" by (auto simp: finished_def idle_def simp del: mset_map)
    have "phase_lane a' = phase_lane a" using finished_idle [OF fd] False lane by (simp add: phase_lane_def)
    from phase_state_more_replies [OF this _ _ _ zs(1)] f assms(1) have "phase_state (en_phase e) e a'"
      by (simp add: engine_inv_def phase_inv_def)
    from finished_channels [OF fd _ lane] this assms(1) show ?thesis by (simp add: engine_inv_def phase_inv_def)
  qed
qed

section \<open>Reachable states\<close>

lemma take_step_ok:
  assumes "system_inv sy"
  shows "\<exists>sy'. system_turn X TakeStep sy = Inr (Some sy') \<and> system_inv sy'"
proof (cases "sc_sent (en_semantic (sy_engine sy)) = [] \<or> act_running (sy_actor sy) \<noteq> []")
  case True
  with assms show ?thesis by (auto simp: system_turn_def Let_def split: list.splits)
next
  case False
  then obtain q rest where q: "sc_sent (en_semantic (sy_engine sy)) = q # rest" "act_running (sy_actor sy) = []"
    by (cases "sc_sent (en_semantic (sy_engine sy))") auto
  let ?e = "(sy_engine sy)\<lparr>en_semantic := (en_semantic (sy_engine sy))\<lparr>sc_sent := rest\<rparr>\<rparr>"
  have inv: "engine_inv (sy_engine sy) (sy_actor sy)" "actor_ok (sy_actor sy)" using assms by (simp_all add: system_inv_iff)
  have "taken q (sy_engine sy) ?e" using q(1) by (auto simp: taken_def)
  from take_ok [OF inv(1) this idle_of_ok [OF inv(2) q(2)] inv(2)] obtain a' where
    a': "start_request q (sy_actor sy) = Inr a'" "engine_inv ?e a'" by (auto simp: accepts_def)
  then have t: "semantic_turn X (TakeRequest q) (sy_actor sy, sy_db sy) = Inr (a', sy_db sy)"
    using q(2) by (simp add: semantic_turn_def)
  from semantic_turn_preserves [OF inv(2) t] a'(2) q t show ?thesis by (simp add: system_turn_def Let_def system_inv_iff)
qed

lemma done_step_ok:
  assumes "system_inv sy" and "system_turn X (DoneStep i) sy = Inr (Some sy')"
  shows "system_inv sy' \<and> sy_engine sy' = sy_engine sy"
proof (cases "act_running (sy_actor sy) = []")
  case True
  with assms show ?thesis by (simp add: system_turn_def Let_def)
next
  case False
  with assms(2) obtain a' d' where t: "semantic_turn X (TaskDone i) (sy_actor sy, sy_db sy) = Inr (a', d')"
    "sy' = sy\<lparr>sy_actor := a', sy_db := d'\<rparr>"
    by (auto simp: system_turn_def Let_def res_simps)
  have inv: "engine_inv (sy_engine sy) (sy_actor sy)" "actor_ok (sy_actor sy)" using assms(1) by (simp_all add: system_inv_iff)
  from task_done_ok [OF inv False t(1)] semantic_turn_preserves [OF inv(2) t(1)] t(2) show ?thesis
    by (simp add: system_inv_iff)
qed

lemma start_inv: "engine_inv (engine_new status) semantic_actor_new"
  by (simp add: engine_inv_def channels_ok_def reply_ids_def lane_def flags_ok_def count_waits_def phase_inv_def phase_state_def
      at_boundary_def quiet_def phase_queue_def phase_waits_def phase_pending_def phase_lane_def no_import_def no_projection_def
      engine_new_def fs_client_new_def semantic_client_new_def semantic_actor_new_def runtime_default_def)

lemma start_inv_started: "\<exists>e. engine_start ck (engine_new status) = Inr e \<and> engine_inv e semantic_actor_new"
proof -
  obtain e1 where e1: "request_scan Full (engine_new status) = Inr e1" "engine_inv e1 semantic_actor_new"
    using request_scan_ok [OF start_inv] by blast
  obtain e2 where e2: "request_outbox_read e1 = Inr e2" "engine_inv e2 semantic_actor_new"
    using request_outbox_ok(1) [OF e1(2)] by blast
  let ?e3 = "arm_at FullScan (ck_now ck + full_scan_interval) e2"
  have e3: "engine_inv ?e3 semantic_actor_new" by (rule engine_inv_frame [OF e2(2)]) (simp_all add: arm_at_def)
  with e1(1) e2(1) show ?thesis by (simp add: engine_start_def)
qed

lemma system_start_ok: "\<exists>sy. system_start ck status d = Inr sy \<and> system_inv sy"
proof -
  obtain e where e: "engine_start ck (engine_new status) = Inr e" "engine_inv e semantic_actor_new"
    using start_inv_started by blast
  with drive_ok [OF e(2)] show ?thesis by (auto simp: system_start_def system_inv_iff actor_new_ok)
qed

lemma system_turn_inv:
  assumes "system_inv sy" and "system_turn X step sy = Inr (Some sy')"
  shows "system_inv sy'"
proof (cases "engine_side step")
  case True
  have "\<not> fatal_step step sy" using fatal_step_ends [of step sy X] assms(2) by auto
  from engine_side_ok [OF assms(1) True this, of X] assms(2) show ?thesis by auto
next
  case False
  with take_step_ok [OF assms(1), of X] done_step_ok [OF assms(1)] assms(2) show ?thesis by (cases step) auto
qed

lemma reachable_inv: "system_reachable X status d0 sy \<Longrightarrow> system_inv sy"
proof (induction rule: system_reachable.induct)
  case (start ck sy)
  with system_start_ok [of ck status d0] show ?case by simp
next
  case (turn sy step sy')
  then show ?case using system_turn_inv by blast
qed

lemma reachable_driven: "system_reachable X status d0 sy \<Longrightarrow> driven (sy_engine sy)"
proof (induction rule: system_reachable.induct)
  case (start ck sy)
  then obtain e1 where "engine_start ck (engine_new status) = Inr e1" "drive e1 = Inr (sy_engine sy)"
    by (auto simp: system_start_def res_simps)
  moreover have "engine_inv e1 semantic_actor_new" if "engine_start ck (engine_new status) = Inr e1" for e1
    using start_inv_started [of ck status] that by auto
  ultimately show ?case using drive_driven by blast
next
  case (turn sy step sy')
  note inv = reachable_inv [OF turn.hyps(1)]
  show ?case
  proof (cases "engine_side step")
    case True
    have "\<not> fatal_step step sy" using fatal_step_ends [of step sy X] turn.hyps(2) by auto
    from engine_side_ok [OF inv True this, of X] turn show ?thesis by auto
  next
    case False
    show ?thesis
    proof (cases step)
      case TakeStep
      with turn have "en_phase (sy_engine sy') = en_phase (sy_engine sy) \<and> en_fs (sy_engine sy') = en_fs (sy_engine sy)"
        by (auto simp: system_turn_def Let_def res_simps split: list.splits if_splits)
      with turn.IH show ?thesis
        by (simp add: driven_def phase_pending_def split: engine_phase.splits import_phase.splits projection_phase.splits)
    next
      case (DoneStep i)
      with turn.hyps(2) done_step_ok [OF inv, of X i sy'] turn.IH show ?thesis by simp
    qed (use False in simp_all)
  qed
qed

lemma phase_outstanding:
  assumes "system_inv sy" and "driven (sy_engine sy)" and "en_phase (sy_engine sy) \<noteq> Idle"
  shows "(\<exists>w\<in>set (fc_pending (en_fs (sy_engine sy))). phase_fs w) \<or>
    (\<exists>q\<in>set (sc_sent (en_semantic (sy_engine sy))). phase_request q) \<or>
    (\<exists>(op, task)\<in>set (act_running (sy_actor sy)). phase_task task) \<or>
    (\<exists>(r, v)\<in>set (act_replies (sy_actor sy)). \<exists>w. map_of (sc_pending (en_semantic (sy_engine sy))) r = Some w \<and>
      phase_wait w \<and> semantic_response_of w v \<noteq> None)"
    (is "?fs \<or> ?queue \<or> ?lane \<or> ?reply")
proof -
  let ?e = "sy_engine sy" and ?a = "sy_actor sy"
  have inv: "engine_inv ?e ?a" and ph: "phase_state (en_phase ?e) ?e ?a"
    using assms(1) by (simp_all add: system_inv_iff engine_inv_def phase_inv_def)
  have fs: ?fs if "phase_pending ?e \<noteq> []"
  proof -
    from that obtain w where "w \<in> set (phase_pending ?e)" by (cases "phase_pending ?e") auto
    then show ?thesis by (auto simp: phase_pending_def)
  qed
  have queue: ?queue if "phase_queue ?e \<noteq> []"
  proof -
    from that obtain q where "q \<in> set (phase_queue ?e)" by (cases "phase_queue ?e") auto
    then show ?thesis by (auto simp: phase_queue_def)
  qed
  have lane: ?lane if "phase_lane ?a \<noteq> []"
  proof -
    from that obtain t k where "(t, k) \<in> set (phase_lane ?a)" by (cases "phase_lane ?a") auto
    then show ?thesis by (auto simp: phase_lane_def lane_def dest!: set_zip_leftD)
  qed
  have reply: ?reply if "phase_waits ?e = [(r, w)]" "answered r P ?a" for r w P
  proof -
    from that(2) obtain v where v: "(r, v) \<in> set (act_replies ?a)" by (auto simp: answered_def list_ex_iff)
    then obtain xs ys where "act_replies ?a = xs @ (r, v) # ys" by (meson split_list)
    from phase_response [OF inv this, of w] that(1) have "semantic_response_of w v \<noteq> None" by simp
    moreover have "(r, w) \<in> set (phase_waits ?e)" using that(1) by simp
    then have "phase_wait w" "(r, w) \<in> set (sc_pending (en_semantic ?e))" by (auto simp: phase_waits_def)
    moreover have "distinct (map fst (sc_pending (en_semantic ?e)))" using inv by (simp add: engine_inv_def channels_ok_def)
    ultimately show ?thesis using v map_of_is_SomeI by fastforce
  qed
  have "phase_pending ?e \<noteq> [] \<or> phase_queue ?e \<noteq> [] \<or> phase_lane ?a \<noteq> [] \<or>
      (\<exists>r w P. phase_waits ?e = [(r, w)] \<and> answered r P ?a)"
  proof (cases "en_phase ?e")
    case Idle
    with assms(3) show ?thesis by simp
  next
    case (Importing p)
    with ph assms(2) show ?thesis by (cases p) (auto simp: phase_state_def driven_def quiet_def)
  next
    case (Projecting p)
    with ph assms(2) show ?thesis by (cases p) (auto simp: phase_state_def driven_def quiet_def)
  qed (use ph in \<open>auto simp: phase_state_def quiet_def\<close>)
  with fs queue lane reply show ?thesis by blast
qed

section \<open>Properties\<close>

text \<open>The system right after start: the first full scan is with the file system; then its result arrives.\<close>

definition demo_status :: engine_status_state where
  "demo_status = \<lparr>es_sync_root = ''/w'', es_workspace_id = ''ws'', es_basin = ''basin'', es_daemon_writer_id = ''writer'',
     es_stable_cursor = 0, es_started_at = 0\<rparr>"

definition demo_clock :: engine_clock where
  "demo_clock = \<lparr>ck_pid = 1, ck_now = 0, ck_wall = 0\<rparr>"

definition demo_scan :: scan_result where
  "demo_scan = \<lparr>scan_finished_at = 0, scan_scope_of = Full, scan_tree = []\<rparr>"

definition demo_system :: system where
  "demo_system = projr (system_start demo_clock demo_status demo_work_db)"

definition demo_scanned :: system where
  "demo_scanned = the (projr (system_turn demo_ns_ext (EngineStep demo_clock (EvFsReply 0 (FsScanned demo_scan))) demo_system))"

lemma demo_system_started: "system_start demo_clock demo_status demo_work_db = Inr demo_system"
  using system_start_ok [of demo_clock demo_status demo_work_db] by (auto simp: demo_system_def)

lemma demo_system_engine:
  "fc_pending (en_fs (sy_engine demo_system)) = [WaitScan] \<and> en_phase (sy_engine demo_system) = Scanning Full"
  unfolding demo_system_def demo_status_def demo_clock_def
  by (simp add: system_start_def engine_start_def engine_new_def request_scan_def Let_def enter_boundary_def with_fs_def fs_scan_def
      fs_send_phase_def fs_send_def fs_client_new_def semantic_client_new_def request_outbox_read_def maybe_start_outbox_read_def
      link_is_online_def ec_new_def lr_new_def arm_at_def drive_def drive_cleanup_def drive_phase_def dispatch_phase_def commit_phase_def)

lemma demo_system_reachable: "system_reachable demo_ns_ext demo_status demo_work_db demo_system"
  by (rule system_reachable.start [OF demo_system_started])

lemma demo_scan_turn:
  "system_turn demo_ns_ext (EngineStep demo_clock (EvFsReply 0 (FsScanned demo_scan))) demo_system = Inr (Some demo_scanned) \<and>
   en_phase (sy_engine demo_scanned) = PlanningImport \<and> sc_sent (en_semantic (sy_engine demo_scanned)) \<noteq> []"
  unfolding demo_scanned_def demo_system_def demo_status_def demo_clock_def
  by (simp add: system_start_def engine_start_def engine_new_def request_scan_def Let_def enter_boundary_def with_fs_def fs_scan_def
      fs_send_phase_def fs_send_def fs_client_new_def semantic_client_new_def request_outbox_read_def maybe_start_outbox_read_def
      link_is_online_def ec_new_def lr_new_def arm_at_def drive_def drive_cleanup_def drive_phase_def dispatch_phase_def commit_phase_def
      system_turn_def deliver_def engine_turn_def engine_event_def fs_response_of_def fs_client_next_def checked_pred_def
      handle_fs_response_def with_semantic_def sc_apply_scan_def sc_enqueue_def drop_nth_def)

lemma demo_scanned_reachable: "system_reachable demo_ns_ext demo_status demo_work_db demo_scanned"
  by (rule system_reachable.turn [OF demo_system_reachable]) (use demo_scan_turn in blast)

text \<open>(C8) The engine never sends a request the semantic actor panics on: in every reachable state the actor
  accepts the next request of its mailbox.\<close>

theorem protocol_never_panics:
  assumes "system_reachable X status d0 sy"
  shows "\<exists>sy'. system_turn X TakeStep sy = Inr (Some sy') \<and> system_reachable X status d0 sy'"
  using take_step_ok [OF reachable_inv [OF assms], of X] system_reachable.turn [OF assms, of TakeStep] by blast

theorem protocol_never_panics_witness:
  "\<exists>sy'. system_turn demo_ns_ext TakeStep demo_scanned = Inr (Some sy')"
  using protocol_never_panics [OF demo_scanned_reachable] by blast



text \<open>(C10) No phase waits for nothing: unless the engine is idle, one of its phase's own messages is under way
  as a file-system response, a request in the mailbox, a running task or a reply the engine can use.\<close>

theorem phase_never_stuck:
  assumes "system_reachable X status d0 sy" and "en_phase (sy_engine sy) \<noteq> Idle"
  shows "(\<exists>w\<in>set (fc_pending (en_fs (sy_engine sy))). phase_fs w) \<or>
    (\<exists>q\<in>set (sc_sent (en_semantic (sy_engine sy))). phase_request q) \<or>
    (\<exists>(op, task)\<in>set (act_running (sy_actor sy)). phase_task task) \<or>
    (\<exists>(r, v)\<in>set (act_replies (sy_actor sy)). \<exists>w. map_of (sc_pending (en_semantic (sy_engine sy))) r = Some w \<and>
      phase_wait w \<and> semantic_response_of w v \<noteq> None)"
  using phase_outstanding [OF reachable_inv [OF assms(1)] reachable_driven [OF assms(1)] assms(2)] .

theorem phase_never_stuck_witness:
  "\<exists>w\<in>set (fc_pending (en_fs (sy_engine demo_system))). phase_fs w"
proof -
  have "sc_sent (en_semantic (sy_engine demo_system)) = [] \<and> act_running (sy_actor demo_system) = [] \<and>
      act_replies (sy_actor demo_system) = []"
    unfolding demo_system_def demo_status_def demo_clock_def
    by (simp add: system_start_def engine_start_def engine_new_def request_scan_def Let_def enter_boundary_def with_fs_def fs_scan_def
        fs_send_phase_def fs_send_def fs_client_new_def semantic_client_new_def request_outbox_read_def maybe_start_outbox_read_def
        link_is_online_def ec_new_def lr_new_def arm_at_def drive_def drive_cleanup_def drive_phase_def dispatch_phase_def
        commit_phase_def semantic_actor_new_def)
  with phase_never_stuck [OF demo_system_reachable] demo_system_engine show ?thesis by simp
qed

end
