(* ===== verification/Disk.thy ===== *)
theory Disk
  imports Log_Codec
begin

text \<open>
  The operating system below \<open>crates/core/src/fs/fio/local.rs\<close>, as \<open>std::fs\<close> documents the calls
  the file makes: a disk under the root of the instance, the system calls, and a world in which
  every call is numbered. Before each call other processes may change the disk in any way
  (\<open>w_interfere\<close>), and any call may fail with an error other than "not found" (\<open>w_faults\<close>; what a
  failed write left behind is covered by the interference of the next call). The key of a new
  file, the clock, random numbers and the order of directory entries are the world's. \<open>w_trace\<close>
  records every change a call made, with the number of the call and the disk it found.

  A disk maps the paths below the root (lists of names, the root itself is the empty list) to what
  \<open>lstat\<close> sees there, so a path below a symbolic link stands for what the system resolves it to.
\<close>

datatype node =
    RegularFile file_key time_ns bytes
  | Dir
  | Symlink "node option"
  | Special

type_synonym disk = "(string list, node) btree_map"

datatype 'a sys = Done 'a | Absent | IoFault

datatype sys_event =
    CreatedDirs "string list"
  | Wrote "string list" bytes
  | Renamed "string list" "string list"
  | Removed "string list"

record world =
  w_disk :: disk
  w_calls :: nat
  w_interfere :: "nat \<Rightarrow> disk \<Rightarrow> disk"
  w_faults :: "nat \<Rightarrow> bool"
  w_fresh_key :: "nat \<Rightarrow> file_key"
  w_clock :: "nat \<Rightarrow> time_ns"
  w_random :: "nat \<Rightarrow> nat"
  w_dir_order :: "nat \<Rightarrow> string list \<Rightarrow> string list"
  w_dir_gone :: "nat \<Rightarrow> bool"
  w_trace :: "(nat \<times> sys_event \<times> disk) list"

section \<open>What a call does to the disk\<close>

text \<open>A symbolic link is followed to what it stands for.\<close>

fun resolve_node :: "node option \<Rightarrow> node option" where
  "resolve_node (Some (Symlink t)) = resolve_node t"
| "resolve_node n = n"

definition is_dir_at :: "disk \<Rightarrow> string list \<Rightarrow> bool" where
  "is_dir_at d p \<longleftrightarrow> resolve_node (bt_get d p) = Some Dir"

text \<open>The error for a path with nothing at it: "not a directory" below a file.\<close>

definition not_found :: "disk \<Rightarrow> string list \<Rightarrow> 'a sys" where
  "not_found d p =
     (if list_ex (\<lambda>n. case resolve_node (bt_get d (take n p)) of
          Some Dir \<Rightarrow> False | Some _ \<Rightarrow> True | None \<Rightarrow> False) [0..<length p]
      then IoFault else Absent)"

datatype metadata = MetaFile file_stat | MetaDir | MetaOther

fun node_metadata :: "node \<Rightarrow> metadata" where
  "node_metadata (RegularFile k t b) =
     MetaFile \<lparr>stat_file_key = k, stat_size = length b, stat_mtime = t\<rparr>"
| "node_metadata Dir = MetaDir"
| "node_metadata _ = MetaOther"

definition disk_metadata :: "string list \<Rightarrow> disk \<Rightarrow> metadata sys" where
  "disk_metadata p d =
     (case bt_get d p of None \<Rightarrow> not_found d p | Some n \<Rightarrow> Done (node_metadata n))"

definition disk_read :: "string list \<Rightarrow> disk \<Rightarrow> bytes sys" where
  "disk_read p d =
     (case resolve_node (bt_get d p) of
        None \<Rightarrow> not_found d p
      | Some (RegularFile k t b) \<Rightarrow> Done b
      | Some _ \<Rightarrow> IoFault)"

definition disk_exists :: "string list \<Rightarrow> disk \<Rightarrow> bool sys" where
  "disk_exists p d = Done (resolve_node (bt_get d p) \<noteq> None)"

definition dir_names :: "string list \<Rightarrow> disk \<Rightarrow> string list" where
  "dir_names p d = map last (filter (\<lambda>q. q \<noteq> [] \<and> butlast q = p) (bt_keys d))"

definition disk_read_dir :: "string list \<Rightarrow> disk \<Rightarrow> string list sys" where
  "disk_read_dir p d =
     (case resolve_node (bt_get d p) of
        None \<Rightarrow> not_found d p
      | Some Dir \<Rightarrow> Done (dir_names p d)
      | Some _ \<Rightarrow> IoFault)"

fun overwrite :: "time_ns \<Rightarrow> bytes \<Rightarrow> node \<Rightarrow> node option" where
  "overwrite t b (RegularFile k t' b') = Some (RegularFile k t b)"
| "overwrite t b (Symlink (Some n)) = map_option (\<lambda>m. Symlink (Some m)) (overwrite t b n)"
| "overwrite t b _ = None"

definition disk_write :: "file_key \<Rightarrow> time_ns \<Rightarrow> string list \<Rightarrow> bytes \<Rightarrow> disk \<Rightarrow> unit sys \<times> disk" where
  "disk_write k t p b d =
     (case bt_get d p of
        None \<Rightarrow>
          if is_dir_at d (butlast p) then (Done (), bt_insert p (RegularFile k t b) d)
          else (not_found d p, d)
      | Some n \<Rightarrow>
          (case overwrite t b n of
             None \<Rightarrow> (IoFault, d)
           | Some m \<Rightarrow> (Done (), bt_insert p m d)))"

definition prefixes_of :: "string list \<Rightarrow> string list list" where
  "prefixes_of p = map (\<lambda>n. take n p) [0..<Suc (length p)]"

definition make_dir :: "string list \<Rightarrow> disk \<Rightarrow> disk" where
  "make_dir p d = (if bt_get d p = None then bt_insert p Dir d else d)"

definition disk_create_dir_all :: "string list \<Rightarrow> disk \<Rightarrow> unit sys \<times> disk" where
  "disk_create_dir_all p d =
     (if list_all (\<lambda>q. bt_get d q = None \<or> is_dir_at d q) (prefixes_of p)
      then (Done (), fold make_dir (prefixes_of p) d)
      else (IoFault, d))"

text \<open>\<open>rename\<close> replaces a file by a file; a directory can only be put where nothing or an empty
  directory is, and takes everything below it along.\<close>

definition move_subtree :: "string list \<Rightarrow> string list \<Rightarrow> disk \<Rightarrow> disk" where
  "move_subtree s t d =
     bt_of_list (map (\<lambda>(q, n). (if starts_with q s then t @ drop (length s) q else q, n))
       (filter (\<lambda>(q, n). q \<noteq> t) d))"

definition disk_rename :: "string list \<Rightarrow> string list \<Rightarrow> disk \<Rightarrow> unit sys \<times> disk" where
  "disk_rename s t d =
     (case bt_get d s of
        None \<Rightarrow> (not_found d s, d)
      | Some Dir \<Rightarrow>
          if s = t then (Done (), d)
          else if starts_with t s then (IoFault, d)
          else (case bt_get d t of
              None \<Rightarrow>
                if is_dir_at d (butlast t) then (Done (), move_subtree s t d) else (not_found d t, d)
            | Some Dir \<Rightarrow> if dir_names t d = [] then (Done (), move_subtree s t d) else (IoFault, d)
            | Some _ \<Rightarrow> (IoFault, d))
      | Some n \<Rightarrow>
          (case bt_get d t of
             None \<Rightarrow>
               if is_dir_at d (butlast t) then (Done (), bt_insert t n (bt_remove s d))
               else (not_found d t, d)
           | Some Dir \<Rightarrow> (IoFault, d)
           | Some _ \<Rightarrow> (Done (), bt_insert t n (bt_remove s d))))"

definition disk_remove_file :: "string list \<Rightarrow> disk \<Rightarrow> unit sys \<times> disk" where
  "disk_remove_file p d =
     (case bt_get d p of
        None \<Rightarrow> (not_found d p, d)
      | Some Dir \<Rightarrow> (IoFault, d)
      | Some _ \<Rightarrow> (Done (), bt_remove p d))"

section \<open>Programs in the world\<close>

type_synonym 'a io = "world \<Rightarrow> 'a res \<times> world"

definition return_io :: "'a \<Rightarrow> 'a io" where
  "return_io x w = (Inr x, w)"

definition fail_io :: "error \<Rightarrow> 'a io" where
  "fail_io e w = (Inl e, w)"

definition lift_io :: "'a res \<Rightarrow> 'a io" where
  "lift_io r w = (r, w)"

definition bind_io :: "'a io \<Rightarrow> ('a \<Rightarrow> 'b io) \<Rightarrow> 'b io" where
  "bind_io m f w = (case m w of (Inl e, w') \<Rightarrow> (Inl e, w') | (Inr x, w') \<Rightarrow> f x w')"

text \<open>A call first lets the others act. A reading call leaves the disk; a changing call is
  recorded when it succeeds.\<close>

definition interfered :: "world \<Rightarrow> disk" where
  "interfered w = w_interfere w (w_calls w) (w_disk w)"

definition read_call :: "(nat \<Rightarrow> disk \<Rightarrow> 'a sys) \<Rightarrow> 'a sys io" where
  "read_call f w =
     (let n = w_calls w; d = interfered w
      in (Inr (if w_faults w n then IoFault else f n d), w\<lparr>w_disk := d, w_calls := Suc n\<rparr>))"

definition write_call :: "sys_event \<Rightarrow> (nat \<Rightarrow> disk \<Rightarrow> unit sys \<times> disk) \<Rightarrow> unit sys io" where
  "write_call e f w =
     (let n = w_calls w; d = interfered w
      in if w_faults w n then (Inr IoFault, w\<lparr>w_disk := d, w_calls := Suc n\<rparr>)
         else (case f n d of (r, d') \<Rightarrow>
           (Inr r, w\<lparr>w_disk := d', w_calls := Suc n,
              w_trace := (if r = Done () then w_trace w @ [(n, e, d)] else w_trace w)\<rparr>)))"

definition symlink_metadata :: "string list \<Rightarrow> metadata sys io" where
  "symlink_metadata p = read_call (\<lambda>_. disk_metadata p)"

definition read_file :: "string list \<Rightarrow> bytes sys io" where
  "read_file p = read_call (\<lambda>_. disk_read p)"

definition path_exists :: "string list \<Rightarrow> bool sys io" where
  "path_exists p = read_call (\<lambda>_. disk_exists p)"

definition read_dir :: "string list \<Rightarrow> string list sys io" where
  "read_dir p w =
     read_call (\<lambda>n d. case disk_read_dir p d of Done ns \<Rightarrow> Done (w_dir_order w n ns) | r \<Rightarrow> r) w"

definition next_entry :: "string list \<Rightarrow> (string option \<times> string list) sys io" where
  "next_entry names w =
     read_call (\<lambda>n _. if w_dir_gone w n then Absent
       else Done (case names of [] \<Rightarrow> (None, []) | x # xs \<Rightarrow> (Some x, xs))) w"

definition create_dir_all :: "string list \<Rightarrow> unit sys io" where
  "create_dir_all p = write_call (CreatedDirs p) (\<lambda>_. disk_create_dir_all p)"

definition write_file :: "string list \<Rightarrow> bytes \<Rightarrow> unit sys io" where
  "write_file p b w =
     write_call (Wrote p b) (\<lambda>n. disk_write (w_fresh_key w n) (w_clock w n) p b) w"

definition rename_file :: "string list \<Rightarrow> string list \<Rightarrow> unit sys io" where
  "rename_file s t = write_call (Renamed s t) (\<lambda>_. disk_rename s t)"

definition remove_file :: "string list \<Rightarrow> unit sys io" where
  "remove_file p = write_call (Removed p) (\<lambda>_. disk_remove_file p)"

definition now_utc :: "time_ns io" where
  "now_utc w = (Inr (w_clock w (w_calls w)), w)"

definition random_u64 :: "nat io" where
  "random_u64 w = (Inr (w_random w (w_calls w)), w)"

text \<open>The \<open>?\<close> operator on the result of a call.\<close>

definition or_fail :: "'a sys io \<Rightarrow> 'a io" where
  "or_fail m = bind_io m (\<lambda>r. case r of Done x \<Rightarrow> return_io x | _ \<Rightarrow> fail_io Fatal)"

end
