(* ===== verification/Local_Fs.thy ===== *)
theory Local_Fs
  imports Disk
begin

text \<open>
  \<open>LocalFileIO\<close> of \<open>crates/core/src/fs/fio/local.rs\<close> (on Unix) and \<open>IgnoreRules::load\<close> of
  \<open>fs/ignore.rs\<close>, as programs over the system calls of \<open>Disk\<close>: the stable read, the guarded read,
  write and delete, and the scan. The gitignore parser of the \<open>ignore\<close> crate is the parameter
  \<open>G\<close>: from the bytes of an ignore file it gives whether there were errors, and the matcher
  (none when the patterns cannot be compiled). The hash is \<open>xxh3_64 X\<close>.
\<close>

type_synonym gitignore = "bytes \<Rightarrow> bool \<times> (string \<Rightarrow> bool \<Rightarrow> bool) option"

section \<open>Fingerprints\<close>

text \<open>\<open>u64::to_be_bytes\<close>.\<close>

fun be_bytes :: "nat \<Rightarrow> nat \<Rightarrow> bytes" where
  "be_bytes 0 n = []"
| "be_bytes (Suc k) n = be_bytes k (n div 256) @ [char_of (n mod 256)]"

definition content_fingerprint :: "('d, 'sv) ext \<Rightarrow> bytes \<Rightarrow> bytes" where
  "content_fingerprint X b = be_bytes 8 (xxh3_64 X b)"

definition stat_and_content_fingerprint :: "('d, 'sv) ext \<Rightarrow> file_stat \<Rightarrow> bytes \<Rightarrow> file_fingerprint" where
  "stat_and_content_fingerprint X s b = StatAndContent s (content_fingerprint X b)"

definition entry_file_stat :: "tree_entry \<Rightarrow> file_stat option" where
  "entry_file_stat e = (case te_kind e of File fp \<Rightarrow> Some (fp_stat fp) | Directory \<Rightarrow> None)"

definition entry_for_file_fingerprint :: "relative_path \<Rightarrow> file_fingerprint \<Rightarrow> tree_entry" where
  "entry_for_file_fingerprint p fp = \<lparr>te_path = p, te_kind = File fp\<rparr>"

definition fingerprint_matches_observed :: "file_fingerprint \<Rightarrow> file_fingerprint \<Rightarrow> bool" where
  "fingerprint_matches_observed observed expected =
     (case expected of
        StatOnly s \<Rightarrow> fp_stat observed = s
      | StatAndContent s c \<Rightarrow>
          (case observed of StatAndContent s' c' \<Rightarrow> s' = s \<and> c' = c | StatOnly _ \<Rightarrow> False))"

definition entry_matches_fingerprint :: "tree_entry \<Rightarrow> file_fingerprint \<Rightarrow> bool" where
  "entry_matches_fingerprint e expected =
     (case te_kind e of
        File fp \<Rightarrow> fingerprint_matches_observed fp expected
      | Directory \<Rightarrow> False)"

definition entry_stat_matches_fingerprint :: "tree_entry \<Rightarrow> file_fingerprint \<Rightarrow> bool" where
  "entry_stat_matches_fingerprint e expected =
     (case entry_file_stat e of None \<Rightarrow> False | Some s \<Rightarrow> s = fp_stat expected)"

definition observed_matches_expected :: "tree_entry option \<Rightarrow> expected_before \<Rightarrow> bool" where
  "observed_matches_expected observed expected =
     (case expected of
        Anything \<Rightarrow> True
      | Missing \<Rightarrow> observed = None
      | PresentWithFingerprint fp \<Rightarrow>
          (case observed of None \<Rightarrow> False | Some e \<Rightarrow> entry_matches_fingerprint e fp))"

section \<open>Observing a path\<close>

definition absolute_parent :: "relative_path \<Rightarrow> string list" where
  "absolute_parent p = (case rp_parent p of Some q \<Rightarrow> as_components q | None \<Rightarrow> [])"

definition stat_path :: "relative_path \<Rightarrow> tree_entry option io" where
  "stat_path p =
     bind_io (symlink_metadata (as_components p)) (\<lambda>r.
       case r of
         Absent \<Rightarrow> return_io None
       | IoFault \<Rightarrow> fail_io Fatal
       | Done MetaDir \<Rightarrow> return_io (Some \<lparr>te_path = p, te_kind = Directory\<rparr>)
       | Done MetaOther \<Rightarrow> return_io None
       | Done (MetaFile s) \<Rightarrow> return_io (Some \<lparr>te_path = p, te_kind = File (StatOnly s)\<rparr>))"

datatype stable_file_read =
    StableRead bytes relative_path file_fingerprint
  | StableChanged "tree_entry option"
  | StableNotFile "tree_entry option"

definition stable_read_file :: "('d, 'sv) ext \<Rightarrow> relative_path \<Rightarrow> stable_file_read io" where
  "stable_read_file X p =
     bind_io (stat_path p) (\<lambda>seen.
       case seen of
         None \<Rightarrow> return_io (StableNotFile seen)
       | Some before_entry \<Rightarrow>
         (case entry_file_stat before_entry of
            None \<Rightarrow> return_io (StableNotFile seen)
          | Some before_stat \<Rightarrow>
              bind_io (read_file (as_components p)) (\<lambda>r.
                case r of
                  Absent \<Rightarrow> bind_io (stat_path p) (\<lambda>after. return_io (StableChanged after))
                | IoFault \<Rightarrow> fail_io Fatal
                | Done b \<Rightarrow>
                    bind_io (stat_path p) (\<lambda>after.
                      if after \<noteq> seen then return_io (StableChanged after)
                      else return_io (StableRead b p (stat_and_content_fingerprint X before_stat b))))))"

definition observe_for_expected ::
  "('d, 'sv) ext \<Rightarrow> relative_path \<Rightarrow> expected_before \<Rightarrow> tree_entry option io" where
  "observe_for_expected X p expected =
     (case expected of
        PresentWithFingerprint (StatAndContent _ _) \<Rightarrow>
          bind_io (stable_read_file X p) (\<lambda>r.
            case r of
              StableRead _ sp fp \<Rightarrow> return_io (Some (entry_for_file_fingerprint sp fp))
            | StableChanged after \<Rightarrow> return_io after
            | StableNotFile observed \<Rightarrow> return_io observed)
      | _ \<Rightarrow> stat_path p)"

section \<open>The guarded operations\<close>

definition guarded_read ::
  "('d, 'sv) ext \<Rightarrow> relative_path \<Rightarrow> file_fingerprint \<Rightarrow> guarded_read_result io" where
  "guarded_read X p expected =
     bind_io (stat_path p) (\<lambda>seen.
       case seen of
         None \<Rightarrow> return_io (ConflictBeforeRead seen)
       | Some before_entry \<Rightarrow>
         (case entry_file_stat before_entry of
            None \<Rightarrow> return_io (ConflictBeforeRead seen)
          | Some before_stat \<Rightarrow>
              if \<not> entry_stat_matches_fingerprint before_entry expected
              then return_io (ConflictBeforeRead seen)
              else
                bind_io (read_file (as_components p)) (\<lambda>r.
                  case r of
                    Absent \<Rightarrow>
                      bind_io (stat_path p) (\<lambda>after. return_io (ChangedBetweenStats seen after))
                  | IoFault \<Rightarrow> fail_io Fatal
                  | Done b \<Rightarrow>
                      bind_io (stat_path p) (\<lambda>after.
                        if after \<noteq> seen then return_io (ChangedBetweenStats seen after)
                        else
                          let fp = stat_and_content_fingerprint X before_stat b
                          in if \<not> fingerprint_matches_observed fp expected
                             then return_io (ConflictBeforeRead (Some (entry_for_file_fingerprint p fp)))
                             else return_io (ReadOk b fp)))))"

text \<open>The second half of \<open>guarded_write\<close>, once the swap path is chosen, and its last \<open>match\<close>.\<close>

definition swapped_result :: "bytes \<Rightarrow> stable_file_read \<Rightarrow> guarded_write_result" where
  "swapped_result b r =
     (case r of
        StableRead cb sp fp \<Rightarrow>
          if cb = b then Written fp else ConflictAfterSwap (Some (entry_for_file_fingerprint sp fp))
      | StableChanged after \<Rightarrow> ConflictAfterSwap after
      | StableNotFile observed \<Rightarrow> ConflictAfterSwap observed)"

definition write_and_swap ::
  "('d, 'sv) ext \<Rightarrow> relative_path \<Rightarrow> bytes \<Rightarrow> expected_before \<Rightarrow> relative_path \<Rightarrow> guarded_write_result io"
where
  "write_and_swap X p b expected swap_path =
     bind_io (or_fail (create_dir_all (absolute_parent p))) (\<lambda>_.
     bind_io (or_fail (write_file (as_components swap_path) b)) (\<lambda>_.
     bind_io (observe_for_expected X p expected) (\<lambda>observed.
       if \<not> observed_matches_expected observed expected
       then return_io (ConflictBeforeSwap swap_path observed)
       else
         bind_io (rename_file (as_components swap_path) (as_components p)) (\<lambda>r.
           if r \<noteq> Done ()
           then bind_io (remove_file (as_components swap_path)) (\<lambda>_. fail_io Fatal)
           else bind_io (stable_read_file X p) (\<lambda>x. return_io (swapped_result b x))))))"

definition guarded_write ::
  "('d, 'sv) ext \<Rightarrow> relative_path \<Rightarrow> bytes \<Rightarrow> expected_before \<Rightarrow> guarded_write_result io" where
  "guarded_write X p b expected =
     bind_io (stable_read_file X p) (\<lambda>current.
       case (case current of StableRead cb _ fp \<Rightarrow> if cb = b then Some fp else None | _ \<Rightarrow> None) of
         Some fp \<Rightarrow> return_io (AlreadyApplied fp)
       | None \<Rightarrow>
           bind_io random_u64 (\<lambda>rnd.
           bind_io (lift_io (temp_path_for rnd p)) (write_and_swap X p b expected)))"

definition guarded_delete ::
  "('d, 'sv) ext \<Rightarrow> relative_path \<Rightarrow> expected_before \<Rightarrow> guarded_delete_result io" where
  "guarded_delete X p expected =
     bind_io (observe_for_expected X p expected) (\<lambda>observed.
       if \<not> observed_matches_expected observed expected then return_io (DeleteConflict observed)
       else if observed = None then return_io AlreadyDeleted
       else
         bind_io (remove_file (as_components p)) (\<lambda>r.
           case r of
             Absent \<Rightarrow> return_io (DeleteConflict None)
           | IoFault \<Rightarrow> fail_io Fatal
           | Done _ \<Rightarrow>
               bind_io (stat_path p) (\<lambda>after.
                 if after = None then return_io Deleted else return_io (DeleteConflict after))))"

datatype delete_if_exists_result = DieDeleted | DieAlreadyMissing

definition local_delete_if_exists :: "relative_path \<Rightarrow> delete_if_exists_result io" where
  "local_delete_if_exists p =
     bind_io (remove_file (as_components p)) (\<lambda>r.
       case r of
         Done _ \<Rightarrow> return_io DieDeleted
       | Absent \<Rightarrow> return_io DieAlreadyMissing
       | IoFault \<Rightarrow> fail_io Fatal)"

section \<open>The scan\<close>

definition ignore_file_name :: string where
  "ignore_file_name = ''.opboxignore''"

definition ignore_rules_load :: "gitignore \<Rightarrow> (string \<Rightarrow> bool \<Rightarrow> bool) io" where
  "ignore_rules_load G =
     bind_io (read_file [ignore_file_name]) (\<lambda>r.
       let (failed, built) = (case r of Done b \<Rightarrow> G b | _ \<Rightarrow> (True, snd (G [])))
       in if failed
          then bind_io (path_exists [ignore_file_name]) (\<lambda>e.
                 if e = Done True then fail_io Fatal else lift_io (ok_or built Fatal))
          else lift_io (ok_or built Fatal))"

definition child_path :: "relative_path option \<Rightarrow> string \<Rightarrow> relative_path res" where
  "child_path parent name =
     (if \<not> utf8_valid name then Inl Fatal
      else relative_path_new ((case parent of None \<Rightarrow> [] | Some p \<Rightarrow> as_components p) @ [name]))"

definition is_directory :: "tree_entry \<Rightarrow> bool" where
  "is_directory e \<longleftrightarrow> te_kind e = Directory"

text \<open>The inner loop: the remaining names of a directory; the result is the stack of pending
  directories (its top first) and the entries so far.\<close>

type_synonym walk = "relative_path option list \<times> tree_entry list"

function scan_dir ::
  "(string \<Rightarrow> bool \<Rightarrow> bool) \<Rightarrow> relative_path option \<Rightarrow> string list \<Rightarrow> walk \<Rightarrow> walk io" where
  "scan_dir m dir names s w =
     (case next_entry names w of
        (Inl e, w1) \<Rightarrow> (Inl e, w1)
      | (Inr IoFault, w1) \<Rightarrow> (Inl Fatal, w1)
      | (Inr Absent, w1) \<Rightarrow> (Inr s, w1)
      | (Inr (Done (None, _)), w1) \<Rightarrow> (Inr s, w1)
      | (Inr (Done (Some name, rest)), w1) \<Rightarrow>
          bind_io (lift_io (child_path dir name)) (\<lambda>path.
            if is_hard_ignored path then scan_dir m dir rest s
            else
              bind_io (stat_path path) (\<lambda>entry.
                case entry of
                  None \<Rightarrow> scan_dir m dir rest s
                | Some e \<Rightarrow>
                    if is_ignored m path (is_directory e) then scan_dir m dir rest s
                    else scan_dir m dir rest
                      (if is_directory e then Some path # fst s else fst s, snd s @ [e]))) w1)"
  by pat_completeness auto
termination
  by (relation "measure (\<lambda>(m, dir, names, s, w). length names)")
    (auto simp: next_entry_def read_call_def Let_def split: if_splits list.splits)

declare scan_dir.simps [simp del]

definition dir_components :: "relative_path option \<Rightarrow> string list" where
  "dir_components dir = (case dir of None \<Rightarrow> [] | Some p \<Rightarrow> as_components p)"

text \<open>The outer loop may never end while other processes keep adding directories, so its value is
  \<open>None\<close> when it does not return.\<close>

partial_function (option) scan_walk ::
  "(string \<Rightarrow> bool \<Rightarrow> bool) \<Rightarrow> relative_path option list \<Rightarrow> tree_entry list \<Rightarrow> world \<Rightarrow>
     (tree_entry list res \<times> world) option" where
  "scan_walk m pending entries w =
     (case pending of
        [] \<Rightarrow> Some (Inr entries, w)
      | dir # dirs \<Rightarrow>
          (case read_dir (dir_components dir) w of
             (Inl e, w1) \<Rightarrow> Some (Inl e, w1)
           | (Inr r, w1) \<Rightarrow>
               (case r of
                  Absent \<Rightarrow> scan_walk m dirs entries w1
                | IoFault \<Rightarrow> Some (Inl Fatal, w1)
                | Done names \<Rightarrow>
                    (case scan_dir m dir names (dirs, entries) w1 of
                       (Inl e, w2) \<Rightarrow> Some (Inl e, w2)
                     | (Inr s, w2) \<Rightarrow> scan_walk m (fst s) (snd s) w2))))"

text \<open>Where the walk starts: the pending directories and first entries, or \<open>None\<close> for the early
  return of an ignored subtree.\<close>

definition scan_start :: "(string \<Rightarrow> bool \<Rightarrow> bool) \<Rightarrow> scan_scope \<Rightarrow> walk option io" where
  "scan_start m scope =
     (case scope of
        Full \<Rightarrow> return_io (Some ([None], []))
      | Subtree p \<Rightarrow>
          if is_hard_ignored p then return_io (Some ([], []))
          else
            bind_io (stat_path p) (\<lambda>entry.
              case entry of
                None \<Rightarrow> return_io (Some ([], []))
              | Some e \<Rightarrow>
                  if is_ignored m p (is_directory e) then return_io None
                  else return_io (Some (if is_directory e then [Some p] else [], [e])))
      | SingleFile p \<Rightarrow>
          if is_hard_ignored p then return_io (Some ([], []))
          else
            bind_io (stat_path p) (\<lambda>entry.
              case entry of
                None \<Rightarrow> return_io (Some ([], []))
              | Some e \<Rightarrow>
                  if is_ignored m p (is_directory e) then return_io (Some ([], []))
                  else return_io (Some ([], [e]))))"

definition scan_finish :: "scan_scope \<Rightarrow> tree_entry list \<Rightarrow> scan_result io" where
  "scan_finish scope entries =
     bind_io now_utc (\<lambda>t. bind_io (lift_io (tree_new entries)) (\<lambda>tree.
       return_io \<lparr>scan_finished_at = t, scan_scope_of = scope, scan_tree = tree\<rparr>))"

definition local_scan :: "gitignore \<Rightarrow> scan_scope \<Rightarrow> world \<Rightarrow> (scan_result res \<times> world) option" where
  "local_scan G scope w =
     (case bind_io (ignore_rules_load G) (\<lambda>m. bind_io (scan_start m scope) (\<lambda>s. return_io (m, s))) w of
        (Inl e, w1) \<Rightarrow> Some (Inl e, w1)
      | (Inr (m, None), w1) \<Rightarrow> Some (scan_finish scope [] w1)
      | (Inr (m, Some s), w1) \<Rightarrow>
          (case scan_walk m (fst s) (snd s) w1 of
             None \<Rightarrow> None
           | Some (Inl e, w2) \<Rightarrow> Some (Inl e, w2)
           | Some (Inr entries, w2) \<Rightarrow> Some (scan_finish scope entries w2)))"

end
