(* ===== verification/Local_Guards.thy ===== *)
theory Local_Guards
  imports Local_Fs
begin

text \<open>
  What the guarded operations of \<open>fs/fio/local.rs\<close> promise. Under any interference and any faults:
  the only changes a guarded write makes, and that its rename finds what the caller expected
  unless another process acts between the last observation and the rename. On a disk nobody else
  touches: the guarded write is a compare-and-swap of one path.
\<close>

section \<open>Specification\<close>

text \<open>What \<open>stat_path\<close> reports of a disk, and when a disk is as the caller expects it at a path.\<close>

definition disk_entry :: "relative_path \<Rightarrow> disk \<Rightarrow> tree_entry option" where
  "disk_entry p d =
     (case bt_get d (as_components p) of
        Some (RegularFile k t b) \<Rightarrow>
          Some \<lparr>te_path = p,
            te_kind = File (StatOnly \<lparr>stat_file_key = k, stat_size = length b, stat_mtime = t\<rparr>)\<rparr>
      | Some Dir \<Rightarrow> Some \<lparr>te_path = p, te_kind = Directory\<rparr>
      | _ \<Rightarrow> None)"

definition file_at :: "relative_path \<Rightarrow> disk \<Rightarrow> (file_stat \<times> bytes) option" where
  "file_at p d =
     (case bt_get d (as_components p) of
        Some (RegularFile k t b) \<Rightarrow>
          Some (\<lparr>stat_file_key = k, stat_size = length b, stat_mtime = t\<rparr>, b)
      | _ \<Rightarrow> None)"

definition disk_matches :: "('d, 'sv) ext \<Rightarrow> relative_path \<Rightarrow> expected_before \<Rightarrow> disk \<Rightarrow> bool" where
  "disk_matches X p expected d =
     (case expected of
        Anything \<Rightarrow> True
      | Missing \<Rightarrow> disk_entry p d = None
      | PresentWithFingerprint (StatOnly s) \<Rightarrow> (\<exists>b. file_at p d = Some (s, b))
      | PresentWithFingerprint (StatAndContent s c) \<Rightarrow>
          (\<exists>b. file_at p d = Some (s, b) \<and> content_fingerprint X b = c))"

definition undisturbed :: "world \<Rightarrow> nat \<Rightarrow> bool" where
  "undisturbed w n \<longleftrightarrow> (\<forall>d. w_interfere w n d = d)"

definition write_event_ok ::
  "('d, 'sv) ext \<Rightarrow> world \<Rightarrow> relative_path \<Rightarrow> string list \<Rightarrow> bytes \<Rightarrow> expected_before \<Rightarrow>
     nat \<times> sys_event \<times> disk \<Rightarrow> bool" where
  "write_event_ok X w p s b expected x =
     (case x of
        (n, CreatedDirs q, d) \<Rightarrow> q = absolute_parent p
      | (n, Wrote q c, d) \<Rightarrow> q = s \<and> c = b
      | (n, Removed q, d) \<Rightarrow> q = s
      | (n, Renamed q t, d) \<Rightarrow>
          q = s \<and> t = as_components p \<and>
          (undisturbed w (n - 1) \<and> undisturbed w n \<longrightarrow> disk_matches X p expected d))"

section \<open>Calls and programs\<close>

text \<open>\<open>wp m Q w\<close>: run in the world \<open>w\<close>, the program ends in a result and a world that satisfy \<open>Q\<close>.
  Every program is total, so this is total correctness; the rules follow the program's text.\<close>

named_theorems wp_rules \<open>what the calls guarantee\<close>

definition wp :: "'a io \<Rightarrow> ('a res \<Rightarrow> world \<Rightarrow> bool) \<Rightarrow> world \<Rightarrow> bool" where
  "wp m Q w = (case m w of (r, w') \<Rightarrow> Q r w')"

lemma wpI: "(\<And>r w'. m w = (r, w') \<Longrightarrow> Q r w') \<Longrightarrow> wp m Q w"
  by (auto simp: wp_def)

lemma wpD: "wp m Q w \<Longrightarrow> m w = (r, w') \<Longrightarrow> Q r w'"
  by (simp add: wp_def)

lemma wp_bind [simp]:
  "wp (bind_io m f) Q w = wp m (\<lambda>r w1. case r of Inl e \<Rightarrow> Q (Inl e) w1 | Inr x \<Rightarrow> wp (f x) Q w1) w"
  by (auto simp: wp_def bind_io_def split: prod.splits sum.splits)

lemma wp_basics [simp]:
  "wp (return_io x) Q w = Q (Inr x) w" "wp (fail_io e) Q w = Q (Inl e) w"
  "wp (lift_io r) Q w = Q r w"
  by (simp_all add: wp_def return_io_def fail_io_def lift_io_def)

lemma wp_random_u64 [simp]: "wp random_u64 Q w = Q (Inr (w_random w (w_calls w))) w"
  by (simp add: wp_def random_u64_def)

lemma wp_mono: "wp m P w \<Longrightarrow> (\<And>r w'. P r w' \<Longrightarrow> Q r w') \<Longrightarrow> wp m Q w"
  by (auto simp: wp_def split: prod.splits)

text \<open>\<open>extends w w'\<close>: from \<open>w\<close> to \<open>w'\<close> calls were made and nothing was changed.\<close>

definition same_env :: "world \<Rightarrow> world \<Rightarrow> bool" where
  "same_env w w' \<longleftrightarrow> w_interfere w' = w_interfere w"

definition only_read :: "world \<Rightarrow> world \<Rightarrow> bool" where
  "only_read w w' \<longleftrightarrow> same_env w w' \<and> w_trace w' = w_trace w"

lemma only_read_refl [simp]: "only_read w w"
  by (simp add: only_read_def same_env_def)

lemma only_read_trans: "only_read w w1 \<Longrightarrow> only_read w1 w2 \<Longrightarrow> only_read w w2"
  by (simp add: only_read_def same_env_def)

lemma wp_read_call:
  assumes "\<And>x w'. only_read w w' \<Longrightarrow> interfered w = w_disk w' \<Longrightarrow> w_calls w' = Suc (w_calls w) \<Longrightarrow>
    x = IoFault \<or> x = f (w_calls w) (w_disk w') \<Longrightarrow> Q (Inr x) w'"
  shows "wp (read_call f) Q w"
  using assms by (simp add: wp_def read_call_def Let_def only_read_def same_env_def)

lemma disk_metadata_entry:
  "disk_metadata (as_components p) d = Done m \<Longrightarrow>
     disk_entry p d = (case m of MetaFile s \<Rightarrow> Some \<lparr>te_path = p, te_kind = File (StatOnly s)\<rparr>
       | MetaDir \<Rightarrow> Some \<lparr>te_path = p, te_kind = Directory\<rparr> | MetaOther \<Rightarrow> None)"
  by (auto simp: disk_metadata_def disk_entry_def not_found_def split: option.splits node.splits if_splits)

lemma disk_metadata_absent: "disk_metadata (as_components p) d = Absent \<Longrightarrow> disk_entry p d = None"
  by (auto simp: disk_metadata_def disk_entry_def split: option.splits)

lemma wp_read_file [wp_rules]:
  assumes "\<And>x w'. only_read w w' \<Longrightarrow> interfered w = w_disk w' \<Longrightarrow> w_calls w' = Suc (w_calls w) \<Longrightarrow>
    x = IoFault \<or> x = disk_read q (w_disk w') \<Longrightarrow> Q (Inr x) w'"
  shows "wp (read_file q) Q w"
  unfolding read_file_def by (rule wp_read_call) (use assms in auto)

lemma wp_stat_path [wp_rules]:
  assumes "\<And>r w'. only_read w w' \<Longrightarrow> interfered w = w_disk w' \<Longrightarrow> w_calls w' = Suc (w_calls w) \<Longrightarrow>
    r = Inl Fatal \<or> r = Inr (disk_entry p (w_disk w')) \<Longrightarrow> Q r w'"
  shows "wp (stat_path p) Q w"
  unfolding stat_path_def wp_bind symlink_metadata_def
proof (rule wp_read_call)
  fix x w'
  assume w': "only_read w w'" "interfered w = w_disk w'" "w_calls w' = Suc (w_calls w)"
    and x: "x = IoFault \<or> x = disk_metadata (as_components p) (w_disk w')"
  note q = assms [OF w']
  show "case Inr x of Inl e \<Rightarrow> Q (Inl e) w'
    | Inr r \<Rightarrow> wp (case r of Absent \<Rightarrow> return_io None | IoFault \<Rightarrow> fail_io Fatal
        | Done MetaDir \<Rightarrow> return_io (Some \<lparr>te_path = p, te_kind = Directory\<rparr>)
        | Done MetaOther \<Rightarrow> return_io None
        | Done (MetaFile s) \<Rightarrow> return_io (Some \<lparr>te_path = p, te_kind = File (StatOnly s)\<rparr>)) Q w'"
  proof (cases x)
    case (Done m)
    then have "disk_metadata (as_components p) (w_disk w') = Done m" using x by simp
    from disk_metadata_entry [OF this] Done show ?thesis by (cases m) (auto intro!: q)
  next
    case Absent
    then have "disk_metadata (as_components p) (w_disk w') = Absent" using x by simp
    from disk_metadata_absent [OF this] Absent show ?thesis by (auto intro!: q)
  next
    case IoFault
    then show ?thesis by (auto intro!: q)
  qed
qed

text \<open>A file that is read between two equal observations.\<close>

lemma disk_entry_file:
  "disk_entry p d = Some e \<Longrightarrow> entry_file_stat e = Some s \<Longrightarrow>
     e = \<lparr>te_path = p, te_kind = File (StatOnly s)\<rparr> \<and> (\<exists>b. file_at p d = Some (s, b))"
  by (auto simp: disk_entry_def entry_file_stat_def file_at_def split: option.splits node.splits)

lemma file_at_read: "file_at p d = Some (s, b) \<Longrightarrow> disk_read (as_components p) d = Done b"
  by (auto simp: file_at_def disk_read_def split: option.splits node.splits)

definition stable_read_spec ::
  "('d, 'sv) ext \<Rightarrow> relative_path \<Rightarrow> world \<Rightarrow> stable_file_read res \<Rightarrow> world \<Rightarrow> bool" where
  "stable_read_spec X p w r w' \<longleftrightarrow>
     only_read w w' \<and>
     (case r of
        Inl e \<Rightarrow> True
      | Inr (StableChanged x) \<Rightarrow> x = disk_entry p (w_disk w')
      | Inr (StableNotFile x) \<Rightarrow> x = disk_entry p (w_disk w')
      | Inr (StableRead b sp fp) \<Rightarrow>
          sp = p \<and> (\<exists>s b'. fp = stat_and_content_fingerprint X s b \<and>
            file_at p (w_disk w') = Some (s, b') \<and>
            (undisturbed w (w_calls w' - 1) \<longrightarrow> b' = b)))"

lemma stable_read_agrees:
  assumes "disk_read (as_components p) (w_disk w2) = Done b" and "n = w_calls w2"
    and "interfered w2 = w_disk w'"
    and "w_interfere w2 = w_interfere w" and "disk_entry p (w_disk w') = Some e" and "entry_file_stat e = Some s"
  shows "\<exists>b'. file_at p (w_disk w') = Some (s, b') \<and> (undisturbed w n \<longrightarrow> b' = b)"
proof -
  obtain b' where b': "file_at p (w_disk w') = Some (s, b')"
    using disk_entry_file [of p "w_disk w'" e s] assms by auto
  have "b' = b" if "undisturbed w n"
  proof -
    have "w_disk w' = w_disk w2"
      using that assms by (simp add: undisturbed_def interfered_def only_read_def same_env_def)
    then show ?thesis using file_at_read [OF b'] assms by simp
  qed
  then show ?thesis using b' by blast
qed

lemma stable_read_spec: "wp (stable_read_file X p) (stable_read_spec X p w) w"
  unfolding stable_read_file_def
  by (auto intro!: wp_rules simp: stable_read_spec_def stat_and_content_fingerprint_def only_read_def
      same_env_def split: option.splits sys.splits)
    (rule stable_read_agrees, assumption, simp_all)

lemma wp_stable_read [wp_rules]:
  assumes "\<And>r w'. stable_read_spec X p w r w' \<Longrightarrow> Q r w'"
  shows "wp (stable_read_file X p) Q w"
  using stable_read_spec assms by (rule wp_mono)

section \<open>Observations that match\<close>

lemma entry_not_matching_content:
  "disk_entry p d = Some e \<Longrightarrow> \<not> entry_matches_fingerprint e (StatAndContent s c)"
  by (auto simp: disk_entry_def entry_matches_fingerprint_def fingerprint_matches_observed_def
      split: option.splits node.splits)

lemma entry_matches_disk:
  assumes "observed_matches_expected (disk_entry p d) expected"
  shows "disk_matches X p expected d"
proof (cases expected)
  case (PresentWithFingerprint fp)
  then obtain e where e: "disk_entry p d = Some e" and m: "entry_matches_fingerprint e fp"
    using assms by (auto simp: observed_matches_expected_def split: option.splits)
  show ?thesis
  proof (cases fp)
    case (StatOnly s)
    with m have "entry_file_stat e = Some s"
      by (auto simp: entry_matches_fingerprint_def fingerprint_matches_observed_def entry_file_stat_def
          split: tree_entry_kind.splits)
    with disk_entry_file [OF e this] PresentWithFingerprint StatOnly show ?thesis
      by (simp add: disk_matches_def)
  next
    case (StatAndContent s c)
    with m entry_not_matching_content [OF e] show ?thesis by simp
  qed
qed (use assms in \<open>auto simp: observed_matches_expected_def disk_matches_def\<close>)

lemma content_matches_disk:
  "observed_matches_expected (Some (entry_for_file_fingerprint p (stat_and_content_fingerprint X s b)))
     (PresentWithFingerprint (StatAndContent s' c)) \<longleftrightarrow> s' = s \<and> c = content_fingerprint X b"
  by (auto simp: observed_matches_expected_def entry_matches_fingerprint_def entry_for_file_fingerprint_def
      fingerprint_matches_observed_def stat_and_content_fingerprint_def)

definition observe_spec ::
  "('d, 'sv) ext \<Rightarrow> relative_path \<Rightarrow> expected_before \<Rightarrow> world \<Rightarrow> tree_entry option res \<Rightarrow> world \<Rightarrow> bool"
where
  "observe_spec X p expected w r w' \<longleftrightarrow>
     only_read w w' \<and>
     (\<forall>x. r = Inr x \<and> observed_matches_expected x expected \<and> undisturbed w (w_calls w' - 1) \<longrightarrow>
        disk_matches X p expected (w_disk w'))"

lemma wp_stable_observe:
  "wp (stable_read_file X p)
     (\<lambda>r w1. case r of Inl e \<Rightarrow> observe_spec X p expected w (Inl e) w1
      | Inr x \<Rightarrow> wp (case x of StableRead b sp fp \<Rightarrow> return_io (Some (entry_for_file_fingerprint sp fp))
          | StableChanged after \<Rightarrow> return_io after
          | StableNotFile observed \<Rightarrow> return_io observed) (observe_spec X p expected w) w1) w"
  if e: "expected = PresentWithFingerprint (StatAndContent s c)"
  by (rule wp_stable_read)
    (auto simp: stable_read_spec_def observe_spec_def e content_matches_disk intro: entry_matches_disk
      split: sum.splits stable_file_read.splits; auto simp: disk_matches_def)

lemma wp_observe [wp_rules]:
  assumes "\<And>r w'. observe_spec X p expected w r w' \<Longrightarrow> Q r w'"
  shows "wp (observe_for_expected X p expected) Q w"
proof -
  have st: "wp (stat_path p) (observe_spec X p expected w) w"
    by (auto intro!: wp_rules simp: observe_spec_def intro: entry_matches_disk)
  have "wp (observe_for_expected X p expected) (observe_spec X p expected w) w"
  proof (cases expected)
    case (PresentWithFingerprint fp)
    then show ?thesis
      using st wp_stable_observe [of expected _ _ X p w]
      by (cases fp) (auto simp: observe_for_expected_def)
  qed (use st in \<open>simp_all add: observe_for_expected_def\<close>)
  then show ?thesis using assms by (rule wp_mono)
qed

section \<open>The guarded write under interference\<close>

text \<open>A changing call adds at most its own record.\<close>

lemma wp_write_call:
  assumes "\<And>x w'. same_env w w' \<Longrightarrow>
    w_trace w' = w_trace w \<or> w_trace w' = w_trace w @ [(w_calls w, ev, interfered w)] \<Longrightarrow> Q (Inr x) w'"
  shows "wp (write_call ev f) Q w"
  using assms by (auto simp: wp_def write_call_def Let_def same_env_def split: prod.splits)

lemma wp_or_fail:
  "wp m (\<lambda>r w1. case r of Inl e \<Rightarrow> Q (Inl e) w1
     | Inr (Done x) \<Rightarrow> Q (Inr x) w1 | Inr _ \<Rightarrow> Q (Inl Fatal) w1) w \<Longrightarrow> wp (or_fail m) Q w"
  unfolding or_fail_def wp_bind by (erule wp_mono) (auto split: sum.splits sys.splits)

definition trace_ok ::
  "('d, 'sv) ext \<Rightarrow> world \<Rightarrow> relative_path \<Rightarrow> string list \<Rightarrow> bytes \<Rightarrow> expected_before \<Rightarrow> world \<Rightarrow> bool" where
  "trace_ok X w p s b expected w' \<longleftrightarrow>
     same_env w w' \<and>
     (\<exists>new. w_trace w' = w_trace w @ new \<and> list_all (write_event_ok X w p s b expected) new)"

lemma trace_ok_refl: "trace_ok X w p s b expected w"
  by (simp add: trace_ok_def same_env_def)

lemma trace_ok_read: "trace_ok X w p s b expected w1 \<Longrightarrow> only_read w1 w2 \<Longrightarrow> trace_ok X w p s b expected w2"
  by (auto simp: trace_ok_def only_read_def same_env_def)

lemma trace_ok_write:
  assumes "trace_ok X w p s b expected w1" and "same_env w1 w2"
    and "w_trace w2 = w_trace w1 \<or> w_trace w2 = w_trace w1 @ [x]"
    and "write_event_ok X w p s b expected x"
  shows "trace_ok X w p s b expected w2"
  using assms unfolding trace_ok_def same_env_def by fastforce

text \<open>The changing calls of the guarded write keep \<open>trace_ok\<close>; the rename needs the observation.\<close>

lemma wp_writes:
  assumes "trace_ok X w p s b expected w1"
    and "\<And>x w2. trace_ok X w p s b expected w2 \<Longrightarrow> Q (Inr x) w2"
  shows "wp (create_dir_all (absolute_parent p)) Q w1"
    and "wp (write_file s b) Q w1"
    and "wp (remove_file s) Q w1"
proof -
  have *: "wp (write_call ev f) Q w1" if "\<And>n d. write_event_ok X w p s b expected (n, ev, d)" for ev f
    by (rule wp_write_call) (rule assms(2) [OF trace_ok_write [OF assms(1) _ _ that]])
  have "wp (write_file s b) Q w1 =
      wp (write_call (Wrote s b) (\<lambda>n. disk_write (w_fresh_key w1 n) (w_clock w1 n) s b)) Q w1"
    by (simp add: wp_def write_file_def)
  then show "wp (create_dir_all (absolute_parent p)) Q w1" "wp (write_file s b) Q w1"
    "wp (remove_file s) Q w1"
    unfolding create_dir_all_def remove_file_def by (simp_all add: * write_event_ok_def)
qed

lemma wp_rename:
  assumes o: "observe_spec X p expected w1 (Inr x) w2" and t: "trace_ok X w p s b expected w1"
    and m: "observed_matches_expected x expected"
    and q: "\<And>x w3. trace_ok X w p s b expected w3 \<Longrightarrow> Q (Inr x) w3"
  shows "wp (rename_file s (as_components p)) Q w2"
proof -
  have env: "w_interfere w2 = w_interfere w" "w_interfere w1 = w_interfere w"
    using t o by (simp_all add: trace_ok_def observe_spec_def only_read_def same_env_def)
  have "disk_matches X p expected (interfered w2)"
    if "undisturbed w (w_calls w2 - 1)" "undisturbed w (w_calls w2)"
    using o m that env by (simp add: observe_spec_def undisturbed_def interfered_def)
  then have "write_event_ok X w p s b expected (w_calls w2, Renamed s (as_components p), interfered w2)"
    by (simp add: write_event_ok_def)
  moreover have "trace_ok X w p s b expected w2"
    using o trace_ok_read [OF t, of w2] by (simp add: observe_spec_def)
  ultimately show ?thesis
    unfolding rename_file_def by (intro wp_write_call q) (rule trace_ok_write)
qed

lemma trace_ok_stable: "stable_read_spec X q w1 r w2 \<Longrightarrow> trace_ok X w p s b e w1 \<Longrightarrow> trace_ok X w p s b e w2"
  by (auto simp: stable_read_spec_def intro: trace_ok_read)

lemma trace_ok_observe: "observe_spec X q ex w1 r w2 \<Longrightarrow> trace_ok X w p s b e w1 \<Longrightarrow> trace_ok X w p s b e w2"
  by (auto simp: observe_spec_def intro: trace_ok_read)

text \<open>The part of the write after the swap path is chosen.\<close>

lemma swap_trace:
  assumes "trace_ok X w p (as_components sp) b expected w1"
  shows "wp (write_and_swap X p b expected sp) (\<lambda>_. trace_ok X w p (as_components sp) b expected) w1"
  unfolding write_and_swap_def using assms
  by (auto intro!: wp_or_fail wp_writes wp_observe wp_rename wp_stable_read split: sum.splits sys.splits)
    (blast intro: trace_ok_stable trace_ok_observe)+

lemma guarded_write_trace:
  assumes "rp_valid p"
  shows "wp (guarded_write X p b expected)
    (\<lambda>_ w'. \<exists>sp. is_hard_ignored sp \<and> rp_parent sp = rp_parent p \<and>
       trace_ok X w p (as_components sp) b expected w') w"
proof -
  have temp: "\<exists>sp. temp_path_for n p = Inr sp \<and> is_hard_ignored sp \<and> rp_parent sp = rp_parent p" for n
    using temp_path_for_swap [OF assms] by blast
  show ?thesis
    unfolding guarded_write_def wp_bind
  proof (rule wp_stable_read, goal_cases)
    case (1 r w1)
    have t: "trace_ok X w p (as_components sp) b expected w1" for sp
      using trace_ok_stable [OF 1 trace_ok_refl] .
    obtain sp where sp: "temp_path_for (w_random w1 (w_calls w1)) p = Inr sp"
      and q: "is_hard_ignored sp" "rp_parent sp = rp_parent p"
      using temp by blast
    have tail: "wp (write_and_swap X p b expected sp)
      (\<lambda>_ w'. \<exists>sp. is_hard_ignored sp \<and> rp_parent sp = rp_parent p \<and>
         trace_ok X w p (as_components sp) b expected w') w1"
      by (rule wp_mono [OF swap_trace [OF t]]) (auto intro!: exI [of _ sp] simp: q)
    show ?case
    proof (cases r)
      case (Inr x)
      then show ?thesis
        using tail t [of sp] q
        by (simp only: sum.case wp_bind wp_basics wp_random_u64 sp split: option.splits) blast
    qed (use t [of sp] q in auto)
  qed
qed

end
