(* ===== verification/Local_Quiet.thy ===== *)
theory Local_Quiet
  imports Local_Guards
begin

text \<open>
  The operations of \<open>fs/fio/local.rs\<close> on a disk nobody else touches and without I/O errors: rules
  for the calls, and what the guarded operations then do on every branch.
\<close>

definition calm :: "world \<Rightarrow> bool" where
  "calm w \<longleftrightarrow>
     (\<forall>n d. w_interfere w n d = d) \<and> (\<forall>n. \<not> w_faults w n) \<and>
     (\<forall>n ns. mset (w_dir_order w n ns) = mset ns) \<and> (\<forall>n. \<not> w_dir_gone w n)"

text \<open>No proper prefix of the path is anything but a directory.\<close>

definition clear_above :: "disk \<Rightarrow> string list \<Rightarrow> bool" where
  "clear_above d p \<longleftrightarrow> (\<forall>n<length p. bt_get d (take n p) = None \<or> bt_get d (take n p) = Some Dir)"

definition no_swap_files :: "disk \<Rightarrow> relative_path \<Rightarrow> bool" where
  "no_swap_files d p \<longleftrightarrow>
     (\<forall>n sp. temp_path_for n p = Inr sp \<longrightarrow> bt_get d (as_components sp) = None)"

section \<open>Reading calls\<close>

lemma quiet_read_call:
  assumes "calm w"
    and "\<And>w'. calm w' \<Longrightarrow> w_disk w' = w_disk w \<Longrightarrow> Q (Inr (f (w_calls w) (w_disk w))) w'"
  shows "wp (read_call f) Q w"
  using assms by (simp add: wp_def read_call_def Let_def interfered_def calm_def)

lemma clear_not_found: "clear_above d p \<Longrightarrow> not_found d p = Absent"
  by (auto simp: not_found_def clear_above_def list_ex_iff split: option.splits node.splits)

lemma disk_metadata_clear:
  "clear_above d (as_components p) \<Longrightarrow>
     (case disk_metadata (as_components p) d of
        Absent \<Rightarrow> Inr None
      | IoFault \<Rightarrow> Inl Fatal
      | Done MetaDir \<Rightarrow> Inr (Some \<lparr>te_path = p, te_kind = Directory\<rparr>)
      | Done MetaOther \<Rightarrow> Inr None
      | Done (MetaFile s) \<Rightarrow> Inr (Some \<lparr>te_path = p, te_kind = File (StatOnly s)\<rparr>)) =
     Inr (disk_entry p d)"
  by (auto simp: disk_metadata_def disk_entry_def clear_not_found split: option.splits node.splits)

lemma quiet_stat_path:
  assumes "calm w" and "clear_above (w_disk w) (as_components p)"
    and q: "\<And>w'. calm w' \<Longrightarrow> w_disk w' = w_disk w \<Longrightarrow> Q (Inr (disk_entry p (w_disk w))) w'"
  shows "wp (stat_path p) Q w"
  unfolding stat_path_def wp_bind symlink_metadata_def
proof (rule quiet_read_call [OF assms(1)])
  fix w'
  assume "calm w'" "w_disk w' = w_disk w"
  note q' = q [OF this]
  show "case Inr (disk_metadata (as_components p) (w_disk w)) of Inl e \<Rightarrow> Q (Inl e) w'
    | Inr r \<Rightarrow> wp (case r of Absent \<Rightarrow> return_io None | IoFault \<Rightarrow> fail_io Fatal
        | Done MetaDir \<Rightarrow> return_io (Some \<lparr>te_path = p, te_kind = Directory\<rparr>)
        | Done MetaOther \<Rightarrow> return_io None
        | Done (MetaFile s) \<Rightarrow> return_io (Some \<lparr>te_path = p, te_kind = File (StatOnly s)\<rparr>)) Q w'"
    using disk_metadata_clear [OF assms(2)] q'
    by (cases "disk_metadata (as_components p) (w_disk w)") (auto split: metadata.splits)
qed

definition stable_value :: "('d, 'sv) ext \<Rightarrow> relative_path \<Rightarrow> disk \<Rightarrow> stable_file_read" where
  "stable_value X p d =
     (case file_at p d of
        Some (s, b) \<Rightarrow> StableRead b p (stat_and_content_fingerprint X s b)
      | None \<Rightarrow> StableNotFile (disk_entry p d))"

lemma file_at_entry:
  "file_at p d = Some (s, b) \<Longrightarrow>
     disk_entry p d = Some \<lparr>te_path = p, te_kind = File (StatOnly s)\<rparr>"
  by (auto simp: file_at_def disk_entry_def split: option.splits node.splits)

lemma file_at_None_entry: "file_at p d = None \<Longrightarrow> disk_entry p d = Some e \<Longrightarrow> entry_file_stat e = None"
  by (auto simp: file_at_def disk_entry_def entry_file_stat_def split: option.splits node.splits)

lemma quiet_stable_read:
  assumes "calm w" and "clear_above (w_disk w) (as_components p)"
    and q: "\<And>w'. calm w' \<Longrightarrow> w_disk w' = w_disk w \<Longrightarrow> Q (Inr (stable_value X p (w_disk w))) w'"
  shows "wp (stable_read_file X p) Q w"
proof (cases "file_at p (w_disk w)")
  case None
  have "Q (Inr (StableNotFile (disk_entry p (w_disk w)))) w'" if "calm w'" "w_disk w' = w_disk w" for w'
    using q [OF that] None by (simp add: stable_value_def)
  then show ?thesis
    unfolding stable_read_file_def wp_bind
    using file_at_None_entry [OF None]
    by (intro quiet_stat_path [OF assms(1,2)]) (auto split: option.splits)
next
  case (Some sb)
  obtain s b where sb: "sb = (s, b)" by fastforce
  have e: "disk_entry p (w_disk w) = Some \<lparr>te_path = p, te_kind = File (StatOnly s)\<rparr>"
    using Some sb file_at_entry by blast
  have rd: "disk_read (as_components p) (w_disk w) = Done b"
    using Some sb file_at_read by blast
  have "Q (Inr (StableRead b p (stat_and_content_fingerprint X s b))) w'"
    if "calm w'" "w_disk w' = w_disk w" for w'
    using q [OF that] Some by (simp add: stable_value_def sb)
  then show ?thesis
    unfolding stable_read_file_def wp_bind read_file_def
    using assms(2) e rd Some
    by (auto intro!: quiet_stat_path quiet_read_call assms(1) simp: entry_file_stat_def split: option.splits)
qed

definition observed_value :: "('d, 'sv) ext \<Rightarrow> relative_path \<Rightarrow> expected_before \<Rightarrow> disk \<Rightarrow> tree_entry option"
where
  "observed_value X p expected d =
     (case (expected, file_at p d) of
        (PresentWithFingerprint (StatAndContent _ _), Some (s, b)) \<Rightarrow>
          Some (entry_for_file_fingerprint p (stat_and_content_fingerprint X s b))
      | _ \<Rightarrow> disk_entry p d)"

lemma quiet_observe:
  assumes "calm w" and "clear_above (w_disk w) (as_components p)"
    and q: "\<And>w'. calm w' \<Longrightarrow> w_disk w' = w_disk w \<Longrightarrow>
      Q (Inr (observed_value X p expected (w_disk w))) w'"
  shows "wp (observe_for_expected X p expected) Q w"
proof (cases "\<exists>s c. expected = PresentWithFingerprint (StatAndContent s c)")
  case True
  then show ?thesis
    unfolding observe_for_expected_def
    by (auto intro!: quiet_stable_read [OF assms(1,2)]
        simp: stable_value_def split: option.splits)
      (use q in \<open>auto simp: observed_value_def\<close>)
next
  case False
  then have "observe_for_expected X p expected = stat_path p"
    "observed_value X p expected (w_disk w) = disk_entry p (w_disk w)"
    by (auto simp: observe_for_expected_def observed_value_def
        split: expected_before.splits file_fingerprint.splits)
  with q show ?thesis by (auto intro!: quiet_stat_path [OF assms(1,2)])
qed

text \<open>The observation matches exactly when the disk is as expected.\<close>

lemma observed_value_matches:
  "observed_matches_expected (observed_value X p expected d) expected \<longleftrightarrow> disk_matches X p expected d"
proof (cases "\<exists>s c. expected = PresentWithFingerprint (StatAndContent s c)")
  case True
  then obtain s c where e: "expected = PresentWithFingerprint (StatAndContent s c)" by blast
  show ?thesis
  proof (cases "file_at p d")
    case None
    then have "\<not> observed_matches_expected (disk_entry p d) expected"
      using entry_not_matching_content [of p d] by (auto simp: e observed_matches_expected_def split: option.splits)
    with None show ?thesis by (simp add: e observed_value_def disk_matches_def)
  next
    case (Some sb)
    then show ?thesis
      by (cases sb) (auto simp: e observed_value_def content_matches_disk disk_matches_def)
  qed
next
  case False
  then have "observed_value X p expected d = disk_entry p d"
    by (auto simp: observed_value_def split: expected_before.splits file_fingerprint.splits)
  moreover have "disk_matches X p expected d \<Longrightarrow> observed_matches_expected (disk_entry p d) expected"
    using False file_at_entry [of p d]
    by (auto simp: disk_matches_def observed_matches_expected_def entry_matches_fingerprint_def
        fingerprint_matches_observed_def split: expected_before.splits file_fingerprint.splits)
  ultimately show ?thesis using entry_matches_disk by auto
qed

section \<open>Changing calls\<close>

lemma quiet_write_call:
  assumes "calm w" and "f (w_calls w) (w_disk w) = (x, d')"
    and "\<And>w'. calm w' \<Longrightarrow> w_disk w' = d' \<Longrightarrow> Q (Inr x) w'"
  shows "wp (write_call ev f) Q w"
  using assms by (simp add: wp_def write_call_def Let_def interfered_def calm_def)

lemma quiet_write_file:
  assumes "calm w" and "bt_get (w_disk w) s = None" and "bt_get (w_disk w) (butlast s) = Some Dir"
    and "\<And>w' k t. calm w' \<Longrightarrow> w_disk w' = bt_insert s (RegularFile k t b) (w_disk w) \<Longrightarrow> Q (Inr (Done ())) w'"
  shows "wp (write_file s b) Q w"
proof -
  have "wp (write_file s b) Q w =
      wp (write_call (Wrote s b) (\<lambda>n. disk_write (w_fresh_key w n) (w_clock w n) s b)) Q w"
    by (simp add: wp_def write_file_def)
  then show ?thesis
    using assms by (auto intro!: quiet_write_call simp: disk_write_def is_dir_at_def)
qed

text \<open>Missing parents are created; nothing else changes.\<close>

lemma make_dirs_get:
  "bt_get (fold make_dir ps d) q = (if q \<in> set ps \<and> bt_get d q = None then Some Dir else bt_get d q)"
  by (induction ps arbitrary: d) (auto simp: make_dir_def btree.get_insert bt_get_insert)

lemma make_dirs_wf: "bt_wf d \<Longrightarrow> bt_wf (fold make_dir ps d)"
  by (induction ps arbitrary: d) (auto simp: make_dir_def bt_wf_insert)

lemma prefixes_set: "q \<in> set (prefixes_of p) \<longleftrightarrow> (\<exists>n\<le>length p. q = take n p)"
  by (auto simp: prefixes_of_def image_iff less_Suc_eq_le simp del: upt_Suc)

lemma clear_above_prefix: "clear_above d p \<Longrightarrow> n < length p \<Longrightarrow> bt_get d (take n p) = None \<or> bt_get d (take n p) = Some Dir"
  by (simp add: clear_above_def)

lemma parent_components:
  "rp_valid p \<Longrightarrow> absolute_parent p = butlast (as_components p)"
  by (cases "as_components p" rule: rev_cases) (auto simp: absolute_parent_def rp_parent_def rp_valid_def)

lemma parent_prefix:
  assumes "rp_valid p" and "q \<in> set (prefixes_of (absolute_parent p))"
  shows "\<exists>n<length (as_components p). q = take n (as_components p)"
proof -
  obtain n where n: "n \<le> length (as_components p) - 1" "q = take n (butlast (as_components p))"
    using assms by (auto simp: parent_components prefixes_set)
  then have "q = take n (as_components p)" "n < length (as_components p)"
    using assms(1) by (cases "as_components p"; auto simp: butlast_conv_take rp_valid_def)+
  then show ?thesis by blast
qed

lemma quiet_create_parents:
  assumes "calm w" and "rp_valid p" and "clear_above (w_disk w) (as_components p)"
    and "\<And>w'. calm w' \<Longrightarrow> w_disk w' = fold make_dir (prefixes_of (absolute_parent p)) (w_disk w) \<Longrightarrow>
      Q (Inr (Done ())) w'"
  shows "wp (create_dir_all (absolute_parent p)) Q w"
proof -
  have "bt_get (w_disk w) q = None \<or> is_dir_at (w_disk w) q" if "q \<in> set (prefixes_of (absolute_parent p))" for q
    using parent_prefix [OF assms(2) that] assms(3) by (auto simp: clear_above_def is_dir_at_def)
  then have "disk_create_dir_all (absolute_parent p) (w_disk w) =
      (Done (), fold make_dir (prefixes_of (absolute_parent p)) (w_disk w))"
    by (auto simp: disk_create_dir_all_def list_all_iff)
  then show ?thesis
    unfolding create_dir_all_def using assms(1,4) by (auto intro!: quiet_write_call)
qed

lemma quiet_rename:
  assumes "calm w" and "bt_get (w_disk w) s = Some (RegularFile k t b)"
    and "bt_get (w_disk w) (butlast q) = Some Dir"
    and "\<And>w'. calm w' \<Longrightarrow>
      (if bt_get (w_disk w) q = Some Dir then w_disk w' = w_disk w
       else w_disk w' = bt_insert q (RegularFile k t b) (bt_remove s (w_disk w))) \<Longrightarrow>
      Q (Inr (if bt_get (w_disk w) q = Some Dir then IoFault else Done ())) w'"
  shows "wp (rename_file s q) Q w"
proof -
  have "disk_rename s q (w_disk w) =
    (if bt_get (w_disk w) q = Some Dir then (IoFault, w_disk w)
     else (Done (), bt_insert q (RegularFile k t b) (bt_remove s (w_disk w))))"
    using assms(2,3) by (auto simp: disk_rename_def is_dir_at_def split: option.splits node.splits)
  then show ?thesis
    unfolding rename_file_def
    using quiet_write_call [OF assms(1), where ev = "Renamed s q" and f = "\<lambda>_. disk_rename s q"] assms(4)
    by (auto split: if_splits)
qed

lemma quiet_remove:
  assumes "calm w" and "bt_get (w_disk w) s = Some (RegularFile k t b)"
    and "\<And>w'. calm w' \<Longrightarrow> w_disk w' = bt_remove s (w_disk w) \<Longrightarrow> Q (Inr (Done ())) w'"
  shows "wp (remove_file s) Q w"
  unfolding remove_file_def
  using assms by (auto intro!: quiet_write_call simp: disk_remove_file_def)

section \<open>The swap file\<close>

lemma temp_components:
  assumes "rp_valid p" and "temp_path_for n p = Inr sp"
  shows "\<exists>c. as_components sp = butlast (as_components p) @ [c] \<and> c \<noteq> last (as_components p)"
proof -
  have "as_components p \<noteq> []" using assms(1) by (simp add: rp_valid_def)
  then show ?thesis
    using assms(2)
    by (auto simp: temp_path_for_def file_name_def with_file_name_def res_simps
        dest!: arg_cong [where f = length])
qed

text \<open>The disk once the parents exist and the swap file is written.\<close>

definition staged :: "relative_path \<Rightarrow> relative_path \<Rightarrow> node \<Rightarrow> disk \<Rightarrow> disk" where
  "staged p sp n d = bt_insert (as_components sp) n (fold make_dir (prefixes_of (absolute_parent p)) d)"

definition with_parents :: "relative_path \<Rightarrow> disk \<Rightarrow> string list \<Rightarrow> node option" where
  "with_parents p d q =
     (if q \<in> set (prefixes_of (absolute_parent p)) \<and> bt_get d q = None then Some Dir else bt_get d q)"

lemma staged_get:
  "bt_get (staged p sp n d) q = (if q = as_components sp then Some n else with_parents p d q)"
  by (simp add: staged_def bt_get_insert make_dirs_get with_parents_def)

lemma staged_paths:
  assumes "rp_valid p" and "temp_path_for m p = Inr sp" and "clear_above d (as_components p)"
    and "no_swap_files d p"
  shows "as_components sp \<noteq> as_components p" and "butlast (as_components sp) = butlast (as_components p)"
    and "bt_get (staged p sp n d) (as_components p) = bt_get d (as_components p)"
    and "clear_above (staged p sp n d) (as_components p)"
    and "with_parents p d (as_components sp) = None"
    and "with_parents p d (butlast (as_components p)) = Some Dir"
    and "with_parents p d (as_components p) = bt_get d (as_components p)"
proof -
  let ?c = "as_components p" and ?s = "as_components sp"
  obtain x where x: "?s = butlast ?c @ [x]" "x \<noteq> last ?c" using temp_components [OF assms(1,2)] by blast
  have ne: "?c \<noteq> []" using assms(1) by (simp add: rp_valid_def)
  have "last ?s = x" by (simp add: x(1))
  then have "?s \<noteq> ?c" using x(2) by auto
  then show s: "?s \<noteq> ?c" "butlast ?s = butlast ?c" by (simp_all add: x(1))
  have len: "length ?s = length ?c" using x ne by (cases ?c) auto
  have short: "length q < length ?c" if "q \<in> set (prefixes_of (absolute_parent p))" for q
    using parent_prefix [OF assms(1) that] by auto
  have pre: "with_parents p d (take n ?c) = Some Dir" if "n < length ?c" for n
  proof -
    have "take n ?c \<in> set (prefixes_of (absolute_parent p))"
      using that ne by (auto simp: parent_components [OF assms(1)] prefixes_set butlast_conv_take intro!: exI [of _ n])
    then show ?thesis using assms(3) that by (auto simp: with_parents_def clear_above_def)
  qed
  show "with_parents p d (as_components p) = bt_get d (as_components p)"
    using short by (auto simp: with_parents_def)
  then show "bt_get (staged p sp n d) ?c = bt_get d ?c" using s by (auto simp: staged_get)
  show "clear_above (staged p sp n d) ?c"
    using pre len by (auto simp: clear_above_def staged_get dest!: arg_cong [where f = length])
  show "with_parents p d ?s = None"
    using short [of ?s] len assms(2,4) by (auto simp: with_parents_def no_swap_files_def)
  show "with_parents p d (butlast ?c) = Some Dir"
    using pre [of "length ?c - 1"] ne by (simp add: butlast_conv_take)
qed

lemma file_at_cong: "bt_get d (as_components p) = bt_get d' (as_components p) \<Longrightarrow> file_at p d = file_at p d'"
  "bt_get d (as_components p) = bt_get d' (as_components p) \<Longrightarrow> disk_entry p d = disk_entry p d'"
  by (simp_all add: file_at_def disk_entry_def)

section \<open>The guarded operations\<close>

text \<open>What a guarded write does to a disk, branch by branch.\<close>

definition write_outcome ::
  "('d, 'sv) ext \<Rightarrow> relative_path \<Rightarrow> bytes \<Rightarrow> expected_before \<Rightarrow> disk \<Rightarrow> guarded_write_result res \<Rightarrow> disk \<Rightarrow> bool"
where
  "write_outcome X p b expected d r d' \<longleftrightarrow>
     (if map_option snd (file_at p d) = Some b then
        r = Inr (AlreadyApplied (stat_and_content_fingerprint X (fst (the (file_at p d))) b)) \<and> d' = d
      else if \<not> disk_matches X p expected d then
        (\<exists>sp n. r = Inr (ConflictBeforeSwap sp (observed_value X p expected d)) \<and> is_hard_ignored sp \<and>
           bt_get d' = (with_parents p d)(as_components sp \<mapsto> n))
      else if bt_get d (as_components p) = Some Dir then
        r = Inl Fatal \<and> bt_get d' = with_parents p d
      else
        (\<exists>k t. r = Inr (Written (stat_and_content_fingerprint X
             \<lparr>stat_file_key = k, stat_size = length b, stat_mtime = t\<rparr> b)) \<and>
           bt_get d' = (with_parents p d)(as_components p \<mapsto> RegularFile k t b)))"

lemma observed_value_cong:
  "bt_get d (as_components p) = bt_get d' (as_components p) \<Longrightarrow>
     observed_value X p expected d = observed_value X p expected d'"
  using file_at_cong [of d p d']
  by (auto simp: observed_value_def split: expected_before.splits file_fingerprint.splits option.splits)

lemma disk_matches_cong:
  "bt_get d (as_components p) = bt_get d' (as_components p) \<Longrightarrow>
     disk_matches X p expected d = disk_matches X p expected d'"
  by (metis observed_value_cong observed_value_matches)

lemma swapped_get:
  assumes "bt_wf d" and "as_components sp \<noteq> c" and "with_parents p d (as_components sp) = None"
  shows "bt_get (bt_insert c n (bt_remove (as_components sp) (staged p sp m d))) =
      (with_parents p d)(c \<mapsto> n)"
    and "bt_get (bt_remove (as_components sp) (staged p sp m d)) = with_parents p d"
  using assms
  by (auto simp: fun_eq_iff bt_get_insert bt_get_remove staged_get staged_def make_dirs_wf bt_wf_insert
      bt_get_insert make_dirs_get with_parents_def)

lemma quiet_swap:
  assumes p: "rp_valid p" and "calm w" and wf: "bt_wf (w_disk w)"
    and clear: "clear_above (w_disk w) (as_components p)" and none: "no_swap_files (w_disk w) p"
    and sp: "temp_path_for m p = Inr sp" and ign: "is_hard_ignored sp"
    and new: "map_option snd (file_at p (w_disk w)) \<noteq> Some b"
  shows "wp (write_and_swap X p b expected sp)
    (\<lambda>r w'. write_outcome X p b expected (w_disk w) r (w_disk w')) w"
  unfolding write_and_swap_def wp_bind
proof (intro wp_or_fail quiet_create_parents [OF \<open>calm w\<close> p clear], goal_cases)
  case (1 w1)
  note w1 = 1
  let ?c = "as_components p" and ?d = "w_disk w"
  note st = staged_paths [OF p sp clear none]
  show ?case
    unfolding sum.case sys.case
  proof (intro wp_or_fail quiet_write_file [OF 1(1)], goal_cases)
    case 1
    then show ?case using st w1 by (simp add: make_dirs_get with_parents_def [symmetric])
  next
    case 2
    then show ?case using st w1 by (simp add: make_dirs_get with_parents_def [symmetric])
  next
    case (3 w2 k t)
    then have d2: "w_disk w2 = staged p sp (RegularFile k t b) ?d" using w1 by (simp add: staged_def)
    show ?case
      unfolding sum.case sys.case
    proof (intro quiet_observe [OF 3(1)], goal_cases)
      case 1
      then show ?case using st d2 by simp
    next
      case (2 w3)
      have obs: "observed_value X p expected (w_disk w2) = observed_value X p expected ?d"
        using st d2 by (intro observed_value_cong) simp
      show ?case
      proof (cases "disk_matches X p expected ?d")
        case False
        then show ?thesis
          using obs 2 d2 new ign
          by (auto simp: observed_value_matches write_outcome_def fun_eq_iff staged_get intro!: exI)
      next
        case True
        have m: "observed_matches_expected (observed_value X p expected (w_disk w2)) expected"
          using True obs observed_value_matches [of X p expected ?d] by simp
        have get: "bt_get (w_disk w3) (as_components sp) = Some (RegularFile k t b)"
          "bt_get (w_disk w3) (butlast ?c) = Some Dir" "bt_get (w_disk w3) ?c = bt_get ?d ?c"
          using 2 d2 st append_butlast_last_id [of ?c] by (auto simp: staged_get)
        have m': "(\<not> observed_matches_expected (observed_value X p expected (w_disk w2)) expected) = False"
          using m by simp
        show ?thesis
          unfolding sum.case m' if_False wp_bind
        proof (rule quiet_rename [OF 2(1) get(1,2)], goal_cases)
          case (1 w4)
          show ?case
          proof (cases "bt_get ?d ?c = Some Dir")
            case isdir: True
            then have g4: "bt_get (w_disk w4) (as_components sp) = Some (RegularFile k t b)"
              "w_disk w4 = staged p sp (RegularFile k t b) ?d"
              using 1 2 d2 get by simp_all
            have "wp (remove_file (as_components sp))
              (\<lambda>r w5. r = Inr (Done ()) \<and> write_outcome X p b expected ?d (Inl Fatal) (w_disk w5)) w4"
              using g4 swapped_get(2) [OF wf st(1,5)] new isdir True
              by (intro quiet_remove [OF 1(1) g4(1)]) (simp add: write_outcome_def)
            then show ?thesis
              using isdir get by (simp, elim wp_mono) (auto split: sum.splits)
          next
            case plain: False
            have g4: "bt_get (w_disk w4) = (with_parents p ?d)(?c \<mapsto> RegularFile k t b)"
              using 1 2 d2 get plain swapped_get(1) [OF wf st(1,5)] by simp
            have c4: "clear_above (w_disk w4) ?c"
              using st(4) [of Special] by (auto simp: clear_above_def g4 staged_get split: if_splits)
            have v: "stable_value X p (w_disk w4) = StableRead b p (stat_and_content_fingerprint X
                \<lparr>stat_file_key = k, stat_size = length b, stat_mtime = t\<rparr> b)"
              by (simp add: stable_value_def file_at_def g4)
            have "wp (stable_read_file X p) (\<lambda>r w5. r = Inr (stable_value X p (w_disk w4)) \<and>
                w_disk w5 = w_disk w4) w4"
              using c4 by (intro quiet_stable_read [OF 1(1)]) auto
            then show ?thesis
              using plain get new True
              by (simp, elim wp_mono) (auto simp: v swapped_result_def write_outcome_def g4)
          qed
        qed
      qed
    qed
  qed
qed

lemma stable_value_same:
  "(case stable_value X p d of StableRead cb _ fp \<Rightarrow> if cb = b then Some fp else None | _ \<Rightarrow> None) =
     (if map_option snd (file_at p d) = Some b
      then Some (stat_and_content_fingerprint X (fst (the (file_at p d))) b) else None)"
  by (auto simp: stable_value_def split: option.splits)

lemma quiet_guarded_write:
  assumes p: "rp_valid p" and "calm w" and wf: "bt_wf (w_disk w)"
    and clear: "clear_above (w_disk w) (as_components p)" and none: "no_swap_files (w_disk w) p"
  shows "wp (guarded_write X p b expected)
    (\<lambda>r w'. write_outcome X p b expected (w_disk w) r (w_disk w')) w"
  unfolding guarded_write_def wp_bind
proof (rule quiet_stable_read [OF \<open>calm w\<close> clear], goal_cases)
  case (1 w1)
  obtain sp where sp: "temp_path_for (w_random w1 (w_calls w1)) p = Inr sp" "is_hard_ignored sp"
    using temp_path_for_swap [OF p] by blast
  show ?case
  proof (cases "map_option snd (file_at p (w_disk w)) = Some b")
    case True
    then show ?thesis using 1 by (simp add: stable_value_same write_outcome_def)
  next
    case False
    then show ?thesis
      using quiet_swap [OF p 1(1) _ _ _ sp, where b = b and expected = expected and X = X] 1 assms
      by (simp add: stable_value_same sp)
  qed
qed

text \<open>The guarded read and delete, branch by branch.\<close>

definition read_outcome ::
  "('d, 'sv) ext \<Rightarrow> relative_path \<Rightarrow> file_fingerprint \<Rightarrow> disk \<Rightarrow> guarded_read_result" where
  "read_outcome X p expected d =
     (case file_at p d of
        None \<Rightarrow> ConflictBeforeRead (disk_entry p d)
      | Some (s, b) \<Rightarrow>
          if s \<noteq> fp_stat expected then ConflictBeforeRead (disk_entry p d)
          else if disk_matches X p (PresentWithFingerprint expected) d
            then ReadOk b (stat_and_content_fingerprint X s b)
          else ConflictBeforeRead
            (Some (entry_for_file_fingerprint p (stat_and_content_fingerprint X s b))))"

lemma quiet_guarded_read:
  assumes "calm w" and clear: "clear_above (w_disk w) (as_components p)"
  shows "wp (guarded_read X p expected)
    (\<lambda>r w'. r = Inr (read_outcome X p expected (w_disk w)) \<and> w_disk w' = w_disk w) w"
proof (cases "file_at p (w_disk w)")
  case None
  then show ?thesis
    unfolding guarded_read_def wp_bind
    using file_at_None_entry [OF None]
    by (intro quiet_stat_path [OF assms]) (auto simp: read_outcome_def split: option.splits)
next
  case (Some sb)
  obtain s b where sb: "file_at p (w_disk w) = Some (s, b)" using Some by (cases sb) auto
  have rd: "disk_read (as_components p) (w_disk w) = Done b" using file_at_read [OF sb] .
  have m: "fingerprint_matches_observed (stat_and_content_fingerprint X s b) expected \<longleftrightarrow>
      disk_matches X p (PresentWithFingerprint expected) (w_disk w)"
    by (cases expected) (auto simp: fingerprint_matches_observed_def stat_and_content_fingerprint_def
        disk_matches_def sb)
  show ?thesis
    unfolding guarded_read_def wp_bind read_file_def
    using clear m
    by (auto intro!: quiet_stat_path quiet_read_call assms(1) simp: file_at_entry [OF sb] rd
        entry_file_stat_def entry_stat_matches_fingerprint_def read_outcome_def sb Let_def)
qed

definition delete_outcome ::
  "('d, 'sv) ext \<Rightarrow> relative_path \<Rightarrow> expected_before \<Rightarrow> disk \<Rightarrow> guarded_delete_result res \<Rightarrow> disk \<Rightarrow> bool"
where
  "delete_outcome X p expected d r d' \<longleftrightarrow>
     (if \<not> disk_matches X p expected d then
        r = Inr (DeleteConflict (observed_value X p expected d)) \<and> d' = d
      else if disk_entry p d = None then r = Inr AlreadyDeleted \<and> d' = d
      else if bt_get d (as_components p) = Some Dir then r = Inl Fatal \<and> d' = d
      else r = Inr Deleted \<and> d' = bt_remove (as_components p) d)"

lemma observed_None_iff: "observed_value X p expected d = None \<longleftrightarrow> disk_entry p d = None"
  by (auto simp: observed_value_def disk_entry_def file_at_def
      split: expected_before.splits file_fingerprint.splits option.splits node.splits)

lemma quiet_guarded_delete:
  assumes q: "calm w" and wf: "bt_wf (w_disk w)" and clear: "clear_above (w_disk w) (as_components p)"
  shows "wp (guarded_delete X p expected)
    (\<lambda>r w'. delete_outcome X p expected (w_disk w) r (w_disk w')) w"
  unfolding guarded_delete_def wp_bind
proof (rule quiet_observe [OF q clear], goal_cases)
  case (1 w1)
  let ?c = "as_components p" and ?d = "w_disk w"
  show ?case
  proof (cases "disk_matches X p expected ?d \<and> disk_entry p ?d \<noteq> None")
    case False
    then show ?thesis
      using 1 by (auto simp: observed_value_matches observed_None_iff delete_outcome_def)
  next
    case True
    then obtain n where n: "bt_get ?d ?c = Some n" "n = Dir \<or> (\<exists>k t b. n = RegularFile k t b)"
      by (auto simp: disk_entry_def split: option.splits node.splits)
    obtain e where ne: "disk_entry p ?d = Some e" using True by blast
    have rm: "disk_remove_file ?c (w_disk w1) = (if n = Dir then (IoFault, ?d) else (Done (), bt_remove ?c ?d))"
      using n 1 by (auto simp: disk_remove_file_def)
    have gone: "bt_get (bt_remove ?c ?d) ?c = None" using wf by (simp add: bt_get_remove)
    then have none: "disk_entry p (bt_remove ?c ?d) = None" by (simp add: disk_entry_def)
    have c2: "clear_above (bt_remove ?c ?d) ?c"
      using clear wf by (auto simp: clear_above_def bt_get_remove)
    show ?thesis
    proof (cases "n = Dir")
      case isdir: True
      then have "wp (remove_file ?c) (\<lambda>r w2. r = Inr IoFault \<and> w_disk w2 = ?d) w1"
        unfolding remove_file_def using rm by (intro quiet_write_call [OF 1(1)]) auto
      then show ?thesis
        using True isdir n
        by (simp add: observed_value_matches observed_None_iff ne, elim wp_mono)
          (auto simp: delete_outcome_def)
    next
      case plain: False
      then have "wp (remove_file ?c) (\<lambda>r w2. r = Inr (Done ()) \<and> calm w2 \<and> w_disk w2 = bt_remove ?c ?d) w1"
        unfolding remove_file_def using rm by (intro quiet_write_call [OF 1(1)]) auto
      then show ?thesis
        using True plain n
        by (simp add: observed_value_matches observed_None_iff ne, elim wp_mono)
          (auto simp: delete_outcome_def none c2 intro!: quiet_stat_path)
    qed
  qed
qed

section \<open>A concrete world\<close>

definition demo_world :: "disk \<Rightarrow> world" where
  "demo_world d =
     \<lparr>w_disk = d, w_calls = 0, w_interfere = \<lambda>_ d. d, w_faults = \<lambda>_. False,
      w_fresh_key = \<lambda>n. file_key_new 1 (100 + n), w_clock = \<lambda>n. 5000 + int n, w_random = \<lambda>_. 255,
      w_dir_order = \<lambda>_ ns. ns, w_dir_gone = \<lambda>_. False, w_trace = []\<rparr>"

definition demo_disk :: disk where
  "demo_disk = [([], Dir), ([''a''], RegularFile (file_key_new 1 7) 3 ''old'')]"

lemma demo_quiet: "calm (demo_world d)" "w_disk (demo_world d) = d"
  by (simp_all add: calm_def demo_world_def)

lemma demo_disk_ok:
  "rp_valid (RelativePath [''a''])" "bt_wf demo_disk" "clear_above demo_disk [''a'']"
  "no_swap_files demo_disk (RelativePath [''a''])"
proof -
  show v: "rp_valid (RelativePath [''a''])" by (simp add: rp_valid_def component_valid_def)
  show "bt_wf demo_disk" "clear_above demo_disk [''a'']"
    by (simp_all add: demo_disk_def bt_wf_def clear_above_def bt_get_def)
  show "no_swap_files demo_disk (RelativePath [''a''])"
    unfolding no_swap_files_def
  proof (intro allI impI)
    fix n sp
    assume "temp_path_for n (RelativePath [''a'']) = Inr sp"
    from temp_components [OF v this] obtain c where "as_components sp = [c]" "c \<noteq> ''a''" by auto
    then show "bt_get demo_disk (as_components sp) = None" by (simp add: demo_disk_def bt_get_def)
  qed
qed

section \<open>Properties\<close>

text \<open>(C11) Whatever other processes do and whichever calls fail, the only changes a guarded write
  makes are creating the parents, writing and possibly removing its own hard-ignored swap file
  beside the target, and renaming that file onto the target; and unless another process acts
  between the last read and the rename (calls \<open>n - 1\<close> and \<open>n\<close>), the file the rename replaces is
  exactly what the caller expected.\<close>

theorem guarded_write_swaps_expected:
  assumes "rp_valid p" and "guarded_write X p b expected w = (r, w')"
  shows "\<exists>sp new. is_hard_ignored sp \<and> rp_parent sp = rp_parent p \<and> w_trace w' = w_trace w @ new \<and>
    list_all (write_event_ok X w p (as_components sp) b expected) new"
  using wpD [OF guarded_write_trace [OF assms(1), of X b expected w] assms(2)]
  by (auto simp: trace_ok_def)

theorem guarded_write_swaps_expected_witness:
  "rp_valid (RelativePath [''a'']) \<and>
   (\<exists>sp new. is_hard_ignored sp \<and> rp_parent sp = None \<and>
      w_trace (snd (guarded_write (demo_ext (\<lambda>_. [])) (RelativePath [''a'']) ''new'' Missing
        (demo_world demo_disk))) = new \<and>
      list_all (write_event_ok (demo_ext (\<lambda>_. [])) (demo_world demo_disk) (RelativePath [''a''])
        (as_components sp) ''new'' Missing) new)"
  using guarded_write_swaps_expected [OF demo_disk_ok(1) surjective_pairing, of "demo_ext (\<lambda>_. [])"
      "''new''" Missing "demo_world demo_disk"] demo_disk_ok(1)
  by (simp add: demo_world_def rp_parent_def)

text \<open>(C12) On a disk no other process touches and without I/O errors, the guarded write is a
  compare-and-swap of one path (already there, conflict before the swap, or written, with the
  fingerprint of the new file), the guarded read returns the bytes exactly when the file matches
  the fingerprint, and the guarded delete removes the file exactly when it is as expected.\<close>

theorem local_operations_exact:
  assumes "rp_valid p" and "calm w" and "bt_wf (w_disk w)" and "clear_above (w_disk w) (as_components p)"
    and "no_swap_files (w_disk w) p"
  shows "write_outcome X p b expected (w_disk w)
      (fst (guarded_write X p b expected w)) (w_disk (snd (guarded_write X p b expected w))) \<and>
    fst (guarded_read X p fp w) = Inr (read_outcome X p fp (w_disk w)) \<and>
      w_disk (snd (guarded_read X p fp w)) = w_disk w \<and>
    delete_outcome X p expected (w_disk w)
      (fst (guarded_delete X p expected w)) (w_disk (snd (guarded_delete X p expected w)))"
  using quiet_guarded_write [OF assms, of X b expected] quiet_guarded_read [OF assms(2,4), of X fp]
    quiet_guarded_delete [OF assms(2-4), of X expected]
  by (simp_all add: wp_def split: prod.splits)

theorem local_operations_exact_witness:
  "rp_valid (RelativePath [''a'']) \<and> calm (demo_world demo_disk) \<and> bt_wf demo_disk \<and>
   clear_above demo_disk [''a''] \<and> no_swap_files demo_disk (RelativePath [''a'']) \<and>
   (\<exists>fp. fst (guarded_write (demo_ext (\<lambda>_. [])) (RelativePath [''a'']) ''new'' Anything
      (demo_world demo_disk)) = Inr (Written fp))"
proof -
  have "write_outcome (demo_ext (\<lambda>_. [])) (RelativePath [''a'']) ''new'' Anything demo_disk
      (fst (guarded_write (demo_ext (\<lambda>_. [])) (RelativePath [''a'']) ''new'' Anything (demo_world demo_disk)))
      (w_disk (snd (guarded_write (demo_ext (\<lambda>_. [])) (RelativePath [''a'']) ''new'' Anything
        (demo_world demo_disk))))"
    using local_operations_exact [of "RelativePath [''a'']" "demo_world demo_disk" "demo_ext (\<lambda>_. [])" "''new''" Anything]
      demo_disk_ok demo_quiet
    by simp
  then have "\<exists>fp. fst (guarded_write (demo_ext (\<lambda>_. [])) (RelativePath [''a'']) ''new'' Anything
      (demo_world demo_disk)) = Inr (Written fp)"
    by (auto simp: write_outcome_def disk_matches_def demo_disk_def file_at_def bt_get_def)
  then show ?thesis using demo_disk_ok demo_quiet by simp
qed

end
