(* ===== verification/Local_Scan.thy ===== *)
theory Local_Scan
  imports Local_Quiet
begin

text \<open>
  The scan of \<open>fs/fio/local.rs\<close> on a disk nobody else touches: it returns, and its tree is exactly
  the files and directories in scope that no ignore rule hides, directly or through a directory
  above them. The scan may not return while other processes keep adding directories; that it does
  here is part of the statement.
\<close>

section \<open>Specification\<close>

text \<open>A path the scan would report if it got there, and the paths it gets to: \<open>base\<close> is the
  scope's directory, the root being the empty path.\<close>

definition shown :: "(string \<Rightarrow> bool \<Rightarrow> bool) \<Rightarrow> disk \<Rightarrow> string list \<Rightarrow> bool" where
  "shown m d q \<longleftrightarrow>
     (case bt_get d q of
        Some (RegularFile k t b) \<Rightarrow> \<not> is_ignored m (RelativePath q) False
      | Some Dir \<Rightarrow> \<not> is_ignored m (RelativePath q) True
      | _ \<Rightarrow> False)"

definition visible :: "(string \<Rightarrow> bool \<Rightarrow> bool) \<Rightarrow> disk \<Rightarrow> string list \<Rightarrow> string list \<Rightarrow> bool" where
  "visible m d base q \<longleftrightarrow>
     starts_with q base \<and> q \<noteq> [] \<and> shown m d q \<and>
     list_all (\<lambda>n. shown m d (take n q) \<and> bt_get d (take n q) = Some Dir)
       [max 1 (length base)..<length q]"

definition entry_of :: "disk \<Rightarrow> string list \<Rightarrow> tree_entry" where
  "entry_of d q = the (disk_entry (RelativePath q) d)"

fun scan_view :: "(string \<Rightarrow> bool \<Rightarrow> bool) \<Rightarrow> disk \<Rightarrow> scan_scope \<Rightarrow> tree_entry set" where
  "scan_view m d Full = {entry_of d q |q. visible m d [] q}"
| "scan_view m d (Subtree p) = {entry_of d q |q. visible m d (as_components p) q}"
| "scan_view m d (SingleFile p) = {entry_of d q |q. q = as_components p \<and> shown m d q}"

text \<open>A disk as an operating system keeps it: the root is a directory, only directories have
  something below them, and here all names are UTF-8 components.\<close>

definition disk_ok :: "disk \<Rightarrow> bool" where
  "disk_ok d \<longleftrightarrow>
     bt_wf d \<and> bt_get d [] = Some Dir \<and>
     list_all (\<lambda>q. list_all (\<lambda>c. component_valid c \<and> utf8_valid c) q \<and>
       (q = [] \<or> bt_get d (butlast q) = Some Dir)) (bt_keys d)"

text \<open>The rules a scan of the disk uses.\<close>

definition ignore_rules_of :: "gitignore \<Rightarrow> disk \<Rightarrow> (string \<Rightarrow> bool \<Rightarrow> bool) res" where
  "ignore_rules_of G d =
     (let (failed, built) = (case disk_read [ignore_file_name] d of Done b \<Rightarrow> G b | _ \<Rightarrow> (True, snd (G [])))
      in if failed \<and> resolve_node (bt_get d [ignore_file_name]) \<noteq> None then Inl Fatal
         else ok_or built Fatal)"

fun scope_base :: "scan_scope \<Rightarrow> string list" where
  "scope_base Full = []"
| "scope_base (Subtree p) = as_components p"
| "scope_base (SingleFile p) = as_components p"

fun scope_ok :: "scan_scope \<Rightarrow> bool" where
  "scope_ok Full = True"
| "scope_ok (Subtree p) = rp_valid p"
| "scope_ok (SingleFile p) = rp_valid p"

section \<open>Disks\<close>

lemma bt_get_keys: "bt_get d q = Some n \<Longrightarrow> q \<in> set (bt_keys d)"
  by (auto simp: bt_get_def bt_keys_def dest!: map_of_SomeD intro: rev_image_eqI)

lemma disk_ok_key:
  assumes "disk_ok d" and "bt_get d q = Some n"
  shows "list_all component_valid q" "list_all utf8_valid q" "q \<noteq> [] \<Longrightarrow> bt_get d (butlast q) = Some Dir"
  using assms(1) bt_get_keys [OF assms(2)] by (auto simp: disk_ok_def list_all_iff)

lemma disk_ok_above:
  assumes "disk_ok d" and "bt_get d (q @ r) = Some n" and "r \<noteq> []"
  shows "bt_get d q = Some Dir"
  using assms(2,3)
proof (induction r arbitrary: n rule: rev_induct)
  case (snoc x r)
  have "bt_get d (q @ r) = Some Dir"
    using disk_ok_key(3) [OF assms(1) snoc.prems(1)] by (simp add: butlast_append)
  then show ?case using snoc.IH by (cases r) auto
qed simp

lemma disk_ok_clear:
  assumes "disk_ok d" and "bt_get d q = Some n"
  shows "clear_above d q"
  using assms(2) disk_ok_above [OF assms(1), of "take i q" "drop i q" n for i]
  by (auto simp: clear_above_def)

lemma dir_names_set:
  assumes "bt_wf d"
  shows "distinct (dir_names q d)" "x \<in> set (dir_names q d) \<longleftrightarrow> bt_get d (q @ [x]) \<noteq> None"
proof -
  have keys: "distinct (bt_keys d)" using assms by (simp add: bt_wf_distinct bt_keys_def)
  have "inj_on last (set (filter (\<lambda>k. k \<noteq> [] \<and> butlast k = q) (bt_keys d)))"
    by (rule inj_onI) (auto, metis append_butlast_last_id)
  then show "distinct (dir_names q d)" using keys by (simp add: dir_names_def distinct_map)
  have "set (bt_keys d) = dom (bt_get d)" using assms by (rule btree.set_keys)
  then show "x \<in> set (dir_names q d) \<longleftrightarrow> bt_get d (q @ [x]) \<noteq> None"
    by (auto simp: dir_names_def image_iff domIff dest!: spec [of _ "q @ [x]"])
qed

lemma shown_entry:
  assumes "shown m d q"
  shows "disk_entry (RelativePath q) d = Some (entry_of d q)" "te_path (entry_of d q) = RelativePath q"
    "is_directory (entry_of d q) \<longleftrightarrow> bt_get d q = Some Dir"
    "bt_get d q \<noteq> None"
  using assms
  by (auto simp: shown_def entry_of_def disk_entry_def is_directory_def split: option.splits node.splits)

lemma not_shown:
  "disk_entry (RelativePath q) d = Some e \<Longrightarrow>
     is_ignored m (RelativePath q) (is_directory e) \<longleftrightarrow> \<not> shown m d q"
  by (auto simp: shown_def disk_entry_def is_directory_def split: option.splits node.splits)

lemma entry_None_not_shown: "disk_entry (RelativePath q) d = None \<Longrightarrow> \<not> shown m d q"
  by (auto simp: shown_def disk_entry_def split: option.splits node.splits)

lemma hard_ignored_not_shown: "is_hard_ignored (RelativePath q) \<Longrightarrow> \<not> shown m d q"
  by (auto simp: shown_def is_ignored_def split: option.splits node.splits)

lemma visible_snoc:
  assumes "length base \<le> length q"
  shows "visible m d base (q @ [x]) \<longleftrightarrow>
    starts_with q base \<and> shown m d (q @ [x]) \<and> (q = [] \<or> visible m d base q \<and> bt_get d q = Some Dir)"
proof -
  have s: "starts_with (q @ [x]) base \<longleftrightarrow> starts_with q base"
    using assms by (simp add: starts_with_def)
  have "[max 1 (length base)..<Suc (length q)] = [max 1 (length base)..<length q] @ [length q]" if "q \<noteq> []"
    using that assms by (simp add: Suc_leI)
  moreover have "list_all (\<lambda>n. shown m d (take n (q @ [x])) \<and> bt_get d (take n (q @ [x])) = Some Dir)
      [max 1 (length base)..<length q] \<longleftrightarrow>
    list_all (\<lambda>n. shown m d (take n q) \<and> bt_get d (take n q) = Some Dir) [max 1 (length base)..<length q]"
    by (auto simp: list_all_iff)
  ultimately show ?thesis
    using s by (cases "q = []") (auto simp: visible_def)
qed

lemma visible_shown: "visible m d base q \<Longrightarrow> shown m d q \<and> q \<noteq> [] \<and> starts_with q base"
  by (simp add: visible_def)

lemma visible_base_shown:
  assumes "visible m d base q" and "base \<noteq> []"
  shows "shown m d base"
proof (cases "q = base")
  case False
  with assms have "length base < length q" "take (length base) q = base"
    by (auto simp: visible_def starts_with_iff)
  with assms show ?thesis by (auto simp: visible_def list_all_iff Suc_le_eq dest!: bspec [of _ _ "length base"])
qed (use assms in \<open>simp add: visible_def\<close>)

section \<open>One directory\<close>

definition visit ::
  "(string \<Rightarrow> bool \<Rightarrow> bool) \<Rightarrow> disk \<Rightarrow> string list \<Rightarrow> string \<Rightarrow> walk \<Rightarrow> walk" where
  "visit m d q x s =
     (if shown m d (q @ [x]) then
        (if bt_get d (q @ [x]) = Some Dir then Some (RelativePath (q @ [x])) # fst s else fst s,
         snd s @ [entry_of d (q @ [x])])
      else s)"

lemma scan_dir_unfold:
  "scan_dir m dir names s =
     bind_io (next_entry names) (\<lambda>r.
       case r of
         IoFault \<Rightarrow> fail_io Fatal
       | Absent \<Rightarrow> return_io s
       | Done (None, _) \<Rightarrow> return_io s
       | Done (Some name, rest) \<Rightarrow>
           bind_io (lift_io (child_path dir name)) (\<lambda>path.
             if is_hard_ignored path then scan_dir m dir rest s
             else
               bind_io (stat_path path) (\<lambda>entry.
                 case entry of
                   None \<Rightarrow> scan_dir m dir rest s
                 | Some e \<Rightarrow>
                     if is_ignored m path (is_directory e) then scan_dir m dir rest s
                     else scan_dir m dir rest
                       (if is_directory e then Some path # fst s else fst s, snd s @ [e]))))"
  by (rule ext, subst scan_dir.simps)
    (simp add: bind_io_def return_io_def fail_io_def split: prod.splits sum.splits sys.splits option.splits)

lemma quiet_next_entry:
  assumes "calm w"
    and "\<And>w'. calm w' \<Longrightarrow> w_disk w' = w_disk w \<Longrightarrow>
      Q (Inr (Done (case names of [] \<Rightarrow> (None, []) | x # xs \<Rightarrow> (Some x, xs)))) w'"
  shows "wp (next_entry names) Q w"
  using assms by (simp add: wp_def next_entry_def read_call_def Let_def interfered_def calm_def)

lemma quiet_read_dir:
  assumes "calm w" and "disk_read_dir q (w_disk w) = Done ns"
    and "\<And>w' ns'. calm w' \<Longrightarrow> w_disk w' = w_disk w \<Longrightarrow> mset ns' = mset ns \<Longrightarrow> Q (Inr (Done ns')) w'"
  shows "wp (read_dir q) Q w"
  using assms by (simp add: wp_def read_dir_def read_call_def Let_def interfered_def calm_def)

lemma child_path_ok:
  assumes "disk_ok d" and "bt_get d (dir_components dir @ [x]) = Some n"
  shows "child_path dir x = Inr (RelativePath (dir_components dir @ [x]))"
  using disk_ok_key(1,2) [OF assms]
  by (auto simp: child_path_def relative_path_new_ok rp_valid_def dir_components_def split: option.splits)

lemma quiet_scan_dir:
  assumes ok: "disk_ok d" and "calm w" and "w_disk w = d"
    and "\<forall>x\<in>set names. bt_get d (dir_components dir @ [x]) \<noteq> None"
  shows "wp (scan_dir m dir names s)
    (\<lambda>r w'. r = Inr (fold (visit m d (dir_components dir)) names s) \<and> calm w' \<and> w_disk w' = d) w"
  using assms(2-)
proof (induction names arbitrary: s w)
  case Nil
  then show ?case by (subst scan_dir_unfold) (auto intro!: quiet_next_entry)
next
  case (Cons x xs)
  let ?q = "dir_components dir @ [x]"
  obtain n where n: "bt_get d ?q = Some n" using Cons.prems(3) by auto
  define v where "v = visit m d (dir_components dir) x s"
  define P :: "walk res \<Rightarrow> world \<Rightarrow> bool" where "P = (\<lambda>r w'. r = Inr (fold (visit m d (dir_components dir)) (x # xs) s) \<and>
    calm w' \<and> w_disk w' = d)"
  have IH: "wp (scan_dir m dir xs s') P w1" if "calm w1" "w_disk w1 = d" "s' = v" for w1 s'
    using Cons.IH [OF that(1,2), of s'] Cons.prems(3) that(3) by (simp add: P_def v_def)
  have hard: "s = v" if "is_hard_ignored (RelativePath ?q)"
    using hard_ignored_not_shown [OF that] by (simp add: visit_def v_def)
  have none: "s = v" if "disk_entry (RelativePath ?q) d = None"
    using entry_None_not_shown [OF that] by (simp add: visit_def v_def)
  have some: "(if is_ignored m (RelativePath ?q) (is_directory e) then s
       else (if is_directory e then Some (RelativePath ?q) # fst s else fst s, snd s @ [e])) = v"
    if e: "disk_entry (RelativePath ?q) d = Some e" for e
    using not_shown [OF e, of m] shown_entry [of m d ?q] e by (auto simp: visit_def v_def)
  show ?case
    unfolding scan_dir_unfold [of m dir "x # xs" s] wp_bind P_def [symmetric]
  proof (rule quiet_next_entry [OF Cons.prems(1)], goal_cases)
    case (1 w1)
    then have w1: "w_disk w1 = d" using Cons.prems(2) by simp
    have stat: "wp (stat_path (RelativePath ?q))
        (\<lambda>r w2. r = Inr (disk_entry (RelativePath ?q) d) \<and> calm w2 \<and> w_disk w2 = d) w1"
      using disk_ok_clear [OF ok n] w1 by (intro quiet_stat_path [OF 1(1)]) auto
    have visit: "wp (case e of
          None \<Rightarrow> scan_dir m dir xs s
        | Some e \<Rightarrow> if is_ignored m (RelativePath ?q) (is_directory e) then scan_dir m dir xs s
            else scan_dir m dir xs
              (if is_directory e then Some (RelativePath ?q) # fst s else fst s, snd s @ [e])) P w2"
      if "e = disk_entry (RelativePath ?q) d" "calm w2" "w_disk w2 = d" for e w2
      using IH [OF that(2,3)] none some that(1)
      by (cases "disk_entry (RelativePath ?q) d") (auto split: if_splits)
    show ?case
      using IH [OF 1(1) w1] hard
      by (auto simp: child_path_ok [OF ok n] intro!: wp_mono [OF stat] visit)
  qed
qed

lemma fold_visit:
  "fold (visit m d q) names s =
     (map (\<lambda>x. Some (RelativePath (q @ [x])))
        (rev (filter (\<lambda>x. shown m d (q @ [x]) \<and> bt_get d (q @ [x]) = Some Dir) names)) @ fst s,
      snd s @ map (\<lambda>x. entry_of d (q @ [x])) (filter (\<lambda>x. shown m d (q @ [x])) names))"
  by (induction names arbitrary: s) (auto simp: visit_def)

section \<open>The walk\<close>

text \<open>What holds between two directories: \<open>D\<close> are the directories already read.\<close>

definition walk_inv ::
  "(string \<Rightarrow> bool \<Rightarrow> bool) \<Rightarrow> disk \<Rightarrow> string list \<Rightarrow> relative_path option list \<Rightarrow> tree_entry list \<Rightarrow>
     string list set \<Rightarrow> bool" where
  "walk_inv m d base pending entries D \<longleftrightarrow>
     distinct (map dir_components pending) \<and> set (map dir_components pending) \<inter> D = {} \<and>
     distinct (map te_path entries) \<and>
     set entries = {entry_of d q |q. visible m d base q \<and> (q = base \<or> butlast q \<in> D)} \<and>
     set (map dir_components pending) \<union> D =
       {q. visible m d base q \<and> bt_get d q = Some Dir \<and> (q = base \<or> butlast q \<in> D)} \<union>
       (if base = [] then {[]} else {})"

lemma walk_inv_dir:
  assumes "walk_inv m d base pending entries D" and "disk_ok d"
    and "q \<in> set (map dir_components pending) \<union> D"
  shows "bt_get d q = Some Dir \<and> starts_with q base \<and> (q = [] \<or> visible m d base q)"
  using assms visible_shown [of m d base q]
  by (auto simp: walk_inv_def disk_ok_def starts_with_def split: if_splits)

text \<open>At the end everything visible has been reached.\<close>

lemma walk_inv_done:
  assumes inv: "walk_inv m d base [] entries D" and "disk_ok d"
  shows "set entries = {entry_of d q |q. visible m d base q}" "distinct (map te_path entries)"
proof -
  have D: "D = {q. visible m d base q \<and> bt_get d q = Some Dir \<and> (q = base \<or> butlast q \<in> D)} \<union>
      (if base = [] then {[]} else {})"
    using inv by (simp add: walk_inv_def)
  have "q = base \<or> butlast q \<in> D" if "visible m d base q" for q
    using that
  proof (induction q rule: rev_induct)
    case Nil
    then show ?case by (simp add: visible_def)
  next
    case (snoc x q)
    show ?case
    proof (cases "q @ [x] = base")
      case False
      then have len: "length base \<le> length q"
        using visible_shown [OF snoc.prems] by (auto simp: starts_with_iff) (metis append_is_Nil_conv butlast_append butlast_snoc length_append le_add1)
      have v: "starts_with q base" "q = [] \<or> visible m d base q \<and> bt_get d q = Some Dir"
        using snoc.prems visible_snoc [OF len] by auto
      have "q \<in> D"
      proof (cases "q = []")
        case True
        then show ?thesis using v D by (auto simp: starts_with_def)
      next
        case False
        then show ?thesis using v snoc.IH by (subst D) auto
      qed
      then show ?thesis by simp
    qed simp
  qed
  then show "set entries = {entry_of d q |q. visible m d base q}"
    using inv by (auto simp: walk_inv_def)
  show "distinct (map te_path entries)" using inv by (simp add: walk_inv_def)
qed

lemma walk_inv_step:
  assumes inv: "walk_inv m d base (dir # pending) entries D" and ok: "disk_ok d"
    and q: "q = dir_components dir" and names: "mset names = mset (dir_names q d)"
  shows "walk_inv m d base (fst (fold (visit m d q) names (pending, entries)))
      (snd (fold (visit m d q) names (pending, entries))) (insert q D)"
proof -
  have wf: "bt_wf d" using ok by (simp add: disk_ok_def)
  have nd: "distinct names" using names dir_names_set(1) [OF wf] by (metis mset_eq_imp_distinct_iff)
  have nset: "x \<in> set names \<longleftrightarrow> bt_get d (q @ [x]) \<noteq> None" for x
    using dir_names_set(2) [OF wf] mset_eq_setD [OF names] by simp
  have qdir: "bt_get d q = Some Dir" "starts_with q base" "q = [] \<or> visible m d base q"
    using walk_inv_dir [OF inv ok, of q] by (auto simp: q)
  have len: "length base \<le> length q" using qdir(2) by (auto simp: starts_with_iff)
  have vis: "visible m d base (q @ [x]) \<longleftrightarrow> shown m d (q @ [x])" for x
    using visible_snoc [OF len] qdir by simp
  have neq: "q @ [x] \<noteq> base" for x using len by auto
  have qD: "q \<notin> D" "q \<notin> set (map dir_components pending)" using inv by (auto simp: walk_inv_def q)
  have below: "visible m d base p \<and> (p = base \<or> butlast p \<in> insert q D) \<longleftrightarrow>
      (\<exists>x\<in>set names. p = q @ [x] \<and> shown m d p) \<or> visible m d base p \<and> (p = base \<or> butlast p \<in> D)" for p
    using vis nset visible_shown [of m d base p] shown_entry(4) [of m d p]
    by (cases p rule: rev_cases) auto
  let ?dirs = "filter (\<lambda>x. shown m d (q @ [x]) \<and> bt_get d (q @ [x]) = Some Dir) names"
  let ?kids = "filter (\<lambda>x. shown m d (q @ [x])) names"
  let ?pend = "map (\<lambda>x. Some (RelativePath (q @ [x]))) (rev ?dirs) @ pending"
  let ?ents = "entries @ map (\<lambda>x. entry_of d (q @ [x])) ?kids"
  have comps: "map dir_components ?pend = map (\<lambda>x. q @ [x]) (rev ?dirs) @ map dir_components pending"
    by (simp add: dir_components_def)
  have pdist: "distinct (map dir_components pending)" and pdisj: "set (map dir_components pending) \<inter> D = {}"
    and edist: "distinct (map te_path entries)"
    and eset: "set entries = {entry_of d p |p. visible m d base p \<and> (p = base \<or> butlast p \<in> D)}"
    using inv by (auto simp: walk_inv_def)
  have all: "insert q (set (map dir_components pending) \<union> D) =
      {q. visible m d base q \<and> bt_get d q = Some Dir \<and> (q = base \<or> butlast q \<in> D)} \<union>
      (if base = [] then {[]} else {})"
    using inv by (simp add: walk_inv_def q)
  have new: "q @ [x] \<notin> insert q (set (map dir_components pending) \<union> D)" for x
    unfolding all using neq [of x] qD(1) by auto
  have ents: "set ?ents = {entry_of d p |p. visible m d base p \<and> (p = base \<or> butlast p \<in> insert q D)}"
  proof -
    have "set ?ents = {entry_of d p |p. \<exists>x\<in>set names. p = q @ [x] \<and> shown m d p} \<union> set entries"
      by auto
    then show ?thesis unfolding below eset by blast
  qed
  have paths: "te_path ` set entries =
      {RelativePath p |p. visible m d base p \<and> (p = base \<or> butlast p \<in> D)}"
  proof -
    have "te_path (entry_of d p) = RelativePath p" if "visible m d base p" for p
      using shown_entry(2) visible_shown [OF that] by blast
    then show ?thesis unfolding eset image_def by auto
  qed
  have "distinct (map te_path ?ents)"
  proof -
    have "map te_path (map (\<lambda>x. entry_of d (q @ [x])) ?kids) = map (\<lambda>x. RelativePath (q @ [x])) ?kids"
      using shown_entry(2) [of m d] by simp
    moreover have "distinct (map (\<lambda>x. RelativePath (q @ [x])) ?kids)"
      using nd by (simp add: distinct_map inj_on_def)
    moreover have "RelativePath (q @ [x]) \<notin> te_path ` set entries" for x
      unfolding paths using neq [of x] qD(1) by auto
    ultimately show ?thesis using edist by (auto simp del: map_map) (metis imageI)
  qed
  moreover have "distinct (map dir_components ?pend)"
    unfolding comps using pdist nd new by (auto simp: distinct_map [of "\<lambda>x. q @ [x]"] inj_on_def)
  moreover have "set (map dir_components ?pend) \<inter> insert q D = {}"
    unfolding comps using pdisj new qD by auto
  moreover have "set (map dir_components ?pend) \<union> insert q D =
      {p. visible m d base p \<and> bt_get d p = Some Dir \<and> (p = base \<or> butlast p \<in> insert q D)} \<union>
      (if base = [] then {[]} else {})"
  proof -
    have pend: "set (map dir_components ?pend) \<union> insert q D =
        (\<lambda>x. q @ [x]) ` set ?dirs \<union> insert q (set (map dir_components pending) \<union> D)"
      unfolding comps by auto
    have kids: "(\<lambda>x. q @ [x]) ` set ?dirs =
        {p. (\<exists>x\<in>set names. p = q @ [x] \<and> shown m d p) \<and> bt_get d p = Some Dir}"
      by auto
    have iff: "visible m d base p \<and> bt_get d p = Some Dir \<and> (p = base \<or> butlast p \<in> insert q D) \<longleftrightarrow>
        (\<exists>x\<in>set names. p = q @ [x] \<and> shown m d p) \<and> bt_get d p = Some Dir \<or>
        visible m d base p \<and> bt_get d p = Some Dir \<and> (p = base \<or> butlast p \<in> D)" for p
      using below [of p] by blast
    show ?thesis unfolding pend kids all iff by (simp only: Collect_disj_eq Un_assoc)
  qed
  ultimately have "walk_inv m d base ?pend ?ents (insert q D)"
    unfolding walk_inv_def using ents by (intro conjI)
  then show ?thesis by (simp only: fold_visit fst_conv snd_conv)
qed

text \<open>The walk returns: every round reads a directory that had not been read.\<close>

lemma quiet_walk:
  assumes ok: "disk_ok d"
  shows "walk_inv m d base pending entries D \<Longrightarrow> calm w \<Longrightarrow> w_disk w = d \<Longrightarrow>
    \<exists>es w'. scan_walk m pending entries w = Some (Inr es, w') \<and> calm w' \<and> w_disk w' = d \<and>
      distinct (map te_path es) \<and> set es = {entry_of d q |q. visible m d base q}"
proof (induction "card ({q. bt_get d q = Some Dir} - D)" arbitrary: pending entries D w rule: less_induct)
  case less
  show ?case
  proof (cases pending)
    case Nil
    then show ?thesis
      using walk_inv_done [of m d base entries D] less.prems ok by (auto simp: scan_walk.simps)
  next
    case (Cons dir dirs)
    let ?q = "dir_components dir"
    have inv: "walk_inv m d base (dir # dirs) entries D" using less.prems(1) Cons by simp
    have q: "bt_get d ?q = Some Dir" "?q \<notin> D"
      using walk_inv_dir [OF inv ok, of ?q] inv by (auto simp: walk_inv_def)
    have "disk_read_dir ?q (w_disk w) = Done (dir_names ?q d)"
      using q(1) less.prems(3) by (simp add: disk_read_dir_def)
    then have "wp (read_dir ?q) (\<lambda>r w1. \<exists>ns. r = Inr (Done ns) \<and> calm w1 \<and> w_disk w1 = d \<and>
        mset ns = mset (dir_names ?q d)) w"
      using less.prems(3) by (intro quiet_read_dir [OF less.prems(2)]) auto
    then obtain ns w1 where r: "read_dir ?q w = (Inr (Done ns), w1)" "calm w1" "w_disk w1 = d"
      and ns: "mset ns = mset (dir_names ?q d)"
      by (auto simp: wp_def split: prod.splits)
    have wf: "bt_wf d" using ok by (simp add: disk_ok_def)
    have "\<forall>x\<in>set ns. bt_get d (?q @ [x]) \<noteq> None"
      using dir_names_set(2) [OF wf] mset_eq_setD [OF ns] by blast
    from quiet_scan_dir [OF ok r(2,3) this, of m "(dirs, entries)"]
    obtain w2 where w2: "scan_dir m dir ns (dirs, entries) w1 = (Inr (fold (visit m d ?q) ns (dirs, entries)), w2)"
      "calm w2" "w_disk w2 = d"
      by (auto simp: wp_def split: prod.splits)
    have step: "scan_walk m pending entries w =
        scan_walk m (fst (fold (visit m d ?q) ns (dirs, entries)))
          (snd (fold (visit m d ?q) ns (dirs, entries))) w2"
      by (subst scan_walk.simps) (simp add: Cons r(1) w2(1))
    have "finite {q. bt_get d q = Some Dir}"
      by (rule finite_subset [of _ "set (bt_keys d)"]) (auto intro: bt_get_keys)
    then have "card ({q. bt_get d q = Some Dir} - insert ?q D) < card ({q. bt_get d q = Some Dir} - D)"
      using q by (intro psubset_card_mono) auto
    from less.hyps [OF this walk_inv_step [OF inv ok refl ns] w2(2,3)] show ?thesis
      unfolding step .
  qed
qed

section \<open>The scan\<close>

lemma tree_new_distinct:
  assumes "distinct (map te_path es)"
  shows "tree_new es = Inr (sort_key te_path es)" "sorted_wrt (<) (map te_path (sort_key te_path es))"
  using assms equal_neighbours_sorted [of "map te_path (sort_key te_path es)"]
  by (simp_all add: tree_new_def Let_def strict_sorted_iff distinct_map)

lemma quiet_rules:
  assumes "calm w" and "ignore_rules_of G (w_disk w) = Inr m"
  shows "wp (ignore_rules_load G) (\<lambda>r w'. r = Inr m \<and> calm w' \<and> w_disk w' = w_disk w) w"
  unfolding ignore_rules_load_def wp_bind read_file_def path_exists_def
  using assms(2)
  by (intro quiet_read_call [OF assms(1)])
    (auto simp: ignore_rules_of_def Let_def disk_exists_def intro!: quiet_read_call
      split: sys.splits prod.splits if_splits)

lemma walk_inv_nothing:
  assumes "base \<noteq> []" and "\<not> shown m d base"
  shows "walk_inv m d base [] [] {}" "{entry_of d q |q. visible m d base q} = {}"
proof -
  have "\<not> visible m d base q" for q using visible_base_shown [of m d base q] assms by blast
  then show "walk_inv m d base [] [] {}" "{entry_of d q |q. visible m d base q} = {}"
    using assms(1) by (simp_all add: walk_inv_def)
qed

lemma walk_inv_start:
  assumes "base \<noteq> []" and "shown m d base"
  shows "walk_inv m d base (if bt_get d base = Some Dir then [Some (RelativePath base)] else [])
    [entry_of d base] {}"
proof -
  have "visible m d base base" using assms by (simp add: visible_def starts_with_def)
  then show ?thesis using assms(1) by (auto simp: walk_inv_def dir_components_def)
qed

lemma walk_inv_root: "walk_inv m d [] [None] [] {}"
  by (auto simp: walk_inv_def dir_components_def visible_def)

text \<open>What the start of a scan hands to the walk.\<close>

definition start_ok :: "(string \<Rightarrow> bool \<Rightarrow> bool) \<Rightarrow> disk \<Rightarrow> scan_scope \<Rightarrow> walk option \<Rightarrow> bool" where
  "start_ok m d scope s \<longleftrightarrow>
     (case s of
        None \<Rightarrow> scan_view m d scope = {}
      | Some (pending, entries) \<Rightarrow>
          (case scope of
             SingleFile p \<Rightarrow> pending = [] \<and> distinct (map te_path entries) \<and> set entries = scan_view m d scope
           | _ \<Rightarrow> walk_inv m d (scope_base scope) pending entries {}))"

lemma stat_shown:
  assumes "calm w" and "clear_above (w_disk w) (as_components p)" and "\<not> is_hard_ignored p"
    and "\<And>w'. calm w' \<Longrightarrow> w_disk w' = w_disk w \<Longrightarrow> \<not> shown m (w_disk w) (as_components p) \<Longrightarrow>
      disk_entry p (w_disk w) = None \<Longrightarrow> Q (Inr None) w'"
    and "\<And>w' e. calm w' \<Longrightarrow> w_disk w' = w_disk w \<Longrightarrow> \<not> shown m (w_disk w) (as_components p) \<Longrightarrow>
      is_ignored m p (is_directory e) \<Longrightarrow> Q (Inr (Some e)) w'"
    and "\<And>w' e. calm w' \<Longrightarrow> w_disk w' = w_disk w \<Longrightarrow> shown m (w_disk w) (as_components p) \<Longrightarrow>
      \<not> is_ignored m p (is_directory e) \<Longrightarrow> e = entry_of (w_disk w) (as_components p) \<Longrightarrow>
      is_directory e = (bt_get (w_disk w) (as_components p) = Some Dir) \<Longrightarrow> Q (Inr (Some e)) w'"
  shows "wp (stat_path p) Q w"
proof (rule quiet_stat_path [OF assms(1,2)])
  fix w'
  let ?d = "w_disk w" and ?c = "as_components p"
  assume w': "calm w'" "w_disk w' = ?d"
  show "Q (Inr (disk_entry p ?d)) w'"
  proof (cases "disk_entry p ?d")
    case None
    then show ?thesis using assms(4) [OF w'] entry_None_not_shown [of ?c ?d m] by simp
  next
    case (Some e)
    then have "is_ignored m p (is_directory e) \<longleftrightarrow> \<not> shown m ?d ?c"
      using not_shown [of ?c ?d e m] by simp
    then show ?thesis
      using assms(5,6) [OF w'] Some shown_entry [of m ?d ?c] by (cases "shown m ?d ?c") auto
  qed
qed

lemma quiet_start:
  assumes "calm w" and "scope_ok scope" and "clear_above (w_disk w) (scope_base scope)"
  shows "wp (scan_start m scope)
    (\<lambda>r w'. \<exists>s. r = Inr s \<and> start_ok m (w_disk w) scope s \<and> calm w' \<and> w_disk w' = w_disk w) w"
proof (cases scope)
  case Full
  then show ?thesis using assms(1) by (simp add: scan_start_def start_ok_def walk_inv_root)
next
  case (Subtree p)
  let ?d = "w_disk w" and ?c = "as_components p"
  have ne: "?c \<noteq> []" using assms(2) Subtree by (simp add: rp_valid_def)
  have start: "walk_inv m ?d ?c (if is_directory (entry_of ?d ?c) then [Some p] else []) [entry_of ?d ?c] {}"
    if "shown m ?d ?c" using walk_inv_start [OF ne that] shown_entry(3) [OF that] by (auto split: if_splits)
  show ?thesis
  proof (cases "is_hard_ignored p")
    case True
    then show ?thesis
      using walk_inv_nothing [OF ne, of m ?d] hard_ignored_not_shown [of ?c m ?d] assms(1)
      by (simp add: scan_start_def start_ok_def Subtree)
  next
    case False
    then show ?thesis
      unfolding scan_start_def Subtree scan_scope.case if_not_P [OF False] wp_bind
      by (intro stat_shown [OF assms(1) _ False, of m])
        (use assms(3) Subtree walk_inv_nothing [OF ne, of m ?d] start in \<open>auto simp: start_ok_def\<close>)
  qed
next
  case (SingleFile p)
  let ?d = "w_disk w" and ?c = "as_components p"
  show ?thesis
  proof (cases "is_hard_ignored p")
    case True
    then show ?thesis
      using hard_ignored_not_shown [of ?c m ?d] assms(1)
      by (auto simp: scan_start_def start_ok_def SingleFile)
  next
    case False
    then show ?thesis
      unfolding scan_start_def SingleFile scan_scope.case if_not_P [OF False] wp_bind
      by (intro stat_shown [OF assms(1) _ False, of m])
        (use assms(3) SingleFile in \<open>auto simp: start_ok_def\<close>)
  qed
qed

lemma quiet_scan:
  assumes "calm w" and ok: "disk_ok (w_disk w)" and rules: "ignore_rules_of G (w_disk w) = Inr m"
    and scope: "scope_ok scope" "clear_above (w_disk w) (scope_base scope)"
  shows "\<exists>t tree w'. local_scan G scope w =
      Some (Inr \<lparr>scan_finished_at = t, scan_scope_of = scope, scan_tree = tree\<rparr>, w') \<and>
    w_disk w' = w_disk w \<and> sorted_wrt (<) (map te_path tree) \<and> set tree = scan_view m (w_disk w) scope"
proof -
  let ?d = "w_disk w"
  have "wp (bind_io (ignore_rules_load G) (\<lambda>m. bind_io (scan_start m scope) (\<lambda>s. return_io (m, s))))
      (\<lambda>r w'. \<exists>s. r = Inr (m, s) \<and> start_ok m ?d scope s \<and> calm w' \<and> w_disk w' = ?d) w"
    using scope(2)
    by (auto intro!: wp_mono [OF quiet_rules [OF assms(1) rules]] wp_mono [OF quiet_start [OF _ scope(1), of _ m]])
  then obtain s w1 where s: "bind_io (ignore_rules_load G)
        (\<lambda>m. bind_io (scan_start m scope) (\<lambda>s. return_io (m, s))) w = (Inr (m, s), w1)"
    and st: "start_ok m ?d scope s" and w1: "calm w1" "w_disk w1 = ?d"
    by (auto simp: wp_def split: prod.splits)
  have fin: "\<exists>t tree w'. scan_finish scope es w2 =
      (Inr \<lparr>scan_finished_at = t, scan_scope_of = scope, scan_tree = tree\<rparr>, w') \<and>
      w_disk w' = ?d \<and> sorted_wrt (<) (map te_path tree) \<and> set tree = scan_view m ?d scope"
    if "distinct (map te_path es)" "set es = scan_view m ?d scope" "w_disk w2 = ?d" for es w2
    using that tree_new_distinct [OF that(1)]
    by (auto simp: scan_finish_def bind_io_def now_utc_def lift_io_def return_io_def)
  show ?thesis
  proof (cases s)
    case None
    then show ?thesis using s st fin [of "[]" w1] w1 by (simp add: local_scan_def start_ok_def)
  next
    case (Some pe)
    obtain es w2 where walk: "scan_walk m (fst pe) (snd pe) w1 = Some (Inr es, w2)" "w_disk w2 = ?d"
      and es: "distinct (map te_path es)" "set es = scan_view m ?d scope"
    proof (cases scope)
      case (SingleFile p)
      then show ?thesis
        using that [of "snd pe" w1] st Some w1 by (auto simp: start_ok_def scan_walk.simps split: prod.splits)
    next
      case Full
      then show ?thesis
        using that quiet_walk [OF ok, of m "[]" "fst pe" "snd pe" "{}" w1] st Some w1
        by (auto simp: start_ok_def split: prod.splits)
    next
      case (Subtree p)
      then show ?thesis
        using that quiet_walk [OF ok, of m "as_components p" "fst pe" "snd pe" "{}" w1] st Some w1
        by (auto simp: start_ok_def split: prod.splits)
    qed
    then show ?thesis using s fin [OF es walk(2)] Some by (auto simp: local_scan_def)
  qed
qed

section \<open>Properties\<close>

text \<open>(C13) On a disk no other process touches, the scan returns, leaves the disk alone, and its
  tree lists, in ascending path order, exactly the files and directories in scope that no ignore
  rule hides, directly or through a directory above them.\<close>

theorem local_scan_exact:
  assumes "calm w" and "disk_ok (w_disk w)" and "ignore_rules_of G (w_disk w) = Inr m"
    and "scope_ok scope" and "clear_above (w_disk w) (scope_base scope)"
  shows "\<exists>t tree w'. local_scan G scope w =
      Some (Inr \<lparr>scan_finished_at = t, scan_scope_of = scope, scan_tree = tree\<rparr>, w') \<and>
    w_disk w' = w_disk w \<and> sorted_wrt (<) (map te_path tree) \<and> set tree = scan_view m (w_disk w) scope"
  using assms by (rule quiet_scan)

theorem local_scan_exact_witness:
  "calm (demo_world demo_disk) \<and> disk_ok demo_disk \<and>
   ignore_rules_of (\<lambda>_. (False, Some (\<lambda>_ _. False))) demo_disk = Inr (\<lambda>_ _. False) \<and>
   (\<exists>t tree w'. local_scan (\<lambda>_. (False, Some (\<lambda>_ _. False))) Full (demo_world demo_disk) =
      Some (Inr \<lparr>scan_finished_at = t, scan_scope_of = Full, scan_tree = tree\<rparr>, w') \<and>
      entry_of demo_disk [''a''] \<in> set tree)"
proof -
  have ok: "disk_ok demo_disk"
    by (simp add: disk_ok_def demo_disk_def bt_wf_def bt_get_def bt_keys_def component_valid_def byte_in_def)
  have rules: "ignore_rules_of (\<lambda>_. (False, Some (\<lambda>_ _. False))) demo_disk = Inr (\<lambda>_ _. False)"
    by (simp add: ignore_rules_of_def disk_read_def demo_disk_def bt_get_def ignore_file_name_def not_found_def)
  have "visible (\<lambda>_ _. False) demo_disk [] [''a'']"
    by (simp add: visible_def starts_with_def shown_def demo_disk_def bt_get_def is_ignored_def
        is_hard_ignored_def metadata_dir_name_def is_projection_temp_component_def)
  then show ?thesis
    using local_scan_exact [of "demo_world demo_disk" "\<lambda>_. (False, Some (\<lambda>_ _. False))" "\<lambda>_ _. False" Full]
      ok rules demo_quiet [of demo_disk]
    by (auto simp: clear_above_def)
qed

end
