(* ===== verification/Fs_Actor.thy ===== *)
theory Fs_Actor
  imports Local_Fs Clients
begin

text \<open>
  The file-system actor of \<open>crates/core/src/fs/actor.rs\<close>: it numbers the requests of its channel,
  runs each as a task on the \<open>FileIO\<close> implementation it is generic in, and when a task completes
  sends the value on the reply channel kept for the number. A reply channel is a number chosen by
  the client. The trait \<open>FileIO\<close> of \<open>fs/fio/mod.rs\<close> is a record of functions on a world \<open>'w\<close>;
  \<open>local_file_io\<close> is the implementation of \<open>fs/fio/local.rs\<close>. Tasks run concurrently: the system
  calls of one are part of the interference the others meet.
\<close>

section \<open>The trait\<close>

record 'w file_io =
  fio_scan :: "scan_scope \<Rightarrow> 'w \<Rightarrow> (scan_result res \<times> 'w) option"
  fio_stat :: "relative_path \<Rightarrow> 'w \<Rightarrow> tree_entry option res \<times> 'w"
  fio_guarded_read :: "relative_path \<Rightarrow> file_fingerprint \<Rightarrow> 'w \<Rightarrow> guarded_read_result res \<times> 'w"
  fio_guarded_write ::
    "relative_path \<Rightarrow> bytes \<Rightarrow> expected_before \<Rightarrow> 'w \<Rightarrow> guarded_write_result res \<times> 'w"
  fio_guarded_delete :: "relative_path \<Rightarrow> expected_before \<Rightarrow> 'w \<Rightarrow> guarded_delete_result res \<times> 'w"
  fio_delete_if_exists :: "relative_path \<Rightarrow> 'w \<Rightarrow> delete_if_exists_result res \<times> 'w"

definition local_file_io :: "gitignore \<Rightarrow> ('d, 'sv) ext \<Rightarrow> world file_io" where
  "local_file_io G X =
     \<lparr>fio_scan = local_scan G, fio_stat = stat_path, fio_guarded_read = guarded_read X,
      fio_guarded_write = guarded_write X, fio_guarded_delete = guarded_delete X,
      fio_delete_if_exists = local_delete_if_exists\<rparr>"

section \<open>The actor\<close>

type_synonym fs_op_id = nat
type_synonym reply_channel = nat

datatype pending_fs_op_kind =
    PendScan reply_channel
  | PendStat reply_channel
  | PendGuardedRead reply_channel
  | PendGuardedWrite reply_channel
  | PendGuardedDelete reply_channel
  | PendDeleteIfExists reply_channel

datatype task_value =
    TaskScan "scan_result res"
  | TaskStat "tree_entry option res"
  | TaskGuardedRead "guarded_read_result res"
  | TaskGuardedWrite "guarded_write_result res"
  | TaskGuardedDelete "guarded_delete_result res"
  | TaskDeleteIfExists "delete_if_exists_result res"

text \<open>The receiving end of the request channel is the event list of a run; \<open>fa_replies\<close> are the
  values sent on reply channels so far.\<close>

record fs_actor =
  fa_next_op_id :: fs_op_id
  fa_pending_ops :: "(fs_op_id, pending_fs_op_kind) btree_map"
  fa_running_ops :: "(fs_op_id \<times> fs_request) list"
  fa_replies :: "(reply_channel \<times> task_value) list"

definition fs_actor_new :: fs_actor where
  "fs_actor_new = \<lparr>fa_next_op_id = 0, fa_pending_ops = [], fa_running_ops = [], fa_replies = []\<rparr>"

text \<open>The counter is a \<open>u64\<close>; the increment panics when it overflows.\<close>

definition fs_next_op_id :: "fs_actor \<Rightarrow> (fs_op_id \<times> fs_actor) res" where
  "fs_next_op_id s =
     bind_res (ok_or (checked_add_u64 (fa_next_op_id s) 1) Panicked) (\<lambda>n.
       Inr (fa_next_op_id s, s\<lparr>fa_next_op_id := n\<rparr>))"

fun pending_kind_of :: "fs_request \<Rightarrow> reply_channel \<Rightarrow> pending_fs_op_kind" where
  "pending_kind_of (FsScan _) c = PendScan c"
| "pending_kind_of (FsStat _) c = PendStat c"
| "pending_kind_of (FsGuardedRead _ _) c = PendGuardedRead c"
| "pending_kind_of (FsGuardedWrite _ _ _) c = PendGuardedWrite c"
| "pending_kind_of (FsGuardedDelete _ _) c = PendGuardedDelete c"
| "pending_kind_of (FsDeleteIfExists _) c = PendDeleteIfExists c"

definition fs_start_request :: "fs_request \<Rightarrow> reply_channel \<Rightarrow> fs_actor \<Rightarrow> fs_actor res" where
  "fs_start_request request reply s =
     bind_res (fs_next_op_id s) (\<lambda>(oid, s1).
       Inr (s1\<lparr>fa_pending_ops := bt_insert oid (pending_kind_of request reply) (fa_pending_ops s1),
                fa_running_ops := fa_running_ops s1 @ [(oid, request)]\<rparr>))"

text \<open>The body of a task; \<open>None\<close> when it does not return.\<close>

definition fs_run_task :: "'w file_io \<Rightarrow> fs_request \<Rightarrow> 'w \<Rightarrow> (task_value \<times> 'w) option" where
  "fs_run_task fio request w =
     (case request of
        FsScan scope \<Rightarrow> map_option (map_prod TaskScan id) (fio_scan fio scope w)
      | FsStat p \<Rightarrow> Some (map_prod TaskStat id (fio_stat fio p w))
      | FsGuardedRead p fp \<Rightarrow> Some (map_prod TaskGuardedRead id (fio_guarded_read fio p fp w))
      | FsGuardedWrite p b e \<Rightarrow> Some (map_prod TaskGuardedWrite id (fio_guarded_write fio p b e w))
      | FsGuardedDelete p e \<Rightarrow> Some (map_prod TaskGuardedDelete id (fio_guarded_delete fio p e w))
      | FsDeleteIfExists p \<Rightarrow> Some (map_prod TaskDeleteIfExists id (fio_delete_if_exists fio p w)))"

definition fs_take_pending_op :: "fs_op_id \<Rightarrow> fs_actor \<Rightarrow> (pending_fs_op_kind \<times> fs_actor) res" where
  "fs_take_pending_op oid s =
     (case bt_get (fa_pending_ops s) oid of
        None \<Rightarrow> Inl Fatal
      | Some kind \<Rightarrow> Inr (kind, s\<lparr>fa_pending_ops := bt_remove oid (fa_pending_ops s)\<rparr>))"

definition fs_reply_send :: "reply_channel \<Rightarrow> task_value \<Rightarrow> fs_actor \<Rightarrow> fs_actor" where
  "fs_reply_send c v s = s\<lparr>fa_replies := fa_replies s @ [(c, v)]\<rparr>"

definition fs_finish_task_result :: "fs_op_id \<Rightarrow> task_value \<Rightarrow> fs_actor \<Rightarrow> fs_actor res" where
  "fs_finish_task_result oid result s =
     bind_res (fs_take_pending_op oid s) (\<lambda>(kind, s1).
       case (result, kind) of
         (TaskScan _, PendScan c) \<Rightarrow> Inr (fs_reply_send c result s1)
       | (TaskStat _, PendStat c) \<Rightarrow> Inr (fs_reply_send c result s1)
       | (TaskGuardedRead _, PendGuardedRead c) \<Rightarrow> Inr (fs_reply_send c result s1)
       | (TaskGuardedWrite _, PendGuardedWrite c) \<Rightarrow> Inr (fs_reply_send c result s1)
       | (TaskGuardedDelete _, PendGuardedDelete c) \<Rightarrow> Inr (fs_reply_send c result s1)
       | (TaskDeleteIfExists _, PendDeleteIfExists c) \<Rightarrow> Inr (fs_reply_send c result s1)
       | _ \<Rightarrow> Inl Fatal)"

text \<open>One round of \<open>run\<close>: a request is received, or the running task at a position completes.
  \<open>None\<close>: the round is not possible.\<close>

datatype fs_actor_event = Received fs_request reply_channel | TaskCompleted nat

definition fs_actor_step ::
  "'w file_io \<Rightarrow> fs_actor_event \<Rightarrow> fs_actor \<times> 'w \<Rightarrow> (fs_actor \<times> 'w) res option" where
  "fs_actor_step fio ev sw =
     (case ev of
        Received request reply \<Rightarrow>
          Some (map_ok (\<lambda>s'. (s', snd sw)) (fs_start_request request reply (fst sw)))
      | TaskCompleted i \<Rightarrow>
          if i < length (fa_running_ops (fst sw)) then
            (case fa_running_ops (fst sw) ! i of (oid, request) \<Rightarrow>
              map_option (\<lambda>(v, w').
                map_ok (\<lambda>s'. (s', w'))
                  (fs_finish_task_result oid v
                    ((fst sw)\<lparr>fa_running_ops := drop_nth i (fa_running_ops (fst sw))\<rparr>)))
                (fs_run_task fio request (snd sw)))
          else None)"

fun fs_actor_run ::
  "'w file_io \<Rightarrow> fs_actor_event list \<Rightarrow> fs_actor \<times> 'w \<Rightarrow> (fs_actor \<times> 'w) res option" where
  "fs_actor_run fio [] sw = Some (Inr sw)"
| "fs_actor_run fio (ev # evs) sw =
     (case fs_actor_step fio ev sw of
        None \<Rightarrow> None
      | Some (Inl e) \<Rightarrow> Some (Inl e)
      | Some (Inr sw') \<Rightarrow> fs_actor_run fio evs sw')"

section \<open>Typing\<close>

text \<open>The requests of a run, in order; what values a request may be answered with; and which
  answer of the actor is what the client's pending future reads.\<close>

fun requests_of :: "fs_actor_event list \<Rightarrow> (fs_request \<times> reply_channel) list" where
  "requests_of [] = []"
| "requests_of (Received r c # evs) = (r, c) # requests_of evs"
| "requests_of (TaskCompleted _ # evs) = requests_of evs"

definition value_for :: "fs_request \<Rightarrow> task_value \<Rightarrow> bool" where
  "value_for request v \<longleftrightarrow>
     (case (request, v) of
        (FsScan _, TaskScan _) \<Rightarrow> True
      | (FsStat _, TaskStat _) \<Rightarrow> True
      | (FsGuardedRead _ _, TaskGuardedRead _) \<Rightarrow> True
      | (FsGuardedWrite _ _ _, TaskGuardedWrite _) \<Rightarrow> True
      | (FsGuardedDelete _ _, TaskGuardedDelete _) \<Rightarrow> True
      | (FsDeleteIfExists _, TaskDeleteIfExists _) \<Rightarrow> True
      | _ \<Rightarrow> False)"

definition or_failed :: "('a \<Rightarrow> fs_reply) \<Rightarrow> 'a res \<Rightarrow> fs_reply" where
  "or_failed f r = (case r of Inl _ \<Rightarrow> FsFailed | Inr x \<Rightarrow> f x)"

definition client_reply :: "task_value \<Rightarrow> fs_reply" where
  "client_reply v =
     (case v of
        TaskScan r \<Rightarrow> or_failed FsScanned r
      | TaskStat r \<Rightarrow> or_failed FsStatted r
      | TaskGuardedRead r \<Rightarrow> or_failed FsRead r
      | TaskGuardedWrite r \<Rightarrow> or_failed FsWrote r
      | TaskGuardedDelete r \<Rightarrow> or_failed FsDeleted r
      | TaskDeleteIfExists r \<Rightarrow> or_failed (\<lambda>_. FsCleaned) r)"

fun waits_for :: "fs_request \<Rightarrow> fs_pending \<Rightarrow> bool" where
  "waits_for (FsScan _) WaitScan = True"
| "waits_for (FsStat _) (WaitStat _) = True"
| "waits_for (FsGuardedRead _ _) (WaitRead _) = True"
| "waits_for (FsGuardedWrite _ _ _) (WaitWrite _) = True"
| "waits_for (FsGuardedDelete _ _) (WaitDelete _) = True"
| "waits_for (FsDeleteIfExists _) (WaitCleanup _) = True"
| "waits_for _ _ = False"

text \<open>The invariant: the running tasks are requests received, each with its own number below the
  counter, and the pending map holds exactly their kinds and reply channels.\<close>

definition fs_actor_inv :: "(fs_request \<times> reply_channel) list \<Rightarrow> fs_actor \<Rightarrow> bool" where
  "fs_actor_inv reqs s \<longleftrightarrow>
     fa_next_op_id s = length reqs \<and> bt_wf (fa_pending_ops s) \<and>
     distinct (map fst (fa_running_ops s)) \<and>
     (\<forall>oid request. (oid, request) \<in> set (fa_running_ops s) \<longrightarrow>
        oid < length reqs \<and> fst (reqs ! oid) = request \<and>
        bt_get (fa_pending_ops s) oid = Some (pending_kind_of request (snd (reqs ! oid)))) \<and>
     dom (bt_get (fa_pending_ops s)) = fst ` set (fa_running_ops s) \<and>
     length (fa_replies s) + length (fa_running_ops s) = length reqs \<and>
     (\<forall>(c, v) \<in> set (fa_replies s). \<exists>request. (request, c) \<in> set reqs \<and> value_for request v)"

lemma fs_actor_inv_new: "fs_actor_inv [] fs_actor_new"
  by (simp add: fs_actor_inv_def fs_actor_new_def)

lemma fs_run_task_value: "fs_run_task fio request w = Some (v, w') \<Longrightarrow> value_for request v"
  by (auto simp: fs_run_task_def value_for_def map_prod_def split: fs_request.splits prod.splits)

lemma fs_finish_ok:
  assumes "value_for request v" and "bt_get (fa_pending_ops s) oid = Some (pending_kind_of request c)"
  shows "fs_finish_task_result oid v s =
    Inr (fs_reply_send c v (s\<lparr>fa_pending_ops := bt_remove oid (fa_pending_ops s)\<rparr>))"
  using assms
  by (cases request; cases v) (simp_all add: value_for_def fs_finish_task_result_def fs_take_pending_op_def)

lemma drop_nth_split:
  assumes "i < length xs"
  shows "xs = take i xs @ xs ! i # drop (Suc i) xs" "length (drop_nth i xs) + 1 = length xs"
  using assms by (simp_all add: drop_nth_def id_take_nth_drop [symmetric])

lemma fs_actor_inv_start:
  assumes inv: "fs_actor_inv reqs s" and "length reqs < u64_max"
  shows "\<exists>s'. fs_start_request request c s = Inr s' \<and> fs_actor_inv (reqs @ [(request, c)]) s'"
proof -
  let ?n = "length reqs"
  let ?s' = "s\<lparr>fa_next_op_id := ?n + 1,
    fa_pending_ops := bt_insert ?n (pending_kind_of request c) (fa_pending_ops s),
    fa_running_ops := fa_running_ops s @ [(?n, request)]\<rparr>"
  have n: "fa_next_op_id s = ?n" using inv by (simp add: fs_actor_inv_def)
  have fresh: "?n \<notin> fst ` set (fa_running_ops s)" using inv by (force simp: fs_actor_inv_def)
  have "fs_start_request request c s = Inr ?s'"
    using assms(2) n by (simp add: fs_start_request_def fs_next_op_id_def checked_add_u64_def)
  moreover have "fs_actor_inv (reqs @ [(request, c)]) ?s'"
    using inv fresh by (auto simp: fs_actor_inv_def bt_wf_insert bt_get_insert nth_append; force)
  ultimately show ?thesis by blast
qed

lemma fs_actor_inv_finish:
  assumes inv: "fs_actor_inv reqs s" and i: "i < length (fa_running_ops s)"
    and r: "fa_running_ops s ! i = (oid, request)" and v: "value_for request v"
  shows "\<exists>s'. fs_finish_task_result oid v (s\<lparr>fa_running_ops := drop_nth i (fa_running_ops s)\<rparr>) = Inr s' \<and>
    fs_actor_inv reqs s'"
proof -
  let ?s = "s\<lparr>fa_running_ops := drop_nth i (fa_running_ops s)\<rparr>" and ?c = "snd (reqs ! oid)"
  let ?s' = "fs_reply_send ?c v (?s\<lparr>fa_pending_ops := bt_remove oid (fa_pending_ops ?s)\<rparr>)"
  have mem: "(oid, request) \<in> set (fa_running_ops s)" using i r by (metis nth_mem)
  have m: "oid < length reqs" "fst (reqs ! oid) = request"
    "bt_get (fa_pending_ops s) oid = Some (pending_kind_of request ?c)"
    using inv mem unfolding fs_actor_inv_def by blast+
  have split: "fa_running_ops s = take i (fa_running_ops s) @ (oid, request) # drop (Suc i) (fa_running_ops s)"
    using drop_nth_split(1) [OF i] r by simp
  have dn: "set (drop_nth i (fa_running_ops s)) = set (fa_running_ops s) - {(oid, request)}"
    "oid \<notin> fst ` set (drop_nth i (fa_running_ops s))" "distinct (map fst (drop_nth i (fa_running_ops s)))"
  proof -
    have d: "distinct (map fst (take i (fa_running_ops s) @ (oid, request) # drop (Suc i) (fa_running_ops s)))"
      using inv split by (metis fs_actor_inv_def)
    then show "oid \<notin> fst ` set (drop_nth i (fa_running_ops s))" "distinct (map fst (drop_nth i (fa_running_ops s)))"
      by (auto simp: drop_nth_def)
    have "(oid, request) \<notin> set (drop_nth i (fa_running_ops s))" using d by (force simp: drop_nth_def)
    then show "set (drop_nth i (fa_running_ops s)) = set (fa_running_ops s) - {(oid, request)}"
      by (subst (2) split) (auto simp: drop_nth_def)
  qed
  have "fs_finish_task_result oid v ?s = Inr ?s'" using fs_finish_ok [OF v, of ?s oid ?c] m(3) by simp
  moreover have rm: "bt_get (bt_remove oid (fa_pending_ops s)) = (bt_get (fa_pending_ops s))(oid := None)"
    using inv by (simp add: fs_actor_inv_def bt_get_remove)
  moreover have "fs_actor_inv reqs ?s'"
    unfolding fs_actor_inv_def
  proof (intro conjI allI impI, goal_cases)
    case (4 o' r')
    then show ?case using inv dn by (auto simp: fs_actor_inv_def fs_reply_send_def)
  next
    case (5 o' r')
    then show ?case using inv dn by (auto simp: fs_actor_inv_def fs_reply_send_def)
  next
    case (6 o' r')
    then have o: "o' \<noteq> oid" "(o', r') \<in> set (fa_running_ops s)" using dn by (force simp: fs_reply_send_def)+
    then have "bt_get (fa_pending_ops s) o' = Some (pending_kind_of r' (snd (reqs ! o')))"
      using inv unfolding fs_actor_inv_def by blast
    then show ?case using o(1) rm by (simp add: fs_reply_send_def)
  next
    case 7
    have "dom (bt_get (fa_pending_ops ?s')) = fst ` set (fa_running_ops s) - {oid}"
      using inv by (auto simp: fs_actor_inv_def fs_reply_send_def bt_get_remove)
    also have "\<dots> = fst ` set (drop_nth i (fa_running_ops s))" using dn by force
    finally show ?case by (simp add: fs_reply_send_def)
  next
    case 8
    then show ?case using inv drop_nth_split(2) [OF i] by (simp add: fs_actor_inv_def fs_reply_send_def)
  next
    case 9
    have "(request, ?c) \<in> set reqs" using m(1,2) by (metis nth_mem prod.collapse)
    then show ?case using inv v by (auto simp: fs_actor_inv_def fs_reply_send_def)
  qed (use inv dn in \<open>simp_all add: fs_actor_inv_def fs_reply_send_def bt_wf_remove\<close>)
  ultimately show ?thesis by blast
qed

lemma fs_actor_inv_run:
  assumes "fs_actor_run fio evs (s, w) = Some r" and "fs_actor_inv reqs s"
    and "length reqs + length (requests_of evs) \<le> u64_max"
  shows "\<exists>s' w'. r = Inr (s', w') \<and> fs_actor_inv (reqs @ requests_of evs) s'"
  using assms
proof (induction evs arbitrary: s w reqs)
  case Nil
  then show ?case by auto
next
  case (Cons ev evs)
  show ?case
  proof (cases ev)
    case (Received request c)
    have "length reqs < u64_max" using Cons.prems(3) Received by simp
    from fs_actor_inv_start [OF Cons.prems(2) this] obtain s1 where
      s1: "fs_start_request request c s = Inr s1" "fs_actor_inv (reqs @ [(request, c)]) s1" by blast
    have "fs_actor_run fio evs (s1, w) = Some r"
      using Cons.prems(1) s1(1) Received by (simp add: fs_actor_step_def)
    from Cons.IH [OF this s1(2)] Cons.prems(3) Received show ?thesis by simp
  next
    case (TaskCompleted i)
    obtain sw' where st: "fs_actor_step fio ev (s, w) = Some sw'"
      using Cons.prems(1) by (auto split: option.splits)
    then obtain oid request v w1 where i: "i < length (fa_running_ops s)"
      and r: "fa_running_ops s ! i = (oid, request)" and t: "fs_run_task fio request w = Some (v, w1)"
      and sw': "sw' = map_ok (\<lambda>s'. (s', w1)) (fs_finish_task_result oid v
        (s\<lparr>fa_running_ops := drop_nth i (fa_running_ops s)\<rparr>))"
      using TaskCompleted by (auto simp: fs_actor_step_def split: if_splits prod.splits)
    from fs_actor_inv_finish [OF Cons.prems(2) i r fs_run_task_value [OF t]] obtain s1 where
      s1: "sw' = Inr (s1, w1)" "fs_actor_inv reqs s1" using sw' by auto
    have "fs_actor_run fio evs (s1, w1) = Some r" using Cons.prems(1) st s1(1) by simp
    from Cons.IH [OF this s1(2)] Cons.prems(3) TaskCompleted show ?thesis by simp
  qed
qed

lemma client_accepts:
  "value_for request v \<Longrightarrow> waits_for request wait \<Longrightarrow> fs_response_of wait (client_reply v) \<noteq> None"
  by (cases request; cases v; cases wait)
    (auto simp: value_for_def client_reply_def or_failed_def fs_response_of_def split: sum.splits)

section \<open>Properties\<close>


definition demo_fio :: "unit file_io" where
  "demo_fio =
     \<lparr>fio_scan = \<lambda>_ _. None, fio_stat = \<lambda>_ w. (Inr None, w),
      fio_guarded_read = \<lambda>_ _ w. (Inr (ConflictBeforeRead None), w),
      fio_guarded_write = \<lambda>_ _ _ w. (Inl Fatal, w),
      fio_guarded_delete = \<lambda>_ _ w. (Inr AlreadyDeleted, w),
      fio_delete_if_exists = \<lambda>_ w. (Inr DieAlreadyMissing, w)\<rparr>"


end
