(* ===== verification/File_Contract.thy ===== *)
theory File_Contract
  imports Fs_Types
begin

text \<open>
  What the callers of \<open>FileIO\<close> (\<open>fs/fio/mod.rs\<close>) rely on while nobody else touches the files: the
  guarded read, write and delete are conditional operations on one file, decided by whether the
  file matches what the caller expects. \<open>guarded_files\<close> is that contract; its lemmas are what the
  projection and import actions of the engine build on. It is interpreted for the disk
  (\<open>Local_Contract\<close>) and for the files in memory of the simulator (\<open>Memory_Fs\<close>).
\<close>

text \<open>A file is its metadata and its bytes; \<open>seen\<close> is the full fingerprint of one.\<close>

definition file_matches ::
  "(file_stat \<Rightarrow> bytes \<Rightarrow> file_fingerprint) \<Rightarrow> expected_before \<Rightarrow> (file_stat \<times> bytes) option \<Rightarrow> bool" where
  "file_matches seen expected f \<longleftrightarrow>
     (case expected of
        Anything \<Rightarrow> True
      | Missing \<Rightarrow> f = None
      | PresentWithFingerprint fp \<Rightarrow>
          (case f of
             None \<Rightarrow> False
           | Some (s, b) \<Rightarrow> (case fp of StatOnly s' \<Rightarrow> s = s' | StatAndContent _ _ \<Rightarrow> seen s b = fp)))"

text \<open>Results with the metadata and the observed entries left out.\<close>

datatype outcome = Got bytes | NoChange | Applied | Refused | Failed

definition read_shape :: "guarded_read_result res \<Rightarrow> outcome" where
  "read_shape r = (case r of Inr (ReadOk b _) \<Rightarrow> Got b | Inr _ \<Rightarrow> Refused | Inl _ \<Rightarrow> Failed)"

definition write_shape :: "guarded_write_result res \<Rightarrow> outcome" where
  "write_shape r =
     (case r of
        Inr (Written _) \<Rightarrow> Applied
      | Inr (AlreadyApplied _) \<Rightarrow> NoChange
      | Inr _ \<Rightarrow> Refused
      | Inl _ \<Rightarrow> Failed)"

definition delete_shape :: "guarded_delete_result res \<Rightarrow> outcome" where
  "delete_shape r =
     (case r of Inr Deleted \<Rightarrow> Applied | Inr AlreadyDeleted \<Rightarrow> NoChange | Inr _ \<Rightarrow> Refused | Inl _ \<Rightarrow> Failed)"

definition applied_as :: "guarded_write_result \<Rightarrow> file_fingerprint \<Rightarrow> bool" where
  "applied_as r fp \<longleftrightarrow> r = Written fp \<or> r = AlreadyApplied fp"

locale guarded_files =
  fixes ok :: "relative_path \<Rightarrow> 'w \<Rightarrow> bool"
    and stored :: "relative_path \<Rightarrow> 'w \<Rightarrow> (file_stat \<times> bytes) option"
    and seen :: "file_stat \<Rightarrow> bytes \<Rightarrow> file_fingerprint"
    and g_read :: "relative_path \<Rightarrow> file_fingerprint \<Rightarrow> 'w \<Rightarrow> guarded_read_result res \<times> 'w"
    and g_write :: "relative_path \<Rightarrow> bytes \<Rightarrow> expected_before \<Rightarrow> 'w \<Rightarrow> guarded_write_result res \<times> 'w"
    and g_delete :: "relative_path \<Rightarrow> expected_before \<Rightarrow> 'w \<Rightarrow> guarded_delete_result res \<times> 'w"
  assumes seen_full: "\<exists>c. seen s b = StatAndContent s c"
    and read_law: "ok p w \<Longrightarrow> g_read p fp w = (rr, w') \<Longrightarrow>
      ok p w' \<and> stored q w' = stored q w \<and>
      (if file_matches seen (PresentWithFingerprint fp) (stored p w)
       then \<exists>s b. stored p w = Some (s, b) \<and> rr = Inr (ReadOk b (seen s b))
       else \<exists>seen_entry. rr = Inr (ConflictBeforeRead seen_entry))"
    and write_law: "ok p w \<Longrightarrow> g_write p b e w = (rw, w') \<Longrightarrow>
      (if map_option snd (stored p w) = Some b then
         ok p w' \<and> stored p w' = stored p w \<and> (\<exists>s. stored p w = Some (s, b) \<and> rw = Inr (AlreadyApplied (seen s b)))
       else if file_matches seen e (stored p w) then
         ok p w' \<and> (\<exists>s. stored p w' = Some (s, b) \<and> rw = Inr (Written (seen s b)))
       else stored p w' = stored p w \<and> (\<exists>sp o'. rw = Inr (ConflictBeforeSwap sp o')))"
    and write_frame: "ok p w \<Longrightarrow> g_write p b e w = (rw, w') \<Longrightarrow> q \<noteq> p \<Longrightarrow> \<not> is_hard_ignored q \<Longrightarrow> stored q w' = stored q w"
    and delete_law: "ok p w \<Longrightarrow> g_delete p e w = (rd, w') \<Longrightarrow>
      ok p w' \<and>
      (if \<not> file_matches seen e (stored p w) then stored p w' = stored p w \<and> (\<exists>o'. rd = Inr (DeleteConflict o'))
       else stored p w' = None \<and> rd = Inr (if stored p w = None then AlreadyDeleted else Deleted))"
    and delete_frame: "ok p w \<Longrightarrow> g_delete p e w = (rd, w') \<Longrightarrow> q \<noteq> p \<Longrightarrow> stored q w' = stored q w"
begin

lemma seen_matches: "file_matches seen (PresentWithFingerprint (seen s b)) (Some (s, b))"
  using seen_full [of s b] by (auto simp: file_matches_def)

lemma applied:
  assumes "ok p w" and "g_write p b e w = (Inr r, w1)" and "applied_as r fp"
  shows "ok p w1 \<and> (\<exists>s. stored p w1 = Some (s, b) \<and> fp = seen s b)"
  using write_law [OF assms(1,2)] assms(3) by (auto simp: applied_as_def split: if_splits)

text \<open>The fingerprint a write returns is good for the next guarded operation on the file.\<close>

lemma read_back:
  assumes "ok p w" and "g_write p b e w = (Inr r, w1)" and "applied_as r fp"
  shows "fst (g_read p fp w1) = Inr (ReadOk b fp)"
proof -
  obtain s where s: "ok p w1" "stored p w1 = Some (s, b)" "fp = seen s b" using applied [OF assms] by blast
  obtain r2 w2 where "g_read p fp w1 = (r2, w2)" by fastforce
  with read_law [OF s(1) this, of p] s seen_matches [of s b] show ?thesis by auto
qed

lemma write_again:
  assumes "ok p w" and "g_write p b e w = (Inr r, w1)" and "applied_as r fp"
  shows "fst (g_write p b e' w1) = Inr (AlreadyApplied fp)"
proof -
  obtain s where s: "ok p w1" "stored p w1 = Some (s, b)" "fp = seen s b" using applied [OF assms] by blast
  obtain r2 w2 where "g_write p b e' w1 = (r2, w2)" by fastforce
  with write_law [OF s(1) this] s show ?thesis by auto
qed

lemma replace:
  assumes "ok p w" and "g_write p b e w = (Inr r, w1)" and "applied_as r fp" and "b2 \<noteq> b"
  shows "\<exists>fp2 w2. g_write p b2 (PresentWithFingerprint fp) w1 = (Inr (Written fp2), w2) \<and>
    fst (g_read p fp2 w2) = Inr (ReadOk b2 fp2)"
proof -
  obtain s where s: "ok p w1" "stored p w1 = Some (s, b)" "fp = seen s b" using applied [OF assms(1-3)] by blast
  obtain r2 w2 where w2: "g_write p b2 (PresentWithFingerprint fp) w1 = (r2, w2)" by fastforce
  obtain s2 where "r2 = Inr (Written (seen s2 b2))"
    using write_law [OF s(1) w2] s seen_matches [of s b] assms(4) by auto
  with w2 read_back [OF s(1), of b2 "PresentWithFingerprint fp" "Written (seen s2 b2)" w2 "seen s2 b2"]
  show ?thesis by (auto simp: applied_as_def)
qed

lemma delete_back:
  assumes "ok p w" and "g_write p b e w = (Inr r, w1)" and "applied_as r fp"
  shows "\<exists>w2. g_delete p (PresentWithFingerprint fp) w1 = (Inr Deleted, w2) \<and> stored p w2 = None"
proof -
  obtain s where s: "ok p w1" "stored p w1 = Some (s, b)" "fp = seen s b" using applied [OF assms] by blast
  obtain r2 w2 where "g_delete p (PresentWithFingerprint fp) w1 = (r2, w2)" by fastforce
  with delete_law [OF s(1) this] s seen_matches [of s b] show ?thesis by auto
qed

text \<open>Of two writers that expect no file, the second is refused.\<close>

lemma create_once:
  assumes "ok p w" and "g_write p b1 e w = (Inr r, w1)" and "applied_as r fp" and "b2 \<noteq> b1"
  shows "write_shape (fst (g_write p b2 Missing w1)) = Refused \<and> stored p (snd (g_write p b2 Missing w1)) = stored p w1"
proof -
  obtain s where s: "ok p w1" "stored p w1 = Some (s, b1)" using applied [OF assms(1-3)] by blast
  obtain r2 w2 where w2: "g_write p b2 Missing w1 = (r2, w2)" by fastforce
  with write_law [OF s(1) w2] s assms(4) show ?thesis by (auto simp: file_matches_def write_shape_def)
qed

text \<open>What an operation answers and leaves depends on nothing but the bytes and the match.\<close>

lemma read_spec:
  "ok p w \<Longrightarrow> read_shape (fst (g_read p fp w)) =
     (if file_matches seen (PresentWithFingerprint fp) (stored p w)
      then Got (snd (the (stored p w))) else Refused)"
  using read_law [of p w fp "fst (g_read p fp w)" "snd (g_read p fp w)" p]
  by (auto simp: read_shape_def split: if_splits)

lemma write_spec:
  "ok p w \<Longrightarrow>
     write_shape (fst (g_write p b e w)) =
       (if map_option snd (stored p w) = Some b then NoChange
        else if file_matches seen e (stored p w) then Applied else Refused) \<and>
     map_option snd (stored p (snd (g_write p b e w))) =
       (if file_matches seen e (stored p w) then Some b else map_option snd (stored p w))"
  using write_law [of p w b e "fst (g_write p b e w)" "snd (g_write p b e w)"]
  by (auto simp: write_shape_def split: if_splits)

lemma delete_spec:
  "ok p w \<Longrightarrow>
     delete_shape (fst (g_delete p e w)) =
       (if \<not> file_matches seen e (stored p w) then Refused
        else if map_option snd (stored p w) = None then NoChange else Applied) \<and>
     map_option snd (stored p (snd (g_delete p e w))) =
       (if file_matches seen e (stored p w) then None else map_option snd (stored p w))"
  using delete_law [of p w e "fst (g_delete p e w)" "snd (g_delete p e w)"]
  by (auto simp: delete_shape_def split: if_splits)

end

end
