(* ===== verification/Memory_Fs.thy ===== *)
theory Memory_Fs
  imports Fs_Actor File_Contract Log_Codec
begin

text \<open>
  The two other implementations of \<open>FileIO\<close>, both of the simulator: files in memory
  (\<open>sim/src/in_memory_file_io.rs\<close>) and the same with injected faults
  (\<open>sim/src/fault_injecting_file_io.rs\<close>). The counters (inode, logical time, statistics) count
  operations and are \<open>nat\<close> and \<open>int\<close>: their widths allow \<open>2 ^ 64\<close> operations. The mutex is held for
  a whole operation, so an operation is one step on the state.
\<close>

section \<open>Statistics\<close>

record mem_stats =
  guarded_read_read_count :: nat
  guarded_read_changed_between_stats_count :: nat
  guarded_read_conflict_before_read_count :: nat
  guarded_write_written_count :: nat
  guarded_write_already_applied_count :: nat
  guarded_write_conflict_before_swap_count :: nat
  guarded_write_conflict_after_swap_count :: nat
  guarded_write_conflict_count :: nat
  guarded_delete_deleted_count :: nat
  guarded_delete_already_deleted_count :: nat
  guarded_delete_conflict_count :: nat

definition mem_stats_default :: mem_stats where
  "mem_stats_default =
     \<lparr>guarded_read_read_count = 0, guarded_read_changed_between_stats_count = 0,
      guarded_read_conflict_before_read_count = 0, guarded_write_written_count = 0,
      guarded_write_already_applied_count = 0, guarded_write_conflict_before_swap_count = 0,
      guarded_write_conflict_after_swap_count = 0, guarded_write_conflict_count = 0,
      guarded_delete_deleted_count = 0, guarded_delete_already_deleted_count = 0,
      guarded_delete_conflict_count = 0\<rparr>"

definition stats_combine :: "mem_stats \<Rightarrow> mem_stats \<Rightarrow> mem_stats" where
  "stats_combine s t =
     \<lparr>guarded_read_read_count = guarded_read_read_count s + guarded_read_read_count t,
      guarded_read_changed_between_stats_count =
        guarded_read_changed_between_stats_count s + guarded_read_changed_between_stats_count t,
      guarded_read_conflict_before_read_count =
        guarded_read_conflict_before_read_count s + guarded_read_conflict_before_read_count t,
      guarded_write_written_count = guarded_write_written_count s + guarded_write_written_count t,
      guarded_write_already_applied_count =
        guarded_write_already_applied_count s + guarded_write_already_applied_count t,
      guarded_write_conflict_before_swap_count =
        guarded_write_conflict_before_swap_count s + guarded_write_conflict_before_swap_count t,
      guarded_write_conflict_after_swap_count =
        guarded_write_conflict_after_swap_count s + guarded_write_conflict_after_swap_count t,
      guarded_write_conflict_count = guarded_write_conflict_count s + guarded_write_conflict_count t,
      guarded_delete_deleted_count = guarded_delete_deleted_count s + guarded_delete_deleted_count t,
      guarded_delete_already_deleted_count =
        guarded_delete_already_deleted_count s + guarded_delete_already_deleted_count t,
      guarded_delete_conflict_count = guarded_delete_conflict_count s + guarded_delete_conflict_count t\<rparr>"

section \<open>The state\<close>

definition mem_device_id :: nat where
  "mem_device_id = 1"

record mem_entry =
  me_bytes :: bytes
  me_inode :: nat
  me_mtime :: time_ns

record mem_fs =
  mf_files :: "(relative_path, mem_entry) btree_map"
  mf_next_inode :: nat
  mf_logical_time_ns :: time_ns
  mf_stats :: mem_stats

definition mem_fs_new :: mem_fs where
  "mem_fs_new =
     \<lparr>mf_files = [], mf_next_inode = 1, mf_logical_time_ns = 0, mf_stats = mem_stats_default\<rparr>"

definition mem_insert_file :: "relative_path \<Rightarrow> bytes \<Rightarrow> mem_fs \<Rightarrow> mem_fs" where
  "mem_insert_file p b m =
     (let inode = mf_next_inode m; mtime = mf_logical_time_ns m + 1
      in m\<lparr>mf_next_inode := inode + 1, mf_logical_time_ns := mtime,
           mf_files := bt_insert p \<lparr>me_bytes = b, me_inode = inode, me_mtime = mtime\<rparr> (mf_files m)\<rparr>)"

section \<open>Edits made by the simulated user\<close>

definition mem_write_file :: "string \<Rightarrow> bytes \<Rightarrow> mem_fs \<Rightarrow> mem_fs res" where
  "mem_write_file path b m = map_ok (\<lambda>p. mem_insert_file p b m) (relative_path_parse path)"

text \<open>Appending, prepending and replacing keep the inode of an existing file.\<close>

definition mem_edit_file :: "(bytes \<Rightarrow> bytes) \<Rightarrow> bytes \<Rightarrow> relative_path \<Rightarrow> mem_fs \<Rightarrow> mem_fs" where
  "mem_edit_file edit created p m =
     (let mtime = mf_logical_time_ns m + 1; m1 = m\<lparr>mf_logical_time_ns := mtime\<rparr>
      in (case bt_get (mf_files m1) p of
            Some entry \<Rightarrow>
              m1\<lparr>mf_files :=
                bt_insert p (entry\<lparr>me_bytes := edit (me_bytes entry), me_mtime := mtime\<rparr>) (mf_files m1)\<rparr>
          | None \<Rightarrow>
              m1\<lparr>mf_next_inode := mf_next_inode m1 + 1,
                 mf_files := bt_insert p
                   \<lparr>me_bytes = created, me_inode = mf_next_inode m1, me_mtime = mtime\<rparr> (mf_files m1)\<rparr>))"

definition mem_append_file :: "string \<Rightarrow> bytes \<Rightarrow> mem_fs \<Rightarrow> mem_fs res" where
  "mem_append_file path b m = map_ok (\<lambda>p. mem_edit_file (\<lambda>old. old @ b) b p m) (relative_path_parse path)"

definition mem_replace_file_contents :: "string \<Rightarrow> bytes \<Rightarrow> mem_fs \<Rightarrow> mem_fs res" where
  "mem_replace_file_contents path b m = map_ok (\<lambda>p. mem_edit_file (\<lambda>_. b) b p m) (relative_path_parse path)"

definition mem_prepend_file :: "string \<Rightarrow> bytes \<Rightarrow> mem_fs \<Rightarrow> mem_fs res" where
  "mem_prepend_file path b m = map_ok (\<lambda>p. mem_edit_file (\<lambda>old. b @ old) b p m) (relative_path_parse path)"

definition mem_delete_file :: "string \<Rightarrow> mem_fs \<Rightarrow> mem_fs res" where
  "mem_delete_file path m =
     map_ok (\<lambda>p. m\<lparr>mf_files := bt_remove p (mf_files m), mf_logical_time_ns := mf_logical_time_ns m + 1\<rparr>)
       (relative_path_parse path)"

definition mem_rename_file :: "string \<Rightarrow> string \<Rightarrow> mem_fs \<Rightarrow> mem_fs res" where
  "mem_rename_file from to m =
     bind_res (relative_path_parse from) (\<lambda>f.
     bind_res (relative_path_parse to) (\<lambda>t.
       case bt_get (mf_files m) f of
         None \<Rightarrow> Inl Fatal
       | Some entry \<Rightarrow>
           Inr (m\<lparr>mf_files := bt_insert t entry (bt_remove f (mf_files m)),
                 mf_logical_time_ns := mf_logical_time_ns m + 1\<rparr>)))"

definition mem_snapshot_text_files :: "mem_fs \<Rightarrow> (string \<times> bytes) list res" where
  "mem_snapshot_text_files m =
     (if list_all (\<lambda>(p, e). utf8_valid (me_bytes e)) (mf_files m)
      then Inr (bt_of_list (map (\<lambda>(p, e). (to_db_path p, me_bytes e)) (mf_files m))) else Inl Fatal)"

definition mem_snapshot_utf8_text_files :: "mem_fs \<Rightarrow> (string \<times> bytes) list" where
  "mem_snapshot_utf8_text_files m =
     bt_of_list (map (\<lambda>(p, e). (to_db_path p, me_bytes e))
       (filter (\<lambda>(p, e). utf8_valid (me_bytes e)) (mf_files m)))"

section \<open>Fingerprints\<close>

definition mem_stat_fingerprint :: "mem_entry \<Rightarrow> file_stat" where
  "mem_stat_fingerprint e =
     \<lparr>stat_file_key = file_key_new mem_device_id (me_inode e), stat_size = length (me_bytes e),
      stat_mtime = me_mtime e\<rparr>"

definition mem_stat_entry :: "relative_path \<Rightarrow> mem_entry \<Rightarrow> tree_entry" where
  "mem_stat_entry p e = \<lparr>te_path = p, te_kind = File (StatOnly (mem_stat_fingerprint e))\<rparr>"

definition mem_full_fingerprint :: "('d, 'sv) ext \<Rightarrow> mem_entry \<Rightarrow> file_fingerprint" where
  "mem_full_fingerprint X e =
     StatAndContent (mem_stat_fingerprint e) (content_fingerprint X (me_bytes e))"

definition mem_entry_matches :: "('d, 'sv) ext \<Rightarrow> mem_entry \<Rightarrow> file_fingerprint \<Rightarrow> bool" where
  "mem_entry_matches X e expected =
     (case expected of
        StatOnly s \<Rightarrow> mem_stat_fingerprint e = s
      | StatAndContent _ _ \<Rightarrow> fingerprint_matches_observed (mem_full_fingerprint X e) expected)"

definition mem_observed_matches :: "('d, 'sv) ext \<Rightarrow> mem_entry option \<Rightarrow> expected_before \<Rightarrow> bool" where
  "mem_observed_matches X observed expected =
     (case expected of
        Anything \<Rightarrow> True
      | Missing \<Rightarrow> observed = None
      | PresentWithFingerprint fp \<Rightarrow>
          (case observed of None \<Rightarrow> False | Some e \<Rightarrow> mem_entry_matches X e fp))"

definition mem_temp_path_for :: "relative_path \<Rightarrow> relative_path res" where
  "mem_temp_path_for p =
     bind_res (file_name p) (\<lambda>name. with_file_name p (CHR ''.'' # name @ ''.opbox-sim-tmp''))"

definition mem_count :: "(mem_stats \<Rightarrow> mem_stats) \<Rightarrow> mem_fs \<Rightarrow> mem_fs" where
  "mem_count f m = m\<lparr>mf_stats := f (mf_stats m)\<rparr>"

section \<open>The operations of the trait\<close>

definition mem_scan :: "scan_scope \<Rightarrow> mem_fs \<Rightarrow> scan_result res \<times> mem_fs" where
  "mem_scan scope m =
     (map_ok (\<lambda>tree. \<lparr>scan_finished_at = mf_logical_time_ns m, scan_scope_of = scope, scan_tree = tree\<rparr>)
        (tree_new (map (\<lambda>(p, e). mem_stat_entry p e)
          (filter (\<lambda>(p, _). contains_path scope p \<and> \<not> is_hard_ignored p) (mf_files m)))), m)"

definition mem_stat :: "relative_path \<Rightarrow> mem_fs \<Rightarrow> tree_entry option res \<times> mem_fs" where
  "mem_stat p m = (Inr (map_option (mem_stat_entry p) (bt_get (mf_files m) p)), m)"

definition mem_guarded_read ::
  "('d, 'sv) ext \<Rightarrow> relative_path \<Rightarrow> file_fingerprint \<Rightarrow> mem_fs \<Rightarrow> guarded_read_result res \<times> mem_fs" where
  "mem_guarded_read X p expected m =
     (let refused = mem_count (\<lambda>s. s\<lparr>guarded_read_conflict_before_read_count :=
                guarded_read_conflict_before_read_count s + 1\<rparr>) m
      in (case bt_get (mf_files m) p of
            None \<Rightarrow> (Inr (ConflictBeforeRead None), refused)
          | Some e \<Rightarrow>
              if mem_stat_fingerprint e \<noteq> fp_stat expected then
                (Inr (ConflictBeforeRead (Some (mem_stat_entry p e))), refused)
              else if \<not> fingerprint_matches_observed (mem_full_fingerprint X e) expected then
                (Inr (ConflictBeforeRead (Some \<lparr>te_path = p, te_kind = File (mem_full_fingerprint X e)\<rparr>)),
                 refused)
              else
                (Inr (ReadOk (me_bytes e) (mem_full_fingerprint X e)),
                 mem_count (\<lambda>s. s\<lparr>guarded_read_read_count := guarded_read_read_count s + 1\<rparr>) m)))"

definition mem_guarded_write ::
  "('d, 'sv) ext \<Rightarrow> relative_path \<Rightarrow> bytes \<Rightarrow> expected_before \<Rightarrow> mem_fs \<Rightarrow> guarded_write_result res \<times> mem_fs"
where
  "mem_guarded_write X p b expected m =
     (let observed = bt_get (mf_files m) p
      in if map_option me_bytes observed = Some b then
           (Inr (AlreadyApplied (mem_full_fingerprint X (the observed))),
            mem_count (\<lambda>s. s\<lparr>guarded_write_already_applied_count :=
              guarded_write_already_applied_count s + 1\<rparr>) m)
         else if \<not> mem_observed_matches X observed expected then
           (case mem_temp_path_for p of
              Inl e \<Rightarrow> (Inl e, m)
            | Inr swap_path \<Rightarrow>
                (Inr (ConflictBeforeSwap swap_path (map_option (mem_stat_entry p) observed)),
                 mem_count (\<lambda>s. s\<lparr>guarded_write_conflict_before_swap_count :=
                   guarded_write_conflict_before_swap_count s + 1\<rparr>) m))
         else
           let m1 = mem_insert_file p b m
           in (case bt_get (mf_files m1) p of
                 None \<Rightarrow> (Inl Panicked, m1)
               | Some e \<Rightarrow>
                   (Inr (Written (mem_full_fingerprint X e)),
                    mem_count (\<lambda>s. s\<lparr>guarded_write_written_count := guarded_write_written_count s + 1\<rparr>) m1)))"

definition mem_guarded_delete ::
  "('d, 'sv) ext \<Rightarrow> relative_path \<Rightarrow> expected_before \<Rightarrow> mem_fs \<Rightarrow> guarded_delete_result res \<times> mem_fs" where
  "mem_guarded_delete X p expected m =
     (let observed = bt_get (mf_files m) p
      in if \<not> mem_observed_matches X observed expected then
           (Inr (DeleteConflict (map_option (mem_stat_entry p) observed)),
            mem_count (\<lambda>s. s\<lparr>guarded_delete_conflict_count := guarded_delete_conflict_count s + 1\<rparr>) m)
         else if observed = None then
           (Inr AlreadyDeleted,
            mem_count (\<lambda>s. s\<lparr>guarded_delete_already_deleted_count :=
              guarded_delete_already_deleted_count s + 1\<rparr>) m)
         else
           (Inr Deleted,
            mem_count (\<lambda>s. s\<lparr>guarded_delete_deleted_count := guarded_delete_deleted_count s + 1\<rparr>)
              (m\<lparr>mf_files := bt_remove p (mf_files m),
                 mf_logical_time_ns := mf_logical_time_ns m + 1\<rparr>)))"

definition mem_delete_if_exists :: "relative_path \<Rightarrow> mem_fs \<Rightarrow> delete_if_exists_result res \<times> mem_fs" where
  "mem_delete_if_exists p m =
     (if bt_get (mf_files m) p \<noteq> None then
        (Inr DieDeleted, m\<lparr>mf_files := bt_remove p (mf_files m), mf_logical_time_ns := mf_logical_time_ns m + 1\<rparr>)
      else (Inr DieAlreadyMissing, m))"

definition memory_file_io :: "('d, 'sv) ext \<Rightarrow> mem_fs file_io" where
  "memory_file_io X =
     \<lparr>fio_scan = \<lambda>scope m. Some (mem_scan scope m), fio_stat = mem_stat, fio_guarded_read = mem_guarded_read X,
      fio_guarded_write = mem_guarded_write X, fio_guarded_delete = mem_guarded_delete X,
      fio_delete_if_exists = mem_delete_if_exists\<rparr>"

section \<open>It keeps the contract\<close>

definition mem_ok :: "relative_path \<Rightarrow> mem_fs \<Rightarrow> bool" where
  "mem_ok p m \<longleftrightarrow> rp_valid p \<and> bt_wf (mf_files m)"

definition mem_stored :: "relative_path \<Rightarrow> mem_fs \<Rightarrow> (file_stat \<times> bytes) option" where
  "mem_stored p m = map_option (\<lambda>e. (mem_stat_fingerprint e, me_bytes e)) (bt_get (mf_files m) p)"

lemma mem_matches:
  "mem_observed_matches X (bt_get (mf_files m) p) e \<longleftrightarrow>
     file_matches (stat_and_content_fingerprint X) e (mem_stored p m)"
  by (auto simp: mem_observed_matches_def file_matches_def mem_stored_def mem_entry_matches_def
      mem_full_fingerprint_def stat_and_content_fingerprint_def fingerprint_matches_observed_def
      split: expected_before.splits option.splits file_fingerprint.splits)

lemma component_valid_wrap:
  assumes "component_valid n" and "set suffix \<inter> {CHR ''/'', CHR 0x00} = {}" and "suffix \<noteq> []"
  shows "component_valid (CHR ''.'' # n @ suffix)"
  using assms by (auto simp: component_valid_def append_eq_Cons_conv)

lemma sibling_ok:
  assumes "rp_valid p" and "set suffix \<inter> {CHR ''/'', CHR 0x00} = {}" and "suffix \<noteq> []"
  shows "\<exists>sp. bind_res (file_name p) (\<lambda>name. with_file_name p (CHR ''.'' # name @ suffix)) = Inr sp"
proof -
  have ne: "as_components p \<noteq> []" using assms(1) by (simp add: rp_valid_def)
  then have "component_valid (last (as_components p))" using assms(1) by (auto simp: rp_valid_def list_all_iff)
  from with_file_name_ok [OF assms(1) component_valid_wrap [OF this assms(2,3)]] ne
  show ?thesis by (simp add: file_name_def)
qed

lemma mem_temp_ok: "rp_valid p \<Longrightarrow> \<exists>sp. mem_temp_path_for p = Inr sp"
  unfolding mem_temp_path_for_def by (rule sibling_ok) simp_all

lemma mem_replace_run:
  assumes "rp_valid p"
  shows "\<exists>m'. mem_replace_file_contents (to_db_path p) b m = Inr m' \<and>
    (\<exists>e. bt_get (mf_files m') p = Some e \<and> me_bytes e = b) \<and>
    (\<forall>q. q \<noteq> p \<longrightarrow> bt_get (mf_files m') q = bt_get (mf_files m) q) \<and> (bt_wf (mf_files m) \<longrightarrow> bt_wf (mf_files m'))"
proof -
  have "relative_path_parse (to_db_path p) = Inr p" using to_db_path_valid assms by blast
  then show ?thesis
    by (auto simp: mem_replace_file_contents_def map_ok_def mem_edit_file_def Let_def bt_get_insert bt_wf_insert
        split: option.splits)
qed

lemmas mem_defs = mem_guarded_read_def mem_guarded_write_def mem_guarded_delete_def mem_count_def Let_def
  mem_stored_def mem_ok_def mem_insert_file_def mem_full_fingerprint_def stat_and_content_fingerprint_def
  bt_get_insert bt_get_remove bt_wf_insert bt_wf_remove

interpretation memory: guarded_files mem_ok mem_stored "stat_and_content_fingerprint X" "mem_guarded_read X"
  "mem_guarded_write X" "mem_guarded_delete X"
proof (unfold_locales, goal_cases)
  case (1 s b)
  then show ?case by (simp add: stat_and_content_fingerprint_def)
next
  case (2 p w fp r w' q)
  then show ?case
    by (auto simp: mem_defs file_matches_def fingerprint_matches_observed_def
        split: option.splits if_splits file_fingerprint.splits)
next
  case (3 p w b e r w')
  then show ?case
    using mem_temp_ok [of p] mem_matches [of X w p e]
    by (auto simp: mem_defs mem_stat_fingerprint_def split: option.splits if_splits)
next
  case (4 p w b e r w' q)
  then show ?case by (auto simp: mem_defs split: option.splits if_splits sum.splits)
next
  case (5 p w e r w')
  then show ?case
    using mem_matches [of X w p e] by (auto simp: mem_defs split: option.splits if_splits)
next
  case (6 p w e r w' q)
  then show ?case by (auto simp: mem_defs split: option.splits if_splits)
qed

end
