(* ===== verification/Fault_Fs.thy ===== *)
theory Fault_Fs
  imports Memory_Fs
begin

text \<open>
  \<open>sim/src/fault_injecting_file_io.rs\<close>: the files in memory behind a queue of faults. An operation
  takes the first fault of its kind queued for its path, if any, and plays it. The two mutexes are
  never held together, and the simulator runs one operation at a time, so an operation is one step.
\<close>

section \<open>Faults\<close>

datatype fault =
    GuardedReadChangedBetweenStats string bytes
  | GuardedReadPermissionDenied string
  | GuardedWriteConflictBeforeSwap string bytes
  | GuardedWriteConflictAfterSwap string bytes
  | GuardedWriteTempLeakAndFail string string bytes
  | DeleteIfExistsFailure string

record fault_fs =
  ff_inner :: mem_fs
  ff_faults :: "fault list"
  ff_stats :: mem_stats

definition fault_fs_new :: "mem_fs \<Rightarrow> fault_fs" where
  "fault_fs_new inner = \<lparr>ff_inner = inner, ff_faults = [], ff_stats = mem_stats_default\<rparr>"

definition fault_stats :: "fault_fs \<Rightarrow> mem_stats" where
  "fault_stats s = stats_combine (mf_stats (ff_inner s)) (ff_stats s)"

definition validate_path :: "string \<Rightarrow> string res" where
  "validate_path path = map_ok to_db_path (relative_path_parse path)"

definition push_fault :: "fault \<Rightarrow> fault_fs \<Rightarrow> fault_fs" where
  "push_fault f s = s\<lparr>ff_faults := ff_faults s @ [f]\<rparr>"

definition inject_guarded_read_permission_denied :: "string \<Rightarrow> fault_fs \<Rightarrow> fault_fs res" where
  "inject_guarded_read_permission_denied path s =
     map_ok (\<lambda>p. push_fault (GuardedReadPermissionDenied p) s) (validate_path path)"

definition inject_guarded_read_changed_between_stats :: "string \<Rightarrow> bytes \<Rightarrow> fault_fs \<Rightarrow> fault_fs res" where
  "inject_guarded_read_changed_between_stats path replacement s =
     map_ok (\<lambda>p. push_fault (GuardedReadChangedBetweenStats p replacement) s) (validate_path path)"

definition inject_guarded_write_conflict_before_swap :: "string \<Rightarrow> bytes \<Rightarrow> fault_fs \<Rightarrow> fault_fs res" where
  "inject_guarded_write_conflict_before_swap path replacement s =
     map_ok (\<lambda>p. push_fault (GuardedWriteConflictBeforeSwap p replacement) s) (validate_path path)"

definition inject_guarded_write_conflict_after_swap :: "string \<Rightarrow> bytes \<Rightarrow> fault_fs \<Rightarrow> fault_fs res" where
  "inject_guarded_write_conflict_after_swap path replacement s =
     map_ok (\<lambda>p. push_fault (GuardedWriteConflictAfterSwap p replacement) s) (validate_path path)"

definition inject_guarded_write_temp_leak_and_fail ::
  "string \<Rightarrow> string \<Rightarrow> bytes \<Rightarrow> fault_fs \<Rightarrow> fault_fs res" where
  "inject_guarded_write_temp_leak_and_fail path temp_path b s =
     bind_res (validate_path path) (\<lambda>p.
     map_ok (\<lambda>t. push_fault (GuardedWriteTempLeakAndFail p t b) s) (validate_path temp_path))"

definition inject_delete_if_exists_failure :: "string \<Rightarrow> fault_fs \<Rightarrow> fault_fs res" where
  "inject_delete_if_exists_failure path s =
     map_ok (\<lambda>p. push_fault (DeleteIfExistsFailure p) s) (validate_path path)"

text \<open>The first element satisfying the predicate, and the rest of the list.\<close>

fun take_first :: "('a \<Rightarrow> bool) \<Rightarrow> 'a list \<Rightarrow> ('a \<times> 'a list) option" where
  "take_first P [] = None"
| "take_first P (x # xs) =
     (if P x then Some (x, xs) else map_option (\<lambda>(y, ys). (y, x # ys)) (take_first P xs))"

definition take_fault :: "(fault \<Rightarrow> bool) \<Rightarrow> fault_fs \<Rightarrow> (fault \<times> fault_fs) option" where
  "take_fault P s = map_option (\<lambda>(f, fs). (f, s\<lparr>ff_faults := fs\<rparr>)) (take_first P (ff_faults s))"

definition add_stats :: "(mem_stats \<Rightarrow> mem_stats) \<Rightarrow> fault_fs \<Rightarrow> fault_fs" where
  "add_stats f s = s\<lparr>ff_stats := f (ff_stats s)\<rparr>"

definition fault_temp_path_for :: "relative_path \<Rightarrow> relative_path res" where
  "fault_temp_path_for p =
     bind_res (file_name p) (\<lambda>name. with_file_name p (CHR ''.'' # name @ ''.opbox-tmp-injected''))"

text \<open>The patterns of the \<open>matches!\<close> tests.\<close>

fun is_read_denied :: "string \<Rightarrow> fault \<Rightarrow> bool" where
  "is_read_denied p (GuardedReadPermissionDenied q) = (q = p)"
| "is_read_denied p _ = False"

fun is_read_changed :: "string \<Rightarrow> fault \<Rightarrow> bool" where
  "is_read_changed p (GuardedReadChangedBetweenStats q _) = (q = p)"
| "is_read_changed p _ = False"

fun is_temp_leak :: "string \<Rightarrow> fault \<Rightarrow> bool" where
  "is_temp_leak p (GuardedWriteTempLeakAndFail q _ _) = (q = p)"
| "is_temp_leak p _ = False"

fun is_before_swap :: "string \<Rightarrow> fault \<Rightarrow> bool" where
  "is_before_swap p (GuardedWriteConflictBeforeSwap q _) = (q = p)"
| "is_before_swap p _ = False"

fun is_after_swap :: "string \<Rightarrow> fault \<Rightarrow> bool" where
  "is_after_swap p (GuardedWriteConflictAfterSwap q _) = (q = p)"
| "is_after_swap p _ = False"

fun is_delete_failure :: "string \<Rightarrow> fault \<Rightarrow> bool" where
  "is_delete_failure p (DeleteIfExistsFailure q) = (q = p)"
| "is_delete_failure p _ = False"

section \<open>The operations\<close>

definition on_inner :: "(mem_fs \<Rightarrow> 'a \<times> mem_fs) \<Rightarrow> fault_fs \<Rightarrow> 'a \<times> fault_fs" where
  "on_inner f s = (case f (ff_inner s) of (r, m) \<Rightarrow> (r, s\<lparr>ff_inner := m\<rparr>))"

text \<open>Replacing the content of the file, then looking at it; the \<open>?\<close> of an invalid path ends the
  operation.\<close>

definition replace_then_stat ::
  "relative_path \<Rightarrow> bytes \<Rightarrow> fault_fs \<Rightarrow> (tree_entry option \<times> fault_fs) res" where
  "replace_then_stat p replacement s =
     map_ok (\<lambda>m. (map_option (mem_stat_entry p) (bt_get (mf_files m) p), s\<lparr>ff_inner := m\<rparr>))
       (mem_replace_file_contents (to_db_path p) replacement (ff_inner s))"

definition fault_guarded_read ::
  "('d, 'sv) ext \<Rightarrow> relative_path \<Rightarrow> file_fingerprint \<Rightarrow> fault_fs \<Rightarrow> guarded_read_result res \<times> fault_fs" where
  "fault_guarded_read X p expected s =
     (case take_fault (is_read_denied (to_db_path p)) s of
        Some (_, s1) \<Rightarrow> (Inl Fatal, s1)
      | None \<Rightarrow>
          (case take_fault (is_read_changed (to_db_path p)) s of
             Some (GuardedReadChangedBetweenStats _ replacement, s1) \<Rightarrow>
               (let before_entry = map_option (mem_stat_entry p) (bt_get (mf_files (ff_inner s1)) p)
                in (case replace_then_stat p replacement s1 of
                      Inl e \<Rightarrow> (Inl e, s1)
                    | Inr (after_entry, s2) \<Rightarrow>
                        (Inr (ChangedBetweenStats before_entry after_entry),
                         add_stats (\<lambda>st. st\<lparr>guarded_read_changed_between_stats_count :=
                           guarded_read_changed_between_stats_count st + 1\<rparr>) s2)))
           | _ \<Rightarrow> on_inner (mem_guarded_read X p expected) s))"

definition fault_guarded_write ::
  "('d, 'sv) ext \<Rightarrow> relative_path \<Rightarrow> bytes \<Rightarrow> expected_before \<Rightarrow> fault_fs \<Rightarrow> guarded_write_result res \<times> fault_fs"
where
  "fault_guarded_write X p b expected s =
     (case take_fault (is_temp_leak (to_db_path p)) s of
        Some (GuardedWriteTempLeakAndFail _ temp_path temp_bytes, s1) \<Rightarrow>
          (case mem_write_file temp_path temp_bytes (ff_inner s1) of
             Inl e \<Rightarrow> (Inl e, s1)
           | Inr m \<Rightarrow>
               (Inl Fatal,
                add_stats (\<lambda>st. st\<lparr>guarded_write_conflict_count := guarded_write_conflict_count st + 1\<rparr>)
                  (s1\<lparr>ff_inner := m\<rparr>)))
      | _ \<Rightarrow>
          (case take_fault (is_before_swap (to_db_path p)) s of
             Some (GuardedWriteConflictBeforeSwap _ replacement, s1) \<Rightarrow>
               (case replace_then_stat p replacement s1 of
                  Inl e \<Rightarrow> (Inl e, s1)
                | Inr (observed, s2) \<Rightarrow>
                    (case fault_temp_path_for p of
                       Inl e \<Rightarrow> (Inl e, s2)
                     | Inr swap_path \<Rightarrow>
                         (Inr (ConflictBeforeSwap swap_path observed),
                          add_stats (\<lambda>st. st\<lparr>guarded_write_conflict_before_swap_count :=
                            guarded_write_conflict_before_swap_count st + 1\<rparr>) s2)))
           | _ \<Rightarrow>
               (case on_inner (mem_guarded_write X p b expected) s of
                  (result, s1) \<Rightarrow>
                    if \<not> (case result of Inr (Written _) \<Rightarrow> True | Inr (AlreadyApplied _) \<Rightarrow> True | _ \<Rightarrow> False)
                    then (result, s1)
                    else
                      (case take_fault (is_after_swap (to_db_path p)) s1 of
                         Some (GuardedWriteConflictAfterSwap _ replacement, s2) \<Rightarrow>
                           (case replace_then_stat p replacement s2 of
                              Inl e \<Rightarrow> (Inl e, s2)
                            | Inr (observed, s3) \<Rightarrow>
                                (Inr (ConflictAfterSwap observed),
                                 add_stats (\<lambda>st. st\<lparr>guarded_write_conflict_after_swap_count :=
                                   guarded_write_conflict_after_swap_count st + 1\<rparr>) s3))
                       | _ \<Rightarrow> (result, s1)))))"

definition fault_delete_if_exists :: "relative_path \<Rightarrow> fault_fs \<Rightarrow> delete_if_exists_result res \<times> fault_fs" where
  "fault_delete_if_exists p s =
     (case take_fault (is_delete_failure (to_db_path p)) s of
        Some (_, s1) \<Rightarrow> (Inl Fatal, s1)
      | None \<Rightarrow> on_inner (mem_delete_if_exists p) s)"

definition fault_file_io :: "('d, 'sv) ext \<Rightarrow> fault_fs file_io" where
  "fault_file_io X =
     \<lparr>fio_scan = \<lambda>scope s. Some (on_inner (mem_scan scope) s), fio_stat = \<lambda>p. on_inner (mem_stat p),
      fio_guarded_read = fault_guarded_read X, fio_guarded_write = fault_guarded_write X,
      fio_guarded_delete = \<lambda>p e. on_inner (mem_guarded_delete X p e),
      fio_delete_if_exists = fault_delete_if_exists\<rparr>"

section \<open>Taking faults\<close>

lemma take_first_Some:
  "take_first P xs = Some (y, ys) \<Longrightarrow>
     \<exists>us vs. xs = us @ y # vs \<and> ys = us @ vs \<and> P y \<and> (\<forall>u\<in>set us. \<not> P u)"
proof (induction xs arbitrary: ys)
  case (Cons x xs)
  show ?case
  proof (cases "P x")
    case True
    with Cons.prems show ?thesis by (auto intro: exI [of _ "[]"])
  next
    case False
    with Cons.prems obtain zs where zs: "take_first P xs = Some (y, zs)" "ys = x # zs" by auto
    from Cons.IH [OF zs(1)] obtain us vs where "xs = us @ y # vs" "zs = us @ vs" "P y" "\<forall>u\<in>set us. \<not> P u" by blast
    with False zs(2) show ?thesis by (intro exI [of _ "x # us"] exI [of _ vs]) simp
  qed
qed simp

lemma take_first_None: "take_first P xs = None \<longleftrightarrow> (\<forall>x\<in>set xs. \<not> P x)"
  by (induction xs) auto

lemma take_fault_Some:
  "take_fault P s = Some (f, s1) \<Longrightarrow>
     P f \<and> f \<in> set (ff_faults s) \<and> ff_inner s1 = ff_inner s \<and> ff_stats s1 = ff_stats s \<and>
     mset (ff_faults s) = add_mset f (mset (ff_faults s1))"
  by (auto simp: take_fault_def dest!: take_first_Some)

lemma take_fault_None: "take_fault P s = None \<longleftrightarrow> (\<forall>f\<in>set (ff_faults s). \<not> P f)"
  by (simp add: take_fault_def take_first_None)

section \<open>Properties\<close>

fun fault_path :: "fault \<Rightarrow> string" where
  "fault_path (GuardedReadChangedBetweenStats p _) = p"
| "fault_path (GuardedReadPermissionDenied p) = p"
| "fault_path (GuardedWriteConflictBeforeSwap p _) = p"
| "fault_path (GuardedWriteConflictAfterSwap p _) = p"
| "fault_path (GuardedWriteTempLeakAndFail p _ _) = p"
| "fault_path (DeleteIfExistsFailure p) = p"

definition entry_now :: "relative_path \<Rightarrow> fault_fs \<Rightarrow> tree_entry option" where
  "entry_now p s = map_option (mem_stat_entry p) (bt_get (mf_files (ff_inner s)) p)"

text \<open>What an answer of the guarded write says of the files and of the faults that were queued.\<close>

definition write_answer_ok ::
  "('d, 'sv) ext \<Rightarrow> relative_path \<Rightarrow> bytes \<Rightarrow> fault list \<Rightarrow> guarded_write_result res \<Rightarrow> fault_fs \<Rightarrow> bool" where
  "write_answer_ok X p b queued r s \<longleftrightarrow>
     (case r of
        Inl _ \<Rightarrow> \<exists>t c. GuardedWriteTempLeakAndFail (to_db_path p) t c \<in> set queued
      | Inr (Written fp) \<Rightarrow> \<exists>st. mem_stored p (ff_inner s) = Some (st, b) \<and> fp = stat_and_content_fingerprint X st b
      | Inr (AlreadyApplied fp) \<Rightarrow>
          \<exists>st. mem_stored p (ff_inner s) = Some (st, b) \<and> fp = stat_and_content_fingerprint X st b
      | Inr (ConflictBeforeSwap _ observed) \<Rightarrow> observed = entry_now p s
      | Inr (ConflictAfterSwap observed) \<Rightarrow>
          observed = entry_now p s \<and>
          (\<exists>c st. GuardedWriteConflictAfterSwap (to_db_path p) c \<in> set queued \<and>
             mem_stored p (ff_inner s) = Some (st, c))
      | Inr (WriteConflict _) \<Rightarrow> False)"

definition consumed_ok :: "relative_path \<Rightarrow> fault_fs \<Rightarrow> fault_fs \<Rightarrow> bool" where
  "consumed_ok p s s' \<longleftrightarrow>
     ff_faults s' = ff_faults s \<or>
     (\<exists>f. fault_path f = to_db_path p \<and> mset (ff_faults s) = add_mset f (mset (ff_faults s')))"

lemma replace_then_stat_run:
  assumes "rp_valid p"
  shows "\<exists>s'. replace_then_stat p c s = Inr (entry_now p s', s') \<and> ff_faults s' = ff_faults s \<and>
    (\<exists>st. mem_stored p (ff_inner s') = Some (st, c))"
proof -
  obtain m' where m': "mem_replace_file_contents (to_db_path p) c (ff_inner s) = Inr m'"
    "\<exists>e. bt_get (mf_files m') p = Some e \<and> me_bytes e = c" using mem_replace_run [OF assms] by blast
  show ?thesis
    using m' by (intro exI [of _ "s\<lparr>ff_inner := m'\<rparr>"]) (auto simp: replace_then_stat_def map_ok_def entry_now_def mem_stored_def)
qed

lemma inner_write_ok:
  assumes "mem_ok p (ff_inner s)" and "on_inner (mem_guarded_write X p b e) s = (r, s')"
  shows "write_answer_ok X p b queued r s' \<and> ff_faults s' = ff_faults s"
proof -
  obtain m' where m': "mem_guarded_write X p b e (ff_inner s) = (r, m')" "s' = s\<lparr>ff_inner := m'\<rparr>"
    using assms(2) by (auto simp: on_inner_def split: prod.splits)
  show ?thesis
  proof (cases "\<exists>sp o'. r = Inr (ConflictBeforeSwap sp o')")
    case True
    then show ?thesis
      using m' by (auto simp: write_answer_ok_def entry_now_def mem_guarded_write_def mem_count_def Let_def
          split: if_splits sum.splits option.splits)
  next
    case False
    with memory.write_law [OF assms(1) m'(1)] m'(2) show ?thesis
      by (auto simp: write_answer_ok_def split: if_splits)
  qed
qed

lemma fault_patterns:
  "is_temp_leak p f \<Longrightarrow> \<exists>t c. f = GuardedWriteTempLeakAndFail p t c"
  "is_before_swap p f \<Longrightarrow> \<exists>c. f = GuardedWriteConflictBeforeSwap p c"
  "is_after_swap p f \<Longrightarrow> \<exists>c. f = GuardedWriteConflictAfterSwap p c"
  by (cases f; simp)+

lemma fault_write_ok:
  assumes ok: "mem_ok p (ff_inner s)" and run: "fault_guarded_write X p b e s = (r, s')"
  shows "write_answer_ok X p b (ff_faults s) r s' \<and> consumed_ok p s s'"
proof -
  let ?p = "to_db_path p"
  have valid: "rp_valid p" using ok by (simp add: mem_ok_def)
  obtain sw where sw: "fault_temp_path_for p = Inr sw"
    using sibling_ok [OF valid, of "''.opbox-tmp-injected''"] by (auto simp: fault_temp_path_for_def)
  show ?thesis
  proof (cases "take_fault (is_temp_leak ?p) s")
    case (Some fs)
    then obtain f s1 where f: "take_fault (is_temp_leak ?p) s = Some (f, s1)" by (cases fs) simp
    note t = take_fault_Some [OF f]
    obtain u c where "f = GuardedWriteTempLeakAndFail ?p u c" using t fault_patterns(1) by blast
    with t f run show ?thesis
      by (auto simp: fault_guarded_write_def write_answer_ok_def consumed_ok_def add_stats_def split: sum.splits)
  next
    case leak: None
    show ?thesis
    proof (cases "take_fault (is_before_swap ?p) s")
      case (Some fs)
      then obtain f s1 where f: "take_fault (is_before_swap ?p) s = Some (f, s1)" by (cases fs) simp
      note t = take_fault_Some [OF f]
      obtain c where c: "f = GuardedWriteConflictBeforeSwap ?p c" using t fault_patterns(2) by blast
      obtain s2 where s2: "replace_then_stat p c s1 = Inr (entry_now p s2, s2)" "ff_faults s2 = ff_faults s1"
        using replace_then_stat_run [OF valid] by blast
      show ?thesis
        using run leak f c s2 t sw
        by (auto simp: fault_guarded_write_def write_answer_ok_def consumed_ok_def add_stats_def entry_now_def)
    next
      case before: None
      obtain r1 s1 where in1: "on_inner (mem_guarded_write X p b e) s = (r1, s1)" by fastforce
      note inner = inner_write_ok [OF ok in1]
      show ?thesis
      proof (cases "(case r1 of Inr (Written _) \<Rightarrow> True | Inr (AlreadyApplied _) \<Rightarrow> True | _ \<Rightarrow> False) \<and>
          take_fault (is_after_swap ?p) s1 \<noteq> None")
        case False
        then have "(r, s') = (r1, s1)"
          using run leak before in1
          by (cases "take_fault (is_after_swap ?p) s1") (auto simp: fault_guarded_write_def split: if_splits)
        with inner show ?thesis by (simp add: consumed_ok_def)
      next
        case True
        then obtain f s2 where f: "take_fault (is_after_swap ?p) s1 = Some (f, s2)" by auto
        note t = take_fault_Some [OF f]
        obtain c where c: "f = GuardedWriteConflictAfterSwap ?p c" using t fault_patterns(3) by blast
        obtain s3 where s3: "replace_then_stat p c s2 = Inr (entry_now p s3, s3)" "ff_faults s3 = ff_faults s2"
          "\<exists>st. mem_stored p (ff_inner s3) = Some (st, c)"
          using replace_then_stat_run [OF valid] by blast
        have "(r, s') = (Inr (ConflictAfterSwap (entry_now p s3)),
            add_stats (\<lambda>st. st\<lparr>guarded_write_conflict_after_swap_count :=
              guarded_write_conflict_after_swap_count st + 1\<rparr>) s3)"
          using run leak before in1 True f c s3(1) by (simp add: fault_guarded_write_def)
        then show ?thesis
          using inner t c s3 by (auto simp: write_answer_ok_def consumed_ok_def add_stats_def entry_now_def)
      qed
    qed
  qed
qed

lemma no_fault_inner:
  assumes "\<forall>f\<in>set (ff_faults s). fault_path f \<noteq> to_db_path p"
  shows "fault_guarded_write X p b e s = on_inner (mem_guarded_write X p b e) s"
proof -
  let ?p = "to_db_path p"
  have none: "take_fault (is_temp_leak ?p) t = None" "take_fault (is_before_swap ?p) t = None"
    "take_fault (is_after_swap ?p) t = None" if "ff_faults t = ff_faults s" for t
    using assms that fault_patterns [of ?p] by (force simp: take_fault_None)+
  obtain r1 s1 where in1: "on_inner (mem_guarded_write X p b e) s = (r1, s1)" by fastforce
  then have "ff_faults s1 = ff_faults s" by (auto simp: on_inner_def split: prod.splits)
  from none [OF refl] none(3) [OF this] in1 show ?thesis by (simp add: fault_guarded_write_def)
qed

text \<open>Whatever faults are queued, the answer of the fault-injecting guarded write is true of the
  files it leaves (what is reported as written is there under the returned fingerprint, a reported
  conflict shows the entry that is there, an error only comes from a queued fault), at most
  one fault is consumed and none of another path, and without a fault for the path the
  operation is that of the files in memory.\<close>

theorem fault_injection_sound:
  assumes "mem_ok p (ff_inner s)" and "fault_guarded_write X p b e s = (r, s')"
  shows "write_answer_ok X p b (ff_faults s) r s' \<and> consumed_ok p s s' \<and>
    ((\<forall>f\<in>set (ff_faults s). fault_path f \<noteq> to_db_path p) \<longrightarrow>
       (r, s') = on_inner (mem_guarded_write X p b e) s)"
  using fault_write_ok [OF assms] no_fault_inner [of s p X b e] assms(2) by simp

definition demo_fault_fs :: fault_fs where
  "demo_fault_fs = (fault_fs_new mem_fs_new)\<lparr>ff_faults := [GuardedWriteConflictAfterSwap ''a'' ''user'']\<rparr>"

theorem fault_injection_sound_witness:
  "\<exists>st s'. fault_guarded_write (demo_ext (\<lambda>_. [])) (RelativePath [''a'']) ''new'' Missing demo_fault_fs =
      (Inr (ConflictAfterSwap (entry_now (RelativePath [''a'']) s')), s') \<and>
    mem_stored (RelativePath [''a'']) (ff_inner s') = Some (st, ''user'')"
proof -
  let ?X = "demo_ext (\<lambda>_. [])" and ?p = "RelativePath [''a'']"
  obtain r s' where run: "fault_guarded_write ?X ?p ''new'' Missing demo_fault_fs = (r, s')" by fastforce
  have ok: "mem_ok ?p (ff_inner demo_fault_fs)"
    by (simp add: mem_ok_def demo_fault_fs_def fault_fs_new_def mem_fs_new_def bt_wf_def rp_valid_def component_valid_def)
  have parse: "relative_path_parse ''a'' = Inr ?p"
    using to_db_path_valid [of ?p] ok by (simp add: to_db_path_def mem_ok_def)
  have "\<exists>o'. r = Inr (ConflictAfterSwap o')"
    using run parse
    by (auto simp: fault_guarded_write_def demo_fault_fs_def fault_fs_new_def take_fault_def to_db_path_def on_inner_def
        mem_guarded_write_def mem_fs_new_def bt_get_def mem_observed_matches_def mem_insert_file_def mem_count_def
        Let_def replace_then_stat_def mem_replace_file_contents_def map_ok_def split: if_splits)
  then obtain o' where o': "r = Inr (ConflictAfterSwap o')" by blast
  from fault_injection_sound [OF ok run] o'
  have "o' = entry_now ?p s'" "\<exists>st. mem_stored ?p (ff_inner s') = Some (st, ''user'')"
    by (auto simp: write_answer_ok_def demo_fault_fs_def)
  with run o' show ?thesis by auto
qed

end
