(* ===== verification/Local_Contract.thy ===== *)
theory Local_Contract
  imports Local_Quiet Fault_Fs
begin

text \<open>
  \<open>LocalFileIO\<close> on an undisturbed disk keeps the contract \<open>guarded_files\<close>, so the lemmas of the
  contract hold of it; and the files in memory, which keep it too, are a faithful stand-in: an
  operation answers and changes the bytes of its file the same way in both.
\<close>

section \<open>Undisturbed disks stay undisturbed\<close>

definition settled :: "world \<Rightarrow> bool" where
  "settled w \<longleftrightarrow> calm w \<and> bt_wf (w_disk w)"

definition keeps :: "'a io \<Rightarrow> bool" where
  "keeps m \<longleftrightarrow> (\<forall>w. settled w \<longrightarrow> settled (snd (m w)))"

named_theorems keep_rules \<open>programs that keep an undisturbed disk well-formed\<close>

lemma keeps_basics [keep_rules]:
  "keeps (return_io x)" "keeps (fail_io e)" "keeps (lift_io r)" "keeps random_u64"
  by (simp_all add: keeps_def return_io_def fail_io_def lift_io_def random_u64_def)

lemma keepsD: "keeps m \<Longrightarrow> settled w \<Longrightarrow> m w = (r, w') \<Longrightarrow> settled w'"
  by (metis keeps_def snd_conv)

lemma keeps_bind [keep_rules]: "keeps m \<Longrightarrow> (\<And>x. keeps (f x)) \<Longrightarrow> keeps (bind_io m f)"
  by (auto simp: keeps_def bind_io_def split: prod.splits sum.splits)

lemma keeps_read_call [keep_rules]: "keeps (read_call f)"
  by (simp add: keeps_def read_call_def settled_def calm_def interfered_def Let_def)

lemma write_call_settled:
  assumes "settled w" and "\<And>n d. bt_wf d \<Longrightarrow> bt_wf (snd (f n d))"
  shows "settled (snd (write_call e f w))"
  using assms(1) assms(2) [of "w_disk w" "w_calls w"]
  by (auto simp: write_call_def settled_def calm_def interfered_def Let_def split: prod.splits)

lemma disk_calls_wf:
  "bt_wf d \<Longrightarrow> bt_wf (snd (disk_create_dir_all p d))" "bt_wf d \<Longrightarrow> bt_wf (snd (disk_write k t p b d))"
  "bt_wf d \<Longrightarrow> bt_wf (snd (disk_rename p q d))" "bt_wf d \<Longrightarrow> bt_wf (snd (disk_remove_file p d))"
  by (auto simp: disk_create_dir_all_def make_dirs_wf disk_write_def bt_wf_insert disk_rename_def bt_wf_remove
      disk_remove_file_def move_subtree_def bt_of_list_def btree.wf_fold_insert btree.wf_empty
      split: option.splits node.splits)

lemma keeps_calls [keep_rules]:
  "keeps (symlink_metadata p)" "keeps (read_file p)" "keeps (create_dir_all p)" "keeps (write_file p b)"
  "keeps (rename_file p q)" "keeps (remove_file p)"
  by (auto simp: symlink_metadata_def read_file_def keep_rules)
    (auto simp: keeps_def create_dir_all_def write_file_def rename_file_def remove_file_def
      intro!: write_call_settled disk_calls_wf)

lemma keeps_or_fail [keep_rules]: "keeps m \<Longrightarrow> keeps (or_fail m)"
  unfolding or_fail_def by (intro keeps_bind) (auto simp: keep_rules split: sys.splits)

lemma keeps_stat_path [keep_rules]: "keeps (stat_path p)"
  unfolding stat_path_def by (intro keeps_bind) (auto simp: keep_rules split: sys.splits metadata.splits)

lemma keeps_stable_read [keep_rules]: "keeps (stable_read_file X p)"
  unfolding stable_read_file_def
  by (intro keep_rules) (auto intro!: keep_rules split: option.splits sys.splits)

lemma keeps_observe [keep_rules]: "keeps (observe_for_expected X p e)"
  unfolding observe_for_expected_def
  by (auto intro!: keep_rules split: expected_before.splits file_fingerprint.splits stable_file_read.splits)

lemma keeps_guarded:
  "keeps (guarded_read X p fp)" "keeps (guarded_write X p b e)" "keeps (guarded_delete X p e)"
  unfolding guarded_read_def guarded_write_def write_and_swap_def guarded_delete_def Let_def
  by (auto intro!: keep_rules split: option.splits sys.splits)

section \<open>The contract\<close>

definition local_ok :: "relative_path \<Rightarrow> world \<Rightarrow> bool" where
  "local_ok p w \<longleftrightarrow>
     rp_valid p \<and> settled w \<and> clear_above (w_disk w) (as_components p) \<and> no_swap_files (w_disk w) p \<and>
     bt_get (w_disk w) (as_components p) \<noteq> Some node.Dir \<and> \<not> is_hard_ignored p"

definition local_stored :: "relative_path \<Rightarrow> world \<Rightarrow> (file_stat \<times> bytes) option" where
  "local_stored p w = file_at p (w_disk w)"

lemma local_entry_None:
  "local_ok p w \<Longrightarrow> disk_entry p (w_disk w) = None \<longleftrightarrow> local_stored p w = None"
  by (auto simp: local_ok_def local_stored_def disk_entry_def file_at_def split: option.splits node.splits)

lemma local_matches:
  "local_ok p w \<Longrightarrow>
     disk_matches X p e (w_disk w) \<longleftrightarrow> file_matches (stat_and_content_fingerprint X) e (local_stored p w)"
  using local_entry_None [of p w]
  by (auto simp: disk_matches_def file_matches_def local_stored_def stat_and_content_fingerprint_def
      split: expected_before.splits file_fingerprint.splits option.splits)

text \<open>The path stays usable after a write that took effect.\<close>

lemma parents_clear:
  assumes "clear_above d (as_components p)" and "rp_valid p"
    and "bt_get d' = (with_parents p d)(as_components p \<mapsto> n)"
  shows "clear_above d' (as_components p)"
  using assms by (auto simp: clear_above_def with_parents_def dest!: arg_cong [where f = length])

lemma parents_no_swap:
  assumes "no_swap_files d p" and "rp_valid p" and "bt_get d' = (with_parents p d)(as_components p \<mapsto> n)"
  shows "no_swap_files d' p"
  unfolding no_swap_files_def
proof (intro allI impI)
  fix k sp
  assume sp: "temp_path_for k p = Inr sp"
  obtain c where c: "as_components sp = butlast (as_components p) @ [c]" "c \<noteq> last (as_components p)"
    using temp_components [OF assms(2) sp] by blast
  have "as_components p \<noteq> []" using assms(2) by (simp add: rp_valid_def)
  then have "length (as_components sp) = length (as_components p)" "as_components sp \<noteq> as_components p"
    using c by (auto simp: snoc_eq_iff_butlast)
  moreover from this(1) have "as_components sp \<notin> set (prefixes_of (absolute_parent p))"
    using parent_prefix [OF assms(2), of "as_components sp"] by auto
  ultimately show "bt_get d' (as_components sp) = None"
    using assms(1,3) sp by (simp add: with_parents_def no_swap_files_def)
qed

lemma stored_elsewhere:
  assumes "bt_get d' (as_components q) = with_parents p d (as_components q)"
  shows "file_at q d' = file_at q d"
  using assms by (auto simp: file_at_def with_parents_def split: option.splits node.splits)

lemma not_own_parent:
  assumes "rp_valid p"
  shows "as_components p \<notin> set (prefixes_of (absolute_parent p))"
proof
  assume "as_components p \<in> set (prefixes_of (absolute_parent p))"
  then obtain n where n: "n < length (as_components p)" "as_components p = take n (as_components p)"
    using parent_prefix [OF assms] by blast
  then have "length (as_components p) = n" by (metis length_take min.absorb4)
  with n(1) show False by simp
qed

lemma local_write:
  assumes ok: "local_ok p w" and run: "guarded_write X p b e w = (r, w')"
  shows "write_outcome X p b e (w_disk w) r (w_disk w')" and "settled w'"
proof -
  have "wp (guarded_write X p b e) (\<lambda>r w'. write_outcome X p b e (w_disk w) r (w_disk w')) w"
    using ok by (intro quiet_guarded_write) (simp_all add: local_ok_def settled_def)
  from wpD [OF this run] show "write_outcome X p b e (w_disk w) r (w_disk w')" .
  show "settled w'" using keepsD [OF keeps_guarded(2) _ run] ok by (simp add: local_ok_def)
qed

lemma local_write_law:
  assumes ok: "local_ok p w" and run: "guarded_write X p b e w = (r, w')"
  shows "if map_option snd (local_stored p w) = Some b then
      local_ok p w' \<and> local_stored p w' = local_stored p w \<and>
      (\<exists>s. local_stored p w = Some (s, b) \<and> r = Inr (AlreadyApplied (stat_and_content_fingerprint X s b)))
    else if file_matches (stat_and_content_fingerprint X) e (local_stored p w) then
      local_ok p w' \<and>
      (\<exists>s. local_stored p w' = Some (s, b) \<and> r = Inr (Written (stat_and_content_fingerprint X s b)))
    else local_stored p w' = local_stored p w \<and> (\<exists>sp o'. r = Inr (ConflictBeforeSwap sp o'))"
proof -
  note out = local_write [OF ok run]
  let ?d = "w_disk w" and ?d' = "w_disk w'" and ?c = "as_components p"
  consider (same) "map_option snd (local_stored p w) = Some b"
    | (refused) "map_option snd (local_stored p w) \<noteq> Some b" "\<not> disk_matches X p e ?d"
    | (written) "map_option snd (local_stored p w) \<noteq> Some b" "disk_matches X p e ?d" by blast
  then show ?thesis
  proof cases
    case same
    then show ?thesis using out ok by (auto simp: write_outcome_def local_stored_def local_ok_def)
  next
    case refused
    then obtain sp n where "r = Inr (ConflictBeforeSwap sp (observed_value X p e ?d))" "is_hard_ignored sp"
      "bt_get ?d' = (with_parents p ?d)(as_components sp \<mapsto> n)"
      using out(1) by (auto simp: write_outcome_def local_stored_def)
    moreover from this(2) ok have "as_components sp \<noteq> ?c" by (auto simp: local_ok_def is_hard_ignored_def)
    moreover have "with_parents p ?d ?c = bt_get ?d ?c"
      using ok not_own_parent [of p] by (simp add: with_parents_def local_ok_def)
    ultimately have "local_stored p w' = local_stored p w" by (auto simp: local_stored_def intro: file_at_cong(1))
    with \<open>r = _\<close> refused local_matches [OF ok, of X e] show ?thesis by simp
  next
    case written
    then obtain k t where r: "r = Inr (Written (stat_and_content_fingerprint X
         \<lparr>stat_file_key = k, stat_size = length b, stat_mtime = t\<rparr> b))"
      and d': "bt_get ?d' = (with_parents p ?d)(?c \<mapsto> RegularFile k t b)"
      using out(1) ok by (auto simp: write_outcome_def local_stored_def local_ok_def)
    have "local_ok p w'"
      using ok out(2) d' parents_clear [OF _ _ d'] parents_no_swap [OF _ _ d'] by (auto simp: local_ok_def)
    then show ?thesis
      using written r d' local_matches [OF ok, of X e] by (auto simp: local_stored_def file_at_def)
  qed
qed

lemma local_write_frame:
  assumes ok: "local_ok p w" and run: "guarded_write X p b e w = (r, w')"
    and "q \<noteq> p" and "\<not> is_hard_ignored q"
  shows "local_stored q w' = local_stored q w"
proof -
  have q: "as_components q \<noteq> as_components p" using assms(3) by (metis relative_path.expand)
  have sp: "as_components sp \<noteq> as_components q" if "is_hard_ignored sp" for sp
    using assms(4) that by (auto simp: is_hard_ignored_def)
  have "bt_get (w_disk w') (as_components q) = with_parents p (w_disk w) (as_components q) \<or> w_disk w' = w_disk w"
    using local_write(1) [OF ok run] q sp by (fastforce simp: write_outcome_def split: if_splits)
  then show ?thesis using stored_elsewhere [of "w_disk w'" q p "w_disk w"] by (auto simp: local_stored_def)
qed

lemma local_read_law:
  assumes ok: "local_ok p w" and run: "guarded_read X p fp w = (r, w')"
  shows "local_ok p w' \<and> local_stored q w' = local_stored q w \<and>
    (if file_matches (stat_and_content_fingerprint X) (PresentWithFingerprint fp) (local_stored p w)
     then \<exists>s b. local_stored p w = Some (s, b) \<and> r = Inr (ReadOk b (stat_and_content_fingerprint X s b))
     else \<exists>entry. r = Inr (ConflictBeforeRead entry))"
proof -
  have "wp (guarded_read X p fp) (\<lambda>r w'. r = Inr (read_outcome X p fp (w_disk w)) \<and> w_disk w' = w_disk w) w"
    using ok by (intro quiet_guarded_read) (simp_all add: local_ok_def settled_def)
  from wpD [OF this run] have r: "r = Inr (read_outcome X p fp (w_disk w))" and d: "w_disk w' = w_disk w" by auto
  have "settled w'" using keepsD [OF keeps_guarded(1) _ run] ok by (simp add: local_ok_def)
  with ok d have "local_ok p w'" by (simp add: local_ok_def)
  moreover note local_matches [OF ok, of X "PresentWithFingerprint fp"]
  moreover have "file_matches (stat_and_content_fingerprint X) (PresentWithFingerprint fp) (Some (s, b)) \<Longrightarrow> s = fp_stat fp"
    for s b
    by (auto simp: file_matches_def stat_and_content_fingerprint_def split: file_fingerprint.splits)
  ultimately show ?thesis
    using r d by (auto simp: read_outcome_def local_stored_def file_matches_def split: option.splits)
qed

lemma local_delete_law:
  assumes ok: "local_ok p w" and run: "guarded_delete X p e w = (r, w')"
  shows "local_ok p w' \<and>
    (if \<not> file_matches (stat_and_content_fingerprint X) e (local_stored p w)
     then local_stored p w' = local_stored p w \<and> (\<exists>o'. r = Inr (DeleteConflict o'))
     else local_stored p w' = None \<and> r = Inr (if local_stored p w = None then AlreadyDeleted else Deleted))"
    and "q \<noteq> p \<Longrightarrow> local_stored q w' = local_stored q w"
proof -
  let ?d = "w_disk w" and ?d' = "w_disk w'" and ?c = "as_components p"
  have "wp (guarded_delete X p e) (\<lambda>r w'. delete_outcome X p e (w_disk w) r (w_disk w')) w"
    using ok by (intro quiet_guarded_delete) (simp_all add: local_ok_def settled_def)
  from wpD [OF this run] have out: "delete_outcome X p e ?d r ?d'" .
  have st: "settled w'" using keepsD [OF keeps_guarded(3) _ run] ok by (simp add: local_ok_def)
  have wf: "bt_wf ?d" using ok by (simp add: local_ok_def settled_def)
  have d': "?d' = ?d \<or> ?d' = bt_remove ?c ?d" using out by (auto simp: delete_outcome_def split: if_splits)
  have "clear_above ?d' ?c" "no_swap_files ?d' p" "bt_get ?d' ?c \<noteq> Some node.Dir"
    using d' ok wf by (auto simp: local_ok_def clear_above_def no_swap_files_def bt_get_remove)
  then have ok': "local_ok p w'" using ok st by (simp add: local_ok_def)
  have gone: "file_at p (bt_remove ?c ?d) = None" using wf by (simp add: file_at_def bt_get_remove)
  show "local_ok p w' \<and>
    (if \<not> file_matches (stat_and_content_fingerprint X) e (local_stored p w)
     then local_stored p w' = local_stored p w \<and> (\<exists>o'. r = Inr (DeleteConflict o'))
     else local_stored p w' = None \<and> r = Inr (if local_stored p w = None then AlreadyDeleted else Deleted))"
    using out ok' local_matches [OF ok, of X e] local_entry_None [OF ok] gone ok
    by (auto simp: delete_outcome_def local_stored_def local_ok_def split: if_splits)
  show "local_stored q w' = local_stored q w" if "q \<noteq> p"
  proof -
    have "as_components q \<noteq> ?c" using that by (metis relative_path.expand)
    then have "bt_get ?d' (as_components q) = bt_get ?d (as_components q)" using d' wf by (auto simp: bt_get_remove)
    then show ?thesis unfolding local_stored_def by (rule file_at_cong(1))
  qed
qed

interpretation disk: guarded_files local_ok local_stored "stat_and_content_fingerprint X" "guarded_read X"
  "guarded_write X" "guarded_delete X"
proof (unfold_locales, goal_cases)
  case 1
  then show ?case by (simp add: stat_and_content_fingerprint_def)
next
  case 2
  then show ?case by (rule local_read_law)
next
  case 3
  then show ?case by (rule local_write_law)
next
  case 4
  then show ?case by (rule local_write_frame)
next
  case 5
  then show ?case by (rule local_delete_law(1))
next
  case 6
  then show ?case using local_delete_law(2) by blast
qed

section \<open>Properties\<close>

text \<open>(C15) The simulator's files in memory stand in for the disk: for a file with the same bytes in both
  and an expectation that holds in both or in neither, the guarded read, write and delete of
  the two implementations of \<open>FileIO\<close> answer the same (up to metadata) and leave the same bytes.\<close>

theorem file_io_implementations_agree:
  assumes "local_ok p w" and "mem_ok p m"
    and "map_option snd (local_stored p w) = map_option snd (mem_stored p m)"
    and "file_matches (stat_and_content_fingerprint X) e (local_stored p w) \<longleftrightarrow>
      file_matches (stat_and_content_fingerprint X) e' (mem_stored p m)"
    and "file_matches (stat_and_content_fingerprint X) (PresentWithFingerprint fp) (local_stored p w) \<longleftrightarrow>
      file_matches (stat_and_content_fingerprint X) (PresentWithFingerprint fp') (mem_stored p m)"
  shows "read_shape (fst (fio_guarded_read (local_file_io G X) p fp w)) =
      read_shape (fst (fio_guarded_read (memory_file_io X) p fp' m)) \<and>
    write_shape (fst (fio_guarded_write (local_file_io G X) p b e w)) =
      write_shape (fst (fio_guarded_write (memory_file_io X) p b e' m)) \<and>
    map_option snd (local_stored p (snd (fio_guarded_write (local_file_io G X) p b e w))) =
      map_option snd (mem_stored p (snd (fio_guarded_write (memory_file_io X) p b e' m))) \<and>
    delete_shape (fst (fio_guarded_delete (local_file_io G X) p e w)) =
      delete_shape (fst (fio_guarded_delete (memory_file_io X) p e' m)) \<and>
    map_option snd (local_stored p (snd (fio_guarded_delete (local_file_io G X) p e w))) =
      map_option snd (mem_stored p (snd (fio_guarded_delete (memory_file_io X) p e' m)))"
proof -
  have read: "snd (the (local_stored p w)) = snd (the (mem_stored p m))"
    if "file_matches (stat_and_content_fingerprint X) (PresentWithFingerprint fp) (local_stored p w)"
    using that assms(3) by (cases "local_stored p w"; cases "mem_stored p m") (auto simp: file_matches_def)
  show ?thesis
    using disk.read_spec [OF assms(1), of X fp] memory.read_spec [OF assms(2), of X fp'] read
      disk.write_spec [OF assms(1), of X b e] memory.write_spec [OF assms(2), of X b e']
      disk.delete_spec [OF assms(1), of X e] memory.delete_spec [OF assms(2), of X e'] assms(3-5)
    by (simp add: local_file_io_def memory_file_io_def)
qed

lemma demo_local_ok: "local_ok (RelativePath [''a'']) (demo_world demo_disk)"
proof -
  have "bt_get demo_disk [''a''] \<noteq> Some node.Dir" "\<not> is_hard_ignored (RelativePath [''a''])"
    by (simp_all add: demo_disk_def bt_get_def is_hard_ignored_def metadata_dir_name_def
        is_projection_temp_component_def starts_with_def)
  then show ?thesis using demo_disk_ok demo_quiet by (simp add: local_ok_def settled_def)
qed

definition demo_memory :: mem_fs where
  "demo_memory = mem_insert_file (RelativePath [''a'']) ''old'' mem_fs_new"

lemma demo_stored:
  "\<exists>s. local_stored (RelativePath [''a'']) (demo_world demo_disk) = Some (s, ''old'')"
  "\<exists>s. mem_stored (RelativePath [''a'']) demo_memory = Some (s, ''old'')"
  by (simp_all add: local_stored_def demo_world_def demo_disk_def file_at_def bt_get_def mem_stored_def demo_memory_def
      mem_insert_file_def mem_fs_new_def Let_def)

theorem file_io_implementations_agree_witness:
  "write_shape (fst (guarded_write (demo_ext (\<lambda>_. [])) (RelativePath [''a'']) ''new'' Missing (demo_world demo_disk))) =
     write_shape (fst (mem_guarded_write (demo_ext (\<lambda>_. [])) (RelativePath [''a'']) ''new'' Missing demo_memory))"
proof -
  let ?p = "RelativePath [''a'']" and ?X = "demo_ext (\<lambda>_. [])"
  obtain s1 s2 where st: "local_stored ?p (demo_world demo_disk) = Some (s1, ''old'')"
    "mem_stored ?p demo_memory = Some (s2, ''old'')" using demo_stored by blast
  have mem: "mem_ok ?p demo_memory"
    using demo_disk_ok(1) by (simp add: mem_ok_def demo_memory_def mem_insert_file_def mem_fs_new_def bt_wf_def Let_def)
  from file_io_implementations_agree [OF demo_local_ok mem, of ?X Missing Missing "StatOnly s1" "StatOnly s2"] st
  show ?thesis by (simp add: file_matches_def local_file_io_def memory_file_io_def)
qed

text \<open>(C16) What a guarded write to the disk reports can be relied on: with the fingerprint it returned, the
  next guarded read gives the bytes back, writing them again changes nothing, another writer that
  expects no file is refused, and a guarded delete removes the file.\<close>

theorem local_write_round_trip:
  assumes "local_ok p w" and "guarded_write X p b e w = (Inr r, w1)" and "applied_as r fp"
  shows "fst (guarded_read X p fp w1) = Inr (ReadOk b fp) \<and>
    fst (guarded_write X p b e' w1) = Inr (AlreadyApplied fp) \<and>
    (b2 \<noteq> b \<longrightarrow> write_shape (fst (guarded_write X p b2 Missing w1)) = Refused) \<and>
    (\<exists>w2. guarded_delete X p (PresentWithFingerprint fp) w1 = (Inr Deleted, w2) \<and> local_stored p w2 = None)"
  using disk.read_back [OF assms] disk.write_again [OF assms] disk.delete_back [OF assms]
    disk.create_once [OF assms, of b2] by blast

theorem local_write_round_trip_witness:
  "\<exists>fp w1. guarded_write (demo_ext (\<lambda>_. [])) (RelativePath [''a'']) ''new'' Anything (demo_world demo_disk) =
      (Inr (Written fp), w1) \<and>
    fst (guarded_read (demo_ext (\<lambda>_. [])) (RelativePath [''a'']) fp w1) = Inr (ReadOk ''new'' fp)"
proof -
  let ?p = "RelativePath [''a'']" and ?X = "demo_ext (\<lambda>_. [])"
  obtain r w1 where run: "guarded_write ?X ?p ''new'' Anything (demo_world demo_disk) = (r, w1)" by fastforce
  obtain s where "local_stored ?p (demo_world demo_disk) = Some (s, ''old'')" using demo_stored by blast
  with local_write_law [OF demo_local_ok run] obtain fp where "r = Inr (Written fp)"
    by (auto simp: file_matches_def)
  with local_write_round_trip [OF demo_local_ok, of ?X "''new''" Anything "Written fp" w1 fp] run
  show ?thesis by (auto simp: applied_as_def)
qed

end
