(* ===== verification/Bootstrap.thy ===== *)
theory Bootstrap
  imports Engine Outbox Epochs
begin

text \<open>
  The two one-shot drivers that run before the daemon: \<open>opbox init\<close> (\<open>engine/init.rs\<close>: scan,
  import every file, append the outbox to the shared log) and \<open>opbox clone\<close> (\<open>engine/clone.rs\<close>: pull
  the shared log, project it onto the disk). Both drive the file-system and semantic clients of
  \<open>Clients\<close> and wait for one answer at a time. What answers them is a record of parameters
  \<open>peers\<close> over a state \<open>'p\<close>; a peer that answers \<open>None\<close> never does, and a program is \<open>None\<close> when it
  waits forever. \<open>sleep_until\<close> races with the reader's channel, so the peer says which wins;
  \<open>boot_received\<close> is the history of what the reader's channel delivered.
\<close>

section \<open>Programs that wait\<close>

text \<open>What a file-system or semantic peer says: which pending future completes, with what. A log
  actor's channel yields an event, is closed, or (for the reader) loses against the timer.\<close>

datatype 'e channel_result = Event 'e | Closed | TimerFired

record 'p peers =
  peer_fs :: "fs_client \<Rightarrow> 'p \<Rightarrow> ((nat \<times> fs_reply) \<times> 'p) option"
  peer_semantic :: "semantic_client \<Rightarrow> 'p \<Rightarrow> ((nat \<times> reply_value) \<times> 'p) option"
  peer_writer :: "log_writer_request list \<Rightarrow> 'p \<Rightarrow> (log_writer_response channel_result \<times> 'p) option"
  peer_reader ::
    "log_reader_request list \<Rightarrow> time_ns option \<Rightarrow> 'p \<Rightarrow> (log_reader_event channel_result \<times> 'p) option"
  peer_now :: "'p \<Rightarrow> time_ns"

record 'p boot =
  boot_fs :: fs_client
  boot_semantic :: semantic_client
  boot_writer_open :: bool
  boot_writer :: "log_writer_request list"
  boot_reader_open :: bool
  boot_reader :: "log_reader_request list"
  boot_received :: "log_reader_event list"
  boot_peer :: 'p

type_synonym ('a, 'p) boot_io = "'p boot \<Rightarrow> ('a res \<times> 'p boot) option"

definition boot_return :: "'a \<Rightarrow> ('a, 'p) boot_io" where
  "boot_return x b = Some (Inr x, b)"

definition boot_fail :: "error \<Rightarrow> ('a, 'p) boot_io" where
  "boot_fail e b = Some (Inl e, b)"

definition boot_lift :: "'a res \<Rightarrow> ('a, 'p) boot_io" where
  "boot_lift r b = Some (r, b)"

definition boot_bind :: "('a, 'p) boot_io \<Rightarrow> ('a \<Rightarrow> ('b, 'p) boot_io) \<Rightarrow> ('b, 'p) boot_io" where
  "boot_bind m f b =
     (case m b of
        None \<Rightarrow> None
      | Some (Inl e, b') \<Rightarrow> Some (Inl e, b')
      | Some (Inr x, b') \<Rightarrow> f x b')"

definition fs_do :: "(fs_client \<Rightarrow> fs_client res) \<Rightarrow> (unit, 'p) boot_io" where
  "fs_do f b =
     (case f (boot_fs b) of Inl e \<Rightarrow> Some (Inl e, b) | Inr c \<Rightarrow> Some (Inr (), b\<lparr>boot_fs := c\<rparr>))"

definition semantic_do :: "(semantic_client \<Rightarrow> semantic_client res) \<Rightarrow> (unit, 'p) boot_io" where
  "semantic_do f b =
     (case f (boot_semantic b) of
        Inl e \<Rightarrow> Some (Inl e, b)
      | Inr c \<Rightarrow> Some (Inr (), b\<lparr>boot_semantic := c\<rparr>))"

definition writer_send :: "log_writer_request \<Rightarrow> (unit, 'p) boot_io" where
  "writer_send r b =
     (if \<not> boot_writer_open b then Some (Inl Disconnected, b)
      else Some (Inr (), b\<lparr>boot_writer := boot_writer b @ [r]\<rparr>))"

definition reader_send :: "log_reader_request \<Rightarrow> (unit, 'p) boot_io" where
  "reader_send r b =
     (if \<not> boot_reader_open b then Some (Inl Disconnected, b)
      else Some (Inr (), b\<lparr>boot_reader := boot_reader b @ [r]\<rparr>))"

text \<open>\<open>client.next().await.ok_or_else(..)?\<close>: without a pending future the stream has ended.\<close>

definition fs_next :: "'p peers \<Rightarrow> (fs_client_response, 'p) boot_io" where
  "fs_next P b =
     (if fc_pending (boot_fs b) = [] then Some (Inl Fatal, b)
      else (case peer_fs P (boot_fs b) (boot_peer b) of
          None \<Rightarrow> None
        | Some ((k, reply), p') \<Rightarrow>
            (case (if k < length (fc_pending (boot_fs b))
                   then fs_response_of (fc_pending (boot_fs b) ! k) reply else None) of
               None \<Rightarrow> None
             | Some response \<Rightarrow>
                 (case fs_client_next k response (boot_fs b) of
                    Inl e \<Rightarrow> Some (Inl e, b\<lparr>boot_peer := p'\<rparr>)
                  | Inr c \<Rightarrow> Some (Inr response, b\<lparr>boot_fs := c, boot_peer := p'\<rparr>)))))"

definition semantic_next :: "'p peers \<Rightarrow> (semantic_client_response, 'p) boot_io" where
  "semantic_next P b =
     (if sc_pending (boot_semantic b) = [] then Some (Inl Fatal, b)
      else (case peer_semantic P (boot_semantic b) (boot_peer b) of
          None \<Rightarrow> None
        | Some ((k, v), p') \<Rightarrow>
            (case (if k < length (sc_pending (boot_semantic b))
                   then semantic_response_of (snd (sc_pending (boot_semantic b) ! k)) v else None) of
               None \<Rightarrow> None
             | Some response \<Rightarrow>
                 (case semantic_client_next (fst (sc_pending (boot_semantic b) ! k)) response (boot_semantic b) of
                    Inl e \<Rightarrow> Some (Inl e, b\<lparr>boot_peer := p'\<rparr>)
                  | Inr c \<Rightarrow> Some (Inr response, b\<lparr>boot_semantic := c, boot_peer := p'\<rparr>)))))"

definition writer_recv :: "'p peers \<Rightarrow> (log_writer_response channel_result, 'p) boot_io" where
  "writer_recv P b =
     map_option (\<lambda>(r, p'). (Inr r, b\<lparr>boot_peer := p'\<rparr>)) (peer_writer P (boot_writer b) (boot_peer b))"

definition reader_recv :: "'p peers \<Rightarrow> time_ns option \<Rightarrow> (log_reader_event channel_result, 'p) boot_io" where
  "reader_recv P deadline b =
     map_option (\<lambda>(r, p').
         (Inr r, b\<lparr>boot_received := boot_received b @ (case r of Event ev \<Rightarrow> [ev] | _ \<Rightarrow> []), boot_peer := p'\<rparr>))
       (peer_reader P (boot_reader b) deadline (boot_peer b))"

definition boot_now :: "'p peers \<Rightarrow> (time_ns, 'p) boot_io" where
  "boot_now P b = Some (Inr (peer_now P (boot_peer b)), b)"

section \<open>Waiting for one answer\<close>

definition await_scan :: "'p peers \<Rightarrow> (scan_result, 'p) boot_io" where
  "await_scan P =
     boot_bind (fs_next P) (\<lambda>r. case r of RespScan result \<Rightarrow> boot_lift result | _ \<Rightarrow> boot_fail Fatal)"

definition await_import_action :: "'p peers \<Rightarrow> (import_action_result, 'p) boot_io" where
  "await_import_action P =
     boot_bind (fs_next P) (\<lambda>r. case r of RespImportAction result \<Rightarrow> boot_return result | _ \<Rightarrow> boot_fail Fatal)"

definition await_projection_action :: "'p peers \<Rightarrow> (projection_action_result, 'p) boot_io" where
  "await_projection_action P =
     boot_bind (fs_next P) (\<lambda>r. case r of RespProjectionAction result \<Rightarrow> boot_return result | _ \<Rightarrow> boot_fail Fatal)"

definition await_apply_init_scan :: "'p peers \<Rightarrow> (next_work, 'p) boot_io" where
  "await_apply_init_scan P =
     boot_bind (semantic_next P) (\<lambda>r. case r of CApplyInitScan result \<Rightarrow> boot_lift result | _ \<Rightarrow> boot_fail Fatal)"

definition await_commit_import_action :: "'p peers \<Rightarrow> (unit, 'p) boot_io" where
  "await_commit_import_action P =
     boot_bind (semantic_next P) (\<lambda>r. case r of CCommitImportAction result \<Rightarrow> boot_lift result | _ \<Rightarrow> boot_fail Fatal)"

definition await_commit_import_epoch :: "'p peers \<Rightarrow> (unit, 'p) boot_io" where
  "await_commit_import_epoch P =
     boot_bind (semantic_next P) (\<lambda>r. case r of CCommitImportEpoch result \<Rightarrow> boot_lift result | _ \<Rightarrow> boot_fail Fatal)"

definition await_read_outbox :: "'p peers \<Rightarrow> ((nat \<times> shared_message) list, 'p) boot_io" where
  "await_read_outbox P =
     boot_bind (semantic_next P) (\<lambda>r. case r of CReadOutbox result \<Rightarrow> boot_lift result | _ \<Rightarrow> boot_fail Fatal)"

definition await_apply_shared_message_batch :: "'p peers \<Rightarrow> (unit, 'p) boot_io" where
  "await_apply_shared_message_batch P =
     boot_bind (semantic_next P) (\<lambda>r. case r of
       CApplySharedMessageBatch _ _ result \<Rightarrow> boot_lift result | _ \<Rightarrow> boot_fail Fatal)"

definition await_get_next_work :: "'p peers \<Rightarrow> (next_work, 'p) boot_io" where
  "await_get_next_work P =
     boot_bind (semantic_next P) (\<lambda>r. case r of CGetNextWork _ result \<Rightarrow> boot_lift result | _ \<Rightarrow> boot_fail Fatal)"

definition await_commit_projection_action :: "'p peers \<Rightarrow> (unit, 'p) boot_io" where
  "await_commit_projection_action P =
     boot_bind (semantic_next P) (\<lambda>r. case r of
       CCommitProjectionAction result \<Rightarrow> boot_lift result | _ \<Rightarrow> boot_fail Fatal)"

definition await_commit_projection_epoch :: "'p peers \<Rightarrow> (unit, 'p) boot_io" where
  "await_commit_projection_epoch P =
     boot_bind (semantic_next P) (\<lambda>r. case r of
       CCommitProjectionEpoch result \<Rightarrow> boot_lift result | _ \<Rightarrow> boot_fail Fatal)"

section \<open>Init\<close>

definition init_outbox_read_batch_size :: nat where
  "init_outbox_read_batch_size = 1024"

record init_result =
  ir_imported_actions :: nat
  ir_appended_outbox_messages :: nat

partial_function (option) await_durable_through :: "'p peers \<Rightarrow> nat \<Rightarrow> 'p boot \<Rightarrow> (nat res \<times> 'p boot) option" where
  "await_durable_through P target b =
     (case writer_recv P b of
        None \<Rightarrow> None
      | Some (r, b') \<Rightarrow>
          (case r of
             Inl e \<Rightarrow> Some (Inl e, b')
           | Inr c \<Rightarrow>
               (case c of
                  Event response \<Rightarrow>
                    (case response of
                       WriterConnected \<Rightarrow> await_durable_through P target b'
                     | WriterDisconnected reason \<Rightarrow> Some (Inl Fatal, b')
                     | WriterPing \<Rightarrow> await_durable_through P target b'
                     | WriterDurable through \<Rightarrow>
                         if target \<le> through then Some (Inr through, b')
                         else await_durable_through P target b')
                | _ \<Rightarrow> Some (Inl Fatal, b'))))"

fun append_all :: "(nat \<times> shared_message) list \<Rightarrow> nat \<Rightarrow> (nat, 'p) boot_io" where
  "append_all [] appended = boot_return appended"
| "append_all ((outbox_id, message) # ms) appended =
     boot_bind (writer_send (Append outbox_id message)) (\<lambda>_. append_all ms (appended + 1))"

text \<open>One round of \<open>drain_outbox\<close>: \<open>Inr appended\<close> to go round again, or the final count.\<close>

definition drain_round :: "'p peers \<Rightarrow> nat \<Rightarrow> (nat \<times> bool, 'p) boot_io" where
  "drain_round P appended =
     boot_bind (semantic_do (sc_read_outbox init_outbox_read_batch_size)) (\<lambda>_.
     boot_bind (await_read_outbox P) (\<lambda>messages.
       if messages = [] then boot_return (appended, True)
       else
         let last_outbox_id = fst (last messages)
         in boot_bind (append_all messages appended) (\<lambda>appended'.
            boot_bind (await_durable_through P last_outbox_id) (\<lambda>durable_through.
            boot_bind (semantic_do (sc_trim_outbox durable_through)) (\<lambda>_.
              boot_return (appended', False))))))"

partial_function (option) drain_outbox :: "'p peers \<Rightarrow> nat \<Rightarrow> 'p boot \<Rightarrow> (nat res \<times> 'p boot) option" where
  "drain_outbox P appended b =
     (case drain_round P appended b of
        None \<Rightarrow> None
      | Some (r, b') \<Rightarrow>
          (case r of
             Inl e \<Rightarrow> Some (Inl e, b')
           | Inr x \<Rightarrow> if snd x then Some (Inr (fst x), b') else drain_outbox P (fst x) b'))"

fun import_all :: "'p peers \<Rightarrow> import_action list \<Rightarrow> nat \<Rightarrow> (nat, 'p) boot_io" where
  "import_all P [] imported = boot_return imported"
| "import_all P (action # actions) imported =
     boot_bind (fs_do (apply_import_action action)) (\<lambda>_.
     boot_bind (await_import_action P) (\<lambda>result.
     boot_bind (semantic_do (sc_commit_import_action_checked result)) (\<lambda>_.
     boot_bind (await_commit_import_action P) (\<lambda>_.
       import_all P actions (imported + 1)))))"

definition init_run :: "'p peers \<Rightarrow> (init_result, 'p) boot_io" where
  "init_run P =
     boot_bind (fs_do (fs_scan Full)) (\<lambda>_.
     boot_bind (await_scan P) (\<lambda>scan.
     boot_bind (semantic_do (sc_apply_init_scan scan)) (\<lambda>_.
     boot_bind (await_apply_init_scan P) (\<lambda>next_work.
     boot_bind
       (case next_work of
          NoWork \<Rightarrow> boot_return 0
        | Project _ \<Rightarrow> boot_fail Fatal
        | Import started \<Rightarrow>
            boot_bind (import_all P (ies_actions started) 0) (\<lambda>imported.
            boot_bind (semantic_do (sc_commit_import_epoch (ies_epoch started))) (\<lambda>_.
            boot_bind (await_commit_import_epoch P) (\<lambda>_. boot_return imported)))) (\<lambda>imported_actions.
     boot_bind (drain_outbox P 0) (\<lambda>appended.
       boot_return \<lparr>ir_imported_actions = imported_actions, ir_appended_outbox_messages = appended\<rparr>))))))"

section \<open>Clone\<close>

definition max_shared_message_buffer_ms :: nat where
  "max_shared_message_buffer_ms = 500 * 1000000"

record clone_result =
  cr_applied_log_cursor :: nat
  cr_projected_actions :: nat

definition unguard_write_action :: "projection_action \<Rightarrow> projection_action res" where
  "unguard_write_action action =
     (case pa_kind action of
        WriteFile path bytes _ \<Rightarrow> Inr (action\<lparr>pa_kind := WriteFile path bytes Anything\<rparr>)
      | DeleteFile _ _ \<Rightarrow> Inl Fatal)"

definition fail_if_projection_action_invalidated :: "projection_action_result \<Rightarrow> unit res" where
  "fail_if_projection_action_invalidated result =
     (if invalidates_projection result then Inl Fatal else Inr ())"

definition flush_shared_message_buffer ::
  "'p peers \<Rightarrow> shared_message_buffer \<Rightarrow> (nat \<times> shared_message_buffer, 'p) boot_io" where
  "flush_shared_message_buffer P buffer =
     (if smb_is_empty buffer then boot_fail Panicked
      else
        boot_bind (boot_lift (ok_or (last_sequence_end buffer) Panicked)) (\<lambda>next_end.
          let (envelopes, drained) = smb_drain buffer
          in boot_bind (boot_lift (batch_try_from envelopes)) (\<lambda>batch.
             boot_bind (semantic_do (sc_apply_shared_message_batch batch)) (\<lambda>_.
             boot_bind (await_apply_shared_message_batch P) (\<lambda>_.
               boot_return (next_end, drained))))))"

text \<open>The loop state: the tail to reach (if known), the applied end and the buffer.\<close>

record pull =
  pl_target :: "nat option"
  pl_applied :: nat
  pl_buffer :: shared_message_buffer

definition pull_new :: pull where
  "pull_new = \<lparr>pl_target = None, pl_applied = 0, pl_buffer = smb_new max_shared_message_buffer_ms\<rparr>"

definition pull_flush :: "'p peers \<Rightarrow> pull \<Rightarrow> (pull, 'p) boot_io" where
  "pull_flush P s =
     boot_bind (flush_shared_message_buffer P (pl_buffer s)) (\<lambda>(applied, buffer).
       boot_return (s\<lparr>pl_applied := applied, pl_buffer := buffer\<rparr>))"

text \<open>One round of \<open>pull_shared_log_to_reader_end\<close>: the new loop state, and the cursor when it
  returns.\<close>

definition reader_end_round :: "'p peers \<Rightarrow> pull \<Rightarrow> (pull \<times> nat option, 'p) boot_io" where
  "reader_end_round P s =
     (if \<not> has_capacity (pl_buffer s) then
        boot_bind (pull_flush P s) (\<lambda>s'. boot_return (s', None))
      else
        boot_bind (boot_now P) (\<lambda>now.
        boot_bind (reader_recv P (next_fire_at now (pl_buffer s))) (\<lambda>r.
          case r of
            TimerFired \<Rightarrow>
              if next_fire_at now (pl_buffer s) = None then boot_fail Fatal
              else boot_bind (pull_flush P s) (\<lambda>s'. boot_return (s', None))
          | Closed \<Rightarrow> boot_fail Fatal
          | Event event \<Rightarrow>
              (case event of
                 ReaderConnected \<Rightarrow> boot_return (s, None)
               | ReaderDisconnected _ \<Rightarrow> boot_fail Fatal
               | ReaderTail _ \<Rightarrow> boot_fail Fatal
               | ReaderRead envelope \<Rightarrow>
                   boot_return (s\<lparr>pl_buffer := smb_insert now envelope (pl_buffer s)\<rparr>, None)
               | ReaderEnded cursor \<Rightarrow>
                   boot_bind (if \<not> smb_is_empty (pl_buffer s) then pull_flush P s else boot_return s) (\<lambda>s'.
                     if pl_applied s' \<noteq> cursor then boot_fail Fatal
                     else boot_return (s', Some cursor))))))"

definition handle_log_reader_event ::
  "time_ns \<Rightarrow> log_reader_event channel_result \<Rightarrow> pull \<Rightarrow> pull res" where
  "handle_log_reader_event now r s =
     (case r of
        Event event \<Rightarrow>
          (case event of
             ReaderConnected \<Rightarrow> Inr s
           | ReaderDisconnected _ \<Rightarrow> Inl Fatal
           | ReaderTail tail \<Rightarrow> Inr (s\<lparr>pl_target := Some tail\<rparr>)
           | ReaderRead envelope \<Rightarrow> Inr (s\<lparr>pl_buffer := smb_insert now envelope (pl_buffer s)\<rparr>)
           | ReaderEnded _ \<Rightarrow> Inl Fatal)
      | _ \<Rightarrow> Inl Fatal)"

text \<open>One round of \<open>pull_shared_log_to_start_tail\<close>.\<close>

definition start_tail_round :: "'p peers \<Rightarrow> pull \<Rightarrow> (pull \<times> nat option, 'p) boot_io" where
  "start_tail_round P s =
     (if (case pl_target s of None \<Rightarrow> False | Some tail \<Rightarrow> tail \<le> pl_applied s) then
        boot_return (s, Some (pl_applied s))
      else if (case (pl_target s, last_sequence_end (pl_buffer s)) of
          (Some tail, Some buffered_end) \<Rightarrow> tail \<le> buffered_end | _ \<Rightarrow> False) then
        boot_bind (pull_flush P s) (\<lambda>s'. boot_return (s', None))
      else if \<not> has_capacity (pl_buffer s) then
        boot_bind (pull_flush P s) (\<lambda>s'. boot_return (s', None))
      else
        boot_bind (boot_now P) (\<lambda>now.
        boot_bind (reader_recv P (next_fire_at now (pl_buffer s))) (\<lambda>r.
          if r = TimerFired \<and> next_fire_at now (pl_buffer s) \<noteq> None then
            boot_bind (pull_flush P s) (\<lambda>s'. boot_return (s', None))
          else
            boot_bind (boot_lift (handle_log_reader_event now r s)) (\<lambda>s'. boot_return (s', None)))))"

partial_function (option) pull_loop ::
  "('p peers \<Rightarrow> pull \<Rightarrow> 'p boot \<Rightarrow> ((pull \<times> nat option) res \<times> 'p boot) option) \<Rightarrow> 'p peers \<Rightarrow> pull \<Rightarrow>
     'p boot \<Rightarrow> (nat res \<times> 'p boot) option" where
  "pull_loop round P s b =
     (case round P s b of
        None \<Rightarrow> None
      | Some (r, b') \<Rightarrow>
          (case r of
             Inl e \<Rightarrow> Some (Inl e, b')
           | Inr x \<Rightarrow>
               (case snd x of
                  Some cursor \<Rightarrow> Some (Inr cursor, b')
                | None \<Rightarrow> pull_loop round P (fst x) b')))"

definition pull_shared_log_to_reader_end :: "'p peers \<Rightarrow> (nat, 'p) boot_io" where
  "pull_shared_log_to_reader_end P = pull_loop reader_end_round P pull_new"

definition pull_shared_log_to_start_tail :: "'p peers \<Rightarrow> (nat, 'p) boot_io" where
  "pull_shared_log_to_start_tail P =
     boot_bind (reader_send ReaderStatus) (\<lambda>_. pull_loop start_tail_round P pull_new)"

fun project_all :: "'p peers \<Rightarrow> bool \<Rightarrow> projection_action list \<Rightarrow> nat \<Rightarrow> (nat, 'p) boot_io" where
  "project_all P clobber [] projected = boot_return projected"
| "project_all P clobber (action # actions) projected =
     boot_bind (boot_lift (if clobber then unguard_write_action action else Inr action)) (\<lambda>action'.
     boot_bind (fs_do (apply_projection_action action')) (\<lambda>_.
     boot_bind (await_projection_action P) (\<lambda>result.
     boot_bind (boot_lift (fail_if_projection_action_invalidated result)) (\<lambda>_.
     boot_bind (semantic_do (sc_commit_projection_action_checked result)) (\<lambda>_.
     boot_bind (await_commit_projection_action P) (\<lambda>_.
       project_all P clobber actions (projected + 1)))))))"

definition clone_run :: "'p peers \<Rightarrow> bool \<Rightarrow> bool \<Rightarrow> (clone_result, 'p) boot_io" where
  "clone_run P bounded clobber =
     boot_bind
       (if \<not> clobber then
          boot_bind (fs_do (fs_scan Full)) (\<lambda>_.
          boot_bind (await_scan P) (\<lambda>scan.
            if scan_tree scan \<noteq> [] then boot_fail Fatal else boot_return ()))
        else boot_return ()) (\<lambda>_.
     boot_bind
       (if bounded then pull_shared_log_to_reader_end P else pull_shared_log_to_start_tail P) (\<lambda>cursor.
     boot_bind (semantic_do (sc_get_next_work 0)) (\<lambda>_.
     boot_bind (await_get_next_work P) (\<lambda>next_work.
     boot_bind
       (case next_work of
          NoWork \<Rightarrow> boot_return 0
        | Import _ \<Rightarrow> boot_fail Fatal
        | Project started \<Rightarrow>
            boot_bind (project_all P clobber (pes_actions started) 0) (\<lambda>projected.
            boot_bind (semantic_do (sc_commit_projection_epoch (pes_epoch started) PlanExhausted)) (\<lambda>_.
            boot_bind (await_commit_projection_epoch P) (\<lambda>_. boot_return projected)))) (\<lambda>projected.
       boot_return \<lparr>cr_applied_log_cursor = cursor, cr_projected_actions = projected\<rparr>)))))"

section \<open>Draining the outbox\<close>

text \<open>The semantic service and a log writer as peers of the drain loop: requests are served in the
  order they were sent, without faults; the writer makes everything it was sent durable.\<close>

definition serve_request ::
  "('d, 'sv) ext \<Rightarrow> service_input \<Rightarrow> semantic_request \<Rightarrow> reply_value option \<times> db \<Rightarrow> reply_value option \<times> db" where
  "serve_request X i request rd =
     (case request of
        ReadOutbox n _ \<Rightarrow>
          (case run_task X i (TReadOutbox n) (snd rd) of
             (OReadOutbox r, d') \<Rightarrow> (Some (ROutbox r), d') | (_, d') \<Rightarrow> (None, d'))
      | TrimOutbox through \<Rightarrow> (fst rd, snd (run_task X i (TTrimOutbox through) (snd rd)))
      | _ \<Rightarrow> rd)"

definition unserved :: "('d, 'sv) ext \<Rightarrow> service_input \<Rightarrow> semantic_client \<Rightarrow> db \<times> nat \<Rightarrow> reply_value option \<times> db" where
  "unserved X i c p = fold (serve_request X i) (drop (snd p) (sc_sent c)) (None, fst p)"

fun append_id :: "log_writer_request \<Rightarrow> nat" where
  "append_id (Append outbox_id _) = outbox_id"
| "append_id _ = 0"

definition outbox_peers :: "('d, 'sv) ext \<Rightarrow> service_input \<Rightarrow> (db \<times> nat) peers" where
  "outbox_peers X i =
     \<lparr>peer_fs = \<lambda>_ _. None,
      peer_semantic = \<lambda>c p. (case unserved X i c p of
        (reply, d) \<Rightarrow> map_option (\<lambda>v. ((0, v), (d, length (sc_sent c)))) reply),
      peer_writer = \<lambda>sent p. Some (if sent = [] then Closed else Event (WriterDurable (append_id (last sent))), p),
      peer_reader = \<lambda>_ _ _. None,
      peer_now = \<lambda>_. 0\<rparr>"

definition fault_free :: "service_input \<Rightarrow> bool" where
  "fault_free i \<longleftrightarrow> si_pool_fault i = None \<and> (\<forall>k. si_begin_fault i k = None) \<and> (\<forall>k. si_commit_fault i k = None)"

lemma service_exec_ok:
  "fault_free i \<Longrightarrow> body 0 d = Inr (v, d') \<Longrightarrow> service_exec i body d = (Inr v, d')"
  by (simp add: service_exec_def exec_tx_def exec_tx_from.simps fault_free_def)

lemma out_ids_bounded:
  assumes "out_inv d" and "m \<in> set (out_sent d @ out_waiting d)"
  shows "fst m \<le> i64_max"
proof -
  obtain r where r: "db_daemon_state d = Some r" using assms(1) by (auto simp: out_inv_def split: option.splits)
  have "out_sent d @ out_waiting d = map row_message (out_rows d)"
    by (simp add: out_sent_def out_waiting_def flip: map_append)
  with assms(2) obtain e where e: "e \<in> set (db_outbox d)" "m = row_message (snd e)"
    by (auto simp: out_rows_def)
  then have "fst m = fst e" using assms(1) r by (auto simp: out_inv_def row_message_def list_all_iff)
  moreover have "fst e < ds_next_outbox_id r"
  proof -
    have "fst e \<in> set (map fst (db_outbox d))" using e(1) by simp
    also have "map fst (db_outbox d) = [ds_next_outbox_id r - length (db_outbox d)..<ds_next_outbox_id r]"
      using assms(1) r by (simp add: out_inv_def)
    finally show ?thesis by simp
  qed
  ultimately show ?thesis using assms(1) r by (simp add: out_inv_def)
qed

lemma serve_read:
  assumes "fault_free i" and "out_inv d" and "n \<le> i64_max"
  shows "\<exists>d'. serve_request X i (ReadOutbox n r) (x, d) = (Some (ROutbox (Inr (take n (out_waiting d)))), d') \<and>
    reserve_outbox_messages n d = Inr (take n (out_waiting d), d')"
proof -
  obtain d' where d': "reserve_outbox_messages n d = Inr (take n (out_waiting d), d')"
    using outbox.reserve_law [OF assms(2,3)] by blast
  then show ?thesis
    using service_exec_ok [OF assms(1), of "\<lambda>_. reserve_outbox_messages n", OF d'] by (simp add: serve_request_def)
qed

lemma serve_trim:
  assumes "fault_free i" and "trim_outbox n d = Inr d'"
  shows "serve_request X i (TrimOutbox n) (x, d) = (x, d')"
  using service_exec_ok [OF assms(1), of "\<lambda>_ d. map_ok (Pair ()) (trim_outbox n d)" d "()" d'] assms(2)
  by (simp add: serve_request_def)

text \<open>What the loop needs of its clients: open channels, no answer outstanding, and the rest of the
  requests served.\<close>

definition drain_ready :: "('d, 'sv) ext \<Rightarrow> service_input \<Rightarrow> db \<Rightarrow> (db \<times> nat) boot \<Rightarrow> bool" where
  "drain_ready X i d b \<longleftrightarrow>
     sc_open (boot_semantic b) \<and> sc_pending (boot_semantic b) = [] \<and>
     \<not> sc_in_flight_read_outbox (boot_semantic b) \<and> boot_writer_open b \<and>
     snd (boot_peer b) \<le> length (sc_sent (boot_semantic b)) \<and>
     unserved X i (boot_semantic b) (boot_peer b) = (None, d)"

lemma boot_basics [simp]:
  "boot_return x b = Some (Inr x, b)" "boot_fail e b = Some (Inl e, b)" "boot_lift r b = Some (r, b)"
  by (simp_all add: boot_return_def boot_fail_def boot_lift_def)

lemma boot_bind_run: "m b = Some (Inr x, b') \<Longrightarrow> boot_bind m f b = f x b'"
  by (simp add: boot_bind_def)

lemma read_round:
  assumes ff: "fault_free i" and inv: "out_inv d" and ready: "drain_ready X i d b"
  shows "\<exists>c d'. boot_bind (semantic_do (sc_read_outbox init_outbox_read_batch_size))
        (\<lambda>_. await_read_outbox (outbox_peers X i)) b =
      Some (Inr (take 1024 (out_waiting d)), b\<lparr>boot_semantic := c, boot_peer := (d', length (sc_sent c))\<rparr>) \<and>
    reserve_outbox_messages 1024 d = Inr (take 1024 (out_waiting d), d') \<and>
    sc_open c \<and> sc_pending c = [] \<and> \<not> sc_in_flight_read_outbox c"
proof -
  let ?c = "boot_semantic b" and ?r = "sc_next_reply (boot_semantic b)"
  obtain p k where pk: "boot_peer b = (p, k)" by fastforce
  have k: "k \<le> length (sc_sent ?c)" and served: "fold (serve_request X i) (drop k (sc_sent ?c)) (None, p) = (None, d)"
    using ready pk by (simp_all add: drain_ready_def unserved_def)
  obtain d' where d': "serve_request X i (ReadOutbox 1024 ?r) (None, d) =
      (Some (ROutbox (Inr (take 1024 (out_waiting d)))), d')"
    "reserve_outbox_messages 1024 d = Inr (take 1024 (out_waiting d), d')"
    using serve_read [OF ff inv, of 1024 X ?r None] by (auto simp: i64_max_def)
  let ?c' = "?c\<lparr>sc_sent := sc_sent ?c @ [ReadOutbox 1024 ?r], sc_next_reply := Suc ?r, sc_pending := [],
    sc_in_flight_read_outbox := False\<rparr>"
  show ?thesis
    using ready pk k served d'
    by (intro exI [of _ ?c'] exI [of _ d'])
      (auto simp: boot_bind_def semantic_do_def sc_read_outbox_def sc_enqueue_def await_read_outbox_def
        semantic_next_def outbox_peers_def unserved_def drain_ready_def init_outbox_read_batch_size_def
        semantic_response_of_def semantic_client_next_def)
qed

lemma append_all_run:
  assumes "boot_writer_open b"
  shows "append_all ms n b =
    Some (Inr (n + length ms), b\<lparr>boot_writer := boot_writer b @ map (\<lambda>(i, m). Append i m) ms\<rparr>)"
  using assms
proof (induction ms arbitrary: n b)
  case (Cons x ms)
  then show ?case by (cases x) (simp add: boot_bind_def writer_send_def)
qed simp

lemma await_durable_run:
  assumes "boot_writer b = ws @ [Append i m]" and "target \<le> i"
  shows "await_durable_through (outbox_peers X j) target b = Some (Inr i, b)"
  using assms by (subst await_durable_through.simps) (simp add: writer_recv_def outbox_peers_def)

lemma map_butlast_last: "xs \<noteq> [] \<Longrightarrow> map f xs = map f (butlast xs) @ [f (last xs)]"
  by (induction xs) auto

lemma drain_outbox_run:
  assumes ff: "fault_free i"
  shows "out_inv d \<Longrightarrow> out_sent d = [] \<Longrightarrow> drain_ready X i d b \<Longrightarrow>
    \<exists>b'. drain_outbox (outbox_peers X i) n b = Some (Inr (n + length (out_waiting d)), b') \<and>
      boot_writer b' = boot_writer b @ map (\<lambda>(i, m). Append i m) (out_waiting d) \<and>
      out_inv (fst (boot_peer b')) \<and> out_sent (fst (boot_peer b')) = [] \<and> out_waiting (fst (boot_peer b')) = []"
proof (induction "length (out_waiting d)" arbitrary: d b n rule: less_induct)
  case less
  let ?P = "outbox_peers X i" and ?ms = "take 1024 (out_waiting d)"
  obtain c d' where rd: "boot_bind (semantic_do (sc_read_outbox init_outbox_read_batch_size))
        (\<lambda>_. await_read_outbox ?P) b =
      Some (Inr ?ms, b\<lparr>boot_semantic := c, boot_peer := (d', length (sc_sent c))\<rparr>)"
    and res: "reserve_outbox_messages 1024 d = Inr (?ms, d')"
    and c: "sc_open c" "sc_pending c = []" "\<not> sc_in_flight_read_outbox c"
    using read_round [OF ff less.prems(1,3)] by blast
  let ?b1 = "b\<lparr>boot_semantic := c, boot_peer := (d', length (sc_sent c))\<rparr>"
  have round: "drain_round ?P n b = (\<lambda>messages.
      if messages = [] then boot_return (n, True)
      else let last_outbox_id = fst (last messages)
        in boot_bind (append_all messages n) (\<lambda>appended'.
           boot_bind (await_durable_through ?P last_outbox_id) (\<lambda>durable_through.
           boot_bind (semantic_do (sc_trim_outbox durable_through)) (\<lambda>_.
             boot_return (appended', False))))) ?ms ?b1"
    using rd unfolding drain_round_def boot_bind_def by (auto split: option.splits sum.splits prod.splits)
  have limit: "(1024 :: nat) \<le> i64_max" by (simp add: i64_max_def)
  show ?case
  proof (cases "?ms = []")
    case True
    then have none: "out_waiting d = []" by simp
    obtain s' where "reserve_outbox_messages 1024 d = Inr (take 1024 (out_waiting d), s')" "out_inv s'"
      "out_sent s' = out_sent d @ take 1024 (out_waiting d)" "out_waiting s' = drop 1024 (out_waiting d)"
      using outbox.reserve_law [OF less.prems(1) limit] by blast
    then have "out_inv d'" "out_sent d' = []" "out_waiting d' = []" using res none less.prems(2) by auto
    then show ?thesis
      using round True none by (subst drain_outbox.simps) (simp add: less.prems(2))
  next
    case False
    have "last ?ms \<in> set (out_sent d @ out_waiting d)"
      using subsetD [OF set_take_subset last_in_set [OF False]] by simp
    then have "fst (last ?ms) \<le> i64_max" using out_ids_bounded [OF less.prems(1)] by blast
    from outbox.ack_reserved [OF less.prems(1,2) limit res False this] obtain d2 where
      d2: "trim_outbox (fst (last ?ms)) d' = Inr d2" "out_inv d2" "out_sent d2 = []"
        "out_waiting d2 = drop 1024 (out_waiting d)" by blast
    let ?b2 = "?b1\<lparr>boot_writer := boot_writer b @ map (\<lambda>(i, m). Append i m) ?ms\<rparr>"
    let ?b3 = "?b2\<lparr>boot_semantic := c\<lparr>sc_sent := sc_sent c @ [TrimOutbox (fst (last ?ms))]\<rparr>\<rparr>"
    have app: "append_all ?ms n ?b1 = Some (Inr (n + length ?ms), ?b2)"
      using append_all_run [of ?b1 ?ms n] less.prems(3) by (simp add: drain_ready_def)
    have "map (\<lambda>(i, m). Append i m) ?ms =
        map (\<lambda>(i, m). Append i m) (butlast ?ms) @ [Append (fst (last ?ms)) (snd (last ?ms))]"
      using map_butlast_last [OF False, of "\<lambda>(i, m). Append i m"] by (simp add: case_prod_unfold)
    then have "boot_writer ?b2 = (boot_writer b @ map (\<lambda>(i, m). Append i m) (butlast ?ms)) @
        [Append (fst (last ?ms)) (snd (last ?ms))]" by simp
    from await_durable_run [OF this order_refl] have dur:
      "await_durable_through ?P (fst (last ?ms)) ?b2 = Some (Inr (fst (last ?ms)), ?b2)" .
    have trim: "semantic_do (sc_trim_outbox (fst (last ?ms))) ?b2 = Some (Inr (), ?b3)"
      using c(1) by (simp add: semantic_do_def sc_trim_outbox_def sc_post_def)
    have step: "drain_outbox ?P n b = drain_outbox ?P (n + length ?ms) ?b3"
      using round False app dur trim by (subst drain_outbox.simps) (simp add: boot_bind_def Let_def)
    have "drain_ready X i d2 ?b3"
      using c less.prems(3) serve_trim [OF ff d2(1)] by (simp add: drain_ready_def unserved_def)
    from less.hyps [OF _ d2(2,3) this, of "n + length ?ms"] False obtain b' where
      b': "drain_outbox ?P (n + length ?ms) ?b3 = Some (Inr (n + length ?ms + length (out_waiting d2)), b')"
        "boot_writer b' = boot_writer ?b3 @ map (\<lambda>(i, m). Append i m) (out_waiting d2)"
        "out_inv (fst (boot_peer b'))" "out_sent (fst (boot_peer b')) = []" "out_waiting (fst (boot_peer b')) = []"
      using d2(4) by auto
    have "?ms @ out_waiting d2 = out_waiting d" using d2(4) by simp
    then have "boot_writer b' = boot_writer b @ map (\<lambda>(i, m). Append i m) (out_waiting d)"
      using b'(2) by (simp flip: map_append)
    moreover have "length ?ms + length (out_waiting d2) = length (out_waiting d)"
      using d2(4) by simp
    ultimately show ?thesis using step b' by (simp add: add.assoc)
  qed
qed

section \<open>Pulling the log\<close>

fun reads :: "log_reader_event list \<Rightarrow> shared_message_envelope list" where
  "reads [] = []"
| "reads (ReaderRead e # evs) = e # reads evs"
| "reads (_ # evs) = reads evs"

definition applied_end :: "shared_message_envelope list \<Rightarrow> nat" where
  "applied_end es = (if es = [] then 0 else (env_sequence_number (last es) + 1) mod 2 ^ 64)"

text \<open>The batches sent since \<open>b0\<close>, in order, are well-formed batches whose messages together are
  \<open>es\<close>.\<close>

definition batches_sent :: "'p boot \<Rightarrow> 'p boot \<Rightarrow> shared_message_envelope list \<Rightarrow> bool" where
  "batches_sent b0 b es \<longleftrightarrow>
     (\<exists>bs. sc_sent (boot_semantic b) = sc_sent (boot_semantic b0) @ map (\<lambda>(m, r). ApplySharedMessageBatch m r) bs \<and>
        (\<forall>(m, r) \<in> set bs. batch_try_from (batch_messages m) = Inr m) \<and>
        concat (map (batch_messages \<circ> fst) bs) = es)"

definition pull_inv :: "'p boot \<Rightarrow> pull \<Rightarrow> 'p boot \<Rightarrow> bool" where
  "pull_inv b0 s b \<longleftrightarrow>
     (\<exists>es. batches_sent b0 b es \<and> es @ smb_envelopes (pl_buffer s) = reads (boot_received b) \<and>
        pl_applied s = applied_end es) \<and>
     (\<forall>tail. pl_target s = Some tail \<longrightarrow> ReaderTail tail \<in> set (boot_received b))"

lemma reads_append: "reads (xs @ ys) = reads xs @ reads ys"
  by (induction xs rule: reads.induct) auto

lemma boot_bind_Inr:
  "boot_bind m f b = Some (Inr y, b') \<longleftrightarrow> (\<exists>x b1. m b = Some (Inr x, b1) \<and> f x b1 = Some (Inr y, b'))"
  by (auto simp: boot_bind_def split: option.splits prod.splits sum.splits)

lemma semantic_next_frame:
  assumes "semantic_next P b = Some (Inr r, b')"
  shows "sc_sent (boot_semantic b') = sc_sent (boot_semantic b) \<and> boot_received b' = boot_received b"
proof -
  have "sc_sent c' = sc_sent c" if "semantic_client_next k x c = Inr c'" for k x c c'
    using that by (auto simp: semantic_client_next_def Let_def map_ok_eq_Inr
        split: semantic_client_response.splits if_splits)
  then show ?thesis
    using assms by (auto simp: semantic_next_def split: if_splits option.splits sum.splits prod.splits)
qed

lemma batch_messages_of: "batch_try_from es = Inr m \<Longrightarrow> batch_messages m = es \<and> es \<noteq> []"
  by (auto simp: batch_try_from_def Let_def split: list.splits if_splits)

lemma await_batch_next:
  assumes "await_apply_shared_message_batch P b = Some (Inr u, b')"
  shows "\<exists>r. semantic_next P b = Some (Inr r, b')"
proof -
  obtain r b1 where r: "semantic_next P b = Some (Inr r, b1)"
    and k: "(case r of CApplySharedMessageBatch _ _ result \<Rightarrow> boot_lift result | _ \<Rightarrow> boot_fail Fatal) b1 =
      Some (Inr u, b')"
    using assms by (auto simp: await_apply_shared_message_batch_def boot_bind_Inr)
  from k have "b1 = b'" by (cases r) auto
  with r show ?thesis by blast
qed

lemma flush_inv:
  assumes f: "pull_flush P s b = Some (Inr s', b')" and inv: "pull_inv b0 s b"
  shows "pull_inv b0 s' b' \<and> smb_envelopes (pl_buffer s') = [] \<and> boot_received b' = boot_received b"
proof -
  obtain es where es: "batches_sent b0 b es" "es @ smb_envelopes (pl_buffer s) = reads (boot_received b)"
    and tgt: "\<forall>tail. pl_target s = Some tail \<longrightarrow> ReaderTail tail \<in> set (boot_received b)"
    using inv by (auto simp: pull_inv_def)
  let ?env = "smb_envelopes (pl_buffer s)"
  obtain applied buffer where fl: "flush_shared_message_buffer P (pl_buffer s) b = Some (Inr (applied, buffer), b')"
    and s': "s' = s\<lparr>pl_applied := applied, pl_buffer := buffer\<rparr>"
    using f by (auto simp: pull_flush_def boot_bind_Inr)
  then obtain m b1 b2 r where m: "batch_try_from ?env = Inr m" and ne: "?env \<noteq> []"
    and b1: "semantic_do (sc_apply_shared_message_batch m) b = Some (Inr (), b1)"
    and b2: "semantic_next P b1 = Some (Inr r, b')"
    and out: "last_sequence_end (pl_buffer s) = Some applied" "buffer = snd (smb_drain (pl_buffer s))"
    by (auto simp: flush_shared_message_buffer_def boot_bind_Inr smb_is_empty_def smb_drain_def
        res_simps split: if_splits dest!: await_batch_next)
  have sent: "sc_sent (boot_semantic b1) = sc_sent (boot_semantic b) @
      [ApplySharedMessageBatch m (sc_next_reply (boot_semantic b))]" "boot_received b1 = boot_received b"
    using b1 by (auto simp: semantic_do_def sc_apply_shared_message_batch_def sc_enqueue_def map_ok_eq_Inr
        split: sum.splits if_splits)
  have mm: "batch_messages m = ?env" using batch_messages_of [OF m] by simp
  have frame: "sc_sent (boot_semantic b') = sc_sent (boot_semantic b1)" "boot_received b' = boot_received b"
    using semantic_next_frame [OF b2] sent by simp_all
  from es(1) obtain bs where bs: "sc_sent (boot_semantic b) =
      sc_sent (boot_semantic b0) @ map (\<lambda>(m, r). ApplySharedMessageBatch m r) bs"
    "\<forall>(m, r) \<in> set bs. batch_try_from (batch_messages m) = Inr m" "concat (map (batch_messages \<circ> fst) bs) = es"
    by (auto simp: batches_sent_def)
  have "batches_sent b0 b' (es @ ?env)"
    unfolding batches_sent_def
    by (rule exI [of _ "bs @ [(m, sc_next_reply (boot_semantic b))]"]) (use bs frame sent mm m in auto)
  moreover have "applied = applied_end (es @ ?env)" "smb_envelopes buffer = []"
    using out ne by (auto simp: last_sequence_end_def applied_end_def smb_drain_def)
  ultimately show ?thesis using s' es(2) frame tgt by (auto simp: pull_inv_def)
qed

lemma flush_return_inv:
  assumes f: "boot_bind (pull_flush P s) (\<lambda>s'. boot_return (s', None)) b = Some (Inr (s', c), b')"
    and inv: "pull_inv b0 s b"
  shows "c = None \<and> pull_inv b0 s' b'"
proof -
  obtain s1 b1 where "pull_flush P s b = Some (Inr s1, b1)"
    and k: "boot_return (s1, None) b1 = Some (Inr (s', c), b')"
    using f unfolding boot_bind_Inr by blast
  from flush_inv [OF this(1) inv] k show ?thesis by simp
qed

lemma reader_recv_frame:
  assumes "reader_recv P t b = Some (Inr r, b')"
  shows "boot_semantic b' = boot_semantic b \<and>
    boot_received b' = boot_received b @ (case r of Event ev \<Rightarrow> [ev] | _ \<Rightarrow> [])"
  using assms by (auto simp: reader_recv_def)

lemma pull_inv_event:
  assumes "pull_inv b0 s b" and "boot_semantic b' = boot_semantic b" and "boot_received b' = boot_received b @ [ev]"
  shows "reads [ev] = [] \<Longrightarrow> pull_inv b0 s b'"
    and "ev = ReaderRead e \<Longrightarrow> pull_inv b0 (s\<lparr>pl_buffer := smb_insert now e (pl_buffer s)\<rparr>) b'"
    and "ev = ReaderTail t \<Longrightarrow> pull_inv b0 (s\<lparr>pl_target := Some t\<rparr>) b'"
  using assms by (auto simp: pull_inv_def batches_sent_def reads_append smb_insert_fields)

lemma boot_now_run [simp]: "boot_now P b = Some (Inr (peer_now P (boot_peer b)), b)"
  by (simp add: boot_now_def)

text \<open>What a pull has done when it returns the cursor \<open>c\<close>.\<close>

definition pulled :: "'p boot \<Rightarrow> 'p boot \<Rightarrow> nat \<Rightarrow> shared_message_envelope list \<Rightarrow> bool" where
  "pulled b0 b c rest \<longleftrightarrow>
     (\<exists>es. batches_sent b0 b es \<and> es @ rest = reads (boot_received b) \<and> c = applied_end es)"

lemma pull_inv_pulled: "pull_inv b0 s b \<Longrightarrow> pulled b0 b (pl_applied s) (smb_envelopes (pl_buffer s))"
  by (auto simp: pull_inv_def pulled_def)

lemma reader_end_round_inv:
  assumes r: "reader_end_round P s b = Some (Inr (s', c), b')" and inv: "pull_inv b0 s b"
  shows "case c of None \<Rightarrow> pull_inv b0 s' b' | Some cursor \<Rightarrow>
    pulled b0 b' cursor [] \<and> last (boot_received b') = ReaderEnded cursor"
proof (cases "has_capacity (pl_buffer s)")
  case False
  then show ?thesis using r flush_inv [OF _ inv] by (auto simp: reader_end_round_def boot_bind_Inr)
next
  case True
  let ?now = "peer_now P (boot_peer b)"
  obtain e b1 where e: "reader_recv P (next_fire_at ?now (pl_buffer s)) b = Some (Inr e, b1)"
    and k: "(case e of
            TimerFired \<Rightarrow>
              if next_fire_at ?now (pl_buffer s) = None then boot_fail Fatal
              else boot_bind (pull_flush P s) (\<lambda>s'. boot_return (s', None))
          | Closed \<Rightarrow> boot_fail Fatal
          | Event event \<Rightarrow>
              (case event of
                 ReaderConnected \<Rightarrow> boot_return (s, None)
               | ReaderDisconnected _ \<Rightarrow> boot_fail Fatal
               | ReaderTail _ \<Rightarrow> boot_fail Fatal
               | ReaderRead envelope \<Rightarrow>
                   boot_return (s\<lparr>pl_buffer := smb_insert ?now envelope (pl_buffer s)\<rparr>, None)
               | ReaderEnded cursor \<Rightarrow>
                   boot_bind (if \<not> smb_is_empty (pl_buffer s) then pull_flush P s else boot_return s) (\<lambda>s'.
                     if pl_applied s' \<noteq> cursor then boot_fail Fatal
                     else boot_return (s', Some cursor)))) b1 = Some (Inr (s', c), b')"
    using r True by (auto simp: reader_end_round_def boot_bind_Inr)
  note fr = reader_recv_frame [OF e]
  show ?thesis
  proof (cases e)
    case (Event ev)
    note step = pull_inv_event [OF inv, of b1 ev]
    show ?thesis
    proof (cases ev)
      case (ReaderEnded cursor)
      have i1: "pull_inv b0 s b1" using step(1) fr Event ReaderEnded by simp
      show ?thesis
      proof (cases "smb_is_empty (pl_buffer s)")
        case True
        then show ?thesis
          using k Event ReaderEnded fr pull_inv_pulled [OF i1] by (auto simp: boot_bind_def smb_is_empty_def split: if_splits)
      next
        case False
        then obtain s1 where "pull_flush P s b1 = Some (Inr s1, b')" "c = Some cursor" "pl_applied s1 = cursor"
          using k Event ReaderEnded by (auto simp: boot_bind_Inr split: if_splits)
        then show ?thesis
          using flush_inv [OF _ i1] pull_inv_pulled [of b0 s1 b'] fr Event ReaderEnded by force
      qed
    qed (use k Event step fr in auto)
  next
    case TimerFired
    then have i1: "pull_inv b0 s b1" using inv fr by (simp add: pull_inv_def batches_sent_def)
    from k TimerFired have
      "boot_bind (pull_flush P s) (\<lambda>s'. boot_return (s', None)) b1 = Some (Inr (s', c), b')"
      by (simp split: if_splits)
    from flush_return_inv [OF this i1] show ?thesis by simp
  qed (use k in simp)
qed

lemma handle_event_inv:
  assumes r: "reader_recv P t b = Some (Inr e, b1)" and h: "handle_log_reader_event now e s = Inr s'"
    and inv: "pull_inv b0 s b"
  shows "pull_inv b0 s' b1"
proof -
  obtain ev where e: "e = Event ev" using h by (cases e) (simp_all add: handle_log_reader_event_def)
  note fr = reader_recv_frame [OF r]
  have fr1: "boot_semantic b1 = boot_semantic b" "boot_received b1 = boot_received b @ [ev]"
    using fr e by simp_all
  note step = pull_inv_event [OF inv fr1]
  show ?thesis
    by (cases ev) (use h e step in \<open>auto simp: handle_log_reader_event_def\<close>)
qed

lemma wait_Inr:
  "boot_bind (boot_now P) (\<lambda>now. boot_bind (reader_recv P (f now)) (g now)) b = Some (Inr y, b') \<longleftrightarrow>
    (\<exists>e b1. reader_recv P (f (peer_now P (boot_peer b))) b = Some (Inr e, b1) \<and>
      g (peer_now P (boot_peer b)) e b1 = Some (Inr y, b'))"
  by (simp add: boot_bind_Inr)

lemma start_tail_round_inv:
  assumes r: "start_tail_round P s b = Some (Inr (s', c), b')" and inv: "pull_inv b0 s b"
  shows "case c of None \<Rightarrow> pull_inv b0 s' b' | Some cursor \<Rightarrow>
    (\<exists>rest. pulled b0 b' cursor rest) \<and> (\<exists>tail\<le>cursor. ReaderTail tail \<in> set (boot_received b'))"
proof -
  let ?now = "peer_now P (boot_peer b)"
  let ?t = "next_fire_at ?now (pl_buffer s)"
  let ?A = "case pl_target s of None \<Rightarrow> False | Some tail \<Rightarrow> tail \<le> pl_applied s"
  consider (at_tail) tail where "pl_target s = Some tail" "tail \<le> pl_applied s" "c = Some (pl_applied s)" "b' = b"
    | (flush) "boot_bind (pull_flush P s) (\<lambda>s'. boot_return (s', None)) b = Some (Inr (s', c), b')"
    | (wait) e b1 where "reader_recv P ?t b = Some (Inr e, b1)"
      "(if e = TimerFired \<and> ?t \<noteq> None then
          boot_bind (pull_flush P s) (\<lambda>s'. boot_return (s', None))
        else boot_bind (boot_lift (handle_log_reader_event ?now e s)) (\<lambda>s'. boot_return (s', None))) b1 =
        Some (Inr (s', c), b')"
  proof (cases ?A)
    case True
    then show thesis using r at_tail unfolding start_tail_round_def by (auto split: option.splits)
  next
    case notA: False
    let ?B = "case (pl_target s, last_sequence_end (pl_buffer s)) of
      (Some tail, Some buffered_end) \<Rightarrow> tail \<le> buffered_end | _ \<Rightarrow> False"
    show thesis
    proof (cases "?B \<or> \<not> has_capacity (pl_buffer s)")
      case True
      show thesis
        by (rule flush, use r notA True in \<open>simp only: start_tail_round_def if_False if_True split: if_split_asm\<close>)
           (blast+)?
    next
      case False
      then have "start_tail_round P s = boot_bind (boot_now P) (\<lambda>now.
        boot_bind (reader_recv P (next_fire_at now (pl_buffer s))) (\<lambda>r.
          if r = TimerFired \<and> next_fire_at now (pl_buffer s) \<noteq> None then
            boot_bind (pull_flush P s) (\<lambda>s'. boot_return (s', None))
          else
            boot_bind (boot_lift (handle_log_reader_event now r s)) (\<lambda>s'. boot_return (s', None))))"
        using notA by (simp only: start_tail_round_def if_False de_Morgan_disj not_not if_cancel simp_thms)
      with r have "\<exists>e b1. reader_recv P ?t b = Some (Inr e, b1) \<and>
        (if e = TimerFired \<and> ?t \<noteq> None then
          boot_bind (pull_flush P s) (\<lambda>s'. boot_return (s', None))
        else boot_bind (boot_lift (handle_log_reader_event ?now e s)) (\<lambda>s'. boot_return (s', None))) b1 =
        Some (Inr (s', c), b')"
        by (simp only: wait_Inr)
      then show thesis using wait by blast
    qed
  qed
  then show ?thesis
  proof cases
    case at_tail
    have "ReaderTail tail \<in> set (boot_received b)" using inv at_tail(1) by (auto simp: pull_inv_def)
    then show ?thesis using at_tail pull_inv_pulled [OF inv] by auto
  next
    case flush
    from flush_return_inv [OF this inv] show ?thesis by simp
  next
    case wait
    show ?thesis
    proof (cases "e = TimerFired \<and> ?t \<noteq> None")
      case True
      then have "pull_inv b0 s b1"
        using reader_recv_frame [OF wait(1)] inv by (simp add: pull_inv_def batches_sent_def)
      from flush_return_inv [OF _ this, of P s' c b'] wait(2) True show ?thesis by simp
    next
      case False
      with wait(2) have "c = None" "b' = b1" "handle_log_reader_event ?now e s = Inr s'"
        by (auto simp: boot_bind_Inr boot_lift_def split: sum.splits)
      with handle_event_inv [OF wait(1) this(3) inv] show ?thesis by simp
    qed
  qed
qed

lemma pull_loop_inv:
  assumes step: "\<And>s b s' c b'. round P s b = Some (Inr (s', c), b') \<Longrightarrow> pull_inv b0 s b \<Longrightarrow>
      (case c of None \<Rightarrow> pull_inv b0 s' b' | Some cursor \<Rightarrow> Q cursor b')"
    and loop: "pull_loop round P s b = Some (Inr cursor, b')" and inv: "pull_inv b0 s b"
  shows "Q cursor b'"
proof -
  define C where "C x r \<longleftrightarrow> (case x of (((rd, p), s), b) \<Rightarrow> rd = round \<longrightarrow> p = P \<longrightarrow> pull_inv b0 s b \<longrightarrow>
    (\<forall>cursor. fst r = Inr cursor \<longrightarrow> Q cursor (snd r)))" for x and r :: "nat res \<times> 'a boot"
  have "C (((round, P), s), b) (Inr cursor, b')"
  proof (rule pull_loop.raw_induct [of C])
    fix f rd p s b r
    assume IH: "\<And>rd p s b r. f rd p s b = Some r \<Longrightarrow> C (((rd, p), s), b) r"
      and eq: "(case rd p s b of None \<Rightarrow> None
        | Some (r, b') \<Rightarrow> (case r of Inl e \<Rightarrow> Some (Inl e, b')
          | Inr x \<Rightarrow> (case snd x of None \<Rightarrow> f rd p (fst x) b' | Some cursor \<Rightarrow> Some (Inr cursor, b')))) = Some r"
    show "C (((rd, p), s), b) r"
      unfolding C_def prod.case
    proof (intro impI allI)
      fix cursor assume rd: "rd = round" "p = P" and i: "pull_inv b0 s b" and ret: "fst r = Inr cursor"
      obtain s1 c b1 where one: "round P s b = Some (Inr (s1, c), b1)"
        and k: "(case c of None \<Rightarrow> f round P s1 b1 | Some cursor \<Rightarrow> Some (Inr cursor, b1)) = Some r"
        using eq rd ret by (auto split: option.splits sum.splits prod.splits)
      show "Q cursor (snd r)"
        using step [OF one i] k ret IH [of round P s1 b1 r, unfolded C_def prod.case] by (cases c) auto
    qed
  qed (rule loop)
  with inv show ?thesis by (simp add: C_def)
qed

lemma reader_end_pulled:
  "pull_loop reader_end_round P s b = Some (Inr c, b') \<Longrightarrow> pull_inv b0 s b \<Longrightarrow>
    pulled b0 b' c [] \<and> last (boot_received b') = ReaderEnded c"
  by (rule pull_loop_inv [where round = reader_end_round and P = P and
        Q = "\<lambda>c b'. pulled b0 b' c [] \<and> last (boot_received b') = ReaderEnded c"])
     (rule reader_end_round_inv)

lemma start_tail_pulled:
  "pull_loop start_tail_round P s b = Some (Inr c, b') \<Longrightarrow> pull_inv b0 s b \<Longrightarrow>
    (\<exists>rest. pulled b0 b' c rest) \<and> (\<exists>tail\<le>c. ReaderTail tail \<in> set (boot_received b'))"
  by (rule pull_loop_inv [where round = start_tail_round and P = P and
        Q = "\<lambda>c b'. (\<exists>rest. pulled b0 b' c rest) \<and> (\<exists>tail\<le>c. ReaderTail tail \<in> set (boot_received b'))"])
     (rule start_tail_round_inv)

lemma pull_new_inv:
  "boot_received b = [] \<Longrightarrow> boot_semantic b = boot_semantic b0 \<Longrightarrow> pull_inv b0 pull_new b"
  unfolding pull_inv_def batches_sent_def
  by (intro conjI exI [of _ "[]"]) (simp_all add: pull_new_def smb_new_def applied_end_def)

section \<open>A bounded pull of a whole log\<close>

text \<open>Peers of a bounded pull: the reader delivers the events left in its state, the service accepts
  every batch.\<close>

definition log_peers :: "log_reader_event list peers" where
  "log_peers =
     \<lparr>peer_fs = \<lambda>_ _. None,
      peer_semantic = \<lambda>_ p. Some ((0, RUnit (Inr ())), p),
      peer_writer = \<lambda>_ p. Some (Closed, p),
      peer_reader = \<lambda>_ _ p. Some (case p of [] \<Rightarrow> (Closed, []) | ev # evs \<Rightarrow> (Event ev, evs)),
      peer_now = \<lambda>_. 0\<rparr>"

definition log_ready :: "'p boot \<Rightarrow> bool" where
  "log_ready b \<longleftrightarrow>
     sc_open (boot_semantic b) \<and> sc_pending (boot_semantic b) = [] \<and>
     sc_in_flight_apply_shared_message_batch (boot_semantic b) = 0"

text \<open>The loop has read the first \<open>k\<close> messages of \<open>es\<close> and applied the first \<open>j\<close>.\<close>

definition pull_buf ::
  "shared_message_envelope list \<Rightarrow> nat \<Rightarrow> nat \<Rightarrow> pull \<Rightarrow> 'p boot \<Rightarrow> bool" where
  "pull_buf es j k s b \<longleftrightarrow>
     j \<le> k \<and> k \<le> length es \<and> smb_envelopes (pl_buffer s) = drop j (take k es) \<and> smb_wf (pl_buffer s) \<and>
     pl_applied s = j \<and> log_ready b"

definition pull_at ::
  "shared_message_envelope list \<Rightarrow> nat \<Rightarrow> nat \<Rightarrow> pull \<Rightarrow> log_reader_event list boot \<Rightarrow> bool" where
  "pull_at es j k s b \<longleftrightarrow>
     pull_buf es j k s b \<and> boot_received b = map ReaderRead (take k es) \<and>
     boot_peer b = map ReaderRead (drop k es) @ [ReaderEnded (length es)]"

lemma batch_of_segment:
  assumes "map env_sequence_number es = [f..<f + length es]" and "es \<noteq> []" and "f + length es < 2 ^ 64"
  shows "\<exists>m. batch_try_from es = Inr m"
proof -
  obtain e es' where es: "es = e # es'" using assms(2) by (cases es) auto
  have upt: "map env_sequence_number es = f # [Suc f..<Suc (f + length es')]"
    using assms(1) es by (simp add: upt_conv_Cons del: upt_Suc)
  have "env_sequence_number (last es) = last (map env_sequence_number es)" using assms(2) by (simp add: last_map)
  also have "\<dots> = f + length es'" using upt by (cases es') (simp_all add: upt_conv_Cons)
  finally have "env_sequence_number (last es) = f + length es'" .
  moreover have "contiguous_from f (map env_sequence_number es')"
    using upt_contiguous_from [of f "length es'"] assms(3) upt es by (simp del: upt_Suc)
  ultimately show ?thesis using es upt by (simp add: batch_try_from_def)
qed

lemma flush_returns:
  assumes "log_ready b" and "smb_envelopes (pl_buffer s) \<noteq> []"
    and "batch_try_from (smb_envelopes (pl_buffer s)) = Inr m"
  shows "\<exists>s' b'. pull_flush log_peers s b = Some (Inr s', b') \<and> log_ready b' \<and> boot_peer b' = boot_peer b \<and>
    boot_received b' = boot_received b \<and> pl_buffer s' = snd (smb_drain (pl_buffer s)) \<and>
    pl_applied s' = (env_sequence_number (last (smb_envelopes (pl_buffer s))) + 1) mod 2 ^ 64"
  using assms
  by (simp add: pull_flush_def flush_shared_message_buffer_def boot_bind_def smb_is_empty_def last_sequence_end_def
      smb_drain_def semantic_do_def sc_apply_shared_message_batch_def can_accept_apply_shared_message_batch_def
      log_ready_def sc_enqueue_def await_apply_shared_message_batch_def semantic_next_def log_peers_def
      semantic_response_of_def semantic_client_next_def checked_pred_def Let_def ok_or_def)

lemma pull_buf_flush:
  assumes at: "pull_buf es j k s b" and seq: "map env_sequence_number es = [0..<length es]"
    and len: "length es < 2 ^ 64" and ne: "smb_envelopes (pl_buffer s) \<noteq> []"
  shows "\<exists>s' b'. pull_flush log_peers s b = Some (Inr s', b') \<and> pull_buf es k k s' b' \<and>
    has_capacity (pl_buffer s') \<and> boot_peer b' = boot_peer b \<and> boot_received b' = boot_received b"
proof -
  let ?env = "smb_envelopes (pl_buffer s)"
  have jk: "j < k" "k \<le> length es" "?env = drop j (take k es)" using at ne by (auto simp: pull_buf_def)
  then have seg: "map env_sequence_number ?env = [j..<j + length ?env]"
    using seq by (simp flip: drop_map take_map)
  moreover have "j + length ?env < 2 ^ 64" using jk len by simp
  ultimately obtain m where m: "batch_try_from ?env = Inr m" using batch_of_segment ne by blast
  have "env_sequence_number (last ?env) = last (map env_sequence_number ?env)" using ne by (simp add: last_map)
  also have "\<dots> = k - 1" using seg jk by simp
  finally have "(env_sequence_number (last ?env) + 1) mod 2 ^ 64 = k" using jk len by simp
  with flush_returns [OF _ ne m, of b] at show ?thesis
    by (fastforce simp: pull_buf_def smb_drain_def smb_wf_def has_capacity_def max_size_bytes_def)
qed

lemma pull_at_round:
  assumes at: "pull_at es j k s b" and seq: "map env_sequence_number es = [0..<length es]" and len: "length es < 2 ^ 64"
  shows "(\<exists>s' b'. reader_end_round log_peers s b = Some (Inr (s', Some (length es)), b') \<and>
      boot_received b' = map ReaderRead es @ [ReaderEnded (length es)]) \<or>
    (\<exists>s' b' j' k'. reader_end_round log_peers s b = Some (Inr (s', None), b') \<and> pull_at es j' k' s' b' \<and>
      (k < k' \<or> k' = k \<and> \<not> has_capacity (pl_buffer s) \<and> has_capacity (pl_buffer s')))"
proof (cases "has_capacity (pl_buffer s)")
  case False
  then have "smb_envelopes (pl_buffer s) \<noteq> []"
    using at by (auto simp: pull_at_def pull_buf_def smb_wf_def has_capacity_def max_size_bytes_def)
  with at obtain s' b' where "pull_flush log_peers s b = Some (Inr s', b')" "pull_at es k k s' b'"
    "has_capacity (pl_buffer s')"
    using pull_buf_flush [OF _ seq len, of j k s b] by (auto simp: pull_at_def)
  moreover from this(1) False have "reader_end_round log_peers s b = Some (Inr (s', None), b')"
    by (simp add: reader_end_round_def boot_bind_def)
  ultimately show ?thesis using False by blast
next
  case cap: True
  show ?thesis
  proof (cases "k < length es")
    case True
    let ?b = "b\<lparr>boot_received := boot_received b @ [ReaderRead (es ! k)],
      boot_peer := map ReaderRead (drop (Suc k) es) @ [ReaderEnded (length es)]\<rparr>"
    let ?s = "s\<lparr>pl_buffer := smb_insert 0 (es ! k) (pl_buffer s)\<rparr>"
    have "drop k es = es ! k # drop (Suc k) es" using True by (simp add: Cons_nth_drop_Suc)
    then have "reader_end_round log_peers s b = Some (Inr (?s, None), ?b)"
      using at cap by (simp add: reader_end_round_def boot_bind_def boot_now_def reader_recv_def log_peers_def pull_at_def)
    moreover have "pull_at es j (Suc k) ?s ?b"
      using at True smb_insert_fields
      by (auto simp: pull_at_def pull_buf_def take_Suc_conv_app_nth log_ready_def)
    ultimately show ?thesis by blast
  next
    case False
    then have k: "k = length es" using at by (simp add: pull_at_def pull_buf_def)
    let ?b = "b\<lparr>boot_received := boot_received b @ [ReaderEnded (length es)], boot_peer := []\<rparr>"
    have round: "reader_end_round log_peers s b =
        boot_bind (if \<not> smb_is_empty (pl_buffer s) then pull_flush log_peers s else boot_return s) (\<lambda>s'.
          if pl_applied s' \<noteq> length es then boot_fail Fatal else boot_return (s', Some (length es))) ?b"
      using at cap k
      by (simp add: reader_end_round_def boot_bind_run [of "boot_now _" b] boot_bind_run [of "reader_recv _ _" b]
          boot_now_def reader_recv_def pull_at_def log_peers_def boot_bind_def)
    have buf: "pull_buf es j k s ?b" using at by (simp add: pull_at_def pull_buf_def log_ready_def)
    show ?thesis
    proof (cases "smb_is_empty (pl_buffer s)")
      case True
      then have "j = length es" using buf k by (simp add: pull_buf_def smb_is_empty_def)
      with round True at k show ?thesis by (simp add: boot_bind_def pull_at_def pull_buf_def)
    next
      case ne: False
      then obtain s' b' where "pull_flush log_peers s ?b = Some (Inr s', b')" "pull_buf es k k s' b'"
        "boot_received b' = boot_received ?b"
        using pull_buf_flush [OF buf seq len] by (auto simp: smb_is_empty_def)
      with round ne at k show ?thesis by (simp add: boot_bind_def pull_at_def pull_buf_def)
    qed
  qed
qed

lemma pull_at_run:
  assumes seq: "map env_sequence_number es = [0..<length es]" and len: "length es < 2 ^ 64"
  shows "pull_at es j k s b \<Longrightarrow> \<exists>b'. pull_loop reader_end_round log_peers s b = Some (Inr (length es), b') \<and>
    boot_received b' = map ReaderRead es @ [ReaderEnded (length es)]"
proof (induction "2 * (length es - k) + (if has_capacity (pl_buffer s) then 0 else 1)" arbitrary: j k s b rule: less_induct)
  case less
  show ?case
  proof (rule disjE [OF pull_at_round [OF less.prems seq len]])
    assume "\<exists>s' b'. reader_end_round log_peers s b = Some (Inr (s', Some (length es)), b') \<and>
      boot_received b' = map ReaderRead es @ [ReaderEnded (length es)]"
    then show ?thesis by (subst pull_loop.simps) auto
  next
    assume "\<exists>s' b' j' k'. reader_end_round log_peers s b = Some (Inr (s', None), b') \<and> pull_at es j' k' s' b' \<and>
      (k < k' \<or> k' = k \<and> \<not> has_capacity (pl_buffer s) \<and> has_capacity (pl_buffer s'))"
    then obtain s' b' j' k' where step: "reader_end_round log_peers s b = Some (Inr (s', None), b')"
      and at': "pull_at es j' k' s' b'"
      and dec: "k < k' \<or> k' = k \<and> \<not> has_capacity (pl_buffer s) \<and> has_capacity (pl_buffer s')" by blast
    have "k' \<le> length es" using at' by (simp add: pull_at_def pull_buf_def)
    with dec have "2 * (length es - k') + (if has_capacity (pl_buffer s') then 0 else 1)
        < 2 * (length es - k) + (if has_capacity (pl_buffer s) then 0 else (1::nat))" by auto
    from less.hyps [OF this at'] step show ?thesis by (subst pull_loop.simps) simp
  qed
qed

lemma reads_all: "reads (map ReaderRead es @ [ReaderEnded n]) = es"
  by (induction es) simp_all

section \<open>Properties\<close>

lemma drained_demo:
  "\<exists>d. run_queue_op (QEnqueue 0 [TextObjectUpdate ''o'' ''t'']) demo_outbox_db = Inr d \<and> out_inv d \<and>
    out_sent d = [] \<and> out_waiting d = [(1, TextObjectUpdate ''o'' ''t'')]"
  using queue_step_refines [of demo_outbox_db "QEnqueue 0 [TextObjectUpdate ''o'' ''t'']"] demo_outbox
  by (auto simp: queue_abs_def i64_range_def i64_max_def)


definition demo_boot :: "'p \<Rightarrow> 'p boot" where
  "demo_boot p = \<lparr>boot_fs = fs_client_new, boot_semantic = semantic_client_new, boot_writer_open = True,
     boot_writer = [], boot_reader_open = True, boot_reader = [], boot_received = [], boot_peer = p\<rparr>"

lemma demo_boot_ready:
  "drain_ready X i d (demo_boot (d, 0))" "log_ready (demo_boot p)" "boot_received (demo_boot p) = []"
  "boot_peer (demo_boot p) = p" "boot_writer (demo_boot p) = []"
  by (simp_all add: demo_boot_def drain_ready_def log_ready_def unserved_def semantic_client_new_def)



lemma demo_pull:
  "\<exists>b'. pull_shared_log_to_reader_end log_peers
      (demo_boot [ReaderRead (demo_env ''v'' 0 ''x''), ReaderEnded 1]) = Some (Inr 1, b') \<and>
    boot_received b' = [ReaderRead (demo_env ''v'' 0 ''x''), ReaderEnded 1]"
proof -
  let ?es = "[demo_env ''v'' 0 ''x'']"
  have "pull_at ?es 0 0 pull_new (demo_boot [ReaderRead (demo_env ''v'' 0 ''x''), ReaderEnded 1])"
    by (simp add: pull_at_def pull_buf_def pull_new_def smb_new_def smb_wf_def demo_boot_ready)
  from pull_at_run [OF _ _ this] show ?thesis
    by (simp add: demo_env_def pull_shared_log_to_reader_end_def)
qed




end
