(* ===== verification/S2_Errors.thy ===== *)
theory S2_Errors
  imports External
begin

text \<open>
  How failures of the S2 service are told apart (\<open>app/s2.rs\<close>): a lost connection is retried, anything
  else ends the daemon. The error types are those of \<open>s2_sdk\<close>, with the constructors the code
  matches on and one for the rest; of a session error the code asks two things, the request error it
  carries (if any) and its kind.
\<close>

datatype request_error =
    ReqClient
  | ReqServer string
  | ReqAccessTokenProvider bool
  | ReqMalformedAccessToken
  | ReqValidation
  | ReqOther

datatype session_error_kind =
    HeartbeatTimeout | AckTimeout | ServerDisconnected | StreamClosedEarly | OtherKind

record session_error =
  se_request :: "request_error option"
  se_kind :: session_error_kind

datatype producer_error = ProdAppend session_error | ProdValidation | ProdClosed | ProdClosing | ProdDropped | ProdOther

definition connectivity_codes :: "string list" where
  "connectivity_codes =
     [''client_hangup'', ''hot_server'', ''other'', ''rate_limited'', ''request_timeout'', ''storage'',
      ''transaction_conflict'', ''unavailable'', ''upstream_timeout'']"

fun request_error_is_connectivity :: "request_error \<Rightarrow> bool" where
  "request_error_is_connectivity ReqClient = True"
| "request_error_is_connectivity (ReqServer code) = (code \<in> set connectivity_codes)"
| "request_error_is_connectivity (ReqAccessTokenProvider retryable) = retryable"
| "request_error_is_connectivity _ = False"

definition read_session_error_is_connectivity :: "session_error \<Rightarrow> bool" where
  "read_session_error_is_connectivity e =
     (case se_request e of
        Some r \<Rightarrow> request_error_is_connectivity r
      | None \<Rightarrow> se_kind e = HeartbeatTimeout)"

definition read_error_is_connectivity :: "session_error \<Rightarrow> bool" where
  "read_error_is_connectivity e =
     (case se_request e of Some r \<Rightarrow> request_error_is_connectivity r | None \<Rightarrow> False)"

definition append_session_error_is_connectivity :: "session_error \<Rightarrow> bool" where
  "append_session_error_is_connectivity e =
     (case se_request e of
        Some r \<Rightarrow> request_error_is_connectivity r
      | None \<Rightarrow> se_kind e \<in> {AckTimeout, ServerDisconnected, StreamClosedEarly})"

fun producer_error_is_connectivity :: "producer_error \<Rightarrow> bool" where
  "producer_error_is_connectivity (ProdAppend e) = append_session_error_is_connectivity e"
| "producer_error_is_connectivity _ = False"

text \<open>How a run of the reader or the writer ends early: disconnected (with the text of the error) or
  with the error the actor returns.\<close>

datatype run_error = RunDisconnected string | RunFatal error

text \<open>The texts of errors are the parameter \<open>show_error\<close> of \<open>classify\<close>.\<close>

definition classify :: "('e \<Rightarrow> bool) \<Rightarrow> ('e \<Rightarrow> string) \<Rightarrow> 'e \<Rightarrow> run_error" where
  "classify is_connectivity show_error e =
     (if is_connectivity e then RunDisconnected (show_error e) else RunFatal Fatal)"

definition from_request :: "(request_error \<Rightarrow> string) \<Rightarrow> request_error \<Rightarrow> run_error" where
  "from_request = classify request_error_is_connectivity"

definition from_append_session :: "(session_error \<Rightarrow> string) \<Rightarrow> session_error \<Rightarrow> run_error" where
  "from_append_session = classify append_session_error_is_connectivity"

definition from_producer :: "(producer_error \<Rightarrow> string) \<Rightarrow> producer_error \<Rightarrow> run_error" where
  "from_producer = classify producer_error_is_connectivity"

definition from_read_session :: "(session_error \<Rightarrow> string) \<Rightarrow> session_error \<Rightarrow> run_error" where
  "from_read_session = classify read_session_error_is_connectivity"

definition from_read :: "(session_error \<Rightarrow> string) \<Rightarrow> session_error \<Rightarrow> run_error" where
  "from_read = classify read_error_is_connectivity"

section \<open>Streams\<close>

text \<open>The answer to a request to create a stream: nothing, or an error.\<close>

definition ensure_stream_exists :: "request_error option \<Rightarrow> request_error option" where
  "ensure_stream_exists answer =
     (case answer of
        Some (ReqServer code) \<Rightarrow> if code = ''resource_already_exists'' then None else answer
      | _ \<Rightarrow> answer)"

definition ops_stream_name :: "('d, 'sv) ext \<Rightarrow> string \<Rightarrow> string res" where
  "ops_stream_name X workspace_id =
     (let name = workspace_id @ ''/ops'' in if s2_stream_name_ok X name then Inr name else Inl Fatal)"

definition create_workspace_stream :: "('d, 'sv) ext \<Rightarrow> string \<Rightarrow> request_error option \<Rightarrow> unit res" where
  "create_workspace_stream X workspace_id answer =
     bind_res (ops_stream_name X workspace_id) (\<lambda>_.
       case answer of None \<Rightarrow> Inr () | Some _ \<Rightarrow> Inl Fatal)"

definition ensure_workspace_stream_exists :: "('d, 'sv) ext \<Rightarrow> string \<Rightarrow> session_error option \<Rightarrow> unit res" where
  "ensure_workspace_stream_exists X workspace_id tail_answer =
     bind_res (ops_stream_name X workspace_id) (\<lambda>_.
       case tail_answer of None \<Rightarrow> Inr () | Some _ \<Rightarrow> Inl Fatal)"

lemma ensure_stream_exists_None:
  "ensure_stream_exists answer = None \<longleftrightarrow> answer = None \<or> answer = Some (ReqServer ''resource_already_exists'')"
  by (auto simp: ensure_stream_exists_def split: option.splits request_error.splits)

end
