(* ===== verification/Log_Writer.thy ===== *)
theory Log_Writer
  imports Engine S2_Errors
begin

text \<open>
  The log writer actor, \<open>log/writer.rs\<close>. The actor connects, serves the session until it ends, and
  after a lost connection answers status requests and drops appends until it is told to reconnect.
  A step is one turn of the innermost \<open>select!\<close>: the branch taken and what the service answered
  are the event. Nonces, generated ids and the wall clock are part of the event that uses them.
  The producer is modelled by what is submitted to it and by the results its tickets resolve to;
  \<open>FuturesOrdered\<close> yields those in the order of submission.
\<close>

section \<open>State\<close>

record ('d, 'sv) writer_config =
  wc_ext :: "('d, 'sv) ext"
  wc_workspace :: string
  wc_daemon_writer_id :: writer_id
  wc_key :: bytes
  wc_request_text :: "request_error \<Rightarrow> string"
  wc_session_text :: "session_error \<Rightarrow> string"
  wc_producer_text :: "producer_error \<Rightarrow> string"
  wc_batch_ok :: "append_record \<Rightarrow> bool"

text \<open>The upload under way: its outbox id, the pointer record it unblocks, the pointer and the parts.\<close>

record upload =
  up_outbox_id :: nat
  up_pointer_record :: append_record
  up_pointer :: object_pointer
  up_parts :: "append_record list"

text \<open>The local variables of \<open>run_connected\<close>. What the service has been given in the session is kept
  beside them: the records submitted to the producer and the object streams uploaded.\<close>

record session =
  se_inflight :: nat
  se_next_expected :: "nat option"
  se_pending_appends :: "nat list"
  se_big_upload :: "upload option"
  se_submitted :: "append_record list"
  se_uploaded :: "(string \<times> bytes list) list"

definition session_new :: session where
  "session_new =
     \<lparr>se_inflight = 0, se_next_expected = None, se_pending_appends = [], se_big_upload = None,
      se_submitted = [], se_uploaded = []\<rparr>"

datatype writer_phase = Connecting | Serving session | Waiting | Stopped "unit res"

record writer =
  wr_phase :: writer_phase
  wr_responses :: "log_writer_response list"
  wr_listening :: bool

definition writer_new :: writer where
  "writer_new = \<lparr>wr_phase = Connecting, wr_responses = [], wr_listening = True\<rparr>"

section \<open>Uploading the parts of a large message\<close>

text \<open>What the service answers to one upload: to creating the stream, to submitting part \<open>i\<close>, and the
  first error among the acknowledgements.\<close>

record upload_answers =
  ua_create :: "request_error option"
  ua_submit :: "nat \<Rightarrow> session_error option"
  ua_acks :: "session_error option"

definition run_res :: "'a res \<Rightarrow> run_error + 'a" where
  "run_res r = (case r of Inl e \<Rightarrow> Inl (RunFatal e) | Inr x \<Rightarrow> Inr x)"

definition run_answer :: "('e \<Rightarrow> run_error) \<Rightarrow> 'e option \<Rightarrow> run_error + unit" where
  "run_answer f a = (case a of None \<Rightarrow> Inr () | Some e \<Rightarrow> Inl (f e))"

definition run_bind :: "run_error + 'a \<Rightarrow> ('a \<Rightarrow> run_error + 'b) \<Rightarrow> run_error + 'b" where
  "run_bind m f = (case m of Inl e \<Rightarrow> Inl e | Inr x \<Rightarrow> f x)"

fun submit_parts ::
  "('d, 'sv) writer_config \<Rightarrow> (nat \<Rightarrow> bytes) \<Rightarrow> (nat \<Rightarrow> session_error option) \<Rightarrow> nat \<Rightarrow>
     append_record list \<Rightarrow> run_error + bytes list" where
  "submit_parts C rng submit idx [] = Inr []"
| "submit_parts C rng submit idx (part # parts) =
     run_bind (run_res (encrypt_record (wc_ext C) (wc_key C) (rng idx) part)) (\<lambda>part'.
     run_bind (if wc_batch_ok C part' then Inr () else Inl (RunFatal Fatal)) (\<lambda>_.
     run_bind (run_answer (from_append_session (wc_session_text C)) (submit idx)) (\<lambda>_.
     run_bind (submit_parts C rng submit (Suc idx) parts) (\<lambda>bodies. Inr (ar_body part' # bodies)))))"

definition upload_parts ::
  "('d, 'sv) writer_config \<Rightarrow> (nat \<Rightarrow> bytes) \<Rightarrow> upload_answers \<Rightarrow> upload \<Rightarrow>
     run_error + (nat \<times> append_record) \<times> (string \<times> bytes list)" where
  "upload_parts C rng a u =
     run_bind (run_res (stream_name (wc_ext C) (wc_workspace C) (up_pointer u))) (\<lambda>name.
     run_bind (run_answer (from_request (wc_request_text C)) (ensure_stream_exists (ua_create a))) (\<lambda>_.
     run_bind (submit_parts C rng (ua_submit a) 0 (up_parts u)) (\<lambda>bodies.
     run_bind (run_answer (from_append_session (wc_session_text C)) (ua_acks a)) (\<lambda>_.
       Inr ((up_outbox_id u, up_pointer_record u), (name, bodies))))))"

section \<open>One turn of a session\<close>

datatype session_event =
    SessionCancelled
  | AppendResolved "producer_error option"
  | UploadResolved "nat \<Rightarrow> bytes" upload_answers "producer_error option"
  | UploadPanicked
  | RequestReceived log_writer_request "bytes" string time_ns "producer_error option"

text \<open>A turn goes on with the session and the responses sent, or ends the run.\<close>

datatype session_turn = GoOn session "log_writer_response list" | EndCancelled | EndError run_error

definition submit_record ::
  "('d, 'sv) writer_config \<Rightarrow> nat \<Rightarrow> append_record \<Rightarrow> producer_error option \<Rightarrow> session \<Rightarrow> session_turn" where
  "submit_record C outbox_id rec answer s =
     (case answer of
        Some e \<Rightarrow> EndError (from_producer (wc_producer_text C) e)
      | None \<Rightarrow>
          GoOn (s\<lparr>se_inflight := se_inflight s + 1, se_pending_appends := se_pending_appends s @ [outbox_id],
                  se_submitted := se_submitted s @ [rec]\<rparr>) [])"

definition accept_append ::
  "('d, 'sv) writer_config \<Rightarrow> nat \<Rightarrow> shared_message \<Rightarrow> bytes \<Rightarrow> string \<Rightarrow> time_ns \<Rightarrow> producer_error option \<Rightarrow>
     session \<Rightarrow> session_turn" where
  "accept_append C outbox_id msg nonce generated_id now answer s =
     (if (case se_next_expected s of Some expected \<Rightarrow> outbox_id \<noteq> expected | None \<Rightarrow> False) then
        EndError (RunFatal Panicked)
      else (case checked_add_u64 outbox_id 1 of
          None \<Rightarrow> EndError (RunFatal Panicked)
        | Some next_id \<Rightarrow>
            let s1 = s\<lparr>se_next_expected := Some next_id\<rparr>;
                origin = \<lparr>or_daemon_writer_id = wc_daemon_writer_id C, or_outbox_id = outbox_id\<rparr>
            in (case shared_to_s2_package (wc_ext C) generated_id now msg origin of
                  Inl e \<Rightarrow> EndError (RunFatal e)
                | Inr (Inlined rec) \<Rightarrow>
                    (case encrypt_record (wc_ext C) (wc_key C) nonce rec of
                       Inl e \<Rightarrow> EndError (RunFatal e)
                     | Inr rec' \<Rightarrow> submit_record C outbox_id rec' answer s1)
                | Inr (Pointer pointer_record pointer parts) \<Rightarrow>
                    GoOn (s1\<lparr>se_big_upload := Some \<lparr>up_outbox_id = outbox_id,
                        up_pointer_record = pointer_record, up_pointer = pointer, up_parts = parts\<rparr>\<rparr>) [])))"

text \<open>The guards of the branches; a branch that is not enabled is not taken.\<close>

definition branch_enabled :: "session_event \<Rightarrow> session \<Rightarrow> bool" where
  "branch_enabled ev s \<longleftrightarrow>
     (case ev of
        SessionCancelled \<Rightarrow> True
      | AppendResolved _ \<Rightarrow> se_pending_appends s \<noteq> []
      | UploadResolved _ _ _ \<Rightarrow> se_big_upload s \<noteq> None
      | UploadPanicked \<Rightarrow> se_big_upload s \<noteq> None
      | RequestReceived _ _ _ _ _ \<Rightarrow> se_big_upload s = None \<and> se_inflight s < 1024 * 1024)"

definition session_turn :: "('d, 'sv) writer_config \<Rightarrow> session_event \<Rightarrow> session \<Rightarrow> session_turn" where
  "session_turn C ev s =
     (case ev of
        SessionCancelled \<Rightarrow> EndCancelled
      | AppendResolved res \<Rightarrow>
          (case res of
             Some e \<Rightarrow> EndError (from_producer (wc_producer_text C) e)
           | None \<Rightarrow>
               GoOn (s\<lparr>se_inflight := se_inflight s - 1, se_pending_appends := tl (se_pending_appends s)\<rparr>)
                 [WriterDurable (hd (se_pending_appends s))])
      | UploadResolved rng a answer \<Rightarrow>
          (case se_big_upload s of
             None \<Rightarrow> EndError (RunFatal Panicked)
           | Some u \<Rightarrow>
               (case upload_parts C rng a u of
                  Inl e \<Rightarrow> EndError e
                | Inr ((outbox_id, pointer_record), stored) \<Rightarrow>
                    submit_record C outbox_id pointer_record answer
                      (s\<lparr>se_big_upload := None, se_uploaded := se_uploaded s @ [stored]\<rparr>)))
      | UploadPanicked \<Rightarrow> EndError (RunFatal Fatal)
      | RequestReceived req nonce generated_id now answer \<Rightarrow>
          (case req of
             WriterStatus \<Rightarrow> GoOn s [WriterPing]
           | ReconnectWriter \<Rightarrow> GoOn s []
           | Append outbox_id msg \<Rightarrow> accept_append C outbox_id msg nonce generated_id now answer s))"

section \<open>The actor\<close>

text \<open>Events: the attempt to connect (the answer to creating the stream, and whether the producer's
  configuration is valid), a turn of the session, and what happens while waiting (\<open>None\<close>: the
  request channel is closed). The engine may stop listening at any time.\<close>

datatype writer_event =
    ConnectAttempt "request_error option" bool
  | InSession session_event
  | WaitCancelled
  | WaitRequest "log_writer_request option"
  | ListenerGone

definition end_run :: "run_error \<Rightarrow> writer \<Rightarrow> writer" where
  "end_run e w =
     (case e of
        RunDisconnected reason \<Rightarrow>
          if wr_listening w
          then w\<lparr>wr_phase := Waiting, wr_responses := wr_responses w @ [WriterDisconnected reason]\<rparr>
          else w\<lparr>wr_phase := Stopped (Inl Fatal)\<rparr>
      | RunFatal err \<Rightarrow> w\<lparr>wr_phase := Stopped (Inl err)\<rparr>)"

definition respond_all :: "log_writer_response list \<Rightarrow> writer_phase \<Rightarrow> writer \<Rightarrow> writer" where
  "respond_all rs phase w =
     (if rs = [] then w\<lparr>wr_phase := phase\<rparr>
      else if wr_listening w then w\<lparr>wr_phase := phase, wr_responses := wr_responses w @ rs\<rparr>
      else w\<lparr>wr_phase := Stopped (Inl Fatal)\<rparr>)"

definition connect_run ::
  "('d, 'sv) writer_config \<Rightarrow> request_error option \<Rightarrow> bool \<Rightarrow> run_error + unit" where
  "connect_run C answer config_ok =
     run_bind (run_res (ops_stream_name (wc_ext C) (wc_workspace C))) (\<lambda>_.
     run_bind (run_answer (from_request (wc_request_text C)) (ensure_stream_exists answer)) (\<lambda>_.
       if config_ok then Inr () else Inl (RunFatal Fatal)))"

text \<open>\<open>None\<close>: the event cannot happen in the state.\<close>

definition writer_step :: "('d, 'sv) writer_config \<Rightarrow> writer_event \<Rightarrow> writer \<Rightarrow> writer option" where
  "writer_step C ev w =
     (case (ev, wr_phase w) of
        (ListenerGone, _) \<Rightarrow> Some (w\<lparr>wr_listening := False\<rparr>)
      | (ConnectAttempt answer config_ok, Connecting) \<Rightarrow>
          Some (case connect_run C answer config_ok of
            Inl e \<Rightarrow> end_run e w
          | Inr _ \<Rightarrow> respond_all [WriterConnected] (Serving session_new) w)
      | (InSession sev, Serving s) \<Rightarrow>
          (if \<not> branch_enabled sev s then None
           else Some (case session_turn C sev s of
               GoOn s' rs \<Rightarrow> respond_all rs (Serving s') w
             | EndCancelled \<Rightarrow> w\<lparr>wr_phase := Stopped (Inr ())\<rparr>
             | EndError e \<Rightarrow> end_run e w))
      | (WaitCancelled, Waiting) \<Rightarrow> Some (w\<lparr>wr_phase := Stopped (Inr ())\<rparr>)
      | (WaitRequest req, Waiting) \<Rightarrow>
          Some (case req of
            None \<Rightarrow> w\<lparr>wr_phase := Stopped (Inl Fatal)\<rparr>
          | Some ReconnectWriter \<Rightarrow> w\<lparr>wr_phase := Connecting\<rparr>
          | Some WriterStatus \<Rightarrow> respond_all [WriterPing] Waiting w
          | Some (Append _ _) \<Rightarrow> w)
      | _ \<Rightarrow> None)"

fun writer_run :: "('d, 'sv) writer_config \<Rightarrow> writer_event list \<Rightarrow> writer \<Rightarrow> writer option" where
  "writer_run C [] w = Some w"
| "writer_run C (ev # evs) w = (case writer_step C ev w of None \<Rightarrow> None | Some w' \<Rightarrow> writer_run C evs w')"

section \<open>What a session has done\<close>

text \<open>The events of the session under way: those since the last successful attempt to connect.\<close>

fun session_events :: "session_event list \<Rightarrow> writer_event list \<Rightarrow> session_event list" where
  "session_events acc [] = acc"
| "session_events acc (InSession sev # evs) = session_events (acc @ [sev]) evs"
| "session_events acc (ConnectAttempt _ _ # evs) = session_events [] evs"
| "session_events acc (_ # evs) = session_events acc evs"

fun appended :: "session_event list \<Rightarrow> (nat \<times> shared_message) list" where
  "appended [] = []"
| "appended (RequestReceived (Append i m) _ _ _ _ # evs) = (i, m) # appended evs"
| "appended (_ # evs) = appended evs"

fun resolved :: "session_event list \<Rightarrow> nat" where
  "resolved [] = 0"
| "resolved (AppendResolved None # evs) = Suc (resolved evs)"
| "resolved (_ # evs) = resolved evs"

fun durables :: "log_writer_response list \<Rightarrow> nat list" where
  "durables [] = []"
| "durables (WriterDurable i # rs) = i # durables rs"
| "durables (WriterConnected # rs) = durables rs"
| "durables (WriterDisconnected _ # rs) = durables rs"
| "durables (WriterPing # rs) = durables rs"

fun since_connected :: "log_writer_response list \<Rightarrow> log_writer_response list \<Rightarrow> log_writer_response list" where
  "since_connected acc [] = acc"
| "since_connected acc (WriterConnected # rs) = since_connected [] rs"
| "since_connected acc (r # rs) = since_connected (acc @ [r]) rs"

lemma appended_append [simp]: "appended (xs @ ys) = appended xs @ appended ys"
  by (induction xs rule: appended.induct) auto

lemma resolved_append [simp]: "resolved (xs @ ys) = resolved xs + resolved ys"
  by (induction xs rule: resolved.induct) auto

lemma durables_append [simp]: "durables (xs @ ys) = durables xs @ durables ys"
  by (induction xs rule: durables.induct) auto

lemma session_events_snoc:
  "session_events acc (evs @ [ev]) = (case ev of InSession sev \<Rightarrow> session_events acc evs @ [sev]
     | ConnectAttempt _ _ \<Rightarrow> [] | _ \<Rightarrow> session_events acc evs)"
  by (induction acc evs rule: session_events.induct) (auto split: writer_event.splits)

lemma since_connected_snoc:
  "since_connected acc (rs @ [r]) = (if r = WriterConnected then [] else since_connected acc rs @ [r])"
  by (induction acc rs rule: since_connected.induct) (cases r; simp)+

lemma writer_run_snoc:
  "writer_run C (evs @ [ev]) w = (case writer_run C evs w of None \<Rightarrow> None | Some w' \<Rightarrow> writer_step C ev w')"
  by (induction evs arbitrary: w) (auto split: option.splits)

text \<open>A message was written as a record when the record is the published form of a package of it, and
  the object stream the package needs has been uploaded.\<close>

definition written ::
  "('d, 'sv) writer_config \<Rightarrow> (string \<times> bytes list) list \<Rightarrow> nat \<times> shared_message \<Rightarrow> append_record \<Rightarrow> bool" where
  "written C uploaded im rec \<longleftrightarrow>
     (\<exists>gid now pkg rng obj. (\<forall>i. length (rng i) = nonce_len) \<and>
        shared_to_s2_package (wc_ext C) gid now (snd im)
          \<lparr>or_daemon_writer_id = wc_daemon_writer_id C, or_outbox_id = fst im\<rparr> = Inr pkg \<and>
        publish_package (wc_ext C) (wc_workspace C) (wc_key C) rng pkg = Inr (rec, obj) \<and>
        (\<forall>st. obj = Some st \<longrightarrow> st \<in> set uploaded))"

lemma written_mono: "written C u im rec \<Longrightarrow> set u \<subseteq> set u' \<Longrightarrow> written C u' im rec"
  unfolding written_def by blast

fun nonces_ok :: "session_event \<Rightarrow> bool" where
  "nonces_ok (RequestReceived _ nonce _ _ _) = (length nonce = nonce_len)"
| "nonces_ok (UploadResolved rng _ _) = (\<forall>i. length (rng i) = nonce_len)"
| "nonces_ok _ = True"

section \<open>The invariant of a session\<close>

definition upload_pending :: "('d, 'sv) writer_config \<Rightarrow> upload \<Rightarrow> nat \<times> shared_message \<Rightarrow> bool" where
  "upload_pending C u im \<longleftrightarrow>
     up_outbox_id u = fst im \<and>
     (\<exists>gid now. shared_to_s2_package (wc_ext C) gid now (snd im)
        \<lparr>or_daemon_writer_id = wc_daemon_writer_id C, or_outbox_id = fst im\<rparr> =
      Inr (Pointer (up_pointer_record u) (up_pointer u) (up_parts u)))"

definition ids_in_order :: "(nat \<times> shared_message) list \<Rightarrow> nat option \<Rightarrow> bool" where
  "ids_in_order ims next_expected \<longleftrightarrow>
     (case next_expected of
        None \<Rightarrow> ims = []
      | Some n \<Rightarrow> n \<le> u64_max \<and> length ims \<le> n \<and> map fst ims = [n - length ims..<n])"

definition session_ok ::
  "('d, 'sv) writer_config \<Rightarrow> session_event list \<Rightarrow> log_writer_response list \<Rightarrow> session \<Rightarrow> bool" where
  "session_ok C evs rs s \<longleftrightarrow>
     (let ims = appended evs; m = length (se_submitted s)
      in (case se_big_upload s of
            None \<Rightarrow> length ims = m
          | Some u \<Rightarrow> length ims = Suc m \<and> upload_pending C u (last ims)) \<and>
         ids_in_order ims (se_next_expected s) \<and>
         durables rs @ se_pending_appends s = map fst (take m ims) \<and>
         length (durables rs) = resolved evs \<and>
         se_inflight s = length (se_pending_appends s) \<and>
         list_all2 (written C (se_uploaded s)) (take m ims) (se_submitted s))"

lemma ids_in_order_snoc:
  assumes "ids_in_order ims nx" and "\<not> (case nx of Some expected \<Rightarrow> i \<noteq> expected | None \<Rightarrow> False)"
    and "checked_add_u64 i 1 = Some n"
  shows "ids_in_order (ims @ [(i, msg)]) (Some n)"
  using assms by (auto simp: ids_in_order_def checked_add_u64_Some Suc_diff_le split: option.splits)

lemma submit_parts_encrypted:
  "submit_parts C rng submit idx parts = Inr bodies \<Longrightarrow>
     \<exists>es. map_res (\<lambda>(i, r). encrypt_record (wc_ext C) (wc_key C) (rng i) r) (enumerate idx parts) = Inr es \<and>
       bodies = map ar_body es"
proof (induction parts arbitrary: idx bodies)
  case (Cons part parts)
  then obtain part' rest where "encrypt_record (wc_ext C) (wc_key C) (rng idx) part = Inr part'"
    "submit_parts C rng submit (Suc idx) parts = Inr rest" "bodies = ar_body part' # rest"
    by (auto simp: run_bind_def run_res_def run_answer_def split: sum.splits if_splits option.splits)
  with Cons.IH [OF this(2)] show ?case by (auto simp: res_simps)
qed simp

lemma upload_published:
  assumes "upload_parts C rng a u = Inr ((i, rec), st)"
  shows "i = up_outbox_id u \<and> rec = up_pointer_record u \<and>
    publish_package (wc_ext C) (wc_workspace C) (wc_key C) rng
      (Pointer (up_pointer_record u) (up_pointer u) (up_parts u)) = Inr (rec, Some st)"
proof -
  obtain name bodies where n: "stream_name (wc_ext C) (wc_workspace C) (up_pointer u) = Inr name"
    "submit_parts C rng (ua_submit a) 0 (up_parts u) = Inr bodies" "i = up_outbox_id u" "rec = up_pointer_record u"
    "st = (name, bodies)"
    using assms by (auto simp: upload_parts_def run_bind_def run_res_def run_answer_def split: sum.splits option.splits)
  from submit_parts_encrypted [OF n(2)] n show ?thesis
    by (auto simp: publish_package_def encrypt_parts_def res_simps)
qed

lemma session_turn_ok:
  assumes ok: "session_ok C evs rs s" and en: "branch_enabled ev s" and nonce: "nonces_ok ev"
    and turn: "session_turn C ev s = GoOn s' rs'"
  shows "session_ok C (evs @ [ev]) (rs @ rs') s' \<and> WriterConnected \<notin> set rs'"
proof (cases ev)
  case SessionCancelled
  with turn show ?thesis by (simp add: session_turn_def)
next
  case (AppendResolved res)
  then have res: "res = None" and s': "s' = s\<lparr>se_inflight := se_inflight s - 1, se_pending_appends := tl (se_pending_appends s)\<rparr>"
    and rs': "rs' = [WriterDurable (hd (se_pending_appends s))]" and ne: "se_pending_appends s \<noteq> []"
    using turn en by (auto simp: session_turn_def branch_enabled_def split: option.splits)
  then show ?thesis
    using ok AppendResolved by (auto simp: session_ok_def Let_def split: option.splits)
next
  case (UploadResolved rng a answer)
  then obtain u where u: "se_big_upload s = Some u" using en by (auto simp: branch_enabled_def)
  obtain i rec st where up: "upload_parts C rng a u = Inr ((i, rec), st)"
    using turn UploadResolved u by (auto simp: session_turn_def split: sum.splits)
  let ?ims = "appended evs"
  have s': "s' = s\<lparr>se_big_upload := None, se_uploaded := se_uploaded s @ [st], se_inflight := se_inflight s + 1,
      se_pending_appends := se_pending_appends s @ [i], se_submitted := se_submitted s @ [rec]\<rparr>" and rs': "rs' = []"
    using turn UploadResolved u up by (auto simp: session_turn_def submit_record_def split: option.splits)
  note pub = upload_published [OF up]
  have len: "length ?ims = Suc (length (se_submitted s))" and pend: "upload_pending C u (last ?ims)"
    using ok u by (simp_all add: session_ok_def Let_def)
  then have ims: "?ims = take (length (se_submitted s)) ?ims @ [last ?ims]"
    by (metis append_butlast_last_id butlast_conv_take diff_Suc_1 length_0_conv nat.distinct(1))
  have "written C (se_uploaded s @ [st]) (last ?ims) rec"
    using pub pend nonce UploadResolved
    by (auto simp: written_def upload_pending_def intro!: exI [of _ "Pointer (up_pointer_record u) (up_pointer u) (up_parts u)"])
  moreover have "list_all2 (written C (se_uploaded s @ [st])) (take (length (se_submitted s)) ?ims) (se_submitted s)"
    using ok by (auto simp: session_ok_def Let_def elim!: list_all2_mono written_mono)
  ultimately have all: "list_all2 (written C (se_uploaded s @ [st])) ?ims (se_submitted s @ [rec])"
    by (subst ims) (simp add: list_all2_appendI)
  have "map fst ?ims = map fst (take (length (se_submitted s)) ?ims) @ [i]"
    using pub pend by (subst ims) (simp add: upload_pending_def)
  with ok all s' rs' len UploadResolved show ?thesis by (auto simp: session_ok_def Let_def)
next
  case UploadPanicked
  with turn show ?thesis by (simp add: session_turn_def)
next
  case (RequestReceived req nc gid now answer)
  have none: "se_big_upload s = None" using en RequestReceived by (simp add: branch_enabled_def)
  show ?thesis
  proof (cases req)
    case (Append i msg)
    let ?o = "\<lparr>or_daemon_writer_id = wc_daemon_writer_id C, or_outbox_id = i\<rparr>" and ?ims = "appended evs"
    have acc: "accept_append C i msg nc gid now answer s = GoOn s' rs'"
      using turn RequestReceived Append by (simp add: session_turn_def)
    then obtain n where exp: "\<not> (case se_next_expected s of Some expected \<Rightarrow> i \<noteq> expected | None \<Rightarrow> False)"
      and n: "checked_add_u64 i 1 = Some n"
      by (auto simp: accept_append_def split: if_splits option.splits)
    have len: "length ?ims = length (se_submitted s)" using ok none by (simp add: session_ok_def Let_def)
    have ids: "ids_in_order (?ims @ [(i, msg)]) (Some n)"
      using ids_in_order_snoc [OF _ exp n] ok by (simp add: session_ok_def Let_def)
    from acc exp n obtain pkg where pkg: "shared_to_s2_package (wc_ext C) gid now msg ?o = Inr pkg"
      by (auto simp: accept_append_def Let_def split: if_splits sum.splits)
    show ?thesis
    proof (cases pkg)
      case (Inlined rec)
      obtain rec' where rec': "encrypt_record (wc_ext C) (wc_key C) nc rec = Inr rec'"
        using acc exp n pkg Inlined by (auto simp: accept_append_def Let_def split: if_splits sum.splits)
      have s': "s' = s\<lparr>se_next_expected := Some n, se_inflight := se_inflight s + 1,
          se_pending_appends := se_pending_appends s @ [i], se_submitted := se_submitted s @ [rec']\<rparr>" "rs' = []"
        using acc exp n pkg Inlined rec'
        by (auto simp: accept_append_def submit_record_def Let_def split: if_splits sum.splits option.splits)
      have "publish_package (wc_ext C) (wc_workspace C) (wc_key C) (\<lambda>_. nc) pkg = Inr (rec', None)"
        using rec' Inlined by (simp add: publish_package_def)
      then have "written C (se_uploaded s) (i, msg) rec'"
        using pkg nonce RequestReceived
        by (auto simp: written_def intro!: exI [of _ gid] exI [of _ now] exI [of _ pkg] exI [of _ "\<lambda>_. nc"])
      with s' ids ok none len RequestReceived Append show ?thesis
        by (auto simp: session_ok_def Let_def list_all2_appendI)
    next
      case (Pointer pr p parts)
      have s': "s' = s\<lparr>se_next_expected := Some n, se_big_upload := Some \<lparr>up_outbox_id = i,
          up_pointer_record = pr, up_pointer = p, up_parts = parts\<rparr>\<rparr>" "rs' = []"
        using acc exp n pkg Pointer by (auto simp: accept_append_def Let_def split: if_splits)
      with ids ok none len RequestReceived Append pkg Pointer show ?thesis
        by (auto simp: session_ok_def Let_def upload_pending_def)
    qed
  qed (use turn ok RequestReceived in \<open>auto simp: session_turn_def session_ok_def Let_def split: option.splits\<close>)
qed

lemma since_connected_append:
  "WriterConnected \<notin> set rs' \<Longrightarrow> since_connected [] (rs @ rs') = since_connected [] rs @ rs'"
proof (induction rs' rule: rev_induct)
  case (snoc r rs')
  then have "r \<noteq> WriterConnected" by auto
  with snoc show ?case using since_connected_snoc [of "[]" "rs @ rs'" r] by simp
qed simp

lemma respond_all_serving:
  "wr_phase (respond_all rs phase w) = Serving s \<Longrightarrow>
     phase = Serving s \<and> wr_responses (respond_all rs phase w) = wr_responses w @ rs"
  by (auto simp: respond_all_def split: if_splits)

lemma end_run_not_serving: "wr_phase (end_run e w) \<noteq> Serving s"
  by (simp add: end_run_def split: run_error.splits)

text \<open>A step that leaves the actor serving: a fresh session, a turn of the session, or nothing.\<close>

lemma writer_step_serving:
  assumes "writer_step C ev w = Some w'" and "wr_phase w' = Serving s'"
  shows "(\<exists>answer ok. ev = ConnectAttempt answer ok) \<and> s' = session_new \<and>
      wr_responses w' = wr_responses w @ [WriterConnected] \<or>
    (\<exists>sev s rs. ev = InSession sev \<and> wr_phase w = Serving s \<and> branch_enabled sev s \<and>
      session_turn C sev s = GoOn s' rs \<and> wr_responses w' = wr_responses w @ rs) \<or>
    ev = ListenerGone \<and> wr_phase w = Serving s' \<and> wr_responses w' = wr_responses w"
proof (cases ev)
  case (ConnectAttempt answer ok)
  then have "w' = (case connect_run C answer ok of Inl e \<Rightarrow> end_run e w
      | Inr _ \<Rightarrow> respond_all [WriterConnected] (Serving session_new) w)"
    using assms(1) by (auto simp: writer_step_def split: writer_phase.splits)
  then show ?thesis
    using assms(2) ConnectAttempt respond_all_serving [of "[WriterConnected]" "Serving session_new" w s']
    by (auto simp: end_run_not_serving split: sum.splits)
next
  case (InSession sev)
  then obtain s where s: "wr_phase w = Serving s" "branch_enabled sev s"
    and w': "w' = (case session_turn C sev s of GoOn s' rs \<Rightarrow> respond_all rs (Serving s') w
      | EndCancelled \<Rightarrow> w\<lparr>wr_phase := Stopped (Inr ())\<rparr> | EndError e \<Rightarrow> end_run e w)"
    using assms(1) by (auto simp: writer_step_def split: writer_phase.splits if_splits)
  show ?thesis
  proof (cases "session_turn C sev s")
    case (GoOn s2 rs)
    then show ?thesis
      using w' assms(2) s InSession respond_all_serving [of rs "Serving s2" w s'] by auto
  qed (use w' assms(2) in \<open>simp_all add: end_run_not_serving\<close>)
next
  case (WaitRequest req)
  then show ?thesis
    using assms respond_all_serving [of "[WriterPing]" Waiting w s']
    by (auto simp: writer_step_def split: writer_phase.splits option.splits log_writer_request.splits)
qed (use assms in \<open>auto simp: writer_step_def split: writer_phase.splits\<close>)

lemma writer_run_ok:
  assumes "writer_run C evs writer_new = Some w" and "\<forall>sev. InSession sev \<in> set evs \<longrightarrow> nonces_ok sev"
    and "wr_phase w = Serving s"
  shows "session_ok C (session_events [] evs) (since_connected [] (wr_responses w)) s"
  using assms
proof (induction evs arbitrary: w s rule: rev_induct)
  case Nil
  then show ?case by (auto simp: writer_new_def)
next
  case (snoc ev evs)
  obtain w1 where w1: "writer_run C evs writer_new = Some w1" "writer_step C ev w1 = Some w"
    using snoc.prems(1) by (auto simp: writer_run_snoc split: option.splits)
  note IH = snoc.IH [OF w1(1)]
  from writer_step_serving [OF w1(2) snoc.prems(3)] show ?case
  proof (elim disjE)
    assume "(\<exists>answer ok. ev = ConnectAttempt answer ok) \<and> s = session_new \<and>
      wr_responses w = wr_responses w1 @ [WriterConnected]"
    then show ?thesis
      by (auto simp: session_events_snoc since_connected_snoc session_ok_def session_new_def ids_in_order_def)
  next
    assume "\<exists>sev s1 rs. ev = InSession sev \<and> wr_phase w1 = Serving s1 \<and> branch_enabled sev s1 \<and>
      session_turn C sev s1 = GoOn s rs \<and> wr_responses w = wr_responses w1 @ rs"
    then obtain sev s1 rs where e: "ev = InSession sev" "wr_phase w1 = Serving s1" "branch_enabled sev s1"
      "session_turn C sev s1 = GoOn s rs" "wr_responses w = wr_responses w1 @ rs" by blast
    have "session_ok C (session_events [] evs) (since_connected [] (wr_responses w1)) s1"
      using IH e(2) snoc.prems(2) by simp
    from session_turn_ok [OF this e(3) _ e(4)] snoc.prems(2) e show ?thesis
      by (simp add: session_events_snoc since_connected_append)
  next
    assume "ev = ListenerGone \<and> wr_phase w1 = Serving s \<and> wr_responses w = wr_responses w1"
    then show ?thesis using IH snoc.prems(2) by (simp add: session_events_snoc)
  qed
qed

lemma submitted_reads_back:
  assumes "writer_run C evs writer_new = Some w" and "\<forall>sev. InSession sev \<in> set evs \<longrightarrow> nonces_ok sev"
    and "wr_phase w = Serving s"
    and "aead_ok (wc_ext C)" and "pointer_json_ok (wc_ext C)"
    and "\<forall>im\<in>set (appended (session_events [] evs)). msg_ok (wc_ext C) (snd im)"
    and "\<forall>(name, bodies)\<in>set (se_uploaded s). \<forall>n. fetch name n = Inr (take n bodies)"
    and "k < length (se_submitted s)" and "seq < u64_max" and "time_nanos_ok (wc_ext C) (int ts * 1000000)"
  shows "read_record (wc_ext C) (wc_workspace C) (wc_key C) fetch
      \<lparr>sr_seq_num = seq, sr_timestamp_ms = ts, sr_headers = ar_headers (se_submitted s ! k),
       sr_body = ar_body (se_submitted s ! k)\<rparr> =
    Inr \<lparr>env_timestamp = int ts * 1000000, env_sequence_number = seq,
         env_origin = \<lparr>or_daemon_writer_id = wc_daemon_writer_id C,
                       or_outbox_id = fst (appended (session_events [] evs) ! k)\<rparr>,
         env_shared_message = snd (appended (session_events [] evs) ! k)\<rparr>"
proof -
  let ?ims = "appended (session_events [] evs)"
  have ok: "session_ok C (session_events [] evs) (since_connected [] (wr_responses w)) s"
    by (rule writer_run_ok [OF assms(1-3)])
  then have len: "length (se_submitted s) \<le> length ?ims" by (auto simp: session_ok_def Let_def split: option.splits)
  have in_set: "?ims ! k \<in> set ?ims" using assms(8) len by simp
  have "written C (se_uploaded s) (?ims ! k) (se_submitted s ! k)"
    using ok assms(8) len by (auto simp: session_ok_def Let_def list_all2_conv_all_nth)
  then obtain gid now pkg rng obj where w1: "\<forall>i. length (rng i) = nonce_len"
    and w2: "shared_to_s2_package (wc_ext C) gid now (snd (?ims ! k))
       \<lparr>or_daemon_writer_id = wc_daemon_writer_id C, or_outbox_id = fst (?ims ! k)\<rparr> = Inr pkg"
    and w3: "publish_package (wc_ext C) (wc_workspace C) (wc_key C) rng pkg = Inr (se_submitted s ! k, obj)"
    and w4: "\<forall>st. obj = Some st \<longrightarrow> st \<in> set (se_uploaded s)"
    by (auto simp: written_def)
  have id: "fst (?ims ! k) \<le> u64_max"
  proof -
    obtain n where n: "n \<le> u64_max" "map fst ?ims = [n - length ?ims..<n]"
      using ok in_set by (auto simp: session_ok_def Let_def ids_in_order_def split: option.splits)
    have "fst (?ims ! k) \<in> set (map fst ?ims)" using in_set by simp
    then show ?thesis unfolding n(2) using n(1) by simp
  qed
  have fetch: "\<forall>name bodies n. obj = Some (name, bodies) \<longrightarrow> fetch name n = Inr (take n bodies)"
  proof (intro allI impI)
    fix name bodies n
    assume "obj = Some (name, bodies)"
    with w4 have "(name, bodies) \<in> set (se_uploaded s)" by blast
    with assms(7) show "fetch name n = Inr (take n bodies)" by blast
  qed
  have "msg_ok (wc_ext C) (snd (?ims ! k))" using assms(6) in_set by blast
  from published_reads_back [OF assms(4,5) this _ w1 w2 w3 fetch assms(9,10)] id show ?thesis by simp
qed

section \<open>Properties\<close>

text \<open>(C6) In every reachable session of the log writer, the messages handed to it have consecutive ids, all of
  them but the one being uploaded have been submitted, a message is reported durable exactly when S2
  has acknowledged it and every earlier one, and those not yet acknowledged are the ones counted as in
  flight, in order.\<close>

theorem writer_acks_in_order:
  assumes "writer_run C evs writer_new = Some w" and "\<forall>sev. InSession sev \<in> set evs \<longrightarrow> nonces_ok sev"
    and "wr_phase w = Serving s"
  shows "(\<exists>b. map fst (appended (session_events [] evs)) = [b..<b + length (appended (session_events [] evs))]) \<and>
    length (appended (session_events [] evs)) =
      length (se_submitted s) + (if se_big_upload s = None then 0 else 1) \<and>
    durables (since_connected [] (wr_responses w)) =
      take (resolved (session_events [] evs)) (map fst (appended (session_events [] evs))) \<and>
    se_pending_appends s =
      drop (resolved (session_events [] evs)) (take (length (se_submitted s)) (map fst (appended (session_events [] evs)))) \<and>
    se_inflight s = length (se_pending_appends s)"
proof -
  let ?ims = "appended (session_events [] evs)" and ?m = "length (se_submitted s)"
  let ?d = "durables (since_connected [] (wr_responses w))"
  have ok: "session_ok C (session_events [] evs) (since_connected [] (wr_responses w)) s"
    by (rule writer_run_ok [OF assms])
  then have split: "?d @ se_pending_appends s = take ?m (map fst ?ims)" "length ?d = resolved (session_events [] evs)"
    by (simp_all add: session_ok_def Let_def take_map)
  have "length ?d \<le> length (?d @ se_pending_appends s)" by simp
  then have le: "length ?d \<le> ?m" unfolding split(1) by simp
  have "?d = take (length ?d) (take ?m (map fst ?ims))" by (simp flip: split(1))
  then have "?d = take (length ?d) (map fst ?ims)" using le by (simp add: min_absorb1)
  moreover have "se_pending_appends s = drop (length ?d) (take ?m (map fst ?ims))" by (simp flip: split(1))
  moreover have "\<exists>b. map fst ?ims = [b..<b + length ?ims]"
  proof -
    have "ids_in_order ?ims (se_next_expected s)" using ok by (simp add: session_ok_def Let_def)
    then show ?thesis
      unfolding ids_in_order_def
      by (cases "se_next_expected s") (auto intro!: exI [of _ "the (se_next_expected s) - length ?ims"])
  qed
  ultimately show ?thesis
    using ok split(2) by (auto simp: session_ok_def Let_def split: option.splits)
qed

definition demo_writer :: "(demo_doc, unit) writer_config" where
  "demo_writer =
     \<lparr>wc_ext = demo_ext (\<lambda>_. []), wc_workspace = ''ws'', wc_daemon_writer_id = ''w'', wc_key = ''key'',
      wc_request_text = \<lambda>_. [], wc_session_text = \<lambda>_. [], wc_producer_text = \<lambda>_. [], wc_batch_ok = \<lambda>_. True\<rparr>"

definition demo_writer_events :: "writer_event list" where
  "demo_writer_events =
     [ConnectAttempt (Some (ReqServer ''resource_already_exists'')) True,
      InSession (RequestReceived (Append 3 (NamespaceUpdate ''upd'')) (replicate 12 (CHR ''n'')) ''id'' 0 None),
      InSession (AppendResolved None)]"

lemma demo_writer_run:
  "\<exists>w s. writer_run demo_writer demo_writer_events writer_new = Some w \<and> wr_phase w = Serving s \<and>
    wr_responses w = [WriterConnected, WriterDurable 3] \<and> se_pending_appends s = [] \<and> se_uploaded s = [] \<and>
    se_submitted s = [\<lparr>ar_headers = demo_headers, ar_body = replicate 12 (CHR ''n'') @ ''upd'' @ replicate 16 (CHR 0x00)\<rparr>]"
  "\<forall>sev. InSession sev \<in> set demo_writer_events \<longrightarrow> nonces_ok sev"
  "appended (session_events [] demo_writer_events) = [(3, NamespaceUpdate ''upd'')]"
  "resolved (session_events [] demo_writer_events) = 1"
proof -
  have enc: "encrypt_record (demo_ext (\<lambda>_. [])) ''key'' (replicate 12 (CHR ''n'')) \<lparr>ar_headers = demo_headers, ar_body = ''upd''\<rparr> =
      Inr \<lparr>ar_headers = demo_headers, ar_body = replicate 12 (CHR ''n'') @ ''upd'' @ replicate 16 (CHR 0x00)\<rparr>"
    by (simp add: encrypt_record_def encrypt_def demo_ext_def append_record_new_def
        with_headers_def demo_record_valid_def demo_metered_def demo_headers_def show_nat.simps)
  have conn: "connect_run demo_writer (Some (ReqServer ''resource_already_exists'')) True = Inr ()"
    by (simp add: connect_run_def run_bind_def run_res_def run_answer_def ensure_stream_exists_def ops_stream_name_def
        demo_writer_def demo_ext_def)
  have turn: "session_turn demo_writer
      (RequestReceived (Append 3 (NamespaceUpdate ''upd'')) (replicate 12 (CHR ''n'')) ''id'' 0 None) session_new =
    GoOn (session_new\<lparr>se_next_expected := Some 4, se_inflight := 1, se_pending_appends := [3],
      se_submitted := [\<lparr>ar_headers = demo_headers, ar_body = replicate 12 (CHR ''n'') @ ''upd'' @ replicate 16 (CHR 0x00)\<rparr>]\<rparr>) []"
    using demo_package enc
    by (simp add: session_turn_def accept_append_def session_new_def demo_writer_def checked_add_u64_def u64_max_def
        submit_record_def)
  show "\<exists>w s. writer_run demo_writer demo_writer_events writer_new = Some w \<and> wr_phase w = Serving s \<and>
    wr_responses w = [WriterConnected, WriterDurable 3] \<and> se_pending_appends s = [] \<and> se_uploaded s = [] \<and>
    se_submitted s = [\<lparr>ar_headers = demo_headers, ar_body = replicate 12 (CHR ''n'') @ ''upd'' @ replicate 16 (CHR 0x00)\<rparr>]"
    using conn turn
    by (simp add: demo_writer_events_def writer_new_def writer_step_def respond_all_def branch_enabled_def session_new_def
        session_turn_def)
qed (auto simp: demo_writer_events_def nonce_len_def)

theorem writer_acks_in_order_witness:
  "\<exists>w s. writer_run demo_writer demo_writer_events writer_new = Some w \<and> wr_phase w = Serving s \<and>
    durables (since_connected [] (wr_responses w)) = [3] \<and> se_inflight s = 0"
proof -
  obtain w s where run: "writer_run demo_writer demo_writer_events writer_new = Some w" "wr_phase w = Serving s"
    "se_pending_appends s = []" using demo_writer_run(1) by blast
  from writer_acks_in_order [OF run(1) demo_writer_run(2) run(2)] run show ?thesis
    by (auto simp: demo_writer_run(3,4))
qed

text \<open>What a session has submitted to S2 is read back: with the object streams it uploaded
  available, the reader decodes the submitted records, in order, into the messages handed to the writer,
  under their ids.\<close>

theorem writer_log_readable:
  assumes "writer_run C evs writer_new = Some w" and "\<forall>sev. InSession sev \<in> set evs \<longrightarrow> nonces_ok sev"
    and "wr_phase w = Serving s"
    and "aead_ok (wc_ext C)" and "pointer_json_ok (wc_ext C)"
    and "\<forall>im\<in>set (appended (session_events [] evs)). msg_ok (wc_ext C) (snd im)"
    and "\<forall>(name, bodies)\<in>set (se_uploaded s). \<forall>n. fetch name n = Inr (take n bodies)"
    and "k < length (se_submitted s)" and "seq < u64_max" and "time_nanos_ok (wc_ext C) (int ts * 1000000)"
  shows "read_record (wc_ext C) (wc_workspace C) (wc_key C) fetch
      \<lparr>sr_seq_num = seq, sr_timestamp_ms = ts, sr_headers = ar_headers (se_submitted s ! k),
       sr_body = ar_body (se_submitted s ! k)\<rparr> =
    Inr \<lparr>env_timestamp = int ts * 1000000, env_sequence_number = seq,
         env_origin = \<lparr>or_daemon_writer_id = wc_daemon_writer_id C,
                       or_outbox_id = fst (appended (session_events [] evs) ! k)\<rparr>,
         env_shared_message = snd (appended (session_events [] evs) ! k)\<rparr>"
  by (rule submitted_reads_back [OF assms])

theorem writer_log_readable_witness:
  "\<exists>w s. writer_run demo_writer demo_writer_events writer_new = Some w \<and> wr_phase w = Serving s \<and>
    read_record (demo_ext (\<lambda>_. [])) ''ws'' ''key'' (\<lambda>_ _. Inl Fatal)
      \<lparr>sr_seq_num = 9, sr_timestamp_ms = 7, sr_headers = ar_headers (se_submitted s ! 0),
       sr_body = ar_body (se_submitted s ! 0)\<rparr> =
    Inr \<lparr>env_timestamp = 7000000, env_sequence_number = 9,
         env_origin = \<lparr>or_daemon_writer_id = ''w'', or_outbox_id = 3\<rparr>,
         env_shared_message = NamespaceUpdate ''upd''\<rparr>"
proof -
  obtain w s where run: "writer_run demo_writer demo_writer_events writer_new = Some w" "wr_phase w = Serving s"
    "length (se_submitted s) = 1" and none: "se_uploaded s = []" using demo_writer_run(1) by auto
  have "read_record (wc_ext demo_writer) (wc_workspace demo_writer) (wc_key demo_writer) (\<lambda>_ _. Inl Fatal)
      \<lparr>sr_seq_num = 9, sr_timestamp_ms = 7, sr_headers = ar_headers (se_submitted s ! 0),
       sr_body = ar_body (se_submitted s ! 0)\<rparr> =
    Inr \<lparr>env_timestamp = int 7 * 1000000, env_sequence_number = 9,
         env_origin = \<lparr>or_daemon_writer_id = wc_daemon_writer_id demo_writer,
           or_outbox_id = fst (appended (session_events [] demo_writer_events) ! 0)\<rparr>,
         env_shared_message = snd (appended (session_events [] demo_writer_events) ! 0)\<rparr>"
    using writer_log_readable [OF run(1) demo_writer_run(2) run(2), of "\<lambda>_ _. Inl Fatal" 0 9 7] run(3) none
      demo_ext_ok(3,4)
    by (simp add: demo_writer_def demo_writer_run(3) u64_max_def msg_ok_def) (simp add: demo_ext_def)
  with run show ?thesis by (auto simp: demo_writer_def demo_writer_run(3))
qed

end
