(* ===== verification/Log_Reader.thy ===== *)
theory Log_Reader
  imports Log_Writer Bootstrap
begin

text \<open>
  The log reader actor, \<open>log/reader.rs\<close>: it opens a read session on the workspace's log at a cursor,
  decodes every record it receives into an envelope and sends it to the engine, answers status requests
  with the tail, and after a lost connection waits for the cursor to reconnect at. A step is one turn
  of the innermost \<open>select!\<close>; the branch taken and the answers of the service are the event. A
  read session yields batches, an error, or ends; \<open>fetch\<close> is what the read session on an object
  stream yields.
\<close>

section \<open>One record\<close>

record ('d, 'sv) reader_config =
  rc_ext :: "('d, 'sv) ext"
  rc_workspace :: string
  rc_key :: bytes
  rc_start_at :: nat
  rc_stop :: "nat option"
  rc_request_text :: "request_error \<Rightarrow> string"
  rc_session_text :: "session_error \<Rightarrow> string"

text \<open>Opening the session on an object stream fails, or it yields records and then perhaps an error.\<close>

type_synonym object_fetch = "string \<Rightarrow> nat \<Rightarrow> session_error + bytes list \<times> session_error option"

definition read_multipart_run ::
  "('d, 'sv) reader_config \<Rightarrow> object_fetch \<Rightarrow> header list \<Rightarrow> object_pointer \<Rightarrow> run_error + shared_message" where
  "read_multipart_run C fetch hs pointer =
     run_bind (run_res (header_str hs ''message_kind'')) (\<lambda>_.
     run_bind (run_res (stream_name (rc_ext C) (rc_workspace C) pointer)) (\<lambda>name.
     run_bind (case fetch name (op_n_records pointer) of
         Inl e \<Rightarrow> Inl (from_read_session (rc_session_text C) e) | Inr x \<Rightarrow> Inr x) (\<lambda>(records, ending).
     run_bind (run_res (map_res (decrypt (rc_ext C) (rc_key C)) records)) (\<lambda>bodies.
     run_bind (run_answer (from_read_session (rc_session_text C)) ending) (\<lambda>_.
     let payload = concat bodies
     in if length records \<noteq> op_n_records pointer then Inl (RunFatal Fatal)
        else if length payload \<noteq> op_size_bytes pointer then Inl (RunFatal Fatal)
        else if xxh3_64 (rc_ext C) payload \<noteq> op_checksum pointer then Inl (RunFatal Fatal)
        else run_res (s2_payload_to_shared_message (rc_ext C) hs payload))))))"

text \<open>The body of the loop over the records of a batch; also the next sequence number.\<close>

definition read_record_run ::
  "('d, 'sv) reader_config \<Rightarrow> object_fetch \<Rightarrow> sequenced_record \<Rightarrow> run_error + nat \<times> shared_message_envelope" where
  "read_record_run C fetch r =
     run_bind (run_res (ok_or (checked_add_u64 (sr_seq_num r) 1) Fatal)) (\<lambda>next_sequence_number.
     let timestamp = int (sr_timestamp_ms r) * 1000000
     in if \<not> time_nanos_ok (rc_ext C) timestamp then Inl (RunFatal Panicked)
        else
          run_bind (run_res (decode_origin (sr_headers r))) (\<lambda>origin.
          run_bind
            (case header_value (sr_headers r) ''pointer'' of
               Some pointer \<Rightarrow>
                 run_bind (run_res (ok_or (pointer_from_json (rc_ext C) pointer) Fatal)) (\<lambda>object_pointer.
                   read_multipart_run C fetch (sr_headers r) object_pointer)
             | None \<Rightarrow>
                 run_res (bind_res (decrypt (rc_ext C) (rc_key C) (sr_body r))
                   (s2_payload_to_shared_message (rc_ext C) (sr_headers r))))
            (\<lambda>msg. Inr (next_sequence_number,
               \<lparr>env_timestamp = timestamp, env_sequence_number = sr_seq_num r,
                env_origin = origin, env_shared_message = msg\<rparr>))))"

section \<open>One turn of a session\<close>

datatype reader_turn_event =
    ReaderCancelled
  | StatusRequested "session_error + nat"
  | ReconnectRequested nat
  | BatchEnded
  | BatchFailed session_error
  | BatchArrived "sequenced_record list" object_fetch

text \<open>A turn goes on with the next sequence number, has reached the end of a bounded read, or ends the
  run; in each case with the events sent. When the engine no longer listens, sending fails.\<close>

datatype reader_turn =
    RGoOn nat "log_reader_event list"
  | RAtEnd "log_reader_event list"
  | REndCancelled
  | REndError run_error "log_reader_event list"

fun read_batch ::
  "('d, 'sv) reader_config \<Rightarrow> bool \<Rightarrow> object_fetch \<Rightarrow> sequenced_record list \<Rightarrow> nat \<Rightarrow> log_reader_event list \<Rightarrow>
     reader_turn" where
  "read_batch C listening fetch [] next_seq sent = RGoOn next_seq sent"
| "read_batch C listening fetch (r # rs) next_seq sent =
     (case read_record_run C fetch r of
        Inl e \<Rightarrow> REndError e sent
      | Inr (next', envelope) \<Rightarrow>
          if \<not> listening then REndError (RunFatal Fatal) sent
          else read_batch C listening fetch rs next' (sent @ [ReaderRead envelope]))"

definition reader_turn :: "('d, 'sv) reader_config \<Rightarrow> bool \<Rightarrow> reader_turn_event \<Rightarrow> nat \<Rightarrow> reader_turn" where
  "reader_turn C listening ev next_seq =
     (case ev of
        ReaderCancelled \<Rightarrow> REndCancelled
      | StatusRequested answer \<Rightarrow>
          (case answer of
             Inl e \<Rightarrow> REndError (from_read (rc_session_text C) e) []
           | Inr tail \<Rightarrow>
               if listening then RGoOn next_seq [ReaderTail tail] else REndError (RunFatal Fatal) [])
      | ReconnectRequested _ \<Rightarrow> RGoOn next_seq []
      | BatchEnded \<Rightarrow>
          (if rc_stop C \<noteq> None then
             if listening then RAtEnd [ReaderEnded next_seq] else REndError (RunFatal Fatal) []
           else REndError (RunFatal Fatal) [])
      | BatchFailed e \<Rightarrow> REndError (from_read_session (rc_session_text C) e) []
      | BatchArrived records fetch \<Rightarrow> read_batch C listening fetch records next_seq [])"

section \<open>The actor\<close>

text \<open>\<open>Ending\<close>: the end was reported, and the actor waits to be cancelled.\<close>

datatype reader_phase = ROpening nat | RServing nat | REnding | RWaiting | RStopped "unit res"

record reader =
  rd_phase :: reader_phase
  rd_events :: "log_reader_event list"
  rd_listening :: bool

definition reader_new :: "('d, 'sv) reader_config \<Rightarrow> reader" where
  "reader_new C = \<lparr>rd_phase = ROpening (rc_start_at C), rd_events = [], rd_listening = True\<rparr>"

datatype reader_event =
    OpenAttempt "request_error option" "session_error option"
  | InReading reader_turn_event
  | EndCancelled
  | RWaitCancelled
  | RWaitRequest "log_reader_request option"
  | RListenerGone

definition reader_fail :: "run_error \<Rightarrow> reader \<Rightarrow> reader" where
  "reader_fail e w =
     (case e of
        RunDisconnected reason \<Rightarrow>
          if rd_listening w
          then w\<lparr>rd_phase := RWaiting, rd_events := rd_events w @ [ReaderDisconnected reason]\<rparr>
          else w\<lparr>rd_phase := RStopped (Inl Fatal)\<rparr>
      | RunFatal err \<Rightarrow> w\<lparr>rd_phase := RStopped (Inl err)\<rparr>)"

definition open_run ::
  "('d, 'sv) reader_config \<Rightarrow> request_error option \<Rightarrow> session_error option \<Rightarrow> run_error + unit" where
  "open_run C created opened =
     run_bind (run_res (ops_stream_name (rc_ext C) (rc_workspace C))) (\<lambda>_.
     run_bind (run_answer (from_request (rc_request_text C)) (ensure_stream_exists created)) (\<lambda>_.
       run_answer (from_read_session (rc_session_text C)) opened))"

definition reader_step :: "('d, 'sv) reader_config \<Rightarrow> reader_event \<Rightarrow> reader \<Rightarrow> reader option" where
  "reader_step C ev w =
     (case (ev, rd_phase w) of
        (RListenerGone, _) \<Rightarrow> Some (w\<lparr>rd_listening := False\<rparr>)
      | (OpenAttempt created opened, ROpening start_at) \<Rightarrow>
          Some (case open_run C created opened of
            Inl e \<Rightarrow> reader_fail e w
          | Inr _ \<Rightarrow>
              if rd_listening w
              then w\<lparr>rd_phase := RServing start_at, rd_events := rd_events w @ [ReaderConnected]\<rparr>
              else w\<lparr>rd_phase := RStopped (Inl Fatal)\<rparr>)
      | (InReading tev, RServing next_seq) \<Rightarrow>
          Some (case reader_turn C (rd_listening w) tev next_seq of
            RGoOn next' evs \<Rightarrow> w\<lparr>rd_phase := RServing next', rd_events := rd_events w @ evs\<rparr>
          | RAtEnd evs \<Rightarrow> w\<lparr>rd_phase := REnding, rd_events := rd_events w @ evs\<rparr>
          | REndCancelled \<Rightarrow> w\<lparr>rd_phase := RStopped (Inr ())\<rparr>
          | REndError e evs \<Rightarrow> reader_fail e (w\<lparr>rd_events := rd_events w @ evs\<rparr>))
      | (EndCancelled, REnding) \<Rightarrow> Some (w\<lparr>rd_phase := RStopped (Inr ())\<rparr>)
      | (RWaitCancelled, RWaiting) \<Rightarrow> Some (w\<lparr>rd_phase := RStopped (Inr ())\<rparr>)
      | (RWaitRequest req, RWaiting) \<Rightarrow>
          Some (case req of
            None \<Rightarrow> w\<lparr>rd_phase := RStopped (Inl Fatal)\<rparr>
          | Some (ReconnectReader start_at) \<Rightarrow> w\<lparr>rd_phase := ROpening start_at\<rparr>
          | Some ReaderStatus \<Rightarrow> w)
      | _ \<Rightarrow> None)"

fun reader_run :: "('d, 'sv) reader_config \<Rightarrow> reader_event list \<Rightarrow> reader \<Rightarrow> reader option" where
  "reader_run C [] w = Some w"
| "reader_run C (ev # evs) w = (case reader_step C ev w of None \<Rightarrow> None | Some w' \<Rightarrow> reader_run C evs w')"

section \<open>What a session has delivered\<close>

fun since_opened :: "log_reader_event list \<Rightarrow> log_reader_event list \<Rightarrow> log_reader_event list" where
  "since_opened acc [] = acc"
| "since_opened acc (ReaderConnected # evs) = since_opened [] evs"
| "since_opened acc (ev # evs) = since_opened (acc @ [ev]) evs"

text \<open>The records of the session under way with the fetches in force, and the cursor it started at.\<close>

fun session_records :: "(sequenced_record \<times> object_fetch) list \<Rightarrow> reader_event list \<Rightarrow>
    (sequenced_record \<times> object_fetch) list" where
  "session_records acc [] = acc"
| "session_records acc (OpenAttempt _ _ # evs) = session_records [] evs"
| "session_records acc (InReading (BatchArrived rs fetch) # evs) =
     session_records (acc @ map (\<lambda>r. (r, fetch)) rs) evs"
| "session_records acc (_ # evs) = session_records acc evs"

fun session_start :: "nat \<Rightarrow> reader_event list \<Rightarrow> nat" where
  "session_start a [] = a"
| "session_start a (RWaitRequest (Some (ReconnectReader b)) # evs) = session_start b evs"
| "session_start a (_ # evs) = session_start a evs"

lemma session_records_snoc:
  "session_records acc (evs @ [ev]) = (case ev of
     OpenAttempt _ _ \<Rightarrow> []
   | InReading (BatchArrived rs fetch) \<Rightarrow> session_records acc evs @ map (\<lambda>r. (r, fetch)) rs
   | _ \<Rightarrow> session_records acc evs)"
  by (induction acc evs rule: session_records.induct) (auto split: reader_event.splits reader_turn_event.splits)

lemma session_start_snoc:
  "session_start a (evs @ [ev]) = (case ev of RWaitRequest (Some (ReconnectReader b)) \<Rightarrow> b | _ \<Rightarrow> session_start a evs)"
  by (induction a evs rule: session_start.induct)
    (auto split: reader_event.splits option.splits log_reader_request.splits)

lemma since_opened_snoc:
  "since_opened acc (evs @ [ev]) = (if ev = ReaderConnected then [] else since_opened acc evs @ [ev])"
  by (induction acc evs rule: since_opened.induct) (cases ev; simp)+

lemma since_opened_append:
  "ReaderConnected \<notin> set evs' \<Longrightarrow> since_opened [] (evs @ evs') = since_opened [] evs @ evs'"
proof (induction evs' rule: rev_induct)
  case (snoc ev evs')
  then have "ev \<noteq> ReaderConnected" by auto
  with snoc show ?case using since_opened_snoc [of "[]" "evs @ evs'" ev] by simp
qed simp

lemma reader_run_snoc:
  "reader_run C (evs @ [ev]) w = (case reader_run C evs w of None \<Rightarrow> None | Some w' \<Rightarrow> reader_step C ev w')"
  by (induction evs arbitrary: w) (auto split: option.splits)

definition decoded ::
  "('d, 'sv) reader_config \<Rightarrow> sequenced_record \<times> object_fetch \<Rightarrow> shared_message_envelope \<Rightarrow> bool" where
  "decoded C rf e \<longleftrightarrow> read_record_run C (snd rf) (fst rf) = Inr (sr_seq_num (fst rf) + 1, e)"

definition next_after :: "nat \<Rightarrow> (sequenced_record \<times> object_fetch) list \<Rightarrow> nat" where
  "next_after a recs = (if recs = [] then a else sr_seq_num (fst (last recs)) + 1)"

definition reading_ok ::
  "('d, 'sv) reader_config \<Rightarrow> nat \<Rightarrow> (sequenced_record \<times> object_fetch) list \<Rightarrow> log_reader_event list \<Rightarrow> nat \<Rightarrow> bool" where
  "reading_ok C a recs evs next_seq \<longleftrightarrow> list_all2 (decoded C) recs (reads evs) \<and> next_seq = next_after a recs"

lemma read_record_run_next: "read_record_run C fetch r = Inr (n, e) \<Longrightarrow> n = sr_seq_num r + 1"
  by (auto simp: read_record_run_def run_bind_def run_res_def ok_or_def checked_add_u64_def Let_def
      split: sum.splits if_splits option.splits)

lemma read_batch_GoOn:
  assumes "read_batch C listening fetch rs n sent = RGoOn n' evs"
  shows "\<exists>es. evs = sent @ map ReaderRead es \<and> list_all2 (decoded C) (map (\<lambda>r. (r, fetch)) rs) es \<and>
    n' = next_after n (map (\<lambda>r. (r, fetch)) rs)"
  using assms
proof (induction rs arbitrary: n sent)
  case (Cons r rs)
  then obtain m e where r: "read_record_run C fetch r = Inr (m, e)"
    and rest: "read_batch C listening fetch rs m (sent @ [ReaderRead e]) = RGoOn n' evs"
    by (auto split: sum.splits prod.splits if_splits)
  from Cons.IH [OF rest] obtain es where "evs = (sent @ [ReaderRead e]) @ map ReaderRead es"
    "list_all2 (decoded C) (map (\<lambda>r. (r, fetch)) rs) es" "n' = next_after m (map (\<lambda>r. (r, fetch)) rs)" by blast
  moreover have "m = sr_seq_num r + 1" "decoded C (r, fetch) e"
    using r read_record_run_next [OF r] by (simp_all add: decoded_def)
  ultimately show ?case by (intro exI [of _ "e # es"]) (auto simp: next_after_def)
qed (simp add: next_after_def)

lemma reads_map [simp]: "reads (map ReaderRead es) = es"
  by (induction es) simp_all

lemma reader_turn_ok:
  assumes "reading_ok C a recs evs n" and "reader_turn C listening ev n = RGoOn n' evs'"
  shows "reading_ok C a (recs @ (case ev of BatchArrived rs fetch \<Rightarrow> map (\<lambda>r. (r, fetch)) rs | _ \<Rightarrow> []))
      (evs @ evs') n' \<and> ReaderConnected \<notin> set evs'"
proof (cases ev)
  case (BatchArrived rs fetch)
  then obtain es where "evs' = map ReaderRead es" "list_all2 (decoded C) (map (\<lambda>r. (r, fetch)) rs) es"
    "n' = next_after n (map (\<lambda>r. (r, fetch)) rs)"
    using assms(2) read_batch_GoOn [of C listening fetch rs n "[]" n' evs'] by (auto simp: reader_turn_def)
  with assms(1) BatchArrived show ?thesis
    by (auto simp: reading_ok_def reads_append list_all2_appendI next_after_def)
qed (use assms in \<open>auto simp: reader_turn_def reading_ok_def reads_append split: sum.splits if_splits\<close>)

lemma reader_fail_phase: "rd_phase (reader_fail e w) \<noteq> RServing n" "rd_phase (reader_fail e w) \<noteq> ROpening n"
  by (simp_all add: reader_fail_def split: run_error.splits)

definition reader_inv :: "('d, 'sv) reader_config \<Rightarrow> reader_event list \<Rightarrow> reader \<Rightarrow> bool" where
  "reader_inv C evs w \<longleftrightarrow>
     (\<forall>a. rd_phase w = ROpening a \<longrightarrow> a = session_start (rc_start_at C) evs) \<and>
     (\<forall>n. rd_phase w = RServing n \<longrightarrow>
        reading_ok C (session_start (rc_start_at C) evs) (session_records [] evs) (since_opened [] (rd_events w)) n)"

lemma reader_step_inv:
  assumes step: "reader_step C ev w = Some w'" and inv: "reader_inv C evs w"
  shows "reader_inv C (evs @ [ev]) w'"
proof (cases ev)
  case (OpenAttempt created opened)
  then show ?thesis
    using step inv
    by (auto simp: reader_step_def reader_inv_def reader_fail_phase session_start_snoc session_records_snoc
        since_opened_snoc reading_ok_def next_after_def split: reader_phase.splits sum.splits if_splits)
next
  case (InReading tev)
  then obtain n where n: "rd_phase w = RServing n"
    and w': "w' = (case reader_turn C (rd_listening w) tev n of
            RGoOn next' evs \<Rightarrow> w\<lparr>rd_phase := RServing next', rd_events := rd_events w @ evs\<rparr>
          | RAtEnd evs \<Rightarrow> w\<lparr>rd_phase := REnding, rd_events := rd_events w @ evs\<rparr>
          | REndCancelled \<Rightarrow> w\<lparr>rd_phase := RStopped (Inr ())\<rparr>
          | REndError e evs \<Rightarrow> reader_fail e (w\<lparr>rd_events := rd_events w @ evs\<rparr>))"
    using step by (auto simp: reader_step_def split: reader_phase.splits)
  show ?thesis
  proof (cases "reader_turn C (rd_listening w) tev n")
    case (RGoOn n' evs')
    have "reading_ok C (session_start (rc_start_at C) evs) (session_records [] evs) (since_opened [] (rd_events w)) n"
      using inv n by (simp add: reader_inv_def)
    from reader_turn_ok [OF this RGoOn] w' RGoOn InReading show ?thesis
      by (auto simp: reader_inv_def session_start_snoc session_records_snoc since_opened_append
          split: reader_turn_event.splits)
  qed (use w' in \<open>simp_all add: reader_inv_def reader_fail_phase\<close>)
next
  case (RWaitRequest req)
  then show ?thesis
    using step by (auto simp: reader_step_def reader_inv_def session_start_snoc
        split: reader_phase.splits option.splits log_reader_request.splits)
next
  case RListenerGone
  then show ?thesis
    using step inv by (auto simp: reader_step_def reader_inv_def session_start_snoc session_records_snoc)
qed (use step in \<open>auto simp: reader_step_def reader_inv_def split: reader_phase.splits\<close>)

lemma reader_run_inv: "reader_run C evs (reader_new C) = Some w \<Longrightarrow> reader_inv C evs w"
proof (induction evs arbitrary: w rule: rev_induct)
  case Nil
  then show ?case by (auto simp: reader_inv_def reader_new_def)
next
  case (snoc ev evs)
  then show ?case using reader_step_inv by (auto simp: reader_run_snoc split: option.splits)
qed

section \<open>Reading what was written\<close>

text \<open>When fetching an object stream succeeds, the decoding of a record is the one of the codec.\<close>

definition plain_fetch :: "object_fetch \<Rightarrow> string \<Rightarrow> nat \<Rightarrow> bytes list res" where
  "plain_fetch f name n = (case f name n of Inr (records, None) \<Rightarrow> Inr records | _ \<Rightarrow> Inl Fatal)"

lemma run_res_simps [simp]:
  "run_res (bind_res m f) = run_bind (run_res m) (\<lambda>x. run_res (f x))" "run_res (Inr x) = Inr x"
  "run_bind (Inr x) g = g x"
  by (simp_all add: run_res_def bind_res_def run_bind_def split: sum.splits)

lemma run_res_Inr: "run_res m = Inr x \<longleftrightarrow> m = Inr x"
  by (cases m) (simp_all add: run_res_def)

lemma read_multipart_run_plain:
  assumes "read_full_multipart (rc_ext C) (rc_workspace C) (rc_key C) (plain_fetch f) hs p = Inr msg"
  shows "read_multipart_run C f hs p = Inr msg"
proof -
  obtain k name records bodies where r: "header_str hs ''message_kind'' = Inr k"
    "stream_name (rc_ext C) (rc_workspace C) p = Inr name" "plain_fetch f name (op_n_records p) = Inr records"
    "map_res (decrypt (rc_ext C) (rc_key C)) records = Inr bodies"
    "length records = op_n_records p" "length (concat bodies) = op_size_bytes p"
    "xxh3_64 (rc_ext C) (concat bodies) = op_checksum p" "s2_payload_to_shared_message (rc_ext C) hs (concat bodies) = Inr msg"
    using assms by (auto simp: read_full_multipart_def res_simps Let_def split: if_splits)
  have "f name (op_n_records p) = Inr (records, None)"
    using r(3) by (auto simp: plain_fetch_def split: sum.splits prod.splits option.splits)
  with r show ?thesis by (simp add: read_multipart_run_def run_answer_def)
qed

lemma read_record_run_plain:
  assumes "read_record (rc_ext C) (rc_workspace C) (rc_key C) (plain_fetch f) r = Inr e"
  shows "decoded C (r, f) e"
  using assms
  by (auto simp: read_record_def read_record_run_def decoded_def res_simps Let_def ok_or_def checked_add_u64_def
      split: if_splits option.splits dest!: read_multipart_run_plain)

section \<open>Properties\<close>

text \<open>(C7) In every reachable session of the log reader, the envelopes sent to the engine are the decoded
  records of the session, in order and without a gap: when S2 numbers them consecutively from the cursor
  the session was opened at, so are the envelopes, up to the cursor the reader would report.\<close>

theorem reader_delivers_in_order:
  assumes "reader_run C evs (reader_new C) = Some w" and "rd_phase w = RServing n"
    and "map (sr_seq_num \<circ> fst) (session_records [] evs) =
      [session_start (rc_start_at C) evs..<session_start (rc_start_at C) evs + length (session_records [] evs)]"
  shows "list_all2 (decoded C) (session_records [] evs) (reads (since_opened [] (rd_events w))) \<and>
    map env_sequence_number (reads (since_opened [] (rd_events w))) = [session_start (rc_start_at C) evs..<n]"
proof -
  let ?a = "session_start (rc_start_at C) evs" and ?recs = "session_records [] evs"
  have ok: "reading_ok C ?a ?recs (since_opened [] (rd_events w)) n"
    using reader_run_inv [OF assms(1)] assms(2) by (simp add: reader_inv_def)
  have "n = ?a + length ?recs"
  proof (cases "?recs = []")
    case False
    have "sr_seq_num (fst (last ?recs)) = last (map (sr_seq_num \<circ> fst) ?recs)" using False by (simp add: last_map)
    then show ?thesis using ok False by (simp add: reading_ok_def next_after_def assms(3))
  qed (use ok in \<open>simp add: reading_ok_def next_after_def\<close>)
  moreover have "map env_sequence_number es = map (sr_seq_num \<circ> fst) recs" if "list_all2 (decoded C) recs es" for recs es
    using that
    by (induction rule: list_all2_induct)
      (auto simp: decoded_def read_record_run_def run_bind_def Let_def split: sum.splits if_splits)
  moreover have two: "list_all2 (decoded C) ?recs (reads (since_opened [] (rd_events w)))"
    using ok by (simp add: reading_ok_def)
  ultimately have "map env_sequence_number (reads (since_opened [] (rd_events w))) = [?a..<n]"
    using assms(3) by simp
  with two show ?thesis by simp
qed

definition demo_reader :: "(demo_doc, unit) reader_config" where
  "demo_reader =
     \<lparr>rc_ext = demo_ext (\<lambda>_. []), rc_workspace = ''ws'', rc_key = ''key'', rc_start_at = 9, rc_stop = None,
      rc_request_text = \<lambda>_. [], rc_session_text = \<lambda>_. []\<rparr>"

definition demo_record :: sequenced_record where
  "demo_record = \<lparr>sr_seq_num = 9, sr_timestamp_ms = 7, sr_headers = demo_headers,
     sr_body = replicate 12 (CHR ''n'') @ ''upd'' @ replicate 16 (CHR 0x00)\<rparr>"

definition demo_fetch :: object_fetch where
  "demo_fetch name n = Inr ([], None)"

definition demo_reader_events :: "reader_event list" where
  "demo_reader_events = [OpenAttempt None None, InReading (BatchArrived [demo_record] demo_fetch)]"

lemma demo_record_decoded:
  "decoded demo_reader (demo_record, demo_fetch)
     \<lparr>env_timestamp = 7000000, env_sequence_number = 9,
      env_origin = \<lparr>or_daemon_writer_id = ''w'', or_outbox_id = 3\<rparr>, env_shared_message = NamespaceUpdate ''upd''\<rparr>"
proof (rule read_record_run_plain)
  obtain w s where run: "writer_run demo_writer demo_writer_events writer_new = Some w" "wr_phase w = Serving s"
    "se_uploaded s = []"
    "se_submitted s = [\<lparr>ar_headers = demo_headers, ar_body = replicate 12 (CHR ''n'') @ ''upd'' @ replicate 16 (CHR 0x00)\<rparr>]"
    using demo_writer_run(1) by blast
  have X: "rc_ext demo_reader = wc_ext demo_writer" "rc_workspace demo_reader = wc_workspace demo_writer"
    "rc_key demo_reader = wc_key demo_writer" by (simp_all add: demo_reader_def demo_writer_def)
  have "aead_ok (wc_ext demo_writer)" "pointer_json_ok (wc_ext demo_writer)"
    "time_nanos_ok (wc_ext demo_writer) (int 7 * 1000000)"
    using demo_ext_ok(3,4) by (simp_all add: demo_writer_def) (simp add: demo_ext_def)
  with submitted_reads_back [OF run(1) demo_writer_run(2) run(2), of "plain_fetch demo_fetch" 0 9 7] run(3,4)
  show "read_record (rc_ext demo_reader) (rc_workspace demo_reader) (rc_key demo_reader) (plain_fetch demo_fetch)
      demo_record = Inr \<lparr>env_timestamp = 7000000, env_sequence_number = 9,
      env_origin = \<lparr>or_daemon_writer_id = ''w'', or_outbox_id = 3\<rparr>, env_shared_message = NamespaceUpdate ''upd''\<rparr>"
    unfolding X by (simp add: demo_writer_run(3) u64_max_def msg_ok_def demo_record_def) (simp add: demo_writer_def)
qed

lemma demo_reader_run:
  "\<exists>v. reader_run demo_reader demo_reader_events (reader_new demo_reader) = Some v \<and> rd_phase v = RServing 10 \<and>
    reads (since_opened [] (rd_events v)) =
      [\<lparr>env_timestamp = 7000000, env_sequence_number = 9,
        env_origin = \<lparr>or_daemon_writer_id = ''w'', or_outbox_id = 3\<rparr>, env_shared_message = NamespaceUpdate ''upd''\<rparr>]"
  "session_records [] demo_reader_events = [(demo_record, demo_fetch)]"
  "session_start (rc_start_at demo_reader) demo_reader_events = 9"
proof -
  have "open_run demo_reader None None = Inr ()"
    by (simp add: open_run_def run_answer_def ensure_stream_exists_def ops_stream_name_def demo_reader_def
        demo_ext_def Let_def)
  then show "\<exists>v. reader_run demo_reader demo_reader_events (reader_new demo_reader) = Some v \<and> rd_phase v = RServing 10 \<and>
    reads (since_opened [] (rd_events v)) =
      [\<lparr>env_timestamp = 7000000, env_sequence_number = 9,
        env_origin = \<lparr>or_daemon_writer_id = ''w'', or_outbox_id = 3\<rparr>, env_shared_message = NamespaceUpdate ''upd''\<rparr>]"
    using demo_record_decoded
    by (simp add: demo_reader_events_def reader_new_def reader_step_def reader_turn_def decoded_def)
      (simp add: demo_record_def)
qed (simp_all add: demo_reader_events_def demo_reader_def)

theorem reader_delivers_in_order_witness:
  "\<exists>v. reader_run demo_reader demo_reader_events (reader_new demo_reader) = Some v \<and> rd_phase v = RServing 10 \<and>
    map env_sequence_number (reads (since_opened [] (rd_events v))) = [9]"
proof -
  obtain v where v: "reader_run demo_reader demo_reader_events (reader_new demo_reader) = Some v" "rd_phase v = RServing 10"
    using demo_reader_run(1) by blast
  have "sr_seq_num demo_record = 9" by (simp add: demo_record_def)
  with reader_delivers_in_order [OF v] v show ?thesis by (auto simp: demo_reader_run(2,3))
qed

text \<open>(C5) End to end: what one replica's writer has submitted to S2 reaches another replica's engine
  unchanged. When the records of a reader's session are those the writer submitted, numbered and time-stamped
  by S2, and the object streams it uploaded can be fetched, the envelopes the reader has sent carry the
  messages handed to the writer, in order, under the writer's id and their outbox ids.\<close>

theorem log_end_to_end:
  assumes "writer_run C evs writer_new = Some w" and "\<forall>sev. InSession sev \<in> set evs \<longrightarrow> nonces_ok sev"
    and "wr_phase w = Serving s"
    and "aead_ok (wc_ext C)" and "pointer_json_ok (wc_ext C)"
    and "\<forall>im\<in>set (appended (session_events [] evs)). msg_ok (wc_ext C) (snd im)"
    and "rc_ext D = wc_ext C" and "rc_workspace D = wc_workspace C" and "rc_key D = wc_key C"
    and "reader_run D revs (reader_new D) = Some v" and "rd_phase v = RServing n"
    and "length (session_records [] revs) \<le> length (se_submitted s)"
    and "\<forall>k<length (session_records [] revs).
      (case session_records [] revs ! k of (r, fetch) \<Rightarrow>
         sr_headers r = ar_headers (se_submitted s ! k) \<and> sr_body r = ar_body (se_submitted s ! k) \<and>
         sr_seq_num r < u64_max \<and> time_nanos_ok (wc_ext C) (int (sr_timestamp_ms r) * 1000000) \<and>
         (\<forall>(name, bodies)\<in>set (se_uploaded s). \<forall>n. fetch name n = Inr (take n bodies, None)))"
  shows "map (\<lambda>e. (env_origin e, env_shared_message e)) (reads (since_opened [] (rd_events v))) =
    map (\<lambda>(i, msg). (\<lparr>or_daemon_writer_id = wc_daemon_writer_id C, or_outbox_id = i\<rparr>, msg))
      (take (length (session_records [] revs)) (appended (session_events [] evs)))"
proof -
  let ?ims = "appended (session_events [] evs)" and ?recs = "session_records [] revs"
  let ?es = "reads (since_opened [] (rd_events v))"
  have two: "list_all2 (decoded D) ?recs ?es"
    using reader_run_inv [OF assms(10)] assms(11) by (simp add: reader_inv_def reading_ok_def)
  then have len: "length ?es = length ?recs" by (simp add: list_all2_lengthD)
  have "length (se_submitted s) \<le> length ?ims"
    using writer_run_ok [OF assms(1-3)] by (auto simp: session_ok_def Let_def split: option.splits)
  then have le: "length ?recs \<le> length ?ims" using assms(12) by simp
  have nth: "env_origin (?es ! k) = \<lparr>or_daemon_writer_id = wc_daemon_writer_id C, or_outbox_id = fst (?ims ! k)\<rparr> \<and>
      env_shared_message (?es ! k) = snd (?ims ! k)" if k: "k < length ?recs" for k
  proof -
    obtain r fetch where rf: "?recs ! k = (r, fetch)" by fastforce
    have r: "sr_headers r = ar_headers (se_submitted s ! k)" "sr_body r = ar_body (se_submitted s ! k)"
      "sr_seq_num r < u64_max" "time_nanos_ok (wc_ext C) (int (sr_timestamp_ms r) * 1000000)"
      and f: "\<forall>(name, bodies)\<in>set (se_uploaded s). \<forall>n. fetch name n = Inr (take n bodies, None)"
      using assms(13) [rule_format, OF k] unfolding rf prod.case by blast+
    have pf: "\<forall>(name, bodies)\<in>set (se_uploaded s). \<forall>n. plain_fetch fetch name n = Inr (take n bodies)"
      using f by (auto simp: plain_fetch_def)
    have ks: "k < length (se_submitted s)" using k assms(12) by simp
    have rec: "r = \<lparr>sr_seq_num = sr_seq_num r, sr_timestamp_ms = sr_timestamp_ms r,
        sr_headers = ar_headers (se_submitted s ! k), sr_body = ar_body (se_submitted s ! k)\<rparr>"
      using r(1,2) by simp
    from submitted_reads_back [OF assms(1-6) pf ks r(3,4)]
    have "read_record (rc_ext D) (rc_workspace D) (rc_key D) (plain_fetch fetch) r =
      Inr \<lparr>env_timestamp = int (sr_timestamp_ms r) * 1000000, env_sequence_number = sr_seq_num r,
         env_origin = \<lparr>or_daemon_writer_id = wc_daemon_writer_id C, or_outbox_id = fst (?ims ! k)\<rparr>,
         env_shared_message = snd (?ims ! k)\<rparr>"
      unfolding assms(7-9) by (subst rec) simp
    from read_record_run_plain [OF this] have "decoded D (r, fetch)
      \<lparr>env_timestamp = int (sr_timestamp_ms r) * 1000000, env_sequence_number = sr_seq_num r,
         env_origin = \<lparr>or_daemon_writer_id = wc_daemon_writer_id C, or_outbox_id = fst (?ims ! k)\<rparr>,
         env_shared_message = snd (?ims ! k)\<rparr>" .
    moreover have "decoded D (r, fetch) (?es ! k)"
      using two k rf by (metis list_all2_nthD)
    ultimately have "?es ! k = \<lparr>env_timestamp = int (sr_timestamp_ms r) * 1000000, env_sequence_number = sr_seq_num r,
         env_origin = \<lparr>or_daemon_writer_id = wc_daemon_writer_id C, or_outbox_id = fst (?ims ! k)\<rparr>,
         env_shared_message = snd (?ims ! k)\<rparr>"
      by (simp add: decoded_def)
    then show ?thesis by simp
  qed
  show ?thesis
    by (rule nth_equalityI) (use len le nth in \<open>auto simp: case_prod_unfold\<close>)
qed

theorem log_end_to_end_witness:
  "\<exists>v. reader_run demo_reader demo_reader_events (reader_new demo_reader) = Some v \<and>
    map (\<lambda>e. (env_origin e, env_shared_message e)) (reads (since_opened [] (rd_events v))) =
      [(\<lparr>or_daemon_writer_id = ''w'', or_outbox_id = 3\<rparr>, NamespaceUpdate ''upd'')]"
proof -
  obtain w s where run: "writer_run demo_writer demo_writer_events writer_new = Some w" "wr_phase w = Serving s"
    "se_uploaded s = []"
    "se_submitted s = [\<lparr>ar_headers = demo_headers, ar_body = replicate 12 (CHR ''n'') @ ''upd'' @ replicate 16 (CHR 0x00)\<rparr>]"
    using demo_writer_run(1) by blast
  obtain v where v: "reader_run demo_reader demo_reader_events (reader_new demo_reader) = Some v" "rd_phase v = RServing 10"
    using demo_reader_run(1) by blast
  have X: "rc_ext demo_reader = wc_ext demo_writer" "rc_workspace demo_reader = wc_workspace demo_writer"
    "rc_key demo_reader = wc_key demo_writer" by (simp_all add: demo_reader_def demo_writer_def)
  have ok: "aead_ok (wc_ext demo_writer)" "pointer_json_ok (wc_ext demo_writer)"
    "time_nanos_ok (wc_ext demo_writer) 7000000"
    using demo_ext_ok(3,4) by (simp_all add: demo_writer_def) (simp add: demo_ext_def)
  have "map (\<lambda>e. (env_origin e, env_shared_message e)) (reads (since_opened [] (rd_events v))) =
    map (\<lambda>(i, msg). (\<lparr>or_daemon_writer_id = wc_daemon_writer_id demo_writer, or_outbox_id = i\<rparr>, msg))
      (take (length (session_records [] demo_reader_events)) (appended (session_events [] demo_writer_events)))"
    by (rule log_end_to_end [OF run(1) demo_writer_run(2) run(2) ok(1,2) _ X v])
      (use run ok in \<open>simp_all add: demo_writer_run(3) demo_reader_run(2) msg_ok_def demo_record_def u64_max_def\<close>)
  then show ?thesis using v by (simp add: demo_writer_run(3) demo_reader_run(2) demo_writer_def)
qed

end
