(* ===== verification/Spy.thy ===== *)
theory Spy
  imports Tables
begin

text \<open>
  \<open>crates/core/src/spy.rs\<close>: the events of \<open>ob spy\<close>, the tracker that turns a stream of namespace
  updates into added and removed claims, and the preview of text updates; and the two places where
  the engine (\<open>engine/actor.rs\<close>) feeds its tracker. What the \<open>yrs\<close> decoder shows of an update (the
  lengths of its deleted ranges and its printed form) is the parameter \<open>decode_update\<close>; client ids
  for read-only documents are arguments.
\<close>

record namespace_claim_summary =
  ncs_path :: string
  ncs_object_id_b64 :: string
  ncs_kind :: string

record namespace_update_summary =
  nus_added_claims :: "namespace_claim_summary list"
  nus_removed_claims :: "namespace_claim_summary list"

record text_update_summary =
  tus_inserted_chars :: nat
  tus_deleted_items :: nat
  tus_inserted_preview :: "string option"
  tus_preview_truncated :: bool

datatype spy_message_kind =
    SpyNamespaceUpdate string "namespace_update_summary option"
  | SpyTextUpdate string "text_update_summary option"
  | SpyBinaryPut string int string

record spy_shared_message =
  ssm_sequence_number :: nat
  ssm_timestamp_ns :: int
  ssm_origin_writer_id_b64 :: string
  ssm_origin_outbox_id :: nat
  ssm_message :: spy_message_kind
  ssm_payload_size_bytes :: nat

datatype spy_event =
    SessionStarted string
  | SpyMessage spy_shared_message
  | Lagged nat
  | NamespaceSnapshot string

text \<open>\<open>SpyOpen\<close> without its receiver, which is the list of items received in \<open>Ipc\<close>.\<close>

record spy_open =
  so_daemon_writer_id_b64 :: string
  so_namespace_snapshot_b64 :: string

section \<open>Previews of text updates\<close>

definition text_preview_chars :: nat where
  "text_preview_chars = 120"

definition is_continuation :: "char \<Rightarrow> bool" where
  "is_continuation = byte_in 0x80 0xBF"

text \<open>The characters of a UTF-8 string, each as its bytes.\<close>

function utf8_chars :: "string \<Rightarrow> string list" where
  "utf8_chars [] = []"
| "utf8_chars (c # cs) =
     (c # takeWhile is_continuation cs) # utf8_chars (dropWhile is_continuation cs)"
  by pat_completeness auto
termination
  by (relation "measure length") (auto simp: le_imp_less_Suc length_dropWhile_le)

definition is_control_char :: "string \<Rightarrow> bool" where
  "is_control_char ch \<longleftrightarrow>
     (case ch of
        [a] \<Rightarrow> byte_in 0 0x1F a \<or> a = CHR 0x7F
      | [a, b] \<Rightarrow> a = CHR 0xC2 \<and> byte_in 0x80 0x9F b
      | _ \<Rightarrow> False)"

definition escape_char :: "string \<Rightarrow> string" where
  "escape_char ch =
     (if ch = [CHR 0x0A] then [CHR 0x5C, CHR ''n'']
      else if ch = [CHR 0x0D] then [CHR 0x5C, CHR ''r'']
      else if ch = [CHR 0x09] then [CHR 0x5C, CHR ''t'']
      else if is_control_char ch then '' ''
      else ch)"

definition escape_preview :: "string \<Rightarrow> string" where
  "escape_preview s = concat (map escape_char (utf8_chars s))"

definition truncate_chars :: "string \<Rightarrow> nat \<Rightarrow> string \<times> bool" where
  "truncate_chars s max_chars =
     (let truncated = length (utf8_chars s) > max_chars;
          out = concat (take max_chars (utf8_chars s))
      in (if truncated then out @ ''...'' else out, truncated))"

text \<open>\<open>str::find\<close>: the position of the first occurrence.\<close>

fun find_sub :: "string \<Rightarrow> string \<Rightarrow> nat option" where
  "find_sub p [] = (if p = [] then Some 0 else None)"
| "find_sub p (c # cs) =
     (if starts_with (c # cs) p then Some 0 else map_option Suc (find_sub p cs))"

text \<open>The pieces between \<open>: '\<close> and the next \<open>')\<close>, joined by line breaks; each round consumes the
  opening, so the length of the text is enough fuel.\<close>

fun extract_rounds :: "nat \<Rightarrow> string \<Rightarrow> string \<Rightarrow> string" where
  "extract_rounds 0 out rest = out"
| "extract_rounds (Suc n) out rest =
     (case find_sub [CHR '':'', CHR '' '', CHR 0x27] rest of
        None \<Rightarrow> out
      | Some a \<Rightarrow>
          let body = drop (a + 3) rest
          in case find_sub [CHR 0x27, CHR '')''] body of
               None \<Rightarrow> out
             | Some b \<Rightarrow>
                 extract_rounds n ((if out = [] then out else out @ [CHR 0x0A]) @ take b body) (drop (b + 2) body))"

definition extract_inserted_text_from_update_display :: "string \<Rightarrow> string" where
  "extract_inserted_text_from_update_display display = extract_rounds (length display) [] display"

definition decode_text_update_summary ::
    "(bytes \<Rightarrow> (nat list \<times> string) option) \<Rightarrow> bytes \<Rightarrow> text_update_summary option" where
  "decode_text_update_summary decode_update update =
     (case decode_update update of
        None \<Rightarrow> None
      | Some (ranges, display) \<Rightarrow>
          let inserted = extract_inserted_text_from_update_display display;
              (preview, truncated) =
                (if inserted = [] then (None, False)
                 else (let (p, t) = truncate_chars (escape_preview inserted) text_preview_chars in (Some p, t)))
          in Some \<lparr>tus_inserted_chars = length (utf8_chars inserted), tus_deleted_items = sum_list ranges,
               tus_inserted_preview = preview, tus_preview_truncated = truncated\<rparr>)"

section \<open>Events\<close>

definition nanos_i64 :: "time_ns \<Rightarrow> int res" where
  "nanos_i64 t = (if i64_range t then Inr t else Inl Panicked)"

fun from_shared_message ::
    "('d, 'sv) ext \<Rightarrow> (bytes \<Rightarrow> (nat list \<times> string) option) \<Rightarrow> shared_message \<Rightarrow>
     namespace_update_summary option \<Rightarrow> spy_message_kind res" where
  "from_shared_message X decode_update (NamespaceUpdate u) summary =
     Inr (SpyNamespaceUpdate (b64_encode X u) summary)"
| "from_shared_message X decode_update (TextObjectUpdate obj u) summary =
     Inr (SpyTextUpdate (b64_encode X obj) (decode_text_update_summary decode_update u))"
| "from_shared_message X decode_update (BinaryObjectPut obj wall writer _) summary =
     map_ok (\<lambda>ns. SpyBinaryPut (b64_encode X obj) ns (b64_encode X writer)) (nanos_i64 wall)"

definition shared_message_with_namespace_summary ::
    "('d, 'sv) ext \<Rightarrow> (bytes \<Rightarrow> (nat list \<times> string) option) \<Rightarrow> shared_message_envelope \<Rightarrow>
     namespace_update_summary option \<Rightarrow> spy_event res" where
  "shared_message_with_namespace_summary X decode_update e summary =
     bind_res (nanos_i64 (env_timestamp e)) (\<lambda>ns.
       bind_res (from_shared_message X decode_update (env_shared_message e) summary) (\<lambda>message.
         Inr (SpyMessage \<lparr>ssm_sequence_number = env_sequence_number e, ssm_timestamp_ns = ns,
           ssm_origin_writer_id_b64 = b64_encode X (or_daemon_writer_id (env_origin e)),
           ssm_origin_outbox_id = or_outbox_id (env_origin e), ssm_message = message,
           ssm_payload_size_bytes = approximate_size_bytes (env_shared_message e)\<rparr>)))"

section \<open>The namespace tracker\<close>

record 'd tracker =
  tk_doc :: 'd
  tk_known_active_ids :: "string set"
  tk_known_removed_ids :: "string set"

definition tracker_new :: "('d, 'sv) ext \<Rightarrow> nat \<Rightarrow> 'd tracker" where
  "tracker_new X client_id =
     \<lparr>tk_doc = ns_new X client_id, tk_known_active_ids = {}, tk_known_removed_ids = {}\<rparr>"

definition active_ids :: "('d, 'sv) ext \<Rightarrow> active_claim list \<Rightarrow> string set" where
  "active_ids X claims = set (map (\<lambda>c. b64_encode X (ac_claim_id c)) claims)"

definition removed_ids :: "('d, 'sv) ext \<Rightarrow> 'd \<Rightarrow> string set" where
  "removed_ids X d = set (map (b64_encode X) (ns_removed_claim_ids X d))"

definition tracker_seed :: "('d, 'sv) ext \<Rightarrow> nat \<Rightarrow> bytes \<Rightarrow> 'd tracker \<Rightarrow> 'd tracker res" where
  "tracker_seed X client_id state t =
     bind_res (ns_from_full_state X client_id state) (\<lambda>doc.
       bind_res (ns_active_claims X doc) (\<lambda>active.
         Inr \<lparr>tk_doc = doc, tk_known_active_ids = active_ids X active, tk_known_removed_ids = removed_ids X doc\<rparr>))"

definition tracker_seed_b64 :: "('d, 'sv) ext \<Rightarrow> nat \<Rightarrow> string \<Rightarrow> 'd tracker \<Rightarrow> 'd tracker" where
  "tracker_seed_b64 X client_id state_b64 t =
     (case b64_decode X state_b64 of
        None \<Rightarrow> t
      | Some state \<Rightarrow> (case tracker_seed X client_id state t of Inl _ \<Rightarrow> t | Inr t' \<Rightarrow> t'))"

definition tracker_snapshot_b64 :: "('d, 'sv) ext \<Rightarrow> 'd tracker \<Rightarrow> string" where
  "tracker_snapshot_b64 X t = b64_encode X (ns_encode_full_state X (tk_doc t))"

definition summary_kind :: "('d, 'sv) ext \<Rightarrow> 'd \<Rightarrow> object_id \<Rightarrow> string" where
  "summary_kind X d obj = (case ns_get_object X obj d of None \<Rightarrow> [] | Some m \<Rightarrow> kind_str (meta_kind m))"

definition record_summary :: "('d, 'sv) ext \<Rightarrow> 'd \<Rightarrow> claim_record \<Rightarrow> namespace_claim_summary" where
  "record_summary X d rec =
     \<lparr>ncs_path = to_db_path (cr_path rec), ncs_object_id_b64 = b64_encode X (cr_object_id rec),
      ncs_kind = summary_kind X d (cr_object_id rec)\<rparr>"

text \<open>The document keeps an update that was applied even when its claims cannot be read; the known
  ids then stay.\<close>

definition try_apply_update ::
    "('d, 'sv) ext \<Rightarrow> bytes \<Rightarrow> 'd tracker \<Rightarrow> namespace_update_summary res \<times> 'd tracker" where
  "try_apply_update X update t =
     (case ns_apply_update X update (tk_doc t) of
        Inl e \<Rightarrow> (Inl e, t)
      | Inr doc \<Rightarrow>
          let t1 = t\<lparr>tk_doc := doc\<rparr>
          in case ns_active_claims X doc of
               Inl e \<Rightarrow> (Inl e, t1)
             | Inr active \<Rightarrow>
                 (Inr \<lparr>nus_added_claims =
                      map (\<lambda>c. record_summary X doc (ac_record c))
                        (filter (\<lambda>c. b64_encode X (ac_claim_id c) \<notin> tk_known_active_ids t) active),
                    nus_removed_claims =
                      map (record_summary X doc)
                        (List.map_filter (\<lambda>i. ns_get_claim X i doc)
                          (filter (\<lambda>i. b64_encode X i \<notin> tk_known_removed_ids t) (ns_removed_claim_ids X doc)))\<rparr>,
                  t1\<lparr>tk_known_active_ids := active_ids X active, tk_known_removed_ids := removed_ids X doc\<rparr>))"

definition tracker_apply_update ::
    "('d, 'sv) ext \<Rightarrow> bytes \<Rightarrow> 'd tracker \<Rightarrow> namespace_update_summary option \<times> 'd tracker" where
  "tracker_apply_update X update t =
     (case try_apply_update X update t of (Inl _, t') \<Rightarrow> (None, t') | (Inr s, t') \<Rightarrow> (Some s, t'))"

definition tracker_apply_b64 ::
    "('d, 'sv) ext \<Rightarrow> string \<Rightarrow> 'd tracker \<Rightarrow> namespace_update_summary option \<times> 'd tracker" where
  "tracker_apply_b64 X update_b64 t =
     (case b64_decode X update_b64 of None \<Rightarrow> (None, t) | Some u \<Rightarrow> tracker_apply_update X u t)"

text \<open>The engine's tap on a message.\<close>

definition apply_spy_namespace_update ::
    "('d, 'sv) ext \<Rightarrow> shared_message \<Rightarrow> 'd tracker \<Rightarrow> namespace_update_summary option \<times> 'd tracker" where
  "apply_spy_namespace_update X message t =
     (case message of NamespaceUpdate u \<Rightarrow> tracker_apply_update X u t | _ \<Rightarrow> (None, t))"

section \<open>The tracker reports what changed\<close>

definition tracker_ok :: "('d, 'sv) ext \<Rightarrow> 'd tracker \<Rightarrow> bool" where
  "tracker_ok X t \<longleftrightarrow>
     (\<exists>active. ns_active_claims X (tk_doc t) = Inr active \<and> tk_known_active_ids t = active_ids X active) \<and>
     tk_known_removed_ids t = removed_ids X (tk_doc t)"

lemma tracker_seed_ok: "tracker_seed X client_id state t = Inr t' \<Longrightarrow> tracker_ok X t'"
  by (auto simp: tracker_seed_def tracker_ok_def bind_res_def split: sum.splits)

lemma try_apply_ok: "try_apply_update X update t = (Inr s, t') \<Longrightarrow> tracker_ok X t'"
  by (auto simp: try_apply_update_def tracker_ok_def Let_def split: sum.splits)

lemma b64_inj: "b64_ok X \<Longrightarrow> b64_encode X a = b64_encode X b \<longleftrightarrow> a = b"
  unfolding b64_ok_def by (metis option.inject)

lemma mem_active_ids:
  "b64_ok X \<Longrightarrow> b64_encode X i \<in> active_ids X active \<longleftrightarrow> i \<in> ac_claim_id ` set active"
  by (auto simp: active_ids_def b64_inj)

lemma mem_removed_ids:
  "b64_ok X \<Longrightarrow> b64_encode X i \<in> removed_ids X d \<longleftrightarrow> i \<in> set (ns_removed_claim_ids X d)"
  by (auto simp: removed_ids_def b64_inj)

text \<open>A tracker that knows its document reports, for an update, exactly the claims that became
  active and the claims that became removed, with their paths, and then knows the new document.\<close>
lemma spy_tracker_exact:
  assumes "b64_ok X" and "tracker_ok X t" and "ns_active_claims X (tk_doc t) = Inr before"
    and "try_apply_update X update t = (Inr s, t')" and "ns_active_claims X (tk_doc t') = Inr after"
  shows "tracker_ok X t' \<and>
    nus_added_claims s = map (\<lambda>c. record_summary X (tk_doc t') (ac_record c))
      (filter (\<lambda>c. ac_claim_id c \<notin> ac_claim_id ` set before) after) \<and>
    nus_removed_claims s = map (record_summary X (tk_doc t'))
      (List.map_filter (\<lambda>i. ns_get_claim X i (tk_doc t'))
        (filter (\<lambda>i. i \<notin> set (ns_removed_claim_ids X (tk_doc t))) (ns_removed_claim_ids X (tk_doc t'))))"
proof -
  have known: "tk_known_active_ids t = active_ids X before" "tk_known_removed_ids t = removed_ids X (tk_doc t)"
    using assms(2,3) by (auto simp: tracker_ok_def)
  show ?thesis
    using assms(4,5) try_apply_ok [OF assms(4)]
    by (auto simp: try_apply_update_def Let_def known mem_active_ids [OF assms(1)]
        mem_removed_ids [OF assms(1)] split: sum.splits)
qed

end
