(* ===== verification/Spy_Tap.thy ===== *)
theory Spy_Tap
  imports Spy Engine
begin

text \<open>
  The spy tap of \<open>engine/actor.rs\<close>: the namespace tracker the engine seeds before its loop, updates
  with every message it reads, and publishes from. The tap stands beside the engine of \<open>Engine\<close>
  and never changes what it does; it can only end it, when a time does not fit the printed form.
\<close>

record 'd tapped =
  tp_engine :: engine
  tp_tracker :: "'d tracker"
  tp_spy_enabled :: bool
  tp_published :: "spy_event list"

type_synonym update_decoder = "bytes \<Rightarrow> (nat list \<times> string) option"

text \<open>\<open>initialize_spy_namespace\<close>, given the semantic actor's answer.\<close>

definition initialize_spy_namespace ::
    "('d, 'sv) ext \<Rightarrow> nat \<Rightarrow> bytes res \<Rightarrow> 'd tapped \<Rightarrow> 'd tapped res" where
  "initialize_spy_namespace X client_id answer t =
     bind_res answer (\<lambda>state.
       map_ok (\<lambda>tk. t\<lparr>tp_tracker := tk\<rparr>) (tracker_seed X client_id state (tp_tracker t)))"

definition tap_message ::
    "('d, 'sv) ext \<Rightarrow> update_decoder \<Rightarrow> shared_message_envelope \<Rightarrow> 'd tapped \<Rightarrow> 'd tapped res" where
  "tap_message X decode_update envelope t =
     (let (summary, tk) = apply_spy_namespace_update X (env_shared_message envelope) (tp_tracker t);
          t1 = t\<lparr>tp_tracker := tk\<rparr>
      in if tp_spy_enabled t
         then map_ok (\<lambda>e. t1\<lparr>tp_published := tp_published t @ [e]\<rparr>)
           (shared_message_with_namespace_summary X decode_update envelope summary)
         else Inr t1)"

definition tap_event ::
    "('d, 'sv) ext \<Rightarrow> update_decoder \<Rightarrow> engine_event \<Rightarrow> 'd tapped \<Rightarrow> 'd tapped res" where
  "tap_event X decode_update ev t =
     (case ev of
        EvReader (ReaderRead envelope) \<Rightarrow>
          if has_capacity (en_buffer (tp_engine t)) then tap_message X decode_update envelope t else Inr t
      | _ \<Rightarrow> Inr t)"

definition tapped_turn ::
    "('d, 'sv) ext \<Rightarrow> update_decoder \<Rightarrow> engine_clock \<Rightarrow> engine_event \<Rightarrow> 'd tapped \<Rightarrow> 'd tapped option res" where
  "tapped_turn X decode_update ck ev t =
     bind_res (tap_event X decode_update ev t) (\<lambda>t1.
       map_ok (map_option (\<lambda>e. t1\<lparr>tp_engine := e\<rparr>)) (engine_turn X ck ev (tp_engine t1)))"

text \<open>The answer to \<open>EngineCommand::OpenSpy\<close>.\<close>

definition answer_open_spy :: "('d, 'sv) ext \<Rightarrow> 'd tapped \<Rightarrow> string + spy_open" where
  "answer_open_spy X t =
     (if tp_spy_enabled t
      then Inr \<lparr>so_daemon_writer_id_b64 = b64_encode X (es_daemon_writer_id (en_status (tp_engine t))),
        so_namespace_snapshot_b64 = tracker_snapshot_b64 X (tp_tracker t)\<rparr>
      else Inl ''spy stream is not enabled'')"

section \<open>The tap is transparent\<close>

lemma tap_event_engine: "tap_event X D ev t = Inr t' \<Longrightarrow> tp_engine t' = tp_engine t"
  by (auto simp: tap_event_def tap_message_def map_ok_def Let_def
      split: engine_event.splits log_reader_event.splits if_splits prod.splits sum.splits)

lemma tapped_turn_simulates:
  assumes "tapped_turn X D ck ev t = Inr r"
  shows "engine_turn X ck ev (tp_engine t) = Inr (map_option tp_engine r)"
  using assms tap_event_engine [of X D ev t]
  by (auto simp: tapped_turn_def bind_res_def map_ok_def option.map_comp comp_def option.map_ident
      split: sum.splits)

text \<open>The printed times are the one thing that can end the engine through its tap.\<close>

lemma tap_event_fails:
  assumes "tap_event X D ev t = Inl err"
  shows "err = Panicked \<and> tp_spy_enabled t \<and>
    (\<exists>envelope. ev = EvReader (ReaderRead envelope) \<and>
      (\<not> i64_range (env_timestamp envelope) \<or>
       (\<exists>obj wall w b. env_shared_message envelope = BinaryObjectPut obj wall w b \<and> \<not> i64_range wall)))"
proof -
  obtain envelope where ev: "ev = EvReader (ReaderRead envelope)" and f: "tap_message X D envelope t = Inl err"
    using assms by (auto simp: tap_event_def split: engine_event.splits log_reader_event.splits if_splits)
  then show ?thesis
    by (cases "env_shared_message envelope")
      (auto simp: tap_message_def map_ok_def bind_res_def nanos_i64_def Let_def
        shared_message_with_namespace_summary_def split: if_splits prod.splits sum.splits)
qed

lemma wall_time_ends_engine:
  assumes "tp_spy_enabled t" "has_capacity (en_buffer (tp_engine t))"
    and "env_shared_message envelope = BinaryObjectPut obj wall w b" "\<not> i64_range wall"
  shows "tapped_turn X D ck (EvReader (ReaderRead envelope)) t = Inl Panicked"
  using assms
  by (auto simp: tapped_turn_def tap_event_def tap_message_def map_ok_def bind_res_def nanos_i64_def Let_def
      apply_spy_namespace_update_def shared_message_with_namespace_summary_def)

end
