(* ===== verification/Host.thy ===== *)
theory Host
  imports Store "HOL-Library.AList"
begin

text \<open>
  The machine the command line and the daemon's start-up code run on, as \<open>std::fs\<close> documents
  the calls \<open>crates/core/src/app/*.rs\<close> and \<open>crates/client/src/main.rs\<close> make: a tree of files with
  permission bits, symbolic links and sockets, numbered calls any of which may fail, the process
  environment, and the lines printed. Paths are absolute (a relative argument stands for the path
  it has below the current directory). \<open>h_trace\<close> keeps the tree after every change, newest first.
  A database file holds the tables of \<open>Store\<close>; it is locked while a daemon has it open.
\<close>

type_synonym host_path = "string list"

datatype host_node =
    HDir nat
  | HFile nat bytes
  | HDb bool db
  | HLink host_path
  | HSocket nat

type_synonym host_tree = "(host_path \<times> host_node) list"

datatype io_kind = NotFound | AlreadyExists | InvalidInput | ConnectionRefused | OtherIo

record host =
  h_nodes :: host_tree
  h_calls :: nat
  h_faults :: "nat \<Rightarrow> bool"
  h_trace :: "host_tree list"
  h_config_env :: "host_path option"
  h_config_base :: "host_path option"
  h_cwd :: host_path
  h_env :: "string \<Rightarrow> (unit + string) option"
  h_out :: "string list"

text \<open>The errors of the application layer, one constructor for each message.\<close>

datatype app_error =
    IoError io_kind
  | DbError error
  | NotInWorkspace host_path
  | NoParent host_path
  | RootNotDirectory host_path
  | ReservedPath host_path
  | InitFailedBefore string
  | AlreadyConfigured string
  | UnreadableMetadata host_path
  | MetadataExists host_path
  | CloneRootNotEmpty host_path
  | NotConfigured host_path
  | NoConfigDir
  | TomlError
  | NoAccessToken
  | NoBasin
  | InvalidValue string string
  | EmptyValue string
  | NewlineInValue string
  | KeyNotAllowed string
  | NotUtf8 string
  | EndpointError

section \<open>Looking paths up\<close>

definition node_at :: "host_tree \<Rightarrow> host_path \<Rightarrow> host_node option" where
  "node_at t p = (if p = [] then Some (HDir 493) else map_of t p)"

text \<open>Resolution follows at most forty links, as Linux does.\<close>

fun follow :: "host_tree \<Rightarrow> nat \<Rightarrow> host_path \<Rightarrow> host_path \<Rightarrow> io_kind + host_path" where
  "follow t n pre [] = Inr pre"
| "follow t n pre (c # cs) =
     (case node_at t (pre @ [c]) of
        None \<Rightarrow> Inl NotFound
      | Some (HLink target) \<Rightarrow> (case n of 0 \<Rightarrow> Inl OtherIo | Suc m \<Rightarrow> follow t m [] (target @ cs))
      | Some (HDir _) \<Rightarrow> follow t n (pre @ [c]) cs
      | Some _ \<Rightarrow> if cs = [] then Inr (pre @ [c]) else Inl OtherIo)"

definition real_path :: "host_path \<Rightarrow> host_tree \<Rightarrow> io_kind + host_path" where
  "real_path p t = follow t 40 [] p"

text \<open>The entry itself, for the calls that do not follow a link at the end.\<close>

definition entry_path :: "host_path \<Rightarrow> host_tree \<Rightarrow> io_kind + host_path" where
  "entry_path p t =
     (if p = [] then Inr []
      else case real_path (butlast p) t of Inl k \<Rightarrow> Inl k | Inr d \<Rightarrow> Inr (d @ [last p]))"

definition stat_node :: "host_path \<Rightarrow> host_tree \<Rightarrow> io_kind + host_node" where
  "stat_node p t =
     (case real_path p t of
        Inl k \<Rightarrow> Inl k
      | Inr q \<Rightarrow> (case node_at t q of None \<Rightarrow> Inl NotFound | Some n \<Rightarrow> Inr n))"

definition children :: "host_path \<Rightarrow> host_tree \<Rightarrow> string list" where
  "children p t = map last (filter (\<lambda>q. q \<noteq> [] \<and> butlast q = p) (map fst t))"

section \<open>Calls and programs\<close>

type_synonym 'a sys_call = "host_tree \<Rightarrow> (io_kind + 'a) \<times> host_tree"
type_synonym 'a raw = "host \<Rightarrow> (io_kind + 'a) \<times> host"
type_synonym 'a app = "host \<Rightarrow> (app_error + 'a) \<times> host"

definition reading :: "(host_tree \<Rightarrow> io_kind + 'a) \<Rightarrow> 'a raw" where
  "reading f h =
     ((if h_faults h (h_calls h) then Inl OtherIo else f (h_nodes h)), h\<lparr>h_calls := Suc (h_calls h)\<rparr>)"

definition changing :: "'a sys_call \<Rightarrow> 'a raw" where
  "changing f h =
     (if h_faults h (h_calls h) then (Inl OtherIo, h\<lparr>h_calls := Suc (h_calls h)\<rparr>)
      else (let (r, t) = f (h_nodes h)
            in (r, h\<lparr>h_nodes := t, h_calls := Suc (h_calls h), h_trace := t # h_trace h\<rparr>)))"

definition done_app :: "'a \<Rightarrow> 'a app" where
  "done_app x h = (Inr x, h)"

definition bail :: "app_error \<Rightarrow> 'a app" where
  "bail e h = (Inl e, h)"

definition then_app :: "'a app \<Rightarrow> ('a \<Rightarrow> 'b app) \<Rightarrow> 'b app" where
  "then_app m f h = (case m h of (Inl e, h') \<Rightarrow> (Inl e, h') | (Inr x, h') \<Rightarrow> f x h')"

text \<open>A \<open>match\<close> on the result of a call, or of a whole program, and the \<open>?\<close> operator.\<close>

definition on_result :: "(host \<Rightarrow> ('e + 'a) \<times> host) \<Rightarrow> ('e + 'a \<Rightarrow> 'b app) \<Rightarrow> 'b app" where
  "on_result m f h = (case m h of (r, h') \<Rightarrow> f r h')"

definition io_ok :: "'a raw \<Rightarrow> 'a app" where
  "io_ok m = on_result m (\<lambda>r. case r of Inl k \<Rightarrow> bail (IoError k) | Inr x \<Rightarrow> done_app x)"

definition print_line :: "string \<Rightarrow> unit app" where
  "print_line s h = (Inr (), h\<lparr>h_out := h_out h @ [s]\<rparr>)"

definition lift_db :: "'a res \<Rightarrow> 'a app" where
  "lift_db r = (case r of Inl e \<Rightarrow> bail (DbError e) | Inr x \<Rightarrow> done_app x)"

section \<open>The calls\<close>

definition host_canonicalize :: "host_path \<Rightarrow> host_path raw" where
  "host_canonicalize p = reading (real_path p)"

definition host_stat :: "host_path \<Rightarrow> host_node raw" where
  "host_stat p = reading (stat_node p)"

fun is_dir_node :: "host_node \<Rightarrow> bool" where
  "is_dir_node (HDir _) = True"
| "is_dir_node _ = False"

text \<open>\<open>Path::is_dir\<close>, \<open>try_exists\<close> and \<open>exists\<close>.\<close>

definition host_is_dir :: "host_path \<Rightarrow> bool app" where
  "host_is_dir p = on_result (host_stat p) (\<lambda>r. case r of Inl _ \<Rightarrow> done_app False | Inr n \<Rightarrow> done_app (is_dir_node n))"

definition host_try_exists :: "host_path \<Rightarrow> bool app" where
  "host_try_exists p =
     on_result (host_stat p) (\<lambda>r. case r of
       Inr _ \<Rightarrow> done_app True
     | Inl k \<Rightarrow> if k = NotFound then done_app False else bail (IoError k))"

definition host_exists :: "host_path \<Rightarrow> bool app" where
  "host_exists p = on_result (host_stat p) (\<lambda>r. case r of Inl _ \<Rightarrow> done_app False | Inr _ \<Rightarrow> done_app True)"

definition host_read_link :: "host_path \<Rightarrow> host_path raw" where
  "host_read_link p = reading (\<lambda>t.
     case entry_path p t of Inl k \<Rightarrow> Inl k
     | Inr q \<Rightarrow> (case node_at t q of
         None \<Rightarrow> Inl NotFound | Some (HLink target) \<Rightarrow> Inr target | Some _ \<Rightarrow> Inl InvalidInput))"

definition host_read_to_string :: "host_path \<Rightarrow> bytes raw" where
  "host_read_to_string p = reading (\<lambda>t.
     case stat_node p t of Inl k \<Rightarrow> Inl k
     | Inr (HFile _ b) \<Rightarrow> if utf8_valid b then Inr b else Inl OtherIo
     | Inr _ \<Rightarrow> Inl OtherIo)"

definition host_list :: "host_path \<Rightarrow> string list raw" where
  "host_list p = reading (\<lambda>t.
     case real_path p t of Inl k \<Rightarrow> Inl k
     | Inr q \<Rightarrow> (case node_at t q of Some (HDir _) \<Rightarrow> Inr (children q t) | _ \<Rightarrow> Inl OtherIo))"

definition host_remove_file :: "host_path \<Rightarrow> unit raw" where
  "host_remove_file p = changing (\<lambda>t.
     case entry_path p t of Inl k \<Rightarrow> (Inl k, t)
     | Inr q \<Rightarrow> (case node_at t q of
         None \<Rightarrow> (Inl NotFound, t) | Some (HDir _) \<Rightarrow> (Inl OtherIo, t) | Some _ \<Rightarrow> (Inr (), AList.delete q t)))"

text \<open>A new entry needs a directory to stand in.\<close>

definition place_new :: "host_path \<Rightarrow> host_node \<Rightarrow> unit sys_call" where
  "place_new p n t =
     (case entry_path p t of Inl k \<Rightarrow> (Inl k, t)
      | Inr q \<Rightarrow>
          if node_at t q \<noteq> None then (Inl AlreadyExists, t)
          else (case node_at t (butlast q) of
              Some (HDir _) \<Rightarrow> (Inr (), AList.update q n t) | _ \<Rightarrow> (Inl OtherIo, t)))"

definition host_create_dir :: "host_path \<Rightarrow> unit raw" where
  "host_create_dir p = changing (place_new p (HDir 493))"

text \<open>\<open>create_dir_all\<close> makes every missing directory on the way; each is a change of its own.\<close>

fun host_create_dirs :: "host_path list \<Rightarrow> unit raw" where
  "host_create_dirs [] h = (Inr (), h)"
| "host_create_dirs (p # ps) h =
     (case changing (\<lambda>t. case stat_node p t of
          Inr n \<Rightarrow> (if is_dir_node n then Inr () else Inl AlreadyExists, t)
        | Inl k \<Rightarrow> if k = NotFound then place_new p (HDir 493) t else (Inl k, t)) h of
        (Inl k, h') \<Rightarrow> (Inl k, h')
      | (Inr _, h') \<Rightarrow> host_create_dirs ps h')"

definition host_create_dir_all :: "host_path \<Rightarrow> unit raw" where
  "host_create_dir_all p = host_create_dirs (map (\<lambda>n. take n p) [1..<Suc (length p)])"

definition host_symlink :: "host_path \<Rightarrow> host_path \<Rightarrow> unit raw" where
  "host_symlink target p = changing (place_new p (HLink target))"

definition host_set_permissions :: "host_path \<Rightarrow> nat \<Rightarrow> unit raw" where
  "host_set_permissions p m = changing (\<lambda>t.
     case real_path p t of Inl k \<Rightarrow> (Inl k, t)
     | Inr q \<Rightarrow> (case node_at t q of
         None \<Rightarrow> (Inl NotFound, t)
       | Some (HDir _) \<Rightarrow> (Inr (), AList.update q (HDir m) t)
       | Some (HFile _ b) \<Rightarrow> (Inr (), AList.update q (HFile m b) t)
       | Some _ \<Rightarrow> (Inr (), t)))"

text \<open>Opening for writing with \<open>create\<close> and \<open>truncate\<close>; a new file gets the mode that is asked for.\<close>

definition host_open_truncate :: "nat \<Rightarrow> host_path \<Rightarrow> unit raw" where
  "host_open_truncate m p = changing (\<lambda>t.
     case stat_node p t of
       Inr (HFile m' _) \<Rightarrow>
         (case real_path p t of Inl k \<Rightarrow> (Inl k, t) | Inr q \<Rightarrow> (Inr (), AList.update q (HFile m' []) t))
     | Inr _ \<Rightarrow> (Inl OtherIo, t)
     | Inl k \<Rightarrow> if k = NotFound then place_new p (HFile m []) t else (Inl k, t))"

definition host_create_new :: "nat \<Rightarrow> host_path \<Rightarrow> unit raw" where
  "host_create_new m p = changing (place_new p (HFile m []))"

text \<open>Writing to the file that was opened at a path.\<close>

definition host_write_all :: "host_path \<Rightarrow> bytes \<Rightarrow> unit raw" where
  "host_write_all p b = changing (\<lambda>t.
     case stat_node p t of
       Inr (HFile m old) \<Rightarrow>
         (case real_path p t of Inl k \<Rightarrow> (Inl k, t) | Inr q \<Rightarrow> (Inr (), AList.update q (HFile m (old @ b)) t))
     | Inr _ \<Rightarrow> (Inl OtherIo, t)
     | Inl k \<Rightarrow> (Inl k, t))"

definition host_write :: "host_path \<Rightarrow> bytes \<Rightarrow> unit app" where
  "host_write p b = then_app (io_ok (host_open_truncate 420 p)) (\<lambda>_. io_ok (host_write_all p b))"

section \<open>Lemmas\<close>

definition no_faults :: "host \<Rightarrow> bool" where
  "no_faults h \<longleftrightarrow> (\<forall>n. \<not> h_faults h n)"

named_theorems app_simps
lemmas [app_simps] = done_app_def bail_def then_app_def on_result_def io_ok_def

section \<open>Programs and what they may do to the tree\<close>

text \<open>A program whose runs all relate the tree before to the tree after by \<open>R\<close>.\<close>

definition steps_within :: "(host_tree \<Rightarrow> host_tree \<Rightarrow> bool) \<Rightarrow> (host \<Rightarrow> 'r \<times> host) \<Rightarrow> bool" where
  "steps_within R m \<longleftrightarrow>
     (\<forall>h. R (h_nodes h) (h_nodes (snd (m h))) \<and> h_faults (snd (m h)) = h_faults h)"

lemma then_app_on_result: "then_app m f = on_result m (\<lambda>r. case r of Inl e \<Rightarrow> bail e | Inr x \<Rightarrow> f x)"
  by (auto simp: then_app_def on_result_def bail_def fun_eq_iff split: prod.split sum.split)

locale tree_steps =
  fixes R :: "host_tree \<Rightarrow> host_tree \<Rightarrow> bool"
  assumes stays: "R t t" and follows: "R t t1 \<Longrightarrow> R t1 t2 \<Longrightarrow> R t t2"
begin

lemma within_simple:
  "steps_within R (done_app x)" "steps_within R (bail e)" "steps_within R (reading f)"
  "steps_within R (lift_db r)" "steps_within R (print_line l)"
  by (simp_all add: steps_within_def stays done_app_def bail_def reading_def lift_db_def print_line_def
      split: sum.split)

lemma within_on_result:
  assumes "steps_within R m" "\<And>r. steps_within R (f r)"
  shows "steps_within R (on_result m f)"
  unfolding steps_within_def
proof (intro allI conjI)
  fix h
  obtain r h1 where m: "m h = (r, h1)" by fastforce
  have "R (h_nodes h) (h_nodes h1)" "h_faults h1 = h_faults h"
    using assms(1) m by (auto simp: steps_within_def dest: spec [of _ h])
  moreover have "R (h_nodes h1) (h_nodes (snd (f r h1)))" "h_faults (snd (f r h1)) = h_faults h1"
    using assms(2) by (auto simp: steps_within_def)
  ultimately show "R (h_nodes h) (h_nodes (snd (on_result m f h)))" "h_faults (snd (on_result m f h)) = h_faults h"
    using m follows by (auto simp: on_result_def)
qed

lemma within_then:
  assumes "steps_within R m" "\<And>x. steps_within R (f x)"
  shows "steps_within R (then_app m f)"
  unfolding then_app_on_result using assms within_simple(2) by (auto intro!: within_on_result split: sum.split)

lemma within_io_ok: "steps_within R m \<Longrightarrow> steps_within R (io_ok m)"
  unfolding io_ok_def by (rule within_on_result) (auto simp: within_simple split: sum.split)

lemma within_changing:
  "(\<And>t r t'. f t = (r, t') \<Longrightarrow> R t t') \<Longrightarrow> steps_within R (changing f)"
  using stays by (fastforce simp: steps_within_def changing_def Let_def split: prod.split)

end

lemma steps_withinD: "steps_within R m \<Longrightarrow> m h = (r, h') \<Longrightarrow> R (h_nodes h) (h_nodes h') \<and> h_faults h' = h_faults h"
  by (metis steps_within_def snd_conv)

end
