(* ===== verification/Daemon_Lock.thy ===== *)
theory Daemon_Lock
  imports Tables
begin

text \<open>
  The lock that lets one daemon serve a workspace, \<open>DaemonLock\<close> of
  \<open>crates/core/src/app/workspace.rs\<close>: a file created with \<open>create_new\<close> that holds the process
  id of its owner. \<open>acquire\<close> and \<open>drop\<close> are machines with one transition per system call, so that
  several daemons can interleave; \<open>lock_fs\<close> tells the directory entry from the file behind it,
  because a process may still write to a file that another one has unlinked. A process that dies
  leaves its file behind and its id may be given out again.
\<close>

section \<open>The file and its owner\<close>

record lock_fs =
  lf_entry :: "nat option"
  lf_contents :: "nat \<Rightarrow> bytes"
  lf_fresh :: nat

definition u32_max :: nat where
  "u32_max = 4294967295"

text \<open>\<open>parse::<u32>\<close>; a sign and digits as for \<open>parse_u64\<close>, with the smaller bound.\<close>

definition parse_u32 :: "string \<Rightarrow> nat option" where
  "parse_u32 s = (case parse_u64 s of Inr n \<Rightarrow> if n \<le> u32_max then Some n else None | Inl _ \<Rightarrow> None)"

text \<open>The contents of a lock file: an error when they are not UTF-8, else the process id in them.\<close>

definition pid_of_contents :: "bytes \<Rightarrow> nat option res" where
  "pid_of_contents b = (if utf8_valid b then Inr (parse_u32 (str_trim b)) else Inl Fatal)"

datatype lock_pc =
    LockStart
  | LockCreated nat
  | LockNumbered nat
  | LockExists
  | LockOpened nat
  | LockCheck nat
  | LockRemove
  | LockHeld
  | LockRefused nat
  | LockFailed
  | DropOpen
  | DropOpened nat
  | DropRemove
  | DropDone

definition unlink_entry :: "lock_fs \<Rightarrow> lock_fs" where
  "unlink_entry fs = fs\<lparr>lf_entry := None\<rparr>"

definition append_contents :: "nat \<Rightarrow> bytes \<Rightarrow> lock_fs \<Rightarrow> lock_fs" where
  "append_contents i b fs = fs\<lparr>lf_contents := (lf_contents fs)(i := lf_contents fs i @ b)\<rparr>"

text \<open>
  One system call of process \<open>p\<close>, which may fail (\<open>flt\<close>) with an error the code does not expect.
  \<open>writeln!\<close> to a file writes the number and the line break separately; \<open>kill -0\<close> that cannot be
  run counts as a dead process.
\<close>

fun lock_call :: "bool \<Rightarrow> nat \<Rightarrow> (nat \<Rightarrow> bool) \<Rightarrow> lock_pc \<Rightarrow> lock_fs \<Rightarrow> lock_pc \<times> lock_fs" where
  "lock_call flt p alive LockStart fs =
     (if flt then (LockFailed, fs)
      else case lf_entry fs of
        Some _ \<Rightarrow> (LockExists, fs)
      | None \<Rightarrow> (LockCreated (lf_fresh fs),
          fs\<lparr>lf_entry := Some (lf_fresh fs), lf_contents := (lf_contents fs)(lf_fresh fs := []),
             lf_fresh := Suc (lf_fresh fs)\<rparr>))"
| "lock_call flt p alive (LockCreated i) fs =
     (if flt then (LockFailed, fs) else (LockNumbered i, append_contents i (show_nat p) fs))"
| "lock_call flt p alive (LockNumbered i) fs =
     (if flt then (LockFailed, fs) else (LockHeld, append_contents i [CHR 0x0A] fs))"
| "lock_call flt p alive LockExists fs =
     (if flt then (LockFailed, fs)
      else case lf_entry fs of None \<Rightarrow> (LockRemove, fs) | Some i \<Rightarrow> (LockOpened i, fs))"
| "lock_call flt p alive (LockOpened i) fs =
     (if flt then (LockFailed, fs)
      else case pid_of_contents (lf_contents fs i) of
        Inl _ \<Rightarrow> (LockFailed, fs)
      | Inr None \<Rightarrow> (LockRemove, fs)
      | Inr (Some r) \<Rightarrow> (LockCheck r, fs))"
| "lock_call flt p alive (LockCheck r) fs =
     (if \<not> flt \<and> alive r then (LockRefused r, fs) else (LockRemove, fs))"
| "lock_call flt p alive LockRemove fs =
     (if flt \<or> lf_entry fs = None then (LockFailed, fs) else (LockStart, unlink_entry fs))"
| "lock_call flt p alive DropOpen fs =
     (if flt then (DropDone, fs)
      else case lf_entry fs of None \<Rightarrow> (DropDone, fs) | Some i \<Rightarrow> (DropOpened i, fs))"
| "lock_call flt p alive (DropOpened i) fs =
     (if \<not> flt \<and> pid_of_contents (lf_contents fs i) = Inr (Some p) then (DropRemove, fs)
      else (DropDone, fs))"
| "lock_call flt p alive DropRemove fs = (DropDone, if flt then fs else unlink_entry fs)"
| "lock_call flt p alive pc fs = (pc, fs)"

section \<open>Daemons that run together\<close>

record lock_sys =
  lk_fs :: lock_fs
  lk_pc :: "nat \<Rightarrow> lock_pc"
  lk_alive :: "nat \<Rightarrow> bool"

text \<open>\<open>Leave\<close> is a daemon that drops its lock on the way out, \<open>Die\<close> one that ends without.\<close>

datatype lock_action = Call nat bool | Spawn nat | Die nat | Leave nat

fun lock_act :: "lock_action \<Rightarrow> lock_sys \<Rightarrow> lock_sys option" where
  "lock_act (Call p flt) s =
     (if lk_alive s p
      then (let (pc, fs) = lock_call flt p (lk_alive s) (lk_pc s p) (lk_fs s)
            in Some (s\<lparr>lk_fs := fs, lk_pc := (lk_pc s)(p := pc)\<rparr>))
      else None)"
| "lock_act (Spawn p) s =
     (if lk_alive s p then None
      else Some (s\<lparr>lk_alive := (lk_alive s)(p := True), lk_pc := (lk_pc s)(p := LockStart)\<rparr>))"
| "lock_act (Die p) s =
     (if lk_alive s p then Some (s\<lparr>lk_alive := (lk_alive s)(p := False)\<rparr>) else None)"
| "lock_act (Leave p) s =
     (if lk_alive s p \<and> lk_pc s p = LockHeld then Some (s\<lparr>lk_pc := (lk_pc s)(p := DropOpen)\<rparr>) else None)"

inductive lock_path :: "lock_sys \<Rightarrow> lock_action list \<Rightarrow> lock_sys \<Rightarrow> bool" where
  lock_stop: "lock_path s [] s"
| lock_more: "lock_act a s = Some s' \<Longrightarrow> lock_path s' as t \<Longrightarrow> lock_path s (a # as) t"

inductive_cases lock_path_consE: "lock_path s (a # as) t"
inductive_simps lock_path_simps: "lock_path s [] t" "lock_path s (a # as) t"

text \<open>One daemon alone: \<open>n\<close> calls, none of which fails.\<close>

fun acquire_calls :: "nat \<Rightarrow> nat \<Rightarrow> (nat \<Rightarrow> bool) \<Rightarrow> lock_pc \<times> lock_fs \<Rightarrow> lock_pc \<times> lock_fs" where
  "acquire_calls 0 p alive c = c"
| "acquire_calls (Suc n) p alive c = acquire_calls n p alive (lock_call False p alive (fst c) (snd c))"

definition holds_lock :: "lock_sys \<Rightarrow> nat \<Rightarrow> bool" where
  "holds_lock s p \<longleftrightarrow> lk_alive s p \<and> lk_pc s p = LockHeld"

text \<open>The owner's file is in place, complete and readable.\<close>

definition lock_in_place :: "lock_fs \<Rightarrow> nat \<Rightarrow> nat \<Rightarrow> bool" where
  "lock_in_place fs p i \<longleftrightarrow>
     lf_entry fs = Some i \<and> lf_contents fs i = show_nat p @ [CHR 0x0A] \<and> i < lf_fresh fs"

text \<open>What another daemon may be doing without being a danger to the file \<open>i\<close> of \<open>p\<close>.\<close>

fun harmless :: "nat \<Rightarrow> nat \<Rightarrow> lock_pc \<Rightarrow> bool" where
  "harmless p i LockStart = True"
| "harmless p i LockExists = True"
| "harmless p i (LockOpened j) = (j = i)"
| "harmless p i (LockCheck r) = (r = p)"
| "harmless p i (LockRefused _) = True"
| "harmless p i LockFailed = True"
| "harmless p i DropOpen = True"
| "harmless p i (DropOpened j) = (j = i)"
| "harmless p i DropDone = True"
| "harmless p i _ = False"

definition lock_settled :: "lock_sys \<Rightarrow> nat \<Rightarrow> nat \<Rightarrow> bool" where
  "lock_settled s p i \<longleftrightarrow>
     holds_lock s p \<and> p \<le> u32_max \<and> lock_in_place (lk_fs s) p i \<and>
     (\<forall>q. q \<noteq> p \<longrightarrow> lk_alive s q \<longrightarrow> harmless p i (lk_pc s q))"

section \<open>Reading a process id back\<close>

lemma no_prefix_in:
  "\<forall>w\<in>set ws. w \<noteq> [] \<and> \<not> P (hd w) \<Longrightarrow> P c \<Longrightarrow> find (starts_with (c # s)) ws = None"
  by (induction ws) (auto simp: starts_with_def neq_Nil_conv)

lemma str_trim_line:
  assumes "list_all ascii_alnum s" "s \<noteq> []"
  shows "str_trim (s @ [CHR 0x0A]) = s"
proof -
  obtain c cs where s: "s = c # cs" and c: "ascii_alnum c" using assms by (cases s) auto
  have "find (starts_with (c # cs @ [CHR 0x0A])) white_space = None"
    by (rule no_prefix_in [where P = ascii_alnum, OF white_space_ends(1) c])
  then have front: "trim_front white_space n (s @ [CHR 0x0A]) = s @ [CHR 0x0A]" for n
    by (cases n) (simp_all add: s)
  have "find (starts_with (CHR 0x0A # rev s)) (map rev white_space) = Some [CHR 0x0A]"
    by (simp add: white_space_def starts_with_def)
  then have rear: "trim_front (map rev white_space) (Suc n) (CHR 0x0A # rev s) = rev s" for n
    using assms(1) by (simp add: trim_front_none [OF white_space_ends(2)] del: list.map)
  have "str_trim (s @ [CHR 0x0A]) = rev (trim_front (map rev white_space) (Suc (length s)) (CHR 0x0A # rev s))"
    by (simp only: str_trim_def Let_def front) simp
  then show ?thesis by (simp only: rear) simp
qed

lemma show_nat_alnum: "list_all ascii_alnum (show_nat n)"
proof (induction n rule: show_nat.induct)
  case (1 n)
  have "ascii_alnum (digit_char d)" if "d < 10" for d
    using that by (auto simp: ascii_alnum_def digit_char_def Let_def)
  with 1 show ?case by (simp add: show_nat.simps [of n])
qed

lemma pid_line_reads [simp]:
  assumes "p \<le> u32_max"
  shows "pid_of_contents (show_nat p @ [CHR 0x0A]) = Inr (Some p)"
proof -
  have "utf8_valid (show_nat p @ [CHR 0x0A])"
    by (rule utf8_ascii) (simp add: show_nat_ascii byte_in_def)
  moreover have "p \<le> u64_max" using assms by (simp add: u32_max_def u64_max_def)
  ultimately show ?thesis
    using assms by (simp add: pid_of_contents_def parse_u32_def str_trim_line show_nat_alnum parse_u64_show_nat)
qed

section \<open>One daemon alone\<close>

text \<open>Eight calls always suffice: create, open, read, check, remove, create again and two writes.\<close>

definition acquire_alone :: "nat \<Rightarrow> (nat \<Rightarrow> bool) \<Rightarrow> lock_fs \<Rightarrow> lock_pc \<times> lock_fs" where
  "acquire_alone p alive fs = acquire_calls 8 p alive (LockStart, fs)"

lemma acquire_calls_ended [simp]:
  "pc \<in> {LockHeld, LockFailed} \<or> (\<exists>r. pc = LockRefused r) \<Longrightarrow> acquire_calls n p alive (pc, fs) = (pc, fs)"
  by (induction n) auto

lemma acquire_vacant:
  assumes "lf_entry fs = None"
  shows "acquire_calls (Suc (Suc (Suc n))) p alive (LockStart, fs) =
    (LockHeld, fs\<lparr>lf_entry := Some (lf_fresh fs),
       lf_contents := (lf_contents fs)(lf_fresh fs := show_nat p @ [CHR 0x0A]), lf_fresh := Suc (lf_fresh fs)\<rparr>)"
  using assms by (simp add: append_contents_def)

lemma acquire_occupied:
  assumes "lf_entry fs = Some i"
  shows "acquire_alone p alive fs =
    (case pid_of_contents (lf_contents fs i) of
       Inl _ \<Rightarrow> (LockFailed, fs)
     | Inr None \<Rightarrow> acquire_calls 4 p alive (LockStart, unlink_entry fs)
     | Inr (Some r) \<Rightarrow>
         if alive r then (LockRefused r, fs) else acquire_calls 3 p alive (LockStart, unlink_entry fs))"
  using assms
  by (simp add: acquire_alone_def numeral_eq_Suc split: sum.splits option.splits)

text \<open>The process id the lock file records, if it can be read.\<close>

definition recorded_owner :: "lock_fs \<Rightarrow> nat option res" where
  "recorded_owner fs =
     (case lf_entry fs of None \<Rightarrow> Inr None | Some i \<Rightarrow> pid_of_contents (lf_contents fs i))"

text \<open>A daemon that starts alone gets the lock, with its own process id in a complete lock file,
  exactly when the file names no living process; a living owner is reported and an unreadable file is
  an error, and then the file system is left as it was.\<close>
lemma lock_acquired_alone:
  "case acquire_alone p alive fs of (pc, fs') \<Rightarrow>
     (case recorded_owner fs of
        Inl _ \<Rightarrow> pc = LockFailed \<and> fs' = fs
      | Inr None \<Rightarrow> pc = LockHeld \<and> lock_in_place fs' p (lf_fresh fs)
      | Inr (Some r) \<Rightarrow>
          if alive r then pc = LockRefused r \<and> fs' = fs
          else pc = LockHeld \<and> lock_in_place fs' p (lf_fresh fs))"
proof (cases "lf_entry fs")
  case None
  then show ?thesis
    by (simp add: acquire_alone_def acquire_vacant [where n = 5, simplified] recorded_owner_def
        lock_in_place_def)
next
  case (Some i)
  have *: "acquire_calls (Suc (Suc (Suc n))) p alive (LockStart, unlink_entry fs) =
      (LockHeld, fs')" if "fs' = (unlink_entry fs)\<lparr>lf_entry := Some (lf_fresh fs),
         lf_contents := (lf_contents fs)(lf_fresh fs := show_nat p @ [CHR 0x0A]), lf_fresh := Suc (lf_fresh fs)\<rparr>"
    for n fs'
    using acquire_vacant [of "unlink_entry fs" n p alive] that by (simp add: unlink_entry_def)
  show ?thesis
    using Some * [where n = 0] * [where n = 1]
    by (simp add: acquire_occupied recorded_owner_def lock_in_place_def numeral_eq_Suc
        split: sum.split option.split)
qed

section \<open>Several daemons\<close>

lemma harmless_call:
  assumes "harmless p i pc" "q \<noteq> p" "p \<le> u32_max" "lock_in_place fs p i" "alive p"
    and "lock_call False q alive pc fs = (pc', fs')"
  shows "harmless p i pc' \<and> fs' = fs"
  using assms by (cases pc) (auto simp: lock_in_place_def split: if_splits option.splits)

lemma settled_step:
  assumes "lock_settled s p i" "lock_act a s = Some s'" "a \<noteq> Die p" "a \<noteq> Leave p" "\<forall>q. a \<noteq> Call q True"
  shows "lock_settled s' p i"
proof (cases a)
  case (Call q flt)
  have flt: "\<not> flt" using assms(5) Call by auto
  show ?thesis
  proof (cases "q = p")
    case True
    with assms(1,2) Call show ?thesis
      by (auto simp: lock_settled_def holds_lock_def split: if_splits)
  next
    case False
    obtain pc fs where c: "lock_call False q (lk_alive s) (lk_pc s q) (lk_fs s) = (pc, fs)" by fastforce
    have "lk_alive s q" using assms(2) Call by (auto split: if_splits)
    then have "harmless p i pc \<and> fs = lk_fs s"
      using assms(1) False c
      by (intro harmless_call [where q = q and pc = "lk_pc s q"]) (auto simp: lock_settled_def holds_lock_def)
    with assms(1,2) Call False flt c show ?thesis
      by (auto simp: lock_settled_def holds_lock_def split: if_splits)
  qed
qed (use assms in \<open>auto simp: lock_settled_def holds_lock_def split: if_splits\<close>)

lemma settled_path:
  assumes "lock_path s as t" "lock_settled s p i" "Die p \<notin> set as" "Leave p \<notin> set as"
    and "\<forall>q. Call q True \<notin> set as"
  shows "lock_settled t p i"
  using assms by (induction) (auto intro: settled_step)


definition lock_served :: lock_sys where
  "lock_served = \<lparr>lk_fs = \<lparr>lf_entry = Some 0, lf_contents = (\<lambda>_. show_nat 1 @ [CHR 0x0A]), lf_fresh = 1\<rparr>,
     lk_pc = (\<lambda>p. if p = 1 then LockHeld else LockStart), lk_alive = (\<lambda>p. p \<in> {1, 2})\<rparr>"

definition lock_refused :: lock_sys where
  "lock_refused = lock_served\<lparr>lk_pc := (\<lambda>p. if p = 1 then LockHeld else LockStart)(2 := LockRefused 1)\<rparr>"

lemma lock_served_settled: "lock_settled lock_served 1 0"
  by (simp add: lock_settled_def lock_served_def holds_lock_def lock_in_place_def u32_max_def)

lemma lock_served_path:
  "lock_path lock_served [Call 2 False, Call 2 False, Call 2 False, Call 2 False] lock_refused"
  by (simp add: lock_path_simps lock_served_def lock_refused_def pid_line_reads [of 1, simplified]
      u32_max_def)


text \<open>The process id alone does not identify a daemon: one that is given the id of a dead
  predecessor takes itself for the owner and refuses to start.\<close>

theorem lock_refuses_own_id:
  assumes "recorded_owner fs = Inr (Some p)" and "alive p"
  shows "acquire_alone p alive fs = (LockRefused p, fs)"
  using assms by (auto simp: acquire_occupied recorded_owner_def split: option.splits)

text \<open>Exclusion can fail before a lock is settled: a file that is created but not yet written looks
  stale to another daemon.\<close>

definition lock_boot :: lock_sys where
  "lock_boot = \<lparr>lk_fs = \<lparr>lf_entry = None, lf_contents = (\<lambda>_. []), lf_fresh = 0\<rparr>,
     lk_pc = (\<lambda>_. LockStart), lk_alive = (\<lambda>p. p \<in> {1, 2})\<rparr>"

definition lock_race :: "lock_action list" where
  "lock_race =
     [Call 1 False, Call 2 False, Call 2 False, Call 2 False, Call 2 False, Call 2 False, Call 2 False,
      Call 2 False, Call 1 False, Call 1 False]"

theorem lock_race_admits_two:
  "\<exists>t. lock_path lock_boot lock_race t \<and> holds_lock t 1 \<and> holds_lock t 2"
  unfolding lock_boot_def lock_race_def lock_path_simps
  by (simp add: holds_lock_def append_contents_def unlink_entry_def pid_of_contents_def parse_u32_def
      parse_u64_def str_trim_def)

end
