(* ===== verification/Workspace.thy ===== *)
theory Workspace
  imports Host Daemon_Lock "HOL-Library.Sublist"
begin

text \<open>
  \<open>crates/core/src/app/workspace.rs\<close>: the layout of the metadata directory, the search for the
  workspace a path belongs to, and the checks made before a directory is initialised, cloned into
  or served. The lock of the daemon is in \<open>Daemon_Lock\<close>.
\<close>

section \<open>The metadata directory\<close>

definition metadata_dir :: "host_path \<Rightarrow> host_path" where
  "metadata_dir root = root @ [metadata_dir_name]"

definition storage_db_path :: "host_path \<Rightarrow> host_path" where
  "storage_db_path root = metadata_dir root @ [''storage.db'']"

definition socket_link_path :: "host_path \<Rightarrow> host_path" where
  "socket_link_path root = metadata_dir root @ [''socket'']"

definition pid_path :: "host_path \<Rightarrow> host_path" where
  "pid_path root = metadata_dir root @ [''daemon.pid'']"

definition daemon_lock_path :: "host_path \<Rightarrow> host_path" where
  "daemon_lock_path root = metadata_dir root @ [''daemon.lock'']"

definition daemon_log_path :: "host_path \<Rightarrow> host_path" where
  "daemon_log_path root = metadata_dir root @ [''daemon.log'']"

definition workspace_config_path :: "host_path \<Rightarrow> host_path" where
  "workspace_config_path root = metadata_dir root @ [''config.toml'']"

text \<open>The socket lives in \<open>/tmp\<close>, named by a 128-bit hash that is a parameter.\<close>

definition socket_dir :: host_path where
  "socket_dir = [''tmp'']"

definition socket_id_hash :: "(bytes \<Rightarrow> nat) \<Rightarrow> string \<Rightarrow> writer_id \<Rightarrow> nat" where
  "socket_id_hash xxh3_128 workspace_id writer = xxh3_128 (workspace_id @ [CHR 0x00] @ writer)"

definition real_socket_path :: "(bytes \<Rightarrow> nat) \<Rightarrow> string \<Rightarrow> writer_id \<Rightarrow> host_path" where
  "real_socket_path xxh3_128 workspace_id writer =
     socket_dir @ [''ob-'' @ hex_digits 32 (socket_id_hash xxh3_128 workspace_id writer) @ ''.sock'']"

definition remove_if_present :: "host_path \<Rightarrow> unit app" where
  "remove_if_present p =
     on_result (host_remove_file p) (\<lambda>r. case r of
       Inr _ \<Rightarrow> done_app () | Inl k \<Rightarrow> if k = NotFound then done_app () else bail (IoError k))"

definition remove_socket_pointer :: "host_path \<Rightarrow> unit app" where
  "remove_socket_pointer root = remove_if_present (socket_link_path root)"

definition remove_stale_socket_files :: "host_path \<Rightarrow> unit app" where
  "remove_stale_socket_files root =
     on_result (host_read_link (socket_link_path root)) (\<lambda>target.
       then_app (remove_socket_pointer root) (\<lambda>_.
         case target of Inl _ \<Rightarrow> done_app () | Inr p \<Rightarrow> remove_if_present p))"

section \<open>Finding the workspace\<close>

definition ensure_sync_root_exists :: "host_path \<Rightarrow> unit app" where
  "ensure_sync_root_exists root =
     then_app (io_ok (host_stat root)) (\<lambda>n. if is_dir_node n then done_app () else bail (RootNotDirectory root))"

definition canonicalize_existing_dir :: "host_path \<Rightarrow> host_path app" where
  "canonicalize_existing_dir p =
     then_app (io_ok (host_canonicalize p)) (\<lambda>root.
       then_app (ensure_sync_root_exists root) (\<lambda>_. done_app root))"

text \<open>The loop pops one component a round and ends at the root directory.\<close>

function search_upward :: "host_path \<Rightarrow> host_path \<Rightarrow> host_path app" where
  "search_upward start current =
     then_app (host_is_dir (metadata_dir current)) (\<lambda>found.
       if found then done_app current
       else if current = [] then bail (NotInWorkspace start)
       else search_upward start (butlast current))"
  by pat_completeness auto
termination by (relation "measure (\<lambda>(_, current). length current)") auto

declare search_upward.simps [simp del]

definition find_workspace_root :: "host_path \<Rightarrow> host_path app" where
  "find_workspace_root p =
     then_app (io_ok (host_canonicalize p)) (\<lambda>start.
       then_app (host_is_dir start) (\<lambda>is_dir.
         if is_dir then search_upward start start
         else if start = [] then bail (NoParent start)
         else search_upward start (butlast start)))"

section \<open>The database of a workspace\<close>

text \<open>\<open>load_daemon_state\<close> opens the file; a daemon that serves the workspace keeps it locked.\<close>

definition open_db :: "host_path \<Rightarrow> db app" where
  "open_db p =
     then_app (io_ok (host_stat p)) (\<lambda>n.
       case n of HDb locked d \<Rightarrow> if locked then bail (DbError TursoRetryable) else done_app d
       | _ \<Rightarrow> bail (DbError Fatal))"

definition load_daemon_state :: "('d, 'sv) ext \<Rightarrow> host_path \<Rightarrow> daemon_state_row app" where
  "load_daemon_state X p = then_app (open_db p) (\<lambda>d. lift_db (load_daemon_state_from_db X d))"

definition create_initialized_database :: "('d, 'sv) ext \<Rightarrow> time_ns \<Rightarrow> host_path \<Rightarrow> daemon_state_row \<Rightarrow> unit app" where
  "create_initialized_database X now p row =
     then_app (io_ok (host_create_dir_all (butlast p))) (\<lambda>_.
       then_app (lift_db (initialize_database X now row)) (\<lambda>d. io_ok (changing (place_new p (HDb False d)))))"

definition configured_workspace_id :: "('d, 'sv) ext \<Rightarrow> host_path \<Rightarrow> string option app" where
  "configured_workspace_id X root =
     then_app (host_try_exists (storage_db_path root)) (\<lambda>present.
       if \<not> present then done_app None
       else then_app (load_daemon_state X (storage_db_path root)) (\<lambda>row. done_app (Some (ds_workspace_id row))))"

definition ensure_sync_root_unconfigured :: "('d, 'sv) ext \<Rightarrow> host_path \<Rightarrow> unit app" where
  "ensure_sync_root_unconfigured X root =
     (let dir = metadata_dir root
      in then_app (host_try_exists dir) (\<lambda>present.
           if \<not> present then done_app ()
           else then_app (host_is_dir dir) (\<lambda>is_dir.
             if \<not> is_dir then bail (ReservedPath dir)
             else on_result (configured_workspace_id X root) (\<lambda>r.
               case r of
                 Inr (Some workspace_id) \<Rightarrow>
                   on_result (open_db (storage_db_path root)) (\<lambda>o'.
                     if (case o' of Inl _ \<Rightarrow> False | Inr d \<Rightarrow> init_appears_incomplete d)
                     then bail (InitFailedBefore workspace_id)
                     else bail (AlreadyConfigured workspace_id))
               | Inr None \<Rightarrow> bail (MetadataExists dir)
               | Inl _ \<Rightarrow> bail (UnreadableMetadata dir)))))"

definition create_metadata_dir :: "host_path \<Rightarrow> unit app" where
  "create_metadata_dir root = io_ok (host_create_dir (metadata_dir root))"

definition ensure_clone_root :: "host_path \<Rightarrow> bool \<Rightarrow> host_path app" where
  "ensure_clone_root root allow_populated =
     then_app (host_try_exists root) (\<lambda>present.
       then_app
         (if present
          then then_app (ensure_sync_root_exists root) (\<lambda>_.
            if allow_populated then done_app ()
            else then_app (io_ok (host_list root)) (\<lambda>names.
              if names \<noteq> [] then bail (CloneRootNotEmpty root) else done_app ()))
          else io_ok (host_create_dir_all root))
         (\<lambda>_. canonicalize_existing_dir root))"

definition load_configured_daemon_state ::
    "('d, 'sv) ext \<Rightarrow> host_path \<Rightarrow> (host_path \<times> daemon_state_row) app" where
  "load_configured_daemon_state X root =
     then_app (ensure_sync_root_exists root) (\<lambda>_.
       then_app (host_try_exists (storage_db_path root)) (\<lambda>present.
         if \<not> present then bail (NotConfigured (storage_db_path root))
         else then_app (load_daemon_state X (storage_db_path root)) (\<lambda>row.
           done_app (storage_db_path root, row))))"

definition write_pid :: "nat \<Rightarrow> host_path \<Rightarrow> unit app" where
  "write_pid pid root = host_write (pid_path root) (show_nat pid @ [CHR 0x0A])"

definition remove_pid :: "host_path \<Rightarrow> unit app" where
  "remove_pid root = on_result (host_remove_file (pid_path root)) (\<lambda>_. done_app ())"

section \<open>Lemmas: programs that only look\<close>

abbreviation keeps_tree :: "(host \<Rightarrow> 'r \<times> host) \<Rightarrow> bool" where
  "keeps_tree \<equiv> steps_within (=)"

interpretation same: tree_steps "(=)"
  by unfold_locales auto

lemmas keeps_tree_simple [simp] = same.within_simple
lemmas keeps_tree_on_result [intro] = same.within_on_result
lemmas keeps_tree_then [intro] = same.within_then
lemmas keeps_tree_io_ok [intro] = same.within_io_ok

lemma keeps_tree_calls [simp]:
  "keeps_tree (host_canonicalize p)" "keeps_tree (host_stat p)" "keeps_tree (host_read_link p)"
  "keeps_tree (host_read_to_string p)" "keeps_tree (host_list p)"
  by (simp_all add: host_canonicalize_def host_stat_def host_read_link_def host_read_to_string_def host_list_def)

lemma keeps_tree_tests [simp]:
  "keeps_tree (host_is_dir p)" "keeps_tree (host_try_exists p)" "keeps_tree (host_exists p)"
  unfolding host_is_dir_def host_try_exists_def host_exists_def
  by (auto intro!: keeps_tree_on_result split: sum.split)

lemma keeps_tree_search [simp]: "keeps_tree (search_upward start current)"
  by (induction start current rule: search_upward.induct)
    (subst search_upward.simps, auto intro!: keeps_tree_then)

lemma keeps_tree_checks [simp]:
  "keeps_tree (ensure_sync_root_exists root)" "keeps_tree (open_db p)"
  unfolding ensure_sync_root_exists_def open_db_def
  by (auto intro!: keeps_tree_then split: host_node.split)

lemma keeps_tree_state [simp]:
  "keeps_tree (load_daemon_state X p)" "keeps_tree (canonicalize_existing_dir q)" "keeps_tree (find_workspace_root q)"
  unfolding load_daemon_state_def canonicalize_existing_dir_def find_workspace_root_def
  by (auto intro!: keeps_tree_then)

lemma keeps_tree_configured [simp]:
  "keeps_tree (configured_workspace_id X root)" "keeps_tree (load_configured_daemon_state X root)"
  unfolding configured_workspace_id_def load_configured_daemon_state_def
  by (auto intro!: keeps_tree_then)

lemma keeps_tree_unconfigured [simp]: "keeps_tree (ensure_sync_root_unconfigured X root)"
  unfolding ensure_sync_root_unconfigured_def Let_def
  by (auto intro!: keeps_tree_then keeps_tree_on_result split: sum.split option.split)

lemma keeps_treeD: "keeps_tree m \<Longrightarrow> m h = (r, h') \<Longrightarrow> h_nodes h' = h_nodes h \<and> h_faults h' = h_faults h"
  using steps_withinD [of "(=)" m h r h'] by auto

section \<open>Finding the nearest workspace\<close>

definition workspace_at :: "host_tree \<Rightarrow> host_path \<Rightarrow> bool" where
  "workspace_at t root \<longleftrightarrow> (case stat_node (metadata_dir root) t of Inl _ \<Rightarrow> False | Inr n \<Rightarrow> is_dir_node n)"

text \<open>The directory the search starts from: the path itself or, for a file, its parent.\<close>

definition start_dir :: "host_tree \<Rightarrow> host_path \<Rightarrow> host_path" where
  "start_dir t q = (case stat_node q t of Inr (HDir _) \<Rightarrow> q | _ \<Rightarrow> butlast q)"

lemma no_faults_keeps: "keeps_tree m \<Longrightarrow> m h = (r, h') \<Longrightarrow> no_faults h \<Longrightarrow> no_faults h'"
  using keeps_treeD by (fastforce simp: no_faults_def)

lemma host_is_dir_value:
  "no_faults h \<Longrightarrow> fst (host_is_dir p h) =
     Inr (case stat_node p (h_nodes h) of Inl _ \<Rightarrow> False | Inr n \<Rightarrow> is_dir_node n)"
  by (simp add: host_is_dir_def host_stat_def reading_def no_faults_def app_simps split: sum.split)

lemma prefix_butlast_iff: "cs \<noteq> [] \<Longrightarrow> prefix r cs \<longleftrightarrow> r = cs \<or> prefix r (butlast cs)"
  by (metis append_butlast_last_id prefix_snoc)

definition nearest_workspace :: "host_tree \<Rightarrow> host_path \<Rightarrow> app_error + host_path \<Rightarrow> bool" where
  "nearest_workspace t dir r \<longleftrightarrow>
     (case r of
        Inr root \<Rightarrow> workspace_at t root \<and> prefix root dir \<and>
          (\<forall>r'. workspace_at t r' \<and> prefix r' dir \<longrightarrow> prefix r' root)
      | Inl _ \<Rightarrow> \<forall>r'. prefix r' dir \<longrightarrow> \<not> workspace_at t r')"

lemma search_upward_nearest:
  assumes "no_faults h"
  shows "nearest_workspace (h_nodes h) current (fst (search_upward start current h))"
  using assms
proof (induction start current arbitrary: h rule: search_upward.induct)
  case (1 start current)
  let ?t = "h_nodes h"
  obtain h' where d: "host_is_dir (metadata_dir current) h = (Inr (workspace_at ?t current), h')"
    using host_is_dir_value [OF 1(2), of "metadata_dir current"]
    by (metis workspace_at_def eq_fst_iff)
  have t: "h_nodes h' = ?t" and nf: "no_faults h'"
    using keeps_treeD [OF keeps_tree_tests(1) d] no_faults_keeps [OF keeps_tree_tests(1) d 1(2)] by auto
  show ?case
  proof (cases "workspace_at ?t current \<or> current = []")
    case True
    then show ?thesis
      by (subst search_upward.simps) (auto simp: then_app_def d done_app_def bail_def nearest_workspace_def)
  next
    case False
    have "nearest_workspace ?t (butlast current) (fst (search_upward start (butlast current) h'))"
      using "1.IH" [OF _ _ nf] False t by auto
    moreover have "fst (search_upward start current h) = fst (search_upward start (butlast current) h')"
      using False by (subst search_upward.simps) (simp add: then_app_def d)
    ultimately show ?thesis
      using False by (auto simp: nearest_workspace_def prefix_butlast_iff split: sum.splits)
  qed
qed

text \<open>(C26) A command is applied to the innermost directory at or above the given path that holds a
  metadata directory, and is refused when there is none.\<close>
theorem workspace_found_nearest:
  assumes "no_faults h" and "real_path p (h_nodes h) = Inr q"
  shows "nearest_workspace (h_nodes h) (start_dir (h_nodes h) q) (fst (find_workspace_root p h))"
proof -
  let ?t = "h_nodes h"
  obtain h1 where c: "host_canonicalize p h = (Inr q, h1)"
    using assms by (simp add: host_canonicalize_def reading_def no_faults_def)
  have t1: "h_nodes h1 = ?t" and nf1: "no_faults h1"
    using keeps_treeD [OF keeps_tree_calls(1) c] no_faults_keeps [OF keeps_tree_calls(1) c assms(1)] by auto
  define b where "b = (case stat_node q ?t of Inl _ \<Rightarrow> False | Inr n \<Rightarrow> is_dir_node n)"
  have root: "b" if "q = []" using that by (simp add: b_def stat_node_def real_path_def node_at_def)
  have start: "start_dir ?t q = (if b then q else butlast q)"
    by (auto simp: b_def start_dir_def split: sum.split host_node.split)
  obtain h2 where d: "host_is_dir q h1 = (Inr b, h2)"
    using host_is_dir_value [OF nf1, of q] t1 by (metis b_def eq_fst_iff)
  have t2: "h_nodes h2 = ?t" and nf2: "no_faults h2"
    using keeps_treeD [OF keeps_tree_tests(1) d] no_faults_keeps [OF keeps_tree_tests(1) d nf1] t1 by auto
  have "fst (find_workspace_root p h) = fst (search_upward q (start_dir ?t q) h2)"
    using root by (auto simp: find_workspace_root_def then_app_def io_ok_def on_result_def c d done_app_def start)
  then show ?thesis using search_upward_nearest [OF nf2] t2 by metis
qed

definition demo_host :: host where
  "demo_host = \<lparr>h_nodes = [([''w''], HDir 493), ([''w'', ''.opbox''], HDir 448), ([''w'', ''a''], HDir 493),
       ([''w'', ''a'', ''.opbox''], HFile 420 []), ([''l''], HLink [''w'', ''a''])],
     h_calls = 0, h_faults = (\<lambda>_. False), h_trace = [], h_config_env = None,
     h_config_base = Some [''home''], h_cwd = [''w''], h_env = (\<lambda>_. None), h_out = []\<rparr>"

lemma demo_lookup:
  "no_faults demo_host" "real_path [''l''] (h_nodes demo_host) = Inr [''w'', ''a'']"
  "start_dir (h_nodes demo_host) [''w'', ''a''] = [''w'', ''a'']"
  "stat_node (metadata_dir [''l'']) (h_nodes demo_host) \<noteq> Inl NotFound"
  by (simp_all add: no_faults_def demo_host_def real_path_def node_at_def start_dir_def stat_node_def
      metadata_dir_def metadata_dir_name_def numeral_eq_Suc)

theorem workspace_found_nearest_witness:
  "nearest_workspace (h_nodes demo_host) [''w'', ''a''] (fst (find_workspace_root [''l''] demo_host))"
  using workspace_found_nearest [OF demo_lookup(1,2)] by (simp only: demo_lookup(3))

section \<open>A root that is not configured yet\<close>

text \<open>What the check before a workspace is created should say of a tree.\<close>

definition what_remains :: "('d, 'sv) ext \<Rightarrow> host_path \<Rightarrow> host_tree \<Rightarrow> app_error + unit" where
  "what_remains X root t =
     (case stat_node (metadata_dir root) t of
        Inl k \<Rightarrow> if k = NotFound then Inr () else Inl (IoError k)
      | Inr n \<Rightarrow>
          if \<not> is_dir_node n then Inl (ReservedPath (metadata_dir root))
          else (case stat_node (storage_db_path root) t of
              Inl k \<Rightarrow> Inl (if k = NotFound then MetadataExists (metadata_dir root)
                else UnreadableMetadata (metadata_dir root))
            | Inr (HDb False d) \<Rightarrow>
                (case load_daemon_state_from_db X d of
                   Inl _ \<Rightarrow> Inl (UnreadableMetadata (metadata_dir root))
                 | Inr row \<Rightarrow> Inl (if init_appears_incomplete d then InitFailedBefore (ds_workspace_id row)
                     else AlreadyConfigured (ds_workspace_id row)))
            | Inr _ \<Rightarrow> Inl (UnreadableMetadata (metadata_dir root))))"

lemma no_faults_counts [simp]: "no_faults (h\<lparr>h_calls := n\<rparr>) = no_faults h"
  by (simp add: no_faults_def)

lemma host_stat_value: "no_faults h \<Longrightarrow> host_stat p h = (stat_node p (h_nodes h), h\<lparr>h_calls := Suc (h_calls h)\<rparr>)"
  by (simp add: host_stat_def reading_def no_faults_def)

text \<open>(C25) The check before a workspace is created says exactly what stands in its way: nothing only
  when nothing is in the place of the metadata directory, a readable database with its workspace,
  finished or not, and otherwise what it found; whatever it finds, it changes nothing.\<close>
theorem unconfigured_check:
  assumes "no_faults h"
  shows "fst (ensure_sync_root_unconfigured X root h) = what_remains X root (h_nodes h) \<and>
    h_nodes (snd (ensure_sync_root_unconfigured X root h)) = h_nodes h"
proof
  show "h_nodes (snd (ensure_sync_root_unconfigured X root h)) = h_nodes h"
    using keeps_treeD [OF keeps_tree_unconfigured] by (metis prod.collapse)
  show "fst (ensure_sync_root_unconfigured X root h) = what_remains X root (h_nodes h)"
    using assms
    by (simp add: ensure_sync_root_unconfigured_def Let_def app_simps host_try_exists_def host_stat_value
        host_is_dir_def configured_workspace_id_def load_daemon_state_def open_db_def lift_db_def what_remains_def
        split: sum.split host_node.split)
qed

theorem unconfigured_check_witness:
  "fst (ensure_sync_root_unconfigured (demo_ext (\<lambda>_. [])) [''l''] demo_host) = Inl (ReservedPath [''l'', ''.opbox''])"
proof -
  have "stat_node (metadata_dir [''l'']) (h_nodes demo_host) = Inr (HFile 420 [])"
    by (simp add: demo_host_def real_path_def node_at_def stat_node_def metadata_dir_def metadata_dir_name_def
        numeral_eq_Suc)
  then have "what_remains (demo_ext (\<lambda>_. [])) [''l''] (h_nodes demo_host) = Inl (ReservedPath [''l'', ''.opbox''])"
    by (simp add: what_remains_def metadata_dir_def metadata_dir_name_def)
  then show ?thesis using unconfigured_check [OF demo_lookup(1), of "demo_ext (\<lambda>_. [])" "[''l'']"] by simp
qed

end
