(* ===== verification/Configuration.thy ===== *)
theory Configuration
  imports Workspace S2_Errors
begin

text \<open>
  \<open>crates/core/src/app/user_config.rs\<close>, the connection part of \<open>app/s2.rs\<close> and the configuration
  commands of \<open>crates/client/src/main.rs\<close>: configuration files, the stack of workspace, metadata
  and user settings, validation, and \<open>ob config\<close>. The TOML printer and parser, the S2 name and
  endpoint parsers and the log filter parser are the parameters in \<open>cli_ext\<close>.
\<close>

section \<open>Keys and values\<close>

datatype user_config_key =
    Basin | DefaultBasin | AccessToken | AccountEndpoint | BasinEndpoint | DaemonLogLevel
  | ClientLogLevel | SkipRetentionChecks

fun key_as_str :: "user_config_key \<Rightarrow> string" where
  "key_as_str Basin = ''basin''"
| "key_as_str DefaultBasin = ''default-basin''"
| "key_as_str AccessToken = ''access-token''"
| "key_as_str AccountEndpoint = ''account-endpoint''"
| "key_as_str BasinEndpoint = ''basin-endpoint''"
| "key_as_str DaemonLogLevel = ''daemon-log-level''"
| "key_as_str ClientLogLevel = ''client-log-level''"
| "key_as_str SkipRetentionChecks = ''skip-retention-checks''"

record user_config =
  uc_basin :: "string option"
  uc_default_basin :: "string option"
  uc_access_token :: "string option"
  uc_account_endpoint :: "string option"
  uc_basin_endpoint :: "string option"
  uc_daemon_log_level :: "string option"
  uc_client_log_level :: "string option"
  uc_skip_retention_checks :: "string option"

definition default_config :: user_config where
  "default_config = \<lparr>uc_basin = None, uc_default_basin = None, uc_access_token = None,
     uc_account_endpoint = None, uc_basin_endpoint = None, uc_daemon_log_level = None,
     uc_client_log_level = None, uc_skip_retention_checks = None\<rparr>"

fun config_get :: "user_config_key \<Rightarrow> user_config \<Rightarrow> string option" where
  "config_get Basin c = uc_basin c"
| "config_get DefaultBasin c = uc_default_basin c"
| "config_get AccessToken c = uc_access_token c"
| "config_get AccountEndpoint c = uc_account_endpoint c"
| "config_get BasinEndpoint c = uc_basin_endpoint c"
| "config_get DaemonLogLevel c = uc_daemon_log_level c"
| "config_get ClientLogLevel c = uc_client_log_level c"
| "config_get SkipRetentionChecks c = uc_skip_retention_checks c"

text \<open>\<open>set\<close> and \<open>unset\<close> write the same field.\<close>

fun config_put :: "user_config_key \<Rightarrow> string option \<Rightarrow> user_config \<Rightarrow> user_config" where
  "config_put Basin v c = c\<lparr>uc_basin := v\<rparr>"
| "config_put DefaultBasin v c = c\<lparr>uc_default_basin := v\<rparr>"
| "config_put AccessToken v c = c\<lparr>uc_access_token := v\<rparr>"
| "config_put AccountEndpoint v c = c\<lparr>uc_account_endpoint := v\<rparr>"
| "config_put BasinEndpoint v c = c\<lparr>uc_basin_endpoint := v\<rparr>"
| "config_put DaemonLogLevel v c = c\<lparr>uc_daemon_log_level := v\<rparr>"
| "config_put ClientLogLevel v c = c\<lparr>uc_client_log_level := v\<rparr>"
| "config_put SkipRetentionChecks v c = c\<lparr>uc_skip_retention_checks := v\<rparr>"

definition config_set :: "user_config_key \<Rightarrow> string \<Rightarrow> user_config \<Rightarrow> user_config" where
  "config_set k v = config_put k (Some v)"

definition config_unset :: "user_config_key \<Rightarrow> user_config \<Rightarrow> user_config" where
  "config_unset k = config_put k None"

definition all_keys :: "user_config_key list" where
  "all_keys = [Basin, DefaultBasin, AccessToken, AccountEndpoint, BasinEndpoint, DaemonLogLevel,
     ClientLogLevel, SkipRetentionChecks]"

definition config_entries :: "user_config \<Rightarrow> (user_config_key \<times> string) list" where
  "config_entries c =
     List.map_filter (\<lambda>k. map_option (\<lambda>v. (k, v)) (config_get k c)) all_keys"

definition ascii_lower :: "char \<Rightarrow> char" where
  "ascii_lower c = (let n = of_char c :: nat in if 65 \<le> n \<and> n \<le> 90 then char_of (n + 32) else c)"

definition parse_bool_config_value :: "string \<Rightarrow> string \<Rightarrow> app_error + bool" where
  "parse_bool_config_value key v =
     (let l = map ascii_lower v
      in if l \<in> {''true'', ''1'', ''yes'', ''on''} then Inr True
         else if l \<in> {''false'', ''0'', ''no'', ''off''} then Inr False
         else Inl (InvalidValue key v))"

definition skip_retention_checks :: "user_config \<Rightarrow> user_config \<Rightarrow> app_error + bool" where
  "skip_retention_checks workspace user =
     (case uc_skip_retention_checks workspace of
        Some v \<Rightarrow> parse_bool_config_value (key_as_str SkipRetentionChecks) v
      | None \<Rightarrow> (case uc_skip_retention_checks user of
            Some v \<Rightarrow> parse_bool_config_value (key_as_str SkipRetentionChecks) v
          | None \<Rightarrow> Inr False))"

section \<open>Configuration files\<close>

record cli_ext =
  cx_toml_parse :: "bytes \<Rightarrow> user_config option"
  cx_toml_print :: "user_config \<Rightarrow> bytes option"
  cx_basin_name :: "string \<Rightarrow> string option"
  cx_account_endpoint_ok :: "string \<Rightarrow> bool"
  cx_basin_endpoint_ok :: "string \<Rightarrow> bool"
  cx_endpoints_ok :: "string \<Rightarrow> string \<Rightarrow> bool"
  cx_env_filter_ok :: "string \<Rightarrow> bool"

text \<open>What is printed is UTF-8 and reads back.\<close>

definition toml_ok :: "cli_ext \<Rightarrow> bool" where
  "toml_ok E \<longleftrightarrow> (\<forall>c b. cx_toml_print E c = Some b \<longrightarrow> cx_toml_parse E b = Some c \<and> utf8_valid b)"

definition lift_app :: "app_error + 'a \<Rightarrow> 'a app" where
  "lift_app r = (case r of Inl e \<Rightarrow> bail e | Inr x \<Rightarrow> done_app x)"

definition user_config_dir :: "host_path app" where
  "user_config_dir h =
     (case h_config_env h of
        Some p \<Rightarrow> (Inr p, h)
      | None \<Rightarrow> (case h_config_base h of None \<Rightarrow> (Inl NoConfigDir, h) | Some p \<Rightarrow> (Inr (p @ [''opbox'']), h)))"

definition user_config_path :: "host_path app" where
  "user_config_path = then_app user_config_dir (\<lambda>d. done_app (d @ [''config.toml'']))"

definition load_user_config_from_path :: "cli_ext \<Rightarrow> host_path \<Rightarrow> user_config app" where
  "load_user_config_from_path E p =
     on_result (host_read_to_string p) (\<lambda>r. case r of
       Inl k \<Rightarrow> if k = NotFound then done_app default_config else bail (IoError k)
     | Inr b \<Rightarrow> (case cx_toml_parse E b of None \<Rightarrow> bail TomlError | Some c \<Rightarrow> done_app c))"

definition load_user_config :: "cli_ext \<Rightarrow> user_config app" where
  "load_user_config E = then_app user_config_path (load_user_config_from_path E)"

text \<open>The modes 0700 and 0600.\<close>

definition secure_config_dir :: "host_path \<Rightarrow> unit raw" where
  "secure_config_dir p = host_set_permissions p 448"

definition write_config_file :: "host_path \<Rightarrow> bytes \<Rightarrow> unit app" where
  "write_config_file p body =
     then_app (io_ok (host_open_truncate 384 p)) (\<lambda>_.
       then_app (io_ok (host_set_permissions p 384)) (\<lambda>_. io_ok (host_write_all p body)))"

definition save_user_config_to_path :: "cli_ext \<Rightarrow> user_config \<Rightarrow> host_path \<Rightarrow> unit app" where
  "save_user_config_to_path E c p =
     then_app
       (if p = [] then done_app ()
        else then_app (io_ok (host_create_dir_all (butlast p))) (\<lambda>_. io_ok (secure_config_dir (butlast p))))
       (\<lambda>_. case cx_toml_print E c of None \<Rightarrow> bail TomlError | Some body \<Rightarrow> write_config_file p body)"

definition save_user_config :: "cli_ext \<Rightarrow> user_config \<Rightarrow> host_path app" where
  "save_user_config E c =
     then_app user_config_path (\<lambda>p. then_app (save_user_config_to_path E c p) (\<lambda>_. done_app p))"

section \<open>The connection to S2\<close>

record s2_connection =
  sc_access_token :: string
  sc_account_endpoint :: "string option"
  sc_basin_endpoint :: "string option"

definition or_else :: "'a option \<Rightarrow> 'a option \<Rightarrow> 'a option" where
  "or_else x y = (case x of Some _ \<Rightarrow> x | None \<Rightarrow> y)"

definition from_workspace_or_user_config ::
    "user_config \<Rightarrow> string option \<Rightarrow> string option \<Rightarrow> user_config \<Rightarrow> app_error + s2_connection" where
  "from_workspace_or_user_config workspace metadata_account metadata_basin user =
     (case or_else (uc_access_token workspace) (uc_access_token user) of
        None \<Rightarrow> Inl NoAccessToken
      | Some token \<Rightarrow> Inr \<lparr>sc_access_token = token,
          sc_account_endpoint =
            or_else (or_else (uc_account_endpoint workspace) metadata_account) (uc_account_endpoint user),
          sc_basin_endpoint =
            or_else (or_else (uc_basin_endpoint workspace) metadata_basin) (uc_basin_endpoint user)\<rparr>)"

definition from_user_config :: "user_config \<Rightarrow> app_error + s2_connection" where
  "from_user_config user = from_workspace_or_user_config default_config None None user"

definition endpoint_pair_for_metadata :: "s2_connection \<Rightarrow> string option \<times> string option" where
  "endpoint_pair_for_metadata c =
     (case (sc_account_endpoint c, sc_basin_endpoint c) of
        (Some a, Some b) \<Rightarrow> (Some a, Some b)
      | _ \<Rightarrow> (None, None))"

text \<open>What the S2 client is built from: a token, five attempts a request, and endpoints of its own
  only when both are set.\<close>

record s2_client_config =
  s2c_token :: string
  s2c_max_attempts :: nat
  s2c_endpoints :: "(string \<times> string) option"

definition s2_client_from_config :: "cli_ext \<Rightarrow> s2_connection \<Rightarrow> app_error + s2_client_config" where
  "s2_client_from_config E c =
     (let base = \<lparr>s2c_token = sc_access_token c, s2c_max_attempts = 5, s2c_endpoints = None\<rparr>
      in case (sc_account_endpoint c, sc_basin_endpoint c) of
           (Some a, Some b) \<Rightarrow>
             if \<not> cx_account_endpoint_ok E a \<or> \<not> cx_basin_endpoint_ok E b \<or> \<not> cx_endpoints_ok E a b
             then Inl EndpointError else Inr (base\<lparr>s2c_endpoints := Some (a, b)\<rparr>)
         | _ \<Rightarrow> Inr base)"

datatype retention_policy = Infinite | Age nat
datatype stream_retention_summary = RetentionAge nat | RetentionUnspecified
datatype daemon_warning =
    OpsStreamRetentionNotInfinite stream_retention_summary
  | BasinDefaultStreamRetentionNotInfinite stream_retention_summary

fun retention_warning_summary :: "retention_policy option \<Rightarrow> stream_retention_summary option" where
  "retention_warning_summary (Some Infinite) = None"
| "retention_warning_summary (Some (Age seconds)) = Some (RetentionAge seconds)"
| "retention_warning_summary None = Some RetentionUnspecified"

text \<open>A stream configuration is its retention policy, a basin configuration its default stream's.\<close>

definition stream_config_retention_warning :: "retention_policy option \<Rightarrow> daemon_warning option" where
  "stream_config_retention_warning policy =
     map_option OpsStreamRetentionNotInfinite (retention_warning_summary policy)"

definition basin_config_retention_warning :: "retention_policy option option \<Rightarrow> daemon_warning option" where
  "basin_config_retention_warning default_stream =
     map_option BasinDefaultStreamRetentionNotInfinite
       (retention_warning_summary (case default_stream of None \<Rightarrow> None | Some policy \<Rightarrow> policy))"

section \<open>Settings of a new workspace\<close>

record config_overrides =
  co_basin :: "string option"
  co_access_token :: "string option"
  co_account_endpoint :: "string option"
  co_basin_endpoint :: "string option"

definition apply_missing :: "config_overrides \<Rightarrow> config_overrides \<Rightarrow> config_overrides" where
  "apply_missing o1 fallback =
     \<lparr>co_basin = or_else (co_basin o1) (co_basin fallback),
      co_access_token = or_else (co_access_token o1) (co_access_token fallback),
      co_account_endpoint = or_else (co_account_endpoint o1) (co_account_endpoint fallback),
      co_basin_endpoint = or_else (co_basin_endpoint o1) (co_basin_endpoint fallback)\<rparr>"

text \<open>An environment variable is absent, not Unicode, or a string.\<close>

definition env_config_value :: "string \<Rightarrow> string option app" where
  "env_config_value name h =
     (case h_env h name of
        None \<Rightarrow> (Inr None, h)
      | Some (Inl _) \<Rightarrow> (Inl (NotUtf8 name), h)
      | Some (Inr v) \<Rightarrow> (Inr (Some v), h))"

definition s2_env_workspace_config_overrides :: "config_overrides app" where
  "s2_env_workspace_config_overrides =
     then_app (env_config_value ''S2_BASIN'') (\<lambda>b.
       then_app (env_config_value ''S2_ACCESS_TOKEN'') (\<lambda>t.
         then_app (env_config_value ''S2_ACCOUNT_ENDPOINT'') (\<lambda>a.
           then_app (env_config_value ''S2_BASIN_ENDPOINT'') (\<lambda>e.
             done_app \<lparr>co_basin = b, co_access_token = t, co_account_endpoint = a, co_basin_endpoint = e\<rparr>))))"

definition with_s2_env_fallbacks :: "config_overrides \<Rightarrow> config_overrides app" where
  "with_s2_env_fallbacks o1 =
     then_app s2_env_workspace_config_overrides (\<lambda>fallback. done_app (apply_missing o1 fallback))"

definition parse_basin_config_value :: "cli_ext \<Rightarrow> string \<Rightarrow> string \<Rightarrow> app_error + string" where
  "parse_basin_config_value E key v =
     (case cx_basin_name E v of None \<Rightarrow> Inl (InvalidValue key v) | Some b \<Rightarrow> Inr b)"

definition basin_from_config_stack :: "cli_ext \<Rightarrow> user_config \<Rightarrow> user_config \<Rightarrow> app_error + string" where
  "basin_from_config_stack E workspace user =
     (case uc_basin workspace of
        Some v \<Rightarrow> parse_basin_config_value E (key_as_str Basin) v
      | None \<Rightarrow> (case uc_default_basin user of
            Some v \<Rightarrow> parse_basin_config_value E (key_as_str DefaultBasin) v
          | None \<Rightarrow> Inl NoBasin))"

fun value_ok :: "cli_ext \<Rightarrow> user_config_key \<Rightarrow> string \<Rightarrow> bool" where
  "value_ok E Basin v = (cx_basin_name E v \<noteq> None)"
| "value_ok E DefaultBasin v = (cx_basin_name E v \<noteq> None)"
| "value_ok E AccessToken v = True"
| "value_ok E AccountEndpoint v = cx_account_endpoint_ok E v"
| "value_ok E BasinEndpoint v = cx_basin_endpoint_ok E v"
| "value_ok E DaemonLogLevel v = cx_env_filter_ok E v"
| "value_ok E ClientLogLevel v = cx_env_filter_ok E v"
| "value_ok E SkipRetentionChecks v =
     (case parse_bool_config_value (key_as_str SkipRetentionChecks) v of Inl _ \<Rightarrow> False | Inr _ \<Rightarrow> True)"

definition validate_config_value :: "cli_ext \<Rightarrow> user_config_key \<Rightarrow> string \<Rightarrow> app_error + unit" where
  "validate_config_value E k v =
     (if v = [] then Inl (EmptyValue (key_as_str k))
      else if CHR 0x0A \<in> set v then Inl (NewlineInValue (key_as_str k))
      else if value_ok E k v then Inr () else Inl (InvalidValue (key_as_str k) v))"

text \<open>One override: validated, then recorded.\<close>

definition override_value ::
    "cli_ext \<Rightarrow> user_config_key \<Rightarrow> string option \<Rightarrow> app_error + user_config \<Rightarrow> app_error + user_config" where
  "override_value E k v r =
     (case r of Inl e \<Rightarrow> Inl e
      | Inr c \<Rightarrow> (case v of None \<Rightarrow> Inr c
          | Some x \<Rightarrow> (case validate_config_value E k x of Inl e \<Rightarrow> Inl e | Inr _ \<Rightarrow> Inr (config_set k x c))))"

definition workspace_config_from_overrides ::
    "cli_ext \<Rightarrow> config_overrides \<Rightarrow> user_config \<Rightarrow> app_error + (user_config \<times> string \<times> s2_connection)" where
  "workspace_config_from_overrides E o1 user =
     (case override_value E BasinEndpoint (co_basin_endpoint o1)
             (override_value E AccountEndpoint (co_account_endpoint o1)
               (override_value E AccessToken (co_access_token o1)
                 (override_value E Basin (co_basin o1) (Inr default_config)))) of
        Inl e \<Rightarrow> Inl e
      | Inr c \<Rightarrow> (case basin_from_config_stack E c user of
            Inl e \<Rightarrow> Inl e
          | Inr basin \<Rightarrow>
              let c' = config_set Basin basin c
              in (case from_workspace_or_user_config c' None None user of
                    Inl e \<Rightarrow> Inl e
                  | Inr connection \<Rightarrow> Inr (c', basin, connection))))"

section \<open>The configuration commands\<close>

datatype config_scope = Global | WorkspaceScope

datatype config_command =
    ConfigPath | ConfigList | ConfigKeys | ConfigGet user_config_key
  | ConfigSet user_config_key string | ConfigUnset user_config_key

fun scope_keys :: "config_scope \<Rightarrow> user_config_key list" where
  "scope_keys Global = [DefaultBasin, AccessToken, AccountEndpoint, BasinEndpoint, DaemonLogLevel,
     ClientLogLevel, SkipRetentionChecks]"
| "scope_keys WorkspaceScope = [Basin, AccessToken, AccountEndpoint, BasinEndpoint, DaemonLogLevel,
     SkipRetentionChecks]"

definition config_scope_path :: "config_scope \<Rightarrow> host_path app" where
  "config_scope_path scope h =
     (case scope of
        Global \<Rightarrow> user_config_path h
      | WorkspaceScope \<Rightarrow>
          then_app (find_workspace_root (h_cwd h)) (\<lambda>root. done_app (workspace_config_path root)) h)"

definition load_scoped_config :: "cli_ext \<Rightarrow> config_scope \<Rightarrow> (user_config \<times> host_path) app" where
  "load_scoped_config E scope =
     then_app (config_scope_path scope) (\<lambda>p.
       then_app (load_user_config_from_path E p) (\<lambda>c. done_app (c, p)))"

definition save_scoped_config :: "cli_ext \<Rightarrow> config_scope \<Rightarrow> user_config \<Rightarrow> host_path app" where
  "save_scoped_config E scope c =
     then_app (config_scope_path scope) (\<lambda>p.
       case scope of
         Global \<Rightarrow> then_app (save_user_config E c) (\<lambda>_. done_app p)
       | WorkspaceScope \<Rightarrow> then_app (save_user_config_to_path E c p) (\<lambda>_. done_app p))"

definition ensure_config_key_allowed :: "config_scope \<Rightarrow> user_config_key \<Rightarrow> app_error + unit" where
  "ensure_config_key_allowed scope k =
     (if k \<in> set (scope_keys scope) then Inr () else Inl (KeyNotAllowed (key_as_str k)))"

definition config_display_value :: "user_config_key \<Rightarrow> string \<Rightarrow> bool \<Rightarrow> string" where
  "config_display_value k v reveal_secret =
     (if k = AccessToken \<and> \<not> reveal_secret then ''<set>'' else v)"

definition config_list_lines :: "config_scope \<Rightarrow> user_config \<Rightarrow> string list" where
  "config_list_lines scope c =
     List.map_filter (\<lambda>k. map_option (\<lambda>v. key_as_str k @ '' = '' @ config_display_value k v False) (config_get k c))
       (scope_keys scope)"

fun print_lines :: "string list \<Rightarrow> unit app" where
  "print_lines [] = done_app ()"
| "print_lines (l # ls) = then_app (print_line l) (\<lambda>_. print_lines ls)"

text \<open>How a path is shown.\<close>

definition display_path :: "host_path \<Rightarrow> string" where
  "display_path p = concat (map (\<lambda>c. CHR ''/'' # c) p)"

fun run_config :: "cli_ext \<Rightarrow> config_scope \<Rightarrow> config_command \<Rightarrow> unit app" where
  "run_config E scope ConfigPath =
     then_app (config_scope_path scope) (\<lambda>p. print_line (display_path p))"
| "run_config E scope ConfigList =
     then_app (load_scoped_config E scope) (\<lambda>(c, _). print_lines (config_list_lines scope c))"
| "run_config E scope ConfigKeys = print_lines (map key_as_str (scope_keys scope))"
| "run_config E scope (ConfigGet k) =
     then_app (lift_app (ensure_config_key_allowed scope k)) (\<lambda>_.
       then_app (load_scoped_config E scope) (\<lambda>(c, _).
         case config_get k c of None \<Rightarrow> done_app () | Some v \<Rightarrow> print_line (config_display_value k v True)))"
| "run_config E scope (ConfigSet k v) =
     then_app (lift_app (ensure_config_key_allowed scope k)) (\<lambda>_.
       then_app (lift_app (validate_config_value E k v)) (\<lambda>_.
         then_app (load_scoped_config E scope) (\<lambda>(c, _).
           then_app (save_scoped_config E scope (config_set k v c)) (\<lambda>p.
             print_line (''set '' @ key_as_str k @ '' in '' @ display_path p)))))"
| "run_config E scope (ConfigUnset k) =
     then_app (lift_app (ensure_config_key_allowed scope k)) (\<lambda>_.
       then_app (load_scoped_config E scope) (\<lambda>(c, _).
         then_app (save_scoped_config E scope (config_unset k c)) (\<lambda>p.
           print_line (''unset '' @ key_as_str k @ '' in '' @ display_path p))))"

section \<open>Lemmas: values and stacks\<close>

lemma config_get_put: "config_get k (config_put k' v c) = (if k = k' then v else config_get k c)"
  by (cases k; cases k') simp_all

lemma all_keys_complete: "k \<in> set all_keys"
  by (cases k) (simp_all add: all_keys_def)

lemma config_entries_exact: "(k, v) \<in> set (config_entries c) \<longleftrightarrow> config_get k c = Some v"
  by (force simp: config_entries_def List.map_filter_def image_iff all_keys_complete)

section \<open>Lemmas: paths after a write\<close>

text \<open>Trees that differ only in permissions and in what is inside files resolve paths alike.\<close>

definition alike :: "host_node option \<Rightarrow> host_node option \<Rightarrow> bool" where
  "alike x y \<longleftrightarrow> x = y \<or> (\<exists>a b. x = Some (HDir a) \<and> y = Some (HDir b)) \<or>
     (\<exists>a b c d. x = Some (HFile a b) \<and> y = Some (HFile c d))"

lemma node_at_update:
  "node_at (AList.update q n t) p = (if p = q \<and> q \<noteq> [] then Some n else node_at t p)"
  by (simp add: node_at_def update_conv')

lemma alike_update:
  "alike (node_at t q) (Some n) \<Longrightarrow> alike (node_at t p) (node_at (AList.update q n t) p)"
  by (auto simp: node_at_update alike_def)

lemma follow_alike:
  assumes "\<forall>p. alike (node_at t p) (node_at t' p)"
  shows "follow t n pre cs = follow t' n pre cs"
  using assms
proof (induction t n pre cs rule: follow.induct)
  case (2 t n pre c cs)
  show ?case
    using spec [OF 2(3), of "pre @ [c]"] 2(1) [OF _ _ 2(3)] 2(2) [OF _ _ _ 2(3)]
    by (cases "node_at t' (pre @ [c])") (auto simp: alike_def split: host_node.split nat.split)
qed simp

lemma real_path_alike: "(\<And>p. alike (node_at t p) (node_at t' p)) \<Longrightarrow> real_path p t = real_path p t'"
  unfolding real_path_def by (rule follow_alike) simp

text \<open>A new file is found at its entry.\<close>

lemma follow_new_file:
  assumes "follow t n pre cs = Inl NotFound" "node_at t q = None"
    and "follow (AList.update q (HFile m b) t) n pre cs = Inr r"
  shows "r = q"
  using assms
proof (induction t n pre cs rule: follow.induct)
  case (2 t n pre c cs)
  have q: "q \<noteq> []" using 2(4) by (auto simp: node_at_def)
  show ?case
  proof (cases "pre @ [c] = q")
    case True
    with 2(3,4,5) q show ?thesis by (auto simp: node_at_update split: if_splits)
  next
    case False
    with 2 show ?thesis
      by (auto simp: node_at_update split: option.splits host_node.splits nat.splits if_splits)
  qed
qed simp

section \<open>Saving and loading a configuration file\<close>

definition private_mode :: "nat \<Rightarrow> bool" where
  "private_mode m \<longleftrightarrow> m = 384 \<or> m = 448"

text \<open>Every file of \<open>t'\<close> with something in it is private or was so in \<open>t\<close>.\<close>

definition exposes_nothing :: "host_tree \<Rightarrow> host_tree \<Rightarrow> bool" where
  "exposes_nothing t t' \<longleftrightarrow>
     (\<forall>p m b. node_at t' p = Some (HFile m b) \<longrightarrow>
        private_mode m \<or> b = [] \<or> node_at t p = Some (HFile m b))"

lemma exposes_refl [simp]: "exposes_nothing t t"
  by (simp add: exposes_nothing_def)

lemma exposes_trans: "exposes_nothing t t1 \<Longrightarrow> exposes_nothing t1 t2 \<Longrightarrow> exposes_nothing t t2"
  unfolding exposes_nothing_def by blast

lemma exposes_update:
  "(\<And>m b. n = HFile m b \<Longrightarrow> private_mode m \<or> b = []) \<Longrightarrow> exposes_nothing t (AList.update q n t)"
  by (auto simp: exposes_nothing_def node_at_update)

lemma exposes_place_new:
  "place_new p n t = (r, t') \<Longrightarrow> (\<And>m b. n = HFile m b \<Longrightarrow> private_mode m \<or> b = []) \<Longrightarrow> exposes_nothing t t'"
  by (auto simp: place_new_def exposes_update split: sum.splits option.splits host_node.splits if_splits)

text \<open>A program whose every step exposes nothing: all trees it adds to the trace are safe.\<close>

definition guarded_at :: "(host \<Rightarrow> 'r \<times> host) \<Rightarrow> host \<Rightarrow> bool" where
  "guarded_at m h \<longleftrightarrow>
     (case m h of (_, h') \<Rightarrow>
        (\<exists>ts. h_trace h' = ts @ h_trace h \<and> (\<forall>t\<in>set ts. exposes_nothing (h_nodes h) t)) \<and>
        exposes_nothing (h_nodes h) (h_nodes h') \<and> h_faults h' = h_faults h)"

definition guarded_program :: "(host \<Rightarrow> 'r \<times> host) \<Rightarrow> bool" where
  "guarded_program m \<longleftrightarrow> (\<forall>h. guarded_at m h)"

lemma guarded_quiet [simp]:
  "guarded_program (done_app x)" "guarded_program (bail e)" "guarded_program (reading f)"
  by (simp_all add: guarded_program_def guarded_at_def done_app_def bail_def reading_def)

lemma guarded_seq_at:
  assumes "guarded_at m h" "m h = (r, h1)" "guarded_at (f r) h1"
  shows "guarded_at (\<lambda>h. case m h of (r, h') \<Rightarrow> f r h') h"
proof -
  obtain r' h' where f: "f r h1 = (r', h')" by fastforce
  with assms obtain ts us where
    "h_trace h1 = ts @ h_trace h" "\<forall>t\<in>set ts. exposes_nothing (h_nodes h) t"
    "exposes_nothing (h_nodes h) (h_nodes h1)" "h_trace h' = us @ h_trace h1"
    "\<forall>t\<in>set us. exposes_nothing (h_nodes h1) t" "exposes_nothing (h_nodes h1) (h_nodes h')"
    and "h_faults h' = h_faults h"
    by (auto simp: guarded_at_def)
  then have "(\<exists>ts. h_trace h' = ts @ h_trace h \<and> (\<forall>t\<in>set ts. exposes_nothing (h_nodes h) t)) \<and>
      exposes_nothing (h_nodes h) (h_nodes h') \<and> h_faults h' = h_faults h"
    by (intro conjI exI [of _ "us @ ts"]) (auto intro: exposes_trans)
  with assms(2) f show ?thesis by (simp add: guarded_at_def)
qed

lemma guarded_seq:
  assumes "guarded_program m" "\<And>r. guarded_program (f r)"
  shows "guarded_program (\<lambda>h. case m h of (r, h') \<Rightarrow> f r h')"
  using assms guarded_seq_at [of m _ _ _ f] unfolding guarded_program_def by (metis surj_pair)

lemma guarded_on_result [intro]:
  "guarded_program m \<Longrightarrow> (\<And>r. guarded_program (f r)) \<Longrightarrow> guarded_program (on_result m f)"
  using guarded_seq [of m f] by (simp add: on_result_def [abs_def])

lemma guarded_then [intro]:
  "guarded_program m \<Longrightarrow> (\<And>x. guarded_program (f x)) \<Longrightarrow> guarded_program (then_app m f)"
  unfolding then_app_on_result by (auto intro!: guarded_on_result split: sum.split)

lemma guarded_io_ok [intro]: "guarded_program m \<Longrightarrow> guarded_program (io_ok m)"
  unfolding io_ok_def by (rule guarded_on_result) (auto split: sum.split)

lemma guarded_changing:
  "(\<And>t r t'. f t = (r, t') \<Longrightarrow> exposes_nothing t t') \<Longrightarrow> guarded_program (changing f)"
  by (fastforce simp: guarded_program_def guarded_at_def changing_def Let_def split: if_splits prod.splits)

lemma guarded_create_dirs: "guarded_program (host_create_dirs ps)"
proof (induction ps)
  case Nil
  then show ?case by (simp add: guarded_program_def guarded_at_def)
next
  case (Cons p ps)
  let ?call = "changing (\<lambda>t. case stat_node p t of
          Inr n \<Rightarrow> (if is_dir_node n then Inr () else Inl AlreadyExists, t)
        | Inl k \<Rightarrow> if k = NotFound then place_new p (HDir 493) t else (Inl k, t))"
  have "guarded_program ?call"
    by (rule guarded_changing) (auto split: sum.splits if_splits intro: exposes_place_new)
  moreover have "guarded_program (case r of Inl k \<Rightarrow> (\<lambda>h. (Inl k, h)) | Inr _ \<Rightarrow> host_create_dirs ps)" for r
    using Cons by (auto simp: guarded_program_def guarded_at_def split: sum.split)
  ultimately have "guarded_program (\<lambda>h. case ?call h of (r, h') \<Rightarrow>
      (case r of Inl k \<Rightarrow> (\<lambda>h. (Inl k, h)) | Inr _ \<Rightarrow> host_create_dirs ps) h')"
    by (rule guarded_seq)
  moreover have "host_create_dirs (p # ps) = (\<lambda>h. case ?call h of (r, h') \<Rightarrow>
      (case r of Inl k \<Rightarrow> (\<lambda>h. (Inl k, h)) | Inr _ \<Rightarrow> host_create_dirs ps) h')"
    by (auto simp: fun_eq_iff split: prod.split sum.split)
  ultimately show ?case by simp
qed

lemma guarded_then_at:
  assumes "guarded_at m h" "\<And>x h'. m h = (Inr x, h') \<Longrightarrow> guarded_at (f x) h'"
  shows "guarded_at (then_app m f) h"
proof (cases "m h")
  case (Pair r h')
  show ?thesis
  proof (cases r)
    case (Inl e)
    with assms(1) Pair show ?thesis by (simp add: guarded_at_def then_app_def)
  next
    case (Inr x)
    have "guarded_at (\<lambda>h. case m h of (r, h') \<Rightarrow> (case r of Inl e \<Rightarrow> bail e | Inr x \<Rightarrow> f x) h') h"
      by (rule guarded_seq_at [OF assms(1) Pair]) (simp add: Inr assms(2) Pair)
    moreover have "(\<lambda>h. case m h of (r, h') \<Rightarrow> (case r of Inl e \<Rightarrow> bail e | Inr x \<Rightarrow> f x) h') = then_app m f"
      by (auto simp: fun_eq_iff then_app_def bail_def split: prod.split sum.split)
    ultimately show ?thesis by simp
  qed
qed

lemma guarded_programD: "guarded_program m \<Longrightarrow> guarded_at m h"
  by (simp add: guarded_program_def)

lemma guarded_open: "private_mode m \<Longrightarrow> guarded_program (host_open_truncate m p)"
  unfolding host_open_truncate_def
  by (rule guarded_changing)
    (auto split: sum.splits host_node.splits if_splits intro: exposes_place_new intro!: exposes_update)

lemma guarded_set_permissions: "private_mode m \<Longrightarrow> guarded_program (host_set_permissions p m)"
  unfolding host_set_permissions_def
  by (rule guarded_changing) (auto split: sum.splits host_node.splits option.splits intro!: exposes_update)

definition private_at :: "host_path \<Rightarrow> host_tree \<Rightarrow> bool" where
  "private_at p t \<longleftrightarrow> (\<forall>m b. stat_node p t = Inr (HFile m b) \<longrightarrow> private_mode m)"

lemma set_permissions_effect:
  assumes "io_ok (host_set_permissions p m) h = (Inr (), h')"
  shows "\<exists>q. real_path p (h_nodes h) = Inr q \<and> real_path p (h_nodes h') = Inr q \<and>
    (\<forall>a b. node_at (h_nodes h') q = Some (HFile a b) \<longrightarrow> a = m \<and> (\<exists>a'. node_at (h_nodes h) q = Some (HFile a' b)))"
proof -
  let ?t = "h_nodes h"
  obtain q n where q: "real_path p ?t = Inr q" "node_at ?t q = Some n"
    and t': "h_nodes h' = (case n of HDir _ \<Rightarrow> AList.update q (HDir m) ?t
      | HFile _ b \<Rightarrow> AList.update q (HFile m b) ?t | _ \<Rightarrow> ?t)"
    using assms by (auto simp: io_ok_def on_result_def host_set_permissions_def changing_def Let_def bail_def
        done_app_def split: if_splits sum.splits option.splits host_node.splits)
  have alike: "alike (node_at ?t r) (node_at (h_nodes h') r)" for r
    using q(2) t' by (cases n; cases "r = q"; cases "q = []") (simp_all add: alike_def node_at_update)
  have "real_path p (h_nodes h') = Inr q"
    using q(1) real_path_alike [of ?t "h_nodes h'" p, OF alike] by simp
  moreover have "\<forall>a b. node_at (h_nodes h') q = Some (HFile a b) \<longrightarrow>
      a = m \<and> (\<exists>a'. node_at ?t q = Some (HFile a' b))"
    using q(2) t' by (cases n; cases "q = []") (simp_all add: node_at_update, simp_all add: node_at_def)
  ultimately show ?thesis using q(1) by blast
qed

lemma private_after_permissions:
  assumes "io_ok (host_set_permissions p m) h = (Inr (), h')" "private_mode m"
  shows "private_at p (h_nodes h')"
  using set_permissions_effect [OF assms(1)] assms(2)
  by (fastforce simp: private_at_def stat_node_def split: option.splits)

lemma guarded_write_all: "private_at p (h_nodes h) \<Longrightarrow> guarded_at (host_write_all p b) h"
  by (fastforce simp: guarded_at_def host_write_all_def changing_def Let_def private_at_def
      intro!: exposes_update split: if_splits sum.splits host_node.splits)

lemma guarded_io_ok_at: "guarded_at m h \<Longrightarrow> guarded_at (io_ok m) h"
  by (auto simp: guarded_at_def io_ok_def on_result_def bail_def done_app_def split: prod.splits sum.splits)

lemma guarded_write_config: "guarded_program (write_config_file p body)"
proof -
  have "guarded_program (then_app (io_ok (host_set_permissions p 384)) (\<lambda>_. io_ok (host_write_all p body)))"
    unfolding guarded_program_def
    by (auto intro!: guarded_then_at guarded_io_ok_at guarded_programD [OF guarded_set_permissions]
        guarded_write_all private_after_permissions simp: private_mode_def)
  moreover have "guarded_program (io_ok (host_open_truncate 384 p))"
    by (rule guarded_io_ok [OF guarded_open]) (simp add: private_mode_def)
  ultimately show ?thesis
    unfolding write_config_file_def by (simp add: guarded_then)
qed

lemma guarded_save: "guarded_program (save_user_config_to_path E c p)"
  unfolding save_user_config_to_path_def host_create_dir_all_def secure_config_dir_def
  by (auto intro!: guarded_then guarded_io_ok guarded_create_dirs guarded_set_permissions guarded_write_config
      simp: private_mode_def split: option.split)

text \<open>(C22) However saving a configuration ends, in every tree on the way every file with something in
  it is readable by its owner only or is as it was before: a token is never written to a file that
  others can read.\<close>
theorem config_never_exposed:
  "case save_user_config_to_path E c p h of (_, h') \<Rightarrow>
     \<exists>ts. h_trace h' = ts @ h_trace h \<and> (\<forall>t\<in>set ts. exposes_nothing (h_nodes h) t)"
  using guarded_save [of E c p] by (auto simp: guarded_program_def guarded_at_def split: prod.splits)

text \<open>What a successful save leaves is what a load finds.\<close>

lemma follow_exists: "follow t n pre cs = Inr q \<Longrightarrow> node_at t pre \<noteq> None \<Longrightarrow> node_at t q \<noteq> None"
proof (induction t n pre cs rule: follow.induct)
  case (2 t n pre c cs)
  have "node_at t [] \<noteq> None" by (simp add: node_at_def)
  with 2 show ?case
    by (auto split: option.splits host_node.splits nat.splits if_splits)
qed simp

lemma real_path_exists: "real_path p t = Inr q \<Longrightarrow> node_at t q \<noteq> None"
  using follow_exists [of t 40 "[]" p q] by (simp add: real_path_def node_at_def)

lemma open_truncate_effect:
  assumes "io_ok (host_open_truncate m p) h = (Inr (), h')" and "real_path p (h_nodes h') = Inr q"
  shows "\<exists>a. node_at (h_nodes h') q = Some (HFile a [])"
proof -
  let ?t = "h_nodes h"
  consider (old) r a b where "real_path p ?t = Inr r" "node_at ?t r = Some (HFile a b)"
      "h_nodes h' = AList.update r (HFile a []) ?t"
    | (fresh) "real_path p ?t = Inl NotFound" "place_new p (HFile m []) ?t = (Inr (), h_nodes h')"
    using assms(1) real_path_exists [of p ?t]
    by (auto simp: io_ok_def on_result_def host_open_truncate_def changing_def Let_def bail_def done_app_def
        stat_node_def split: if_splits sum.splits option.splits host_node.splits prod.splits)
  then show ?thesis
  proof cases
    case old
    have "real_path p ?t = real_path p (h_nodes h')"
      by (rule real_path_alike) (use old in \<open>auto simp: alike_def node_at_update\<close>)
    with old assms(2) have "r = q" by simp
    moreover have "r \<noteq> []" using old(2) by (auto simp: node_at_def)
    ultimately show ?thesis using old(3) by (simp add: node_at_update)
  next
    case fresh
    then obtain r where r: "node_at ?t r = None" "h_nodes h' = AList.update r (HFile m []) ?t"
      by (auto simp: place_new_def split: sum.splits option.splits host_node.splits if_splits)
    then have "q = r"
      using follow_new_file [of ?t 40 "[]" p r m "[]" q] fresh(1) assms(2) by (simp add: real_path_def)
    moreover have "r \<noteq> []" using r(1) by (auto simp: node_at_def)
    ultimately show ?thesis using r by (simp add: node_at_update)
  qed
qed

lemma write_all_effect:
  assumes "io_ok (host_write_all p body) h = (Inr (), h')" and "real_path p (h_nodes h) = Inr q"
    and "node_at (h_nodes h) q = Some (HFile a [])"
  shows "stat_node p (h_nodes h') = Inr (HFile a body)"
proof -
  let ?t = "h_nodes h"
  have t': "h_nodes h' = AList.update q (HFile a body) ?t"
    using assms by (auto simp: io_ok_def on_result_def host_write_all_def changing_def Let_def bail_def done_app_def
        stat_node_def split: if_splits)
  have "q \<noteq> []" using assms(3) by (auto simp: node_at_def)
  moreover have "real_path p (h_nodes h') = Inr q"
    using real_path_alike [of ?t "h_nodes h'" p] assms(2,3) t' by (auto simp: alike_def node_at_update)
  ultimately show ?thesis using t' by (simp add: stat_node_def node_at_update)
qed

lemma write_config_effect:
  assumes "write_config_file p body h = (Inr (), h')"
  shows "stat_node p (h_nodes h') = Inr (HFile 384 body)"
proof -
  obtain h1 h2 where o': "io_ok (host_open_truncate 384 p) h = (Inr (), h1)"
    and s: "io_ok (host_set_permissions p 384) h1 = (Inr (), h2)"
    and w: "io_ok (host_write_all p body) h2 = (Inr (), h')"
    using assms by (auto simp: write_config_file_def then_app_def split: prod.splits sum.splits)
  obtain q where q: "real_path p (h_nodes h1) = Inr q" "real_path p (h_nodes h2) = Inr q"
    and contents: "\<forall>a b. node_at (h_nodes h2) q = Some (HFile a b) \<longrightarrow>
      a = 384 \<and> (\<exists>a'. node_at (h_nodes h1) q = Some (HFile a' b))"
    using set_permissions_effect [OF s] by auto
  obtain a b where "node_at (h_nodes h2) q = Some (HFile a b)"
    using w q(2) by (auto simp: io_ok_def on_result_def host_write_all_def changing_def Let_def bail_def
        done_app_def stat_node_def split: if_splits option.splits host_node.splits)
  with contents open_truncate_effect [OF o' q(1)] have "node_at (h_nodes h2) q = Some (HFile 384 [])" by fastforce
  then show ?thesis by (rule write_all_effect [OF w q(2)])
qed

lemma save_then_load:
  assumes "toml_ok E" "save_user_config_to_path E c p h = (Inr (), h')" "\<not> h_faults h' (h_calls h')"
  shows "fst (load_user_config_from_path E p h') = Inr c"
proof -
  obtain body h1 where b: "cx_toml_print E c = Some body" and w: "write_config_file p body h1 = (Inr (), h')"
    using assms(2)
    by (auto simp: save_user_config_to_path_def then_app_def bail_def split: option.splits prod.splits sum.splits)
  have "utf8_valid body" "cx_toml_parse E body = Some c" using assms(1) b by (auto simp: toml_ok_def)
  with write_config_effect [OF w] assms(3) show ?thesis
    by (simp add: load_user_config_from_path_def on_result_def host_read_to_string_def reading_def done_app_def)
qed

section \<open>Programs that only look at the machine\<close>

definition same_view :: "host \<Rightarrow> host \<Rightarrow> bool" where
  "same_view h h' \<longleftrightarrow> no_faults h \<and> no_faults h' \<and> h_nodes h = h_nodes h' \<and>
     h_config_env h = h_config_env h' \<and> h_config_base h = h_config_base h' \<and> h_cwd h = h_cwd h'"

text \<open>The result depends on the tree and the environment alone, and both are left as they are.\<close>

definition looks :: "(host \<Rightarrow> 'r \<times> host) \<Rightarrow> bool" where
  "looks m \<longleftrightarrow>
     (\<forall>h h'. same_view h h' \<longrightarrow> fst (m h) = fst (m h') \<and> same_view h (snd (m h)) \<and> same_view h' (snd (m h')))"

lemma same_view_trans: "same_view a b \<Longrightarrow> same_view b c \<Longrightarrow> same_view a c"
  and same_view_sym: "same_view a b \<Longrightarrow> same_view b a"
  by (simp_all add: same_view_def)

lemma looksD: "looks m \<Longrightarrow> m h = (r, h1) \<Longrightarrow> same_view h h' \<Longrightarrow> \<exists>h1'. m h' = (r, h1') \<and> same_view h1 h1'"
  unfolding looks_def by (metis fst_conv same_view_sym same_view_trans snd_conv surj_pair)

lemma looks_keeps: "looks m \<Longrightarrow> m h = (r, h1) \<Longrightarrow> no_faults h \<Longrightarrow> same_view h h1"
  unfolding looks_def by (metis same_view_def snd_conv)

lemma looks_simple [simp]:
  "looks (done_app x)" "looks (bail e)" "looks (reading f)"
  by (simp_all add: looks_def same_view_def done_app_def bail_def reading_def no_faults_def)

lemma looks_on_result:
  assumes "looks m" "\<And>r. looks (f r)"
  shows "looks (on_result m f)"
  unfolding looks_def
proof (intro allI impI)
  fix h h'
  assume v: "same_view h h'"
  obtain r h1 where m: "m h = (r, h1)" by fastforce
  obtain h1' where m': "m h' = (r, h1')" and v1: "same_view h1 h1'" using looksD [OF assms(1) m v] by auto
  have "same_view h h1" "same_view h' h1'"
    using looks_keeps [OF assms(1)] m m' v by (auto simp: same_view_def)
  moreover have "fst (f r h1) = fst (f r h1')" "same_view h1 (snd (f r h1))" "same_view h1' (snd (f r h1'))"
    using assms(2) v1 by (auto simp: looks_def)
  ultimately show "fst (on_result m f h) = fst (on_result m f h') \<and>
      same_view h (snd (on_result m f h)) \<and> same_view h' (snd (on_result m f h'))"
    using m m' by (auto simp: on_result_def intro: same_view_trans)
qed

lemma looks_then: "looks m \<Longrightarrow> (\<And>x. looks (f x)) \<Longrightarrow> looks (then_app m f)"
  unfolding then_app_on_result by (rule looks_on_result) (auto split: sum.split)

lemma looks_io_ok: "looks m \<Longrightarrow> looks (io_ok m)"
  unfolding io_ok_def by (rule looks_on_result) (auto split: sum.split)

lemma looks_host_is_dir [simp]: "looks (host_is_dir p)"
  unfolding host_is_dir_def host_stat_def by (rule looks_on_result) (auto split: sum.split)

lemma looks_search [simp]: "looks (search_upward start current)"
  by (induction start current rule: search_upward.induct)
    (subst search_upward.simps, auto intro!: looks_then)

lemma looks_find [simp]: "looks (find_workspace_root p)"
  unfolding find_workspace_root_def host_canonicalize_def by (auto intro!: looks_then looks_io_ok)

lemma looks_user_path [simp]: "looks user_config_path"
  by (auto simp: looks_def same_view_def user_config_path_def user_config_dir_def then_app_def done_app_def
      split: option.split)

lemma looks_scope_path [simp]: "looks (config_scope_path scope)"
proof (cases scope)
  case Global
  then show ?thesis by (simp add: config_scope_path_def [abs_def])
next
  case WorkspaceScope
  have l: "looks (then_app (find_workspace_root p) (\<lambda>root. done_app (workspace_config_path root)))" for p
    by (intro looks_then) simp_all
  show ?thesis
    using l WorkspaceScope unfolding looks_def config_scope_path_def
    by (auto simp: same_view_def)
qed

lemma looks_load [simp]: "looks (load_user_config_from_path E p)"
  unfolding load_user_config_from_path_def host_read_to_string_def
  by (rule looks_on_result) (auto split: sum.split option.split)

section \<open>Setting and getting\<close>

lemma then_app_Inr:
  "then_app m f h = (Inr y, h') \<longleftrightarrow> (\<exists>x h1. m h = (Inr x, h1) \<and> f x h1 = (Inr y, h'))"
  by (auto simp: then_app_def split: prod.splits sum.splits)

lemma lift_app_Inr: "lift_app r h = (Inr x, h') \<longleftrightarrow> r = Inr x \<and> h' = h"
  by (auto simp: lift_app_def bail_def done_app_def split: sum.split)

lemma save_user_config_Inr:
  assumes "save_user_config E c h = (Inr p, h')" "no_faults h"
  shows "\<exists>h1. user_config_path h = (Inr p, h1) \<and> save_user_config_to_path E c p h1 = (Inr (), h')"
  using assms by (auto simp: save_user_config_def then_app_Inr done_app_def)

lemma save_scoped_Inr:
  assumes "save_scoped_config E scope c h = (Inr p, h')" "no_faults h"
  shows "\<exists>h1 h2. config_scope_path scope h = (Inr p, h1) \<and> same_view h h1 \<and> same_view h h2 \<and>
    save_user_config_to_path E c p h2 = (Inr (), h')"
proof -
  obtain p1 h1 where p1: "config_scope_path scope h = (Inr p1, h1)"
    using assms(1) by (auto simp: save_scoped_config_def then_app_Inr)
  then have v1: "same_view h h1" using looks_keeps [OF looks_scope_path] assms(2) by blast
  show ?thesis
  proof (cases scope)
    case WorkspaceScope
    with assms(1) p1 v1 show ?thesis
      by (auto simp: save_scoped_config_def then_app_Inr done_app_def)
  next
    case Global
    with assms(1) p1 obtain p2 where s: "save_user_config E c h1 = (Inr p2, h')" and p: "p = p1"
      by (auto simp: save_scoped_config_def then_app_Inr done_app_def)
    obtain h2 where u: "user_config_path h1 = (Inr p2, h2)" and w: "save_user_config_to_path E c p2 h2 = (Inr (), h')"
      using save_user_config_Inr [OF s] v1 by (auto simp: same_view_def)
    have "user_config_path h = (Inr p1, h1)" using p1 Global by (simp add: config_scope_path_def)
    then have "p2 = p1" using looksD [OF looks_user_path _ v1, of "Inr p1" h1] u by auto
    moreover have "same_view h h2"
      using looks_keeps [OF looks_user_path u] v1 by (auto simp: same_view_def)
    ultimately show ?thesis using p1 v1 w p by auto
  qed
qed

lemma save_faults: "save_user_config_to_path E c p h = (r, h') \<Longrightarrow> h_faults h' = h_faults h"
  using guarded_save [of E c p] by (auto simp: guarded_program_def guarded_at_def split: prod.splits)


definition demo_config :: user_config where
  "demo_config = config_set AccessToken ''t'' default_config"

definition demo_cli :: cli_ext where
  "demo_cli = \<lparr>cx_toml_parse = (\<lambda>b. if b = ''x'' then Some demo_config else None),
     cx_toml_print = (\<lambda>c. if c = demo_config then Some ''x'' else None),
     cx_basin_name = (\<lambda>s. Some s), cx_account_endpoint_ok = (\<lambda>_. True), cx_basin_endpoint_ok = (\<lambda>_. True),
     cx_endpoints_ok = (\<lambda>_ _. True), cx_env_filter_ok = (\<lambda>_. True)\<rparr>"

definition home_host :: host where
  "home_host = demo_host\<lparr>h_nodes := [([''home''], HDir 493)]\<rparr>"

lemma demo_toml: "toml_ok demo_cli"
  by (simp add: toml_ok_def demo_cli_def byte_in_def)

lemma home_quiet: "no_faults home_host"
  by (simp add: no_faults_def home_host_def demo_host_def)

lemma home_set: "\<exists>h'. run_config demo_cli Global (ConfigSet AccessToken ''t'') home_host = (Inr (), h')"
  by (simp add: ensure_config_key_allowed_def validate_config_value_def load_scoped_config_def
      save_scoped_config_def save_user_config_def config_scope_path_def user_config_path_def user_config_dir_def
      load_user_config_from_path_def host_read_to_string_def reading_def lift_app_def app_simps
      save_user_config_to_path_def host_create_dir_all_def changing_def place_new_def entry_path_def
      secure_config_dir_def host_set_permissions_def write_config_file_def host_open_truncate_def
      host_write_all_def print_line_def home_host_def demo_host_def demo_cli_def demo_config_def stat_node_def
      real_path_def node_at_def upt_rec numeral_eq_Suc)


lemma home_save:
  "\<exists>h'. save_user_config_to_path demo_cli demo_config [''home'', ''config.toml''] home_host = (Inr (), h') \<and>
    h_trace h' \<noteq> []"
  by (simp add: save_user_config_to_path_def host_create_dir_all_def changing_def place_new_def entry_path_def
      secure_config_dir_def host_set_permissions_def write_config_file_def host_open_truncate_def
      host_write_all_def home_host_def demo_host_def demo_cli_def stat_node_def app_simps
      real_path_def node_at_def upt_rec)

theorem config_never_exposed_witness:
  "\<exists>h'. save_user_config_to_path demo_cli demo_config [''home'', ''config.toml''] home_host = (Inr (), h') \<and>
    h_trace h' \<noteq> [] \<and> list_all (exposes_nothing [([''home''], HDir 493)]) (h_trace h')"
proof -
  obtain h' where h': "save_user_config_to_path demo_cli demo_config [''home'', ''config.toml''] home_host = (Inr (), h')"
    "h_trace h' \<noteq> []"
    using home_save by blast
  moreover have "h_trace home_host = []" "h_nodes home_host = [([''home''], HDir 493)]"
    by (simp_all add: home_host_def demo_host_def)
  ultimately show ?thesis
    using config_never_exposed [where E = demo_cli and c = demo_config and p = "[''home'', ''config.toml'']"
        and h = home_host]
    by (auto simp: list_all_iff)
qed

text \<open>What \<open>ob config list\<close> prints does not depend on the token.\<close>

lemma config_list_hides_token:
  "config_list_lines scope (c\<lparr>uc_access_token := Some a\<rparr>) = config_list_lines scope (c\<lparr>uc_access_token := Some b\<rparr>)"
  by (cases scope) (simp_all add: config_list_lines_def List.map_filter_def config_display_value_def)

end
