(* ===== verification/Runtime.thy ===== *)
theory Runtime
  imports Configuration
begin

text \<open>
  \<open>crates/core/src/app/runtime.rs\<close> and \<open>crates/daemon/src/main.rs\<close>: which actors a run has, how a
  run ends when one of them stops, and what the daemon checks before it starts. The actors
  themselves are in the theories named after them; here an actor is its name and its result.
\<close>

section \<open>The actors of a run\<close>

datatype run_mode = RunInit | RunClone | RunSync

definition sync_actors :: "bool \<Rightarrow> string list" where
  "sync_actors notify =
     [''semantic'', ''fs'', ''engine'', ''log_reader'', ''log_writer''] @ (if notify then [''notify''] else [])"

text \<open>\<open>spawn\<close>: the names in the order of spawning, and whether there is an engine mailbox; sync
  mode without a status configuration is a panic.\<close>

fun spawn_actors :: "run_mode \<Rightarrow> bool \<Rightarrow> bool \<Rightarrow> (string list \<times> bool) res" where
  "spawn_actors RunInit notify status = Inr ([''semantic'', ''fs'', ''log_writer'', ''init''], False)"
| "spawn_actors RunClone notify status = Inr ([''semantic'', ''fs'', ''log_reader'', ''clone''], False)"
| "spawn_actors RunSync notify status =
     (if status then Inr (sync_actors notify, True) else Inl Panicked)"

section \<open>How a run ends\<close>

datatype stop_error =
    ActorFailed string error
  | JoinFailed
  | AllActorsExited
  | ShutdownTimedOut
  | Interrupted
  | CtrlCFailed
  | ControlFailed

text \<open>What \<open>join_next\<close> yields: an actor's name and result, or the failure of its task.\<close>

datatype joined = Joined string "unit res" | TaskFailed

definition actor_stopped :: "joined option \<Rightarrow> stop_error option" where
  "actor_stopped r =
     (case r of
        None \<Rightarrow> Some AllActorsExited
      | Some (Joined _ (Inr _)) \<Rightarrow> None
      | Some (Joined name (Inl e)) \<Rightarrow> Some (ActorFailed name e)
      | Some TaskFailed \<Rightarrow> Some JoinFailed)"

text \<open>The results joined before the timeout, in order, and whether the timeout struck: only the
  first error is kept.\<close>

fun drain_errors :: "joined list \<Rightarrow> stop_error option \<Rightarrow> stop_error option" where
  "drain_errors [] e = e"
| "drain_errors (r # rs) e =
     drain_errors rs (case e of None \<Rightarrow> actor_stopped (Some r) | Some _ \<Rightarrow> e)"

record drain_outcome =
  dr_joined :: "joined list"
  dr_timed_out :: bool

definition note_timeout :: "drain_outcome \<Rightarrow> stop_error option \<Rightarrow> stop_error option" where
  "note_timeout d e = (if dr_timed_out d \<and> e = None then Some ShutdownTimedOut else e)"

datatype first_event = CtrlC "unit res" | ActorStop "joined option"

text \<open>\<open>wait_for_ctrl_c_or_actor_stop\<close>, the end of \<open>ob init\<close> and \<open>ob clone\<close>.\<close>

definition run_until_shutdown :: "first_event \<Rightarrow> drain_outcome \<Rightarrow> stop_error option" where
  "run_until_shutdown first d =
     (case first of
        CtrlC (Inl _) \<Rightarrow> Some CtrlCFailed
      | CtrlC (Inr _) \<Rightarrow>
          (case note_timeout d (drain_errors (dr_joined d) None) of
             None \<Rightarrow> Some Interrupted | Some e \<Rightarrow> Some e)
      | ActorStop r \<Rightarrow> note_timeout d (drain_errors (dr_joined d) (actor_stopped r)))"

text \<open>The end of the daemon: \<open>ctrl-c\<close> is a normal end; the control server's task (\<open>Inr\<close>, \<open>None\<close> when
  the task itself failed) ends it too.\<close>

definition daemon_shutdown :: "first_event + unit res option \<Rightarrow> drain_outcome \<Rightarrow> stop_error option" where
  "daemon_shutdown first d =
     (case first of
        Inl (CtrlC (Inl _)) \<Rightarrow> Some CtrlCFailed
      | _ \<Rightarrow>
          let e = (case first of
              Inl (ActorStop r) \<Rightarrow> actor_stopped r
            | Inl (CtrlC _) \<Rightarrow> None
            | Inr (Some (Inr _)) \<Rightarrow> None
            | Inr _ \<Rightarrow> Some ControlFailed)
          in (case e of Some _ \<Rightarrow> e | None \<Rightarrow> note_timeout d (drain_errors (dr_joined d) None)))"

fun joined_ok :: "joined \<Rightarrow> bool" where
  "joined_ok (Joined _ (Inr _)) = True"
| "joined_ok _ = False"

lemma actor_stopped_none: "actor_stopped r = None \<longleftrightarrow> (\<exists>j. r = Some j \<and> joined_ok j)"
  by (auto simp: actor_stopped_def split: option.splits joined.splits sum.splits elim: joined_ok.elims)

lemma drain_errors_keeps [simp]: "drain_errors rs (Some e) = Some e"
  by (induction rs) simp_all

lemma drain_errors_none: "drain_errors rs e = None \<longleftrightarrow> e = None \<and> list_all joined_ok rs"
  by (induction rs arbitrary: e) (auto simp: actor_stopped_none split: option.splits)

text \<open>The first failure, in the order the actors were joined, is the one that is reported.\<close>

lemma drain_errors_first:
  "drain_errors rs None = (case find (\<lambda>r. \<not> joined_ok r) rs of None \<Rightarrow> None | Some r \<Rightarrow> actor_stopped (Some r))"
proof (induction rs)
  case (Cons r rs)
  show ?case
  proof (cases "joined_ok r")
    case True
    then have "actor_stopped (Some r) = None" by (simp add: actor_stopped_none)
    with Cons True show ?thesis by simp
  next
    case False
    then obtain e where "actor_stopped (Some r) = Some e" using actor_stopped_none [of "Some r"] by fastforce
    with False show ?thesis by simp
  qed
qed simp

text \<open>An \<open>init\<close> or \<open>clone\<close> reports success exactly when an actor stopped by itself, every actor
  that was joined ended without an error, and none was left when the time was up: a failed actor,
  an interruption or a hang is never reported as success.\<close>
lemma run_succeeds_iff:
  "run_until_shutdown first d = None \<longleftrightarrow>
    (\<exists>j. first = ActorStop (Some j) \<and> joined_ok j) \<and> list_all joined_ok (dr_joined d) \<and> \<not> dr_timed_out d"
  by (cases first)
    (auto simp: run_until_shutdown_def note_timeout_def drain_errors_none actor_stopped_none
      split: sum.splits option.splits if_splits)

section \<open>Starting the daemon\<close>

definition apply_workspace_basin :: "cli_ext \<Rightarrow> user_config \<Rightarrow> daemon_state_row \<Rightarrow> app_error + daemon_state_row" where
  "apply_workspace_basin E workspace row =
     (case uc_basin workspace of
        None \<Rightarrow> Inr row
      | Some b \<Rightarrow> (case cx_basin_name E b of
            None \<Rightarrow> Inl (InvalidValue ''basin'' b) | Some name \<Rightarrow> Inr (row\<lparr>ds_s2_basin := name\<rparr>)))"

text \<open>\<open>init_tracing\<close>: the log filter, from the workspace, the user or the default.\<close>

definition daemon_log_filter :: "cli_ext \<Rightarrow> user_config \<Rightarrow> user_config \<Rightarrow> app_error + string" where
  "daemon_log_filter E workspace user =
     (case or_else (uc_daemon_log_level workspace) (uc_daemon_log_level user) of
        None \<Rightarrow> Inr ''info''
      | Some l \<Rightarrow> if cx_env_filter_ok E l then Inr l else Inl (InvalidValue ''daemon-log-level'' l))"

text \<open>What S2 answers at start-up: the tail of the operations stream and the two configurations.\<close>

record s2_answers =
  sa_tail :: "session_error option"
  sa_stream_config :: "request_error + retention_policy option"
  sa_basin_config :: "request_error + retention_policy option option"

record daemon_start =
  dn_row :: daemon_state_row
  dn_client :: s2_client_config
  dn_warnings :: "daemon_warning list"
  dn_offline :: bool

definition warning_list :: "request_error + daemon_warning option \<Rightarrow> daemon_warning list" where
  "warning_list r = (case r of Inr (Some w) \<Rightarrow> [w] | _ \<Rightarrow> [])"

definition start_warnings :: "bool \<Rightarrow> s2_answers \<Rightarrow> daemon_warning list" where
  "start_warnings skip A =
     (if skip then []
      else warning_list (map_sum id stream_config_retention_warning (sa_stream_config A)) @
           warning_list (map_sum id basin_config_retention_warning (sa_basin_config A)))"

text \<open>From the configuration to the S2 answers, the part of \<open>run\<close> between taking the lock and opening
  the database; a stream that does not exist or a refusal ends the daemon, a lost connection does not.\<close>

definition daemon_checks ::
    "('d, 'sv) ext \<Rightarrow> cli_ext \<Rightarrow> user_config \<Rightarrow> user_config \<Rightarrow> s2_answers \<Rightarrow> daemon_state_row \<Rightarrow>
     app_error + daemon_start" where
  "daemon_checks X E workspace user A row0 =
     (case apply_workspace_basin E workspace row0 of
        Inl e \<Rightarrow> Inl e
      | Inr row \<Rightarrow> (case from_workspace_or_user_config workspace (ds_s2_account_endpoint row)
              (ds_s2_basin_endpoint row) user of
            Inl e \<Rightarrow> Inl e
          | Inr connection \<Rightarrow> (case s2_client_from_config E connection of
                Inl e \<Rightarrow> Inl e
              | Inr client \<Rightarrow> (case skip_retention_checks workspace user of
                    Inl e \<Rightarrow> Inl e
                  | Inr skip \<Rightarrow>
                      if \<not> s2_stream_name_ok X (ds_workspace_id row @ ''/ops'')
                      then Inl (InvalidValue ''stream'' (ds_workspace_id row))
                      else (case sa_tail A of
                          None \<Rightarrow> Inr \<lparr>dn_row = row, dn_client = client, dn_warnings = start_warnings skip A,
                            dn_offline = False\<rparr>
                        | Some e \<Rightarrow>
                            if se_request e = Some (ReqServer ''stream_not_found'') \<or>
                               \<not> read_error_is_connectivity e
                            then Inl (InvalidValue ''workspace'' (ds_workspace_id row))
                            else Inr \<lparr>dn_row = row, dn_client = client, dn_warnings = [], dn_offline = True\<rparr>)))))"

text \<open>The daemon starts without S2 exactly when the tail request fails for lack of a connection;
  it then shows no warnings, and with a connection it warns of each retention that is not infinite
  unless the checks are switched off.\<close>
lemma daemon_starts_offline:
  assumes "daemon_checks X E workspace user A row = Inr st"
  shows "dn_offline st \<longleftrightarrow> (\<exists>e. sa_tail A = Some e \<and> read_error_is_connectivity e)"
    and "dn_offline st \<Longrightarrow> dn_warnings st = []"
  using assms by (auto simp: daemon_checks_def split: sum.splits option.splits if_splits)

end
