(* ===== verification/Ipc.thy ===== *)
theory Ipc
  imports Workspace Spy Engine
begin

text \<open>
  \<open>crates/core/src/app/ipc.rs\<close>: the control socket between \<open>ob\<close> and the daemon. Requests and
  responses carry the protocol number and the build of the sender; the server asks the engine and the
  client checks what it gets. The spy stream is a sequence of server-sent events that arrives in
  chunks. JSON printing and parsing, and the engine's answers, are parameters; HTTP itself is the
  \<open>hyper\<close> crate's.
\<close>

section \<open>Messages\<close>

record build =
  bd_version :: string
  bd_hash :: string

datatype http_method = GET | POST | OtherMethod

record http_request =
  hq_method :: http_method
  hq_path :: string
  hq_headers :: "(string \<times> bytes) list"

record http_response =
  hr_status :: nat
  hr_content_type :: string
  hr_headers :: "(string \<times> bytes) list"
  hr_body :: bytes

definition ipc_protocol :: string where
  "ipc_protocol = ''1''"

text \<open>\<open>HeaderValue::to_str\<close> accepts visible ASCII, spaces and tabs.\<close>

definition visible_char :: "char \<Rightarrow> bool" where
  "visible_char c \<longleftrightarrow> byte_in 0x20 0x7E c \<or> c = CHR 0x09"

definition ipc_header :: "(string \<times> bytes) list \<Rightarrow> string \<Rightarrow> string option" where
  "ipc_header hs name =
     (case map_of hs name of
        None \<Rightarrow> None
      | Some v \<Rightarrow> if list_all visible_char v then Some v else None)"

definition ipc_request :: "build \<Rightarrow> http_method \<Rightarrow> string \<Rightarrow> http_request" where
  "ipc_request B m path =
     \<lparr>hq_method = m, hq_path = path,
      hq_headers = [(''x-opbox-client-ipc-protocol'', ipc_protocol),
        (''x-opbox-client-version'', bd_version B), (''x-opbox-client-build'', bd_hash B),
        (''host'', ''opbox'')]\<rparr>"

definition ipc_response :: "build \<Rightarrow> nat \<Rightarrow> string \<Rightarrow> bytes \<Rightarrow> http_response" where
  "ipc_response B status content_type body =
     \<lparr>hr_status = status, hr_content_type = content_type,
      hr_headers = [(''x-opbox-ipc-protocol'', ipc_protocol), (''x-opbox-version'', bd_version B),
        (''x-opbox-build'', bd_hash B)],
      hr_body = body\<rparr>"

definition text_response :: "build \<Rightarrow> nat \<Rightarrow> string \<Rightarrow> http_response" where
  "text_response B status body = ipc_response B status ''text/plain; charset=utf-8'' body"

text \<open>A body that cannot be serialised becomes an internal error.\<close>

definition internal_error :: "build \<Rightarrow> http_response" where
  "internal_error B = text_response B 500 ''internal server error''"

definition json_response :: "build \<Rightarrow> bytes option \<Rightarrow> http_response" where
  "json_response B body =
     (case body of None \<Rightarrow> internal_error B | Some b \<Rightarrow> ipc_response B 200 ''application/json'' b)"

section \<open>The server\<close>

record stop_response =
  sr_workspace_id :: string
  sr_pid :: nat

record share_context_response =
  scr_workspace_id :: string
  scr_basin :: string
  scr_root :: string
  scr_encryption_key :: string

record ipc_json =
  ij_status :: "daemon_status \<Rightarrow> bytes option"
  ij_status_of :: "bytes \<Rightarrow> daemon_status option"
  ij_share :: "share_context_response \<Rightarrow> bytes option"
  ij_share_of :: "bytes \<Rightarrow> share_context_response option"
  ij_stop :: "stop_response \<Rightarrow> bytes option"
  ij_stop_of :: "bytes \<Rightarrow> stop_response option"
  ij_spy :: "spy_event \<Rightarrow> bytes option"
  ij_spy_of :: "bytes \<Rightarrow> spy_event option"

record control_config =
  cc_root :: string
  cc_daemon_state :: daemon_state_row

text \<open>What the engine answers when asked; \<open>None\<close> when its mailbox or the reply channel is closed.\<close>

record engine_answers =
  ea_status :: "daemon_status option"
  ea_spy :: "(string + spy_open) option"
  ea_stop :: "daemon_status option"

datatype engine_query = AskStatus | AskSpy | AskStop

datatype control_reply = Plain http_response | SpyStream spy_open

definition client_metadata_error :: "build \<Rightarrow> http_request \<Rightarrow> http_response option" where
  "client_metadata_error B r =
     (case ipc_header (hq_headers r) ''x-opbox-client-ipc-protocol'' of
        None \<Rightarrow> Some (text_response B 426
          ''opbox IPC client metadata is missing; upgrade ob and restart the daemon'')
      | Some protocol \<Rightarrow>
          if protocol \<noteq> ipc_protocol then Some (text_response B 426
            (''opbox IPC protocol mismatch; daemon protocol is 1, client protocol is '' @ protocol))
          else (case ipc_header (hq_headers r) ''x-opbox-client-build'' of
              None \<Rightarrow> Some (text_response B 426
                ''opbox IPC client build metadata is missing; upgrade ob and restart the daemon'')
            | Some client_build \<Rightarrow>
                if client_build \<noteq> bd_hash B \<and> \<not> (hq_method r = POST \<and> hq_path r = ''/stop'')
                then Some (text_response B 409
                  (''opbox client build does not match daemon'' @ [CHR 0x0A] @ ''  client: '' @
                   (case ipc_header (hq_headers r) ''x-opbox-client-version'' of None \<Rightarrow> ''unknown'' | Some v \<Rightarrow> v) @
                   '' '' @ client_build @ [CHR 0x0A] @ ''  daemon: '' @ bd_version B @ '' '' @ bd_hash B))
                else None))"

definition handle_control_request ::
    "('d, 'sv) ext \<Rightarrow> ipc_json \<Rightarrow> build \<Rightarrow> control_config \<Rightarrow> engine_answers \<Rightarrow> http_request \<Rightarrow>
     control_reply \<times> engine_query list" where
  "handle_control_request X J B C A r =
     (case client_metadata_error B r of
        Some response \<Rightarrow> (Plain response, [])
      | None \<Rightarrow>
          if hq_method r = GET \<and> hq_path r = ''/status'' then
            (case ea_status A of
               None \<Rightarrow> (Plain (internal_error B), [AskStatus])
             | Some status \<Rightarrow> (Plain (json_response B (ij_status J status)), [AskStatus]))
          else if hq_method r = GET \<and> hq_path r = ''/share-context'' then
            (Plain (json_response B (ij_share J
               \<lparr>scr_workspace_id = ds_workspace_id (cc_daemon_state C), scr_basin = ds_s2_basin (cc_daemon_state C),
                scr_root = cc_root C,
                scr_encryption_key = cipher_key_to_string X (ds_encryption_key (cc_daemon_state C))\<rparr>)), [])
          else if hq_method r = GET \<and> hq_path r = ''/spy'' then
            (case ea_spy A of
               Some (Inr open) \<Rightarrow> (SpyStream open, [AskSpy])
             | _ \<Rightarrow> (Plain (internal_error B), [AskSpy]))
          else if hq_method r = POST \<and> hq_path r = ''/stop'' then
            (case ea_stop A of
               None \<Rightarrow> (Plain (internal_error B), [AskStop])
             | Some status \<Rightarrow>
                 (Plain (json_response B (ij_stop J
                    \<lparr>sr_workspace_id = dms_workspace_id status, sr_pid = dms_pid status\<rparr>)), [AskStop]))
          else (Plain (text_response B 404 ''not found''), []))"

section \<open>The client\<close>

record build_mismatch =
  bm_client_version :: string
  bm_client_build :: string
  bm_daemon_version :: string
  bm_daemon_build :: string

datatype ipc_error =
    IpcIo io_kind
  | NoMetadata
  | ProtocolMismatch string
  | BuildMismatch build_mismatch
  | BadStatus nat
  | BadJson
  | PartialEvent
  | StreamError

datatype metadata_policy = Strict | AllowBuildMismatch

definition daemon_build_mismatch :: "build \<Rightarrow> (string \<times> bytes) list \<Rightarrow> build_mismatch option" where
  "daemon_build_mismatch B hs =
     (case ipc_header hs ''x-opbox-build'' of
        None \<Rightarrow> None
      | Some daemon_build \<Rightarrow>
          if daemon_build = bd_hash B then None
          else Some \<lparr>bm_client_version = bd_version B, bm_client_build = bd_hash B,
            bm_daemon_version = (case ipc_header hs ''x-opbox-version'' of None \<Rightarrow> ''unknown'' | Some v \<Rightarrow> v),
            bm_daemon_build = daemon_build\<rparr>)"

definition validate_daemon_metadata :: "build \<Rightarrow> metadata_policy \<Rightarrow> http_response \<Rightarrow> ipc_error + unit" where
  "validate_daemon_metadata B policy r =
     (case ipc_header (hr_headers r) ''x-opbox-ipc-protocol'' of
        None \<Rightarrow> Inl NoMetadata
      | Some protocol \<Rightarrow>
          if protocol \<noteq> ipc_protocol then Inl (ProtocolMismatch protocol)
          else (case ipc_header (hr_headers r) ''x-opbox-build'' of
              None \<Rightarrow> Inl NoMetadata
            | Some _ \<Rightarrow> (case daemon_build_mismatch B (hr_headers r) of
                  None \<Rightarrow> Inr ()
                | Some mismatch \<Rightarrow>
                    if policy = AllowBuildMismatch then Inr () else Inl (BuildMismatch mismatch))))"

definition read_json_response ::
    "build \<Rightarrow> metadata_policy \<Rightarrow> (bytes \<Rightarrow> 'a option) \<Rightarrow> http_response \<Rightarrow> ipc_error + 'a" where
  "read_json_response B policy parse r =
     (case validate_daemon_metadata B policy r of
        Inl e \<Rightarrow> Inl e
      | Inr _ \<Rightarrow>
          if hr_status r \<noteq> 200 then
            (case daemon_build_mismatch B (hr_headers r) of
               Some mismatch \<Rightarrow>
                 if policy = AllowBuildMismatch \<and> hr_status r = 409 then Inl (BuildMismatch mismatch)
                 else Inl (BadStatus (hr_status r))
             | None \<Rightarrow> Inl (BadStatus (hr_status r)))
          else (case parse (hr_body r) of None \<Rightarrow> Inl BadJson | Some x \<Rightarrow> Inr x))"

text \<open>\<open>request_json\<close> and the requests made with it, with the exchange as a function.\<close>

definition request_json ::
    "build \<Rightarrow> (http_request \<Rightarrow> ipc_error + http_response) \<Rightarrow> http_method \<Rightarrow> string \<Rightarrow> metadata_policy \<Rightarrow>
     (bytes \<Rightarrow> 'a option) \<Rightarrow> ipc_error + 'a" where
  "request_json B send m uri policy parse =
     (case send (ipc_request B m uri) of Inl e \<Rightarrow> Inl e | Inr r \<Rightarrow> read_json_response B policy parse r)"

definition request_status :: "ipc_json \<Rightarrow> build \<Rightarrow> (http_request \<Rightarrow> ipc_error + http_response) \<Rightarrow> ipc_error + daemon_status" where
  "request_status J B send = request_json B send GET ''/status'' Strict (ij_status_of J)"

definition request_share_context ::
    "ipc_json \<Rightarrow> build \<Rightarrow> (http_request \<Rightarrow> ipc_error + http_response) \<Rightarrow> ipc_error + share_context_response" where
  "request_share_context J B send = request_json B send GET ''/share-context'' Strict (ij_share_of J)"

definition request_stop :: "ipc_json \<Rightarrow> build \<Rightarrow> (http_request \<Rightarrow> ipc_error + http_response) \<Rightarrow> ipc_error + stop_response" where
  "request_stop J B send = request_json B send POST ''/stop'' AllowBuildMismatch (ij_stop_of J)"

section \<open>The spy stream\<close>

definition spy_sse_frame :: "ipc_json \<Rightarrow> spy_event \<Rightarrow> bytes option" where
  "spy_sse_frame J e = map_option (\<lambda>json. ''data: '' @ json @ [CHR 0x0A, CHR 0x0A]) (ij_spy J e)"

text \<open>What the broadcast receiver yields, or the cancellation of the server.\<close>

datatype spy_item = RecvEvent spy_event | RecvLagged nat | RecvClosed | RecvCancelled

fun live_frames :: "ipc_json \<Rightarrow> spy_item list \<Rightarrow> bytes list" where
  "live_frames J [] = []"
| "live_frames J (RecvEvent e # items) =
     (case spy_sse_frame J e of None \<Rightarrow> [] | Some f \<Rightarrow> f # live_frames J items)"
| "live_frames J (RecvLagged n # items) =
     (case spy_sse_frame J (Lagged n) of None \<Rightarrow> [] | Some f \<Rightarrow> f # live_frames J items)"
| "live_frames J (RecvClosed # items) = []"
| "live_frames J (RecvCancelled # items) = []"

definition spy_response_frames :: "ipc_json \<Rightarrow> spy_open \<Rightarrow> spy_item list \<Rightarrow> bytes list res" where
  "spy_response_frames J open items =
     bind_res (ok_or (spy_sse_frame J (SessionStarted (so_daemon_writer_id_b64 open))) Panicked) (\<lambda>session.
       bind_res (ok_or (spy_sse_frame J (NamespaceSnapshot (so_namespace_snapshot_b64 open))) Panicked) (\<lambda>snapshot.
         Inr (session # snapshot # live_frames J items)))"

text \<open>The position of the first blank line's two line breaks.\<close>

fun event_end :: "bytes \<Rightarrow> nat option" where
  "event_end (a # b # s) =
     (if a = CHR 0x0A \<and> b = CHR 0x0A then Some 0 else map_option Suc (event_end (b # s)))"
| "event_end _ = None"

text \<open>\<open>str::lines\<close>: no line after a final line break.\<close>

fun text_lines :: "string \<Rightarrow> string list" where
  "text_lines [] = []"
| "text_lines (c # s) =
     (if c = CHR 0x0A then [] # text_lines s
      else case text_lines s of
          [] \<Rightarrow> [[c]]
        | l # ls \<Rightarrow> (c # l) # ls)"

definition strip_cr :: "string \<Rightarrow> string" where
  "strip_cr l = (if l \<noteq> [] \<and> last l = CHR 0x0D then butlast l else l)"

definition data_of_line :: "string \<Rightarrow> string option" where
  "data_of_line line =
     (let l = strip_cr (strip_cr line)
      in if starts_with l ''data:'' then Some (trim_front white_space (length l) (drop 5 l)) else None)"

definition event_data :: "string \<Rightarrow> string" where
  "event_data frame = join_with (CHR 0x0A) (List.map_filter data_of_line (text_lines frame))"

text \<open>\<open>try_pop_event\<close>: the frame leaves the buffer even when it carries no data.\<close>

definition try_pop_event :: "ipc_json \<Rightarrow> bytes \<Rightarrow> (ipc_error + spy_event option) \<times> bytes" where
  "try_pop_event J buffer =
     (case event_end buffer of
        None \<Rightarrow> (Inr None, buffer)
      | Some k \<Rightarrow>
          let frame = take (k + 2) buffer; rest = drop (k + 2) buffer
          in if \<not> utf8_valid frame then (Inl StreamError, rest)
             else if event_data frame = [] then (Inr None, rest)
             else (case ij_spy_of J (event_data frame) of
                 None \<Rightarrow> (Inl BadJson, rest)
               | Some e \<Rightarrow> (Inr (Some e), rest)))"

definition ascii_whitespace :: "char \<Rightarrow> bool" where
  "ascii_whitespace c \<longleftrightarrow> c \<in> {CHR 0x09, CHR 0x0A, CHR 0x0C, CHR 0x0D, CHR 0x20}"

text \<open>\<open>next_event\<close> over the chunks the body yields; the list ends when the body does.\<close>

fun next_event :: "ipc_json \<Rightarrow> bytes \<Rightarrow> bytes list \<Rightarrow> (ipc_error + spy_event option) \<times> bytes \<times> bytes list" where
  "next_event J buffer [] =
     (case try_pop_event J buffer of
        (Inl e, b) \<Rightarrow> (Inl e, b, [])
      | (Inr (Some e), b) \<Rightarrow> (Inr (Some e), b, [])
      | (Inr None, b) \<Rightarrow> (if list_all ascii_whitespace b then Inr None else Inl PartialEvent, b, []))"
| "next_event J buffer (chunk # chunks) =
     (case try_pop_event J buffer of
        (Inl e, b) \<Rightarrow> (Inl e, b, chunk # chunks)
      | (Inr (Some e), b) \<Rightarrow> (Inr (Some e), b, chunk # chunks)
      | (Inr None, b) \<Rightarrow> next_event J (b @ chunk) chunks)"

text \<open>The loop of \<open>ob spy\<close> over \<open>n\<close> calls of \<open>next_event\<close>: the events it prints.\<close>

fun spy_loop :: "nat \<Rightarrow> ipc_json \<Rightarrow> bytes \<Rightarrow> bytes list \<Rightarrow> ipc_error + spy_event list" where
  "spy_loop 0 J buffer chunks = Inr []"
| "spy_loop (Suc n) J buffer chunks =
     (case next_event J buffer chunks of
        (Inl e, _) \<Rightarrow> Inl e
      | (Inr None, _) \<Rightarrow> Inr []
      | (Inr (Some e), b, cs) \<Rightarrow>
          (case spy_loop n J b cs of Inl err \<Rightarrow> Inl err | Inr es \<Rightarrow> Inr (e # es)))"

text \<open>An event prints as a JSON object on one line, which reads back.\<close>

definition spy_json_ok :: "ipc_json \<Rightarrow> spy_event \<Rightarrow> bool" where
  "spy_json_ok J e \<longleftrightarrow>
     (\<exists>json. ij_spy J e = Some json \<and> ij_spy_of J json = Some e \<and> utf8_valid json \<and>
        json \<noteq> [] \<and> hd json = CHR 0x7B \<and> last json = CHR 0x7D \<and> CHR 0x0A \<notin> set json)"

section \<open>Lemmas: frames\<close>

lemma event_end_append:
  "CHR 0x0A \<notin> set s \<Longrightarrow> event_end (s @ CHR 0x0A # CHR 0x0A # rest) = Some (length s)"
proof (induction s)
  case (Cons a s)
  then show ?case by (cases s) auto
qed simp

lemma event_end_prefix:
  assumes "CHR 0x0A \<notin> set s" and "b @ b' = s @ CHR 0x0A # CHR 0x0A # rest" and "length b < length s + 2"
  shows "event_end b = None"
  using assms
proof (induction s arbitrary: b)
  case Nil
  then show ?case by (cases b; cases "tl b") auto
next
  case (Cons a s)
  show ?case
  proof (cases b)
    case (Cons x c)
    with Cons.prems have "x \<noteq> CHR 0x0A" "event_end c = None"
      using Cons.IH [of c] by auto
    with Cons show ?thesis by (cases c) auto
  qed simp
qed

lemma event_end_extend: "event_end b = Some k \<Longrightarrow> event_end (b @ b') = Some k"
  by (induction b arbitrary: k rule: event_end.induct) (auto split: if_splits)

lemma text_lines_line: "CHR 0x0A \<notin> set s \<Longrightarrow> text_lines (s @ CHR 0x0A # t) = s # text_lines t"
  by (induction s) auto

lemma data_of_frame_line:
  assumes "json \<noteq> []" "hd json = CHR 0x7B" "last json = CHR 0x7D"
  shows "data_of_line (''data: '' @ json) = Some json"
proof -
  obtain c cs where j: "json = c # cs" and c: "c = CHR 0x7B" using assms by (cases json) auto
  have "find (starts_with json) white_space = None"
    unfolding j by (rule no_prefix_in [where P = "\<lambda>c. c = CHR 0x7B"]) (simp_all add: white_space_def c)
  then have rest: "trim_front white_space n json = json" for n by (cases n) simp_all
  have "find (starts_with (CHR 0x20 # json)) white_space = Some [CHR 0x20]"
    by (simp add: white_space_def starts_with_def)
  then have "trim_front white_space (Suc n) (CHR 0x20 # json) = json" for n by (simp add: rest)
  then show ?thesis using assms
    by (simp add: data_of_line_def strip_cr_def starts_with_def Let_def del: trim_front.simps)
qed

text \<open>The first character of a well-formed string can be put before any other.\<close>

definition utf8_lead :: "bytes \<Rightarrow> bool" where
  "utf8_lead u \<longleftrightarrow> u \<noteq> [] \<and> (\<forall>w. utf8_valid w \<longrightarrow> utf8_valid (u @ w))"

lemma utf8_first:
  assumes "utf8_valid (a # s)"
  shows "\<exists>u v. a # s = u @ v \<and> utf8_lead u \<and> utf8_valid v"
proof (cases "byte_in 0 0x7F a")
  case True
  have "a # s = [a] @ s \<and> utf8_lead [a] \<and> utf8_valid s" using True assms by (simp add: utf8_lead_def)
  then show ?thesis by blast
next
  case a1: False
  with assms obtain b s1 where s: "s = b # s1" by (cases s) auto
  show ?thesis
  proof (cases "byte_in 0xC2 0xDF a")
    case True
    have "a # s = [a, b] @ s1 \<and> utf8_lead [a, b] \<and> utf8_valid s1" using True assms a1 s
      by (simp add: utf8_lead_def)
    then show ?thesis by blast
  next
    case a2: False
    with assms a1 s obtain c s2 where s1: "s1 = c # s2" by (cases s1) auto
    show ?thesis
    proof (cases "byte_in 0xE0 0xE0 a \<or> byte_in 0xE1 0xEC a \<or> byte_in 0xEE 0xEF a \<or> byte_in 0xED 0xED a")
      case True
      have "a # s = [a, b, c] @ s2 \<and> utf8_lead [a, b, c] \<and> utf8_valid s2" using True assms a1 a2 s s1
        by (auto simp: utf8_lead_def split: if_splits)
    then show ?thesis by blast
    next
      case a3: False
      with assms a1 a2 s s1 obtain d s3 where s2: "s2 = d # s3" by (cases s2) auto
      have "a # s = [a, b, c, d] @ s3 \<and> utf8_lead [a, b, c, d] \<and> utf8_valid s3" using assms a1 a2 a3 s s1 s2
        by (simp add: utf8_lead_def)
    then show ?thesis by blast
    qed
  qed
qed

lemma utf8_append: "utf8_valid s \<Longrightarrow> utf8_valid t \<Longrightarrow> utf8_valid (s @ t)"
proof (induction "length s" arbitrary: s rule: less_induct)
  case less
  show ?case
  proof (cases s)
    case (Cons a s')
    then obtain u v where uv: "s = u @ v" "utf8_lead u" "utf8_valid v" using utf8_first less.prems(1) by blast
    then have "utf8_valid (v @ t)" using less.hyps [of v] less.prems(2) by (auto simp: utf8_lead_def)
    with uv show ?thesis by (simp add: utf8_lead_def)
  qed (simp add: less.prems(2))
qed

lemma try_pop_frame:
  assumes "ij_spy_of J json = Some e" "utf8_valid json" "json \<noteq> []" "hd json = CHR 0x7B"
    "last json = CHR 0x7D" "CHR 0x0A \<notin> set json"
  shows "try_pop_event J (''data: '' @ json @ CHR 0x0A # CHR 0x0A # rest) = (Inr (Some e), rest)"
proof -
  let ?line = "''data: '' @ json"
  have nl: "CHR 0x0A \<notin> set ?line" using assms(6) by simp
  have cut: "event_end (?line @ CHR 0x0A # CHR 0x0A # rest) = Some (length ?line)"
    by (rule event_end_append [OF nl])
  have "utf8_valid (?line @ [CHR 0x0A, CHR 0x0A])"
    using utf8_append [OF assms(2), of "[CHR 0x0A, CHR 0x0A]"] by (simp add: byte_in_def)
  moreover have "event_data (?line @ [CHR 0x0A, CHR 0x0A]) = json"
    using text_lines_line [OF nl, of "[CHR 0x0A]"] data_of_frame_line [OF assms(3,4,5)]
    by (simp add: event_data_def List.map_filter_def data_of_line_def strip_cr_def starts_with_def)
  ultimately show ?thesis
    using cut assms(1,3) by (simp add: try_pop_event_def Let_def)
qed

lemma next_event_frame:
  assumes "spy_json_ok J e" "spy_sse_frame J e = Some frame" "b @ concat chunks = frame @ rest"
  shows "\<exists>b' cs'. next_event J b chunks = (Inr (Some e), b', cs') \<and> b' @ concat cs' = rest"
proof -
  obtain json where j: "ij_spy J e = Some json" "ij_spy_of J json = Some e" "utf8_valid json" "json \<noteq> []"
    "hd json = CHR 0x7B" "last json = CHR 0x7D" "CHR 0x0A \<notin> set json"
    using assms(1) by (auto simp: spy_json_ok_def)
  let ?line = "''data: '' @ json"
  have frame: "frame = ?line @ [CHR 0x0A, CHR 0x0A]" using assms(2) j by (simp add: spy_sse_frame_def)
  have nl: "CHR 0x0A \<notin> set ?line" using j by simp
  show ?thesis
    using assms(3)
  proof (induction chunks arbitrary: b)
    case Nil
    then have "b = ?line @ CHR 0x0A # CHR 0x0A # rest" using frame by simp
    then show ?case using try_pop_frame [OF j(2-7), of rest] by simp
  next
    case (Cons chunk chunks)
    show ?case
    proof (cases "length b < length frame")
      case True
      have "event_end b = None"
        by (rule event_end_prefix [OF nl, of b "concat (chunk # chunks)" rest])
          (use Cons.prems True frame in simp_all)
      then have "next_event J b (chunk # chunks) = next_event J (b @ chunk) chunks"
        by (simp add: try_pop_event_def)
      with Cons.IH [of "b @ chunk"] Cons.prems show ?thesis by simp
    next
      case False
      then obtain r where b: "b = frame @ r"
        using Cons.prems by (auto simp: append_eq_append_conv2 dest: arg_cong [where f = length])
      then have "try_pop_event J b = (Inr (Some e), r)"
        using try_pop_frame [OF j(2-7), of r] frame by simp
      with b Cons.prems show ?thesis by simp
    qed
  qed
qed

lemma next_event_empty:
  "b = [] \<Longrightarrow> concat chunks = [] \<Longrightarrow> fst (next_event J b chunks) = Inr None"
  by (induction chunks arbitrary: b) (simp_all add: try_pop_event_def)

lemma spy_loop_frames:
  assumes "\<forall>e\<in>set es. spy_json_ok J e" and "map (spy_sse_frame J) es = map Some frames"
    and "b @ concat chunks = concat frames"
  shows "spy_loop (Suc (length es)) J b chunks = Inr es"
  using assms
proof (induction es arbitrary: frames b chunks)
  case Nil
  then show ?case using next_event_empty [of b chunks J] by (cases "next_event J b chunks") auto
next
  case (Cons e es)
  then obtain f fs where fs: "frames = f # fs" "spy_sse_frame J e = Some f" "map (spy_sse_frame J) es = map Some fs"
    by (cases frames) auto
  obtain b' cs' where "next_event J b chunks = (Inr (Some e), b', cs')" "b' @ concat cs' = concat fs"
    using next_event_frame [of J e f b chunks "concat fs"] Cons.prems fs by auto
  with Cons.IH [of fs b' cs'] Cons.prems fs show ?case by simp
qed

section \<open>From the engine to \<open>ob spy\<close>\<close>

fun live_events :: "spy_item list \<Rightarrow> spy_event list" where
  "live_events [] = []"
| "live_events (RecvEvent e # items) = e # live_events items"
| "live_events (RecvLagged n # items) = Lagged n # live_events items"
| "live_events (RecvClosed # items) = []"
| "live_events (RecvCancelled # items) = []"

definition session_events :: "spy_open \<Rightarrow> spy_item list \<Rightarrow> spy_event list" where
  "session_events open items =
     SessionStarted (so_daemon_writer_id_b64 open) # NamespaceSnapshot (so_namespace_snapshot_b64 open) #
     live_events items"

lemma spy_frame_some: "spy_json_ok J e \<Longrightarrow> \<exists>f. spy_sse_frame J e = Some f"
  by (auto simp: spy_json_ok_def spy_sse_frame_def)

lemma live_frames_events:
  "\<forall>e\<in>set (live_events items). spy_json_ok J e \<Longrightarrow>
    map (spy_sse_frame J) (live_events items) = map Some (live_frames J items)"
  by (induction J items rule: live_frames.induct) (auto dest: spy_frame_some)

text \<open>(C27) However the response is cut into chunks, \<open>ob spy\<close> sees the session, the snapshot and
  then every event the engine published, in order and whole, up to the end of the stream.\<close>
theorem spy_stream_delivers:
  assumes "\<forall>e\<in>set (session_events open items). spy_json_ok J e"
    and "spy_response_frames J open items = Inr frames" and "concat chunks = concat frames"
  shows "spy_loop (Suc (length (session_events open items))) J [] chunks = Inr (session_events open items)"
proof (rule spy_loop_frames [OF assms(1)])
  show "map (spy_sse_frame J) (session_events open items) = map Some frames"
    using assms(1,2) live_frames_events [of items J]
    by (auto simp: session_events_def spy_response_frames_def bind_res_def ok_or_def
        split: option.splits)
qed (simp add: assms(3))

section \<open>Builds that differ\<close>

definition visible_build :: "build \<Rightarrow> bool" where
  "visible_build B \<longleftrightarrow> list_all visible_char (bd_version B) \<and> list_all visible_char (bd_hash B)"

text \<open>The exchange with a daemon whose engine answers \<open>A\<close>.\<close>

definition exchange ::
    "('d, 'sv) ext \<Rightarrow> ipc_json \<Rightarrow> build \<Rightarrow> control_config \<Rightarrow> engine_answers \<Rightarrow> http_request \<Rightarrow> ipc_error + http_response" where
  "exchange X J B C A r =
     (case fst (handle_control_request X J B C A r) of
        Plain response \<Rightarrow> Inr response
      | SpyStream _ \<Rightarrow> Inl StreamError)"

definition status_json_ok :: "ipc_json \<Rightarrow> daemon_status \<Rightarrow> bool" where
  "status_json_ok J st \<longleftrightarrow> (\<exists>b. ij_status J st = Some b \<and> ij_status_of J b = Some st)"

definition stop_reply :: "daemon_status \<Rightarrow> stop_response" where
  "stop_reply st = \<lparr>sr_workspace_id = dms_workspace_id st, sr_pid = dms_pid st\<rparr>"

definition stop_json_ok :: "ipc_json \<Rightarrow> stop_response \<Rightarrow> bool" where
  "stop_json_ok J r \<longleftrightarrow> (\<exists>b. ij_stop J r = Some b \<and> ij_stop_of J b = Some r)"

lemma ipc_protocol_visible [simp]: "list_all visible_char ipc_protocol"
  by (simp add: ipc_protocol_def visible_char_def byte_in_def)

lemma ipc_header_simps [simp]:
  "visible_build B \<Longrightarrow> ipc_header (hq_headers (ipc_request B m p)) ''x-opbox-client-ipc-protocol'' = Some ipc_protocol"
  "visible_build B \<Longrightarrow> ipc_header (hq_headers (ipc_request B m p)) ''x-opbox-client-build'' = Some (bd_hash B)"
  "visible_build B \<Longrightarrow> ipc_header (hr_headers (ipc_response B n ct b)) ''x-opbox-ipc-protocol'' = Some ipc_protocol"
  "visible_build B \<Longrightarrow> ipc_header (hr_headers (ipc_response B n ct b)) ''x-opbox-version'' = Some (bd_version B)"
  "visible_build B \<Longrightarrow> ipc_header (hr_headers (ipc_response B n ct b)) ''x-opbox-build'' = Some (bd_hash B)"
  by (simp_all add: ipc_header_def ipc_request_def ipc_response_def visible_build_def)

lemma mismatch_of_response:
  "visible_build B \<Longrightarrow> daemon_build_mismatch B' (hr_headers (ipc_response B n ct b)) =
    (if bd_hash B = bd_hash B' then None
     else Some \<lparr>bm_client_version = bd_version B', bm_client_build = bd_hash B',
       bm_daemon_version = bd_version B, bm_daemon_build = bd_hash B\<rparr>)"
  by (simp add: daemon_build_mismatch_def)

lemma ipc_request_fields [simp]: "hq_method (ipc_request B m p) = m" "hq_path (ipc_request B m p) = p"
  "hr_status (ipc_response B n ct b) = n" "hr_body (ipc_response B n ct b) = b"
  by (simp_all add: ipc_request_def ipc_response_def)

lemma client_error_of_request:
  "visible_build B' \<Longrightarrow> bd_hash B = bd_hash B' \<or> m = POST \<and> p = ''/stop'' \<Longrightarrow>
    client_metadata_error B (ipc_request B' m p) = None"
  by (auto simp: client_metadata_error_def)

lemma client_refused:
  "visible_build B' \<Longrightarrow> bd_hash B \<noteq> bd_hash B' \<Longrightarrow> m \<noteq> POST \<Longrightarrow>
    \<exists>body. client_metadata_error B (ipc_request B' m p) = Some (text_response B 409 body)"
  by (auto simp: client_metadata_error_def)

lemma ipc_status_answer:
  assumes "visible_build B" "visible_build B'" "status_json_ok J st" "ea_status A = Some st"
  shows "request_status J B' (exchange X J B C A) =
    (if bd_hash B = bd_hash B' then Inr st
     else Inl (BuildMismatch \<lparr>bm_client_version = bd_version B', bm_client_build = bd_hash B',
       bm_daemon_version = bd_version B, bm_daemon_build = bd_hash B\<rparr>))"
proof -
  obtain b where b: "ij_status J st = Some b" "ij_status_of J b = Some st"
    using assms(3) by (auto simp: status_json_ok_def)
  show ?thesis
  proof (cases "bd_hash B = bd_hash B'")
    case True
    have "client_metadata_error B (ipc_request B' GET ''/status'') = None"
      by (rule client_error_of_request) (use assms True in simp_all)
    with True assms b show ?thesis
      by (simp add: request_status_def request_json_def exchange_def handle_control_request_def
          json_response_def read_json_response_def validate_daemon_metadata_def mismatch_of_response)
  next
    case False
    obtain body where "client_metadata_error B (ipc_request B' GET ''/status'') = Some (text_response B 409 body)"
      using client_refused [of B' B GET "''/status''"] assms(2) False by auto
    with False assms show ?thesis
      by (simp add: request_status_def request_json_def exchange_def handle_control_request_def
          text_response_def read_json_response_def validate_daemon_metadata_def mismatch_of_response)
  qed
qed

lemma ipc_stop_answer:
  assumes "visible_build B" "visible_build B'" "stop_json_ok J (stop_reply st)" "ea_stop A = Some st"
  shows "request_stop J B' (exchange X J B C A) =
    Inr (stop_reply st)"
proof -
  obtain b where b: "ij_stop J (stop_reply st) = Some b"
    "ij_stop_of J b = Some (stop_reply st)"
    using assms(3) unfolding stop_json_ok_def by blast
  have "client_metadata_error B (ipc_request B' POST ''/stop'') = None"
    by (rule client_error_of_request) (use assms in simp_all)
  with assms b show ?thesis
    by (simp add: request_stop_def request_json_def exchange_def handle_control_request_def
        json_response_def read_json_response_def validate_daemon_metadata_def mismatch_of_response stop_reply_def)
qed


section \<open>The socket\<close>

text \<open>Where the client connects: the target of the link, or the link itself when it is none.\<close>

definition resolve_socket_path :: "host_path \<Rightarrow> host_path app" where
  "resolve_socket_path root =
     on_result (host_read_link (socket_link_path root)) (\<lambda>r. case r of
       Inr p \<Rightarrow> done_app p
     | Inl k \<Rightarrow> if k = InvalidInput then done_app (socket_link_path root) else bail (IoError k))"

text \<open>A socket accepts as long as its daemon listens; anything else refuses.\<close>

definition host_connect :: "(nat \<Rightarrow> bool) \<Rightarrow> host_path \<Rightarrow> unit raw" where
  "host_connect listening p = reading (\<lambda>t.
     case stat_node p t of Inl k \<Rightarrow> Inl k
     | Inr (HSocket owner) \<Rightarrow> if listening owner then Inr () else Inl ConnectionRefused
     | Inr _ \<Rightarrow> Inl ConnectionRefused)"

text \<open>The connection part of \<open>send_request\<close>: a dead socket and its link are removed.\<close>

definition connect_daemon :: "(nat \<Rightarrow> bool) \<Rightarrow> host_path \<Rightarrow> unit app" where
  "connect_daemon listening root =
     then_app (resolve_socket_path root) (\<lambda>p.
       on_result (host_connect listening p) (\<lambda>r. case r of
         Inr _ \<Rightarrow> done_app ()
       | Inl k \<Rightarrow>
           if k = NotFound \<or> k = ConnectionRefused
           then on_result (remove_stale_socket_files root) (\<lambda>_. bail (IoError k))
           else bail (IoError k)))"

definition replace_socket_symlink :: "host_path \<Rightarrow> host_path \<Rightarrow> unit app" where
  "replace_socket_symlink socket_path link_path =
     then_app (remove_if_present link_path) (\<lambda>_. io_ok (host_symlink socket_path link_path))"

text \<open>The start of \<open>serve_control\<close> of daemon \<open>owner\<close>, up to its accept loop, and the guard's drop.\<close>

definition publish_socket :: "nat \<Rightarrow> host_path \<Rightarrow> host_path \<Rightarrow> unit app" where
  "publish_socket owner socket_path root =
     then_app (remove_if_present socket_path) (\<lambda>_.
       then_app (io_ok (changing (place_new socket_path (HSocket owner)))) (\<lambda>_.
         replace_socket_symlink socket_path (socket_link_path root)))"

definition drop_socket :: "host_path \<Rightarrow> host_path \<Rightarrow> unit app" where
  "drop_socket socket_path root =
     on_result (host_remove_file socket_path) (\<lambda>_.
       on_result (host_read_link (socket_link_path root)) (\<lambda>r.
         if r = Inr socket_path then on_result (host_remove_file (socket_link_path root)) (\<lambda>_. done_app ())
         else done_app ()))"

section \<open>Witnesses\<close>

definition demo_status :: daemon_status where
  "demo_status = \<lparr>dms_workspace_id = ''ws'', dms_basin = ''b'', dms_root = ''/w'', dms_pid = 7,
     dms_stable_cursor_end = 0, dms_daemon_writer_id_b64 = [], dms_started_at_ns = 0,
     dms_engine_phase = StatusIdle, dms_connectivity = snapshot_starting 0\<rparr>"

definition demo_json :: ipc_json where
  "demo_json = \<lparr>ij_status = (\<lambda>_. Some ''{}''), ij_status_of = (\<lambda>_. Some demo_status),
     ij_share = (\<lambda>_. None), ij_share_of = (\<lambda>_. None),
     ij_stop = (\<lambda>_. Some ''{}''), ij_stop_of = (\<lambda>_. Some (stop_reply demo_status)),
     ij_spy = (\<lambda>e. case e of SessionStarted _ \<Rightarrow> Some ''{s}'' | NamespaceSnapshot _ \<Rightarrow> Some ''{n}''
       | Lagged _ \<Rightarrow> Some ''{3}'' | _ \<Rightarrow> None),
     ij_spy_of = (\<lambda>b. if b = ''{s}'' then Some (SessionStarted ''w'')
       else if b = ''{n}'' then Some (NamespaceSnapshot ''d'') else if b = ''{3}'' then Some (Lagged 3) else None)\<rparr>"

definition demo_answers :: engine_answers where
  "demo_answers = \<lparr>ea_status = Some demo_status, ea_spy = None, ea_stop = Some demo_status\<rparr>"

lemma demo_spy_json_ok:
  "status_json_ok demo_json demo_status" "stop_json_ok demo_json (stop_reply demo_status)"
  "visible_build \<lparr>bd_version = ''1'', bd_hash = ''a''\<rparr>" "visible_build \<lparr>bd_version = ''2'', bd_hash = ''b''\<rparr>"
  "ea_status demo_answers = Some demo_status" "ea_stop demo_answers = Some demo_status"
  by (simp_all add: status_json_ok_def stop_json_ok_def demo_json_def visible_build_def visible_char_def
      byte_in_def demo_answers_def)

definition demo_control :: control_config where
  "demo_control = \<lparr>cc_root = ''w'', cc_daemon_state = \<lparr>ds_workspace_id = ''ws'', ds_s2_basin = ''b'',
     ds_s2_account_endpoint = None, ds_s2_basin_endpoint = None, ds_daemon_writer_id = ''wr'',
     ds_stable_cursor = 3, ds_next_outbox_id = 0, ds_encryption_key = replicate key_len (CHR ''k'')\<rparr>\<rparr>"


definition demo_open :: spy_open where
  "demo_open = \<lparr>so_daemon_writer_id_b64 = ''w'', so_namespace_snapshot_b64 = ''d''\<rparr>"

lemma demo_session: "\<forall>e\<in>set (session_events demo_open [RecvLagged 3, RecvClosed]). spy_json_ok demo_json e"
  by (simp add: session_events_def spy_json_ok_def demo_json_def demo_open_def show_nat.simps digit_char_def
      byte_in_def)

definition demo_frames :: "bytes list" where
  "demo_frames = [''data: {s}'' @ [CHR 0x0A, CHR 0x0A], ''data: {n}'' @ [CHR 0x0A, CHR 0x0A],
     ''data: {3}'' @ [CHR 0x0A, CHR 0x0A]]"

lemma demo_frames_served: "spy_response_frames demo_json demo_open [RecvLagged 3, RecvClosed] = Inr demo_frames"
  by (simp add: spy_response_frames_def spy_sse_frame_def demo_json_def demo_frames_def bind_res_def ok_or_def
      show_nat.simps digit_char_def)

theorem spy_stream_delivers_witness:
  "spy_loop 4 demo_json [] [take 5 (concat demo_frames), drop 5 (concat demo_frames)] =
    Inr [SessionStarted ''w'', NamespaceSnapshot ''d'', Lagged 3]"
  using spy_stream_delivers [OF demo_session demo_frames_served,
      of "[take 5 (concat demo_frames), drop 5 (concat demo_frames)]"]
  by (simp add: session_events_def demo_open_def numeral_eq_Suc)

end
