(* ===== verification/Cli.thy ===== *)
theory Cli
  imports Runtime Ipc
begin

text \<open>
  \<open>crates/client/src/main.rs\<close>: the texts \<open>ob\<close> prints, the ignore files it writes, how a workspace
  is set up before \<open>init\<close> or \<open>clone\<close> runs, share tokens, and starting and stopping the daemon. What
  S2, the daemon and the random generator answer is part of the arguments; terminal colours, the
  progress bar and argument parsing are left out.
\<close>

section \<open>Texts\<close>

definition plural :: "nat \<Rightarrow> string" where
  "plural n = (if n = 1 then [] else ''s'')"

definition counted :: "nat \<Rightarrow> string \<Rightarrow> string" where
  "counted n unit = show_nat n @ '' '' @ unit @ plural n"

definition duration_text :: "nat \<Rightarrow> string" where
  "duration_text seconds =
     (if seconds \<noteq> 0 \<and> seconds mod 86400 = 0 then counted (seconds div 86400) ''day''
      else if seconds \<noteq> 0 \<and> seconds mod 3600 = 0 then counted (seconds div 3600) ''hour''
      else if seconds \<noteq> 0 \<and> seconds mod 60 = 0 then counted (seconds div 60) ''minute''
      else counted seconds ''second'')"

fun retention_summary_text :: "stream_retention_summary \<Rightarrow> string" where
  "retention_summary_text (RetentionAge seconds) = duration_text seconds"
| "retention_summary_text RetentionUnspecified = ''not confirmed as Infinite''"

fun daemon_warning_text :: "string \<Rightarrow> string \<Rightarrow> daemon_warning \<Rightarrow> string \<times> string list" where
  "daemon_warning_text basin workspace_id (OpsStreamRetentionNotInfinite r) =
     (''ops stream retention is '' @ retention_summary_text r,
      [''future clones may fail after records expire.'',
       ''if this workspace is disposable, fix the basin default and recreate it.'',
       ''to keep this workspace, reconfigure the ops stream:'',
       ''$ s2 reconfigure-stream s2://'' @ basin @ ''/'' @ workspace_id @ ''/ops --retention-policy infinite'',
       ''this does not restore expired records; existing object streams may also need reconfiguration.''])"
| "daemon_warning_text basin workspace_id (BasinDefaultStreamRetentionNotInfinite r) =
     (''basin default stream retention is '' @ retention_summary_text r,
      [''future multipart object streams may expire.'',
       ''for new/prototype workspaces, fix the basin default and recreate the opbox workspace:'',
       ''$ s2 reconfigure-basin '' @ basin @ '' --retention-policy infinite'',
       ''this does not change existing streams or restore records that may already have expired.''])"

definition print_warning :: "string \<Rightarrow> string \<Rightarrow> daemon_warning \<Rightarrow> unit app" where
  "print_warning basin workspace_id w =
     (let (headline, details) = daemon_warning_text basin workspace_id w
      in print_lines ((''warning: '' @ headline) # map (\<lambda>l. ''           '' @ l) details))"

definition print_retention_check_warning :: "string \<Rightarrow> string \<Rightarrow> unit app" where
  "print_retention_check_warning target error_text =
     print_line (''warning: could not verify '' @ target @ '' retention: '' @ error_text @
       ''. Opbox workspaces should use Infinite retention for the ops stream and basin default stream config.'')"

definition retry_after_text :: "time_ns \<Rightarrow> link_status \<Rightarrow> string option" where
  "retry_after_text now s =
     map_option (\<lambda>ns. let secs = ns div 1000000000 in if secs = 0 then ''now'' else show_nat secs @ ''s'')
       (retry_after now s)"

definition link_detail_text :: "time_ns \<Rightarrow> link_status \<Rightarrow> string" where
  "link_detail_text now s =
     (case ls_state s of
        Online \<Rightarrow> ''online''
      | Reconnecting \<Rightarrow> ''reconnecting''
      | Offline \<Rightarrow> (case retry_after_text now s of
            None \<Rightarrow> ''offline'' | Some r \<Rightarrow> ''offline, retrying in '' @ r))"

fun join_strings :: "string \<Rightarrow> string list \<Rightarrow> string" where
  "join_strings sep [] = []"
| "join_strings sep [p] = p"
| "join_strings sep (p # ps) = p @ sep @ join_strings sep ps"

definition connectivity_status_text :: "time_ns \<Rightarrow> connectivity_snapshot \<Rightarrow> string" where
  "connectivity_status_text now c =
     (case cs_overall c of
        OverallOnline \<Rightarrow> ''online''
      | OverallReconnecting \<Rightarrow> ''reconnecting to S2''
      | OverallOffline \<Rightarrow>
          (case or_else (retry_after_text now (cs_reader c)) (retry_after_text now (cs_writer c)) of
             None \<Rightarrow> ''offline'' | Some r \<Rightarrow> ''offline, retrying in '' @ r)
      | OverallDegraded \<Rightarrow>
          ''degraded, '' @ join_strings '', ''
            ((if ls_state (cs_reader c) \<noteq> Online then [''reader '' @ link_detail_text now (cs_reader c)] else []) @
             (if ls_state (cs_writer c) \<noteq> Online then [''writer '' @ link_detail_text now (cs_writer c)] else [])))"

section \<open>Ignore files\<close>

definition str_trim_end :: "string \<Rightarrow> string" where
  "str_trim_end s = rev (trim_front (map rev white_space) (length s) (rev s))"

definition ends_with_newline :: "string \<Rightarrow> bool" where
  "ends_with_newline s \<longleftrightarrow> s \<noteq> [] \<and> last s = CHR 0x0A"

definition with_newline :: "string \<Rightarrow> string" where
  "with_newline s = (if ends_with_newline s then s else s @ [CHR 0x0A])"

fun crlf_to_lf :: "string \<Rightarrow> string" where
  "crlf_to_lf (a # b # s) =
     (if a = CHR 0x0D \<and> b = CHR 0x0A then CHR 0x0A # crlf_to_lf s else a # crlf_to_lf (b # s))"
| "crlf_to_lf s = s"

definition default_ignore_lines :: "string list" where
  "default_ignore_lines =
     [''# opbox always ignores .opbox/ internally.'',
      ''# .opboxignore uses gitignore syntax.'',
      ''# A bare name matches that file or directory at any depth.'', [],
      ''# version control'', ''.git'', [],
      ''# build artifacts and dependency trees'', ''target'', ''node_modules'', ''__pycache__'', ''*.pyc'', [],
      ''# editors and IDEs'', ''.idea'', ''*.swp'', ''*.swo'', ''*~'', ''.#*'', [],
      ''# operating system noise'', ''.DS_Store'', ''Thumbs.db'']"

definition default_ignore_file_contents :: string where
  "default_ignore_file_contents = concat (map (\<lambda>l. l @ [CHR 0x0A]) default_ignore_lines)"

definition gitignore_path :: "host_path \<Rightarrow> host_path" where
  "gitignore_path root = root @ [''.gitignore'']"

definition gitignore_contents_for_opboxignore :: "host_path \<Rightarrow> string app" where
  "gitignore_contents_for_opboxignore root =
     on_result (host_read_to_string (gitignore_path root)) (\<lambda>r. case r of
       Inr b \<Rightarrow> done_app (with_newline (crlf_to_lf b))
     | Inl k \<Rightarrow> if k = NotFound then done_app [] else bail (IoError k))"

definition imported_ignore :: "string \<Rightarrow> string" where
  "imported_ignore gitignore =
     (if str_trim gitignore = [] then default_ignore_file_contents
      else with_newline default_ignore_file_contents @ [CHR 0x0A] @
        ''# Imported from .gitignore by ob init.'' @ [CHR 0x0A] @
        ''# Edit this file if opbox should track a different set of paths.'' @ [CHR 0x0A] @
        str_trim_end gitignore @ [CHR 0x0A])"

definition default_ignore_file_contents_for_root :: "host_path \<Rightarrow> string app" where
  "default_ignore_file_contents_for_root root =
     then_app (gitignore_contents_for_opboxignore root) (\<lambda>g. done_app (imported_ignore g))"

definition ignore_path :: "host_path \<Rightarrow> host_path" where
  "ignore_path root = root @ [''.opboxignore'']"

definition create_default_ignore_file :: "host_path \<Rightarrow> unit app" where
  "create_default_ignore_file root =
     on_result (host_create_new 420 (ignore_path root)) (\<lambda>r. case r of
       Inr _ \<Rightarrow> then_app (default_ignore_file_contents_for_root root) (\<lambda>c.
         io_ok (host_write_all (ignore_path root) c))
     | Inl k \<Rightarrow> if k = AlreadyExists then done_app () else bail (IoError k))"

definition names_metadata_dir :: "string \<Rightarrow> bool" where
  "names_metadata_dir line \<longleftrightarrow>
     line \<noteq> [] \<and> hd line \<noteq> CHR ''#'' \<and>
     line \<in> {metadata_dir_name, metadata_dir_name @ ''/'', ''/'' @ metadata_dir_name, ''/'' @ metadata_dir_name @ ''/''}"

definition gitignore_contains_metadata_dir :: "string \<Rightarrow> bool" where
  "gitignore_contains_metadata_dir contents \<longleftrightarrow>
     list_ex (\<lambda>l. names_metadata_dir (str_trim l)) (text_lines contents)"

definition ensure_gitignore_metadata_entry :: "string \<Rightarrow> string" where
  "ensure_gitignore_metadata_entry contents =
     (if gitignore_contains_metadata_dir contents then contents
      else (if contents \<noteq> [] \<and> \<not> ends_with_newline contents then contents @ [CHR 0x0A] else contents) @
        metadata_dir_name @ [CHR 0x0A])"

definition add_metadata_dir_to_gitignore_if_present :: "host_path \<Rightarrow> unit app" where
  "add_metadata_dir_to_gitignore_if_present root =
     on_result (host_read_to_string (gitignore_path root)) (\<lambda>r. case r of
       Inr b \<Rightarrow> host_write (gitignore_path root) (ensure_gitignore_metadata_entry b)
     | Inl k \<Rightarrow> if k = NotFound then done_app () else bail (IoError k))"

section \<open>Setting a workspace up\<close>

text \<open>\<open>--as-of\<close>: the RFC 3339 parser is a parameter; the clone reads up to the end of the millisecond.\<close>

definition clone_as_of :: "(string \<Rightarrow> int option) \<Rightarrow> string \<Rightarrow> app_error + nat" where
  "clone_as_of rfc3339 v =
     (if length v > 10 \<and> v ! 10 \<in> {CHR ''T'', CHR ''t''}
      then (case rfc3339 v of
          None \<Rightarrow> Inl (InvalidValue ''as-of'' v)
        | Some ns \<Rightarrow>
            if ns < 0 then Inl (InvalidValue ''as-of'' v)
            else let ms = nat (ns div 1000000)
                 in if ms > u64_max then Inl (InvalidValue ''as-of'' v)
                    else (case checked_add_u64 ms 1 of
                        None \<Rightarrow> Inl (InvalidValue ''as-of'' v) | Some n \<Rightarrow> Inr n))
      else Inl (InvalidValue ''as-of'' v))"

definition root_or_current :: "host_path option \<Rightarrow> host_path app" where
  "root_or_current arg h = (Inr (case arg of Some p \<Rightarrow> p | None \<Rightarrow> h_cwd h), h)"

definition fresh_daemon_state_row ::
    "string \<Rightarrow> string \<Rightarrow> s2_connection \<Rightarrow> bytes \<Rightarrow> writer_id \<Rightarrow> daemon_state_row" where
  "fresh_daemon_state_row workspace_id basin connection key writer =
     (let (account, endpoint) = endpoint_pair_for_metadata connection
      in \<lparr>ds_workspace_id = workspace_id, ds_s2_basin = basin, ds_s2_account_endpoint = account,
          ds_s2_basin_endpoint = endpoint, ds_daemon_writer_id = writer, ds_stable_cursor = 0,
          ds_next_outbox_id = 0, ds_encryption_key = key\<rparr>)"

text \<open>Random values, the clock and the answers of S2 to the set-up requests; errors of the
  retention requests come with their text.\<close>

record bootstrap_env =
  be_workspace_id :: string
  be_key :: bytes
  be_writer :: writer_id
  be_now :: time_ns
  be_create :: "request_error option"
  be_tail :: "session_error option"
  be_stream_config :: "string + retention_policy option"
  be_basin_config :: "string + retention_policy option option"

record bootstrap =
  bp_mode :: run_mode
  bp_db_path :: host_path
  bp_sync_root :: host_path
  bp_daemon_row :: daemon_state_row
  bp_s2_connection :: s2_connection
  bp_clone_stop :: "nat option"
  bp_clobber :: bool

definition report_retention :: "string \<Rightarrow> string \<Rightarrow> string \<Rightarrow> string + daemon_warning option \<Rightarrow> unit app" where
  "report_retention basin workspace_id target r =
     (case r of
        Inr (Some w) \<Rightarrow> print_warning basin workspace_id w
      | Inr None \<Rightarrow> done_app ()
      | Inl text \<Rightarrow> print_retention_check_warning target text)"

definition warn_if_retention_not_infinite ::
    "bootstrap_env \<Rightarrow> string \<Rightarrow> string \<Rightarrow> user_config \<Rightarrow> user_config \<Rightarrow> unit app" where
  "warn_if_retention_not_infinite V basin workspace_id workspace user =
     then_app (lift_app (skip_retention_checks workspace user)) (\<lambda>skip.
       if skip then done_app ()
       else then_app (report_retention basin workspace_id ''workspace ops stream''
              (map_sum id stream_config_retention_warning (be_stream_config V))) (\<lambda>_.
            report_retention basin workspace_id ''basin default stream''
              (map_sum id basin_config_retention_warning (be_basin_config V))))"

definition save_workspace_config :: "cli_ext \<Rightarrow> host_path \<Rightarrow> user_config \<Rightarrow> unit app" where
  "save_workspace_config E root c = save_user_config_to_path E c (workspace_config_path root)"

definition bootstrap_init ::
    "('d, 'sv) ext \<Rightarrow> cli_ext \<Rightarrow> bootstrap_env \<Rightarrow> host_path option \<Rightarrow> user_config \<Rightarrow> config_overrides \<Rightarrow>
     bootstrap app" where
  "bootstrap_init X E V arg user overrides =
     then_app (lift_app (workspace_config_from_overrides E overrides user)) (\<lambda>(workspace, basin, connection).
     then_app (root_or_current arg) (\<lambda>requested.
     then_app (canonicalize_existing_dir requested) (\<lambda>root.
     then_app (ensure_sync_root_unconfigured X root) (\<lambda>_.
     then_app (lift_app (s2_client_from_config E connection)) (\<lambda>_.
     then_app (lift_db (create_workspace_stream X (be_workspace_id V) (be_create V))) (\<lambda>_.
     then_app (warn_if_retention_not_infinite V basin (be_workspace_id V) workspace user) (\<lambda>_.
     let row = fresh_daemon_state_row (be_workspace_id V) basin connection (be_key V) (be_writer V)
     in then_app (create_metadata_dir root) (\<lambda>_.
        then_app (save_workspace_config E root workspace) (\<lambda>_.
        then_app (create_default_ignore_file root) (\<lambda>_.
        then_app (add_metadata_dir_to_gitignore_if_present root) (\<lambda>_.
        then_app (create_initialized_database X (be_now V) (storage_db_path root) row) (\<lambda>_.
          done_app \<lparr>bp_mode = RunInit, bp_db_path = storage_db_path root, bp_sync_root = root,
            bp_daemon_row = row, bp_s2_connection = connection, bp_clone_stop = None,
            bp_clobber = False\<rparr>))))))))))))"

definition bootstrap_clone ::
    "('d, 'sv) ext \<Rightarrow> cli_ext \<Rightarrow> bootstrap_env \<Rightarrow> string \<Rightarrow> string \<Rightarrow> host_path option \<Rightarrow> nat option \<Rightarrow> bool \<Rightarrow>
     user_config \<Rightarrow> config_overrides \<Rightarrow> bootstrap app" where
  "bootstrap_clone X E V workspace_id cipher arg stop clobber user overrides =
     then_app (lift_app (workspace_config_from_overrides E overrides user)) (\<lambda>(workspace, basin, connection).
     then_app (root_or_current arg) (\<lambda>requested.
     then_app (host_try_exists requested) (\<lambda>present.
     then_app (if present then host_is_dir requested else done_app False) (\<lambda>is_dir.
     then_app (if is_dir then ensure_sync_root_unconfigured X requested else done_app ()) (\<lambda>_.
     then_app (ensure_clone_root requested clobber) (\<lambda>root.
     then_app (ensure_sync_root_unconfigured X root) (\<lambda>_.
     then_app (lift_app (s2_client_from_config E connection)) (\<lambda>_.
     then_app (lift_db (ensure_workspace_stream_exists X workspace_id (be_tail V))) (\<lambda>_.
     then_app (lift_db (cipher_key_from_str X cipher)) (\<lambda>key.
     then_app (warn_if_retention_not_infinite V basin workspace_id workspace user) (\<lambda>_.
     let row = fresh_daemon_state_row workspace_id basin connection key (be_writer V)
     in then_app (create_metadata_dir root) (\<lambda>_.
        then_app (save_workspace_config E root workspace) (\<lambda>_.
        then_app (create_initialized_database X (be_now V) (storage_db_path root) row) (\<lambda>_.
          done_app \<lparr>bp_mode = RunClone, bp_db_path = storage_db_path root, bp_sync_root = root,
            bp_daemon_row = row, bp_s2_connection = connection, bp_clone_stop = stop,
            bp_clobber = clobber\<rparr>))))))))))))))"

text \<open>What follows a run that succeeded: the ignore files of a clone.\<close>

definition finish_bootstrap :: "bootstrap \<Rightarrow> stop_error option \<Rightarrow> (stop_error + unit) app" where
  "finish_bootstrap b outcome =
     (case outcome of
        Some e \<Rightarrow> done_app (Inl e)
      | None \<Rightarrow>
          if bp_mode b = RunClone
          then then_app (create_default_ignore_file (bp_sync_root b)) (\<lambda>_.
            if bp_clobber b
            then then_app (add_metadata_dir_to_gitignore_if_present (bp_sync_root b)) (\<lambda>_. done_app (Inr ()))
            else done_app (Inr ()))
          else done_app (Inr ()))"

section \<open>Share tokens\<close>

definition share_token_prefix :: "string \<Rightarrow> string" where
  "share_token_prefix workspace_id = ''opbox-'' @ workspace_id @ ''-''"

text \<open>The parser of token ids is a parameter that accepts or refuses a string.\<close>

definition parse_token_id :: "(string \<Rightarrow> bool) \<Rightarrow> string \<Rightarrow> app_error + string" where
  "parse_token_id ok t = (if ok t then Inr t else Inl (InvalidValue ''share token id'' t))"

definition share_token_id :: "(string \<Rightarrow> bool) \<Rightarrow> string \<Rightarrow> string \<Rightarrow> app_error + string" where
  "share_token_id ok workspace_id share_id =
     (if share_id = [] then Inl (EmptyValue ''share id'')
      else parse_token_id ok (share_token_prefix workspace_id @ share_id))"

definition share_token_id_from_arg :: "(string \<Rightarrow> bool) \<Rightarrow> string \<Rightarrow> string \<Rightarrow> app_error + string" where
  "share_token_id_from_arg ok workspace_id v =
     (if v = [] then Inl (EmptyValue ''share id'')
      else if starts_with v (share_token_prefix workspace_id) then parse_token_id ok v
      else if starts_with v ''opbox-'' then Inl (InvalidValue ''share token id'' v)
      else parse_token_id ok (share_token_prefix workspace_id @ v))"

definition share_id_from_token_id :: "string \<Rightarrow> string \<Rightarrow> string" where
  "share_id_from_token_id workspace_id token_id =
     (if starts_with token_id (share_token_prefix workspace_id)
      then drop (length (share_token_prefix workspace_id)) token_id else token_id)"

definition generated_share_id :: "nat \<Rightarrow> string" where
  "generated_share_id random = ''share-'' @ hex_digits 16 random"

datatype share_operation =
    GetBasinConfig | CreateStream | ListStreams | GetStreamConfig | CheckTail | AppendOp | ReadOp

record token_scope =
  ts_operations :: "share_operation list"
  ts_basin :: string
  ts_stream_prefix :: string

definition share_token_scope :: "(string \<Rightarrow> bool) \<Rightarrow> string \<Rightarrow> string \<Rightarrow> app_error + token_scope" where
  "share_token_scope prefix_ok workspace_id basin =
     (if prefix_ok (workspace_id @ ''/'')
      then Inr \<lparr>ts_operations = [GetBasinConfig, CreateStream, ListStreams, GetStreamConfig, CheckTail, AppendOp, ReadOp],
        ts_basin = basin, ts_stream_prefix = workspace_id @ ''/''\<rparr>
      else Inl (InvalidValue ''stream prefix'' workspace_id))"

section \<open>The clone command\<close>

text \<open>The characters that need no quotes.\<close>

definition shell_safe :: "char \<Rightarrow> bool" where
  "shell_safe c \<longleftrightarrow>
     byte_in 97 122 c \<or> byte_in 65 90 c \<or> byte_in 48 57 c \<or>
     c \<in> {CHR ''_'', CHR ''-'', CHR ''.'', CHR ''/'', CHR '':'', CHR ''='', CHR ''@''}"

text \<open>The single quote, the backslash and \<open>'\''\<close>.\<close>

definition quote_char :: char where "quote_char = CHR 0x27"
definition backslash :: char where "backslash = CHR 0x5C"

fun escape_quotes :: "string \<Rightarrow> string" where
  "escape_quotes [] = []"
| "escape_quotes (c # s) =
     (if c = quote_char then [quote_char, backslash, quote_char, quote_char] else [c]) @ escape_quotes s"

definition shell_quote :: "string \<Rightarrow> string" where
  "shell_quote v = (if list_all shell_safe v then v else quote_char # escape_quotes v @ [quote_char])"

definition share_clone_command_lines ::
    "string \<Rightarrow> string \<Rightarrow> string \<Rightarrow> string \<Rightarrow> s2_connection \<Rightarrow> string list" where
  "share_clone_command_lines workspace_id basin access_token encryption_key connection =
     (let (account, endpoint) = endpoint_pair_for_metadata connection
      in [''ob clone '' @ [backslash],
          ''  --workspace '' @ shell_quote workspace_id @ '' '' @ [backslash],
          ''  --access-token '' @ shell_quote access_token @ '' '' @ [backslash],
          ''  --cipher '' @ shell_quote encryption_key @ '' '' @ [backslash]] @
         (case account of None \<Rightarrow> [] | Some a \<Rightarrow> [''  --account-endpoint '' @ shell_quote a @ '' '' @ [backslash]]) @
         (case endpoint of None \<Rightarrow> [] | Some b \<Rightarrow> [''  --basin-endpoint '' @ shell_quote b @ '' '' @ [backslash]]) @
         [''  --basin '' @ shell_quote basin])"

definition should_issue_bootstrap_share_token :: "s2_connection \<Rightarrow> bool" where
  "should_issue_bootstrap_share_token c \<longleftrightarrow> sc_access_token c \<noteq> ''ignored''"

section \<open>What a shell makes of the clone command\<close>

text \<open>Splitting a command into words, as POSIX shells do: blanks and line breaks separate, single
  quotes keep everything, a backslash keeps the next character and joins lines. \<open>quoted\<close> is the state
  inside quotes, \<open>w\<close> the word so far; other characters with a meaning are not accepted unquoted.\<close>

definition word_so_far :: "string option \<Rightarrow> string" where
  "word_so_far w = (case w of None \<Rightarrow> [] | Some x \<Rightarrow> x)"

definition word_end :: "string option \<Rightarrow> string list" where
  "word_end w = (case w of None \<Rightarrow> [] | Some x \<Rightarrow> [x])"

fun shell_words :: "bool \<Rightarrow> string option \<Rightarrow> string \<Rightarrow> string list option" where
  "shell_words True w [] = None"
| "shell_words True w (c # s) =
     (if c = quote_char then shell_words False w s else shell_words True (Some (word_so_far w @ [c])) s)"
| "shell_words False w [] = Some (word_end w)"
| "shell_words False w (c # s) =
     (if c = CHR '' '' \<or> c = CHR 0x0A then map_option ((@) (word_end w)) (shell_words False None s)
      else if c = quote_char then shell_words True (Some (word_so_far w)) s
      else if c = backslash
        then (case s of
            [] \<Rightarrow> None
          | d # s' \<Rightarrow>
              if d = CHR 0x0A then shell_words False w s'
              else shell_words False (Some (word_so_far w @ [d])) s')
      else if shell_safe c then shell_words False (Some (word_so_far w @ [c])) s
      else None)"

lemma word_so_far_simps [simp]: "word_so_far None = []" "word_so_far (Some x) = x"
  "word_end None = []" "word_end (Some x) = [x]"
  by (simp_all add: word_so_far_def word_end_def)

lemma append_single [simp]: "(@) [x] = (#) x"
  by (simp add: fun_eq_iff)

lemma append_nothing [simp]: "(@) [] = (\<lambda>xs. xs)"
  by (simp add: fun_eq_iff)

lemma shell_safe_plain:
  "shell_safe c \<Longrightarrow> c \<noteq> CHR '' '' \<and> c \<noteq> CHR 0x0A \<and> c \<noteq> quote_char \<and> c \<noteq> backslash"
  by (auto simp: shell_safe_def byte_in_def quote_char_def backslash_def)

lemma shell_words_safe:
  "list_all shell_safe v \<Longrightarrow> v \<noteq> [] \<Longrightarrow>
    shell_words False w (v @ rest) = shell_words False (Some (word_so_far w @ v)) rest"
proof (induction v arbitrary: w)
  case (Cons c v)
  have c: "c \<noteq> CHR '' ''" "c \<noteq> CHR 0x0A" "c \<noteq> quote_char" "c \<noteq> backslash" "shell_safe c"
    using shell_safe_plain [of c] Cons.prems by auto
  show ?case
  proof (cases "v = []")
    case False
    with Cons c show ?thesis by simp
  qed (use c in simp)
qed simp

lemma quote_backslash: "quote_char \<noteq> backslash" "backslash \<noteq> quote_char"
  "quote_char \<noteq> CHR '' ''" "quote_char \<noteq> CHR 0x0A" "backslash \<noteq> CHR '' ''" "backslash \<noteq> CHR 0x0A"
  by (simp_all add: quote_char_def backslash_def)

lemma shell_words_quoted:
  "shell_words True (Some x) (escape_quotes v @ quote_char # rest) = shell_words False (Some (x @ v)) rest"
proof (induction v arbitrary: x)
  case (Cons c v)
  then show ?case by (cases "c = quote_char") (simp_all add: quote_backslash)
qed simp

lemma shell_words_quote:
  assumes "v \<noteq> []"
  shows "shell_words False w (shell_quote v @ rest) = shell_words False (Some (word_so_far w @ v)) rest"
proof (cases "list_all shell_safe v")
  case True
  with assms show ?thesis by (simp add: shell_quote_def shell_words_safe)
next
  case False
  then show ?thesis
    using shell_words_quoted [of "word_so_far w" v rest] by (simp add: shell_quote_def quote_backslash)
qed

text \<open>An option and its value, continued on the next line or at the end.\<close>

lemma shell_words_space: "shell_words False w (CHR '' '' # s) = map_option ((@) (word_end w)) (shell_words False None s)"
  by simp

lemma shell_words_option:
  assumes "list_all shell_safe name" "name \<noteq> []" "v \<noteq> []"
  shows "shell_words False None (CHR '' '' # CHR '' '' # name @ CHR '' '' # shell_quote v @ rest) =
    map_option ((#) name) (shell_words False (Some v) rest)"
  using assms by (simp add: shell_words_safe shell_words_quote) (simp add: option.map_comp comp_def)

lemma shell_words_continue:
  "shell_words False (Some v) (CHR '' '' # backslash # CHR 0x0A # rest) =
    map_option ((#) v) (shell_words False None rest)"
  by (simp add: quote_backslash)

definition option_line :: "string \<Rightarrow> string \<Rightarrow> string" where
  "option_line name v = CHR '' '' # CHR '' '' # name @ CHR '' '' # shell_quote v @ [CHR '' '', backslash]"

lemma shell_words_option_line:
  "list_all shell_safe name \<Longrightarrow> name \<noteq> [] \<Longrightarrow> v \<noteq> [] \<Longrightarrow>
    shell_words False None (option_line name v @ CHR 0x0A # rest) =
    map_option (\<lambda>ws. name # v # ws) (shell_words False None rest)"
  using shell_words_option [of name v "CHR '' '' # backslash # CHR 0x0A # rest"] shell_words_continue [of v rest]
  by (simp add: option_line_def option.map_comp comp_def del: shell_words.simps)

text \<open>The words of the command \<open>ob\<close> should be started with.\<close>

definition clone_words :: "string \<Rightarrow> string \<Rightarrow> string \<Rightarrow> string \<Rightarrow> s2_connection \<Rightarrow> string list" where
  "clone_words workspace_id basin access_token encryption_key connection =
     [''ob'', ''clone'', ''--workspace'', workspace_id, ''--access-token'', access_token,
      ''--cipher'', encryption_key] @
     (case endpoint_pair_for_metadata connection of
        (Some a, Some b) \<Rightarrow> [''--account-endpoint'', a, ''--basin-endpoint'', b]
      | _ \<Rightarrow> []) @
     [''--basin'', basin]"

lemma option_names_safe:
  "list_all shell_safe ''--workspace''" "list_all shell_safe ''--access-token''" "list_all shell_safe ''--cipher''"
  "list_all shell_safe ''--account-endpoint''" "list_all shell_safe ''--basin-endpoint''"
  "list_all shell_safe ''--basin''" "list_all shell_safe ''ob''" "list_all shell_safe ''clone''"
  by (simp_all add: shell_safe_def byte_in_def)

lemmas shell_words_options = option_names_safe(1-5) [THEN shell_words_option_line]

lemma shell_words_last:
  "list_all shell_safe name \<Longrightarrow> name \<noteq> [] \<Longrightarrow> v \<noteq> [] \<Longrightarrow>
    shell_words False None (CHR '' '' # CHR '' '' # name @ CHR '' '' # shell_quote v) = Some [name, v]"
  using shell_words_option [of name v "[]"] by (simp del: shell_words.simps(4))

lemma shell_words_start:
  "shell_words False None (''ob clone '' @ backslash # CHR 0x0A # rest) =
    map_option (\<lambda>ws. ''ob'' # ''clone'' # ws) (shell_words False None rest)"
  by (simp add: quote_char_def backslash_def shell_safe_def byte_in_def option.map_comp comp_def)

text \<open>(C29) Pasted into a shell, the printed clone command starts \<open>ob\<close> with exactly the workspace,
  token, key, endpoints and basin it was made from, whatever characters they contain.\<close>
theorem clone_command_parses:
  assumes "workspace_id \<noteq> []" "basin \<noteq> []" "access_token \<noteq> []" "encryption_key \<noteq> []"
    and "sc_account_endpoint connection \<noteq> Some []" "sc_basin_endpoint connection \<noteq> Some []"
  shows "shell_words False None (join_with (CHR 0x0A)
      (share_clone_command_lines workspace_id basin access_token encryption_key connection)) =
    Some (clone_words workspace_id basin access_token encryption_key connection)"
proof -
  define lines where "lines =
    (case endpoint_pair_for_metadata connection of
       (Some a, Some b) \<Rightarrow> [option_line ''--account-endpoint'' a, option_line ''--basin-endpoint'' b] | _ \<Rightarrow> [])"
  have eq: "share_clone_command_lines workspace_id basin access_token encryption_key connection =
      (''ob clone '' @ [backslash]) # option_line ''--workspace'' workspace_id #
      option_line ''--access-token'' access_token # option_line ''--cipher'' encryption_key # lines @
      [''  --basin '' @ shell_quote basin]"
    by (auto simp: share_clone_command_lines_def lines_def option_line_def endpoint_pair_for_metadata_def
        split: option.split)
  show ?thesis
    using assms
    by (auto simp: eq lines_def clone_words_def endpoint_pair_for_metadata_def shell_words_options
        shell_words_last [OF option_names_safe(6), unfolded append.simps]
        shell_words_start [unfolded append.simps] simp del: shell_words.simps split: option.split)
qed

theorem clone_command_parses_witness:
  "shell_words False None (join_with (CHR 0x0A)
      (share_clone_command_lines ''w'' ''b'' [CHR 0x27, CHR '' ''] ''k''
        \<lparr>sc_access_token = ''t'', sc_account_endpoint = None, sc_basin_endpoint = None\<rparr>)) =
    Some [''ob'', ''clone'', ''--workspace'', ''w'', ''--access-token'', [CHR 0x27, CHR '' ''], ''--cipher'',
      ''k'', ''--basin'', ''b'']"
  using clone_command_parses [of "''w''" "''b''" "[CHR 0x27, CHR '' '']" "''k''"
      "\<lparr>sc_access_token = ''t'', sc_account_endpoint = None, sc_basin_endpoint = None\<rparr>"]
  by (simp add: clone_words_def endpoint_pair_for_metadata_def)

section \<open>Share tokens belong to their workspace\<close>

lemma starts_with_append_self [simp]: "starts_with (p @ s) p"
  by (simp add: starts_with_def)

lemma share_token_of_workspace:
  "share_token_id_from_arg ok workspace_id v = Inr t \<Longrightarrow> starts_with t (share_token_prefix workspace_id)"
  by (auto simp: share_token_id_from_arg_def parse_token_id_def split: if_splits)

lemma share_token_round_trip:
  assumes "share_token_id ok workspace_id share_id = Inr t"
  shows "share_id_from_token_id workspace_id t = share_id"
    and "share_token_id_from_arg ok workspace_id t = Inr t"
    and "\<not> starts_with share_id ''opbox-'' \<Longrightarrow> share_token_id_from_arg ok workspace_id share_id = Inr t"
proof -
  have t: "t = share_token_prefix workspace_id @ share_id" "ok t" "share_id \<noteq> []"
    using assms by (auto simp: share_token_id_def parse_token_id_def split: if_splits)
  show "share_id_from_token_id workspace_id t = share_id"
    by (simp add: t(1) share_id_from_token_id_def)
  show "share_token_id_from_arg ok workspace_id t = Inr t"
    using t by (simp add: share_token_id_from_arg_def parse_token_id_def)
  assume n: "\<not> starts_with share_id ''opbox-''"
  then have "\<not> starts_with share_id (share_token_prefix workspace_id)"
    using starts_with_trans [of share_id "share_token_prefix workspace_id" "''opbox-''"]
    by (auto simp: share_token_prefix_def starts_with_def)
  with n t show "share_token_id_from_arg ok workspace_id share_id = Inr t"
    by (simp add: share_token_id_from_arg_def parse_token_id_def)
qed

text \<open>A share id that itself begins like a token id can be issued, but not revoked by its share id.\<close>

lemma share_id_not_revocable:
  assumes "starts_with share_id ''opbox-''" "\<not> starts_with share_id (share_token_prefix workspace_id)"
    and "ok (share_token_prefix workspace_id @ share_id)"
  shows "(\<exists>t. share_token_id ok workspace_id share_id = Inr t) \<and>
    share_token_id_from_arg ok workspace_id share_id = Inl (InvalidValue ''share token id'' share_id)"
  using assms by (auto simp: share_token_id_def share_token_id_from_arg_def parse_token_id_def starts_with_def)

section \<open>The entry in \<open>.gitignore\<close>\<close>

lemma text_lines_append:
  "s = [] \<or> last s = CHR 0x0A \<Longrightarrow> text_lines (s @ t) = text_lines s @ text_lines t"
proof (induction s)
  case (Cons c s)
  show ?case
  proof (cases "c = CHR 0x0A")
    case True
    with Cons show ?thesis by (cases s) auto
  next
    case False
    with Cons.prems have s: "s \<noteq> []" "last s = CHR 0x0A" by (auto split: if_splits)
    then have "text_lines s \<noteq> []" by (cases s) (auto split: list.split)
    with False Cons s show ?thesis by (auto split: list.split)
  qed
qed simp

lemma metadata_line: "names_metadata_dir (str_trim metadata_dir_name)"
proof -
  have "str_trim metadata_dir_name = metadata_dir_name"
    by (simp add: str_trim_def metadata_dir_name_def white_space_def starts_with_def Let_def)
  then show ?thesis by (simp add: names_metadata_dir_def metadata_dir_name_def)
qed

lemma gitignore_entry_added:
  "gitignore_contains_metadata_dir (ensure_gitignore_metadata_entry c) \<and>
   ensure_gitignore_metadata_entry (ensure_gitignore_metadata_entry c) = ensure_gitignore_metadata_entry c \<and>
   starts_with (ensure_gitignore_metadata_entry c) c"
proof -
  have "gitignore_contains_metadata_dir (ensure_gitignore_metadata_entry c)"
  proof (cases "gitignore_contains_metadata_dir c")
    case False
    define d where "d = (if c \<noteq> [] \<and> \<not> ends_with_newline c then c @ [CHR 0x0A] else c)"
    have d: "d = [] \<or> last d = CHR 0x0A" by (auto simp: d_def ends_with_newline_def)
    have "text_lines (metadata_dir_name @ [CHR 0x0A]) = [metadata_dir_name]"
      by (simp add: metadata_dir_name_def)
    then have "text_lines (d @ metadata_dir_name @ [CHR 0x0A]) = text_lines d @ [metadata_dir_name]"
      using text_lines_append [OF d] by simp
    then show ?thesis
      using False metadata_line
      by (simp add: ensure_gitignore_metadata_entry_def d_def [symmetric] gitignore_contains_metadata_dir_def)
  qed (simp add: ensure_gitignore_metadata_entry_def)
  then show ?thesis
    by (auto simp: ensure_gitignore_metadata_entry_def starts_with_def)
qed

end
