(* ===== verification/Setup.thy ===== *)
theory Setup
  imports Cli
begin

text \<open>
  What \<open>bootstrap_init\<close> of \<open>crates/client/src/main.rs\<close> leaves on the machine: the programs that set a
  workspace up only add to the file system, so that what was made first is still there at the end,
  and the daemon finds the database that was written last.
\<close>

section \<open>A workspace that was set up\<close>

text \<open>Nothing is removed or replaced by something of another kind.\<close>

definition grows :: "host_tree \<Rightarrow> host_tree \<Rightarrow> bool" where
  "grows t t' \<longleftrightarrow> (\<forall>p. node_at t p \<noteq> None \<longrightarrow> alike (node_at t p) (node_at t' p))"

lemma alike_trans: "alike x y \<Longrightarrow> alike y z \<Longrightarrow> alike x z"
  by (auto simp: alike_def)

lemma alike_none [simp]: "alike x None \<longleftrightarrow> x = None"
  by (auto simp: alike_def)

interpretation grow: tree_steps grows
proof
  show "grows t t" for t by (simp add: grows_def alike_def)
  show "grows t t2" if a: "grows t t1" and b: "grows t1 t2" for t t1 t2
    unfolding grows_def
  proof (intro allI impI)
    fix p
    assume n: "node_at t p \<noteq> None"
    have "alike (node_at t p) (node_at t1 p)" using a n by (simp add: grows_def)
    moreover from this n have "node_at t1 p \<noteq> None" by (metis alike_none)
    with b have "alike (node_at t1 p) (node_at t2 p)" by (simp add: grows_def)
    ultimately show "alike (node_at t p) (node_at t2 p)" by (rule alike_trans)
  qed
qed

lemma grows_update: "alike (node_at t q) (Some n) \<or> node_at t q = None \<Longrightarrow> grows t (AList.update q n t)"
  by (auto simp: grows_def alike_def node_at_update)

lemma grows_place_new: "place_new p n t = (r, t') \<Longrightarrow> grows t t'"
  by (auto simp: place_new_def grow.stays intro!: grows_update
      split: sum.splits option.splits host_node.splits if_splits)

lemma follow_grows:
  assumes "grows t t'" "follow t n pre cs = Inr q"
  shows "follow t' n pre cs = Inr q"
  using assms
proof (induction t n pre cs rule: follow.induct)
  case (2 t n pre c cs)
  have "node_at t (pre @ [c]) \<noteq> None" using 2(4) by (auto split: option.splits)
  then have "alike (node_at t (pre @ [c])) (node_at t' (pre @ [c]))" using 2(3) by (simp add: grows_def)
  with 2(4) 2(1) [OF _ _ 2(3)] 2(2) [OF _ _ _ 2(3)] show ?case
    by (cases "node_at t' (pre @ [c])") (auto simp: alike_def split: host_node.splits nat.splits if_splits)
qed simp

lemma real_path_grows: "grows t t' \<Longrightarrow> real_path p t = Inr q \<Longrightarrow> real_path p t' = Inr q"
  unfolding real_path_def by (rule follow_grows)

text \<open>A new entry in a directory that can be reached is found where it was put.\<close>

lemma follow_placed:
  assumes "follow t n pre cs = Inr d" "node_at t d = Some (HDir m)" "node_at t (d @ [c]) = None"
    and "\<forall>target. nd \<noteq> HLink target"
  shows "follow (AList.update (d @ [c]) nd t) n pre (cs @ [c]) = Inr (d @ [c])"
  using assms
proof (induction t n pre cs rule: follow.induct)
  case (1 t n pre)
  then show ?case by (cases nd) (auto simp: node_at_update)
next
  case (2 t n pre c' cs)
  have "pre @ [c'] \<noteq> d @ [c]" using 2(3,5) by (auto split: option.splits)
  then show ?case
    using 2
    by (auto simp: node_at_update split: option.splits host_node.splits nat.splits if_splits)
qed

lemmas grow_simple [simp] = grow.within_simple
lemmas grow_on_result [intro] = grow.within_on_result
lemmas grow_then [intro] = grow.within_then
lemmas grow_io_ok [intro] = grow.within_io_ok

lemma grow_of_keeps: "keeps_tree m \<Longrightarrow> steps_within grows m"
  by (simp add: steps_within_def grow.stays)

lemma grow_tests [simp]:
  "steps_within grows (host_try_exists p)" "steps_within grows (host_is_dir p)"
  "steps_within grows (ensure_sync_root_exists p)" "steps_within grows (host_list p)"
  by (rule grow_of_keeps, simp)+

lemma grow_checks [simp]:
  "steps_within grows (host_read_to_string p)" "steps_within grows (canonicalize_existing_dir p)"
  "steps_within grows (ensure_sync_root_unconfigured X p)"
  by (rule grow_of_keeps, simp)+

lemma grow_calls [simp]:
  "steps_within grows (host_create_dir p)" "steps_within grows (host_create_new m p)"
  "steps_within grows (host_set_permissions p m)" "steps_within grows (host_open_truncate m p)"
  "steps_within grows (host_write_all p b)"
  unfolding host_create_dir_def host_create_new_def host_set_permissions_def host_open_truncate_def
    host_write_all_def
  by (rule grow.within_changing;
      auto simp: grow.stays stat_node_def alike_def intro!: grows_place_new grows_update
        split: sum.splits option.splits host_node.splits if_splits)+

lemma grow_create_dirs [simp]: "steps_within grows (host_create_dirs ps)"
proof (induction ps)
  case Nil
  then show ?case by (simp add: steps_within_def grow.stays)
next
  case (Cons p ps)
  let ?call = "changing (\<lambda>t. case stat_node p t of
          Inr n \<Rightarrow> (if is_dir_node n then Inr () else Inl AlreadyExists, t)
        | Inl k \<Rightarrow> if k = NotFound then place_new p (HDir 493) t else (Inl k, t))"
  have "steps_within grows ?call"
    by (rule grow.within_changing) (auto simp: grow.stays intro: grows_place_new split: sum.splits if_splits)
  then have "grows (h_nodes h) (h_nodes (snd (?call h))) \<and> h_faults (snd (?call h)) = h_faults h" for h
    by (simp add: steps_within_def)
  moreover have "grows (h_nodes h) (h_nodes (snd (host_create_dirs ps h))) \<and>
      h_faults (snd (host_create_dirs ps h)) = h_faults h" for h
    using Cons by (simp add: steps_within_def)
  moreover have "snd (host_create_dirs (p # ps) h) =
      (case fst (?call h) of Inl _ \<Rightarrow> snd (?call h) | Inr _ \<Rightarrow> snd (host_create_dirs ps (snd (?call h))))" for h
    by (auto split: prod.split sum.split)
  ultimately show ?case
    unfolding steps_within_def by (auto simp del: host_create_dirs.simps split: sum.split intro: grow.follows)
qed

lemma grow_programs [simp]:
  "steps_within grows (host_create_dir_all p)" "steps_within grows (host_write p b)"
  unfolding host_create_dir_all_def host_write_def by (auto intro!: grow_then)

lemma grow_lift [simp]: "steps_within grows (lift_app r)"
  by (simp add: lift_app_def split: sum.split)

lemma grow_root [simp]: "steps_within grows (root_or_current arg)"
  by (simp add: steps_within_def root_or_current_def grow.stays)

lemma grow_print_lines [simp]: "steps_within grows (print_lines ls)"
  by (induction ls) (auto intro!: grow_then)

lemma grow_warnings [simp]:
  "steps_within grows (report_retention basin w target r)"
  "steps_within grows (warn_if_retention_not_infinite V basin w workspace user)"
proof -
  show report: "steps_within grows (report_retention basin w target r)" for basin w target r
    by (auto simp: report_retention_def print_warning_def print_retention_check_warning_def Let_def
        split: sum.split option.split prod.split)
  show "steps_within grows (warn_if_retention_not_infinite V basin w workspace user)"
    unfolding warn_if_retention_not_infinite_def by (auto intro!: grow_then report)
qed

lemma grow_save [simp]: "steps_within grows (save_user_config_to_path E c p)"
  unfolding save_user_config_to_path_def write_config_file_def secure_config_dir_def
  by (auto intro!: grow_then grow_io_ok split: option.split)

lemma grow_metadata [simp]:
  "steps_within grows (save_workspace_config E root c)" "steps_within grows (create_metadata_dir root)"
  unfolding save_workspace_config_def create_metadata_dir_def by (auto intro!: grow_io_ok)

lemma grow_files [simp]:
  "steps_within grows (create_default_ignore_file root)"
  "steps_within grows (add_metadata_dir_to_gitignore_if_present root)"
  unfolding create_default_ignore_file_def add_metadata_dir_to_gitignore_if_present_def
    default_ignore_file_contents_for_root_def gitignore_contents_for_opboxignore_def
  by (auto intro!: grow_then grow_on_result grow_io_ok split: sum.split)

text \<open>The last step of the set-up: the database is written where the daemon looks for it.\<close>

lemma stat_dir_grows:
  "stat_node p t = Inr (HDir m) \<Longrightarrow> grows t t' \<Longrightarrow> \<exists>m'. stat_node p t' = Inr (HDir m')"
proof -
  assume s: "stat_node p t = Inr (HDir m)" and g: "grows t t'"
  then obtain q where q: "real_path p t = Inr q" "node_at t q = Some (HDir m)"
    by (auto simp: stat_node_def split: sum.splits option.splits)
  then have "alike (Some (HDir m)) (node_at t' q)" using g unfolding grows_def by (metis option.distinct(1))
  then show ?thesis using real_path_grows [OF g q(1)]
    by (cases "node_at t' q") (auto simp: stat_node_def alike_def)
qed

lemma place_in_dir:
  assumes "place_new (p @ [c]) n t = (Inr (), t')" "\<forall>target. n \<noteq> HLink target"
  shows "stat_node (p @ [c]) t' = Inr n \<and> (\<exists>m. stat_node p t' = Inr (HDir m)) \<and> grows t t'"
proof -
  obtain d m where d: "real_path p t = Inr d" "node_at t d = Some (HDir m)" "node_at t (d @ [c]) = None"
    and t': "t' = AList.update (d @ [c]) n t"
    using assms(1) by (auto simp: place_new_def entry_path_def split: sum.splits option.splits host_node.splits if_splits)
  have "grows t t'" using assms(1) by (rule grows_place_new)
  moreover have "real_path (p @ [c]) t' = Inr (d @ [c])"
    using follow_placed [OF _ d(2,3) assms(2)] d(1) by (simp add: real_path_def t')
  moreover have "stat_node p t = Inr (HDir m)" using d by (simp add: stat_node_def)
  ultimately show ?thesis
    using stat_dir_grows by (auto simp: stat_node_def t' node_at_update)
qed

lemma create_database_effect:
  assumes "create_initialized_database X now (p @ [c]) row h = (Inr (), h')" "no_faults h"
  shows "\<exists>d m. initialize_database X now row = Inr d \<and> stat_node (p @ [c]) (h_nodes h') = Inr (HDb False d) \<and>
    stat_node p (h_nodes h') = Inr (HDir m) \<and> grows (h_nodes h) (h_nodes h') \<and> no_faults h'"
proof -
  obtain h1 where h1: "host_create_dir_all p h = (Inr (), h1)"
    and r1: "then_app (lift_db (initialize_database X now row))
      (\<lambda>d. io_ok (changing (place_new (p @ [c]) (HDb False d)))) h1 = (Inr (), h')"
    using assms(1)
    by (auto simp: create_initialized_database_def app_simps split: prod.splits sum.splits)
  have g: "grows (h_nodes h) (h_nodes h1)" "no_faults h1"
    using steps_withinD [OF grow_programs(1) h1] assms(2) by (auto simp: no_faults_def)
  obtain d where d: "initialize_database X now row = Inr d"
    and p: "io_ok (changing (place_new (p @ [c]) (HDb False d))) h1 = (Inr (), h')"
    using r1 by (auto simp: lift_db_def app_simps split: prod.splits sum.splits)
  from p g(2) have "place_new (p @ [c]) (HDb False d) (h_nodes h1) = (Inr (), h_nodes h')" "no_faults h'"
    by (auto simp: app_simps changing_def Let_def no_faults_def split: prod.splits sum.splits if_splits)
  with place_in_dir [OF this(1)] g(1) d show ?thesis by (auto intro: grow.follows)
qed

lemma canonical_is_dir:
  "canonicalize_existing_dir p h = (Inr root, h') \<Longrightarrow> \<exists>m. stat_node root (h_nodes h') = Inr (HDir m)"
  by (auto simp: canonicalize_existing_dir_def ensure_sync_root_exists_def host_canonicalize_def host_stat_def
      reading_def app_simps elim!: is_dir_node.elims split: prod.splits sum.splits if_splits)

lemma initialized_database:
  assumes "initialize_database X now row = Inr d" "ds_stable_cursor row = 0"
  shows "db_daemon_state d = Some row \<and> \<not> init_appears_incomplete d"
proof -
  have "db_daemon_state d = Some row" "db_outbox d = []"
    using assms(1)
    by (auto simp: initialize_database_def insert_daemon_state_def insert_empty_namespaces_def Let_def
        insert_stable_namespace_def insert_prior_namespace_def empty_db_def bind_res_def ok_or_def
        split: sum.splits option.splits if_splits)
  then show ?thesis by (simp add: init_appears_incomplete_def)
qed

section \<open>What a program leaves behind\<close>

text \<open>A triple over the runs that succeed.\<close>

definition leaves :: "(host \<Rightarrow> bool) \<Rightarrow> 'a app \<Rightarrow> ('a \<Rightarrow> host \<Rightarrow> bool) \<Rightarrow> bool" where
  "leaves P m Q \<longleftrightarrow> (\<forall>h x h'. P h \<longrightarrow> m h = (Inr x, h') \<longrightarrow> Q x h')"

lemma leaves_then: "leaves P m R \<Longrightarrow> (\<And>x. leaves (R x) (f x) Q) \<Longrightarrow> leaves P (then_app m f) Q"
  unfolding leaves_def by (fastforce simp: then_app_def split: prod.splits sum.splits)

definition dir_at :: "host_path \<Rightarrow> host \<Rightarrow> bool" where
  "dir_at p h \<longleftrightarrow> no_faults h \<and> (\<exists>m. stat_node p (h_nodes h) = Inr (HDir m))"

lemma leaves_then_calm:
  "steps_within grows m \<Longrightarrow> (\<And>x. leaves no_faults (f x) Q) \<Longrightarrow> leaves no_faults (then_app m f) Q"
  by (rule leaves_then [of _ _ "\<lambda>_. no_faults"]) (auto simp: leaves_def no_faults_def dest: steps_withinD)

lemma leaves_then_dir:
  "steps_within grows m \<Longrightarrow> (\<And>x. leaves (dir_at p) (f x) Q) \<Longrightarrow> leaves (dir_at p) (then_app m f) Q"
  by (rule leaves_then [of _ _ "\<lambda>_. dir_at p"])
    (auto simp: leaves_def dir_at_def no_faults_def dest: steps_withinD stat_dir_grows)

lemma leaves_canonical: "leaves no_faults (canonicalize_existing_dir p) dir_at"
  unfolding leaves_def dir_at_def
  by (metis canonical_is_dir steps_withinD no_faults_def grow_checks(2))

lemma leaves_clone_root: "leaves no_faults (ensure_clone_root p clobber) dir_at"
  unfolding ensure_clone_root_def
  by (rule leaves_then_calm leaves_canonical | (simp; fail) | (auto intro!: grow_then grow_io_ok; fail))+

text \<open>A workspace that a daemon can start from.\<close>

definition set_up :: "bootstrap \<Rightarrow> host \<Rightarrow> bool" where
  "set_up b h \<longleftrightarrow>
     dir_at (bp_sync_root b) h \<and> dir_at (metadata_dir (bp_sync_root b)) h \<and>
     bp_db_path b = storage_db_path (bp_sync_root b) \<and>
     (\<exists>d. stat_node (bp_db_path b) (h_nodes h) = Inr (HDb False d) \<and>
        db_daemon_state d = Some (bp_daemon_row b) \<and> \<not> init_appears_incomplete d)"

lemma leaves_set_up:
  assumes "bp_sync_root b = root" "bp_db_path b = storage_db_path root" "bp_daemon_row b = row"
    and "ds_stable_cursor row = 0"
  shows "leaves (dir_at root)
    (then_app (create_initialized_database X now (storage_db_path root) row) (\<lambda>_. done_app b)) set_up"
proof -
  have "set_up b h'" if h: "dir_at root h"
    "create_initialized_database X now (storage_db_path root) row h = (Inr (), h')" for h h'
  proof -
    obtain d m where d: "initialize_database X now row = Inr d"
      "stat_node (storage_db_path root) (h_nodes h') = Inr (HDb False d)"
      "stat_node (metadata_dir root) (h_nodes h') = Inr (HDir m)"
      "grows (h_nodes h) (h_nodes h')" "no_faults h'"
      using create_database_effect [of X now "metadata_dir root" "''storage.db''"] h
      unfolding storage_db_path_def dir_at_def by blast
    with initialized_database [OF d(1) assms(4)] h(1) assms(1-3) show ?thesis
      by (auto simp: set_up_def dir_at_def dest: stat_dir_grows)
  qed
  then show ?thesis
    by (auto simp: leaves_def then_app_def done_app_def split: prod.splits sum.splits)
qed

lemma fresh_cursor [simp]: "ds_stable_cursor (fresh_daemon_state_row w basin c key writer) = 0"
  by (simp add: fresh_daemon_state_row_def split: prod.split)

lemma leaves_bootstrap_init: "leaves no_faults (bootstrap_init X E V arg user overrides) set_up"
  unfolding bootstrap_init_def Let_def
  by (rule leaves_then [OF leaves_canonical] leaves_then_calm leaves_then_dir leaves_set_up
      | simp only: split_paired_all prod.case | simp)+

lemma leaves_bootstrap_clone:
  "leaves no_faults (bootstrap_clone X E V w cipher arg stop clobber user overrides) set_up"
  unfolding bootstrap_clone_def Let_def
  by (rule leaves_then [OF leaves_clone_root] leaves_then_calm leaves_then_dir leaves_set_up
      | simp only: split_paired_all prod.case | simp)+


definition set_up_cli :: cli_ext where
  "set_up_cli = demo_cli\<lparr>cx_toml_print := (\<lambda>_. Some ''x'')\<rparr>"

definition set_up_env :: bootstrap_env where
  "set_up_env = \<lparr>be_workspace_id = ''ws'', be_key = replicate key_len (CHR ''k''), be_writer = ''wr'', be_now = 0,
     be_create = None, be_tail = None, be_stream_config = Inr (Some Infinite),
     be_basin_config = Inr (Some (Some Infinite))\<rparr>"

definition set_up_overrides :: config_overrides where
  "set_up_overrides = \<lparr>co_basin = Some ''b'', co_access_token = Some ''t'', co_account_endpoint = None,
     co_basin_endpoint = None\<rparr>"

definition set_up_host :: host where
  "set_up_host = demo_host\<lparr>h_nodes := [([''w''], HDir 493)]\<rparr>"

definition set_up_row :: daemon_state_row where
  "set_up_row = \<lparr>ds_workspace_id = ''ws'', ds_s2_basin = ''b'', ds_s2_account_endpoint = None,
     ds_s2_basin_endpoint = None, ds_daemon_writer_id = ''wr'', ds_stable_cursor = 0,
     ds_next_outbox_id = 0, ds_encryption_key = replicate key_len (CHR ''k'')\<rparr>"

lemma set_up_values:
  "workspace_config_from_overrides set_up_cli set_up_overrides default_config =
    Inr (config_set AccessToken ''t'' (config_set Basin ''b'' default_config), ''b'',
      \<lparr>sc_access_token = ''t'', sc_account_endpoint = None, sc_basin_endpoint = None\<rparr>)"
  "skip_retention_checks (config_set AccessToken ''t'' (config_set Basin ''b'' default_config)) default_config = Inr False"
  "fresh_daemon_state_row ''ws'' ''b'' \<lparr>sc_access_token = ''t'', sc_account_endpoint = None, sc_basin_endpoint = None\<rparr>
    (replicate key_len (CHR ''k'')) ''wr'' = set_up_row"
  "\<exists>d. initialize_database (demo_ext (\<lambda>_. [])) 0 set_up_row = Inr d"
  by (simp_all add: workspace_config_from_overrides_def override_value_def validate_config_value_def set_up_cli_def
      demo_cli_def set_up_overrides_def default_config_def config_set_def basin_from_config_stack_def
      parse_basin_config_value_def from_workspace_or_user_config_def or_else_def skip_retention_checks_def
      fresh_daemon_state_row_def endpoint_pair_for_metadata_def set_up_row_def Let_def
      initialize_database_def insert_daemon_state_def insert_empty_namespaces_def insert_stable_namespace_def
      insert_prior_namespace_def empty_db_def datetime_to_unix_ns_def i64_from_u64_def i64_range_def ok_or_def bind_res_def)

lemma set_up_printer:
  "cx_toml_print set_up_cli c = Some ''x''" "s2_stream_name_ok (demo_ext T) n"
  by (simp_all add: set_up_cli_def demo_ext_def)

lemma set_up_runs:
  "\<exists>b h'. bootstrap_init (demo_ext (\<lambda>_. [])) set_up_cli set_up_env (Some [''w'']) default_config set_up_overrides
      set_up_host = (Inr b, h') \<and> bp_daemon_row b = set_up_row \<and> bp_sync_root b = [''w''] \<and>
    bp_db_path b = [''w'', ''.opbox'', ''storage.db'']"
proof -
  obtain d where d: "initialize_database (demo_ext (\<lambda>_. [])) 0 set_up_row = Inr d"
    using set_up_values(4) by blast
  show ?thesis
    by (simp add: bootstrap_init_def set_up_values set_up_env_def Let_def d lift_app_def lift_db_def app_simps
      root_or_current_def canonicalize_existing_dir_def host_canonicalize_def reading_def changing_def
      ensure_sync_root_exists_def host_stat_def ensure_sync_root_unconfigured_def host_try_exists_def
      s2_client_from_config_def create_workspace_stream_def ops_stream_name_def
      warn_if_retention_not_infinite_def report_retention_def stream_config_retention_warning_def
      basin_config_retention_warning_def create_metadata_dir_def host_create_dir_def place_new_def entry_path_def
      save_workspace_config_def save_user_config_to_path_def host_create_dir_all_def secure_config_dir_def
      host_set_permissions_def write_config_file_def host_open_truncate_def host_write_all_def
      create_default_ignore_file_def host_create_new_def default_ignore_file_contents_for_root_def
      gitignore_contents_for_opboxignore_def host_read_to_string_def add_metadata_dir_to_gitignore_if_present_def
      create_initialized_database_def storage_db_path_def workspace_config_path_def metadata_dir_def
      metadata_dir_name_def ignore_path_def gitignore_path_def stat_node_def real_path_def node_at_def upt_rec
      set_up_host_def demo_host_def set_up_printer)
qed


end
