(* ===== verification/Spec2Isabelle.thy ===== *)
theory Spec2Isabelle
  imports Protocol_Actor Local_Scan Local_Contract Bootstrap Log_Reader Spy_Tap Setup
begin

text \<open>
  opbox is a sync daemon: every text file of a workspace directory has a CRDT shadow, local edits
  become CRDT updates that are appended to a shared log in S2, and remote updates are read from the
  log, merged and projected back onto the disk. This development models the Rust code of
  \<open>crates/core\<close>, \<open>crates/daemon\<close>, the client \<open>crates/client\<close> and the file systems of \<open>sim\<close>.

  Parts and how they interact. The engine (\<open>engine/actor.rs\<close>) is the conductor: it asks the
  file-system actor (\<open>fs/actor.rs\<close>) for scans, reads and guarded writes, the semantic actor
  (\<open>semantic/actor.rs\<close>) for what a scan means and what is to be written, and moves messages from the
  durable outbox to the log writer (\<open>log/writer.rs\<close>) and from the log reader (\<open>log/reader.rs\<close>) into
  the semantic actor. The semantic actor runs the transactions of \<open>semantic/service.rs\<close> on the
  workspace database. \<open>ob init\<close> and \<open>ob clone\<close> are one-shot drivers of the same actors; \<open>ob\<close> talks to
  a running daemon over a socket.

  Theories and sources (paths below \<open>crates/core/src\<close> unless a crate is named).

  \<^item> \<open>Opbox_Prelude\<close>, \<open>Ordered_Map\<close>, \<open>External\<close>: errors as sums, 64-bit ranges, \<open>BTreeMap\<close> as sorted
    association lists (\<open>bt_get\<close>, \<open>bt_insert\<close>), and the record \<open>ext\<close> of the libraries the code calls
    (\<open>yrs\<close>, \<open>similar\<close>, base64, AEAD, S2), with one executable instance \<open>demo_ext\<close> for examples.
  \<^item> \<open>Fs_Types\<close>, \<open>Namespace\<close>, \<open>Text_Doc\<close>, \<open>Log_Codec\<close>: \<open>fs/types.rs\<close>, \<open>crdt/namespace.rs\<close>,
    \<open>crdt/text_doc.rs\<close>, \<open>log/codec.rs\<close> and \<open>log/encrypt.rs\<close>. Materialization does not depend on the
    order of the document's maps, places every active claim once, the least claim wins a path;
    messages survive encoding, encryption and splitting within the sizes S2 accepts.
  \<^item> \<open>Tables\<close>, \<open>Store\<close>, \<open>Service\<close>, \<open>Import\<close>: the rows of \<open>semantic/table\<close>, the database \<open>db\<close> with one
    operation per SQL statement of \<open>semantic/transaction.rs\<close>, and the transaction bodies of
    \<open>semantic/service.rs\<close>. \<open>Outbox\<close>, \<open>Projection\<close>, \<open>Next_Work\<close>, \<open>Remote\<close>, \<open>Epochs\<close> hold their
    properties: the outbox refines a queue, projection is exact and converges, a remote batch is the
    fold of its foreign updates, a failed transaction changes nothing.
  \<^item> \<open>Semantic_Actor\<close>, \<open>Clients\<close>, \<open>Engine\<close>, \<open>Spy_Tap\<close>: the actors as records with one function per
    handler and a turn function for the \<open>select\<close> loop. \<open>Protocol\<close>, \<open>Protocol_Turns\<close>,
    \<open>Protocol_Actor\<close> compose engine and semantic actor; the invariant of all reachable states gives
    that neither panics on the other and that no phase is left waiting for nothing.
  \<^item> \<open>Disk\<close>, \<open>Local_Fs\<close>, \<open>Local_Guards\<close>, \<open>Local_Quiet\<close>, \<open>Local_Scan\<close>, \<open>Fs_Actor\<close>: \<open>fs/fio/local.rs\<close>
    over system calls that may fail and between which other processes act, and \<open>fs/actor.rs\<close>.
    \<open>Memory_Fs\<close>, \<open>Fault_Fs\<close> model \<open>sim/src/in_memory_file_io.rs\<close> and
    \<open>sim/src/fault_injecting_file_io.rs\<close>; the locale \<open>guarded_files\<close> of \<open>File_Contract\<close> states what
    callers of the trait \<open>FileIO\<close> rely on, and it is interpreted on all three.
  \<^item> \<open>Log_Writer\<close>, \<open>Log_Reader\<close>, \<open>S2_Errors\<close>: the log actors and \<open>app/s2.rs\<close>. Acknowledgements and
    deliveries are in order without gaps; what a writer session submits is what a reader delivers.
  \<^item> \<open>Bootstrap\<close>: \<open>engine/init.rs\<close> and \<open>engine/clone.rs\<close>, with termination of the outbox drain and of
    the pull for peers that keep answering.
  \<^item> \<open>Daemon_Lock\<close>, \<open>Host\<close>, \<open>Workspace\<close>, \<open>Configuration\<close>, \<open>Runtime\<close>: \<open>app/workspace.rs\<close>,
    \<open>app/user_config.rs\<close>, \<open>app/runtime.rs\<close> and \<open>crates/daemon/src/main.rs\<close>. \<open>Host\<close> is the machine a
    program runs on: a tree with links and modes, environment, output, a trace of all trees, and
    calls that may fail. The lock is a machine with a transition per system call.
  \<^item> \<open>Spy\<close>, \<open>Ipc\<close>, \<open>Cli\<close>, \<open>Setup\<close>: \<open>spy.rs\<close>, \<open>app/ipc.rs\<close> and \<open>crates/client/src/main.rs\<close>: the
    control protocol across builds, the spy stream in arbitrary chunks, configuration commands, share
    tokens, the printed clone command, and that what \<open>init\<close> and \<open>clone\<close> set up is what the daemon
    finds. Theorems on failures the code allows (two owners of a lock, a daemon that refuses its own
    id, a time that ends the engine, a share id that cannot be revoked) stand beside the models.

  State and effects. Actors and services pass their state explicitly; errors are the left side of a
  sum, a panic is the error \<open>Panicked\<close>. Channels are lists of what was sent; what peers, S2, the clock and
  random generators answer is an argument or part of an event, so a theorem holds for all answers
  unless it names a hypothesis on them.

  Bounds and fuel. Unsigned 64-bit counters are natural numbers with the checks and the wrap or
  panic of the code written out (\<open>checked_add_u64\<close>, \<open>i64_range\<close>). The scan, the pull of a clone and
  the drain of an init may not end for arbitrary peers; they are partial functions, and that they
  return is a theorem under stated conditions. \<open>follow\<close> resolves forty links as Linux does; a lock is
  acquired within eight calls when nobody interferes; \<open>extract_rounds\<close> has the length of its text as
  fuel and consumes at least three characters a round.

  Not modelled, and why. \<open>notify/\<close> hands events of the notify crate to the engine, where they are
  inputs. \<open>perf.rs\<close> only measures; \<open>sim/src/main.rs\<close> and its S2 server are test scenarios. Of the
  client, argument parsing, terminal colours, the progress bar, the formatting of spy events and the
  process calls of \<open>start\<close>, \<open>stop\<close> and \<open>logs\<close> are left out; of the daemon, the wiring of channels and
  log files; of the database, connection settings and the pool. The Windows variants of the file
  key, the socket and permissions are left out in favour of the Unix ones. Tracing and the timestamps
  of stall detection change nothing that is modelled.
\<close>

end
